(* ===== verification/Kroker_Prelude.thy ===== *)
theory Kroker_Prelude
  imports Main "HOL-Library.List_Lexorder" "HOL-Library.Char_ord"
    "HOL-Library.Product_Lexorder" "HOL-Library.AList" "HOL-Library.Multiset"
begin

text \<open>
  Prelude of the Kroker development: the Python notions that every component uses (decimal
  rendering and parsing of integers, \<open>str.rpartition\<close>, \<open>str.join\<close>, insertion-ordered
  dictionaries, stable sorting, results that may be exceptions) and the generic lemmas on lists,
  maps and sorting that the component theories share.
\<close>

section \<open>Collections of lemmas\<close>

named_theorems str_simps \<open>Evaluation of the Python string operations\<close>

section \<open>Python dictionaries and results\<close>

text \<open>
  A dictionary that the code iterates is an association list in insertion order; a dictionary
  that the code only reads and writes by key is a map.
\<close>

type_synonym ('k, 'v) dict = "('k \<times> 'v) list"

abbreviation dict_get :: "('k, 'v) dict \<Rightarrow> 'k \<Rightarrow> 'v option" where
  "dict_get \<equiv> map_of"

text \<open>\<open>d[k]\<close> for a key that is present; every use is covered by a lemma that it is.\<close>

definition dict_at :: "('k, 'v) dict \<Rightarrow> 'k \<Rightarrow> 'v" where
  "dict_at d k = the (map_of d k)"

abbreviation dict_keys :: "('k, 'v) dict \<Rightarrow> 'k list" where
  "dict_keys d \<equiv> map fst d"

text \<open>\<open>d.get(k, default)\<close>.\<close>

definition dict_get_or :: "('k, 'v) dict \<Rightarrow> 'k \<Rightarrow> 'v \<Rightarrow> 'v" where
  "dict_get_or d k v = (case map_of d k of None \<Rightarrow> v | Some x \<Rightarrow> x)"

text \<open>\<open>dict(sorted(d.items()))\<close>: keys are unique, so the values never take part in the order.\<close>

definition dict_sorted :: "('k::linorder, 'v) dict \<Rightarrow> ('k, 'v) dict" where
  "dict_sorted d = sort_key fst d"

text \<open>A dictionary built from pairs: a later pair replaces the value of an earlier one.\<close>

definition dict_of :: "('k \<times> 'v) list \<Rightarrow> ('k, 'v) dict" where
  "dict_of xs = foldl (\<lambda>d (k, v). AList.update k v d) [] xs"

text \<open>\<open>sorted(set(xs))\<close>.\<close>

definition sorted_set :: "'a::linorder list \<Rightarrow> 'a list" where
  "sorted_set xs = sort (remdups xs)"

section \<open>Strings\<close>

definition digit_char :: "nat \<Rightarrow> char" where
  "digit_char d = char_of (48 + d)"

fun nat_str :: "nat \<Rightarrow> string" where
  "nat_str n = (if n < 10 then [digit_char n] else nat_str (n div 10) @ [digit_char (n mod 10)])"

declare nat_str.simps [simp del]

definition is_digit :: "char \<Rightarrow> bool" where
  "is_digit c \<longleftrightarrow> 48 \<le> (of_char c :: nat) \<and> (of_char c :: nat) \<le> 57"

definition str_nat :: "string \<Rightarrow> nat" where
  "str_nat s = foldl (\<lambda>a c. 10 * a + (of_char c - 48)) 0 s"

text \<open>\<open>str.isdigit\<close> on ASCII text: not empty and digits only.\<close>

definition isdigit :: "string \<Rightarrow> bool" where
  "isdigit s \<longleftrightarrow> s \<noteq> [] \<and> list_all is_digit s"

text \<open>\<open>s.rpartition(c)\<close> and \<open>s.partition(c)\<close> for a one-character separator.\<close>

definition rpartition :: "char \<Rightarrow> string \<Rightarrow> string \<times> string \<times> string" where
  "rpartition c s =
     (if c \<in> set s
      then (let t = takeWhile (\<lambda>x. x \<noteq> c) (rev s)
            in (rev (drop (Suc (length t)) (rev s)), [c], rev t))
      else ([], [], s))"

definition partition_at :: "char \<Rightarrow> string \<Rightarrow> string \<times> string \<times> string" where
  "partition_at c s =
     (if c \<in> set s
      then (takeWhile (\<lambda>x. x \<noteq> c) s, [c], tl (dropWhile (\<lambda>x. x \<noteq> c) s))
      else (s, [], []))"

text \<open>\<open>sep.join(xs)\<close>.\<close>

fun str_join :: "string \<Rightarrow> string list \<Rightarrow> string" where
  "str_join sep [] = []"
| "str_join sep [x] = x"
| "str_join sep (x # xs) = x @ sep @ str_join sep xs"

text \<open>\<open>repr(s)\<close> of ASCII text: single quotes unless only they occur inside.\<close>

definition hex_digit :: "nat \<Rightarrow> char" where
  "hex_digit d = (if d < 10 then char_of (48 + d) else char_of (87 + d))"

definition repr_escape :: "char \<Rightarrow> char \<Rightarrow> string" where
  "repr_escape q c =
     (let n = of_char c :: nat in
      if c = q \<or> n = 92 then [CHR 0x5C, c]
      else if n = 10 then [CHR 0x5C, CHR ''n'']
      else if n = 13 then [CHR 0x5C, CHR ''r'']
      else if n = 9 then [CHR 0x5C, CHR ''t'']
      else if n < 32 \<or> n = 127 then [CHR 0x5C, CHR ''x'', hex_digit (n div 16), hex_digit (n mod 16)]
      else [c])"

definition py_repr :: "string \<Rightarrow> string" where
  "py_repr s =
     (let q = (if CHR 0x27 \<in> set s \<and> CHR 0x22 \<notin> set s then CHR 0x22 else CHR 0x27)
      in q # concat (map (repr_escape q) s) @ [q])"

text \<open>\<open>repr\<close> of an optional string.\<close>

definition py_repr_opt :: "string option \<Rightarrow> string" where
  "py_repr_opt x = (case x of None \<Rightarrow> ''None'' | Some s \<Rightarrow> py_repr s)"

section \<open>Lemmas on strings\<close>

lemma of_char_digit_char: "d < 10 \<Longrightarrow> of_char (digit_char d) = (48 + d :: nat)"
  by (simp add: digit_char_def)

lemma is_digit_digit_char [simp]: "d < 10 \<Longrightarrow> is_digit (digit_char d)"
  by (simp add: is_digit_def of_char_digit_char)

lemma nat_str_digits: "list_all is_digit (nat_str n)"
proof (induction n rule: nat_str.induct)
  case (1 n)
  then show ?case by (simp add: nat_str.simps [of n])
qed

lemma nat_str_not_Nil [simp]: "nat_str n \<noteq> []"
  by (simp add: nat_str.simps [of n])

lemma isdigit_nat_str [simp]: "isdigit (nat_str n)"
  by (simp add: isdigit_def nat_str_digits)

lemma str_nat_snoc: "str_nat (s @ [c]) = 10 * str_nat s + (of_char c - 48)"
  by (simp add: str_nat_def)

lemma str_nat_nat_str [simp]: "str_nat (nat_str n) = n"
proof (induction n rule: nat_str.induct)
  case (1 n)
  show ?case
  proof (cases "n < 10")
    case True
    then show ?thesis
      by (simp add: nat_str.simps [of n] str_nat_def of_char_digit_char)
  next
    case False
    with 1 show ?thesis
      by (simp add: nat_str.simps [of n] str_nat_snoc of_char_digit_char)
  qed
qed

lemma nat_str_inject [simp]: "nat_str m = nat_str n \<longleftrightarrow> m = n"
  by (metis str_nat_nat_str)

lemma not_digit_notin_nat_str: "\<not> is_digit c \<Longrightarrow> c \<notin> set (nat_str n)"
  using nat_str_digits [of n] by (auto simp: list_all_iff)

lemma hash_not_digit [simp]: "\<not> is_digit (CHR ''#'')"
  by (simp add: is_digit_def)

lemma rpartition_append:
  assumes "c \<notin> set b"
  shows "rpartition c (a @ c # b) = (a, [c], b)"
proof -
  have "takeWhile (\<lambda>x. x \<noteq> c) (rev b @ c # rev a) = rev b"
    using assms by (subst takeWhile_append2) auto
  then show ?thesis by (simp add: rpartition_def)
qed

lemma rpartition_absent: "c \<notin> set s \<Longrightarrow> rpartition c s = ([], [], s)"
  by (simp add: rpartition_def)

lemma rpartition_join:
  assumes "rpartition c s = (a, [c], b)"
  shows "s = a @ c # b \<and> c \<notin> set b"
proof -
  from assms have c: "c \<in> set s"
    by (auto simp: rpartition_def Let_def split: if_splits)
  then obtain u v where s: "s = u @ c # v" and v: "c \<notin> set v"
    by (meson split_list_last)
  with assms show ?thesis by (simp add: rpartition_append)
qed

section \<open>Lemmas on sorting\<close>

lemma sort_eq_of_mset: "mset xs = mset ys \<Longrightarrow> sort xs = sort (ys :: 'a::linorder list)"
  by (rule properties_for_sort) simp_all

lemma sorted_map_fst_of_lex:
  "sorted (map (\<lambda>x. (f x, g x)) xs) \<Longrightarrow> sorted (map (f :: 'a \<Rightarrow> 'b::linorder) xs)"
  for g :: "'a \<Rightarrow> 'c::linorder"
  by (induction xs) (auto simp: less_eq_prod_def)

text \<open>Sorting by a pair shows, in its first component, the sorted first components.\<close>

lemma map_fst_sort_key:
  "map (f :: 'a \<Rightarrow> 'b::linorder) (sort_key (\<lambda>x. (f x, g x :: 'c::linorder)) xs) = sort (map f xs)"
proof (rule properties_for_sort [symmetric])
  show "mset (map f (sort_key (\<lambda>x. (f x, g x)) xs)) = mset (map f xs)"
    by (simp only: mset_map mset_sort)
  show "sorted (map f (sort_key (\<lambda>x. (f x, g x)) xs))"
    by (rule sorted_map_fst_of_lex [where g = g]) (rule sorted_sort_key)
qed

lemma keys_update: "set (dict_keys (AList.update k v d)) = insert k (set (dict_keys d))"
  by (induction d) auto

lemma keys_delete: "set (dict_keys (AList.delete k d)) = set (dict_keys d) - {k}"
  by (induction d) auto

lemma alist_update_new: "k \<notin> set (dict_keys d) \<Longrightarrow> AList.update k v d = d @ [(k, v)]"
  by (induction d) auto

lemma set_dict_sorted [simp]: "set (dict_sorted d) = set d"
  by (simp add: dict_sorted_def)

lemma distinct_keys_sorted [simp]: "distinct (dict_keys (dict_sorted d)) = distinct (dict_keys d)"
  by (rule mset_eq_imp_distinct_iff) (simp add: dict_sorted_def)

lemma dict_get_dict_sorted:
  assumes "distinct (dict_keys d)"
  shows "dict_get (dict_sorted d) k = dict_get d k"
proof -
  have "dict_get (dict_sorted d) k = Some v \<longleftrightarrow> dict_get d k = Some v" for v
    using assms by (simp add: map_of_eq_Some_iff)
  then show ?thesis by (metis not_None_eq)
qed

lemma dict_of_aux:
  assumes "distinct (dict_keys acc)"
  shows "distinct (dict_keys (foldl (\<lambda>d (k, v). AList.update k v d) acc xs))
    \<and> set (dict_keys (foldl (\<lambda>d (k, v). AList.update k v d) acc xs)) = set (dict_keys acc) \<union> set (dict_keys xs)
    \<and> set (foldl (\<lambda>d (k, v). AList.update k v d) acc xs) \<subseteq> set acc \<union> set xs"
  using assms
proof (induction xs arbitrary: acc)
  case (Cons x xs)
  obtain k v where x: "x = (k, v)" by (cases x)
  have d: "distinct (dict_keys (AList.update k v acc))" using Cons.prems by (rule distinct_update)
  have k: "set (dict_keys (AList.update k v acc)) = insert k (set (dict_keys acc))" by (rule keys_update)
  have s: "set (AList.update k v acc) \<subseteq> insert (k, v) (set acc)" by (induction acc) auto
  note IH = Cons.IH [OF d]
  have k': "set (dict_keys (x # xs)) = insert k (set (dict_keys xs))" by (simp add: x)
  show ?case
    unfolding foldl_Cons x case_prod_conv k' [unfolded x]
  proof (intro conjI)
    show "distinct (dict_keys (foldl (\<lambda>d (k, v). AList.update k v d) (AList.update k v acc) xs))"
      using IH by simp
    show "set (dict_keys (foldl (\<lambda>d (k, v). AList.update k v d) (AList.update k v acc) xs))
        = set (dict_keys acc) \<union> insert k (set (dict_keys xs))"
      using IH k by (simp del: set_map)
    show "set (foldl (\<lambda>d (k, v). AList.update k v d) (AList.update k v acc) xs) \<subseteq> set acc \<union> set ((k, v) # xs)"
      using IH s by auto
  qed
qed simp

lemma dict_of_facts:
  "distinct (dict_keys (dict_of xs))" "set (dict_keys (dict_of xs)) = set (dict_keys xs)"
  "set (dict_of xs) \<subseteq> set xs"
  using dict_of_aux [of "[]" xs] by (simp_all add: dict_of_def)

lemma dict_of_distinct: "distinct (dict_keys xs) \<Longrightarrow> dict_of xs = xs"
proof -
  have "foldl (\<lambda>d (k, v). AList.update k v d) acc xs = acc @ xs"
    if "distinct (dict_keys (acc @ xs))" for acc
    using that
  proof (induction xs arbitrary: acc)
    case (Cons x xs)
    obtain k v where x: "x = (k, v)" by (cases x)
    have "AList.update k v acc = acc @ [x]" using Cons.prems by (auto simp: alist_update_new x)
    then show ?case using Cons.IH [of "acc @ [x]"] Cons.prems by (simp add: x)
  qed simp
  from this [of "[]"] show "distinct (dict_keys xs) \<Longrightarrow> dict_of xs = xs" by (simp add: dict_of_def)
qed

lemma set_sorted_set [simp]: "set (sorted_set xs) = set xs"
  by (simp add: sorted_set_def)

lemma distinct_sorted_set [simp]: "distinct (sorted_set xs)"
  by (simp add: sorted_set_def)

lemma sorted_sorted_set [simp]: "sorted (sorted_set xs)"
  by (simp add: sorted_set_def)

lemma map_of_map_filter:
  assumes "distinct (dict_keys d)"
  shows "map_of (List.map_filter (\<lambda>(i, e). map_option (Pair i) (f e)) d) i
    = (case map_of d i of None \<Rightarrow> None | Some e \<Rightarrow> f e)"
  using assms
proof (induction d)
  case (Cons x d)
  obtain j e where x: "x = (j, e)" by (cases x)
  have "map_of d j = None" using Cons.prems x by (simp add: map_of_eq_None_iff)
  with Cons show ?case by (cases "f e") (auto simp: x List.map_filter_simps)
qed (simp add: List.map_filter_simps)

lemma find_unique:
  assumes "distinct (map f xs)" "x \<in> set xs" "f x = k"
  shows "find (\<lambda>y. f y = k) xs = Some x"
  using assms
proof (induction xs)
  case (Cons y ys)
  show ?case
  proof (cases "f y = k")
    case True
    with Cons.prems have "x \<notin> set ys" by (metis image_eqI list.simps(9) distinct.simps(2) set_map)
    with Cons.prems True show ?thesis by simp
  next
    case False
    with Cons show ?thesis by auto
  qed
qed simp

end
