(* ===== verification/Core_Models.thy ===== *)
theory Core_Models
  imports Kroker_Prelude
begin

text \<open>
  The shared envelopes of \<open>core/models.py\<close>: gate policies, outcomes and timeout actions, the
  per-gate configuration and settings, the role configuration, a gate decision, and the
  round-scoped gate key that names both gate decisions and router activations.
\<close>

section \<open>Enumerations\<close>

datatype harness_kind = CLAUDE_CODE | OPENCODE | CURSOR | CREW

datatype gate_policy = HARD | SOFT | OFF

datatype gate_outcome = APPROVE | REJECT | REVISE

datatype timeout_action = TReject | TApprove | THold

datatype role_kind = Proposer | Harness | Research

datatype search_provider = Tavily | Exa | Fake

datatype decided_by = ByHuman | ByPolicy | ByTimeout

text \<open>The wire value of each enumeration member (\<open>StrEnum\<close> and \<open>Literal\<close>).\<close>

fun harness_value :: "harness_kind \<Rightarrow> string" where
  "harness_value CLAUDE_CODE = ''claude_code''"
| "harness_value OPENCODE = ''opencode''"
| "harness_value CURSOR = ''cursor''"
| "harness_value CREW = ''crew''"

fun policy_value :: "gate_policy \<Rightarrow> string" where
  "policy_value HARD = ''hard''"
| "policy_value SOFT = ''soft''"
| "policy_value OFF = ''off''"

fun timeout_value :: "timeout_action \<Rightarrow> string" where
  "timeout_value TReject = ''reject''"
| "timeout_value TApprove = ''approve''"
| "timeout_value THold = ''hold''"

fun role_kind_value :: "role_kind \<Rightarrow> string" where
  "role_kind_value Proposer = ''proposer''"
| "role_kind_value Harness = ''harness''"
| "role_kind_value Research = ''research''"

fun provider_value :: "search_provider \<Rightarrow> string" where
  "provider_value Tavily = ''tavily''"
| "provider_value Exa = ''exa''"
| "provider_value Fake = ''fake''"

section \<open>Configuration records\<close>

text \<open>
  A Python float that is stored and printed but never computed with is carried as its
  \<open>repr\<close> text.
\<close>

type_synonym pyfloat = string

record gate_config =
  gc_policy :: gate_policy
  gc_threshold :: pyfloat
  gc_on_timeout :: timeout_action
  gc_remind_after_hours :: "int option"
  gc_escalate_after_hours :: "int option"

definition default_gate_config :: gate_config where
  "default_gate_config =
     \<lparr>gc_policy = HARD, gc_threshold = ''0.8'', gc_on_timeout = TReject,
      gc_remind_after_hours = None, gc_escalate_after_hours = None\<rparr>"

record gate_settings =
  gs_gates :: "string \<rightharpoonup> gate_config"
  gs_default_gate_policy :: gate_policy
  gs_gate_timeout_hours :: int

record role_config =
  rc_kind :: role_kind
  rc_harness :: "harness_kind option"
  rc_model :: "string option"
  rc_layout :: "string option"
  rc_lead_harness :: "harness_kind option"
  rc_provider :: "search_provider option"
  rc_tool_files :: "string list"
  rc_instructions :: "string option"
  rc_context_budget_tokens :: int
  rc_extra_args :: "string list"
  rc_activity_timeout_hours :: "int option"
  rc_activity_heartbeat_minutes :: "int option"

definition default_role_config :: role_config where
  "default_role_config =
     \<lparr>rc_kind = Harness, rc_harness = None, rc_model = None, rc_layout = None,
      rc_lead_harness = None, rc_provider = None, rc_tool_files = [], rc_instructions = None,
      rc_context_budget_tokens = 30000, rc_extra_args = [], rc_activity_timeout_hours = None,
      rc_activity_heartbeat_minutes = None\<rparr>"

record gate_decision =
  gd_gate :: string
  gd_round :: int
  gd_outcome :: gate_outcome
  gd_decided_by :: decided_by
  gd_reviewer :: "string option"
  gd_comments :: "string option"
  gd_guidance :: "string option"
  gd_thaw_tests :: bool
  gd_decided_at :: "int option"

definition approved :: "gate_decision \<Rightarrow> bool" where
  "approved d \<longleftrightarrow> gd_outcome d = APPROVE"

record node_failure =
  nf_activation_id :: string
  nf_error_type :: string
  nf_message :: string

section \<open>Gate keys\<close>

definition int_str :: "int \<Rightarrow> string" where
  "int_str i = (if i < 0 then ''-'' @ nat_str (nat (- i)) else nat_str (nat i))"

definition gate_key :: "string \<Rightarrow> int \<Rightarrow> string" where
  "gate_key gate round = gate @ ''#'' @ int_str round"

lemma int_str_of_nat [simp]: "int_str (int n) = nat_str n"
  by (simp add: int_str_def)

lemma nat_str_no_minus: "CHR ''-'' \<notin> set (nat_str n)"
  by (rule not_digit_notin_nat_str) (simp add: is_digit_def)

lemma int_str_inject [simp]: "int_str i = int_str j \<longleftrightarrow> i = j"
proof
  assume eq: "int_str i = int_str j"
  have hd_nat: "hd (nat_str n) \<noteq> CHR ''-''" for n
    using nat_str_no_minus [of n] by (metis hd_in_set nat_str_not_Nil)
  have "i < 0 \<longleftrightarrow> j < 0"
    using eq hd_nat by (auto simp: int_str_def split: if_splits) (metis list.sel(1))+
  then show "i = j"
    using eq by (auto simp: int_str_def split: if_splits)
qed simp

lemma int_str_no_hash: "CHR ''#'' \<notin> set (int_str i)"
  by (auto simp: int_str_def not_digit_notin_nat_str)

lemma rpartition_gate_key [str_simps]:
  "rpartition (CHR ''#'') (gate_key g r) = (g, ''#'', int_str r)"
  using rpartition_append [OF int_str_no_hash [of r], of g] by (simp add: gate_key_def)

lemma gate_key_inject [simp]: "gate_key g r = gate_key g' r' \<longleftrightarrow> g = g' \<and> r = r'"
  by (metis rpartition_gate_key int_str_inject prod.inject)

end
