(* ===== verification/Graph_Model.thy ===== *)
theory Graph_Model
  imports Core_Models
begin

text \<open>
  The stored pipeline graph of \<open>graph/model.py\<close>: ports, nodes, edges and the graph itself, the
  shape checks that pydantic runs on construction, the canonical JSON of an element, and the
  normalisation that puts nodes and edges into a total order so that neither author order nor
  canvas layout reaches the graph's identity.
\<close>

section \<open>JSON\<close>

text \<open>
  \<open>json.dumps(data, sort_keys=True, separators=(",", ":"), ensure_ascii=False)\<close>.
\<close>

datatype json =
    JNull
  | JBool bool
  | JInt int
  | JFloat pyfloat
  | JStr string
  | JList "json list"
  | JObj "(string \<times> json) list"

definition json_escape :: "char \<Rightarrow> string" where
  "json_escape c =
     (let n = of_char c :: nat in
      if n = 34 then [CHR 0x5C, c]
      else if n = 92 then [c, c]
      else if n = 10 then [CHR 0x5C, CHR ''n'']
      else if n = 13 then [CHR 0x5C, CHR ''r'']
      else if n = 9 then [CHR 0x5C, CHR ''t'']
      else if n = 8 then [CHR 0x5C, CHR ''b'']
      else if n = 12 then [CHR 0x5C, CHR ''f'']
      else if n < 32 then [CHR 0x5C] @ ''u00'' @ [hex_digit (n div 16), hex_digit (n mod 16)]
      else [c])"

definition json_string :: "string \<Rightarrow> string" where
  "json_string s = CHR 0x22 # concat (map json_escape s) @ [CHR 0x22]"

fun dumps :: "json \<Rightarrow> string" where
  "dumps JNull = ''null''"
| "dumps (JBool b) = (if b then ''true'' else ''false'')"
| "dumps (JInt i) = int_str i"
| "dumps (JFloat f) = f"
| "dumps (JStr s) = json_string s"
| "dumps (JList xs) = ''['' @ str_join '','' (map dumps xs) @ '']''"
| "dumps (JObj kvs) =
     ''{'' @ str_join '',''
       (map snd (sort_key fst (map (\<lambda>(k, v). (k, json_string k @ '':'' @ dumps v)) kvs))) @ ''}''"

section \<open>Ports, nodes and edges\<close>

definition lower :: "char \<Rightarrow> bool" where
  "lower c \<longleftrightarrow> 97 \<le> (of_char c :: nat) \<and> (of_char c :: nat) \<le> 122"

definition id_rest :: "char \<Rightarrow> bool" where
  "id_rest c \<longleftrightarrow> lower c \<or> is_digit c \<or> c = CHR ''_''"

text \<open>\<open>ID_PATTERN = ^[a-z][a-z0-9_]*$\<close> and \<open>TYPE_PATTERN\<close>, which allows one dot.\<close>

definition id_ok :: "string \<Rightarrow> bool" where
  "id_ok s \<longleftrightarrow> (case s of [] \<Rightarrow> False | c # cs \<Rightarrow> lower c \<and> list_all id_rest cs)"

definition type_ok :: "string \<Rightarrow> bool" where
  "type_ok s \<longleftrightarrow>
     (case partition_at (CHR ''.'') s of (a, dot, b) \<Rightarrow> id_ok a \<and> (dot = [] \<or> id_ok b))"

datatype direction = In | Out
datatype multiplicity = One | Many
datatype terminal = TRejected | TFailed

record node_port =
  np_name :: string
  np_direction :: direction
  np_payload :: "string option"
  np_required :: bool
  np_multiplicity :: multiplicity
  np_terminal :: "terminal option"

text \<open>
  \<open>NodePort._out_ports_are_plain\<close>: out-ports are required with multiplicity one, in-ports are
  never terminal. The result is the first message of the validator.
\<close>

definition node_port_error :: "node_port \<Rightarrow> string option" where
  "node_port_error p =
     (if np_direction p = Out \<and> (np_multiplicity p \<noteq> One \<or> \<not> np_required p)
      then Some ''out-port must be required with multiplicity one''
      else if np_direction p = In \<and> np_terminal p \<noteq> None
      then Some ''in-port cannot be terminal''
      else None)"

definition node_port_ok :: "node_port \<Rightarrow> bool" where
  "node_port_ok p \<longleftrightarrow> id_ok (np_name p) \<and> node_port_error p = None"

record node_position =
  pos_x :: pyfloat
  pos_y :: pyfloat

record graph_node =
  gn_id :: string
  gn_type :: string
  gn_role :: "role_config option"
  gn_gate :: "gate_config option"
  gn_position :: "node_position option"
  gn_label :: "string option"

record graph_edge =
  ge_source :: string
  ge_source_port :: string
  ge_target :: string
  ge_target_port :: string
  ge_max_traversals :: "nat option"
  ge_label :: "string option"

text \<open>The field constraints of \<open>GraphNode\<close> and \<open>GraphEdge\<close>.\<close>

definition graph_node_ok :: "graph_node \<Rightarrow> bool" where
  "graph_node_ok n \<longleftrightarrow> id_ok (gn_id n) \<and> type_ok (gn_type n)"

definition graph_edge_ok :: "graph_edge \<Rightarrow> bool" where
  "graph_edge_ok e \<longleftrightarrow>
     id_ok (ge_source e) \<and> id_ok (ge_source_port e) \<and> id_ok (ge_target e) \<and>
     id_ok (ge_target_port e) \<and> (case ge_max_traversals e of None \<Rightarrow> True | Some k \<Rightarrow> 1 \<le> k)"

section \<open>Canonical JSON of an element\<close>

text \<open>
  \<open>model_dump(mode="json", exclude_defaults=True)\<close>: a field appears only when its value differs
  from the default, at every nesting level.
\<close>

definition opt_field :: "string \<Rightarrow> ('a \<Rightarrow> json) \<Rightarrow> 'a option \<Rightarrow> (string \<times> json) list" where
  "opt_field k f v = (case v of None \<Rightarrow> [] | Some x \<Rightarrow> [(k, f x)])"

definition neq_field :: "string \<Rightarrow> ('a \<Rightarrow> json) \<Rightarrow> 'a \<Rightarrow> 'a \<Rightarrow> (string \<times> json) list" where
  "neq_field k f d v = (if v = d then [] else [(k, f v)])"

definition json_strs :: "string list \<Rightarrow> json" where
  "json_strs xs = JList (map JStr xs)"

definition role_config_json :: "role_config \<Rightarrow> json" where
  "role_config_json r = JObj (
     neq_field ''kind'' (JStr \<circ> role_kind_value) Harness (rc_kind r)
     @ opt_field ''harness'' (JStr \<circ> harness_value) (rc_harness r)
     @ opt_field ''model'' JStr (rc_model r)
     @ opt_field ''layout'' JStr (rc_layout r)
     @ opt_field ''lead_harness'' (JStr \<circ> harness_value) (rc_lead_harness r)
     @ opt_field ''provider'' (JStr \<circ> provider_value) (rc_provider r)
     @ neq_field ''tool_files'' json_strs [] (rc_tool_files r)
     @ opt_field ''instructions'' JStr (rc_instructions r)
     @ neq_field ''context_budget_tokens'' JInt 30000 (rc_context_budget_tokens r)
     @ neq_field ''extra_args'' json_strs [] (rc_extra_args r)
     @ opt_field ''activity_timeout_hours'' JInt (rc_activity_timeout_hours r)
     @ opt_field ''activity_heartbeat_minutes'' JInt (rc_activity_heartbeat_minutes r))"

definition gate_config_json :: "gate_config \<Rightarrow> json" where
  "gate_config_json g = JObj (
     neq_field ''policy'' (JStr \<circ> policy_value) HARD (gc_policy g)
     @ neq_field ''threshold'' JFloat ''0.8'' (gc_threshold g)
     @ neq_field ''on_timeout'' (JStr \<circ> timeout_value) TReject (gc_on_timeout g)
     @ opt_field ''remind_after_hours'' JInt (gc_remind_after_hours g)
     @ opt_field ''escalate_after_hours'' JInt (gc_escalate_after_hours g))"

definition position_json :: "node_position \<Rightarrow> json" where
  "position_json p = JObj [(''x'', JFloat (pos_x p)), (''y'', JFloat (pos_y p))]"

text \<open>The node with and without its cosmetic fields \<open>position\<close> and \<open>label\<close>.\<close>

definition node_core_fields :: "graph_node \<Rightarrow> (string \<times> json) list" where
  "node_core_fields n =
     [(''id'', JStr (gn_id n)), (''type'', JStr (gn_type n))]
     @ opt_field ''role'' role_config_json (gn_role n)
     @ opt_field ''gate'' gate_config_json (gn_gate n)"

definition node_core_json :: "graph_node \<Rightarrow> json" where
  "node_core_json n = JObj (node_core_fields n)"

definition node_json :: "graph_node \<Rightarrow> json" where
  "node_json n = JObj (node_core_fields n
     @ opt_field ''position'' position_json (gn_position n)
     @ opt_field ''label'' JStr (gn_label n))"

definition edge_core_fields :: "graph_edge \<Rightarrow> (string \<times> json) list" where
  "edge_core_fields e =
     [(''source'', JStr (ge_source e)), (''source_port'', JStr (ge_source_port e)),
      (''target'', JStr (ge_target e)), (''target_port'', JStr (ge_target_port e))]
     @ opt_field ''max_traversals'' (JInt \<circ> int) (ge_max_traversals e)"

definition edge_core_json :: "graph_edge \<Rightarrow> json" where
  "edge_core_json e = JObj (edge_core_fields e)"

definition edge_json :: "graph_edge \<Rightarrow> json" where
  "edge_json e = JObj (edge_core_fields e @ opt_field ''label'' JStr (ge_label e))"

section \<open>The graph and its normal order\<close>

record pipeline_graph =
  pg_nodes :: "graph_node list"
  pg_edges :: "graph_edge list"

definition node_sort_key :: "graph_node \<Rightarrow> (string \<times> string) \<times> string" where
  "node_sort_key n = ((gn_id n, dumps (node_core_json n)), dumps (node_json n))"

definition edge_endpoints :: "graph_edge \<Rightarrow> string \<times> string \<times> string \<times> string" where
  "edge_endpoints e = (ge_source e, ge_source_port e, ge_target e, ge_target_port e)"

definition edge_sort_key ::
    "graph_edge \<Rightarrow> ((string \<times> string \<times> string \<times> string) \<times> string) \<times> string" where
  "edge_sort_key e = ((edge_endpoints e, dumps (edge_core_json e)), dumps (edge_json e))"

definition sort_nodes :: "graph_node list \<Rightarrow> graph_node list" where
  "sort_nodes ns = sort_key node_sort_key ns"

definition sort_edges :: "graph_edge list \<Rightarrow> graph_edge list" where
  "sort_edges es = sort_key edge_sort_key es"

text \<open>
  Construction of a \<open>PipelineGraph\<close> from parsed nodes and edges: every element passes its shape
  checks, and both lists come out in normal order. \<open>schema_version\<close> is the integer 1.
\<close>

definition mk_graph :: "int \<Rightarrow> graph_node list \<Rightarrow> graph_edge list \<Rightarrow> pipeline_graph option" where
  "mk_graph schema_version ns es =
     (if schema_version = 1 \<and> list_all graph_node_ok ns \<and> list_all graph_edge_ok es
      then Some \<lparr>pg_nodes = sort_nodes ns, pg_edges = sort_edges es\<rparr>
      else None)"

definition canonical_json :: "pipeline_graph \<Rightarrow> string" where
  "canonical_json g = dumps (JObj [
     (''schema_version'', JInt 1),
     (''nodes'', JList (map node_core_json (pg_nodes g))),
     (''edges'', JList (map edge_core_json (pg_edges g)))])"

definition document_json :: "pipeline_graph \<Rightarrow> string" where
  "document_json g = dumps (JObj [
     (''schema_version'', JInt 1),
     (''nodes'', JList (map node_json (pg_nodes g))),
     (''edges'', JList (map edge_json (pg_edges g)))])"

text \<open>\<open>hashlib.sha256(text).hexdigest()\<close> is a parameter: the digest of the UTF-8 text.\<close>

definition content_sha :: "(string \<Rightarrow> string) \<Rightarrow> pipeline_graph \<Rightarrow> string" where
  "content_sha sha256 g = sha256 (canonical_json g)"

definition document_sha :: "(string \<Rightarrow> string) \<Rightarrow> pipeline_graph \<Rightarrow> string" where
  "document_sha sha256 g = sha256 (document_json g)"

section \<open>Layout and author order never reach the identity\<close>

definition strip_node :: "graph_node \<Rightarrow> graph_node" where
  "strip_node n = n\<lparr>gn_position := None, gn_label := None\<rparr>"

definition strip_edge :: "graph_edge \<Rightarrow> graph_edge" where
  "strip_edge e = e\<lparr>ge_label := None\<rparr>"

lemma node_core_fields_strip [simp]: "node_core_fields (strip_node n) = node_core_fields n"
  by (simp add: node_core_fields_def strip_node_def)

lemma edge_core_fields_strip [simp]: "edge_core_fields (strip_edge e) = edge_core_fields e"
  by (simp add: edge_core_fields_def strip_edge_def)

lemma gn_id_strip [simp]: "gn_id (strip_node n) = gn_id n"
  by (simp add: strip_node_def)

lemma edge_endpoints_strip [simp]: "edge_endpoints (strip_edge e) = edge_endpoints e"
  by (simp add: edge_endpoints_def strip_edge_def)

text \<open>The prefix of the sort key that the canonical form shows.\<close>

definition node_identity :: "graph_node \<Rightarrow> string \<times> string" where
  "node_identity n = (gn_id n, dumps (node_core_json n))"

definition edge_identity :: "graph_edge \<Rightarrow> (string \<times> string \<times> string \<times> string) \<times> string" where
  "edge_identity e = (edge_endpoints e, dumps (edge_core_json e))"

lemma node_identity_strip [simp]: "node_identity (strip_node n) = node_identity n"
  by (simp add: node_identity_def node_core_json_def)

lemma edge_identity_strip [simp]: "edge_identity (strip_edge e) = edge_identity e"
  by (simp add: edge_identity_def edge_core_json_def)

lemma map_identity_sort_nodes: "map node_identity (sort_nodes ns) = sort (map node_identity ns)"
proof -
  have eq: "node_sort_key = (\<lambda>n. (node_identity n, dumps (node_json n)))"
    by (simp add: fun_eq_iff node_sort_key_def node_identity_def)
  show ?thesis unfolding sort_nodes_def eq by (rule map_fst_sort_key)
qed

lemma map_identity_sort_edges: "map edge_identity (sort_edges es) = sort (map edge_identity es)"
proof -
  have eq: "edge_sort_key = (\<lambda>e. (edge_identity e, dumps (edge_json e)))"
    by (simp add: fun_eq_iff edge_sort_key_def edge_identity_def)
  show ?thesis unfolding sort_edges_def eq by (rule map_fst_sort_key)
qed

lemma canonical_json_identity:
  assumes "map node_identity (pg_nodes g) = map node_identity (pg_nodes g')"
    and "map edge_identity (pg_edges g) = map edge_identity (pg_edges g')"
  shows "canonical_json g = canonical_json g'"
proof -
  have "map (snd \<circ> node_identity) (pg_nodes g) = map (snd \<circ> node_identity) (pg_nodes g')"
    using assms(1) by (metis list.map_comp)
  moreover have "map (snd \<circ> edge_identity) (pg_edges g) = map (snd \<circ> edge_identity) (pg_edges g')"
    using assms(2) by (metis list.map_comp)
  ultimately show ?thesis
    by (simp add: canonical_json_def comp_def node_identity_def edge_identity_def)
qed

lemma mset_strip_nodes:
  "mset (map strip_node ns) = mset (map strip_node ns') \<Longrightarrow>
     sort (map node_identity ns) = sort (map node_identity ns')"
  by (rule sort_eq_of_mset, drule arg_cong [where f = "image_mset node_identity"])
    (simp add: image_mset.compositionality comp_def flip: mset_map)

lemma mset_strip_edges:
  "mset (map strip_edge es) = mset (map strip_edge es') \<Longrightarrow>
     sort (map edge_identity es) = sort (map edge_identity es')"
  by (rule sort_eq_of_mset, drule arg_cong [where f = "image_mset edge_identity"])
    (simp add: image_mset.compositionality comp_def flip: mset_map)

section \<open>Properties\<close>

text \<open>The content hash of a graph does not depend on the order in which its author wrote the
  nodes and edges, nor on canvas positions and labels: two documents whose elements agree as
  multisets once the cosmetic fields are removed have the same \<open>content_sha\<close>.\<close>

lemma content_sha_layout_free:
  assumes "mk_graph v ns es = Some g" "mk_graph v ns' es' = Some g'"
    and "mset (map strip_node ns) = mset (map strip_node ns')"
    and "mset (map strip_edge es) = mset (map strip_edge es')"
  shows "content_sha sha256 g = content_sha sha256 g'"
proof -
  have g: "pg_nodes g = sort_nodes ns" "pg_edges g = sort_edges es"
    "pg_nodes g' = sort_nodes ns'" "pg_edges g' = sort_edges es'"
    using assms(1,2) by (auto simp: mk_graph_def split: if_splits)
  have "canonical_json g = canonical_json g'"
    by (rule canonical_json_identity)
      (simp_all add: g map_identity_sort_nodes map_identity_sort_edges
        mset_strip_nodes [OF assms(3)] mset_strip_edges [OF assms(4)])
  then show ?thesis by (simp add: content_sha_def)
qed

definition demo_node :: "string \<Rightarrow> string option \<Rightarrow> graph_node" where
  "demo_node i l = \<lparr>gn_id = i, gn_type = ''intake'', gn_role = None, gn_gate = None,
     gn_position = None, gn_label = l\<rparr>"

end
