(* ===== verification/Node_Types.thy ===== *)
theory Node_Types
  imports Graph_Model
begin

text \<open>
  The static node-type registry of \<open>graph/node_types.py\<close> with the payload allowlist of
  \<open>graph/payloads.py\<close>: the specification of a node type, the shipped catalogue, stage
  resolution, port lookup and compatibility, and the registry self-check.
\<close>

section \<open>Node type specifications\<close>

datatype node_kind = Stage | Gate

datatype budget_mode = BNone | Continuing | Exiting

record node_type_spec =
  nt_type :: string
  nt_kind :: node_kind
  nt_role :: "string option"
  nt_canonical_stage :: "string option"
  nt_ports :: "node_port list"
  nt_budget_after :: budget_mode

type_synonym registry = "(string, node_type_spec) dict"

definition in_port :: "string \<Rightarrow> string option \<Rightarrow> bool \<Rightarrow> multiplicity \<Rightarrow> node_port" where
  "in_port name payload required multiplicity =
     \<lparr>np_name = name, np_direction = In, np_payload = payload, np_required = required,
      np_multiplicity = multiplicity, np_terminal = None\<rparr>"

abbreviation in_req :: "string \<Rightarrow> string option \<Rightarrow> node_port" where
  "in_req name payload \<equiv> in_port name payload True One"

abbreviation in_opt :: "string \<Rightarrow> string option \<Rightarrow> node_port" where
  "in_opt name payload \<equiv> in_port name payload False One"

definition out_port :: "string \<Rightarrow> string option \<Rightarrow> terminal option \<Rightarrow> node_port" where
  "out_port name payload term =
     \<lparr>np_name = name, np_direction = Out, np_payload = payload, np_required = True,
      np_multiplicity = One, np_terminal = term\<rparr>"

definition fail_port :: node_port where
  "fail_port = out_port ''fail'' (Some ''NodeFailure'') (Some TFailed)"

definition reject_port :: node_port where
  "reject_port = out_port ''reject'' None (Some TRejected)"

definition halt_port :: node_port where
  "halt_port = out_port ''halt'' None (Some TFailed)"

definition gate_spec :: "string \<Rightarrow> string \<Rightarrow> string \<Rightarrow> budget_mode \<Rightarrow> node_type_spec" where
  "gate_spec type payload canonical_stage budget_after =
     \<lparr>nt_type = type, nt_kind = Gate, nt_role = None, nt_canonical_stage = Some canonical_stage,
      nt_ports =
        [in_req ''artifact'' (Some payload),
         out_port ''approve'' (Some payload) None,
         out_port ''revise'' (Some ''GateDecision'') None,
         out_port ''reject'' None (Some TRejected)],
      nt_budget_after = budget_after\<rparr>"

definition stage_spec ::
    "string \<Rightarrow> string option \<Rightarrow> string \<Rightarrow> budget_mode \<Rightarrow> node_port list \<Rightarrow> node_type_spec" where
  "stage_spec type role canonical_stage budget_after ports =
     \<lparr>nt_type = type, nt_kind = Stage, nt_role = role, nt_canonical_stage = Some canonical_stage,
      nt_ports = ports, nt_budget_after = budget_after\<rparr>"

section \<open>The shipped catalogue\<close>

definition catalog :: "node_type_spec list" where
  "catalog = [
     stage_spec ''intake'' None ''intake'' BNone
       [out_port ''ok'' None None, out_port ''brownfield'' None None, reject_port, fail_port],
     stage_spec ''context'' None ''context'' BNone
       [in_req ''trigger'' None, out_port ''map'' (Some ''CodebaseMap'') None, reject_port, fail_port],
     stage_spec ''research'' (Some ''research'') ''research'' Continuing
       [in_opt ''trigger'' None, in_opt ''guidance'' (Some ''GateDecision''),
        in_opt ''codebase_map'' (Some ''CodebaseMap''),
        out_port ''brief'' (Some ''ResearchBrief'') None, reject_port, fail_port],
     stage_spec ''clarify'' (Some ''clarify'') ''clarify'' Continuing
       [in_opt ''trigger'' None, in_opt ''codebase_map'' (Some ''CodebaseMap''),
        in_opt ''research'' (Some ''ResearchBrief''),
        out_port ''requirements'' (Some ''ClarifiedRequirements'') None, fail_port],
     stage_spec ''architect'' (Some ''architect'') ''architecture'' BNone
       [in_req ''requirements'' (Some ''ClarifiedRequirements''),
        in_opt ''codebase_map'' (Some ''CodebaseMap''), in_opt ''guidance'' (Some ''GateDecision''),
        out_port ''spec'' (Some ''ArchitectureSpec'') None, fail_port],
     stage_spec ''plan'' (Some ''planner'') ''planning'' BNone
       [in_req ''spec'' (Some ''ArchitectureSpec''),
        in_opt ''requirements'' (Some ''ClarifiedRequirements''),
        in_opt ''guidance'' (Some ''GateDecision''),
        out_port ''plan'' (Some ''ImplementationPlan'') None, fail_port],
     gate_spec ''gate.research'' ''ResearchBrief'' ''research'' BNone,
     gate_spec ''gate.architecture'' ''ArchitectureSpec'' ''architecture'' Exiting,
     gate_spec ''gate.plan'' ''ImplementationPlan'' ''planning'' Exiting,
     stage_spec ''plan_check'' None ''planning'' BNone
       [in_req ''plan'' (Some ''ImplementationPlan''),
        out_port ''ok'' (Some ''ImplementationPlan'') None, halt_port, fail_port],
     stage_spec ''seed.spec'' None ''architecture'' BNone
       [in_opt ''trigger'' None, out_port ''spec'' (Some ''ArchitectureSpec'') None, fail_port],
     stage_spec ''seed.plan'' None ''planning'' BNone
       [in_opt ''trigger'' None, out_port ''plan'' (Some ''ImplementationPlan'') None, fail_port],
     stage_spec ''code'' None ''code'' BNone
       [in_req ''plan'' (Some ''ImplementationPlan''),
        out_port ''results'' (Some ''BuildResult'') None, halt_port, fail_port],
     stage_spec ''analyze'' None ''analyze'' Continuing
       [in_req ''results'' (Some ''BuildResult''), in_req ''plan'' (Some ''ImplementationPlan''),
        out_port ''analysis'' (Some ''AnalyzeResult'') None, fail_port],
     stage_spec ''merge'' None ''quality_gate'' BNone
       [in_req ''results'' (Some ''BuildResult''), in_req ''plan'' (Some ''ImplementationPlan''),
        in_req ''spec'' (Some ''ArchitectureSpec''), in_req ''analysis'' (Some ''AnalyzeResult''),
        out_port ''pr'' (Some ''PullRequest'') None, reject_port, fail_port],
     stage_spec ''deploy'' None ''deploy'' BNone
       [in_req ''pr'' (Some ''PullRequest''), out_port ''done'' None None, fail_port]]"

definition NODE_TYPES :: registry where
  "NODE_TYPES = dict_of (map (\<lambda>s. (nt_type s, s)) catalog)"

definition UNKNOWN_STAGE :: string where
  "UNKNOWN_STAGE = ''unknown''"

definition resolve_stage :: "string \<Rightarrow> registry \<Rightarrow> string" where
  "resolve_stage node_type reg =
     (case dict_get reg node_type of
        None \<Rightarrow> UNKNOWN_STAGE
      | Some spec \<Rightarrow>
          (case nt_canonical_stage spec of None \<Rightarrow> UNKNOWN_STAGE | Some st \<Rightarrow> st))"

definition find_port :: "node_type_spec \<Rightarrow> string \<Rightarrow> direction \<Rightarrow> node_port option" where
  "find_port spec name dir =
     find (\<lambda>p. np_name p = name \<and> np_direction p = dir) (nt_ports spec)"

definition ports_compatible :: "node_port \<Rightarrow> node_port \<Rightarrow> bool" where
  "ports_compatible outp inp \<longleftrightarrow>
     np_direction outp = Out \<and> np_direction inp = In \<and> np_payload outp = np_payload inp"

section \<open>The registry self-check\<close>

definition PAYLOAD_TYPES :: "(string, string) dict" where
  "PAYLOAD_TYPES = [
     (''AnalyzeResult'', ''sdlc.workflows.models:AnalyzeResult''),
     (''ArchitectureSpec'', ''sdlc.stages.architecture.models:ArchitectureSpec''),
     (''BuildResult'', ''sdlc.workflows.models:BuildResult''),
     (''ClarifiedRequirements'', ''sdlc.stages.clarify.models:ClarifiedRequirements''),
     (''CodebaseMap'', ''sdlc.context.models:CodebaseMap''),
     (''GateDecision'', ''sdlc.core.models:GateDecision''),
     (''ImplementationPlan'', ''sdlc.stages.plan.models:ImplementationPlan''),
     (''NodeFailure'', ''sdlc.core.models:NodeFailure''),
     (''PullRequest'', ''sdlc.workflows.models:PullRequest''),
     (''ResearchBrief'', ''sdlc.stages.research.models:ResearchBrief'')]"

text \<open>
  The import system is a parameter: what \<open>getattr(import_module(module), class)\<close> gives for
  a module and a class name. \<open>ImportError\<close> carries the rendered exception, \<open>NotAModel\<close> is a
  value that is no pydantic model class, \<open>ModelClass\<close> a model class with its own name.
\<close>

datatype import_result = ImportFailed string | NotAModel | ModelClass string

definition resolve_payload :: "(string \<Rightarrow> string \<Rightarrow> import_result) \<Rightarrow> string \<Rightarrow> string option" where
  "resolve_payload import_class name =
     (case dict_get PAYLOAD_TYPES name of
        None \<Rightarrow> Some (''payload '' @ py_repr name @ '' is not in PAYLOAD_TYPES'')
      | Some target \<Rightarrow>
          (case partition_at (CHR '':'') target of (module_name, _, class_name) \<Rightarrow>
            (case import_class module_name class_name of
               ImportFailed exc \<Rightarrow>
                 Some (''payload '' @ py_repr name @ '' does not resolve ('' @ target @ ''): '' @ exc)
             | NotAModel \<Rightarrow>
                 Some (''payload '' @ py_repr name @ '' ('' @ target @ '') is not a pydantic model'')
             | ModelClass cls \<Rightarrow>
                 if cls \<noteq> name
                 then Some (''payload '' @ py_repr name @ '' resolves to class '' @ py_repr cls)
                 else None)))"

text \<open>The dictionary \<open>{p.name: p}\<close> of the out-ports: the last port of a name wins.\<close>

definition out_port_dict :: "node_type_spec \<Rightarrow> (string, node_port) dict" where
  "out_port_dict spec =
     dict_of (map (\<lambda>p. (np_name p, p)) (filter (\<lambda>p. np_direction p = Out) (nt_ports spec)))"

definition gate_shape_problems :: "node_type_spec \<Rightarrow> string list" where
  "gate_shape_problems spec =
     (let roleless = (if nt_role spec \<noteq> None then [''gate type must be role-less''] else []);
          ins = filter (\<lambda>p. np_direction p = In) (nt_ports spec);
          outs = out_port_dict spec
      in case ins of
        [p] \<Rightarrow>
          (case np_payload p of
            Some artifact \<Rightarrow>
              if np_name p \<noteq> ''artifact''
              then roleless @ [''gate type must have exactly one in-port '' @ py_repr ''artifact'' @ '' with a payload'']
              else
                let approve = dict_get outs ''approve''; reject = dict_get outs ''reject'';
                    revise = dict_get outs ''revise'';
                    extra = sort (filter (\<lambda>k. k \<notin> {''approve'', ''reject'', ''revise''}) (dict_keys outs))
                in roleless
                  @ (case approve of
                       Some a \<Rightarrow> if np_payload a = Some artifact then []
                         else [''gate out-port '' @ py_repr ''approve'' @ '' must carry the artifact payload '' @ py_repr artifact]
                     | None \<Rightarrow> [''gate out-port '' @ py_repr ''approve'' @ '' must carry the artifact payload '' @ py_repr artifact])
                  @ (case reject of
                       Some r \<Rightarrow> if np_payload r \<noteq> None then [''gate out-port '' @ py_repr ''reject'' @ '' must be a signal port'']
                         else if np_terminal r \<noteq> Some TRejected
                         then [''gate out-port '' @ py_repr ''reject'' @ '' must be terminal='' @ py_repr ''rejected''] else []
                     | None \<Rightarrow> [''gate out-port '' @ py_repr ''reject'' @ '' must be a signal port''])
                  @ (case revise of
                       Some v \<Rightarrow> if np_payload v \<noteq> Some ''GateDecision''
                         then [''gate out-port '' @ py_repr ''revise'' @ '' must carry '' @ py_repr ''GateDecision''] else []
                     | None \<Rightarrow> [])
                  @ (if extra = [] then []
                     else [''gate type has unexpected out-port(s): '' @ str_join '', '' extra])
          | None \<Rightarrow> roleless @ [''gate type must have exactly one in-port '' @ py_repr ''artifact'' @ '' with a payload''])
      | _ \<Rightarrow> roleless @ [''gate type must have exactly one in-port '' @ py_repr ''artifact'' @ '' with a payload''])"

definition CANONICAL_STAGES :: "string list" where
  "CANONICAL_STAGES = [''intake'', ''constitution'', ''context'', ''requirements'', ''research'',
     ''clarify'', ''architecture'', ''planning'', ''code'', ''review'', ''adversary'', ''handoff'',
     ''deep_review'', ''analyze'', ''qa'', ''quality_gate'', ''deploy'', ''retro'']"

definition duplicate_names :: "node_type_spec \<Rightarrow> string list" where
  "duplicate_names spec =
     (let names = map np_name (nt_ports spec)
      in sorted_set (filter (\<lambda>n. count_list names n > 1) names))"

definition spec_problems ::
    "string list \<Rightarrow> (string \<Rightarrow> string \<Rightarrow> import_result) \<Rightarrow> bool \<Rightarrow> string \<Rightarrow> node_type_spec \<Rightarrow> string list" where
  "spec_problems known_roles import_class require_mapped key spec =
     (if key \<noteq> nt_type spec
      then [key @ '': registry key does not match spec.type '' @ py_repr (nt_type spec)] else [])
     @ map (\<lambda>d. key @ '': duplicate port name '' @ py_repr d) (duplicate_names spec)
     @ concat (map (\<lambda>p. case np_payload p of None \<Rightarrow> []
                        | Some pay \<Rightarrow> (case resolve_payload import_class pay of None \<Rightarrow> []
                            | Some err \<Rightarrow> [key @ ''.'' @ np_name p @ '': '' @ err])) (nt_ports spec))
     @ (case nt_canonical_stage spec of
          None \<Rightarrow> if require_mapped then [key @ '': no canonical_stage''] else []
        | Some st \<Rightarrow> if st \<in> set CANONICAL_STAGES then []
            else [key @ '': canonical_stage '' @ py_repr st @ '' is not canonical''])
     @ (case nt_role spec of
          None \<Rightarrow> []
        | Some r \<Rightarrow> if r \<in> set known_roles then []
            else [key @ '': role '' @ py_repr r @ '' is not a known registry role''])
     @ (if nt_kind spec = Gate
        then map (\<lambda>p. key @ '': '' @ p) (gate_shape_problems spec) else [])"

definition check_node_types ::
    "string list \<Rightarrow> (string \<Rightarrow> string \<Rightarrow> import_result) \<Rightarrow> registry \<Rightarrow> bool \<Rightarrow> string list" where
  "check_node_types known_roles import_class reg require_mapped =
     sort (concat (map (\<lambda>key. spec_problems known_roles import_class require_mapped key (dict_at reg key))
                       (sort (dict_keys reg))))"

end
