(* ===== verification/Graph_Topology.thy ===== *)
theory Graph_Topology
  imports Node_Types
begin

text \<open>
  The loop structure of a pipeline graph, \<open>graph/topology.py\<close>: forward adjacency, forward
  reachability by an explicit stack, the iterative strongly-connected-component search that
  reports unbounded cycles, and the precomputed \<open>Topology\<close> on which the router runs.
\<close>

section \<open>Edges\<close>

type_synonym edge_key = "string \<times> string \<times> string \<times> string"

definition edge_key :: "graph_edge \<Rightarrow> edge_key" where
  "edge_key e = (ge_source e, ge_source_port e, ge_target e, ge_target_port e)"

definition edge_id :: "graph_edge \<Rightarrow> string" where
  "edge_id e =
     ge_source e @ ''.'' @ ge_source_port e @ ''->'' @ ge_target e @ ''.'' @ ge_target_port e"

definition is_back_edge :: "graph_edge \<Rightarrow> bool" where
  "is_back_edge e \<longleftrightarrow> ge_max_traversals e \<noteq> None"

section \<open>Forward adjacency and reachability\<close>

type_synonym adjacency = "(string, string list) dict"

definition forward_adjacency :: "string list \<Rightarrow> graph_edge list \<Rightarrow> adjacency" where
  "forward_adjacency node_ids es =
     map (\<lambda>n. (n, sorted_set (map ge_target
            (filter (\<lambda>e. \<not> is_back_edge e \<and> ge_source e = n \<and> ge_target e \<in> set node_ids) es))))
         (sorted_set node_ids)"

abbreviation succs :: "adjacency \<Rightarrow> string \<Rightarrow> string list" where
  "succs adj n \<equiv> dict_get_or adj n []"

text \<open>
  The inner loop of \<open>forward_reach\<close>: every unseen successor is marked seen and pushed. The stack
  is kept with its top first, so \<open>stack.append\<close> is \<open>#\<close> and \<open>stack.pop\<close> takes the head.
\<close>

fun push_unseen :: "string list \<Rightarrow> string list \<Rightarrow> string list \<Rightarrow> string list \<times> string list" where
  "push_unseen seen stack [] = (seen, stack)"
| "push_unseen seen stack (s # ss) =
     (if s \<in> set seen then push_unseen seen stack ss
      else push_unseen (s # seen) (s # stack) ss)"

definition adj_values :: "adjacency \<Rightarrow> string set" where
  "adj_values adj = (\<Union>(_, vs) \<in> set adj. set vs)"

lemma finite_adj_values [simp]: "finite (adj_values adj)"
  by (auto simp: adj_values_def)

lemma succs_adj_values: "set (succs adj n) \<subseteq> adj_values adj"
proof (cases "map_of adj n")
  case (Some vs)
  then have "(n, vs) \<in> set adj" by (rule map_of_SomeD)
  with Some show ?thesis by (auto simp: dict_get_or_def adj_values_def)
qed (simp add: dict_get_or_def)

lemma push_unseen_seen: "set (fst (push_unseen seen stack ss)) = set seen \<union> set ss"
  by (induction seen stack ss rule: push_unseen.induct) auto

lemma push_unseen_stack:
  "set stack \<subseteq> set seen \<Longrightarrow>
     set (snd (push_unseen seen stack ss)) = set stack \<union> (set ss - set seen)"
proof (induction seen stack ss rule: push_unseen.induct)
  case (2 seen stack s ss)
  show ?case
  proof (cases "s \<in> set seen")
    case True
    with 2 show ?thesis by auto
  next
    case False
    with "2.prems" have "set (s # stack) \<subseteq> set (s # seen)" by auto
    from "2.IH"(2) [OF False this] False "2.prems" show ?thesis by auto
  qed
qed simp

lemma push_unseen_measure:
  assumes "set ss \<subseteq> U" "finite U"
  shows "2 * card (U - set (fst (push_unseen seen stack ss))) + length (snd (push_unseen seen stack ss))
         \<le> 2 * card (U - set seen) + length stack"
  using assms
proof (induction seen stack ss rule: push_unseen.induct)
  case (2 seen stack s ss)
  show ?case
  proof (cases "s \<in> set seen")
    case True
    with 2 show ?thesis by simp
  next
    case False
    with "2.prems" have "U - set seen = insert s (U - set (s # seen))" by auto
    then have card: "card (U - set seen) = Suc (card (U - set (s # seen)))"
      using \<open>finite U\<close> by (metis DiffD2 card_insert_disjoint finite_Diff list.set_intros(1))
    have "2 * card (U - set (fst (push_unseen (s # seen) (s # stack) ss)))
          + length (snd (push_unseen (s # seen) (s # stack) ss))
          \<le> 2 * card (U - set (s # seen)) + length (s # stack)"
      using "2.IH"(2) [OF False] "2.prems" by simp
    then show ?thesis unfolding card using False by simp
  qed
qed simp

function reach_loop :: "adjacency \<Rightarrow> string list \<Rightarrow> string list \<Rightarrow> string list" where
  "reach_loop adj seen [] = seen"
| "reach_loop adj seen (n # stack) =
     (let (seen', stack') = push_unseen seen stack (succs adj n) in reach_loop adj seen' stack')"
  by pat_completeness auto
termination
proof (relation "measure (\<lambda>(adj, seen, stack). 2 * card (adj_values adj - set seen) + length stack)", goal_cases)
  case (2 adj seen n stack x seen' stack')
  have "2 * card (adj_values adj - set (fst (push_unseen seen stack (succs adj n))))
        + length (snd (push_unseen seen stack (succs adj n)))
        \<le> 2 * card (adj_values adj - set seen) + length stack"
    by (rule push_unseen_measure) (simp_all add: succs_adj_values)
  moreover from 2 have "(seen', stack') = push_unseen seen stack (succs adj n)" by simp
  ultimately show ?case by (metis (no_types, lifting) case_prod_conv fst_conv snd_conv
    in_measure le_imp_less_Suc length_Cons add_Suc_right)
qed simp

definition forward_reach :: "adjacency \<Rightarrow> string \<Rightarrow> string list" where
  "forward_reach adj start = sort (remdups (reach_loop adj [start] [start]))"

section \<open>Strongly connected components\<close>

text \<open>
  The variables of \<open>forward_cycles\<close>. \<open>stack\<close> and \<open>work\<close> are kept with their tops first; an
  entry of \<open>work\<close> is a node with the successors its iterator has not yet delivered.
\<close>

record tarjan =
  tj_index :: "string \<rightharpoonup> nat"
  tj_low :: "string \<rightharpoonup> nat"
  tj_on_stack :: "string set"
  tj_stack :: "string list"
  tj_components :: "string list list"
  tj_counter :: nat
  tj_work :: "(string \<times> string list) list"

definition tj_init :: tarjan where
  "tj_init = \<lparr>tj_index = Map.empty, tj_low = Map.empty, tj_on_stack = {}, tj_stack = [],
     tj_components = [], tj_counter = 0, tj_work = []\<rparr>"

text \<open>Give a node its index, push it, and open its successor iterator.\<close>

definition tj_enter :: "adjacency \<Rightarrow> string \<Rightarrow> tarjan \<Rightarrow> tarjan" where
  "tj_enter adj n st = st\<lparr>
     tj_index := (tj_index st)(n \<mapsto> tj_counter st),
     tj_low := (tj_low st)(n \<mapsto> tj_counter st),
     tj_counter := Suc (tj_counter st),
     tj_stack := n # tj_stack st,
     tj_on_stack := insert n (tj_on_stack st),
     tj_work := (n, succs adj n) # tj_work st\<rparr>"

definition lower_low :: "string \<Rightarrow> nat \<Rightarrow> (string \<rightharpoonup> nat) \<Rightarrow> (string \<rightharpoonup> nat)" where
  "lower_low n v lows = lows(n \<mapsto> min (the (lows n)) v)"

text \<open>The exhausted iterator: leave the node, and close its component if it is a root.\<close>

definition tj_leave :: "adjacency \<Rightarrow> string \<Rightarrow> (string \<times> string list) list \<Rightarrow> tarjan \<Rightarrow> tarjan" where
  "tj_leave adj n ws st =
     (let lown = the (tj_low st n);
          low' = (case ws of [] \<Rightarrow> tj_low st | (parent, _) # _ \<Rightarrow> lower_low parent lown (tj_low st));
          st1 = st\<lparr>tj_work := ws, tj_low := low'\<rparr>
      in if lown = the (tj_index st n) then
           (let component = takeWhile (\<lambda>m. m \<noteq> n) (tj_stack st) @ [n];
                st2 = st1\<lparr>tj_stack := tl (dropWhile (\<lambda>m. m \<noteq> n) (tj_stack st)),
                          tj_on_stack := tj_on_stack st - set component\<rparr>
            in if length component > 1 \<or> n \<in> set (succs adj n)
               then st2\<lparr>tj_components := tj_components st @ [sort component]\<rparr> else st2)
         else st1)"

text \<open>One step of \<open>while work\<close>: the next successor of the top entry, or its exhaustion.\<close>

fun tj_step :: "adjacency \<Rightarrow> (string \<times> string list) list \<Rightarrow> tarjan \<Rightarrow> tarjan" where
  "tj_step adj [] st = st"
| "tj_step adj ((n, s # ss) # ws) st =
     (let st1 = st\<lparr>tj_work := (n, ss) # ws\<rparr> in
      if tj_index st s = None then tj_enter adj s st1
      else if s \<in> tj_on_stack st then st1\<lparr>tj_low := lower_low n (the (tj_index st s)) (tj_low st)\<rparr>
      else st1)"
| "tj_step adj ((n, []) # ws) st = tj_leave adj n ws st"

definition work_nodes :: "(string \<times> string list) list \<Rightarrow> string set" where
  "work_nodes ws = (\<Union>(_, ss) \<in> set ws. set ss)"

definition tj_todo :: "adjacency \<Rightarrow> tarjan \<Rightarrow> nat" where
  "tj_todo adj st = card ((adj_values adj \<union> work_nodes (tj_work st)) - dom (tj_index st))"

definition work_size :: "(string \<times> string list) list \<Rightarrow> nat" where
  "work_size ws = sum_list (map (\<lambda>(_, ss). Suc (length ss)) ws)"

lemma finite_work_nodes [simp]: "finite (work_nodes ws)"
  by (auto simp: work_nodes_def)

lemma tj_leave_simps [simp]:
  "tj_work (tj_leave adj n ws st) = ws" "tj_index (tj_leave adj n ws st) = tj_index st"
  "tj_counter (tj_leave adj n ws st) = tj_counter st"
  by (simp_all add: tj_leave_def Let_def)

lemma tj_step_decreases:
  assumes "tj_work st \<noteq> []"
  shows "(tj_step adj (tj_work st) st, st) \<in> measures [tj_todo adj, work_size \<circ> tj_work]"
proof -
  have mono: "card (A - D) \<le> card (B - D)" if "A \<subseteq> B" "finite B" for A B D :: "string set"
    using that by (intro card_mono) auto
  obtain n ss ws where w: "tj_work st = (n, ss) # ws"
    using assms by (metis list.exhaust surj_pair)
  show ?thesis
  proof (cases ss)
    case Nil
    then have "tj_todo adj (tj_step adj (tj_work st) st) \<le> tj_todo adj st"
      unfolding tj_todo_def by (simp add: w) (rule mono, auto simp: work_nodes_def)
    with Nil show ?thesis by (auto simp: w work_size_def)
  next
    case (Cons s ss')
    show ?thesis
    proof (cases "tj_index st s = None")
      case True
      let ?U = "adj_values adj \<union> work_nodes (tj_work st)"
      have "(adj_values adj \<union> work_nodes (tj_work (tj_step adj (tj_work st) st)))
              - dom (tj_index (tj_step adj (tj_work st) st)) \<subset> ?U - dom (tj_index st)"
        using True Cons succs_adj_values [of adj s]
        by (auto simp: w tj_enter_def work_nodes_def domIff)
      then have "tj_todo adj (tj_step adj (tj_work st) st) < tj_todo adj st"
        unfolding tj_todo_def by (intro psubset_card_mono) auto
      then show ?thesis by simp
    next
      case False
      with Cons have eqs: "tj_work (tj_step adj (tj_work st) st) = (n, ss') # ws"
        "tj_index (tj_step adj (tj_work st) st) = tj_index st"
        by (auto simp: w Let_def)
      then have "tj_todo adj (tj_step adj (tj_work st) st) \<le> tj_todo adj st"
        unfolding tj_todo_def using Cons by (simp add: w) (rule mono, auto simp: work_nodes_def)
      with eqs Cons show ?thesis by (auto simp: w work_size_def)
    qed
  qed
qed

function tj_loop :: "adjacency \<Rightarrow> tarjan \<Rightarrow> tarjan" where
  "tj_loop adj st =
     (if tj_work st = [] then st else tj_loop adj (tj_step adj (tj_work st) st))"
  by pat_completeness auto
termination
proof (relation "inv_image (less_than <*lex*> less_than)
         (\<lambda>(adj, st). (tj_todo adj st, work_size (tj_work st)))", goal_cases)
  case (2 adj st)
  then show ?case using tj_step_decreases [of st adj] by auto
qed auto

declare tj_loop.simps [simp del]

definition tj_root :: "adjacency \<Rightarrow> string \<Rightarrow> tarjan \<Rightarrow> tarjan" where
  "tj_root adj root st =
     (if tj_index st root \<noteq> None then st else tj_loop adj (tj_enter adj root st))"

definition forward_cycles :: "adjacency \<Rightarrow> string list list" where
  "forward_cycles adj = sort (tj_components (fold (tj_root adj) (sort (dict_keys adj)) tj_init))"

section \<open>The topology\<close>

record port_wiring =
  pw_required :: bool
  pw_multiplicity :: multiplicity
  pw_forward_edges :: "string list"
  pw_back_edges :: "string list"

record topology =
  tp_entry :: string
  tp_node_ids :: "string list"
  tp_gate_nodes :: "string list"
  tp_edges :: "(string, edge_key) dict"
  tp_bounds :: "(string, nat) dict"
  tp_out_ports :: "(string, (string, string list) dict) dict"
  tp_in_ports :: "(string, (string, port_wiring) dict) dict"
  tp_regions :: "(string, string list) dict"
  tp_terminal_ports :: "(string, (string, terminal) dict) dict"

end
