(* ===== verification/Agent_Registry.thy ===== *)
theory Agent_Registry
  imports Core_Models
begin

text \<open>
  The agent registry checks of \<open>agents/loader.py\<close> and \<open>agents/model_ids.py\<close>: the role sets, the
  ADR-6 anti-collusion rules over a role-to-model map (the code's author and its reviewers must
  come from different model families, and the adversary must be a different model), the boot-time
  validation of the registry, and the offline validation of a proposer's model id. An exception
  \<open>RegistryError\<close> is the left value of a sum and carries its message. Reading the registry
  directory is input and output and is left out; \<open>os.environ\<close> and the provider lookups of
  \<open>pydantic_ai\<close> are parameters.
\<close>

section \<open>Role sets\<close>

definition HARNESS_ROLES :: "string list" where
  "HARNESS_ROLES = [''dev'', ''test'', ''devops'']"

definition PROPOSER_ROLES :: "string list" where
  "PROPOSER_ROLES = [''clarify'', ''architect'', ''planner'', ''qa'', ''reviewer'', ''analyst'',
     ''merge_verdict'', ''devops_planner'']"

definition REQUIRED_ROLES :: "string list" where
  "REQUIRED_ROLES = HARNESS_ROLES @ PROPOSER_ROLES"

definition OPTIONAL_ROLES :: "string list" where
  "OPTIONAL_ROLES = [''research'', ''deep_review'', ''handoff'', ''adversary'', ''discover'', ''risk'']"

definition KNOWN_ROLES :: "string list" where
  "KNOWN_ROLES = REQUIRED_ROLES @ OPTIONAL_ROLES"

section \<open>Families and ids of models\<close>

text \<open>\<open>str.strip()\<close> and \<open>str.lower()\<close> on ASCII text.\<close>

definition is_space :: "char \<Rightarrow> bool" where
  "is_space c \<longleftrightarrow> (let n = of_char c :: nat in n = 32 \<or> (9 \<le> n \<and> n \<le> 13) \<or> (28 \<le> n \<and> n \<le> 31))"

definition strip :: "string \<Rightarrow> string" where
  "strip s = rev (dropWhile is_space (rev (dropWhile is_space s)))"

definition to_lower :: "char \<Rightarrow> char" where
  "to_lower c = (let n = of_char c :: nat in if 65 \<le> n \<and> n \<le> 90 then char_of (n + 32) else c)"

definition is_sep :: "char \<Rightarrow> bool" where
  "is_sep c \<longleftrightarrow> c = CHR '':'' \<or> c = CHR ''/''"

text \<open>\<open>re.split("[:/]", model, maxsplit=1)\<close>: one or two parts.\<close>

definition split_model :: "string \<Rightarrow> string list" where
  "split_model m =
     (if list_ex is_sep m
      then [takeWhile (\<lambda>c. \<not> is_sep c) m, tl (dropWhile (\<lambda>c. \<not> is_sep c) m)] else [m])"

definition model_family :: "string \<Rightarrow> string" where
  "model_family m = map to_lower (strip (hd (split_model m)))"

definition model_id :: "string \<Rightarrow> string" where
  "model_id m = map to_lower (strip (last (split_model m)))"

section \<open>The ADR-6 checks\<close>

type_synonym check = "string + unit"

definition and_then :: "check \<Rightarrow> check \<Rightarrow> check" where
  "and_then a b = (case a of Inl e \<Rightarrow> Inl e | Inr _ \<Rightarrow> b)"

fun all_checks :: "check list \<Rightarrow> check" where
  "all_checks [] = Inr ()"
| "all_checks (c # cs) = and_then c (all_checks cs)"

definition em_dash :: string where
  "em_dash = [CHR 0xE2, CHR 0x80, CHR 0x94]"

definition quote1 :: "string \<Rightarrow> string" where
  "quote1 s = [CHR 0x27] @ s @ [CHR 0x27]"

definition check_adr6_families :: "(string, string) dict \<Rightarrow> check" where
  "check_adr6_families ms =
     (case (dict_get ms ''dev'', dict_get ms ''reviewer'') of
        (Some dev, Some rvw) \<Rightarrow>
          if model_family dev = model_family rvw
          then Inl (''ADR-6 violation: reviewer family '' @ quote1 (model_family rvw)
            @ '' equals the family of '' @ quote1 ''dev'' @ '' '' @ em_dash
            @ '' anti-collusion review requires a different model family than the developer''
            @ [CHR 0x27] @ ''s authoring model'')
          else (case dict_get ms ''deep_review'' of
                  Some dr \<Rightarrow>
                    if model_family dr = model_family dev
                    then Inl (''ADR-6 violation: deep_review family '' @ quote1 (model_family dr)
                      @ '' equals the family of '' @ quote1 ''dev'' @ '' '' @ em_dash
                      @ '' the transcript lens must not correlate with the authoring model'')
                    else Inr ()
                | None \<Rightarrow> Inr ())
      | _ \<Rightarrow> Inl (''ADR-6 check requires both '' @ quote1 ''dev'' @ '' and '' @ quote1 ''reviewer''
               @ '' models''))"

definition adversary_vs :: "(string, string) dict \<Rightarrow> string \<Rightarrow> string \<Rightarrow> check" where
  "adversary_vs ms adv other =
     (case dict_get ms other of
        None \<Rightarrow> Inr ()
      | Some peer \<Rightarrow>
          if model_id adv = model_id peer
          then Inl (''ADR-6 violation: adversary model '' @ quote1 adv @ '' is the same model as ''
            @ quote1 other @ '' ('' @ quote1 peer @ '') -- a second opinion from the same weights is not a second opinion'')
          else Inr ())"

definition check_adversary_model :: "(string, string) dict \<Rightarrow> check" where
  "check_adversary_model ms =
     (case dict_get ms ''adversary'' of
        None \<Rightarrow> Inr ()
      | Some adv \<Rightarrow> and_then (adversary_vs ms adv ''dev'') (adversary_vs ms adv ''reviewer''))"

definition validate_run_roles :: "(string, string) dict \<Rightarrow> check" where
  "validate_run_roles ms = and_then (check_adr6_families ms) (check_adversary_model ms)"

section \<open>Boot-time validation of the registry\<close>

type_synonym role_map = "(string, role_config) dict"

text \<open>The harness roles of a default \<open>PipelineConfig\<close>, which the registry must mirror.\<close>

definition default_pipeline_roles :: role_map where
  "default_pipeline_roles =
     map (\<lambda>r. (r, default_role_config\<lparr>rc_harness := Some OPENCODE, rc_model := Some ''zai-coding-plan/glm-5.3''\<rparr>))
       [''dev'', ''test'', ''devops'']"

definition fmt_opt :: "string option \<Rightarrow> string" where
  "fmt_opt v = (case v of None \<Rightarrow> ''None'' | Some s \<Rightarrow> s)"

definition list_repr :: "string list \<Rightarrow> string" where
  "list_repr xs = ''['' @ str_join '', '' (map py_repr xs) @ '']''"

definition mirror_text :: "role_config \<Rightarrow> string" where
  "mirror_text c = ''(kind='' @ role_kind_value (rc_kind c)
     @ '', harness='' @ fmt_opt (map_option harness_value (rc_harness c))
     @ '', model='' @ fmt_opt (rc_model c) @ '', layout='' @ fmt_opt (rc_layout c)
     @ '', lead_harness='' @ fmt_opt (map_option harness_value (rc_lead_harness c)) @ '')''"

definition mirror_fields ::
    "role_config \<Rightarrow> role_kind \<times> harness_kind option \<times> string option \<times> string option \<times> harness_kind option" where
  "mirror_fields c = (rc_kind c, rc_harness c, rc_model c, rc_layout c, rc_lead_harness c)"

definition mirror_role :: "role_map \<Rightarrow> role_map \<Rightarrow> string \<Rightarrow> check" where
  "mirror_role defaults roles name =
     (let reg = dict_at roles name; dflt = dict_at defaults name in
      if mirror_fields reg \<noteq> mirror_fields dflt
      then Inl (''PipelineConfig.roles['' @ quote1 name
        @ ''] does not mirror the agents/ registry (change one, change both, in the same commit): registry has ''
        @ mirror_text reg @ ''; PipelineConfig default has '' @ mirror_text dflt)
      else Inr ())"

definition validate_pipeline_mirror :: "role_map \<Rightarrow> role_map \<Rightarrow> check" where
  "validate_pipeline_mirror defaults roles =
     (if set (dict_keys defaults) \<noteq> set HARNESS_ROLES
      then Inl (''PipelineConfig.roles must mirror exactly the harness roles ''
        @ list_repr (sort HARNESS_ROLES) @ ''; it has '' @ list_repr (sort (dict_keys defaults)))
      else all_checks (map (mirror_role defaults roles) (sort HARNESS_ROLES)))"

text \<open>The provider of a research role, and the API key it needs; \<open>env\<close> is \<open>os.environ.get\<close>.\<close>

definition has_env :: "(string \<Rightarrow> string option) \<Rightarrow> string \<Rightarrow> bool" where
  "has_env env k = (case env k of None \<Rightarrow> False | Some v \<Rightarrow> v \<noteq> [])"

definition key_missing :: "string \<Rightarrow> string \<Rightarrow> string \<Rightarrow> string" where
  "key_missing name provider key =
     ''role '' @ quote1 name @ '' declares provider: '' @ provider @ '' but '' @ key @ '' is not set ''
     @ em_dash @ '' fail closed. Use provider: fake for CI/offline.''"

definition check_research :: "(string \<Rightarrow> string option) \<Rightarrow> string \<times> role_config \<Rightarrow> check" where
  "check_research env = (\<lambda>(name, cfg).
     if rc_kind cfg \<noteq> Research then Inr ()
     else case rc_provider cfg of
            None \<Rightarrow> Inl (''role '' @ quote1 name
              @ '' is kind=research and must name a provider (tavily, exa, or fake); ADR-6 does not apply ''
              @ em_dash @ '' it reviews nothing'')
          | Some Tavily \<Rightarrow> if has_env env ''TAVILY_API_KEY'' then Inr ()
                            else Inl (key_missing name ''tavily'' ''TAVILY_API_KEY'')
          | Some Exa \<Rightarrow> if has_env env ''EXA_API_KEY'' then Inr ()
                         else Inl (key_missing name ''exa'' ''EXA_API_KEY'')
          | Some Fake \<Rightarrow> Inr ())"

definition role_models_of :: "role_map \<Rightarrow> (string, string) dict" where
  "role_models_of roles = List.map_filter (\<lambda>(n, c). map_option (Pair n) (rc_model c)) roles"

definition has_model :: "role_map \<Rightarrow> string \<Rightarrow> check" where
  "has_model roles name =
     (if rc_model (dict_at roles name) = None
      then Inl (''role '' @ quote1 name @ '' must declare a model'') else Inr ())"

definition validate_registry :: "role_map \<Rightarrow> (string \<Rightarrow> string option) \<Rightarrow> role_map \<Rightarrow> check" where
  "validate_registry defaults env roles =
     (let missing = sort (filter (\<lambda>r. r \<notin> set (dict_keys roles)) REQUIRED_ROLES) in
      if missing \<noteq> []
      then Inl (''registry is missing required role(s): '' @ str_join '', '' missing)
      else and_then (and_then (has_model roles ''dev'') (has_model roles ''reviewer''))
        (let dev = dict_at roles ''dev''; rvw = dict_at roles ''reviewer'';
             dr = dict_get roles ''deep_review'';
             ms = [(''dev'', the (rc_model dev)), (''reviewer'', the (rc_model rvw))]
                  @ (case dr of Some c \<Rightarrow> [(''deep_review'', the (rc_model c))] | None \<Rightarrow> [])
         in and_then (case dr of Some c \<Rightarrow> has_model roles ''deep_review'' | None \<Rightarrow> Inr ())
            (and_then (check_adr6_families ms)
            (and_then (check_adversary_model (role_models_of roles))
            (and_then
              (if rc_kind rvw = Harness \<and> rc_harness rvw \<noteq> None \<and> rc_harness rvw = rc_harness dev
               then Inl ''deep-review harness reviewer must use a different harness than the developer''
               else Inr ())
            (and_then (all_checks (map (check_research env) roles))
              (validate_pipeline_mirror defaults roles)))))))"

section \<open>Proposer model ids\<close>

datatype provider_lookup = Provider_Known | Provider_Unknown | Provider_Not_Installed

definition reject_model :: "string \<Rightarrow> string \<Rightarrow> string \<Rightarrow> check" where
  "reject_model role v reason = Inl (''role '' @ quote1 role @ '': '' @ quote1 v
     @ '' is not a valid proposer model id ('' @ reason
     @ ''); the accepted form is provider:model, e.g. openai:gpt-5.2 (known provider, installed SDK)'')"

definition validate_proposer_model ::
    "(string \<Rightarrow> string option \<times> string) \<Rightarrow> (string \<Rightarrow> provider_lookup) \<Rightarrow> string \<Rightarrow> string \<Rightarrow> check" where
  "validate_proposer_model parse_model_id infer_provider_class role v =
     (if v = ''test''
      then reject_model role v (''the literal '' @ quote1 ''test'' @ '' resolves to TestModel, never a real provider'')
      else case parse_model_id v of
        (None, _) \<Rightarrow> reject_model role v (''no provider part '' @ em_dash
            @ '' that is the harness grammar, not provider:model'')
      | (Some provider, model) \<Rightarrow>
          if provider = [] \<or> model = [] then reject_model role v ''empty provider or model part''
          else case infer_provider_class provider of
            Provider_Known \<Rightarrow> Inr ()
          | Provider_Unknown \<Rightarrow> reject_model role v (''unknown provider '' @ quote1 provider)
          | Provider_Not_Installed \<Rightarrow> reject_model role v (''provider '' @ quote1 provider
              @ '' is known but its SDK extra is not installed''))"

section \<open>What the checks guarantee\<close>

lemma and_then_Inr [simp]: "and_then a b = Inr u \<longleftrightarrow> a = Inr () \<and> b = Inr u"
  by (auto simp: and_then_def split: sum.splits)

lemma all_checks_Inr [simp]: "all_checks cs = Inr u \<longleftrightarrow> (\<forall>c \<in> set cs. c = Inr ())"
  by (induction cs) auto

text \<open>
  The ADR-6 contract, stated on a role-to-model map without reference to the checks.
\<close>

definition adr6_ok :: "(string \<rightharpoonup> string) \<Rightarrow> bool" where
  "adr6_ok m \<longleftrightarrow> (\<exists>dev rvw. m ''dev'' = Some dev \<and> m ''reviewer'' = Some rvw \<and>
     model_family dev \<noteq> model_family rvw \<and>
     (\<forall>dr. m ''deep_review'' = Some dr \<longrightarrow> model_family dr \<noteq> model_family dev) \<and>
     (\<forall>adv. m ''adversary'' = Some adv \<longrightarrow> model_id adv \<noteq> model_id dev \<and> model_id adv \<noteq> model_id rvw))"

lemma validate_run_roles_ok: "validate_run_roles ms = Inr () \<longleftrightarrow> adr6_ok (dict_get ms)"
  by (cases "dict_get ms ''dev''"; cases "dict_get ms ''reviewer''"; cases "dict_get ms ''deep_review''";
      cases "dict_get ms ''adversary''")
    (auto simp: validate_run_roles_def check_adr6_families_def check_adversary_model_def adversary_vs_def adr6_ok_def)

lemma role_models_of_lookup:
  assumes "distinct (dict_keys roles)"
  shows "dict_get (role_models_of roles) r = Option.bind (dict_get roles r) rc_model"
  unfolding role_models_of_def map_of_map_filter [OF assms] by (cases "dict_get roles r") auto

lemma research_provider_set:
  assumes "check_research env (n, c) = Inr ()" "rc_kind c = Research"
  shows "case rc_provider c of None \<Rightarrow> False | Some Tavily \<Rightarrow> has_env env ''TAVILY_API_KEY''
    | Some Exa \<Rightarrow> has_env env ''EXA_API_KEY'' | Some Fake \<Rightarrow> True"
proof (cases "rc_provider c")
  case (Some p)
  with assms show ?thesis by (cases p) (simp_all add: check_research_def split: if_splits)
qed (use assms in \<open>simp add: check_research_def\<close>)

text \<open>C8: a registry that boots is safe. When \<open>validate_registry\<close> accepts, every required role is
  present, the models it declares satisfy ADR-6, every research role names a provider whose API
  key is set, and the harness roles are those the pipeline configuration mirrors.\<close>

theorem registry_boot_safe:
  assumes "validate_registry defaults env roles = Inr ()" "distinct (dict_keys roles)"
  shows "set REQUIRED_ROLES \<subseteq> set (dict_keys roles)
    \<and> adr6_ok (\<lambda>r. Option.bind (dict_get roles r) rc_model)
    \<and> (\<forall>(n, c) \<in> set roles. rc_kind c = Research \<longrightarrow>
         (case rc_provider c of None \<Rightarrow> False | Some Tavily \<Rightarrow> has_env env ''TAVILY_API_KEY''
          | Some Exa \<Rightarrow> has_env env ''EXA_API_KEY'' | Some Fake \<Rightarrow> True))
    \<and> (\<forall>r \<in> set HARNESS_ROLES. mirror_fields (dict_at roles r) = mirror_fields (dict_at defaults r))"
proof -
  have req: "set REQUIRED_ROLES \<subseteq> set (dict_keys roles)"
  proof (rule ccontr)
    assume "\<not> ?thesis"
    then obtain r where "r \<in> set (filter (\<lambda>r. r \<notin> set (dict_keys roles)) REQUIRED_ROLES)" by auto
    then have "sort (filter (\<lambda>r. r \<notin> set (dict_keys roles)) REQUIRED_ROLES) \<noteq> []"
      by (metis empty_iff empty_set set_sort)
    with assms(1) show False unfolding validate_registry_def Let_def by simp
  qed
  then have none: "sort (filter (\<lambda>r. r \<notin> set (dict_keys roles)) REQUIRED_ROLES) = []"
    by (simp add: filter_empty_conv subset_iff del: set_map)
  note checks = assms(1) [unfolded validate_registry_def Let_def none, simplified]
  let ?m = "\<lambda>r. Option.bind (dict_get roles r) rc_model"
  have at: "dict_get roles r = Some (dict_at roles r)" if "r \<in> set REQUIRED_ROLES" for r
  proof -
    from that req have "dict_get roles r \<noteq> None" by (auto simp: map_of_eq_None_iff)
    then show ?thesis by (auto simp: dict_at_def)
  qed
  have mem: "''dev'' \<in> set REQUIRED_ROLES" "''reviewer'' \<in> set REQUIRED_ROLES"
    by (simp_all add: REQUIRED_ROLES_def HARNESS_ROLES_def PROPOSER_ROLES_def)
  have dev: "?m ''dev'' = Some (the (rc_model (dict_at roles ''dev'')))"
    and rvw: "?m ''reviewer'' = Some (the (rc_model (dict_at roles ''reviewer'')))"
    using checks at [OF mem(1)] at [OF mem(2)] by (auto simp: has_model_def split: if_splits)
  have "check_adr6_families ((''dev'', the (rc_model (dict_at roles ''dev''))) #
      (''reviewer'', the (rc_model (dict_at roles ''reviewer''))) #
      (case dict_get roles ''deep_review'' of None \<Rightarrow> [] | Some c \<Rightarrow> [(''deep_review'', the (rc_model c))])) = Inr ()"
    using checks by blast
  moreover have "check_adversary_model (role_models_of roles) = Inr ()" using checks by blast
  moreover have "dict_get roles ''deep_review'' = Some c \<Longrightarrow> rc_model c \<noteq> None" for c
    using checks by (auto simp: has_model_def dict_at_def split: if_splits)
  ultimately have adr6: "adr6_ok ?m"
    using dev rvw unfolding adr6_ok_def check_adr6_families_def check_adversary_model_def adversary_vs_def
    by (cases "dict_get roles ''deep_review''"; cases "Option.bind (dict_get roles ''adversary'') rc_model")
      (auto simp: role_models_of_lookup [OF assms(2)] split: option.splits if_splits)
  have "check_research env p = Inr ()" if "p \<in> set roles" for p using checks that by blast
  then have research: "\<forall>(n, c) \<in> set roles. rc_kind c = Research \<longrightarrow>
         (case rc_provider c of None \<Rightarrow> False | Some Tavily \<Rightarrow> has_env env ''TAVILY_API_KEY''
          | Some Exa \<Rightarrow> has_env env ''EXA_API_KEY'' | Some Fake \<Rightarrow> True)"
    using research_provider_set by blast
  have "\<forall>r \<in> set HARNESS_ROLES. mirror_fields (dict_at roles r) = mirror_fields (dict_at defaults r)"
    using checks by (auto simp: validate_pipeline_mirror_def mirror_role_def Let_def split: if_splits)
  with req adr6 research show ?thesis by blast
qed

definition shipped_roles :: role_map where
  "shipped_roles = default_pipeline_roles
     @ map (\<lambda>r. (r, default_role_config\<lparr>rc_kind := Proposer, rc_model := Some ''zai:glm-5.3''\<rparr>)) PROPOSER_ROLES
     @ [(''adversary'', default_role_config\<lparr>rc_kind := Proposer, rc_model := Some ''anthropic:claude-sonnet-5''\<rparr>),
        (''research'', default_role_config\<lparr>rc_kind := Research, rc_model := Some ''zai:glm-5.3'', rc_provider := Some Exa\<rparr>)]"

definition exa_env :: "string \<Rightarrow> string option" where
  "exa_env k = (if k = ''EXA_API_KEY'' then Some ''key'' else None)"

theorem registry_boot_safe_witness:
  "validate_registry default_pipeline_roles exa_env shipped_roles = Inr () \<and>
   adr6_ok (\<lambda>r. Option.bind (dict_get shipped_roles r) rc_model)"
proof -
  have ok: "validate_registry default_pipeline_roles exa_env shipped_roles = Inr ()" by code_simp
  have "distinct (dict_keys shipped_roles)" by code_simp
  from registry_boot_safe [OF ok this] ok show ?thesis by blast
qed

end
