(* ===== verification/Graph_Validate.thy ===== *)
theory Graph_Validate
  imports Graph_Topology Agent_Registry
begin

text \<open>
  Graph legality, \<open>graph/validate.py\<close>: every group of checks as a list of problems, the
  construction of the \<open>Topology\<close>, and \<open>validate\<close> itself, which returns the sorted problems or,
  when there are none, the topology the router runs on.
\<close>

section \<open>Problems\<close>

datatype problem_code =
    DUPLICATE_NODE_ID | DUPLICATE_EDGE
  | DANGLING_ENDPOINT | UNKNOWN_NODE_TYPE | UNKNOWN_PORT | INCOMPATIBLE_PORTS
  | ROLE_ON_ROLELESS_TYPE | GATE_ON_NON_GATE | LOADER_OWNED_FIELD | ROLE_NOT_IN_REGISTRY
  | ROLE_KIND_MISMATCH | ROLE_HARNESS_MISSING | RESEARCH_PROVIDER_MISSING | ROLE_MODEL_INVALID
  | ADR6_VIOLATION | ADR6_COMBINATIONS_EXCEEDED | RESERVED_GATE_NAME
  | REQUIRED_IN_PORT_UNCONNECTED | MIXED_IN_PORT | BACK_PORT_NOT_EXCLUSIVE | BACK_EDGE_INTO_MANY
  | ONE_PORT_MULTIPLE_SOURCES
  | FORWARD_CYCLE | BOUNDED_EDGE_NOT_A_LOOP | ENTRY_COUNT | UNREACHABLE_NODE

fun code_value :: "problem_code \<Rightarrow> string" where
  "code_value DUPLICATE_NODE_ID = ''duplicate_node_id''"
| "code_value DUPLICATE_EDGE = ''duplicate_edge''"
| "code_value DANGLING_ENDPOINT = ''dangling_endpoint''"
| "code_value UNKNOWN_NODE_TYPE = ''unknown_node_type''"
| "code_value UNKNOWN_PORT = ''unknown_port''"
| "code_value INCOMPATIBLE_PORTS = ''incompatible_ports''"
| "code_value ROLE_ON_ROLELESS_TYPE = ''role_on_roleless_type''"
| "code_value GATE_ON_NON_GATE = ''gate_on_non_gate''"
| "code_value LOADER_OWNED_FIELD = ''loader_owned_field''"
| "code_value ROLE_NOT_IN_REGISTRY = ''role_not_in_registry''"
| "code_value ROLE_KIND_MISMATCH = ''role_kind_mismatch''"
| "code_value ROLE_HARNESS_MISSING = ''role_harness_missing''"
| "code_value RESEARCH_PROVIDER_MISSING = ''research_provider_missing''"
| "code_value ROLE_MODEL_INVALID = ''role_model_invalid''"
| "code_value ADR6_VIOLATION = ''adr6_violation''"
| "code_value ADR6_COMBINATIONS_EXCEEDED = ''adr6_combinations_exceeded''"
| "code_value RESERVED_GATE_NAME = ''reserved_gate_name''"
| "code_value REQUIRED_IN_PORT_UNCONNECTED = ''required_in_port_unconnected''"
| "code_value MIXED_IN_PORT = ''mixed_in_port''"
| "code_value BACK_PORT_NOT_EXCLUSIVE = ''back_port_not_exclusive''"
| "code_value BACK_EDGE_INTO_MANY = ''back_edge_into_many''"
| "code_value ONE_PORT_MULTIPLE_SOURCES = ''one_port_multiple_sources''"
| "code_value FORWARD_CYCLE = ''forward_cycle''"
| "code_value BOUNDED_EDGE_NOT_A_LOOP = ''bounded_edge_not_a_loop''"
| "code_value ENTRY_COUNT = ''entry_count''"
| "code_value UNREACHABLE_NODE = ''unreachable_node''"

definition RESERVED_GATE_NAMES :: "string list" where
  "RESERVED_GATE_NAMES = [''budget'', ''clarify'', ''crew_question'', ''deploy'', ''deploy_failed'',
     ''merge'', ''readiness'', ''risk'', ''tidy_up'', ''tool_approval'']"

definition ADR6_COMBINATION_CAP :: nat where
  "ADR6_COMBINATION_CAP = 256"

record problem =
  pb_code :: problem_code
  pb_message :: string
  pb_node :: "string option"
  pb_edge :: "edge_key option"
  pb_port :: "string option"

definition mk_problem ::
    "problem_code \<Rightarrow> string option \<Rightarrow> edge_key option \<Rightarrow> string option \<Rightarrow> string \<Rightarrow> problem" where
  "mk_problem c n e p m = \<lparr>pb_code = c, pb_message = m, pb_node = n, pb_edge = e, pb_port = p\<rparr>"

text \<open>\<open>Problem.sort_key\<close>; the edge tuple, or the empty tuple, is compared as a list.\<close>

definition problem_sort_key :: "problem \<Rightarrow> string \<times> string \<times> string list \<times> string \<times> string" where
  "problem_sort_key p =
     (code_value (pb_code p), (case pb_node p of None \<Rightarrow> [] | Some n \<Rightarrow> n),
      (case pb_edge p of None \<Rightarrow> [] | Some (a, b, c, d) \<Rightarrow> [a, b, c, d]),
      (case pb_port p of None \<Rightarrow> [] | Some q \<Rightarrow> q), pb_message p)"

record validation_report =
  vr_problems :: "problem list"
  vr_topology :: "topology option"

definition names_repr :: "string list \<Rightarrow> string" where
  "names_repr xs = str_join '', '' (map py_repr (sort xs))"

section \<open>T1: identity\<close>

text \<open>\<open>sorted(Counter(xs).items())\<close>.\<close>

definition counter :: "'a::linorder list \<Rightarrow> ('a \<times> nat) list" where
  "counter xs = map (\<lambda>x. (x, count_list xs x)) (sorted_set xs)"

definition key_text :: "edge_key \<Rightarrow> string" where
  "key_text k = (case k of (a, b, c, d) \<Rightarrow> a @ ''.'' @ b @ ''->'' @ c @ ''.'' @ d)"

definition identity_problems :: "pipeline_graph \<Rightarrow> problem list" where
  "identity_problems g =
     map (\<lambda>(node_id, n). mk_problem DUPLICATE_NODE_ID (Some node_id) None None
            (''node id '' @ py_repr node_id @ '' is used by '' @ nat_str n @ '' nodes''))
         (filter (\<lambda>(_, n). n > 1) (counter (map gn_id (pg_nodes g))))
     @ map (\<lambda>(key, n). mk_problem DUPLICATE_EDGE None (Some key) None
            (''edge '' @ key_text key @ '' appears '' @ nat_str n @ '' times''))
         (filter (\<lambda>(_, n). n > 1) (counter (map edge_key (pg_edges g))))"

definition first_nodes :: "pipeline_graph \<Rightarrow> (string, graph_node) dict" where
  "first_nodes g =
     foldl (\<lambda>d n. if gn_id n \<in> set (dict_keys d) then d else d @ [(gn_id n, n)]) [] (pg_nodes g)"

section \<open>T2: references\<close>

definition spec_of :: "(string, graph_node) dict \<Rightarrow> registry \<Rightarrow> string \<Rightarrow> node_type_spec option" where
  "spec_of nodes registry node_id =
     (case dict_get nodes node_id of None \<Rightarrow> None | Some n \<Rightarrow> dict_get registry (gn_type n))"

definition dangling_problem :: "(string, graph_node) dict \<Rightarrow> graph_edge \<Rightarrow> string \<Rightarrow> string \<Rightarrow> problem list" where
  "dangling_problem nodes e role endpoint =
     (if endpoint \<in> set (dict_keys nodes) then []
      else [mk_problem DANGLING_ENDPOINT None (Some (edge_key e)) None
              (''edge '' @ edge_id e @ '': '' @ role @ '' '' @ py_repr endpoint @ '' names no node'')])"

definition unknown_port_problem ::
    "graph_edge \<Rightarrow> string \<Rightarrow> string \<Rightarrow> string \<Rightarrow> node_type_spec option \<Rightarrow> node_port option \<Rightarrow> problem list" where
  "unknown_port_problem e node port word spec found =
     (case (spec, found) of
        (Some sp, None) \<Rightarrow>
          [mk_problem UNKNOWN_PORT (Some node) (Some (edge_key e)) (Some port)
             (''edge '' @ edge_id e @ '': '' @ py_repr (nt_type sp) @ '' has no '' @ word @ '' '' @ py_repr port)]
      | _ \<Rightarrow> [])"

definition edge_reference_problems ::
    "(string, graph_node) dict \<Rightarrow> registry \<Rightarrow> graph_edge \<Rightarrow> problem list" where
  "edge_reference_problems nodes registry e =
     (let source_spec = spec_of nodes registry (ge_source e);
          target_spec = spec_of nodes registry (ge_target e);
          outp = (case source_spec of None \<Rightarrow> None | Some sp \<Rightarrow> find_port sp (ge_source_port e) Out);
          inp = (case target_spec of None \<Rightarrow> None | Some sp \<Rightarrow> find_port sp (ge_target_port e) In)
      in dangling_problem nodes e ''source'' (ge_source e)
         @ dangling_problem nodes e ''target'' (ge_target e)
         @ unknown_port_problem e (ge_source e) (ge_source_port e) ''out-port'' source_spec outp
         @ unknown_port_problem e (ge_target e) (ge_target_port e) ''in-port'' target_spec inp
         @ (case (outp, inp) of
              (Some op, Some ip) \<Rightarrow>
                if ports_compatible op ip then []
                else [mk_problem INCOMPATIBLE_PORTS None (Some (edge_key e)) None
                        (''edge '' @ edge_id e @ '': payload '' @ py_repr_opt (np_payload op)
                         @ '' does not connect to '' @ py_repr_opt (np_payload ip))]
            | _ \<Rightarrow> []))"

definition node_type_problem :: "registry \<Rightarrow> string \<times> graph_node \<Rightarrow> problem list" where
  "node_type_problem registry = (\<lambda>(node_id, n).
     if gn_type n \<in> set (dict_keys registry) then []
     else [mk_problem UNKNOWN_NODE_TYPE (Some node_id) None None
             (''node '' @ py_repr node_id @ '' has unknown type '' @ py_repr (gn_type n))])"

definition reference_problems ::
    "pipeline_graph \<Rightarrow> (string, graph_node) dict \<Rightarrow> registry \<Rightarrow> problem list" where
  "reference_problems g nodes registry =
     concat (map (node_type_problem registry) nodes)
     @ concat (map (edge_reference_problems nodes registry) (pg_edges g))"

section \<open>T3: node configuration\<close>

text \<open>
  \<open>check_model role model\<close> stands for \<open>validate_proposer_model\<close> over the installed framework.
\<close>

definition role_override_problems ::
    "(string \<Rightarrow> string \<Rightarrow> check) \<Rightarrow> string \<Rightarrow> string \<Rightarrow> role_kind \<Rightarrow> role_config \<Rightarrow> problem list" where
  "role_override_problems check_model node_id role expected r =
     (let add = (\<lambda>c m. [mk_problem c (Some node_id) None None m]) in
      if rc_kind r \<noteq> expected
      then add ROLE_KIND_MISMATCH (''role override kind '' @ py_repr (role_kind_value (rc_kind r))
             @ '' != registry '' @ py_repr role @ '' kind '' @ py_repr (role_kind_value expected)
             @ '' (an empty `role: {}` defaults to '' @ quote1 ''harness'' @ '')'')
      else if rc_kind r = Harness \<and> rc_harness r = None
      then add ROLE_HARNESS_MISSING ''a harness-kind role override must name a harness''
      else if rc_kind r = Research \<and> rc_provider r = None
      then add RESEARCH_PROVIDER_MISSING ''a research-kind role override must name a provider''
      else case (rc_kind r, rc_model r) of
        (Proposer, Some m) \<Rightarrow>
          (case check_model role m of Inl msg \<Rightarrow> add ROLE_MODEL_INVALID msg | Inr _ \<Rightarrow> [])
      | _ \<Rightarrow> [])"

definition node_problems ::
    "(string \<Rightarrow> string \<Rightarrow> check) \<Rightarrow> registry \<Rightarrow> role_map \<Rightarrow> string \<times> graph_node \<Rightarrow> problem list" where
  "node_problems check_model registry roles = (\<lambda>(node_id, n).
     let add = (\<lambda>c m. [mk_problem c (Some node_id) None None m]) in
     case dict_get registry (gn_type n) of
       None \<Rightarrow> []
     | Some spec \<Rightarrow>
         (if nt_kind spec = Gate \<and> node_id \<in> set RESERVED_GATE_NAMES
          then add RESERVED_GATE_NAME (''gate node id '' @ py_repr node_id
                 @ '' is a gate name handlers use outside graphs'') else [])
         @ (if gn_gate n \<noteq> None \<and> nt_kind spec \<noteq> Gate
            then add GATE_ON_NON_GATE (py_repr (gn_type n) @ '' is not a gate type'') else [])
         @ (case gn_role n of
              Some r \<Rightarrow>
                if rc_instructions r \<noteq> None \<or> rc_tool_files r \<noteq> []
                then add LOADER_OWNED_FIELD
                  ''role.instructions and role.tool_files are loaded from agents/<role>/, never set on a node''
                else []
            | None \<Rightarrow> [])
         @ (case nt_role spec of
              None \<Rightarrow>
                if gn_role n \<noteq> None
                then add ROLE_ON_ROLELESS_TYPE (py_repr (gn_type n) @ '' has no role'') else []
            | Some role \<Rightarrow>
                (case dict_get roles role of
                   None \<Rightarrow> add ROLE_NOT_IN_REGISTRY (py_repr (gn_type n) @ '' needs role '' @ py_repr role
                             @ '', which the loaded registry lacks'')
                 | Some cfg \<Rightarrow>
                     (case gn_role n of
                        None \<Rightarrow> []
                      | Some r \<Rightarrow> role_override_problems check_model node_id role (rc_kind cfg) r))))"

text \<open>
  ADR-6 over a graph: the models a role can run with are those of the nodes that use it, or the
  registry's model when no node does. The empty string is falsy.
\<close>

definition effective_model :: "role_map \<Rightarrow> registry \<Rightarrow> graph_node \<Rightarrow> (string \<times> string) option" where
  "effective_model roles registry n =
     (case dict_get registry (gn_type n) of
        None \<Rightarrow> None
      | Some spec \<Rightarrow>
          (case nt_role spec of
             None \<Rightarrow> None
           | Some role \<Rightarrow>
               (case dict_get roles role of
                  None \<Rightarrow> None
                | Some cfg \<Rightarrow>
                    map_option (Pair role)
                      (case gn_role n of
                         None \<Rightarrow> rc_model cfg
                       | Some r \<Rightarrow> (case rc_model r of
                                     None \<Rightarrow> rc_model cfg
                                   | Some m \<Rightarrow> if m = [] then rc_model cfg else Some m)))))"

definition used_models ::
    "(string, graph_node) dict \<Rightarrow> registry \<Rightarrow> role_map \<Rightarrow> (string \<times> string) list" where
  "used_models nodes registry roles = List.map_filter (effective_model roles registry) (map snd nodes)"

definition role_choices ::
    "(string, graph_node) dict \<Rightarrow> registry \<Rightarrow> role_map \<Rightarrow> (string, string list) dict" where
  "role_choices nodes registry roles =
     (let used = used_models nodes registry roles;
          base = role_models_of roles in
      map (\<lambda>r. (r, if r \<in> fst ` set used
                   then sorted_set (map snd (filter (\<lambda>(r', _). r' = r) used))
                   else [dict_at base r]))
          (sorted_set (dict_keys base @ map fst used)))"

definition combo_message :: "string list \<Rightarrow> string list \<Rightarrow> string option" where
  "combo_message names combo =
     (case validate_run_roles (zip names combo) of Inl m \<Rightarrow> Some m | Inr _ \<Rightarrow> None)"

definition adr6_problems ::
    "(string, graph_node) dict \<Rightarrow> registry \<Rightarrow> role_map \<Rightarrow> problem list" where
  "adr6_problems nodes registry roles =
     (let models = role_choices nodes registry roles;
          names = dict_keys models;
          choices = map snd models;
          total = prod_list (map length choices) in
      if total > ADR6_COMBINATION_CAP
      then [mk_problem ADR6_COMBINATIONS_EXCEEDED None None None
              (nat_str total @ '' role->model combinations exceed the ADR-6 check cap of ''
               @ nat_str ADR6_COMBINATION_CAP)]
      else map (mk_problem ADR6_VIOLATION None None None)
             (sorted_set (List.map_filter (combo_message names) (product_lists choices))))"

definition node_config_problems ::
    "(string \<Rightarrow> string \<Rightarrow> check) \<Rightarrow> (string, graph_node) dict \<Rightarrow> registry \<Rightarrow> role_map \<Rightarrow> problem list" where
  "node_config_problems check_model nodes registry roles =
     concat (map (node_problems check_model registry roles) nodes) @ adr6_problems nodes registry roles"

section \<open>T4: wiring\<close>

definition duplicated_keys :: "pipeline_graph \<Rightarrow> edge_key set" where
  "duplicated_keys g = set (map fst (filter (\<lambda>(_, n). n > 1) (counter (map edge_key (pg_edges g)))))"

definition port_resolves :: "(string, graph_node) dict \<Rightarrow> registry \<Rightarrow> string \<Rightarrow> string \<Rightarrow> direction \<Rightarrow> bool" where
  "port_resolves nodes registry node_id port dir =
     (case spec_of nodes registry node_id of None \<Rightarrow> False | Some sp \<Rightarrow> find_port sp port dir \<noteq> None)"

definition in_port_problems :: "pipeline_graph \<Rightarrow> string \<Rightarrow> node_port \<Rightarrow> problem list" where
  "in_port_problems g node_id port =
     (let incoming = filter (\<lambda>e. ge_target e = node_id \<and> ge_target_port e = np_name port) (pg_edges g);
          classified = filter (\<lambda>e. edge_key e \<notin> duplicated_keys g) incoming;
          forward = filter (\<lambda>e. \<not> is_back_edge e) classified;
          back = filter is_back_edge classified;
          connected_by_duplicate = length classified < length incoming;
          at = node_id @ ''.'' @ np_name port
      in (if np_required port \<and> forward = [] \<and> \<not> connected_by_duplicate
          then [mk_problem REQUIRED_IN_PORT_UNCONNECTED (Some node_id) None (Some (np_name port))
                  (''required in-port '' @ at @ '' has no forward (unbounded) in-edge'')] else [])
         @ (if forward \<noteq> [] \<and> back \<noteq> []
            then [mk_problem MIXED_IN_PORT (Some node_id) None (Some (np_name port))
                    (''in-port '' @ at @ '' mixes forward and loop in-edges'')] else [])
         @ (if np_multiplicity port = Many
            then map (\<lambda>e. mk_problem BACK_EDGE_INTO_MANY None (Some (edge_key e)) None
                    (''loop edge '' @ edge_id e @ '' targets a collect (many) port'')) back
            else if length (remdups (map ge_source forward)) > 1
            then [mk_problem ONE_PORT_MULTIPLE_SOURCES (Some node_id) None (Some (np_name port))
                    (''in-port '' @ at @ '' takes one token but is fed by ''
                     @ names_repr (remdups (map ge_source forward))
                     @ ''; only distinct out-ports of ONE node are mutually exclusive'')] else []))"

definition node_wiring_problems ::
    "pipeline_graph \<Rightarrow> registry \<Rightarrow> string \<times> graph_node \<Rightarrow> problem list" where
  "node_wiring_problems g registry = (\<lambda>(node_id, n).
     case dict_get registry (gn_type n) of
       None \<Rightarrow> []
     | Some spec \<Rightarrow>
         concat (map (in_port_problems g node_id)
           (sort_key np_name (filter (\<lambda>p. np_direction p = In) (nt_ports spec)))))"

definition out_port_problems :: "pipeline_graph \<Rightarrow> (string, graph_node) dict \<Rightarrow> registry \<Rightarrow> problem list" where
  "out_port_problems g nodes registry =
     (let es = filter (\<lambda>e. edge_key e \<notin> duplicated_keys g
                 \<and> port_resolves nodes registry (ge_source e) (ge_source_port e) Out) (pg_edges g)
      in concat (map (\<lambda>(source, source_port).
           let here = filter (\<lambda>e. (ge_source e, ge_source_port e) = (source, source_port)) es in
           if length here > 1 \<and> list_ex is_back_edge here
           then [mk_problem BACK_PORT_NOT_EXCLUSIVE (Some source) None (Some source_port)
                   (''out-port '' @ source @ ''.'' @ source_port
                    @ '' carries a loop edge, so it must carry no other edge'')] else [])
         (sorted_set (map (\<lambda>e. (ge_source e, ge_source_port e)) es))))"

definition wiring_problems ::
    "pipeline_graph \<Rightarrow> (string, graph_node) dict \<Rightarrow> registry \<Rightarrow> problem list" where
  "wiring_problems g nodes registry =
     concat (map (node_wiring_problems g registry) nodes) @ out_port_problems g nodes registry"

section \<open>T5: topology\<close>

definition entry_nodes :: "pipeline_graph \<Rightarrow> string list \<Rightarrow> string list" where
  "entry_nodes g node_ids =
     filter (\<lambda>n. n \<notin> set (map ge_target (filter (\<lambda>e. \<not> is_back_edge e) (pg_edges g)))) node_ids"

definition topology_problems :: "pipeline_graph \<Rightarrow> string list \<Rightarrow> problem list" where
  "topology_problems g node_ids =
     (let adjacency = forward_adjacency node_ids (pg_edges g);
          entries = entry_nodes g node_ids in
      map (\<lambda>component. mk_problem FORWARD_CYCLE (Some (hd component)) None None
             (''unbounded cycle through '' @ names_repr component @ ''; set max_traversals on the loop edge''))
          (forward_cycles adjacency)
      @ concat (map (\<lambda>e.
          if is_back_edge e \<and> ge_source e \<notin> set (forward_reach adjacency (ge_target e))
          then [mk_problem BOUNDED_EDGE_NOT_A_LOOP None (Some (edge_key e)) None
                  (''edge '' @ edge_id e @ '' carries max_traversals but closes no cycle'')] else [])
          (pg_edges g))
      @ (if length entries \<noteq> 1
         then [mk_problem ENTRY_COUNT None None None
                 (''a graph needs exactly one entry node (no forward in-edge); found ''
                  @ nat_str (length entries) @ '': '' @ names_repr entries)]
         else concat (map (\<lambda>n.
                if n \<in> set (forward_reach adjacency (hd entries)) then []
                else [mk_problem UNREACHABLE_NODE (Some n) None None
                        (''node '' @ py_repr n @ '' is not reachable from entry '' @ py_repr (hd entries))])
              node_ids)))"

section \<open>The topology\<close>

definition edges_by_id :: "pipeline_graph \<Rightarrow> (string, graph_edge) dict" where
  "edges_by_id g = dict_sorted (dict_of (map (\<lambda>e. (edge_id e, e)) (pg_edges g)))"

text \<open>\<open>sorted(spec.ports, key=lambda p: (p.direction, p.name))\<close>: in-ports first.\<close>

definition sorted_ports :: "node_type_spec \<Rightarrow> node_port list" where
  "sorted_ports spec = sort_key (\<lambda>p. (np_direction p = Out, np_name p)) (nt_ports spec)"

definition build_outs :: "(string, graph_edge) dict \<Rightarrow> string \<Rightarrow> node_type_spec \<Rightarrow> (string, string list) dict" where
  "build_outs by_id node_id spec =
     dict_sorted (dict_of (map (\<lambda>p. (np_name p,
         map fst (filter (\<lambda>(_, e). ge_source e = node_id \<and> ge_source_port e = np_name p) by_id)))
       (filter (\<lambda>p. np_direction p = Out) (sorted_ports spec))))"

definition build_terms :: "node_type_spec \<Rightarrow> (string, terminal) dict" where
  "build_terms spec =
     dict_sorted (dict_of (List.map_filter (\<lambda>p. map_option (Pair (np_name p)) (np_terminal p))
       (filter (\<lambda>p. np_direction p = Out) (sorted_ports spec))))"

definition port_incoming :: "(string, graph_edge) dict \<Rightarrow> string \<Rightarrow> string \<Rightarrow> (string, graph_edge) dict" where
  "port_incoming by_id node_id q = filter (\<lambda>(_, e). ge_target e = node_id \<and> ge_target_port e = q) by_id"

definition build_ins :: "(string, graph_edge) dict \<Rightarrow> string \<Rightarrow> node_type_spec \<Rightarrow> (string, port_wiring) dict" where
  "build_ins by_id node_id spec =
     dict_sorted (dict_of (map (\<lambda>p. (np_name p,
         let incoming = port_incoming by_id node_id (np_name p) in
         \<lparr>pw_required = np_required p, pw_multiplicity = np_multiplicity p,
          pw_forward_edges = map fst (filter (\<lambda>(_, e). \<not> is_back_edge e) incoming),
          pw_back_edges = map fst (filter (\<lambda>(_, e). is_back_edge e) incoming)\<rparr>))
       (filter (\<lambda>p. np_direction p = In \<and> port_incoming by_id node_id (np_name p) \<noteq> []) (sorted_ports spec))))"

definition node_spec :: "(string, graph_node) dict \<Rightarrow> registry \<Rightarrow> string \<Rightarrow> node_type_spec" where
  "node_spec nodes registry n = dict_at registry (gn_type (dict_at nodes n))"

definition build_topology ::
    "pipeline_graph \<Rightarrow> (string, graph_node) dict \<Rightarrow> registry \<Rightarrow> topology" where
  "build_topology g nodes registry =
     (let node_ids = sort (dict_keys nodes);
          adjacency = forward_adjacency node_ids (pg_edges g);
          by_id = edges_by_id g;
          bounds = List.map_filter (\<lambda>(i, e). map_option (Pair i) (ge_max_traversals e)) by_id;
          targets = sorted_set (map (\<lambda>i. ge_target (dict_at by_id i)) (dict_keys bounds))
      in \<lparr>tp_entry = hd (entry_nodes g node_ids),
          tp_node_ids = node_ids,
          tp_gate_nodes = filter (\<lambda>n. nt_kind (node_spec nodes registry n) = Gate) node_ids,
          tp_edges = map (\<lambda>(i, e). (i, edge_key e)) by_id,
          tp_bounds = bounds,
          tp_out_ports = map (\<lambda>n. (n, build_outs by_id n (node_spec nodes registry n))) node_ids,
          tp_in_ports = map (\<lambda>n. (n, build_ins by_id n (node_spec nodes registry n))) node_ids,
          tp_regions = map (\<lambda>v. (v, forward_reach adjacency v)) targets,
          tp_terminal_ports = map (\<lambda>n. (n, build_terms (node_spec nodes registry n))) node_ids\<rparr>)"

section \<open>Validation\<close>

definition suppresses :: "problem \<Rightarrow> bool" where
  "suppresses p \<longleftrightarrow> pb_code p = DUPLICATE_NODE_ID \<or> pb_code p = DUPLICATE_EDGE \<or> pb_code p = DANGLING_ENDPOINT"

definition all_problems ::
    "(string \<Rightarrow> string \<Rightarrow> check) \<Rightarrow> pipeline_graph \<Rightarrow> registry \<Rightarrow> role_map \<Rightarrow> problem list" where
  "all_problems check_model g registry roles =
     (let nodes = first_nodes g;
          problems = identity_problems g @ reference_problems g nodes registry
            @ node_config_problems check_model nodes registry roles @ wiring_problems g nodes registry
      in if list_ex suppresses problems then problems
         else problems @ topology_problems g (sort (dict_keys nodes)))"

definition validate ::
    "(string \<Rightarrow> string \<Rightarrow> check) \<Rightarrow> pipeline_graph \<Rightarrow> registry \<Rightarrow> role_map \<Rightarrow> validation_report" where
  "validate check_model g registry roles =
     (let ordered = sort_key problem_sort_key (all_problems check_model g registry roles) in
      if ordered \<noteq> [] then \<lparr>vr_problems = ordered, vr_topology = None\<rparr>
      else \<lparr>vr_problems = [], vr_topology = Some (build_topology g (first_nodes g) registry)\<rparr>)"

text \<open>\<open>from_graph\<close>: the topology of the router, or \<open>InvalidGraph\<close> with every problem.\<close>

definition from_graph ::
    "(string \<Rightarrow> string \<Rightarrow> check) \<Rightarrow> pipeline_graph \<Rightarrow> registry \<Rightarrow> role_map \<Rightarrow> problem list + topology" where
  "from_graph check_model g registry roles =
     (let report = validate check_model g registry roles in
      case vr_topology report of None \<Rightarrow> Inl (vr_problems report) | Some t \<Rightarrow> Inr t)"

end
