(* ===== verification/Tarjan_Correct.thy ===== *)
theory Tarjan_Correct
  imports Topology_Correct "HOL-Library.Sublist"
begin

text \<open>
  The component search \<open>forward_cycles\<close>: a search that reports no component leaves, in its index,
  a set of nodes closed under successors on which the successor relation is acyclic, so an empty
  report means that the forward graph has no cycle.
\<close>

section \<open>Finished nodes\<close>

definition fin_ok :: "adjacency \<Rightarrow> string set \<Rightarrow> bool" where
  "fin_ok adj D \<longleftrightarrow>
     (\<forall>u \<in> D. set (succs adj u) \<subseteq> D) \<and> acyclic {(u, v) \<in> adj_rel adj. u \<in> D}"

lemma fin_ok_empty [simp]: "fin_ok adj {}"
  by (simp add: fin_ok_def acyclic_def)

lemma fin_ok_insert:
  assumes D: "fin_ok adj D" and u: "set (succs adj u) \<subseteq> D" "u \<notin> D"
  shows "fin_ok adj (insert u D)"
proof -
  let ?R = "{(x, y) \<in> adj_rel adj. x \<in> D}" and ?R' = "{(x, y) \<in> adj_rel adj. x \<in> insert u D}"
  have into: "y \<in> D" if "(x, y) \<in> ?R'" for x y
    using that D u(1) by (auto simp: fin_ok_def)
  have stay: "(x, y) \<in> ?R\<^sup>+ \<and> y \<in> D" if "(x, y) \<in> ?R'\<^sup>+" "x \<in> D" for x y
    using that
  proof (induction rule: trancl_induct)
    case (base y)
    then show ?case using into [of x y] by auto
  next
    case (step y z)
    then have "(y, z) \<in> ?R" using into [of y z] by auto
    with step into [of y z] show ?case by (meson trancl_into_trancl)
  qed
  have "(x, x) \<notin> ?R'\<^sup>+" for x
  proof
    assume cyc: "(x, x) \<in> ?R'\<^sup>+"
    then obtain z where "(z, x) \<in> ?R'" by (meson tranclE)
    then have "x \<in> D" by (rule into)
    with stay [OF cyc] D show False by (auto simp: fin_ok_def acyclic_def)
  qed
  moreover have "\<forall>x \<in> insert u D. set (succs adj x) \<subseteq> insert u D"
    using D u(1) by (auto simp: fin_ok_def)
  ultimately show ?thesis by (auto simp: fin_ok_def acyclic_def)
qed

section \<open>The invariant of the search\<close>

text \<open>
  Every successor that an open entry has already consumed is finished, is the entry above it, is
  the node itself, or has lowered the node's low-link below its index.
\<close>

fun frames_ok :: "adjacency \<Rightarrow> string set \<Rightarrow> (string \<rightharpoonup> nat) \<Rightarrow> (string \<rightharpoonup> nat) \<Rightarrow> string option \<Rightarrow>
    (string \<times> string list) list \<Rightarrow> bool" where
  "frames_ok adj D idx low child [] = True"
| "frames_ok adj D idx low child ((u, rest) # ws) =
     ((\<exists>past. succs adj u = past @ rest \<and>
        (\<forall>s \<in> set past. s \<in> D \<or> Some s = child \<or> s = u \<or> the (low u) < the (idx u)))
      \<and> frames_ok adj D idx low (Some u) ws)"

lemma frames_ok_mono:
  assumes "frames_ok adj D idx low c ws"
    and "D \<subseteq> D'" and "\<And>s. c = Some s \<Longrightarrow> s \<in> D' \<or> c' = Some s"
    and "\<And>u. u \<in> fst ` set ws \<Longrightarrow> the (idx' u) = the (idx u) \<and> the (low' u) \<le> the (low u)"
  shows "frames_ok adj D' idx' low' c' ws"
  using assms
proof (induction ws arbitrary: c c')
  case (Cons w ws)
  obtain u rest where w: "w = (u, rest)" by (cases w)
  have u: "the (idx' u) = the (idx u)" "the (low' u) \<le> the (low u)"
    using Cons.prems(4) [of u] w by auto
  from Cons.prems(1) obtain past where past: "succs adj u = past @ rest"
    and p: "\<forall>s \<in> set past. s \<in> D \<or> Some s = c \<or> s = u \<or> the (low u) < the (idx u)"
    and ws: "frames_ok adj D idx low (Some u) ws"
    by (auto simp: w)
  have "\<forall>s \<in> set past. s \<in> D' \<or> Some s = c' \<or> s = u \<or> the (low' u) < the (idx' u)"
  proof
    fix s assume "s \<in> set past"
    with p consider "s \<in> D" | "c = Some s" | "s = u" | "the (low u) < the (idx u)" by auto
    then show "s \<in> D' \<or> Some s = c' \<or> s = u \<or> the (low' u) < the (idx' u)"
      by cases (use Cons.prems(2,3) u in auto)
  qed
  moreover have "frames_ok adj D' idx' low' (Some u) ws"
    using Cons.IH [OF ws Cons.prems(2)] Cons.prems(4) by simp
  ultimately show ?case using past by (auto simp: w)
qed simp

text \<open>Consuming one more successor of the top entry.\<close>

lemma frames_ok_advance:
  assumes "frames_ok adj D idx low None ((n, s # ss) # ws)"
    and "s \<in> D \<or> Some s = c \<or> s = n \<or> the (low n) < the (idx n)"
  shows "frames_ok adj D idx low c ((n, ss) # ws)"
proof -
  from assms(1) obtain past where "succs adj n = past @ s # ss"
    and "\<forall>x \<in> set past. x \<in> D \<or> x = n \<or> the (low n) < the (idx n)"
    and ws: "frames_ok adj D idx low (Some n) ws"
    by auto
  then have "succs adj n = (past @ [s]) @ ss"
    and "\<forall>x \<in> set (past @ [s]). x \<in> D \<or> Some x = c \<or> x = n \<or> the (low n) < the (idx n)"
    using assms(2) by auto
  with ws show ?thesis unfolding frames_ok.simps by blast
qed

abbreviation finished :: "tarjan \<Rightarrow> string set" where
  "finished st \<equiv> dom (tj_index st) - set (tj_stack st)"

definition tj_wf :: "string \<Rightarrow> tarjan \<Rightarrow> bool" where
  "tj_wf root st \<longleftrightarrow>
     distinct (tj_stack st) \<and> tj_on_stack st = set (tj_stack st) \<and>
     set (tj_stack st) \<subseteq> dom (tj_index st) \<and> dom (tj_low st) = dom (tj_index st) \<and>
     (\<forall>u \<in> dom (tj_index st). the (tj_index st u) < tj_counter st) \<and>
     sorted_wrt (\<lambda>a b. the (tj_index st b) < the (tj_index st a)) (tj_stack st) \<and>
     subseq (map fst (tj_work st)) (tj_stack st) \<and>
     (tj_work st \<noteq> [] \<longrightarrow> tj_stack st \<noteq> [] \<and> last (tj_stack st) = root \<and> fst (last (tj_work st)) = root) \<and>
     (tj_work st = [] \<longrightarrow> tj_stack st = []) \<and>
     (\<forall>u \<in> set (tj_stack st).
        the (tj_index st root) \<le> the (tj_low st u) \<and> the (tj_low st u) \<le> the (tj_index st u))"

definition tj_good :: "adjacency \<Rightarrow> tarjan \<Rightarrow> bool" where
  "tj_good adj st \<longleftrightarrow>
     tj_stack st = map fst (tj_work st) \<and> fin_ok adj (finished st) \<and>
     frames_ok adj (finished st) (tj_index st) (tj_low st) None (tj_work st)"

definition tj_left_over :: "tarjan \<Rightarrow> bool" where
  "tj_left_over st \<longleftrightarrow> (\<exists>x \<in> set (tj_stack st). x \<notin> fst ` set (tj_work st))"

definition tj_status :: "adjacency \<Rightarrow> tarjan \<Rightarrow> bool" where
  "tj_status adj st \<longleftrightarrow> tj_components st \<noteq> [] \<or> tj_good adj st \<or> tj_left_over st"

lemma tj_goodI:
  "tj_stack st = map fst (tj_work st) \<Longrightarrow> fin_ok adj (finished st) \<Longrightarrow>
     frames_ok adj (finished st) (tj_index st) (tj_low st) None (tj_work st) \<Longrightarrow> tj_good adj st"
  by (simp add: tj_good_def)

lemma tj_goodD:
  assumes "tj_good adj st"
  shows "tj_stack st = map fst (tj_work st)" "fin_ok adj (finished st)"
    "frames_ok adj (finished st) (tj_index st) (tj_low st) None (tj_work st)"
  using assms unfolding tj_good_def by blast+

lemma subseq_set: "subseq xs ys \<Longrightarrow> set xs \<subseteq> set ys"
  by (auto dest: list_emb_set)

lemma tj_wf_path:
  assumes "tj_wf root st"
  shows "fst ` set (tj_work st) \<subseteq> set (tj_stack st)" and "set (tj_stack st) \<subseteq> dom (tj_index st)"
proof -
  from assms have "subseq (map fst (tj_work st)) (tj_stack st)" by (simp add: tj_wf_def)
  from subseq_set [OF this] show "fst ` set (tj_work st) \<subseteq> set (tj_stack st)" by simp
  from assms show "set (tj_stack st) \<subseteq> dom (tj_index st)" by (simp add: tj_wf_def)
qed

section \<open>Every step keeps the invariant\<close>

lemma tj_wf_root:
  "tj_wf root st \<Longrightarrow> tj_work st \<noteq> [] \<Longrightarrow> root \<in> set (tj_stack st) \<and> root \<in> dom (tj_index st)"
  unfolding tj_wf_def by (metis last_in_set subsetD)

lemma tj_wf_enter:
  assumes wf: "tj_wf root st" and w: "tj_work st = (n, s # ss) # ws" and s: "tj_index st s = None"
  shows "tj_wf root (tj_enter adj s (st\<lparr>tj_work := (n, ss) # ws\<rparr>))"
proof -
  have root: "root \<in> dom (tj_index st)" and "root \<noteq> s"
    using tj_wf_root [OF wf] w s by auto
  have "s \<notin> set (tj_stack st)" using wf s by (auto simp: tj_wf_def)
  moreover have "the (tj_index st u) < tj_counter st" if "u \<in> set (tj_stack st)" for u
    using wf that by (auto simp: tj_wf_def)
  moreover have "the (tj_index st root) < tj_counter st"
    using wf root by (auto simp: tj_wf_def)
  moreover have "sorted_wrt (\<lambda>a b. the (((tj_index st)(s \<mapsto> tj_counter st)) b)
      < the (((tj_index st)(s \<mapsto> tj_counter st)) a)) (tj_stack st)"
    using wf \<open>s \<notin> set (tj_stack st)\<close>
    by (auto simp: tj_wf_def intro: sorted_wrt_mono_rel [rotated])
  moreover have "the (tj_index st root) \<le> the (tj_low st u) \<and> the (tj_low st u) \<le> the (tj_index st u)"
    if "u \<in> set (tj_stack st)" for u
    using wf that by (auto simp: tj_wf_def)
  ultimately show ?thesis
    using wf w \<open>root \<noteq> s\<close> s unfolding tj_wf_def tj_enter_def
    by (auto simp: less_SucI domIff)
qed


lemma tj_status_enter:
  assumes wf: "tj_wf root st" and w: "tj_work st = (n, s # ss) # ws" and s: "tj_index st s = None"
    and status: "tj_status adj st"
  shows "tj_status adj (tj_enter adj s (st\<lparr>tj_work := (n, ss) # ws\<rparr>))" (is "tj_status adj ?st")
proof -
  have stk: "s \<notin> set (tj_stack st)" using wf s by (auto simp: tj_wf_def)
  have fin: "finished ?st = finished st"
    using s stk by (auto simp: tj_enter_def domIff)
  have path: "fst ` set ((n, ss) # ws) \<subseteq> dom (tj_index st)"
    using tj_wf_path [OF wf] unfolding w by auto
  from status consider "tj_components st \<noteq> []" | "tj_good adj st" | "tj_left_over st"
    by (auto simp: tj_status_def)
  then show ?thesis
  proof cases
    case 1
    then show ?thesis by (simp add: tj_status_def tj_enter_def)
  next
    case 2
    then have "frames_ok adj (finished st) (tj_index st) (tj_low st) None ((n, s # ss) # ws)"
      using tj_goodD(3) w by metis
    then have "frames_ok adj (finished st) (tj_index st) (tj_low st) (Some s) ((n, ss) # ws)"
      by (rule frames_ok_advance) simp
    then have "frames_ok adj (finished st) (tj_index ?st) (tj_low ?st) (Some s) ((n, ss) # ws)"
      by (rule frames_ok_mono) (use path s in \<open>auto simp: tj_enter_def\<close>)
    then have "frames_ok adj (finished st) (tj_index ?st) (tj_low ?st) None ((s, succs adj s) # (n, ss) # ws)"
      unfolding frames_ok.simps(2) [of _ _ _ _ _ s] by simp
    moreover have "tj_stack ?st = map fst (tj_work ?st)"
      using 2 by (simp add: tj_good_def tj_enter_def w)
    moreover have "tj_work ?st = (s, succs adj s) # (n, ss) # ws" by (simp add: tj_enter_def)
    moreover have "fin_ok adj (finished ?st)" unfolding fin by (rule tj_goodD(2) [OF 2])
    ultimately have "tj_good adj ?st" using fin by (metis tj_goodI)
    then show ?thesis by (simp add: tj_status_def)
  next
    case 3
    then have "tj_left_over ?st" using stk by (auto simp: tj_left_over_def tj_enter_def w)
    then show ?thesis by (simp add: tj_status_def)
  qed
qed

lemma tj_inv_skip:
  assumes wf: "tj_wf root st" and status: "tj_status adj st"
    and w: "tj_work st = (n, s # ss) # ws" and s: "s \<in> dom (tj_index st)" "s \<notin> tj_on_stack st"
  shows "tj_wf root (st\<lparr>tj_work := (n, ss) # ws\<rparr>)" (is "tj_wf root ?st")
    and "tj_status adj (st\<lparr>tj_work := (n, ss) # ws\<rparr>)"
proof -
  show "tj_wf root ?st" using wf w by (simp add: tj_wf_def split: if_splits)
  have "s \<in> finished st" using s wf by (auto simp: tj_wf_def)
  have "tj_good adj ?st" if good: "tj_good adj st"
  proof (rule tj_goodI)
    show "tj_stack ?st = map fst (tj_work ?st)" using tj_goodD(1) [OF good] w by simp
    show "fin_ok adj (finished ?st)" using tj_goodD(2) [OF good] by simp
    have "frames_ok adj (finished st) (tj_index st) (tj_low st) None ((n, s # ss) # ws)"
      using tj_goodD(3) [OF good] unfolding w .
    then have "frames_ok adj (finished st) (tj_index st) (tj_low st) None ((n, ss) # ws)"
      by (rule frames_ok_advance) (simp only: \<open>s \<in> finished st\<close> simp_thms)
    then show "frames_ok adj (finished ?st) (tj_index ?st) (tj_low ?st) None (tj_work ?st)"
      by simp
  qed
  then show "tj_status adj ?st"
    using status by (auto simp: tj_status_def tj_left_over_def w)
qed

lemma tj_inv_lower:
  assumes wf: "tj_wf root st" and status: "tj_status adj st"
    and w: "tj_work st = (n, s # ss) # ws" and s: "s \<in> tj_on_stack st"
  shows "tj_wf root (st\<lparr>tj_work := (n, ss) # ws, tj_low := lower_low n (the (tj_index st s)) (tj_low st)\<rparr>)"
      (is "tj_wf root ?st")
    and "tj_status adj (st\<lparr>tj_work := (n, ss) # ws, tj_low := lower_low n (the (tj_index st s)) (tj_low st)\<rparr>)"
proof -
  have n: "n \<in> set (tj_stack st)" using tj_wf_path(1) [OF wf] by (simp add: w)
  have s': "s \<in> set (tj_stack st)" using wf s by (simp add: tj_wf_def)
  have low: "the (tj_index st root) \<le> the (tj_low st u)" "the (tj_low st u) \<le> the (tj_index st u)"
    if "u \<in> set (tj_stack st)" for u
    using wf that by (auto simp: tj_wf_def)
  have "dom (tj_low ?st) = dom (tj_index st)"
    using wf n by (auto simp: tj_wf_def lower_low_def)
  moreover have "the (tj_index st root) \<le> min (the (tj_low st n)) (the (tj_index st s))"
    using low(1) [OF n] low(1) [OF s'] low(2) [OF s'] by simp
  moreover have "min (the (tj_low st n)) (the (tj_index st s)) \<le> the (tj_index st n)"
    using low(2) [OF n] by simp
  ultimately show "tj_wf root ?st"
    using wf w unfolding tj_wf_def by (simp add: lower_low_def split: if_splits)
  have "tj_good adj ?st" if good: "tj_good adj st"
  proof -
    have stack: "tj_stack st = n # map fst ws" using good w by (simp add: tj_good_def)
    have "s = n \<or> the (tj_low ?st n) < the (tj_index st n)"
      using wf s' stack by (auto simp: tj_wf_def lower_low_def)
    moreover have "frames_ok adj (finished st) (tj_index st) (tj_low ?st) None ((n, s # ss) # ws)"
      using good unfolding tj_good_def w
      by (elim conjE frames_ok_mono) (simp_all add: lower_low_def)
    ultimately have "frames_ok adj (finished st) (tj_index st) (tj_low ?st) None ((n, ss) # ws)"
      using frames_ok_advance by blast
    moreover have "fin_ok adj (finished ?st)" using tj_goodD(2) [OF good] by simp
    ultimately show ?thesis by (intro tj_goodI) (simp_all add: stack)
  qed
  with status show "tj_status adj ?st"
    by (auto simp: tj_status_def tj_left_over_def w)
qed

lemma subseq_Cons_split:
  assumes "subseq (n # ns) ys" "distinct ys"
  obtains b where "ys = takeWhile (\<lambda>m. m \<noteq> n) ys @ n # b" "subseq ns b"
    "tl (dropWhile (\<lambda>m. m \<noteq> n) ys) = b"
proof -
  from assms(1) obtain a b where ys: "ys = a @ n # b" and b: "subseq ns b"
    using list_emb_ConsD [OF assms(1)] by blast
  have n: "n \<notin> set a" using assms(2) unfolding ys by simp
  have t: "takeWhile (\<lambda>m. m \<noteq> n) (a @ n # b) = a"
    using n by (subst takeWhile_append2) auto
  have d: "dropWhile (\<lambda>m. m \<noteq> n) (a @ n # b) = n # b"
    using n by (subst dropWhile_append2) auto
  show thesis
  proof (rule that [of b])
    show "ys = takeWhile (\<lambda>m. m \<noteq> n) ys @ n # b" unfolding ys t ..
    show "tl (dropWhile (\<lambda>m. m \<noteq> n) ys) = b" unfolding ys d by simp
  qed (rule b)
qed

lemma tj_wf_low_eq_root:
  "tj_wf root st \<Longrightarrow> root \<in> set (tj_stack st) \<Longrightarrow> the (tj_low st root) = the (tj_index st root)"
  unfolding tj_wf_def by (meson le_antisym)

lemma lower_low_le: "the (lower_low p v lows u) \<le> the (lows u)"
  by (simp add: lower_low_def)

text \<open>The low-links after leaving a node: the parent's may sink, never below the root's index.\<close>

definition left_low :: "string \<Rightarrow> (string \<times> string list) list \<Rightarrow> tarjan \<Rightarrow> (string \<rightharpoonup> nat)" where
  "left_low n ws st =
     (case ws of [] \<Rightarrow> tj_low st | (parent, _) # _ \<Rightarrow> lower_low parent (the (tj_low st n)) (tj_low st))"

lemma left_low_le: "the (left_low n ws st u) \<le> the (tj_low st u)"
  by (auto simp: left_low_def lower_low_le split: list.splits)

lemma left_low_wf:
  assumes wf: "tj_wf root st" and w: "tj_work st = (n, []) # ws"
  shows "dom (left_low n ws st) = dom (tj_index st)"
    and "u \<in> set (tj_stack st) \<Longrightarrow>
      the (tj_index st root) \<le> the (left_low n ws st u) \<and> the (left_low n ws st u) \<le> the (tj_index st u)"
proof -
  have path: "fst ` set ws \<subseteq> dom (tj_index st)" and n: "n \<in> set (tj_stack st)"
    using tj_wf_path [OF wf] unfolding w by auto
  have low: "the (tj_index st root) \<le> the (tj_low st u)" "the (tj_low st u) \<le> the (tj_index st u)"
    if "u \<in> set (tj_stack st)" for u
    using wf that by (auto simp: tj_wf_def)
  have "dom (tj_low st) = dom (tj_index st)" using wf by (simp add: tj_wf_def)
  with path show "dom (left_low n ws st) = dom (tj_index st)"
    by (auto simp: left_low_def lower_low_def split: list.splits)
  assume u: "u \<in> set (tj_stack st)"
  have "the (tj_index st root) \<le> the (left_low n ws st u)"
    using low(1) [OF u] low(1) [OF n] by (auto simp: left_low_def lower_low_def split: list.splits)
  then show "the (tj_index st root) \<le> the (left_low n ws st u) \<and> the (left_low n ws st u) \<le> the (tj_index st u)"
    using left_low_le [of n ws st u] low(2) [OF u] by simp
qed

lemma tj_inv_leave_open:
  assumes wf: "tj_wf root st" and w: "tj_work st = (n, []) # ws"
    and low: "the (tj_low st n) \<noteq> the (tj_index st n)"
  shows "tj_wf root (tj_leave adj n ws st)" and "tj_status adj (tj_leave adj n ws st)"
proof -
  let ?st = "tj_leave adj n ws st"
  have st: "?st = st\<lparr>tj_work := ws, tj_low := left_low n ws st\<rparr>"
    using low by (simp add: tj_leave_def left_low_def Let_def)
  have n: "n \<in> set (tj_stack st)" using tj_wf_path(1) [OF wf] unfolding w by auto
  have last: "last (tj_stack st) = root" "fst (last (tj_work st)) = root" "tj_stack st \<noteq> []"
    using wf w by (auto simp: tj_wf_def)
  have ws: "ws \<noteq> []"
  proof
    assume "ws = []"
    with last w have "n = root" by simp
    with n wf low show False using tj_wf_low_eq_root by metis
  qed
  have sub: "subseq (map fst ws) (tj_stack st)"
    using wf w by (auto simp: tj_wf_def dest: subseq_Cons')
  show "tj_wf root ?st"
    using wf sub ws last w left_low_wf [OF wf w] unfolding st tj_wf_def by simp
  have "n \<notin> set (map fst ws)"
  proof -
    have s: "subseq (n # map fst ws) (tj_stack st)" "distinct (tj_stack st)"
      using wf w by (auto simp: tj_wf_def)
    then obtain b where "tj_stack st = takeWhile (\<lambda>m. m \<noteq> n) (tj_stack st) @ n # b" "subseq (map fst ws) b"
      by (rule subseq_Cons_split)
    then show ?thesis
      using s(2) by (metis distinct.simps(2) distinct_append subseq_set subsetD)
  qed
  then have "tj_left_over ?st"
    using n unfolding st tj_left_over_def by auto
  then show "tj_status adj ?st" by (simp add: tj_status_def)
qed

text \<open>Leaving a node whose low-link is its index: its component is cut off the stack.\<close>

lemma tj_leave_close:
  assumes wf: "tj_wf root st" and w: "tj_work st = (n, []) # ws"
    and low: "the (tj_low st n) = the (tj_index st n)"
  obtains a b where "tj_stack st = a @ n # b" "subseq (map fst ws) b"
    "tj_leave adj n ws st = st\<lparr>tj_work := ws, tj_low := left_low n ws st, tj_stack := b, tj_on_stack := set b,
       tj_components := (if a \<noteq> [] \<or> n \<in> set (succs adj n)
         then tj_components st @ [sort (a @ [n])] else tj_components st)\<rparr>"
proof -
  have s: "subseq (n # map fst ws) (tj_stack st)" "distinct (tj_stack st)"
    and on: "tj_on_stack st = set (tj_stack st)"
    using wf w by (auto simp: tj_wf_def)
  from s obtain b where b: "tj_stack st = takeWhile (\<lambda>m. m \<noteq> n) (tj_stack st) @ n # b"
    "subseq (map fst ws) b" "tl (dropWhile (\<lambda>m. m \<noteq> n) (tj_stack st)) = b"
    by (rule subseq_Cons_split)
  define a where "a = takeWhile (\<lambda>m. m \<noteq> n) (tj_stack st)"
  have stk: "tj_stack st = a @ n # b" using b(1) by (simp add: a_def)
  have "set (tj_stack st) - set (a @ [n]) = set b"
    using s(2) stk by auto
  then have "tj_leave adj n ws st = st\<lparr>tj_work := ws, tj_low := left_low n ws st, tj_stack := b, tj_on_stack := set b,
       tj_components := (if a \<noteq> [] \<or> n \<in> set (succs adj n)
         then tj_components st @ [sort (a @ [n])] else tj_components st)\<rparr>"
    unfolding tj_leave_def left_low_def Let_def a_def [symmetric] b(3) on
    by (cases "a = []") (simp_all add: low)
  with stk b(2) show thesis by (rule that)
qed

lemma tj_inv_leave_close:
  assumes wf: "tj_wf root st" and status: "tj_status adj st" and w: "tj_work st = (n, []) # ws"
    and low: "the (tj_low st n) = the (tj_index st n)"
  shows "tj_wf root (tj_leave adj n ws st)" and "tj_status adj (tj_leave adj n ws st)"
proof -
  let ?st = "tj_leave adj n ws st"
  obtain a b where stk: "tj_stack st = a @ n # b" and sub: "subseq (map fst ws) b"
    and st: "?st = st\<lparr>tj_work := ws, tj_low := left_low n ws st, tj_stack := b, tj_on_stack := set b,
       tj_components := (if a \<noteq> [] \<or> n \<in> set (succs adj n)
         then tj_components st @ [sort (a @ [n])] else tj_components st)\<rparr>"
    using tj_leave_close [OF wf w low] .
  have dist: "distinct (a @ n # b)" and srt: "sorted_wrt (\<lambda>a b. the (tj_index st b) < the (tj_index st a)) b"
    and dom: "set b \<subseteq> dom (tj_index st)" "n \<in> dom (tj_index st)"
    and last: "last (tj_stack st) = root" "fst (last (tj_work st)) = root"
    using wf w stk by (auto simp: tj_wf_def sorted_wrt_append)
  have b_root: "b \<noteq> [] \<and> last b = root" if "ws \<noteq> []"
    using that sub last(1) stk by (cases b) auto
  have b_Nil: "b = []" if "ws = []"
  proof (rule ccontr)
    assume "b \<noteq> []"
    then have "last b = n" using last that w stk by simp
    with \<open>b \<noteq> []\<close> dist show False by (metis distinct.simps(2) distinct_append last_in_set)
  qed
  have fst_last: "fst (last ws) = root" if "ws \<noteq> []" using last(2) w that by simp
  show "tj_wf root ?st"
    using wf left_low_wf [OF wf w] dist srt dom sub b_root b_Nil fst_last
    unfolding st tj_wf_def by (simp add: stk)
  show "tj_status adj ?st"
  proof (cases "a \<noteq> [] \<or> n \<in> set (succs adj n) \<or> tj_components st \<noteq> []")
    case True
    then show ?thesis unfolding st tj_status_def by auto
  next
    case False
    then have a: "a = []" and self: "n \<notin> set (succs adj n)" by auto
    from False status consider "tj_good adj st" | "tj_left_over st" by (auto simp: tj_status_def)
    then show ?thesis
    proof cases
      case 1
      have b: "b = map fst ws" using tj_goodD(1) [OF 1] stk a w by simp
      have "frames_ok adj (finished st) (tj_index st) (tj_low st) None ((n, []) # ws)"
        using tj_goodD(3) [OF 1] unfolding w .
      then have past: "set (succs adj n) \<subseteq> finished st"
        and frames: "frames_ok adj (finished st) (tj_index st) (tj_low st) (Some n) ws"
        using low self by auto
      have fin: "finished ?st = insert n (finished st)"
        using dist dom stk a by (simp add: st) blast
      have eqs: "tj_index ?st = tj_index st" "tj_low ?st = left_low n ws st" by (simp_all add: st)
      have "n \<notin> finished st" using stk by simp
      have "fin_ok adj (finished ?st)"
        unfolding fin by (rule fin_ok_insert [OF tj_goodD(2) [OF 1] past \<open>n \<notin> finished st\<close>])
      moreover have "frames_ok adj (finished ?st) (tj_index ?st) (tj_low ?st) None ws"
        unfolding fin unfolding eqs by (rule frames_ok_mono [OF frames]) (auto simp: left_low_le)
      moreover have "tj_work ?st = ws" "tj_stack ?st = b" by (simp_all add: st)
      ultimately have "tj_good adj ?st" using b by (metis tj_goodI)
      then show ?thesis by (simp add: tj_status_def)
    next
      case 2
      then have "tj_left_over ?st" unfolding tj_left_over_def st by (auto simp: stk a w)
      then show ?thesis by (simp add: tj_status_def)
    qed
  qed
qed

lemma tj_inv_step:
  assumes "tj_wf root st" "tj_status adj st" "tj_work st \<noteq> []"
  shows "tj_wf root (tj_step adj (tj_work st) st)" and "tj_status adj (tj_step adj (tj_work st) st)"
proof -
  obtain n ss ws where w: "tj_work st = (n, ss) # ws"
    using assms(3) by (metis list.exhaust surj_pair)
  have "tj_wf root (tj_step adj (tj_work st) st) \<and> tj_status adj (tj_step adj (tj_work st) st)"
  proof (cases ss)
    case Nil
    with w have w': "tj_work st = (n, []) # ws" by simp
    show ?thesis
      using tj_inv_leave_open [OF assms(1) w'] tj_inv_leave_close [OF assms(1,2) w']
      by (cases "the (tj_low st n) = the (tj_index st n)") (simp_all add: w')
  next
    case (Cons s ss')
    with w have w': "tj_work st = (n, s # ss') # ws" by simp
    show ?thesis
    proof (cases "tj_index st s")
      case None
      then show ?thesis
        using tj_wf_enter [OF assms(1) w'] tj_status_enter [OF assms(1) w' _ assms(2)]
        by (simp add: w' Let_def)
    next
      case (Some i)
      then show ?thesis
        using tj_inv_lower [OF assms(1,2) w'] tj_inv_skip [OF assms(1,2) w']
        by (auto simp: w' Let_def)
    qed
  qed
  then show "tj_wf root (tj_step adj (tj_work st) st)" "tj_status adj (tj_step adj (tj_work st) st)"
    by auto
qed

lemma tj_index_step: "dom (tj_index st) \<subseteq> dom (tj_index (tj_step adj w st))"
  by (cases "(adj, w, st)" rule: tj_step.cases) (auto simp: Let_def tj_enter_def)

lemma tj_inv_loop:
  assumes "tj_wf root st" "tj_status adj st"
  shows "tj_wf root (tj_loop adj st) \<and> tj_status adj (tj_loop adj st) \<and> tj_work (tj_loop adj st) = []
     \<and> dom (tj_index st) \<subseteq> dom (tj_index (tj_loop adj st))"
  using assms
proof (induction adj st rule: tj_loop.induct)
  case (1 adj st)
  show ?case
  proof (cases "tj_work st = []")
    case True
    with "1.prems" show ?thesis by (simp add: tj_loop.simps [of adj st])
  next
    case False
    have "tj_loop adj st = tj_loop adj (tj_step adj (tj_work st) st)"
      using False by (simp add: tj_loop.simps [of adj st])
    with "1.IH" [OF False tj_inv_step [OF "1.prems" False]] tj_index_step [of st adj "tj_work st"]
    show ?thesis by auto
  qed
qed

section \<open>Between roots\<close>

definition tj_idle :: "adjacency \<Rightarrow> tarjan \<Rightarrow> bool" where
  "tj_idle adj st \<longleftrightarrow>
     tj_work st = [] \<and> tj_stack st = [] \<and> tj_on_stack st = {} \<and>
     dom (tj_low st) = dom (tj_index st) \<and>
     (\<forall>u \<in> dom (tj_index st). the (tj_index st u) < tj_counter st) \<and>
     (tj_components st \<noteq> [] \<or> fin_ok adj (dom (tj_index st)))"

lemma tj_idle_init: "tj_idle adj tj_init"
  by (simp add: tj_idle_def tj_init_def)

lemma tj_idle_enter:
  assumes "tj_idle adj st" "tj_index st root = None"
  shows "tj_wf root (tj_enter adj root st)" and "tj_status adj (tj_enter adj root st)"
proof -
  show "tj_wf root (tj_enter adj root st)"
    using assms by (auto simp: tj_idle_def tj_wf_def tj_enter_def less_SucI)
  have "finished (tj_enter adj root st) = dom (tj_index st)"
    using assms by (auto simp: tj_idle_def tj_enter_def)
  then show "tj_status adj (tj_enter adj root st)"
    using assms unfolding tj_status_def tj_good_def by (auto simp: tj_idle_def tj_enter_def)
qed

lemma tj_idle_root:
  assumes "tj_idle adj st"
  shows "tj_idle adj (tj_root adj root st) \<and> dom (tj_index st) \<subseteq> dom (tj_index (tj_root adj root st))
     \<and> root \<in> dom (tj_index (tj_root adj root st))"
proof (cases "tj_index st root")
  case None
  let ?st = "tj_loop adj (tj_enter adj root st)"
  have inv: "tj_wf root ?st" "tj_status adj ?st" "tj_work ?st = []"
    "dom (tj_index (tj_enter adj root st)) \<subseteq> dom (tj_index ?st)"
    using tj_inv_loop [OF tj_idle_enter [OF assms None]] by auto
  then have "tj_stack ?st = []" by (simp add: tj_wf_def)
  with inv have "tj_idle adj ?st"
    by (auto simp: tj_idle_def tj_wf_def tj_status_def tj_good_def tj_left_over_def)
  moreover have "insert root (dom (tj_index st)) \<subseteq> dom (tj_index ?st)"
    using inv(4) by (simp add: tj_enter_def)
  ultimately show ?thesis using None by (simp add: tj_root_def)
qed (use assms in \<open>auto simp: tj_root_def\<close>)

lemma tj_idle_fold:
  "tj_idle adj st \<Longrightarrow> tj_idle adj (fold (tj_root adj) roots st)
     \<and> dom (tj_index st) \<union> set roots \<subseteq> dom (tj_index (fold (tj_root adj) roots st))"
proof (induction roots arbitrary: st)
  case (Cons r roots)
  from tj_idle_root [OF Cons.prems, of r] Cons.IH [of "tj_root adj r st"]
  show ?case by auto
qed simp

lemma succs_dict_keys: "v \<in> set (succs adj u) \<Longrightarrow> u \<in> set (dict_keys adj)"
  by (cases "map_of adj u") (auto simp: dict_get_or_def dest!: map_of_SomeD intro: rev_image_eqI)

lemma forward_cycles_Nil_acyclic:
  assumes "forward_cycles adj = []"
  shows "acyclic (adj_rel adj)"
proof -
  let ?st = "fold (tj_root adj) (sort (dict_keys adj)) tj_init"
  have idle: "tj_idle adj ?st" and keys: "set (dict_keys adj) \<subseteq> dom (tj_index ?st)"
    using tj_idle_fold [OF tj_idle_init, of adj "sort (dict_keys adj)"] by auto
  have "tj_components ?st = []"
    using assms by (metis forward_cycles_def length_0_conv length_sort)
  with idle have fin: "fin_ok adj (dom (tj_index ?st))" by (simp add: tj_idle_def)
  have "adj_rel adj = {(u, v) \<in> adj_rel adj. u \<in> dom (tj_index ?st)}"
    using keys succs_dict_keys by (auto simp del: set_map) blast
  with fin show ?thesis unfolding fin_ok_def by simp
qed

end
