(* ===== verification/Graph_Router.thy ===== *)
theory Graph_Router
  imports Graph_Topology
begin

text \<open>
  The pure control-flow core, \<open>graph/router.py\<close>: the frozen router state, the scratch copy
  \<open>_Work\<close> that one \<open>advance\<close> mutates, and the reducer \<open>start\<close> / \<open>advance\<close> with its helpers, one
  definition per method. An exception is the left value of a sum; the reads \<open>d[k]\<close> of the
  topology and of the node table are total functions whose keys are shown present in
  \<open>Router_Invariants\<close>.
\<close>

section \<open>State\<close>

datatype outcome = ORunning | OCompleted | ORejected | OEscalated | OFailed

datatype unavailable = Exhausted | TargetDead

datatype drop_reason = Stale | Duplicate | PostTerminal

datatype node_status = NPending | NRunning | NDone | NDead

fun unavailable_value :: "unavailable \<Rightarrow> string" where
  "unavailable_value Exhausted = ''exhausted''"
| "unavailable_value TargetDead = ''target_dead''"

fun drop_value :: "drop_reason \<Rightarrow> string" where
  "drop_value Stale = ''stale''"
| "drop_value Duplicate = ''duplicate''"
| "drop_value PostTerminal = ''post_terminal''"

fun terminal_outcome :: "terminal \<Rightarrow> outcome" where
  "terminal_outcome TRejected = ORejected"
| "terminal_outcome TFailed = OFailed"

definition is_terminal :: "outcome \<Rightarrow> bool" where
  "is_terminal oc \<longleftrightarrow> oc \<in> {ORejected, OEscalated, OFailed}"

record node_state =
  ns_round :: nat
  ns_status :: node_status
  ns_taken_port :: "string option"

abbreviation mk_node_state :: "nat \<Rightarrow> node_status \<Rightarrow> string option \<Rightarrow> node_state" where
  "mk_node_state r s p \<equiv> \<lparr>ns_round = r, ns_status = s, ns_taken_port = p\<rparr>"

record token =
  tk_payload_ref :: string
  tk_producer :: string

record live_activation =
  la_activation_id :: string
  la_node_id :: string
  la_unavailable_ports :: "(string, unavailable) dict"

record emission =
  em_activation_id :: string
  em_port :: string
  em_payload_ref :: string

record dropped =
  dr_activation_id :: string
  dr_port :: string
  dr_reason :: drop_reason

record router_state =
  rs_nodes :: "string \<rightharpoonup> node_state"
  rs_slots :: "string \<rightharpoonup> token"
  rs_traversals :: "string \<rightharpoonup> nat"
  rs_live :: "live_activation list"
  rs_retired :: "string list"
  rs_emissions :: "emission list"
  rs_dropped :: "dropped list"
  rs_outcome :: outcome
  rs_reason :: "string option"

datatype event =
    Emitted (ev_activation_id: string) (ev_port: string) (ev_payload_ref: string)
  | Halt terminal string

datatype input = OneRef string | ManyRefs "string list"

record activation =
  ac_activation_id :: string
  ac_node_id :: string
  ac_round :: nat
  ac_inputs :: "(string, input) dict"
  ac_unavailable_ports :: "(string, unavailable) dict"

record step =
  sp_state :: router_state
  sp_activations :: "activation list"
  sp_cancelled :: "string list"
  sp_outcome :: outcome
  sp_reason :: "string option"

text \<open>The exceptions of the router, all of them \<open>RouterError\<close>, by the place that raises them.\<close>

datatype router_error =
    HaltAfterTerminal outcome string
  | NeverIssued string
  | NotAnOutPort string string
  | Unaccounted string
  | ConflictingEmission string

section \<open>The scratch copy\<close>

record work =
  wk_nodes :: "string \<rightharpoonup> node_state"
  wk_slots :: "string \<rightharpoonup> token"
  wk_traversals :: "string \<rightharpoonup> nat"
  wk_live :: "(string, live_activation) dict"
  wk_retired :: "string list"
  wk_emissions :: "emission list"
  wk_dropped :: "dropped list"
  wk_outcome :: outcome
  wk_reason :: "string option"

definition work_of :: "router_state \<Rightarrow> work" where
  "work_of s = \<lparr>wk_nodes = rs_nodes s, wk_slots = rs_slots s, wk_traversals = rs_traversals s,
     wk_live = dict_of (map (\<lambda>a. (la_activation_id a, a)) (rs_live s)),
     wk_retired = rs_retired s, wk_emissions = rs_emissions s, wk_dropped = rs_dropped s,
     wk_outcome = rs_outcome s, wk_reason = rs_reason s\<rparr>"

text \<open>Freezing sorts every collection, as the field validators of \<open>RouterState\<close> do.\<close>

definition freeze :: "work \<Rightarrow> router_state" where
  "freeze w = \<lparr>rs_nodes = wk_nodes w, rs_slots = wk_slots w, rs_traversals = wk_traversals w,
     rs_live = sort_key la_activation_id (map snd (wk_live w)),
     rs_retired = sorted_set (wk_retired w),
     rs_emissions = sort_key em_activation_id (wk_emissions w),
     rs_dropped = sort_key (\<lambda>d. (dr_activation_id d, dr_port d, drop_value (dr_reason d))) (wk_dropped w),
     rs_outcome = wk_outcome w, rs_reason = wk_reason w\<rparr>"

abbreviation node_at :: "work \<Rightarrow> string \<Rightarrow> node_state" where
  "node_at w n \<equiv> the (wk_nodes w n)"

definition node_of :: "string \<Rightarrow> string" where
  "node_of activation_id = fst (rpartition (CHR ''#'') activation_id)"

section \<open>Events for activations that are not live\<close>

definition issued_node :: "work \<Rightarrow> string \<Rightarrow> router_error + string" where
  "issued_node w activation_id =
     (case rpartition (CHR ''#'') activation_id of (node_id, sep, k) \<Rightarrow>
        if sep = ''#'' \<and> wk_nodes w node_id \<noteq> None \<and> isdigit k
           \<and> 1 \<le> str_nat k \<and> str_nat k \<le> ns_round (node_at w node_id)
        then Inr node_id else Inl (NeverIssued activation_id))"

definition drop_event :: "work \<Rightarrow> string \<Rightarrow> string \<Rightarrow> drop_reason \<Rightarrow> step" where
  "drop_event w aid port reason =
     (let w' = w\<lparr>wk_dropped := wk_dropped w @
            [\<lparr>dr_activation_id = aid, dr_port = port, dr_reason = reason\<rparr>]\<rparr>
      in \<lparr>sp_state = freeze w', sp_activations = [], sp_cancelled = [],
          sp_outcome = wk_outcome w, sp_reason = wk_reason w\<rparr>)"

definition not_live :: "work \<Rightarrow> string \<Rightarrow> string \<Rightarrow> string \<Rightarrow> router_error + step" where
  "not_live w aid port ref =
     (if aid \<in> set (wk_retired w)
      then Inr (drop_event w aid port (if is_terminal (wk_outcome w) then PostTerminal else Stale))
      else case find (\<lambda>e. em_activation_id e = aid) (wk_emissions w) of
        None \<Rightarrow> Inl (Unaccounted aid)
      | Some applied \<Rightarrow>
          if em_port applied = port \<and> em_payload_ref applied = ref
          then Inr (drop_event w aid port Duplicate)
          else Inl (ConflictingEmission aid))"

section \<open>Terminal outcomes\<close>

definition terminate :: "work \<Rightarrow> outcome \<Rightarrow> string \<Rightarrow> string option \<Rightarrow> string list \<Rightarrow> step" where
  "terminate w oc reason emitter cancelled =
     (let others = filter (\<lambda>a. Some a \<noteq> emitter) (dict_keys (wk_live w));
          w' = w\<lparr>wk_retired := wk_retired w @ dict_keys (wk_live w), wk_live := [],
                 wk_outcome := oc, wk_reason := Some reason\<rparr>
      in \<lparr>sp_state = freeze w', sp_activations = [], sp_cancelled = sorted_set (cancelled @ others),
          sp_outcome = oc, sp_reason = Some reason\<rparr>)"

section \<open>Region invalidation\<close>

definition clear_slots :: "string list \<Rightarrow> (string \<rightharpoonup> token) \<Rightarrow> (string \<rightharpoonup> token)" where
  "clear_slots region slots e =
     (case slots e of None \<Rightarrow> None
      | Some tok \<Rightarrow> if node_of (tk_producer tok) \<in> set region then None else Some tok)"

definition reset_nodes :: "string list \<Rightarrow> (string \<rightharpoonup> node_state) \<Rightarrow> (string \<rightharpoonup> node_state)" where
  "reset_nodes region nodes n =
     (if n \<in> set region then Some (mk_node_state (ns_round (the (nodes n))) NPending None) else nodes n)"

definition in_region :: "string list \<Rightarrow> work \<Rightarrow> string list" where
  "in_region region w = sort (map fst (filter (\<lambda>(_, l). la_node_id l \<in> set region) (wk_live w)))"

definition traverse_back :: "topology \<Rightarrow> work \<Rightarrow> string \<Rightarrow> token \<Rightarrow> work \<times> string list" where
  "traverse_back t w eid token =
     (let target = fst (snd (snd (dict_at (tp_edges t) eid)));
          region = dict_at (tp_regions t) target;
          cancelled = in_region region w
      in (w\<lparr>wk_traversals := (wk_traversals w)(eid \<mapsto>
               (case wk_traversals w eid of None \<Rightarrow> 0 | Some k \<Rightarrow> k) + 1),
            wk_live := filter (\<lambda>(_, l). la_node_id l \<notin> set region) (wk_live w),
            wk_retired := wk_retired w @ cancelled,
            wk_nodes := reset_nodes region (wk_nodes w),
            wk_slots := (clear_slots region (wk_slots w))(eid \<mapsto> token)\<rparr>, cancelled))"

section \<open>Readiness and deadness\<close>

definition edge_dead :: "topology \<Rightarrow> work \<Rightarrow> string \<Rightarrow> bool" where
  "edge_dead t w eid =
     (case dict_at (tp_edges t) eid of (source, source_port, _, _) \<Rightarrow>
        let ns = node_at w source in
        ns_status ns = NDead \<or> (ns_status ns = NDone \<and> ns_taken_port ns \<noteq> Some source_port))"

datatype port_state = Filled | DeadPort | Empty

definition port_state :: "topology \<Rightarrow> work \<Rightarrow> port_wiring \<Rightarrow> port_state" where
  "port_state t w wiring =
     (let es = pw_forward_edges wiring;
          filled = (\<lambda>e. wk_slots w e \<noteq> None) in
      if list_all (edge_dead t w) es then DeadPort
      else if pw_multiplicity wiring = One
      then (if list_ex filled es then Filled else Empty)
      else (if list_all (\<lambda>e. filled e \<or> edge_dead t w e) es \<and> list_ex filled es
            then Filled else Empty))"

definition fed_port_states :: "topology \<Rightarrow> work \<Rightarrow> string \<Rightarrow> (port_wiring \<times> port_state) list" where
  "fed_port_states t w n =
     map (\<lambda>(_, wiring). (wiring, port_state t w wiring))
       (filter (\<lambda>(_, wiring). pw_forward_edges wiring \<noteq> []) (dict_sorted (dict_at (tp_in_ports t) n)))"

definition is_dead :: "topology \<Rightarrow> work \<Rightarrow> string \<Rightarrow> bool" where
  "is_dead t w n =
     (let states = fed_port_states t w n in
      states \<noteq> [] \<and>
      (list_ex (\<lambda>(wiring, s). pw_required wiring \<and> s = DeadPort) states
       \<or> list_all (\<lambda>(_, s). s = DeadPort) states))"

definition is_ready :: "topology \<Rightarrow> work \<Rightarrow> string \<Rightarrow> bool" where
  "is_ready t w n =
     list_all (\<lambda>(wiring, s). if pw_required wiring then s = Filled else s = Filled \<or> s = DeadPort)
       (fed_port_states t w n)"

fun gather_inputs :: "work \<Rightarrow> (string \<times> port_wiring) list \<Rightarrow> (string, input) dict option" where
  "gather_inputs w [] = Some []"
| "gather_inputs w ((name, wiring) # rest) =
     (let occupied = sort (filter (\<lambda>e. wk_slots w e \<noteq> None)
            (pw_forward_edges wiring @ pw_back_edges wiring));
          ref = (\<lambda>e. tk_payload_ref (the (wk_slots w e))) in
      if occupied = [] then gather_inputs w rest
      else if pw_multiplicity wiring = Many
      then map_option (\<lambda>d. (name, ManyRefs (map ref occupied)) # d) (gather_inputs w rest)
      else if length occupied > 1 then None
      else map_option (\<lambda>d. (name, OneRef (ref (hd occupied))) # d) (gather_inputs w rest))"

definition inputs_of :: "topology \<Rightarrow> work \<Rightarrow> string \<Rightarrow> (string, input) dict option" where
  "inputs_of t w n = gather_inputs w (dict_sorted (dict_at (tp_in_ports t) n))"

definition port_unavailable :: "topology \<Rightarrow> work \<Rightarrow> string list \<Rightarrow> unavailable option" where
  "port_unavailable t w eids =
     (case eids of
        [eid] \<Rightarrow>
          (case dict_get (tp_bounds t) eid of
             None \<Rightarrow> None
           | Some bound \<Rightarrow>
               if bound \<le> (case wk_traversals w eid of None \<Rightarrow> 0 | Some k \<Rightarrow> k) then Some Exhausted
               else if ns_status (node_at w (fst (snd (snd (dict_at (tp_edges t) eid))))) = NDead
               then Some TargetDead else None)
      | _ \<Rightarrow> None)"

definition unavailable_ports :: "topology \<Rightarrow> work \<Rightarrow> string \<Rightarrow> (string, unavailable) dict" where
  "unavailable_ports t w n =
     List.map_filter (\<lambda>(port, eids). map_option (Pair port) (port_unavailable t w eids))
       (dict_sorted (dict_at (tp_out_ports t) n))"

section \<open>Settling\<close>

text \<open>Phase A: one pass over the nodes, and the passes to a fixpoint.\<close>

definition set_node :: "string \<Rightarrow> node_state \<Rightarrow> work \<Rightarrow> work" where
  "set_node n ns w = w\<lparr>wk_nodes := (wk_nodes w)(n \<mapsto> ns)\<rparr>"

abbreviation pending :: "work \<Rightarrow> string \<Rightarrow> bool" where
  "pending w n \<equiv> ns_status (node_at w n) = NPending"

definition mark_dead :: "string \<Rightarrow> work \<Rightarrow> work" where
  "mark_dead n w = set_node n (mk_node_state (ns_round (node_at w n)) NDead None) w"

fun dead_pass :: "topology \<Rightarrow> string list \<Rightarrow> work \<times> bool \<Rightarrow> work \<times> bool" where
  "dead_pass t [] (w, changed) = (w, changed)"
| "dead_pass t (n # ns) (w, changed) =
     (if pending w n \<and> is_dead t w n then dead_pass t ns (mark_dead n w, True)
      else dead_pass t ns (w, changed))"

definition n_pending :: "topology \<Rightarrow> work \<Rightarrow> nat" where
  "n_pending t w = card {n \<in> set (tp_node_ids t). pending w n}"

lemma pending_mark_dead: "pending (mark_dead m w) n \<longleftrightarrow> n \<noteq> m \<and> pending w n"
  by (simp add: mark_dead_def set_node_def)

lemma dead_pass_pending: "{n \<in> A. pending (fst (dead_pass t ns (w, c))) n} \<subseteq> {n \<in> A. pending w n}"
proof (induction t ns "(w, c)" arbitrary: w c rule: dead_pass.induct)
  case (2 t n ns w c)
  show ?case
  proof (cases "pending w n \<and> is_dead t w n")
    case True
    with 2(1) [OF True] show ?thesis by (auto simp: pending_mark_dead)
  next
    case False
    with 2(2) [OF False] show ?thesis by auto
  qed
qed simp

lemma dead_pass_changed:
  assumes "snd (dead_pass t ns (w, False))" "set ns \<subseteq> A"
  shows "{n \<in> A. pending (fst (dead_pass t ns (w, False))) n} \<subset> {n \<in> A. pending w n}"
  using assms
proof (induction ns arbitrary: w)
  case (Cons n ns)
  show ?case
  proof (cases "pending w n \<and> is_dead t w n")
    case True
    have "{m \<in> A. pending (fst (dead_pass t ns (mark_dead n w, True))) m}
        \<subseteq> {m \<in> A. pending (mark_dead n w) m}"
      by (rule dead_pass_pending)
    also have "\<dots> \<subset> {m \<in> A. pending w m}"
      using True Cons.prems(2) by (auto simp: pending_mark_dead)
    finally have "{m \<in> A. pending (fst (dead_pass t ns (mark_dead n w, True))) m} \<subset> {n \<in> A. pending w n}" .
    then show ?thesis using True by simp
  next
    case False
    then have eq: "dead_pass t (n # ns) (w, False) = dead_pass t ns (w, False)" by auto
    with Cons.prems have "snd (dead_pass t ns (w, False))" "set ns \<subseteq> A" by auto
    then show ?thesis unfolding eq by (rule Cons.IH)
  qed
qed simp

function deaden :: "topology \<Rightarrow> work \<Rightarrow> work" where
  "deaden t w =
     (case dead_pass t (tp_node_ids t) (w, False) of (w', changed) \<Rightarrow>
        if changed then deaden t w' else w')"
  by pat_completeness auto
termination
proof (relation "measure (\<lambda>(t, w). n_pending t w)", goal_cases)
  case (2 t w w' changed)
  then have "snd (dead_pass t (tp_node_ids t) (w, False))"
    and w': "w' = fst (dead_pass t (tp_node_ids t) (w, False))" by (metis snd_conv fst_conv)+
  from dead_pass_changed [OF this(1) subset_refl] show ?case
    unfolding w' by (simp add: n_pending_def psubset_card_mono)
qed simp

declare deaden.simps [simp del]

text \<open>Phase B: the ready nodes with their inputs, or the first node that holds two tokens.\<close>

fun collect_ready :: "topology \<Rightarrow> work \<Rightarrow> string list \<Rightarrow> string + (string \<times> (string, input) dict) list" where
  "collect_ready t w [] = Inr []"
| "collect_ready t w (n # ns) =
     (if pending w n \<and> is_ready t w n
      then case inputs_of t w n of
             None \<Rightarrow> Inl n
           | Some inputs \<Rightarrow>
               (case collect_ready t w ns of Inl m \<Rightarrow> Inl m | Inr rs \<Rightarrow> Inr ((n, inputs) # rs))
      else collect_ready t w ns)"

definition issue :: "topology \<Rightarrow> string \<Rightarrow> (string, input) dict \<Rightarrow> work \<Rightarrow> work \<times> activation" where
  "issue t n inputs w =
     (let unav = unavailable_ports t w n;
          round = ns_round (node_at w n) + 1;
          aid = gate_key n (int round);
          la = \<lparr>la_activation_id = aid, la_node_id = n, la_unavailable_ports = unav\<rparr>
      in ((set_node n (mk_node_state round NRunning None) w)\<lparr>wk_live := AList.update aid la (wk_live w)\<rparr>,
          \<lparr>ac_activation_id = aid, ac_node_id = n, ac_round = round, ac_inputs = inputs,
           ac_unavailable_ports = unav\<rparr>))"

fun issue_all :: "topology \<Rightarrow> (string \<times> (string, input) dict) list \<Rightarrow> work \<Rightarrow> work \<times> activation list" where
  "issue_all t [] w = (w, [])"
| "issue_all t ((n, inputs) # rs) w =
     (case issue t n inputs w of (w', a) \<Rightarrow> case issue_all t rs w' of (w'', acts) \<Rightarrow> (w'', a # acts))"

definition settle :: "topology \<Rightarrow> work \<Rightarrow> string list \<Rightarrow> step" where
  "settle t w0 cancelled =
     (let w = deaden t w0 in
      case collect_ready t w (tp_node_ids t) of
        Inl n \<Rightarrow> terminate w OEscalated
                  (''router_invariant: '' @ n @ '' holds two tokens on a one port'') None cancelled
      | Inr ready \<Rightarrow>
          (case issue_all t ready w of (w', issued) \<Rightarrow>
             let oc = (if wk_live w' \<noteq> [] then ORunning else OCompleted);
                 w'' = w'\<lparr>wk_outcome := oc, wk_reason := None\<rparr>
             in \<lparr>sp_state = freeze w'', sp_activations = issued, sp_cancelled = sort cancelled,
                 sp_outcome = oc, sp_reason = None\<rparr>))"

section \<open>The reducer\<close>

definition init_state :: "topology \<Rightarrow> router_state" where
  "init_state t = \<lparr>rs_nodes = (\<lambda>n. if n \<in> set (tp_node_ids t) then Some (mk_node_state 0 NPending None) else None),
     rs_slots = Map.empty, rs_traversals = Map.empty, rs_live = [], rs_retired = [],
     rs_emissions = [], rs_dropped = [], rs_outcome = ORunning, rs_reason = None\<rparr>"

definition start :: "topology \<Rightarrow> step" where
  "start t = settle t (work_of (init_state t)) []"

text \<open>Step 6: delivery into the forward edges of the port, in order.\<close>

fun deliver :: "string list \<Rightarrow> token \<Rightarrow> work \<Rightarrow> (string \<times> work) + work" where
  "deliver [] tok w = Inr w"
| "deliver (e # es) tok w =
     (if wk_slots w e \<noteq> None then Inl (e, w)
      else deliver es tok (w\<lparr>wk_slots := (wk_slots w)(e \<mapsto> tok)\<rparr>))"

text \<open>Step 3: the activation leaves \<open>live\<close>, its emission is recorded, its node is done.\<close>

definition mark_done :: "work \<Rightarrow> string \<Rightarrow> string \<Rightarrow> string \<Rightarrow> string \<Rightarrow> work" where
  "mark_done w node_id aid port ref =
     (set_node node_id (mk_node_state (ns_round (node_at w node_id)) NDone (Some port)) w)
       \<lparr>wk_live := AList.delete aid (wk_live w),
        wk_emissions := wk_emissions w @
          [\<lparr>em_activation_id = aid, em_port = port, em_payload_ref = ref\<rparr>]\<rparr>"

text \<open>Steps 3 to 7 for a live activation and an available port.\<close>

definition apply_emission :: "topology \<Rightarrow> work \<Rightarrow> string \<Rightarrow> string \<Rightarrow> string \<Rightarrow> string \<Rightarrow> step" where
  "apply_emission t w0 node_id aid port ref =
     (let w = mark_done w0 node_id aid port ref;
          token = \<lparr>tk_payload_ref = ref, tk_producer = aid\<rparr>;
          edges = dict_at (dict_at (tp_out_ports t) node_id) port in
      case edges of
        [] \<Rightarrow>
          (case dict_get (dict_get_or (tp_terminal_ports t) node_id []) port of
             Some kind \<Rightarrow> terminate w (terminal_outcome kind) (node_id @ ''.'' @ port) None []
           | None \<Rightarrow> settle t w [])
      | e # _ \<Rightarrow>
          if dict_get (tp_bounds t) e \<noteq> None
          then (case traverse_back t w e token of (w', cancelled) \<Rightarrow> settle t w' cancelled)
          else (case deliver edges token w of
                  Inl (slot, w') \<Rightarrow> terminate w' OEscalated
                      (''router_invariant: delivery into occupied slot '' @ slot) None []
                | Inr w' \<Rightarrow> settle t w' []))"

definition advance_emitted ::
    "topology \<Rightarrow> router_state \<Rightarrow> string \<Rightarrow> string \<Rightarrow> string \<Rightarrow> router_error + step" where
  "advance_emitted t s aid port ref =
     (let w = work_of s in
      case issued_node w aid of
        Inl err \<Rightarrow> Inl err
      | Inr node_id \<Rightarrow>
          if port \<notin> set (dict_keys (dict_at (tp_out_ports t) node_id))
          then Inl (NotAnOutPort aid port)
          else case dict_get (wk_live w) aid of
            None \<Rightarrow> not_live w aid port ref
          | Some live \<Rightarrow>
              (case dict_get (la_unavailable_ports live) port of
                 Some why \<Rightarrow> Inr (terminate w OEscalated
                    (node_id @ ''.'' @ port @ '': '' @ unavailable_value why) (Some aid) [])
               | None \<Rightarrow> Inr (apply_emission t w node_id aid port ref)))"

fun advance :: "topology \<Rightarrow> router_state \<Rightarrow> event \<Rightarrow> router_error + step" where
  "advance t s (Halt kind reason) =
     (if rs_outcome s \<noteq> ORunning then Inl (HaltAfterTerminal (rs_outcome s) reason)
      else Inr (terminate (work_of s) (terminal_outcome kind) reason None []))"
| "advance t s (Emitted aid port ref) = advance_emitted t s aid port ref"

end
