(* ===== verification/Router_Invariants.thy ===== *)
theory Router_Invariants
  imports Graph_Router
begin

text \<open>
  What the router relies on and what it keeps. The locale \<open>topology_laws\<close> is the contract that
  \<open>graph/validate.py\<close> promises for every topology it builds; inside it, every operation of the
  reducer is shown to keep the invariant of the router state, from which the reachable-state
  theorems follow: no backstop of the router fires, loops stay within their bounds, and a run
  that completes leaves no node behind.
\<close>

section \<open>Reading a topology\<close>

definition e_src :: "topology \<Rightarrow> string \<Rightarrow> string" where
  "e_src t e = fst (dict_at (tp_edges t) e)"

definition e_sport :: "topology \<Rightarrow> string \<Rightarrow> string" where
  "e_sport t e = fst (snd (dict_at (tp_edges t) e))"

definition e_tgt :: "topology \<Rightarrow> string \<Rightarrow> string" where
  "e_tgt t e = fst (snd (snd (dict_at (tp_edges t) e)))"

definition e_tport :: "topology \<Rightarrow> string \<Rightarrow> string" where
  "e_tport t e = snd (snd (snd (dict_at (tp_edges t) e)))"

lemma edge_tuple: "dict_at (tp_edges t) e = (e_src t e, e_sport t e, e_tgt t e, e_tport t e)"
  by (simp add: e_src_def e_sport_def e_tgt_def e_tport_def)

abbreviation node_set :: "topology \<Rightarrow> string set" where
  "node_set t \<equiv> set (tp_node_ids t)"

definition edge_set :: "topology \<Rightarrow> string set" where
  "edge_set t = set (dict_keys (tp_edges t))"

definition back_edges :: "topology \<Rightarrow> string set" where
  "back_edges t = {e \<in> edge_set t. dict_get (tp_bounds t) e \<noteq> None}"

definition fwd_edges :: "topology \<Rightarrow> string set" where
  "fwd_edges t = {e \<in> edge_set t. dict_get (tp_bounds t) e = None}"

definition fwd_rel :: "topology \<Rightarrow> (string \<times> string) set" where
  "fwd_rel t = {(e_src t e, e_tgt t e) | e. e \<in> fwd_edges t}"

definition region_of :: "topology \<Rightarrow> string \<Rightarrow> string list" where
  "region_of t e = dict_at (tp_regions t) (e_tgt t e)"

section \<open>The contract of a validated topology\<close>

locale topology_laws =
  fixes t :: topology
  assumes ports_total:
      "set (dict_keys (tp_out_ports t)) = node_set t" "set (dict_keys (tp_in_ports t)) = node_set t"
    and node_ids_distinct: "distinct (tp_node_ids t)"
    and ends: "e \<in> edge_set t \<Longrightarrow> e_src t e \<in> node_set t \<and> e_tgt t e \<in> node_set t"
    and edge_inj: "e \<in> edge_set t \<Longrightarrow> e' \<in> edge_set t \<Longrightarrow>
      dict_at (tp_edges t) e = dict_at (tp_edges t) e' \<Longrightarrow> e = e'"
    and out_ports: "n \<in> node_set t \<Longrightarrow> dict_get (dict_at (tp_out_ports t) n) p = Some es \<Longrightarrow>
      distinct es \<and> set es = {e \<in> edge_set t. e_src t e = n \<and> e_sport t e = p}"
    and out_port_known: "e \<in> edge_set t \<Longrightarrow>
      e_sport t e \<in> set (dict_keys (dict_at (tp_out_ports t) (e_src t e)))"
    and in_ports: "n \<in> node_set t \<Longrightarrow> (q, wr) \<in> set (dict_at (tp_in_ports t) n) \<Longrightarrow>
      distinct (pw_forward_edges wr @ pw_back_edges wr)
      \<and> set (pw_forward_edges wr) = {e \<in> fwd_edges t. e_tgt t e = n \<and> e_tport t e = q}
      \<and> set (pw_back_edges wr) = {e \<in> back_edges t. e_tgt t e = n \<and> e_tport t e = q}"
    and not_mixed: "n \<in> node_set t \<Longrightarrow> (q, wr) \<in> set (dict_at (tp_in_ports t) n) \<Longrightarrow>
      pw_forward_edges wr = [] \<or> pw_back_edges wr = []"
    and one_source: "n \<in> node_set t \<Longrightarrow> (q, wr) \<in> set (dict_at (tp_in_ports t) n) \<Longrightarrow>
      pw_multiplicity wr = One \<Longrightarrow> e \<in> set (pw_forward_edges wr) \<Longrightarrow>
      e' \<in> set (pw_forward_edges wr) \<Longrightarrow> e_src t e = e_src t e'"
    and back_exclusive: "e \<in> back_edges t \<Longrightarrow> e' \<in> edge_set t \<Longrightarrow>
      e_src t e' = e_src t e \<Longrightarrow> e_sport t e' = e_sport t e \<Longrightarrow> e' = e"
    and region: "e \<in> back_edges t \<Longrightarrow>
      dict_get (tp_regions t) (e_tgt t e) \<noteq> None \<and> set (region_of t e) \<subseteq> node_set t
      \<and> e_src t e \<in> set (region_of t e) \<and> e_tgt t e \<in> set (region_of t e)"
    and region_closed: "e \<in> back_edges t \<Longrightarrow> f \<in> fwd_edges t \<Longrightarrow>
      e_src t f \<in> set (region_of t e) \<Longrightarrow> e_tgt t f \<in> set (region_of t e)"
    and bounds_edges: "dict_get (tp_bounds t) e \<noteq> None \<Longrightarrow> e \<in> edge_set t"
    and fwd_acyclic: "acyclic (fwd_rel t)"

section \<open>The invariant\<close>

definition trav :: "work \<Rightarrow> string \<Rightarrow> nat" where
  "trav w e = (case wk_traversals w e of None \<Rightarrow> 0 | Some k \<Rightarrow> k)"

definition total_trav :: "topology \<Rightarrow> work \<Rightarrow> nat" where
  "total_trav t w = (\<Sum>e \<in> back_edges t. trav w e)"

abbreviation live_ids :: "work \<Rightarrow> string set" where
  "live_ids w \<equiv> set (dict_keys (wk_live w))"

abbreviation emitted_ids :: "work \<Rightarrow> string set" where
  "emitted_ids w \<equiv> em_activation_id ` set (wk_emissions w)"

abbreviation status :: "work \<Rightarrow> string \<Rightarrow> node_status" where
  "status w n \<equiv> ns_status (node_at w n)"

abbreviation taken :: "work \<Rightarrow> string \<Rightarrow> string option" where
  "taken w n \<equiv> ns_taken_port (node_at w n)"

abbreviation rounds :: "work \<Rightarrow> string \<Rightarrow> nat" where
  "rounds w n \<equiv> ns_round (node_at w n)"

definition nodes_ok :: "topology \<Rightarrow> work \<Rightarrow> bool" where
  "nodes_ok t w \<longleftrightarrow> dom (wk_nodes w) = node_set t"

text \<open>A live entry is the current activation of a running node.\<close>

definition live_ok :: "topology \<Rightarrow> work \<Rightarrow> bool" where
  "live_ok t w \<longleftrightarrow>
     distinct (dict_keys (wk_live w)) \<and>
     (\<forall>(aid, la) \<in> set (wk_live w). la_activation_id la = aid \<and> la_node_id la \<in> node_set t \<and>
        status w (la_node_id la) = NRunning \<and> aid = gate_key (la_node_id la) (int (rounds w (la_node_id la))))"

text \<open>
  The issue-time snapshot still tells the truth about loop bounds: a back edge of a live node
  whose port is not marked unavailable can be traversed once more.
\<close>

definition snap_ok :: "topology \<Rightarrow> work \<Rightarrow> bool" where
  "snap_ok t w \<longleftrightarrow>
     (\<forall>(aid, la) \<in> set (wk_live w). \<forall>e b. dict_get (tp_bounds t) e = Some b \<longrightarrow>
        e_src t e = la_node_id la \<longrightarrow> dict_get (la_unavailable_ports la) (e_sport t e) = None \<longrightarrow> trav w e < b)"

text \<open>Every issued activation is exactly one of live, retired and finished.\<close>

definition issued_ids :: "topology \<Rightarrow> work \<Rightarrow> string set" where
  "issued_ids t w = {gate_key n (int k) | n k. n \<in> node_set t \<and> 1 \<le> k \<and> k \<le> rounds w n}"

definition acct_ok :: "topology \<Rightarrow> work \<Rightarrow> bool" where
  "acct_ok t w \<longleftrightarrow>
     live_ids w \<union> set (wk_retired w) \<union> emitted_ids w = issued_ids t w \<and>
     live_ids w \<inter> set (wk_retired w) = {} \<and> live_ids w \<inter> emitted_ids w = {} \<and>
     set (wk_retired w) \<inter> emitted_ids w = {} \<and> distinct (map em_activation_id (wk_emissions w))"

definition slots_ok :: "topology \<Rightarrow> work \<Rightarrow> bool" where
  "slots_ok t w \<longleftrightarrow>
     (\<forall>e tok. wk_slots w e = Some tok \<longrightarrow> e \<in> edge_set t \<and> node_of (tk_producer tok) = e_src t e)"

text \<open>A forward slot is occupied exactly when its source is done on the edge's port.\<close>

definition fwd_ok :: "topology \<Rightarrow> work \<Rightarrow> bool" where
  "fwd_ok t w \<longleftrightarrow>
     (\<forall>e \<in> fwd_edges t. wk_slots w e \<noteq> None \<longleftrightarrow>
        status w (e_src t e) = NDone \<and> taken w (e_src t e) = Some (e_sport t e))"

definition back_ok :: "topology \<Rightarrow> work \<Rightarrow> bool" where
  "back_ok t w \<longleftrightarrow>
     (\<forall>e \<in> back_edges t. \<forall>e' \<in> back_edges t. wk_slots w e \<noteq> None \<longrightarrow> wk_slots w e' \<noteq> None \<longrightarrow>
        e_tgt t e = e_tgt t e' \<longrightarrow> e = e')"

definition trav_ok :: "topology \<Rightarrow> work \<Rightarrow> bool" where
  "trav_ok t w \<longleftrightarrow>
     (\<forall>e. wk_traversals w e \<noteq> None \<longrightarrow> dict_get (tp_bounds t) e \<noteq> None) \<and>
     (\<forall>e b. dict_get (tp_bounds t) e = Some b \<longrightarrow> trav w e \<le> b)"

definition round_ok :: "topology \<Rightarrow> work \<Rightarrow> bool" where
  "round_ok t w \<longleftrightarrow>
     (\<forall>n \<in> node_set t. rounds w n + (if status w n = NPending then 1 else 0) \<le> 1 + total_trav t w)"

definition taken_ok :: "topology \<Rightarrow> work \<Rightarrow> bool" where
  "taken_ok t w \<longleftrightarrow>
     (\<forall>n \<in> node_set t. status w n = NDone \<longrightarrow>
        (\<exists>p. taken w n = Some p \<and> p \<in> set (dict_keys (dict_at (tp_out_ports t) n))))"

definition core :: "topology \<Rightarrow> work \<Rightarrow> bool" where
  "core t w \<longleftrightarrow>
     nodes_ok t w \<and> live_ok t w \<and> snap_ok t w \<and> acct_ok t w \<and> slots_ok t w \<and> fwd_ok t w \<and>
     back_ok t w \<and> trav_ok t w \<and> round_ok t w \<and> taken_ok t w"

definition runlive :: "topology \<Rightarrow> work \<Rightarrow> bool" where
  "runlive t w \<longleftrightarrow>
     (\<forall>n \<in> node_set t. status w n = NRunning \<longrightarrow> gate_key n (int (rounds w n)) \<in> live_ids w)"

lemma coreD:
  assumes "core t w"
  shows "nodes_ok t w" "live_ok t w" "snap_ok t w" "acct_ok t w" "slots_ok t w" "fwd_ok t w"
    "back_ok t w" "trav_ok t w" "round_ok t w" "taken_ok t w"
  using assms by (simp_all add: core_def)

lemma coreI:
  assumes "nodes_ok t w" "live_ok t w" "snap_ok t w" "acct_ok t w" "slots_ok t w" "fwd_ok t w"
    "back_ok t w" "trav_ok t w" "round_ok t w" "taken_ok t w"
  shows "core t w"
  using assms by (simp add: core_def)

lemma node_of_gate_key [simp]: "node_of (gate_key n r) = n"
  by (simp add: node_of_def str_simps)

lemma node_at_set_node [simp]: "node_at (set_node n ns w) m = (if m = n then ns else node_at w m)"
  by (simp add: set_node_def)

lemma set_node_sel [simp]:
  "wk_slots (set_node n ns w) = wk_slots w" "wk_traversals (set_node n ns w) = wk_traversals w"
  "wk_live (set_node n ns w) = wk_live w" "wk_retired (set_node n ns w) = wk_retired w"
  "wk_emissions (set_node n ns w) = wk_emissions w" "wk_dropped (set_node n ns w) = wk_dropped w"
  "wk_outcome (set_node n ns w) = wk_outcome w" "wk_reason (set_node n ns w) = wk_reason w"
  "trav (set_node n ns w) = trav w" "total_trav t (set_node n ns w) = total_trav t w"
  by (simp_all add: set_node_def trav_def total_trav_def fun_eq_iff)

lemma dom_set_node: "n \<in> dom (wk_nodes w) \<Longrightarrow> dom (wk_nodes (set_node n ns w)) = dom (wk_nodes w)"
  by (auto simp: set_node_def)

lemma issued_ids_cong:
  "(\<And>n. n \<in> node_set t \<Longrightarrow> rounds w' n = rounds w n) \<Longrightarrow> issued_ids t w' = issued_ids t w"
  unfolding issued_ids_def by (intro Collect_cong) metis

lemmas inv_defs = nodes_ok_def live_ok_def snap_ok_def acct_ok_def slots_ok_def fwd_ok_def
  back_ok_def trav_ok_def round_ok_def taken_ok_def

section \<open>Deadness keeps the invariant\<close>

lemma core_mark_dead:
  assumes core: "core t w" and n: "n \<in> node_set t" and pend: "pending w n"
  shows "core t (mark_dead n w)"
proof -
  note c = coreD [OF core]
  show ?thesis unfolding mark_dead_def
  proof (rule coreI)
    show "nodes_ok t (set_node n (mk_node_state (rounds w n) NDead None) w)"
      using c(1) n by (simp add: nodes_ok_def dom_set_node)
    show "live_ok t (set_node n (mk_node_state (rounds w n) NDead None) w)"
      using c(2) pend by (fastforce simp: live_ok_def)
    show "snap_ok t (set_node n (mk_node_state (rounds w n) NDead None) w)"
      using c(3) by (simp add: snap_ok_def)
    show "acct_ok t (set_node n (mk_node_state (rounds w n) NDead None) w)"
      using c(4) issued_ids_cong [of t "set_node n (mk_node_state (rounds w n) NDead None) w" w]
      by (simp add: acct_ok_def)
    show "slots_ok t (set_node n (mk_node_state (rounds w n) NDead None) w)"
      using c(5) by (simp add: slots_ok_def)
    show "fwd_ok t (set_node n (mk_node_state (rounds w n) NDead None) w)"
      using c(6) pend by (auto simp: fwd_ok_def)
    show "back_ok t (set_node n (mk_node_state (rounds w n) NDead None) w)"
      using c(7) by (simp add: back_ok_def)
    show "trav_ok t (set_node n (mk_node_state (rounds w n) NDead None) w)"
      using c(8) by (simp add: trav_ok_def)
    show "round_ok t (set_node n (mk_node_state (rounds w n) NDead None) w)"
      using c(9) by (force simp: round_ok_def)
    show "taken_ok t (set_node n (mk_node_state (rounds w n) NDead None) w)"
      using c(10) by (simp add: taken_ok_def)
  qed
qed

lemma runlive_mark_dead: "runlive t w \<Longrightarrow> runlive t (mark_dead n w)"
  by (auto simp: runlive_def mark_dead_def)

text \<open>Induction over the deadness fixpoint: it only ever marks pending nodes dead.\<close>

lemma dead_pass_induct:
  assumes "P w" "set ns \<subseteq> node_set t"
    and "\<And>w n. P w \<Longrightarrow> n \<in> node_set t \<Longrightarrow> pending w n \<Longrightarrow> is_dead t w n \<Longrightarrow> P (mark_dead n w)"
  shows "P (fst (dead_pass t ns (w, c)))"
  using assms(1,2)
proof (induction ns arbitrary: w c)
  case (Cons n ns)
  then show ?case using assms(3) [of w n] by (cases "pending w n \<and> is_dead t w n") auto
qed simp

lemma deaden_induct:
  assumes "P w"
    and step: "\<And>w n. P w \<Longrightarrow> n \<in> node_set t \<Longrightarrow> pending w n \<Longrightarrow> is_dead t w n \<Longrightarrow> P (mark_dead n w)"
  shows "P (deaden t w)"
  using assms
proof (induction t w rule: deaden.induct)
  case (1 t w)
  obtain w' changed where p: "dead_pass t (tp_node_ids t) (w, False) = (w', changed)"
    by (cases "dead_pass t (tp_node_ids t) (w, False)")
  have "P (fst (dead_pass t (tp_node_ids t) (w, False)))"
    by (rule dead_pass_induct) (use "1.prems" in auto)
  then have "P w'" by (simp add: p)
  with "1.IH" [OF p [symmetric]] "1.prems"(2) show ?case
    by (auto simp: deaden.simps [of t w] p)
qed

lemma dead_pass_unchanged:
  assumes "\<not> snd (dead_pass t ns (w, c))"
  shows "fst (dead_pass t ns (w, c)) = w" "\<forall>n \<in> set ns. pending w n \<longrightarrow> \<not> is_dead t w n"
proof -
  have true: "snd (dead_pass t ns (w, True))" for t ns w
    by (induction ns arbitrary: w) auto
  have "fst (dead_pass t ns (w, c)) = w \<and> (\<forall>n \<in> set ns. pending w n \<longrightarrow> \<not> is_dead t w n)"
    using assms true by (induction ns arbitrary: c) (auto split: if_splits)
  then show "fst (dead_pass t ns (w, c)) = w" "\<forall>n \<in> set ns. pending w n \<longrightarrow> \<not> is_dead t w n"
    by auto
qed

lemma deaden_fixpoint:
  "n \<in> node_set t \<Longrightarrow> pending (deaden t w) n \<Longrightarrow> \<not> is_dead t (deaden t w) n"
proof (induction t w rule: deaden.induct)
  case (1 t w)
  obtain w' changed where p: "dead_pass t (tp_node_ids t) (w, False) = (w', changed)"
    by (cases "dead_pass t (tp_node_ids t) (w, False)")
  show ?case
  proof (cases changed)
    case True
    with "1.IH" [OF p [symmetric] True] "1.prems" show ?thesis
      by (simp add: deaden.simps [of t w] p)
  next
    case False
    with p have eq: "deaden t w = w" and "\<forall>n \<in> node_set t. pending w n \<longrightarrow> \<not> is_dead t w n"
      using dead_pass_unchanged [of t "tp_node_ids t" w False]
      by (auto simp: deaden.simps [of t w])
    with "1.prems" show ?thesis by simp
  qed
qed

lemma core_deaden: "core t w \<Longrightarrow> core t (deaden t w)"
  by (rule deaden_induct [where P = "core t"]) (auto intro: core_mark_dead)

lemma runlive_deaden: "runlive t w \<Longrightarrow> runlive t (deaden t w)"
  by (rule deaden_induct [where P = "runlive t"]) (auto intro: runlive_mark_dead)

lemma deaden_live [simp]: "wk_live (deaden t w) = wk_live w"
  by (rule deaden_induct [where P = "\<lambda>v. wk_live v = wk_live w"]) (auto simp: mark_dead_def)

lemma deaden_outcome [simp]: "wk_outcome (deaden t w) = wk_outcome w"
  by (rule deaden_induct [where P = "\<lambda>v. wk_outcome v = wk_outcome w"]) (auto simp: mark_dead_def)

lemma deaden_traversals [simp]: "wk_traversals (deaden t w) = wk_traversals w"
  by (rule deaden_induct [where P = "\<lambda>v. wk_traversals v = wk_traversals w"]) (auto simp: mark_dead_def)

lemma deaden_emissions [simp]: "wk_emissions (deaden t w) = wk_emissions w"
  by (rule deaden_induct [where P = "\<lambda>v. wk_emissions v = wk_emissions w"]) (auto simp: mark_dead_def)

section \<open>Issuing an activation\<close>

lemma distinct_set_singleton:
  assumes "distinct xs" "set xs = {x}"
  shows "xs = [x]"
proof (cases xs)
  case (Cons y ys)
  with assms have "y = x" "set ys \<subseteq> {x}" "x \<notin> set ys" by auto
  then have "set ys = {}" by (auto simp: subset_singleton_iff)
  with Cons \<open>y = x\<close> show ?thesis by simp
qed (use assms in simp)

lemma map_of_map_filter_None:
  assumes "map_of (List.map_filter (\<lambda>(p, x). map_option (Pair p) (f x)) xs) k = None" "(k, x) \<in> set xs"
  shows "f x = None"
proof (rule ccontr)
  assume "f x \<noteq> None"
  then obtain y where "f x = Some y" by auto
  with assms(2) have "(k, y) \<in> set (List.map_filter (\<lambda>(p, x). map_option (Pair p) (f x)) xs)"
    by (auto simp: List.map_filter_def intro!: rev_image_eqI)
  with assms(1) show False by (metis map_of_eq_None_iff fst_conv image_eqI)
qed

lemma issued_ids_next:
  assumes "n \<in> node_set t" "rounds w' n = Suc (rounds w n)"
    and "\<And>m. m \<noteq> n \<Longrightarrow> rounds w' m = rounds w m"
  shows "issued_ids t w' = insert (gate_key n (int (Suc (rounds w n)))) (issued_ids t w)"
proof -
  have "gate_key m (int k) \<in> issued_ids t w' \<longleftrightarrow>
      gate_key m (int k) = gate_key n (int (Suc (rounds w n))) \<or> gate_key m (int k) \<in> issued_ids t w" for m k
    using assms by (cases "m = n") (auto simp: issued_ids_def le_Suc_eq)
  moreover have "\<exists>m k. x = gate_key m (int k)" if "x \<in> issued_ids t w' \<union> insert (gate_key n (int (Suc (rounds w n)))) (issued_ids t w)" for x
    using that by (auto simp: issued_ids_def simp del: of_nat_Suc)
  ultimately show ?thesis by blast
qed

lemma gate_key_next_new: "gate_key n (int (Suc (rounds w n))) \<notin> issued_ids t w"
  by (auto simp: issued_ids_def)

context topology_laws
begin

lemma back_edge_port:
  assumes "e \<in> back_edges t"
  shows "(e_sport t e, [e]) \<in> set (dict_at (tp_out_ports t) (e_src t e))"
proof -
  have e: "e \<in> edge_set t" using assms by (simp add: back_edges_def)
  have "dict_get (dict_at (tp_out_ports t) (e_src t e)) (e_sport t e) \<noteq> None"
    using out_port_known [OF e] by (simp add: map_of_eq_None_iff)
  then obtain es where
    es: "dict_get (dict_at (tp_out_ports t) (e_src t e)) (e_sport t e) = Some es" by auto
  from out_ports [OF _ es] ends [OF e]
  have "distinct es" "set es = {x \<in> edge_set t. e_src t x = e_src t e \<and> e_sport t x = e_sport t e}"
    by auto
  then have "distinct es" "set es = {e}" using back_exclusive [OF assms] e by auto
  then have "es = [e]" by (rule distinct_set_singleton)
  with es show ?thesis by (auto dest: map_of_SomeD)
qed

lemma issue_snapshot:
  assumes "dict_get (tp_bounds t) e = Some b" "dict_get (unavailable_ports t w (e_src t e)) (e_sport t e) = None"
  shows "trav w e < b"
proof -
  have "e \<in> back_edges t" using assms(1) bounds_edges by (auto simp: back_edges_def)
  from back_edge_port [OF this]
  have "(e_sport t e, [e]) \<in> set (dict_sorted (dict_at (tp_out_ports t) (e_src t e)))" by simp
  then have "port_unavailable t w [e] = None"
    by (rule map_of_map_filter_None [OF assms(2) [unfolded unavailable_ports_def]])
  with assms(1) show ?thesis by (auto simp: port_unavailable_def trav_def split: if_splits)
qed

lemma core_issue:
  assumes core: "core t w" and n: "n \<in> node_set t" and pend: "pending w n"
  shows "core t (fst (issue t n inputs w))"
proof -
  note c = coreD [OF core]
  define aid where "aid = gate_key n (int (Suc (rounds w n)))"
  define la where "la = \<lparr>la_activation_id = aid, la_node_id = n, la_unavailable_ports = unavailable_ports t w n\<rparr>"
  let ?w = "fst (issue t n inputs w)"
  have new: "aid \<notin> issued_ids t w" unfolding aid_def by (rule gate_key_next_new)
  have "aid \<notin> live_ids w" using new c(4) by (auto simp: acct_ok_def)
  then have w: "?w = (set_node n (mk_node_state (Suc (rounds w n)) NRunning None) w)\<lparr>wk_live := wk_live w @ [(aid, la)]\<rparr>"
    by (simp add: issue_def Let_def alist_update_new aid_def la_def)
  have trav: "trav ?w = trav w" "total_trav t ?w = total_trav t w"
    by (simp_all add: w trav_def total_trav_def set_node_def fun_eq_iff)
  have node: "node_at ?w m = (if m = n then mk_node_state (Suc (rounds w n)) NRunning None else node_at w m)" for m
    by (simp add: w set_node_def)
  have la_n: "la_node_id l \<noteq> n" if "(a, l) \<in> set (wk_live w)" for a l
    using c(2) pend that by (auto simp: live_ok_def)
  have ids: "issued_ids t ?w = insert aid (issued_ids t w)"
    unfolding aid_def by (rule issued_ids_next [OF n]) (simp_all add: node)
  show ?thesis
  proof (rule coreI)
    show "nodes_ok t ?w" using c(1) n by (auto simp: nodes_ok_def w set_node_def)
    show "live_ok t ?w"
      using c(2) la_n \<open>aid \<notin> live_ids w\<close> n
      by (fastforce simp: live_ok_def w la_def aid_def set_node_def)
    show "snap_ok t ?w"
      using c(3) issue_snapshot [of _ _ w] unfolding snap_ok_def trav
      by (auto simp: w la_def)
    show "acct_ok t ?w"
      using c(4) new unfolding acct_ok_def ids by (auto simp: w)
    show "slots_ok t ?w" using c(5) by (simp add: slots_ok_def w)
    show "fwd_ok t ?w" using c(6) pend by (auto simp: fwd_ok_def w set_node_def)
    show "back_ok t ?w" using c(7) by (simp add: back_ok_def w)
    show "trav_ok t ?w" using c(8) unfolding trav_ok_def trav by (simp add: w)
    show "round_ok t ?w" using c(9) pend n unfolding round_ok_def trav node by force
    show "taken_ok t ?w" using c(10) unfolding taken_ok_def node by auto
  qed
qed

lemma runlive_issue:
  assumes "core t w" "n \<in> node_set t" "pending w n" "runlive t w"
  shows "runlive t (fst (issue t n inputs w))"
proof -
  have "gate_key n (int (Suc (rounds w n))) \<notin> live_ids w"
    using coreD(4) [OF assms(1)] gate_key_next_new [of n w t] by (auto simp: acct_ok_def)
  then show ?thesis
    using assms(4) by (auto simp: runlive_def issue_def Let_def alist_update_new set_node_def)
qed

lemma pending_issue: "pending (fst (issue t n inputs w)) m \<longleftrightarrow> m \<noteq> n \<and> pending w m"
  by (simp add: issue_def Let_def set_node_def)

lemma core_issue_all:
  assumes "core t w" "runlive t w" "distinct (map fst rs)"
    and "\<And>n. n \<in> fst ` set rs \<Longrightarrow> n \<in> node_set t \<and> pending w n"
  shows "core t (fst (issue_all t rs w)) \<and> runlive t (fst (issue_all t rs w))"
  using assms
proof (induction rs arbitrary: w)
  case (Cons r rs)
  obtain n inputs where r: "r = (n, inputs)" by (cases r)
  let ?w = "fst (issue t n inputs w)"
  have n: "n \<in> node_set t" "pending w n" using Cons.prems(4) [of n] r by auto
  have "core t ?w" "runlive t ?w"
    using core_issue [OF Cons.prems(1) n] runlive_issue [OF Cons.prems(1) n Cons.prems(2)] by auto
  moreover have "m \<in> node_set t \<and> pending ?w m" if "m \<in> fst ` set rs" for m
    using that Cons.prems(3,4) r by (auto simp: pending_issue)
  ultimately have "core t (fst (issue_all t rs ?w)) \<and> runlive t (fst (issue_all t rs ?w))"
    using Cons.IH [of ?w] Cons.prems(3) r by auto
  then show ?case by (simp add: r case_prod_beta)
qed simp

section \<open>No input port holds two tokens\<close>

lemma occupied_unique:
  assumes core: "core t w" and n: "n \<in> node_set t" and wr: "(q, wr) \<in> set (dict_at (tp_in_ports t) n)"
    and one: "pw_multiplicity wr = One"
    and e: "e \<in> set (pw_forward_edges wr @ pw_back_edges wr)" "wk_slots w e \<noteq> None"
    and e': "e' \<in> set (pw_forward_edges wr @ pw_back_edges wr)" "wk_slots w e' \<noteq> None"
  shows "e = e'"
proof (cases "pw_forward_edges wr = []")
  case True
  with e(1) e'(1) in_ports [OF n wr] have "e \<in> back_edges t" "e' \<in> back_edges t" "e_tgt t e = e_tgt t e'"
    by auto
  with coreD(7) [OF core] e(2) e'(2) show ?thesis by (auto simp: back_ok_def)
next
  case False
  with not_mixed [OF n wr] e(1) e'(1) have fw: "e \<in> set (pw_forward_edges wr)" "e' \<in> set (pw_forward_edges wr)"
    by auto
  then have fwd: "e \<in> fwd_edges t" "e' \<in> fwd_edges t" "e_tgt t e = e_tgt t e'" "e_tport t e = e_tport t e'"
    using in_ports [OF n wr] by auto
  moreover have "e_src t e = e_src t e'" by (rule one_source [OF n wr one fw])
  moreover have "e_sport t e = e_sport t e'"
    using coreD(6) [OF core] fwd(1,2) e(2) e'(2) \<open>e_src t e = e_src t e'\<close> by (auto simp: fwd_ok_def)
  ultimately show ?thesis using edge_inj [of e e'] by (auto simp: fwd_edges_def edge_tuple)
qed

lemma gather_inputs_total:
  assumes "\<And>q wr. (q, wr) \<in> set ps \<Longrightarrow> pw_multiplicity wr = One \<Longrightarrow>
      length (filter (\<lambda>e. wk_slots w e \<noteq> None) (pw_forward_edges wr @ pw_back_edges wr)) \<le> 1"
  shows "gather_inputs w ps \<noteq> None"
  using assms
proof (induction ps)
  case (Cons p ps)
  obtain q wr where p: "p = (q, wr)" by (cases p)
  have IH: "gather_inputs w ps \<noteq> None"
    by (rule Cons.IH) (rule Cons.prems [OF list.set_intros(2)])
  have le: "pw_multiplicity wr = One \<Longrightarrow>
      \<not> length (sort (filter (\<lambda>e. wk_slots w e \<noteq> None) (pw_forward_edges wr @ pw_back_edges wr))) > 1"
    using Cons.prems [of q wr] p by simp
  show ?case
  proof (cases "pw_multiplicity wr")
    case One
    with le [OF One] IH show ?thesis unfolding p gather_inputs.simps Let_def by simp
  next
    case Many
    with IH show ?thesis unfolding p gather_inputs.simps Let_def by simp
  qed
qed simp

end

lemma length_le_1I:
  assumes "distinct xs" "\<And>x y. x \<in> set xs \<Longrightarrow> y \<in> set xs \<Longrightarrow> x = y"
  shows "length xs \<le> 1"
proof (rule ccontr)
  assume "\<not> length xs \<le> 1"
  then obtain x y ys where xs: "xs = x # y # ys"
    by (cases xs; cases "tl xs") simp_all
  have "x = y" by (rule assms(2)) (simp_all add: xs)
  with assms(1) show False by (simp add: xs)
qed

context topology_laws
begin

lemma inputs_total:
  assumes core: "core t w" and n: "n \<in> node_set t"
  shows "inputs_of t w n \<noteq> None"
  unfolding inputs_of_def
proof (rule gather_inputs_total)
  fix q wr
  assume "(q, wr) \<in> set (dict_sorted (dict_at (tp_in_ports t) n))" and one: "pw_multiplicity wr = One"
  then have wr: "(q, wr) \<in> set (dict_at (tp_in_ports t) n)" by simp
  show "length (filter (\<lambda>e. wk_slots w e \<noteq> None) (pw_forward_edges wr @ pw_back_edges wr)) \<le> 1"
  proof (rule length_le_1I)
    show "distinct (filter (\<lambda>e. wk_slots w e \<noteq> None) (pw_forward_edges wr @ pw_back_edges wr))"
      using in_ports [OF n wr] by (metis distinct_filter)
  qed (use occupied_unique [OF core n wr one] in auto)
qed

lemma collect_ready_total:
  assumes "core t w" "set ns \<subseteq> node_set t"
  obtains rs where "collect_ready t w ns = Inr rs"
    "map fst rs = filter (\<lambda>n. pending w n \<and> is_ready t w n) ns"
proof -
  have "\<exists>rs. collect_ready t w ns = Inr rs \<and> map fst rs = filter (\<lambda>n. pending w n \<and> is_ready t w n) ns"
    using assms(2)
  proof (induction ns)
    case (Cons n ns)
    then obtain rs where "collect_ready t w ns = Inr rs"
      "map fst rs = filter (\<lambda>n. pending w n \<and> is_ready t w n) ns" by auto
    moreover obtain inputs where "inputs_of t w n = Some inputs"
      using inputs_total [OF assms(1), of n] Cons.prems by auto
    ultimately show ?case by auto
  qed simp
  then show thesis using that by auto
qed

section \<open>A settled run with nothing live has settled every node\<close>

lemma finite_fwd_rel: "finite (fwd_rel t)"
proof -
  have "fwd_rel t \<subseteq> (\<lambda>e. (e_src t e, e_tgt t e)) ` edge_set t"
    by (auto simp: fwd_rel_def fwd_edges_def)
  then show ?thesis by (rule finite_subset) (simp add: edge_set_def)
qed

lemma resolved_port:
  assumes core: "core t w" and n: "n \<in> node_set t" and wr: "(q, wr) \<in> set (dict_at (tp_in_ports t) n)"
    and preds: "\<And>e. e \<in> fwd_edges t \<Longrightarrow> e_tgt t e = n \<Longrightarrow> status w (e_src t e) \<in> {NDone, NDead}"
  shows "port_state t w wr \<in> {Filled, DeadPort}"
proof -
  have edge: "edge_dead t w e \<or> wk_slots w e \<noteq> None" if "e \<in> set (pw_forward_edges wr)" for e
  proof -
    have e: "e \<in> fwd_edges t" "e_tgt t e = n" using that in_ports [OF n wr] by auto
    then show ?thesis
      using preds [OF e] coreD(6) [OF core] by (auto simp: edge_dead_def edge_tuple fwd_ok_def Let_def)
  qed
  show ?thesis
  proof (cases "list_all (edge_dead t w) (pw_forward_edges wr)")
    case False
    then obtain e where "e \<in> set (pw_forward_edges wr)" "\<not> edge_dead t w e" by (auto simp: list_all_iff)
    with edge [of e] have "list_ex (\<lambda>e. wk_slots w e \<noteq> None) (pw_forward_edges wr)"
      unfolding list_ex_iff by blast
    moreover have "list_all (\<lambda>e. wk_slots w e \<noteq> None \<or> edge_dead t w e) (pw_forward_edges wr)"
      unfolding list_all_iff using edge by blast
    ultimately show ?thesis by (simp add: port_state_def Let_def)
  qed (simp add: port_state_def)
qed

lemma no_pending_left:
  assumes core: "core t w"
    and no_running: "\<And>n. n \<in> node_set t \<Longrightarrow> status w n \<noteq> NRunning"
    and no_ready: "\<And>n. n \<in> node_set t \<Longrightarrow> pending w n \<Longrightarrow> \<not> is_ready t w n"
    and no_dead: "\<And>n. n \<in> node_set t \<Longrightarrow> pending w n \<Longrightarrow> \<not> is_dead t w n"
  shows "n \<in> node_set t \<Longrightarrow> status w n \<in> {NDone, NDead}"
proof (induction n rule: wf_induct_rule [OF finite_acyclic_wf [OF finite_fwd_rel fwd_acyclic]])
  case (1 n)
  show ?case
  proof (rule ccontr)
    assume "status w n \<notin> {NDone, NDead}"
    with no_running [OF 1(2)] have pend: "pending w n" by (cases "status w n") auto
    have "status w (e_src t e) \<in> {NDone, NDead}" if "e \<in> fwd_edges t" "e_tgt t e = n" for e
      using 1(1) [of "e_src t e"] that ends [of e] by (auto simp: fwd_rel_def fwd_edges_def)
    then have ports: "port_state t w wr \<in> {Filled, DeadPort}"
      if "(q, wr) \<in> set (dict_at (tp_in_ports t) n)" for q wr
      using resolved_port [OF core 1(2) that] by blast
    then have states: "\<forall>(wr, st) \<in> set (fed_port_states t w n). st \<in> {Filled, DeadPort}"
      by (auto simp: fed_port_states_def)
    have "is_ready t w n"
      using no_dead [OF 1(2) pend] states
      by (fastforce simp: is_dead_def is_ready_def list_all_iff list_ex_iff Let_def)
    with no_ready [OF 1(2) pend] show False by simp
  qed
qed

section \<open>Settling\<close>

text \<open>
  What one call of \<open>settle\<close> does on a good scratch state: it never escalates, the state it freezes
  is good again, it is \<open>running\<close> exactly when something is live, and \<open>completed\<close> only when every
  node is done or dead.
\<close>

lemma wk_outcome_cong:
  "core t (w\<lparr>wk_outcome := oc, wk_reason := r\<rparr>) \<longleftrightarrow> core t w"
  "runlive t (w\<lparr>wk_outcome := oc, wk_reason := r\<rparr>) \<longleftrightarrow> runlive t w"
  by (simp_all add: core_def inv_defs runlive_def trav_def total_trav_def issued_ids_def)

lemma issue_all_facts:
  "wk_traversals (fst (issue_all t rs w)) = wk_traversals w"
  "wk_emissions (fst (issue_all t rs w)) = wk_emissions w"
  "wk_slots (fst (issue_all t rs w)) = wk_slots w"
  by (induction rs arbitrary: w) (auto simp: case_prod_beta issue_def Let_def)

lemma issue_live: "wk_live (fst (issue t n inputs w)) \<noteq> []"
  by (simp add: issue_def Let_def)

lemma issue_all_live_mono: "wk_live w \<noteq> [] \<Longrightarrow> wk_live (fst (issue_all t rs w)) \<noteq> []"
proof (induction rs arbitrary: w)
  case (Cons r rs)
  then show ?case using issue_live by (cases r) (simp add: case_prod_beta)
qed simp

lemma issue_all_live: "rs \<noteq> [] \<Longrightarrow> wk_live (fst (issue_all t rs w)) \<noteq> []"
  using issue_all_live_mono [OF issue_live] by (cases rs) (auto simp: case_prod_beta)

lemma settle_good:
  assumes core: "core t w" and live: "runlive t w"
  obtains w' where
    "sp_state (settle t w cancelled) = freeze w'" "core t w'" "runlive t w'"
    "sp_outcome (settle t w cancelled) = wk_outcome w'" "wk_reason w' = None" "sp_reason (settle t w cancelled) = None"
    "wk_outcome w' = (if wk_live w' \<noteq> [] then ORunning else OCompleted)"
    "wk_outcome w' = OCompleted \<Longrightarrow> (\<forall>n \<in> node_set t. status w' n \<in> {NDone, NDead})"
    "wk_emissions w' = wk_emissions w" "wk_traversals w' = wk_traversals w"
    "sp_cancelled (settle t w cancelled) = sort cancelled"
proof -
  let ?d = "deaden t w"
  have d: "core t ?d" "runlive t ?d" by (rule core_deaden [OF core], rule runlive_deaden [OF live])
  obtain rs where rs: "collect_ready t ?d (tp_node_ids t) = Inr rs"
    "map fst rs = filter (\<lambda>n. pending ?d n \<and> is_ready t ?d n) (tp_node_ids t)"
    using collect_ready_total [OF d(1) subset_refl] .
  obtain v issued where v: "issue_all t rs ?d = (v, issued)" by (cases "issue_all t rs ?d")
  have "distinct (map fst rs)" unfolding rs(2) using node_ids_distinct by simp
  moreover have "n \<in> node_set t \<and> pending ?d n" if "n \<in> fst ` set rs" for n
  proof -
    from that have "n \<in> set (map fst rs)" by simp
    then show ?thesis unfolding rs(2) by simp
  qed
  ultimately have "core t (fst (issue_all t rs ?d)) \<and> runlive t (fst (issue_all t rs ?d))"
    by (rule core_issue_all [OF d])
  then have cv: "core t v" "runlive t v" by (simp_all add: v)
  define w' where "w' = v\<lparr>wk_outcome := (if wk_live v \<noteq> [] then ORunning else OCompleted), wk_reason := None\<rparr>"
  show thesis
  proof (rule that [of w'])
    show "core t w'" "runlive t w'" using cv by (simp_all add: w'_def wk_outcome_cong)
    show "sp_state (settle t w cancelled) = freeze w'" "sp_outcome (settle t w cancelled) = wk_outcome w'"
      "wk_reason w' = None" "sp_reason (settle t w cancelled) = None"
      "sp_cancelled (settle t w cancelled) = sort cancelled"
      by (simp_all add: settle_def rs(1) v w'_def Let_def)
    show "wk_outcome w' = (if wk_live w' \<noteq> [] then ORunning else OCompleted)" by (simp add: w'_def)
    show "wk_emissions w' = wk_emissions w" "wk_traversals w' = wk_traversals w"
      using issue_all_facts [of rs ?d] by (simp_all add: v w'_def)
    show "\<forall>n \<in> node_set t. status w' n \<in> {NDone, NDead}" if "wk_outcome w' = OCompleted"
    proof -
      have none: "wk_live v = []" using that by (simp add: w'_def split: if_splits)
      have "rs = []"
      proof (rule ccontr)
        assume "rs \<noteq> []"
        then have "wk_live (fst (issue_all t rs ?d)) \<noteq> []" by (rule issue_all_live)
        with none v show False by simp
      qed
      with v have dv: "?d = v" by simp
      have nr: "status v n \<noteq> NRunning" if "n \<in> node_set t" for n
        using cv(2) that by (auto simp: runlive_def none)
      have nready: "\<not> is_ready t v n" if "n \<in> node_set t" "pending v n" for n
      proof -
        have "filter (\<lambda>n. pending v n \<and> is_ready t v n) (tp_node_ids t) = []"
          using rs(2) \<open>rs = []\<close> dv by simp
        with that show ?thesis by (simp add: filter_empty_conv)
      qed
      have ndead: "\<not> is_dead t v n" if "n \<in> node_set t" "pending v n" for n
        using deaden_fixpoint [of n t w] that dv by simp
      have "status v n \<in> {NDone, NDead}" if "n \<in> node_set t" for n
        by (rule no_pending_left [OF cv(1) nr nready ndead that])
      then show ?thesis by (simp add: w'_def)
    qed
  qed
qed

end

end
