(* ===== verification/Router_Steps.thy ===== *)
theory Router_Steps
  imports Router_Invariants
begin

text \<open>
  The steps of the reducer under the contract of a validated topology: applying an emission by
  forward delivery, by a terminal port or by traversing a back edge keeps the invariant, and
  freezing and thawing the scratch state does not lose it.
\<close>

section \<open>Freezing and thawing\<close>

lemma mem_split: "(\<forall>(a, b) \<in> set xs. P a b) \<longleftrightarrow> (\<forall>a b. (a, b) \<in> set xs \<longrightarrow> P a b)"
  by auto

text \<open>The invariant reads the collections as sets and multisets only.\<close>

lemma core_equiv:
  assumes core: "core t w"
    and same: "wk_nodes w' = wk_nodes w" "wk_slots w' = wk_slots w" "wk_traversals w' = wk_traversals w"
    and coll: "mset (wk_live w') = mset (wk_live w)" "set (wk_retired w') = set (wk_retired w)"
      "mset (wk_emissions w') = mset (wk_emissions w)"
  shows "core t w'"
proof -
  have live: "set (wk_live w') = set (wk_live w)" using coll(1) by (rule mset_eq_setD)
  have em: "set (wk_emissions w') = set (wk_emissions w)" using coll(3) by (rule mset_eq_setD)
  have keys: "distinct (dict_keys (wk_live w')) = distinct (dict_keys (wk_live w))"
    by (rule mset_eq_imp_distinct_iff) (simp add: coll(1))
  have ems: "distinct (map em_activation_id (wk_emissions w')) = distinct (map em_activation_id (wk_emissions w))"
    by (rule mset_eq_imp_distinct_iff) (simp add: coll(3))
  show ?thesis
    using core by (simp add: core_def inv_defs trav_def total_trav_def issued_ids_def same live em keys ems coll(2))
qed

lemma runlive_equiv:
  assumes "runlive t w" "wk_nodes w' = wk_nodes w" "mset (wk_live w') = mset (wk_live w)"
  shows "runlive t w'"
  using assms mset_eq_setD [OF assms(3)] by (simp add: runlive_def)

lemma work_of_sel [simp]:
  "wk_nodes (work_of s) = rs_nodes s" "wk_slots (work_of s) = rs_slots s"
  "wk_traversals (work_of s) = rs_traversals s" "wk_retired (work_of s) = rs_retired s"
  "wk_emissions (work_of s) = rs_emissions s" "wk_dropped (work_of s) = rs_dropped s"
  "wk_outcome (work_of s) = rs_outcome s" "wk_reason (work_of s) = rs_reason s"
  by (simp_all add: work_of_def)

lemma freeze_sel [simp]:
  "rs_nodes (freeze w) = wk_nodes w" "rs_slots (freeze w) = wk_slots w"
  "rs_traversals (freeze w) = wk_traversals w" "set (rs_retired (freeze w)) = set (wk_retired w)"
  "mset (rs_emissions (freeze w)) = mset (wk_emissions w)" "rs_outcome (freeze w) = wk_outcome w"
  "rs_reason (freeze w) = wk_reason w"
  by (simp_all add: freeze_def)

lemma live_ok_map_snd:
  assumes "live_ok t w"
  shows "map (\<lambda>a. (la_activation_id a, a)) (map snd (wk_live w)) = wk_live w"
  unfolding map_map by (rule map_idI) (use assms in \<open>auto simp: live_ok_def\<close>)

lemma mset_thaw_live:
  assumes "live_ok t w"
  shows "mset (wk_live (work_of (freeze w))) = mset (wk_live w)"
proof -
  let ?as = "sort_key la_activation_id (map snd (wk_live w))"
  let ?f = "\<lambda>a. (la_activation_id a, a)"
  have m: "mset (map ?f ?as) = mset (wk_live w)"
    using arg_cong [OF live_ok_map_snd [OF assms], of mset] by (simp only: mset_map mset_sort)
  have "mset (dict_keys (map ?f ?as)) = mset (dict_keys (wk_live w))"
    using arg_cong [OF m, of "image_mset fst"] by (simp only: mset_map)
  then have "distinct (dict_keys (map ?f ?as))"
    using assms by (subst mset_eq_imp_distinct_iff) (auto simp: live_ok_def)
  then have "dict_of (map ?f ?as) = map ?f ?as" by (rule dict_of_distinct)
  then show ?thesis using m by (simp add: work_of_def freeze_def del: mset_map)
qed

lemma core_thaw:
  assumes "core t w"
  shows "core t (work_of (freeze w))"
  by (rule core_equiv [OF assms]) (simp_all add: mset_thaw_live [OF coreD(2) [OF assms]])

lemma runlive_thaw:
  assumes "core t w" "runlive t w"
  shows "runlive t (work_of (freeze w))"
  by (rule runlive_equiv [OF assms(2)]) (simp_all add: mset_thaw_live [OF coreD(2) [OF assms(1)]])

lemma thaw_live_Nil:
  assumes "core t w"
  shows "wk_live (work_of (freeze w)) = [] \<longleftrightarrow> wk_live w = []"
  using mset_thaw_live [OF coreD(2) [OF assms]] by (metis mset_zero_iff)

section \<open>Live activations\<close>

lemma live_fact:
  assumes "core t w" "dict_get (wk_live w) aid = Some la"
  shows "la_node_id la \<in> node_set t" "status w (la_node_id la) = NRunning"
    "aid = gate_key (la_node_id la) (int (rounds w (la_node_id la)))" "aid \<in> live_ids w"
  using coreD(2) [OF assms(1)] map_of_SomeD [OF assms(2)] by (force simp: live_ok_def)+

lemma live_other:
  assumes "core t w" "dict_get (wk_live w) aid = Some la"
    and "(a, l) \<in> set (AList.delete aid (wk_live w))"
  shows "(a, l) \<in> set (wk_live w)" "a \<noteq> aid" "la_node_id l \<noteq> la_node_id la"
proof -
  show mem: "(a, l) \<in> set (wk_live w)" and ne: "a \<noteq> aid"
    using assms(3) by (auto simp: AList.delete_eq)
  have "a = gate_key (la_node_id l) (int (rounds w (la_node_id l)))"
    using coreD(2) [OF assms(1)] mem by (force simp: live_ok_def)
  then show "la_node_id l \<noteq> la_node_id la"
    using ne live_fact(3) [OF assms(1,2)] by metis
qed

section \<open>Forward delivery\<close>

lemma mark_done_sel [simp]:
  "wk_slots (mark_done w n aid port ref) = wk_slots w"
  "wk_traversals (mark_done w n aid port ref) = wk_traversals w"
  "wk_live (mark_done w n aid port ref) = AList.delete aid (wk_live w)"
  "wk_retired (mark_done w n aid port ref) = wk_retired w"
  "wk_emissions (mark_done w n aid port ref) =
     wk_emissions w @ [\<lparr>em_activation_id = aid, em_port = port, em_payload_ref = ref\<rparr>]"
  "wk_outcome (mark_done w n aid port ref) = wk_outcome w"
  "node_at (mark_done w n aid port ref) m =
     (if m = n then mk_node_state (rounds w n) NDone (Some port) else node_at w m)"
  by (simp_all add: mark_done_def set_node_def)

lemma dom_mark_done: "n \<in> dom (wk_nodes w) \<Longrightarrow> dom (wk_nodes (mark_done w n aid port ref)) = dom (wk_nodes w)"
  by (auto simp: mark_done_def set_node_def)

lemma trav_mark_done [simp]:
  "trav (mark_done w n aid port ref) = trav w" "total_trav t (mark_done w n aid port ref) = total_trav t w"
  by (simp_all add: trav_def total_trav_def fun_eq_iff)

lemma deliver_all:
  "distinct es \<Longrightarrow> \<forall>e \<in> set es. wk_slots w e = None \<Longrightarrow>
     deliver es tok w = Inr (w\<lparr>wk_slots := \<lambda>e. if e \<in> set es then Some tok else wk_slots w e\<rparr>)"
proof (induction es arbitrary: w)
  case (Cons e es)
  let ?w = "w\<lparr>wk_slots := (wk_slots w)(e \<mapsto> tok)\<rparr>"
  have eq: "(\<lambda>x. if x \<in> set es then Some tok else wk_slots ?w x)
      = (\<lambda>x. if x \<in> set (e # es) then Some tok else wk_slots w x)" by (auto simp: fun_eq_iff)
  have "\<forall>x \<in> set es. wk_slots ?w x = None" using Cons.prems by auto
  with Cons.IH [of ?w] Cons.prems
  have "deliver es tok ?w = Inr (?w\<lparr>wk_slots := \<lambda>x. if x \<in> set es then Some tok else wk_slots ?w x\<rparr>)"
    by (simp del: work.simps)
  then show ?case using Cons.prems unfolding eq by simp
qed simp

lemma live_ids_delete: "set (dict_keys (AList.delete aid d)) = set (dict_keys d) - {aid}"
  by (induction d) auto

lemma set_delete: "set (AList.delete aid d) = {(a, l) \<in> set d. a \<noteq> aid}"
  by (auto simp: AList.delete_eq)

text \<open>
  The state after an emission was recorded and its forward edges filled. With no edge on the
  port this is the recorded emission alone.
\<close>

definition delivered :: "work \<Rightarrow> string \<Rightarrow> string \<Rightarrow> string \<Rightarrow> string \<Rightarrow> string list \<Rightarrow> work" where
  "delivered w n aid port ref es =
     (mark_done w n aid port ref)\<lparr>wk_slots := \<lambda>e. if e \<in> set es
        then Some \<lparr>tk_payload_ref = ref, tk_producer = aid\<rparr> else wk_slots w e\<rparr>"

lemma delivered_Nil: "delivered w n aid port ref [] = mark_done w n aid port ref"
  by (simp add: delivered_def mark_done_def set_node_def)

lemma delivered_sel [simp]:
  "wk_traversals (delivered w n aid port ref es) = wk_traversals w"
  "wk_live (delivered w n aid port ref es) = AList.delete aid (wk_live w)"
  "wk_retired (delivered w n aid port ref es) = wk_retired w"
  "wk_emissions (delivered w n aid port ref es) =
     wk_emissions w @ [\<lparr>em_activation_id = aid, em_port = port, em_payload_ref = ref\<rparr>]"
  "wk_outcome (delivered w n aid port ref es) = wk_outcome w"
  "node_at (delivered w n aid port ref es) m =
     (if m = n then mk_node_state (rounds w n) NDone (Some port) else node_at w m)"
  "wk_slots (delivered w n aid port ref es) e =
     (if e \<in> set es then Some \<lparr>tk_payload_ref = ref, tk_producer = aid\<rparr> else wk_slots w e)"
  "wk_nodes (delivered w n aid port ref es) = wk_nodes (mark_done w n aid port ref)"
  "trav (delivered w n aid port ref es) = trav w"
  "total_trav t (delivered w n aid port ref es) = total_trav t w"
  by (simp_all add: delivered_def trav_def total_trav_def fun_eq_iff)

text \<open>Recording an emission moves its id from the live ones to the finished ones.\<close>

lemma acct_ok_emit:
  assumes "acct_ok t w" "aid \<in> live_ids w" "issued_ids t w' = issued_ids t w"
    and "live_ids w' = live_ids w - {aid}" "set (wk_retired w') = set (wk_retired w)"
    and "wk_emissions w' = wk_emissions w @ [em]" "em_activation_id em = aid"
  shows "acct_ok t w'"
proof -
  have em: "emitted_ids w' = insert aid (emitted_ids w)" using assms(6,7) by auto
  note a = assms(1) [unfolded acct_ok_def]
  have "aid \<notin> emitted_ids w" using a assms(2) by blast
  then have "distinct (map em_activation_id (wk_emissions w'))" using a by (simp add: assms(6,7))
  with a assms(2) show ?thesis
    unfolding acct_ok_def em assms(3,4,5) by (simp add: insert_absorb del: set_map) blast
qed

context topology_laws
begin

lemma core_delivered:
  assumes core: "core t w" and live: "dict_get (wk_live w) aid = Some la" and n: "n = la_node_id la"
    and port: "dict_get (dict_at (tp_out_ports t) n) port = Some es"
    and fwd: "set es \<subseteq> fwd_edges t"
  shows "core t (delivered w n aid port ref es)"
proof -
  note c = coreD [OF core]
  note lf = live_fact [OF core live, folded n]
  note other = live_other [OF core live, folded n]
  let ?w = "delivered w n aid port ref es"
  have es: "set es = {e \<in> edge_set t. e_src t e = n \<and> e_sport t e = port}"
    using out_ports [OF lf(1) port] by simp
  show ?thesis
  proof (rule coreI)
    show "nodes_ok t ?w" using c(1) lf(1) by (simp add: nodes_ok_def dom_mark_done)
    show "live_ok t ?w"
      unfolding live_ok_def mem_split delivered_sel(2)
    proof (intro conjI allI impI)
      show "distinct (dict_keys (AList.delete aid (wk_live w)))"
        using c(2) by (simp add: live_ok_def distinct_delete)
    next
      fix a l assume "(a, l) \<in> set (AList.delete aid (wk_live w))"
      note o = other [OF this]
      from c(2) o(1) have "la_activation_id l = a" "la_node_id l \<in> node_set t"
        "status w (la_node_id l) = NRunning" "a = gate_key (la_node_id l) (int (rounds w (la_node_id l)))"
        by (auto simp: live_ok_def)
      with o(3) show "la_activation_id l = a" "la_node_id l \<in> node_set t"
        "status ?w (la_node_id l) = NRunning" "a = gate_key (la_node_id l) (int (rounds ?w (la_node_id l)))"
        by simp_all
    qed
    show "snap_ok t ?w" using c(3) other(1) by (simp add: snap_ok_def mem_split) blast
    show "acct_ok t ?w"
    proof (rule acct_ok_emit [OF c(4) lf(4), where em = "\<lparr>em_activation_id = aid, em_port = port, em_payload_ref = ref\<rparr>"])
      show "issued_ids t ?w = issued_ids t w" by (rule issued_ids_cong) simp
      show "live_ids ?w = live_ids w - {aid}" unfolding delivered_sel by (rule live_ids_delete)
    qed simp_all
    show "slots_ok t ?w"
      using c(5) lf(3) by (auto simp: slots_ok_def es)
    show "fwd_ok t ?w"
    proof (unfold fwd_ok_def, rule ballI)
      fix f assume f: "f \<in> fwd_edges t"
      then have "f \<in> set es \<longleftrightarrow> e_src t f = n \<and> e_sport t f = port" by (auto simp: es fwd_edges_def)
      then show "wk_slots ?w f \<noteq> None \<longleftrightarrow> status ?w (e_src t f) = NDone \<and> taken ?w (e_src t f) = Some (e_sport t f)"
        using c(6) f lf(2) by (auto simp: fwd_ok_def)
    qed
    show "back_ok t ?w"
    proof -
      have "wk_slots ?w e = wk_slots w e" if "e \<in> back_edges t" for e
        using that fwd by (auto simp: back_edges_def fwd_edges_def)
      with c(7) show ?thesis unfolding back_ok_def by simp
    qed
    show "trav_ok t ?w" using c(8) by (simp add: trav_ok_def)
    show "round_ok t ?w" using c(9) by (force simp: round_ok_def)
    show "taken_ok t ?w" using c(10) map_of_SomeD [OF port] by (force simp: taken_ok_def)
  qed
qed

lemma runlive_delivered:
  assumes "core t w" "runlive t w" "dict_get (wk_live w) aid = Some la" "n = la_node_id la"
  shows "runlive t (delivered w n aid port ref es)"
  unfolding runlive_def
proof (intro ballI impI)
  fix m assume m: "m \<in> node_set t" "status (delivered w n aid port ref es) m = NRunning"
  then have ne: "m \<noteq> n" by (auto split: if_splits)
  with m assms(2) have "gate_key m (int (rounds w m)) \<in> live_ids w" by (auto simp: runlive_def)
  moreover have "gate_key m (int (rounds w m)) \<noteq> aid"
    using live_fact(3) [OF assms(1,3)] ne assms(4) by simp
  ultimately show "gate_key m (int (rounds (delivered w n aid port ref es) m)) \<in> live_ids (delivered w n aid port ref es)"
    using ne by (simp add: live_ids_delete del: set_map)
qed

end

section \<open>Traversing a back edge\<close>

lemma set_in_region: "set (in_region region w) = {a. \<exists>l. (a, l) \<in> set (wk_live w) \<and> la_node_id l \<in> set region}"
  by (force simp: in_region_def)

definition looped :: "topology \<Rightarrow> work \<Rightarrow> string \<Rightarrow> string \<Rightarrow> string \<Rightarrow> string \<Rightarrow> string \<Rightarrow> work" where
  "looped t w n aid port ref e =
     fst (traverse_back t (mark_done w n aid port ref) e \<lparr>tk_payload_ref = ref, tk_producer = aid\<rparr>)"

lemma looped_sel [simp]:
  "wk_traversals (looped t w n aid port ref e) = (wk_traversals w)(e \<mapsto> trav w e + 1)"
  "wk_live (looped t w n aid port ref e) =
     filter (\<lambda>(_, l). la_node_id l \<notin> set (region_of t e)) (AList.delete aid (wk_live w))"
  "set (wk_retired (looped t w n aid port ref e)) = set (wk_retired w) \<union>
     {a. \<exists>l. (a, l) \<in> set (AList.delete aid (wk_live w)) \<and> la_node_id l \<in> set (region_of t e)}"
  "wk_emissions (looped t w n aid port ref e) =
     wk_emissions w @ [\<lparr>em_activation_id = aid, em_port = port, em_payload_ref = ref\<rparr>]"
  "wk_outcome (looped t w n aid port ref e) = wk_outcome w"
  "wk_slots (looped t w n aid port ref e) =
     (clear_slots (region_of t e) (wk_slots w))(e \<mapsto> \<lparr>tk_payload_ref = ref, tk_producer = aid\<rparr>)"
  "n \<in> set (region_of t e) \<Longrightarrow> node_at (looped t w n aid port ref e) m =
     (if m \<in> set (region_of t e) then mk_node_state (rounds w m) NPending None else node_at w m)"
  by (auto simp: looped_def traverse_back_def Let_def region_of_def e_tgt_def trav_def set_in_region reset_nodes_def)

lemma dom_looped:
  "n \<in> dom (wk_nodes w) \<Longrightarrow> set (region_of t e) \<subseteq> dom (wk_nodes w) \<Longrightarrow>
     dom (wk_nodes (looped t w n aid port ref e)) = dom (wk_nodes w)"
  by (auto simp: looped_def traverse_back_def Let_def region_of_def e_tgt_def
      reset_nodes_def mark_done_def set_node_def split: if_splits)

text \<open>Moving one element of a partition to the third part and some others to the second.\<close>

lemma partition_move:
  assumes "L \<union> R \<union> E = I" "L \<inter> R = {}" "L \<inter> E = {}" "R \<inter> E = {}" "a \<in> L" "X \<subseteq> L - {a}"
  shows "((L - {a}) - X) \<union> (R \<union> X) \<union> insert a E = I \<and> ((L - {a}) - X) \<inter> (R \<union> X) = {}
    \<and> ((L - {a}) - X) \<inter> insert a E = {} \<and> (R \<union> X) \<inter> insert a E = {}"
  using assms by blast

lemma rounds_looped [simp]:
  "n \<in> set (region_of t e) \<Longrightarrow> rounds (looped t w n aid port ref e) m = rounds w m"
  by simp

lemma trav_looped: "trav (looped t w n aid port ref e) x = (if x = e then trav w e + 1 else trav w x)"
  by (simp add: trav_def)

context topology_laws
begin

lemma finite_back_edges [simp]: "finite (back_edges t)"
  by (simp add: back_edges_def edge_set_def)

lemma total_trav_looped:
  assumes "e \<in> back_edges t"
  shows "total_trav t (looped t w n aid port ref e) = total_trav t w + 1"
proof -
  have "total_trav t (looped t w n aid port ref e) = trav w e + 1 + (\<Sum>x \<in> back_edges t - {e}. trav w x)"
    unfolding total_trav_def using assms by (simp add: sum.remove [of _ e] trav_looped)
  moreover have "total_trav t w = trav w e + (\<Sum>x \<in> back_edges t - {e}. trav w x)"
    unfolding total_trav_def using assms by (simp add: sum.remove [of _ e])
  ultimately show ?thesis by simp
qed

lemma cleared_slot:
  assumes "slots_ok t w" "f \<in> edge_set t"
  shows "clear_slots (region_of t e) (wk_slots w) f =
    (if e_src t f \<in> set (region_of t e) then None else wk_slots w f)"
proof (cases "wk_slots w f")
  case (Some tok)
  with assms(1) have "node_of (tk_producer tok) = e_src t f" by (auto simp: slots_ok_def)
  with Some show ?thesis by (simp add: clear_slots_def)
qed (simp add: clear_slots_def)

lemma live_looped:
  assumes core: "core t w" and live: "dict_get (wk_live w) aid = Some la" and n: "n = la_node_id la"
    and l: "(a, l) \<in> set (wk_live (looped t w n aid port ref e))"
  shows "(a, l) \<in> set (wk_live w)" "la_node_id l \<noteq> n" "la_node_id l \<notin> set (region_of t e)"
proof -
  from l have d: "(a, l) \<in> set (AList.delete aid (wk_live w))" "la_node_id l \<notin> set (region_of t e)" by auto
  then show "(a, l) \<in> set (wk_live w)" "la_node_id l \<noteq> n" "la_node_id l \<notin> set (region_of t e)"
    using live_other [OF core live d(1)] n by simp_all
qed

lemma acct_ok_looped:
  assumes core: "core t w" and live: "dict_get (wk_live w) aid = Some la"
    and n: "n \<in> set (region_of t e)"
  shows "acct_ok t (looped t w n aid port ref e)"
proof -
  let ?w = "looped t w n aid port ref e" and ?D = "AList.delete aid (wk_live w)"
  let ?in = "{a. \<exists>l. (a, l) \<in> set ?D \<and> la_node_id l \<in> set (region_of t e)}"
  have ids: "issued_ids t ?w = issued_ids t w" by (rule issued_ids_cong) (simp add: n)
  have em: "emitted_ids ?w = insert aid (emitted_ids w)" by simp
  have ret: "set (wk_retired ?w) = set (wk_retired w) \<union> ?in" by simp
  have dist: "distinct (dict_keys ?D)" using coreD(2) [OF core] by (simp add: live_ok_def distinct_delete)
  have lv: "live_ids ?w = (live_ids w - {aid}) - ?in"
  proof -
    have "live_ids ?w = live_ids (w\<lparr>wk_live := ?D\<rparr>) - ?in"
      using eq_key_imp_eq_value [OF dist] by (auto simp: rev_image_eqI) (metis)
    then show ?thesis by (simp add: live_ids_delete del: set_map)
  qed
  have sub: "?in \<subseteq> live_ids w - {aid}" by (auto simp: set_delete rev_image_eqI)
  have a: "live_ids w \<union> set (wk_retired w) \<union> emitted_ids w = issued_ids t w"
    "live_ids w \<inter> set (wk_retired w) = {}" "live_ids w \<inter> emitted_ids w = {}"
    "set (wk_retired w) \<inter> emitted_ids w = {}" "distinct (map em_activation_id (wk_emissions w))"
    using coreD(4) [OF core, unfolded acct_ok_def] by blast+
  have aid: "aid \<in> live_ids w" by (rule live_fact(4) [OF core live])
  have "aid \<notin> emitted_ids w" using a aid by blast
  then have "distinct (map em_activation_id (wk_emissions ?w))" using a by simp
  then show ?thesis
    unfolding acct_ok_def em ids lv ret using partition_move [OF a(1-4) aid sub]
    by (elim conjE, intro conjI) assumption+
qed

lemma back_ok_looped:
  assumes "slots_ok t w" "back_ok t w" "e \<in> back_edges t"
  shows "back_ok t (looped t w n aid port ref e)"
proof -
  let ?w = "looped t w n aid port ref e"
  have mem: "f \<in> edge_set t" if "f \<in> back_edges t" for f using that by (simp add: back_edges_def)
  have old: "wk_slots w f \<noteq> None \<and> e_src t f \<notin> set (region_of t e)"
    if "f \<in> back_edges t" "wk_slots ?w f \<noteq> None" "f \<noteq> e" for f
    using that cleared_slot [OF assms(1) mem [OF that(1)], of e] by (auto split: if_splits)
  have far: "e_tgt t f \<noteq> e_tgt t e" if "f \<in> back_edges t" "wk_slots ?w f \<noteq> None" "f \<noteq> e" for f
    using old [OF that] region [OF that(1)] by (auto simp: region_of_def)
  show ?thesis
    unfolding back_ok_def
  proof (intro ballI impI)
    fix f g assume f: "f \<in> back_edges t" "wk_slots ?w f \<noteq> None" and g: "g \<in> back_edges t" "wk_slots ?w g \<noteq> None"
      and tgt: "e_tgt t f = e_tgt t g"
    show "f = g"
    proof (cases "f = e \<or> g = e")
      case True
      with far [OF f] far [OF g] tgt show ?thesis by metis
    next
      case False
      with old [OF f] old [OF g] f(1) g(1) tgt assms(2) show ?thesis by (auto simp: back_ok_def)
    qed
  qed
qed

lemma core_looped:
  assumes core: "core t w" and live: "dict_get (wk_live w) aid = Some la" and n: "n = la_node_id la"
    and e: "e \<in> back_edges t" "e_src t e = n" "e_sport t e = port"
    and bound: "dict_get (tp_bounds t) e = Some b" "trav w e < b"
  shows "core t (looped t w n aid port ref e)"
proof -
  note c = coreD [OF core]
  note lf = live_fact [OF core live, folded n]
  note ll = live_looped [OF core live n]
  let ?w = "looped t w n aid port ref e" and ?R = "set (region_of t e)"
  have R: "n \<in> ?R" "e_tgt t e \<in> ?R" "?R \<subseteq> node_set t" using region [OF e(1)] e(2) by auto
  note node = looped_sel(7) [OF R(1)]
  have slot: "wk_slots ?w f = (if f = e then Some \<lparr>tk_payload_ref = ref, tk_producer = aid\<rparr>
      else if e_src t f \<in> ?R then None else wk_slots w f)" if "f \<in> edge_set t" for f
    using cleared_slot [OF c(5) that] by simp
  have edges: "back_edges t \<subseteq> edge_set t" "fwd_edges t \<subseteq> edge_set t" "e \<notin> fwd_edges t"
    using e(1) by (auto simp: back_edges_def fwd_edges_def)
  show ?thesis
  proof (rule coreI)
    show "nodes_ok t ?w" using c(1) lf(1) R(3) dom_looped [of n w t e] by (simp add: nodes_ok_def)
    show "live_ok t ?w"
    proof -
      have "distinct (dict_keys (wk_live ?w))"
        using c(2) by (simp add: live_ok_def distinct_delete distinct_map_filter)
      moreover have "la_activation_id l = a \<and> la_node_id l \<in> node_set t \<and> status ?w (la_node_id l) = NRunning
          \<and> a = gate_key (la_node_id l) (int (rounds ?w (la_node_id l)))"
        if "(a, l) \<in> set (wk_live ?w)" for a l
        using c(2) ll [OF that] node by (auto simp: live_ok_def)
      ultimately show ?thesis unfolding live_ok_def mem_split by blast
    qed
    show "snap_ok t ?w"
      unfolding snap_ok_def mem_split
    proof (intro allI impI)
      fix a l f k assume al: "(a, l) \<in> set (wk_live ?w)" and f: "dict_get (tp_bounds t) f = Some k"
        "e_src t f = la_node_id l" "dict_get (la_unavailable_ports l) (e_sport t f) = None"
      from ll [OF al] f(2) e(2) have "f \<noteq> e" by auto
      moreover have "trav w f < k" using c(3) ll(1) [OF al] f by (auto simp: snap_ok_def)
      ultimately show "trav ?w f < k" by (simp add: trav_looped)
    qed
    show "acct_ok t ?w" by (rule acct_ok_looped [OF core live R(1)])
    show "slots_ok t ?w"
      unfolding slots_ok_def
    proof (intro allI impI)
      fix f tok assume s: "wk_slots ?w f = Some tok"
      show "f \<in> edge_set t \<and> node_of (tk_producer tok) = e_src t f"
      proof (cases "f = e")
        case True
        with s edges(1) e(1,2) lf(3) show ?thesis by auto
      next
        case False
        with s have "wk_slots w f = Some tok" by (auto simp: clear_slots_def split: option.splits if_splits)
        with c(5) show ?thesis by (auto simp: slots_ok_def)
      qed
    qed
    show "fwd_ok t ?w"
      unfolding fwd_ok_def
    proof
      fix f assume f: "f \<in> fwd_edges t"
      with edges have "f \<in> edge_set t" "f \<noteq> e" by auto
      with c(6) f show "wk_slots ?w f \<noteq> None \<longleftrightarrow> status ?w (e_src t f) = NDone \<and> taken ?w (e_src t f) = Some (e_sport t f)"
        unfolding slot [OF \<open>f \<in> edge_set t\<close>] node by (simp add: fwd_ok_def)
    qed
    show "back_ok t ?w" by (rule back_ok_looped [OF c(5) c(7) e(1)])
    show "trav_ok t ?w" using c(8) bound by (auto simp: trav_ok_def trav_looped)
    show "round_ok t ?w"
      using c(9) unfolding round_ok_def total_trav_looped [OF e(1)] node by fastforce
    show "taken_ok t ?w" using c(10) unfolding taken_ok_def node by simp
  qed
qed

end

end
