(* ===== verification/Router_Reach.thy ===== *)
theory Router_Reach
  imports Router_Steps
begin

text \<open>
  The reachable states of the reducer. \<open>good\<close> is the invariant of a frozen router state: the
  invariant of its scratch copy together with what each outcome promises. \<open>start\<close> establishes it
  and every \<open>advance\<close> that does not raise keeps it, so it holds of every reachable state.
\<close>

section \<open>The invariant of a frozen state\<close>

definition settled_all :: "topology \<Rightarrow> router_state \<Rightarrow> bool" where
  "settled_all t s \<longleftrightarrow> (\<forall>n \<in> node_set t. ns_status (the (rs_nodes s n)) \<in> {NDone, NDead})"

definition good :: "topology \<Rightarrow> router_state \<Rightarrow> bool" where
  "good t s \<longleftrightarrow> core t (work_of s) \<and> distinct (map la_activation_id (rs_live s)) \<and>
     (case rs_outcome s of
        ORunning \<Rightarrow> runlive t (work_of s) \<and> rs_live s \<noteq> []
      | OCompleted \<Rightarrow> rs_live s = [] \<and> settled_all t s
      | _ \<Rightarrow> rs_live s = [])"

lemma goodD:
  assumes "good t s"
  shows "core t (work_of s)" "rs_outcome s = ORunning \<Longrightarrow> runlive t (work_of s) \<and> rs_live s \<noteq> []"
    "rs_outcome s = OCompleted \<Longrightarrow> settled_all t s" "rs_outcome s \<noteq> ORunning \<Longrightarrow> rs_live s = []"
    "distinct (map la_activation_id (rs_live s))"
  using assms by (simp_all add: good_def split: outcome.splits)

lemma rs_live_freeze: "rs_live (freeze w) = [] \<longleftrightarrow> wk_live w = []"
proof -
  have "length (rs_live (freeze w)) = length (wk_live w)" by (simp add: freeze_def)
  then show ?thesis by (metis length_0_conv)
qed

lemma distinct_live_freeze:
  assumes "live_ok t w"
  shows "distinct (map la_activation_id (rs_live (freeze w)))"
proof -
  have "map la_activation_id (map snd (wk_live w)) = dict_keys (wk_live w)"
    using arg_cong [OF live_ok_map_snd [OF assms], of "map fst"] by (simp add: comp_def)
  then have "mset (map la_activation_id (rs_live (freeze w))) = mset (dict_keys (wk_live w))"
    unfolding freeze_def router_state.simps mset_map [of la_activation_id] mset_sort by (simp only: flip: mset_map)
  then show ?thesis using assms by (subst mset_eq_imp_distinct_iff) (auto simp: live_ok_def)
qed

lemma good_freeze:
  assumes "core t w" "wk_outcome w = ORunning \<Longrightarrow> runlive t w \<and> wk_live w \<noteq> []"
    and "wk_outcome w = OCompleted \<Longrightarrow> (\<forall>n \<in> node_set t. status w n \<in> {NDone, NDead})"
    and "wk_outcome w \<noteq> ORunning \<Longrightarrow> wk_live w = []"
  shows "good t (freeze w)"
  using assms core_thaw [OF assms(1)] runlive_thaw [OF assms(1)] distinct_live_freeze [OF coreD(2) [OF assms(1)]]
  by (cases "wk_outcome w") (simp_all add: good_def rs_live_freeze settled_all_def)

lemma work_of_live_Nil: "wk_live (work_of s) = [] \<longleftrightarrow> rs_live s = []"
proof -
  have "set (dict_keys (dict_of xs)) = set (dict_keys xs)" for xs :: "(string \<times> live_activation) list"
  proof -
    have "set (dict_keys (foldl (\<lambda>d (k, v). AList.update k v d) acc xs)) = set (dict_keys acc) \<union> set (dict_keys xs)" for acc
    proof (induction xs arbitrary: acc)
      case (Cons x xs)
      show ?case by (cases x) (simp add: Cons.IH keys_update del: set_map)
    qed simp
    from this [of "[]"] show ?thesis by (simp add: dict_of_def)
  qed
  from this [of "map (\<lambda>a. (la_activation_id a, a)) (rs_live s)"] show ?thesis
    unfolding work_of_def by auto
qed

lemma thawed_live:
  assumes "good t s"
  shows "wk_live (work_of s) = map (\<lambda>a. (la_activation_id a, a)) (rs_live s)"
  using goodD(5) [OF assms] by (simp add: work_of_def dict_of_distinct comp_def)

lemma live_lookup:
  assumes "good t s"
  shows "dict_get (wk_live (work_of s)) aid = Some la \<longleftrightarrow> la \<in> set (rs_live s) \<and> la_activation_id la = aid"
  using goodD(5) [OF assms] by (auto simp: thawed_live [OF assms] map_of_eq_Some_iff comp_def)

section \<open>Terminating\<close>

lemma terminate_sel [simp]:
  "sp_outcome (terminate w oc r em c) = oc" "sp_reason (terminate w oc r em c) = Some r"
  "rs_outcome (sp_state (terminate w oc r em c)) = oc"
  "mset (rs_emissions (sp_state (terminate w oc r em c))) = mset (wk_emissions w)"
  "rs_traversals (sp_state (terminate w oc r em c)) = wk_traversals w"
  "sp_activations (terminate w oc r em c) = []"
  by (simp_all add: terminate_def Let_def)

lemma core_terminate:
  assumes "core t w"
  shows "core t (w\<lparr>wk_retired := wk_retired w @ dict_keys (wk_live w), wk_live := [], wk_outcome := oc, wk_reason := r\<rparr>)"
proof -
  note c = coreD [OF assms]
  let ?w = "w\<lparr>wk_retired := wk_retired w @ dict_keys (wk_live w), wk_live := [], wk_outcome := oc, wk_reason := r\<rparr>"
  have tr: "trav ?w = trav w" "total_trav t ?w = total_trav t w" "issued_ids t ?w = issued_ids t w"
    by (simp_all add: trav_def total_trav_def issued_ids_def fun_eq_iff)
  have "acct_ok t ?w"
    using c(4) unfolding acct_ok_def tr by (simp add: Un_commute Un_left_commute Int_Un_distrib2)
  with c show ?thesis by (intro coreI) (simp_all add: inv_defs tr)
qed

lemma good_terminate:
  assumes "core t w" "is_terminal oc"
  shows "good t (sp_state (terminate w oc r em c))"
  unfolding terminate_def Let_def step.simps
  by (rule good_freeze) (use core_terminate [OF assms(1)] assms(2) in \<open>auto simp: is_terminal_def\<close>)

section \<open>Settling\<close>

context topology_laws
begin

lemma settle_step:
  assumes "core t w" "runlive t w"
  shows "good t (sp_state (settle t w c))" "sp_outcome (settle t w c) \<in> {ORunning, OCompleted}"
    "rs_outcome (sp_state (settle t w c)) = sp_outcome (settle t w c)"
    "mset (rs_emissions (sp_state (settle t w c))) = mset (wk_emissions w)"
    "rs_traversals (sp_state (settle t w c)) = wk_traversals w"
    "sp_reason (settle t w c) = None" "sp_cancelled (settle t w c) = sort c"
proof -
  obtain w' where s: "sp_state (settle t w c) = freeze w'" "core t w'" "runlive t w'"
    "sp_outcome (settle t w c) = wk_outcome w'" "wk_reason w' = None" "sp_reason (settle t w c) = None"
    "wk_outcome w' = (if wk_live w' \<noteq> [] then ORunning else OCompleted)"
    "wk_outcome w' = OCompleted \<Longrightarrow> (\<forall>n \<in> node_set t. status w' n \<in> {NDone, NDead})"
    "wk_emissions w' = wk_emissions w" "wk_traversals w' = wk_traversals w"
    "sp_cancelled (settle t w c) = sort c"
    using settle_good [OF assms] by metis
  show "good t (sp_state (settle t w c))"
    unfolding s(1) by (rule good_freeze) (use s in \<open>auto split: if_splits\<close>)
  show "sp_outcome (settle t w c) \<in> {ORunning, OCompleted}" using s(4,7) by simp
  show "rs_outcome (sp_state (settle t w c)) = sp_outcome (settle t w c)" by (simp add: s(1,4))
  show "mset (rs_emissions (sp_state (settle t w c))) = mset (wk_emissions w)" by (simp add: s(1,9))
  show "rs_traversals (sp_state (settle t w c)) = wk_traversals w" by (simp add: s(1,10))
  show "sp_reason (settle t w c) = None" "sp_cancelled (settle t w c) = sort c" by (fact s)+
qed

lemma runlive_looped:
  assumes "core t w" "runlive t w" "dict_get (wk_live w) aid = Some la" "n = la_node_id la"
    and n: "n \<in> set (region_of t e)"
  shows "runlive t (looped t w n aid port ref e)"
  unfolding runlive_def
proof (intro ballI impI)
  fix m assume m: "m \<in> node_set t" "status (looped t w n aid port ref e) m = NRunning"
  then have out: "m \<notin> set (region_of t e)" "status w m = NRunning" by (auto simp: n split: if_splits)
  with m assms(2) have "gate_key m (int (rounds w m)) \<in> live_ids w" by (auto simp: runlive_def)
  then obtain l where l: "(gate_key m (int (rounds w m)), l) \<in> set (wk_live w)" by auto
  have "la_node_id l = m" using coreD(2) [OF assms(1)] l by (auto simp: live_ok_def)
  moreover have "gate_key m (int (rounds w m)) \<noteq> aid"
    using live_fact(3) [OF assms(1,3)] out(1) n assms(4) by auto
  ultimately have "(gate_key m (int (rounds w m)), l) \<in> set (wk_live (looped t w n aid port ref e))"
    using l out(1) by (simp add: set_delete)
  then show "gate_key m (int (rounds (looped t w n aid port ref e) m)) \<in> live_ids (looped t w n aid port ref e)"
    unfolding rounds_looped [OF n] by (metis fst_conv image_eqI set_map)
qed

section \<open>Applying an emission\<close>

lemma port_edges_kind:
  assumes "n \<in> node_set t" "dict_get (dict_at (tp_out_ports t) n) port = Some (e # es)"
  shows "e \<in> back_edges t \<Longrightarrow> es = []" "e \<notin> back_edges t \<Longrightarrow> set (e # es) \<subseteq> fwd_edges t"
    "e \<in> edge_set t" "e_src t e = n" "e_sport t e = port"
proof -
  have p: "distinct (e # es)" "set (e # es) = {e \<in> edge_set t. e_src t e = n \<and> e_sport t e = port}"
    using out_ports [OF assms] by auto
  then show e: "e \<in> edge_set t" "e_src t e = n" "e_sport t e = port" by auto
  have same: "f \<in> edge_set t \<and> e_src t f = n \<and> e_sport t f = port" if "f \<in> set (e # es)" for f
    using that unfolding p(2) by simp
  show "es = []" if "e \<in> back_edges t"
  proof (cases es)
    case (Cons f fs)
    then have "f = e" using back_exclusive [OF that, of f] same [of f] e by auto
    with p(1) Cons show ?thesis by simp
  qed
  show "set (e # es) \<subseteq> fwd_edges t" if "e \<notin> back_edges t"
  proof
    fix f assume f: "f \<in> set (e # es)"
    have "f \<notin> back_edges t"
    proof
      assume "f \<in> back_edges t"
      from back_exclusive [OF this, of e] same [OF f] e have "e = f" by auto
      with that \<open>f \<in> back_edges t\<close> show False by simp
    qed
    with same [OF f] show "f \<in> fwd_edges t" by (auto simp: back_edges_def fwd_edges_def)
  qed
qed

lemma deliver_running:
  assumes core: "core t w" and run: "status w n = NRunning" and es: "distinct es"
    and fwd: "set es \<subseteq> fwd_edges t" and src: "\<forall>e \<in> set es. e_src t e = n"
  shows "deliver es \<lparr>tk_payload_ref = ref, tk_producer = aid\<rparr> (mark_done w n aid port ref)
    = Inr (delivered w n aid port ref es)"
proof -
  have "\<forall>e \<in> set es. wk_slots w e = None"
  proof
    fix e assume "e \<in> set es"
    then have "e \<in> fwd_edges t" "e_src t e = n" using fwd src by auto
    with bspec [OF coreD(6) [OF core, unfolded fwd_ok_def]] run show "wk_slots w e = None" by fastforce
  qed
  then show ?thesis
    using deliver_all [OF es, of "mark_done w n aid port ref"] unfolding delivered_def mark_done_sel(1) by simp
qed

text \<open>
  The three ways of applying an available emission of a live activation: an exit or terminal
  port, a back edge, forward edges.
\<close>

lemma apply_emission_good:
  assumes core: "core t w" and rl: "runlive t w" and live: "dict_get (wk_live w) aid = Some la"
    and n: "n = la_node_id la" and port: "dict_get (dict_at (tp_out_ports t) n) port = Some es"
    and avail: "dict_get (la_unavailable_ports la) port = None"
  shows "good t (sp_state (apply_emission t w n aid port ref)) \<and>
    sp_outcome (apply_emission t w n aid port ref) \<noteq> OEscalated \<and>
    rs_outcome (sp_state (apply_emission t w n aid port ref)) = sp_outcome (apply_emission t w n aid port ref) \<and>
    mset (rs_emissions (sp_state (apply_emission t w n aid port ref))) =
      mset (wk_emissions w) + {#\<lparr>em_activation_id = aid, em_port = port, em_payload_ref = ref\<rparr>#}"
proof (cases es)
  case Nil
  have core': "core t (mark_done w n aid port ref)" and rl': "runlive t (mark_done w n aid port ref)"
    using core_delivered [OF core live n port, of ref] runlive_delivered [OF core rl live n, of port ref "[]"] Nil
    by (simp_all add: delivered_Nil)
  show ?thesis
  proof (cases "dict_get (dict_get_or (tp_terminal_ports t) n []) port")
    case None
    then have "apply_emission t w n aid port ref = settle t (mark_done w n aid port ref) []"
      using port Nil by (simp add: apply_emission_def dict_at_def Let_def)
    then show ?thesis using settle_step [OF core' rl', of "[]"] by auto
  next
    case (Some kind)
    then have "apply_emission t w n aid port ref =
        terminate (mark_done w n aid port ref) (terminal_outcome kind) (n @ ''.'' @ port) None []"
      using port Nil by (simp add: apply_emission_def dict_at_def Let_def)
    then show ?thesis
      using good_terminate [OF core', of "terminal_outcome kind"] by (cases kind) (simp_all add: is_terminal_def)
  qed
next
  case (Cons e es')
  note lf = live_fact [OF core live, folded n]
  note k = port_edges_kind [OF lf(1) port [unfolded Cons]]
  show ?thesis
  proof (cases "e \<in> back_edges t")
    case True
    then obtain b where b: "dict_get (tp_bounds t) e = Some b" by (auto simp: back_edges_def)
    have "trav w e < b"
      using coreD(3) [OF core] map_of_SomeD [OF live] b avail k(4,5) n by (auto simp: snap_ok_def)
    then have core': "core t (looped t w n aid port ref e)"
      by (rule core_looped [OF core live n True k(4,5) b])
    have rl': "runlive t (looped t w n aid port ref e)"
      by (rule runlive_looped [OF core rl live n]) (use region [OF True] k(4) in auto)
    have "apply_emission t w n aid port ref = settle t (looped t w n aid port ref e)
        (snd (traverse_back t (mark_done w n aid port ref) e \<lparr>tk_payload_ref = ref, tk_producer = aid\<rparr>))"
      using port Cons b by (simp add: apply_emission_def dict_at_def Let_def looped_def case_prod_beta)
    then show ?thesis
      using settle_step [OF core' rl', of "snd (traverse_back t (mark_done w n aid port ref) e
        \<lparr>tk_payload_ref = ref, tk_producer = aid\<rparr>)"] by auto
  next
    case False
    then have nb: "dict_get (tp_bounds t) e = None" using k(3) by (auto simp: back_edges_def)
    have fwd: "set es \<subseteq> fwd_edges t" using k(2) [OF False] Cons by simp
    have "distinct es" "\<forall>e \<in> set es. e_src t e = n" using out_ports [OF lf(1) port] by auto
    from deliver_running [OF core lf(2) this(1) fwd this(2)]
    have "apply_emission t w n aid port ref = settle t (delivered w n aid port ref es) []"
      using port Cons nb by (simp add: apply_emission_def dict_at_def Let_def)
    then show ?thesis
      using settle_step [OF core_delivered [OF core live n port fwd] runlive_delivered [OF core rl live n], of ref "[]"]
      by auto
  qed
qed

section \<open>The reducer keeps the invariant\<close>

lemma core_init: "core t (work_of (init_state t)) \<and> runlive t (work_of (init_state t))"
proof -
  let ?w = "work_of (init_state t)"
  have w: "wk_live ?w = []" "wk_retired ?w = []" "wk_emissions ?w = []" "wk_slots ?w = Map.empty"
    "wk_traversals ?w = Map.empty" and nodes: "dom (wk_nodes ?w) = node_set t"
    by (auto simp: work_of_def init_state_def dict_of_def split: if_splits)
  have node: "node_at ?w n = mk_node_state 0 NPending None" if "n \<in> node_set t" for n
    using that by (simp add: work_of_def init_state_def)
  have "issued_ids t ?w = {}" using node by (auto simp: issued_ids_def simp del: work_of_sel)
  moreover have "e_src t e \<in> node_set t" if "e \<in> fwd_edges t" for e
    using that ends [of e] by (simp add: fwd_edges_def)
  ultimately show ?thesis
    using nodes node by (simp add: core_def inv_defs runlive_def w trav_def total_trav_def del: work_of_sel)
qed

lemma good_start: "good t (sp_state (start t))"
  unfolding start_def using core_init settle_step(1) by simp

lemma good_drop:
  assumes "good t s"
  shows "good t (sp_state (drop_event (work_of s) aid port r))"
proof -
  let ?w = "(work_of s)\<lparr>wk_dropped := wk_dropped (work_of s) @ [\<lparr>dr_activation_id = aid, dr_port = port, dr_reason = r\<rparr>]\<rparr>"
  note g = goodD [OF assms]
  have "core t ?w" by (rule core_equiv [OF g(1)]) simp_all
  moreover have "runlive t ?w" if "runlive t (work_of s)" by (rule runlive_equiv [OF that]) simp_all
  ultimately have "good t (freeze ?w)"
    by (intro good_freeze) (use g work_of_live_Nil [of s] in \<open>auto simp: settled_all_def\<close>)
  then show ?thesis by (simp add: drop_event_def Let_def)
qed

lemma issued_node_issued:
  assumes "core t (work_of s)" "aid \<in> issued_ids t (work_of s)"
  obtains n k where "aid = gate_key n (int k)" "n \<in> node_set t" "issued_node (work_of s) aid = Inr n"
proof -
  obtain n k where k: "aid = gate_key n (int k)" "n \<in> node_set t" "1 \<le> k" "k \<le> rounds (work_of s) n"
    using assms(2) by (auto simp: issued_ids_def)
  have "wk_nodes (work_of s) n \<noteq> None" using coreD(1) [OF assms(1)] k(2) by (auto simp: nodes_ok_def)
  then have "issued_node (work_of s) aid = Inr n"
    using k by (simp add: issued_node_def rpartition_gate_key)
  with k show thesis using that by blast
qed

text \<open>What an event of a live activation does.\<close>

lemma advance_live:
  assumes good: "good t s" and live: "dict_get (wk_live (work_of s)) aid = Some la"
    and port: "port \<in> set (dict_keys (dict_at (tp_out_ports t) (la_node_id la)))"
  shows "rs_outcome s = ORunning" "\<exists>st. advance t s (Emitted aid port ref) = Inr st \<and>
    good t (sp_state st) \<and> rs_outcome (sp_state st) = sp_outcome st \<and>
    (case dict_get (la_unavailable_ports la) port of
       None \<Rightarrow> sp_outcome st \<noteq> OEscalated \<and> mset (rs_emissions (sp_state st)) = mset (rs_emissions s) +
           {#\<lparr>em_activation_id = aid, em_port = port, em_payload_ref = ref\<rparr>#}
     | Some why \<Rightarrow> sp_outcome st = OEscalated \<and> rs_emissions (sp_state st) = rs_emissions (freeze (work_of s)) \<and>
           sp_reason st = Some (la_node_id la @ ''.'' @ port @ '': '' @ unavailable_value why))"
proof -
  note g = goodD [OF good]
  note lf = live_fact [OF g(1) live]
  have "wk_live (work_of s) \<noteq> []" using live by auto
  then show run: "rs_outcome s = ORunning" using g(4) work_of_live_Nil [of s] by blast
  have rl: "runlive t (work_of s)" using g(2) [OF run] by simp
  have ne: "dict_get (dict_at (tp_out_ports t) (la_node_id la)) port \<noteq> None"
    using port by (simp add: map_of_eq_None_iff)
  then obtain es where es: "dict_get (dict_at (tp_out_ports t) (la_node_id la)) port = Some es" by auto
  have "aid \<in> issued_ids t (work_of s)" using coreD(4) [OF g(1)] lf(4) by (auto simp: acct_ok_def)
  from issued_node_issued [OF g(1) this] lf(3) have node: "issued_node (work_of s) aid = Inr (la_node_id la)"
    by (metis gate_key_inject)
  show "\<exists>st. advance t s (Emitted aid port ref) = Inr st \<and>
    good t (sp_state st) \<and> rs_outcome (sp_state st) = sp_outcome st \<and>
    (case dict_get (la_unavailable_ports la) port of
       None \<Rightarrow> sp_outcome st \<noteq> OEscalated \<and> mset (rs_emissions (sp_state st)) = mset (rs_emissions s) +
           {#\<lparr>em_activation_id = aid, em_port = port, em_payload_ref = ref\<rparr>#}
     | Some why \<Rightarrow> sp_outcome st = OEscalated \<and> rs_emissions (sp_state st) = rs_emissions (freeze (work_of s)) \<and>
           sp_reason st = Some (la_node_id la @ ''.'' @ port @ '': '' @ unavailable_value why))"
  proof (cases "dict_get (la_unavailable_ports la) port")
    case None
    then have "advance t s (Emitted aid port ref) = Inr (apply_emission t (work_of s) (la_node_id la) aid port ref)"
      using port by (simp add: advance_emitted_def node live Let_def)
    with apply_emission_good [OF g(1) rl live refl es None, of ref] None show ?thesis by simp
  next
    case (Some why)
    let ?st = "terminate (work_of s) OEscalated (la_node_id la @ ''.'' @ port @ '': '' @ unavailable_value why) (Some aid) []"
    have "advance t s (Emitted aid port ref) = Inr ?st"
      using port Some by (simp add: advance_emitted_def node live Let_def)
    moreover have "rs_emissions (sp_state ?st) = rs_emissions (freeze (work_of s))"
      by (simp add: terminate_def freeze_def Let_def)
    ultimately show ?thesis
      using Some good_terminate [OF g(1), of OEscalated] by (simp add: is_terminal_def)
  qed
qed

text \<open>What an event of an activation that is not live does: it is dropped, or it raises.\<close>

lemma advance_not_live:
  assumes "dict_get (wk_live (work_of s)) aid = None" "advance t s (Emitted aid port ref) = Inr st"
  obtains r where "st = drop_event (work_of s) aid port r"
  using assms
  by (auto simp: advance_emitted_def not_live_def Let_def split: sum.splits if_splits option.splits)

lemma drop_sel [simp]:
  "sp_outcome (drop_event w aid port r) = wk_outcome w" "sp_activations (drop_event w aid port r) = []"
  "sp_cancelled (drop_event w aid port r) = []" "rs_outcome (sp_state (drop_event w aid port r)) = wk_outcome w"
  "rs_nodes (sp_state (drop_event w aid port r)) = wk_nodes w"
  "rs_slots (sp_state (drop_event w aid port r)) = wk_slots w"
  "rs_traversals (sp_state (drop_event w aid port r)) = wk_traversals w"
  "mset (rs_emissions (sp_state (drop_event w aid port r))) = mset (wk_emissions w)"
  by (simp_all add: drop_event_def Let_def)

lemma live_node_issued:
  assumes "core t (work_of s)" "dict_get (wk_live (work_of s)) aid = Some la"
  shows "issued_node (work_of s) aid = Inr (la_node_id la)"
proof -
  have "aid \<in> issued_ids t (work_of s)"
    using coreD(4) [OF assms(1)] live_fact(4) [OF assms] by (auto simp: acct_ok_def)
  then show ?thesis
    using issued_node_issued [OF assms(1)] live_fact(3) [OF assms] by (metis gate_key_inject)
qed

lemma advance_good:
  assumes good: "good t s" and adv: "advance t s ev = Inr st"
  shows "good t (sp_state st) \<and> rs_outcome (sp_state st) = sp_outcome st"
proof (cases ev)
  case (Halt kind r)
  with adv have "st = terminate (work_of s) (terminal_outcome kind) r None []" by (auto split: if_splits)
  with good_terminate [OF goodD(1) [OF good], of "terminal_outcome kind"] show ?thesis
    by (cases kind) (simp_all add: is_terminal_def)
next
  case (Emitted aid port ref)
  show ?thesis
  proof (cases "dict_get (wk_live (work_of s)) aid")
    case None
    from advance_not_live [OF None adv [unfolded Emitted]] obtain r where "st = drop_event (work_of s) aid port r" .
    with good_drop [OF good] show ?thesis by simp
  next
    case (Some la)
    have "port \<in> set (dict_keys (dict_at (tp_out_ports t) (la_node_id la)))"
      using adv live_node_issued [OF goodD(1) [OF good] Some]
      by (auto simp: Emitted advance_emitted_def Let_def split: if_splits)
    from advance_live(2) [OF good Some this, of ref] adv Emitted show ?thesis by auto
  qed
qed

end

section \<open>Reachability\<close>

text \<open>The number of loop traversals the graph grants.\<close>

definition total_bound :: "topology \<Rightarrow> nat" where
  "total_bound t = (\<Sum>e \<in> back_edges t. the (dict_get (tp_bounds t) e))"

inductive reachable :: "topology \<Rightarrow> router_state \<Rightarrow> bool" for t where
  reach_start: "reachable t (sp_state (start t))"
| reach_advance: "reachable t s \<Longrightarrow> advance t s ev = Inr st \<Longrightarrow> reachable t (sp_state st)"

text \<open>A sequence of events, as the dispatcher feeds them; it stops at the first exception.\<close>

fun run_events :: "topology \<Rightarrow> event list \<Rightarrow> router_state \<Rightarrow> router_error + router_state" where
  "run_events t [] s = Inr s"
| "run_events t (ev # evs) s =
     (case advance t s ev of Inl e \<Rightarrow> Inl e | Inr st \<Rightarrow> run_events t evs (sp_state st))"

lemma reachable_run_events: "reachable t s \<Longrightarrow> run_events t evs s = Inr s' \<Longrightarrow> reachable t s'"
  by (induction evs arbitrary: s) (auto split: sum.splits intro: reach_advance)

context topology_laws
begin

lemma reachable_good: "reachable t s \<Longrightarrow> good t s"
  by (induction rule: reachable.induct) (auto intro: good_start dest: advance_good)

lemma reachable_core: "reachable t s \<Longrightarrow> core t (work_of s)"
  by (rule goodD(1) [OF reachable_good])

lemma reachable_traversals:
  assumes "reachable t s"
  shows "rs_traversals s e = Some k \<Longrightarrow> \<exists>b. dict_get (tp_bounds t) e = Some b \<and> k \<le> b"
  using coreD(8) [OF reachable_core [OF assms]] by (force simp: trav_ok_def trav_def)

section \<open>Bounds on a run\<close>

lemma total_trav_bound:
  assumes "trav_ok t w"
  shows "total_trav t w \<le> total_bound t"
  unfolding total_trav_def total_bound_def
proof (rule sum_mono)
  fix e assume "e \<in> back_edges t"
  then obtain b where "dict_get (tp_bounds t) e = Some b" by (auto simp: back_edges_def)
  with assms show "trav w e \<le> the (dict_get (tp_bounds t) e)" by (simp add: trav_ok_def)
qed

lemma rounds_bound:
  assumes "core t w" "n \<in> node_set t"
  shows "rounds w n \<le> 1 + total_bound t"
proof -
  have "rounds w n \<le> 1 + total_trav t w" using coreD(9) [OF assms(1)] assms(2) by (force simp: round_ok_def)
  with total_trav_bound [OF coreD(8) [OF assms(1)]] show ?thesis by simp
qed

lemma card_issued_ids:
  assumes "core t w"
  shows "finite (issued_ids t w)" "card (issued_ids t w) \<le> length (tp_node_ids t) * (1 + total_bound t)"
proof -
  have eq: "issued_ids t w = (\<Union>n \<in> node_set t. (\<lambda>k. gate_key n (int k)) ` {1..rounds w n})"
    by (auto simp: issued_ids_def)
  show "finite (issued_ids t w)" unfolding eq by simp
  have "card (issued_ids t w) \<le> (\<Sum>n \<in> node_set t. card ((\<lambda>k. gate_key n (int k)) ` {1..rounds w n}))"
    unfolding eq by (rule card_UN_le) simp
  also have "\<dots> \<le> (\<Sum>n \<in> node_set t. 1 + total_bound t)"
  proof (rule sum_mono)
    fix n assume "n \<in> node_set t"
    have "card ((\<lambda>k. gate_key n (int k)) ` {1..rounds w n}) \<le> card {1..rounds w n}" by (rule card_image_le) simp
    also have "\<dots> \<le> 1 + total_bound t" using rounds_bound [OF assms \<open>n \<in> node_set t\<close>] by simp
    finally show "card ((\<lambda>k. gate_key n (int k)) ` {1..rounds w n}) \<le> 1 + total_bound t" .
  qed
  also have "\<dots> \<le> length (tp_node_ids t) * (1 + total_bound t)"
    by (simp add: card_length del: mult_Suc_right)
  finally show "card (issued_ids t w) \<le> length (tp_node_ids t) * (1 + total_bound t)" .
qed

lemma emissions_bound:
  assumes "core t w"
  shows "length (wk_emissions w) \<le> length (tp_node_ids t) * (1 + total_bound t)"
proof -
  have "distinct (map em_activation_id (wk_emissions w))" using coreD(4) [OF assms] by (simp add: acct_ok_def)
  then have "length (wk_emissions w) = card (emitted_ids w)" by (metis distinct_card length_map set_map)
  also have "\<dots> \<le> card (issued_ids t w)"
    using coreD(4) [OF assms] by (intro card_mono card_issued_ids [OF assms]) (auto simp: acct_ok_def)
  also note card_issued_ids(2) [OF assms]
  finally show ?thesis .
qed

end

end
