(* ===== verification/Validate_Sound.thy ===== *)
theory Validate_Sound
  imports Graph_Validate Tarjan_Correct Router_Reach
begin

text \<open>
  The validator keeps its promise: a graph without problems yields a topology that satisfies the
  contract \<open>topology_laws\<close> of the router. The locale \<open>legal_graph\<close> is a graph that \<open>validate\<close>
  accepts; it is shown to be an instance of \<open>topology_laws\<close>.
\<close>

section \<open>Dictionaries built from pairs\<close>

lemma dict_get_dict_of_map:
  assumes "dict_get (dict_sorted (dict_of (map (\<lambda>x. (f x, h x)) xs))) k = Some v"
  obtains x where "x \<in> set xs" "f x = k" "h x = v"
proof -
  have "(k, v) \<in> set (dict_sorted (dict_of (map (\<lambda>x. (f x, h x)) xs)))" using assms by (rule map_of_SomeD)
  then have "(k, v) \<in> set (map (\<lambda>x. (f x, h x)) xs)" using dict_of_facts(3) by (metis set_dict_sorted subsetD)
  then show thesis using that by auto
qed

lemma map_of_map_pair: "v \<in> set xs \<Longrightarrow> map_of (map (\<lambda>v. (v, f v)) xs) v = Some (f v)"
  by (induction xs) auto

lemma dict_at_map_keys: "n \<in> set ns \<Longrightarrow> dict_at (map (\<lambda>n. (n, f n)) ns) n = f n"
  by (induction ns) (auto simp: dict_at_def)

lemma dict_keys_map_pair [simp]: "dict_keys (map (\<lambda>n. (n, f n)) ns) = ns"
  by (induction ns) auto

section \<open>Nodes and edges by key\<close>

lemma first_nodes_aux:
  "dict_keys (foldl (\<lambda>d n. if gn_id n \<in> set (dict_keys d) then d else d @ [(gn_id n, n)]) acc ns)
     = dict_keys acc @ filter (\<lambda>i. i \<notin> set (dict_keys acc)) (rev (remdups (rev (map gn_id ns))))"
proof (induction ns arbitrary: acc)
  case (Cons n ns)
  let ?r = "rev (remdups (rev (map gn_id ns)))"
  have rd: "rev (remdups (rev (map gn_id (n # ns)))) = gn_id n # filter (\<lambda>i. i \<noteq> gn_id n) ?r"
  proof -
    have "remdups (xs @ [x]) = filter (\<lambda>i. i \<noteq> x) (remdups xs) @ [x]" for x and xs :: "string list"
      by (induction xs) auto
    then show ?thesis by (simp add: rev_filter)
  qed
  show ?case
  proof (cases "gn_id n \<in> set (dict_keys acc)")
    case True
    then have "filter (\<lambda>i. i \<notin> set (dict_keys acc)) (filter (\<lambda>i. i \<noteq> gn_id n) ?r) = filter (\<lambda>i. i \<notin> set (dict_keys acc)) ?r"
      by (auto simp: filter_filter intro!: filter_cong)
    with True show ?thesis unfolding rd by (simp add: Cons.IH del: set_map)
  next
    case False
    then show ?thesis unfolding rd
      by (simp add: Cons.IH filter_filter conj_commute del: set_map)
  qed
qed simp

lemma first_nodes_keys: "set (dict_keys (first_nodes g)) = gn_id ` set (pg_nodes g)"
  "distinct (dict_keys (first_nodes g))"
  using first_nodes_aux [of "[]" "pg_nodes g"] by (simp_all add: first_nodes_def)

lemma edges_by_id_facts:
  "distinct (dict_keys (edges_by_id g))" "set (dict_keys (edges_by_id g)) = edge_id ` set (pg_edges g)"
  "(i, e) \<in> set (edges_by_id g) \<Longrightarrow> i = edge_id e \<and> e \<in> set (pg_edges g)"
proof -
  let ?xs = "map (\<lambda>e. (edge_id e, e)) (pg_edges g)"
  show "distinct (dict_keys (edges_by_id g))" by (simp add: edges_by_id_def dict_of_facts(1))
  have "set (dict_keys (edges_by_id g)) = set (dict_keys (dict_of ?xs))" by (simp add: edges_by_id_def)
  also have "\<dots> = set (dict_keys ?xs)" by (rule dict_of_facts(2))
  finally show "set (dict_keys (edges_by_id g)) = edge_id ` set (pg_edges g)" by (simp add: comp_def)
  show "i = edge_id e \<and> e \<in> set (pg_edges g)" if "(i, e) \<in> set (edges_by_id g)"
  proof -
    from that have "(i, e) \<in> set ?xs" using dict_of_facts(3) [of ?xs] by (auto simp: edges_by_id_def)
    then show ?thesis by auto
  qed
qed

lemma counter_filter_Nil: "filter (\<lambda>(_, n). n > 1) (counter xs) = [] \<longleftrightarrow> distinct xs"
proof -
  have "filter (\<lambda>(_, n). n > 1) (counter xs) = [] \<longleftrightarrow> (\<forall>x \<in> set xs. count_list xs x \<le> 1)"
    by (auto simp: counter_def filter_empty_conv)
  also have "\<dots> \<longleftrightarrow> (\<forall>x. count (mset xs) x = (if x \<in> set xs then 1 else 0))"
  proof -
    have "count (mset xs) x = count_list xs x" for x by (induction xs) auto
    moreover have "count_list xs x = 0 \<longleftrightarrow> x \<notin> set xs" for x by (simp add: count_list_0_iff)
    ultimately show ?thesis by (metis One_nat_def le_0_eq le_Suc_eq order.refl zero_le)
  qed
  also have "\<dots> \<longleftrightarrow> distinct xs" by (simp add: distinct_count_atmost_1)
  finally show ?thesis .
qed

lemma length_le_1D: "length xs \<le> 1 \<Longrightarrow> x \<in> set xs \<Longrightarrow> y \<in> set xs \<Longrightarrow> x = y"
  by (cases xs) auto

section \<open>A graph without problems\<close>

locale legal_graph =
  fixes check_model :: "string \<Rightarrow> string \<Rightarrow> check" and g :: pipeline_graph
    and registry :: registry and roles :: role_map
  assumes legal: "vr_problems (validate check_model g registry roles) = []"
begin

lemma no_problems: "all_problems check_model g registry roles = []"
proof -
  have "sort_key problem_sort_key (all_problems check_model g registry roles) = []"
    using legal by (simp add: validate_def Let_def split: if_splits)
  then have "length (all_problems check_model g registry roles) = 0" by (metis length_sort list.size(3))
  then show ?thesis by simp
qed

lemma groups_empty:
  "identity_problems g = []" "reference_problems g (first_nodes g) registry = []"
  "node_config_problems check_model (first_nodes g) registry roles = []"
  "wiring_problems g (first_nodes g) registry = []"
  "topology_problems g (sort (dict_keys (first_nodes g))) = []"
  using no_problems by (simp_all add: all_problems_def Let_def split: if_splits)

lemma validate_topology: "vr_topology (validate check_model g registry roles) = Some (build_topology g (first_nodes g) registry)"
  by (simp add: validate_def Let_def no_problems)

lemma distinct_ids: "distinct (map gn_id (pg_nodes g))"
  and distinct_edges: "distinct (map edge_key (pg_edges g))"
  using groups_empty(1) counter_filter_Nil [of "map gn_id (pg_nodes g)"] counter_filter_Nil [of "map edge_key (pg_edges g)"]
  by (simp_all add: identity_problems_def)

lemma no_duplicated: "duplicated_keys g = {}"
  using distinct_edges counter_filter_Nil [of "map edge_key (pg_edges g)"] by (simp add: duplicated_keys_def)

lemma node_typed:
  assumes "n \<in> set (dict_keys (first_nodes g))"
  shows "dict_get registry (gn_type (dict_at (first_nodes g) n)) \<noteq> None"
    "spec_of (first_nodes g) registry n = Some (node_spec (first_nodes g) registry n)"
    "(n, dict_at (first_nodes g) n) \<in> set (first_nodes g)"
proof -
  have "dict_get (first_nodes g) n \<noteq> None" using assms by (simp add: map_of_eq_None_iff)
  then obtain nd where nd: "dict_get (first_nodes g) n = Some nd" by auto
  then have mem: "(n, nd) \<in> set (first_nodes g)" by (rule map_of_SomeD)
  have "node_type_problem registry (n, nd) = []"
    using groups_empty(2) mem by (auto simp: reference_problems_def)
  then have "gn_type nd \<in> set (dict_keys registry)" by (simp add: node_type_problem_def split: if_splits)
  then have "dict_get registry (gn_type nd) \<noteq> None" by (simp add: map_of_eq_None_iff)
  then show "dict_get registry (gn_type (dict_at (first_nodes g) n)) \<noteq> None"
    "spec_of (first_nodes g) registry n = Some (node_spec (first_nodes g) registry n)"
    "(n, dict_at (first_nodes g) n) \<in> set (first_nodes g)"
    using nd mem by (auto simp: dict_at_def spec_of_def node_spec_def)
qed

lemma edge_ok:
  assumes "e \<in> set (pg_edges g)"
  shows "ge_source e \<in> set (dict_keys (first_nodes g))" "ge_target e \<in> set (dict_keys (first_nodes g))"
    "find_port (node_spec (first_nodes g) registry (ge_source e)) (ge_source_port e) Out \<noteq> None"
    "find_port (node_spec (first_nodes g) registry (ge_target e)) (ge_target_port e) In \<noteq> None"
proof -
  have none: "edge_reference_problems (first_nodes g) registry e = []"
    using groups_empty(2) assms by (simp add: reference_problems_def)
  then show s: "ge_source e \<in> set (dict_keys (first_nodes g))" and t: "ge_target e \<in> set (dict_keys (first_nodes g))"
    by (auto simp: edge_reference_problems_def dangling_problem_def Let_def simp del: set_map split: if_splits)
  show "find_port (node_spec (first_nodes g) registry (ge_source e)) (ge_source_port e) Out \<noteq> None"
    "find_port (node_spec (first_nodes g) registry (ge_target e)) (ge_target_port e) In \<noteq> None"
    using none node_typed(2) [OF s] node_typed(2) [OF t]
    by (auto simp: edge_reference_problems_def unknown_port_problem_def Let_def split: option.splits)
qed

lemma in_port_clean:
  assumes "n \<in> set (dict_keys (first_nodes g))" "p \<in> set (nt_ports (node_spec (first_nodes g) registry n))"
    and "np_direction p = In"
  shows "in_port_problems g n p = []"
proof -
  obtain sp where "dict_get registry (gn_type (dict_at (first_nodes g) n)) = Some sp"
    using node_typed(1) [OF assms(1)] by auto
  moreover have "node_wiring_problems g registry (n, dict_at (first_nodes g) n) = []"
    using groups_empty(4) node_typed(3) [OF assms(1)] by (auto simp: wiring_problems_def)
  ultimately show ?thesis
    using assms(2,3) by (auto simp: node_wiring_problems_def node_spec_def dict_at_def)
qed

lemma out_port_exclusive:
  assumes e: "e \<in> set (pg_edges g)" "is_back_edge e" and f: "f \<in> set (pg_edges g)"
    and same: "ge_source f = ge_source e" "ge_source_port f = ge_source_port e"
  shows "f = e"
proof -
  let ?es = "filter (\<lambda>e. edge_key e \<notin> duplicated_keys g
      \<and> port_resolves (first_nodes g) registry (ge_source e) (ge_source_port e) Out) (pg_edges g)"
  have res: "x \<in> set ?es" if "x \<in> set (pg_edges g)" for x
    using that edge_ok [OF that] node_typed(2) [OF edge_ok(1) [OF that]] by (simp add: no_duplicated port_resolves_def)
  let ?here = "filter (\<lambda>x. (ge_source x, ge_source_port x) = (ge_source e, ge_source_port e)) ?es"
  have "out_port_problems g (first_nodes g) registry = []"
    using groups_empty(4) by (simp add: wiring_problems_def)
  moreover have "(ge_source e, ge_source_port e) \<in> set (sorted_set (map (\<lambda>e. (ge_source e, ge_source_port e)) ?es))"
    using res [OF e(1)] by auto
  ultimately have "\<not> (length ?here > 1 \<and> list_ex is_back_edge ?here)"
    unfolding out_port_problems_def Let_def concat_eq_Nil_conv by (auto split: if_splits)
  moreover have mem: "e \<in> set ?here" "f \<in> set ?here" using res [OF e(1)] res [OF f] same by auto
  ultimately have "length ?here \<le> 1" using e(2) by (auto simp: list_ex_iff)
  then show ?thesis using mem(2,1) by (rule length_le_1D)
qed

section \<open>The topology of a legal graph\<close>

abbreviation topo :: topology where
  "topo \<equiv> build_topology g (first_nodes g) registry"

abbreviation the_edge :: "string \<Rightarrow> graph_edge" where
  "the_edge i \<equiv> dict_at (edges_by_id g) i"

lemma tp_simps:
  "tp_node_ids topo = sort (dict_keys (first_nodes g))"
  "tp_edges topo = map (\<lambda>(i, e). (i, edge_key e)) (edges_by_id g)"
  "tp_bounds topo = List.map_filter (\<lambda>(i, e). map_option (Pair i) (ge_max_traversals e)) (edges_by_id g)"
  "tp_out_ports topo = map (\<lambda>n. (n, build_outs (edges_by_id g) n (node_spec (first_nodes g) registry n))) (tp_node_ids topo)"
  "tp_in_ports topo = map (\<lambda>n. (n, build_ins (edges_by_id g) n (node_spec (first_nodes g) registry n))) (tp_node_ids topo)"
  "tp_regions topo = map (\<lambda>v. (v, forward_reach (forward_adjacency (tp_node_ids topo) (pg_edges g)) v))
     (sorted_set (map (\<lambda>i. ge_target (the_edge i)) (dict_keys (tp_bounds topo))))"
  by (simp_all add: build_topology_def Let_def)

lemma node_set_topo: "node_set topo = set (dict_keys (first_nodes g))"
  by (simp add: tp_simps)

lemma edge_set_topo: "edge_set topo = set (dict_keys (edges_by_id g))"
  by (simp add: edge_set_def tp_simps case_prod_beta comp_def)

lemma the_edge_mem:
  assumes "i \<in> edge_set topo"
  shows "(i, the_edge i) \<in> set (edges_by_id g)" "the_edge i \<in> set (pg_edges g)" "edge_id (the_edge i) = i"
proof -
  have "dict_get (edges_by_id g) i \<noteq> None" using assms by (simp add: edge_set_topo map_of_eq_None_iff)
  then show m: "(i, the_edge i) \<in> set (edges_by_id g)" by (auto simp: dict_at_def dest: map_of_SomeD)
  show "the_edge i \<in> set (pg_edges g)" "edge_id (the_edge i) = i" using edges_by_id_facts(3) [OF m] by auto
qed

lemma mem_the_edge: "(i, e) \<in> set (edges_by_id g) \<Longrightarrow> i \<in> edge_set topo \<and> e = the_edge i"
  using edges_by_id_facts(1) [of g] by (auto simp: edge_set_topo dict_at_def rev_image_eqI)

lemma edge_ends:
  assumes "i \<in> edge_set topo"
  shows "dict_at (tp_edges topo) i = edge_key (the_edge i)"
    "e_src topo i = ge_source (the_edge i)" "e_sport topo i = ge_source_port (the_edge i)"
    "e_tgt topo i = ge_target (the_edge i)" "e_tport topo i = ge_target_port (the_edge i)"
proof -
  have "dict_get (edges_by_id g) i \<noteq> None" using assms by (simp add: edge_set_topo map_of_eq_None_iff)
  then show d: "dict_at (tp_edges topo) i = edge_key (the_edge i)"
    by (auto simp: tp_simps dict_at_def map_of_map)
  show "e_src topo i = ge_source (the_edge i)" "e_sport topo i = ge_source_port (the_edge i)"
    "e_tgt topo i = ge_target (the_edge i)" "e_tport topo i = ge_target_port (the_edge i)"
    by (simp_all add: e_src_def e_sport_def e_tgt_def e_tport_def d edge_key_def)
qed

lemma bounds_topo: "dict_get (tp_bounds topo) i =
    (if i \<in> edge_set topo then ge_max_traversals (the_edge i) else None)"
proof -
  have "dict_get (tp_bounds topo) i = (case dict_get (edges_by_id g) i of None \<Rightarrow> None | Some e \<Rightarrow> ge_max_traversals e)"
    unfolding tp_simps by (rule map_of_map_filter [OF edges_by_id_facts(1)])
  moreover have "i \<in> edge_set topo \<longleftrightarrow> dict_get (edges_by_id g) i \<noteq> None"
    by (simp add: edge_set_topo map_of_eq_None_iff)
  ultimately show ?thesis by (auto simp: dict_at_def)
qed

lemma back_iff: "i \<in> back_edges topo \<longleftrightarrow> i \<in> edge_set topo \<and> is_back_edge (the_edge i)"
  and fwd_iff: "i \<in> fwd_edges topo \<longleftrightarrow> i \<in> edge_set topo \<and> \<not> is_back_edge (the_edge i)"
  by (auto simp: back_edges_def fwd_edges_def bounds_topo is_back_edge_def)

section \<open>Ports\<close>

lemma outs_topo:
  assumes "n \<in> node_set topo"
  shows "dict_at (tp_out_ports topo) n = build_outs (edges_by_id g) n (node_spec (first_nodes g) registry n)"
  using assms by (simp add: tp_simps(4) dict_at_map_keys)

lemma ins_topo:
  assumes "n \<in> node_set topo"
  shows "dict_at (tp_in_ports topo) n = build_ins (edges_by_id g) n (node_spec (first_nodes g) registry n)"
  using assms by (simp add: tp_simps(5) dict_at_map_keys)

lemma keys_filter:
  "distinct (map fst (filter P (edges_by_id g)))"
  "set (map fst (filter (\<lambda>(_, e). Q e) (edges_by_id g))) = {i \<in> edge_set topo. Q (the_edge i)}"
proof -
  show "distinct (map fst (filter P (edges_by_id g)))" using edges_by_id_facts(1) by (rule distinct_map_filter)
  show "set (map fst (filter (\<lambda>(_, e). Q e) (edges_by_id g))) = {i \<in> edge_set topo. Q (the_edge i)}"
  proof (intro set_eqI iffI)
    fix i assume "i \<in> set (map fst (filter (\<lambda>(_, e). Q e) (edges_by_id g)))"
    then obtain e where "(i, e) \<in> set (edges_by_id g)" "Q e" by auto
    with mem_the_edge [of i e] show "i \<in> {i \<in> edge_set topo. Q (the_edge i)}" by auto
  next
    fix i assume "i \<in> {i \<in> edge_set topo. Q (the_edge i)}"
    with the_edge_mem(1) [of i] show "i \<in> set (map fst (filter (\<lambda>(_, e). Q e) (edges_by_id g)))"
      by (auto intro!: rev_image_eqI)
  qed
qed

lemma out_port_edges:
  assumes n: "n \<in> node_set topo" and p: "dict_get (dict_at (tp_out_ports topo) n) p = Some es"
  shows "distinct es \<and> set es = {e \<in> edge_set topo. e_src topo e = n \<and> e_sport topo e = p}"
proof -
  from p [unfolded outs_topo [OF n] build_outs_def]
  have "es = map fst (filter (\<lambda>(_, e). ge_source e = n \<and> ge_source_port e = p) (edges_by_id g))"
    by (rule dict_get_dict_of_map) blast
  then show ?thesis
    using keys_filter(1) keys_filter(2) [of "\<lambda>e. ge_source e = n \<and> ge_source_port e = p"]
    by (auto simp: edge_ends)
qed

lemma find_port_mem: "find_port sp name d = Some q \<Longrightarrow> q \<in> set (nt_ports sp) \<and> np_name q = name \<and> np_direction q = d"
  by (auto simp: find_port_def find_Some_iff)

lemma set_sorted_ports [simp]: "set (sorted_ports sp) = set (nt_ports sp)"
  by (simp add: sorted_ports_def)

lemma out_port_declared:
  assumes "e \<in> edge_set topo"
  shows "e_sport topo e \<in> set (dict_keys (dict_at (tp_out_ports topo) (e_src topo e)))"
proof -
  note e = the_edge_mem(2) [OF assms]
  let ?sp = "node_spec (first_nodes g) registry (ge_source (the_edge e))"
  have n: "ge_source (the_edge e) \<in> node_set topo" using edge_ok(1) [OF e] by (simp only: node_set_topo)
  obtain q where q: "q \<in> set (nt_ports ?sp)" "np_name q = ge_source_port (the_edge e)" "np_direction q = Out"
    using edge_ok(3) [OF e] find_port_mem by blast
  have "set (dict_keys (build_outs (edges_by_id g) (ge_source (the_edge e)) ?sp)) = np_name ` {p \<in> set (nt_ports ?sp). np_direction p = Out}"
    unfolding build_outs_def using dict_of_facts(2) [of "map (\<lambda>p. (np_name p,
         map fst (filter (\<lambda>(_, x). ge_source x = ge_source (the_edge e) \<and> ge_source_port x = np_name p) (edges_by_id g))))
       (filter (\<lambda>p. np_direction p = Out) (sorted_ports ?sp))"] by (simp add: image_image)
  then show ?thesis
    unfolding edge_ends(2,3) [OF assms] outs_topo [OF n] using q by (metis (mono_tags, lifting) image_eqI mem_Collect_eq)
qed

lemma in_port_wiring:
  assumes n: "n \<in> node_set topo" and wr: "(q, wr) \<in> set (dict_at (tp_in_ports topo) n)"
  obtains p where "p \<in> set (nt_ports (node_spec (first_nodes g) registry n))" "np_direction p = In" "np_name p = q"
    "pw_multiplicity wr = np_multiplicity p"
    "distinct (pw_forward_edges wr @ pw_back_edges wr)"
    "set (pw_forward_edges wr) = {e \<in> fwd_edges topo. e_tgt topo e = n \<and> e_tport topo e = q}"
    "set (pw_back_edges wr) = {e \<in> back_edges topo. e_tgt topo e = n \<and> e_tport topo e = q}"
proof -
  let ?sp = "node_spec (first_nodes g) registry n"
  let ?ps = "filter (\<lambda>p. np_direction p = In \<and> port_incoming (edges_by_id g) n (np_name p) \<noteq> []) (sorted_ports ?sp)"
  from wr [unfolded ins_topo [OF n] build_ins_def set_dict_sorted] dict_of_facts(3)
  have "(q, wr) \<in> set (map (\<lambda>p. (np_name p,
         let incoming = port_incoming (edges_by_id g) n (np_name p) in
         \<lparr>pw_required = np_required p, pw_multiplicity = np_multiplicity p,
          pw_forward_edges = map fst (filter (\<lambda>(_, e). \<not> is_back_edge e) incoming),
          pw_back_edges = map fst (filter (\<lambda>(_, e). is_back_edge e) incoming)\<rparr>)) ?ps)"
    by (rule rev_subsetD)
  then obtain p where p: "p \<in> set ?ps" "np_name p = q"
    and w: "wr = \<lparr>pw_required = np_required p, pw_multiplicity = np_multiplicity p,
          pw_forward_edges = map fst (filter (\<lambda>(_, e). \<not> is_back_edge e) (port_incoming (edges_by_id g) n q)),
          pw_back_edges = map fst (filter (\<lambda>(_, e). is_back_edge e) (port_incoming (edges_by_id g) n q))\<rparr>"
    by (auto simp: Let_def)
  have split: "filter (\<lambda>(_, e). P e) (port_incoming (edges_by_id g) n q) =
      filter (\<lambda>(_, e). ge_target e = n \<and> ge_target_port e = q \<and> P e) (edges_by_id g)" for P
    unfolding port_incoming_def filter_filter by (rule filter_cong) auto
  have fw: "set (pw_forward_edges wr) = {e \<in> fwd_edges topo. e_tgt topo e = n \<and> e_tport topo e = q}"
    unfolding w port_wiring.simps split keys_filter(2) by (auto simp: fwd_iff edge_ends)
  have bk: "set (pw_back_edges wr) = {e \<in> back_edges topo. e_tgt topo e = n \<and> e_tport topo e = q}"
    unfolding w port_wiring.simps split keys_filter(2) by (auto simp: back_iff edge_ends)
  have "set (pw_forward_edges wr) \<inter> set (pw_back_edges wr) = {}"
    unfolding fw bk by (auto simp: fwd_iff back_iff)
  moreover have "distinct (pw_forward_edges wr)" "distinct (pw_back_edges wr)"
    unfolding w port_wiring.simps split by (rule keys_filter(1))+
  ultimately have "distinct (pw_forward_edges wr @ pw_back_edges wr)" by simp
  with p w fw bk show thesis by (intro that [of p]) auto
qed

definition classified :: "string \<Rightarrow> node_port \<Rightarrow> graph_edge list" where
  "classified n p = filter (\<lambda>e. edge_key e \<notin> duplicated_keys g)
     (filter (\<lambda>e. ge_target e = n \<and> ge_target_port e = np_name p) (pg_edges g))"

lemma in_port_Nil:
  assumes "in_port_problems g n p = []"
  shows "filter (\<lambda>e. \<not> is_back_edge e) (classified n p) = [] \<or> filter is_back_edge (classified n p) = []"
    "np_multiplicity p = One \<Longrightarrow> length (remdups (map ge_source (filter (\<lambda>e. \<not> is_back_edge e) (classified n p)))) \<le> 1"
  using assms unfolding in_port_problems_def Let_def append_is_Nil_conv classified_def [symmetric]
  by (simp_all split: if_splits)

lemma port_not_mixed:
  assumes n: "n \<in> node_set topo" and wr: "(q, wr) \<in> set (dict_at (tp_in_ports topo) n)"
  shows "pw_forward_edges wr = [] \<or> pw_back_edges wr = []"
proof (rule ccontr)
  assume ne: "\<not> ?thesis"
  obtain p where
    p: "p \<in> set (nt_ports (node_spec (first_nodes g) registry n))" "np_direction p = In" "np_name p = q"
      "pw_multiplicity wr = np_multiplicity p"
    and "distinct (pw_forward_edges wr @ pw_back_edges wr)"
    and fw: "set (pw_forward_edges wr) = {e \<in> fwd_edges topo. e_tgt topo e = n \<and> e_tport topo e = q}"
    and bk: "set (pw_back_edges wr) = {e \<in> back_edges topo. e_tgt topo e = n \<and> e_tport topo e = q}"
    by (rule in_port_wiring [OF n wr])
  from ne obtain f b where "f \<in> set (pw_forward_edges wr)" "b \<in> set (pw_back_edges wr)"
    by (metis list.set_sel(1))
  then have f: "f \<in> edge_set topo" "\<not> is_back_edge (the_edge f)" "ge_target (the_edge f) = n" "ge_target_port (the_edge f) = q"
    and b: "b \<in> edge_set topo" "is_back_edge (the_edge b)" "ge_target (the_edge b) = n" "ge_target_port (the_edge b) = q"
    unfolding fw bk by (auto simp: fwd_iff back_iff edge_ends)
  have "in_port_problems g n p = []" using in_port_clean [OF _ p(1,2)] n by (simp only: node_set_topo)
  moreover have "the_edge f \<in> set (filter (\<lambda>e. \<not> is_back_edge e) (classified n p))"
    "the_edge b \<in> set (filter is_back_edge (classified n p))"
    using the_edge_mem(2) [OF f(1)] the_edge_mem(2) [OF b(1)] f b p(3) by (simp_all add: classified_def no_duplicated)
  ultimately show False using in_port_Nil(1) by (metis empty_iff empty_set)
qed

lemma port_one_source:
  assumes n: "n \<in> node_set topo" and wr: "(q, wr) \<in> set (dict_at (tp_in_ports topo) n)"
    and one: "pw_multiplicity wr = One"
    and e: "e \<in> set (pw_forward_edges wr)" and e': "e' \<in> set (pw_forward_edges wr)"
  shows "e_src topo e = e_src topo e'"
proof -
  obtain p where
    p: "p \<in> set (nt_ports (node_spec (first_nodes g) registry n))" "np_direction p = In" "np_name p = q"
      "pw_multiplicity wr = np_multiplicity p"
    and "distinct (pw_forward_edges wr @ pw_back_edges wr)"
    and fw: "set (pw_forward_edges wr) = {e \<in> fwd_edges topo. e_tgt topo e = n \<and> e_tport topo e = q}"
    and bk: "set (pw_back_edges wr) = {e \<in> back_edges topo. e_tgt topo e = n \<and> e_tport topo e = q}"
    by (rule in_port_wiring [OF n wr])
  let ?fw = "filter (\<lambda>e. \<not> is_back_edge e) (classified n p)"
  have mem: "x \<in> edge_set topo \<and> the_edge x \<in> set ?fw" if "x \<in> set (pw_forward_edges wr)" for x
  proof -
    from that have x: "x \<in> edge_set topo" "\<not> is_back_edge (the_edge x)" "e_tgt topo x = n" "e_tport topo x = q"
      unfolding fw by (simp_all add: fwd_iff)
    with the_edge_mem(2) [OF x(1)] show ?thesis by (simp add: classified_def edge_ends no_duplicated p(3))
  qed
  have "in_port_problems g n p = []" using in_port_clean [OF _ p(1,2)] n by (simp only: node_set_topo)
  then have "length (remdups (map ge_source ?fw)) \<le> 1" by (rule in_port_Nil(2)) (use one p(4) in simp)
  then have "ge_source (the_edge e) = ge_source (the_edge e')"
    by (rule length_le_1D) (use mem [OF e] mem [OF e'] in auto)
  with mem [OF e] mem [OF e'] show ?thesis by (simp add: edge_ends)
qed

section \<open>Loops\<close>

abbreviation adj :: adjacency where
  "adj \<equiv> forward_adjacency (tp_node_ids topo) (pg_edges g)"

lemma topology_clean:
  "forward_cycles adj = []"
  "e \<in> set (pg_edges g) \<Longrightarrow> is_back_edge e \<Longrightarrow> ge_source e \<in> set (forward_reach adj (ge_target e))"
  using groups_empty(5) by (auto simp: topology_problems_def tp_simps(1) Let_def)

lemma fwd_edge_adj:
  assumes "f \<in> fwd_edges topo"
  shows "(e_src topo f, e_tgt topo f) \<in> adj_rel adj"
proof -
  have f: "f \<in> edge_set topo" "\<not> is_back_edge (the_edge f)" using assms by (auto simp: fwd_iff)
  note e = the_edge_mem(2) [OF f(1)]
  have "ge_source (the_edge f) \<in> node_set topo" "ge_target (the_edge f) \<in> node_set topo"
    using edge_ok(1,2) [OF e] by (simp_all only: node_set_topo)
  with e f(2) show ?thesis
    unfolding adj_rel_iff set_forward_adjacency_succs by (auto simp: edge_ends [OF f(1)])
qed

lemma fwd_rel_acyclic: "acyclic (fwd_rel topo)"
  by (rule acyclic_subset [OF forward_cycles_Nil_acyclic [OF topology_clean(1)]])
    (auto simp: fwd_rel_def simp del: adj_rel_iff intro: fwd_edge_adj)

lemma region_topo:
  assumes "e \<in> back_edges topo"
  shows "dict_get (tp_regions topo) (e_tgt topo e) = Some (forward_reach adj (e_tgt topo e))"
    "region_of topo e = forward_reach adj (e_tgt topo e)"
proof -
  have e: "e \<in> edge_set topo" "is_back_edge (the_edge e)" using assms by (auto simp: back_iff)
  then have "dict_get (tp_bounds topo) e \<noteq> None" by (auto simp: bounds_topo is_back_edge_def)
  then have "e \<in> set (dict_keys (tp_bounds topo))" by (simp add: map_of_eq_None_iff)
  then have "e_tgt topo e \<in> set (sorted_set (map (\<lambda>i. ge_target (the_edge i)) (dict_keys (tp_bounds topo))))"
    unfolding edge_ends(4) [OF e(1)] set_sorted_set by (metis image_eqI set_map)
  then show "dict_get (tp_regions topo) (e_tgt topo e) = Some (forward_reach adj (e_tgt topo e))"
    unfolding tp_simps(6) by (rule map_of_map_pair)
  then show "region_of topo e = forward_reach adj (e_tgt topo e)" by (simp add: region_of_def dict_at_def)
qed

lemma reach_nodes:
  assumes "v \<in> node_set topo"
  shows "set (forward_reach adj v) \<subseteq> node_set topo"
proof
  fix u assume "u \<in> set (forward_reach adj v)"
  then have "(v, u) \<in> (adj_rel adj)\<^sup>*" by (simp add: set_forward_reach)
  then show "u \<in> node_set topo"
    by (induction) (use assms in \<open>auto simp: set_forward_adjacency_succs split: if_splits\<close>)
qed

end

sublocale legal_graph \<subseteq> topology_laws "build_topology g (first_nodes g) registry"
proof
  show "set (dict_keys (tp_out_ports topo)) = node_set topo" "set (dict_keys (tp_in_ports topo)) = node_set topo"
    by (simp_all only: tp_simps(4,5) dict_keys_map_pair)
  show "distinct (tp_node_ids topo)" by (simp add: tp_simps(1) first_nodes_keys(2))
next
  fix e assume e: "e \<in> edge_set topo"
  then show "e_src topo e \<in> node_set topo \<and> e_tgt topo e \<in> node_set topo"
    using edge_ok(1,2) [OF the_edge_mem(2) [OF e]] by (simp only: edge_ends [OF e] node_set_topo)
  show "e_sport topo e \<in> set (dict_keys (dict_at (tp_out_ports topo) (e_src topo e)))"
    by (rule out_port_declared [OF e])
next
  fix e e' assume e: "e \<in> edge_set topo" "e' \<in> edge_set topo" "dict_at (tp_edges topo) e = dict_at (tp_edges topo) e'"
  then have "edge_key (the_edge e) = edge_key (the_edge e')" by (simp add: edge_ends)
  then have "edge_id (the_edge e) = edge_id (the_edge e')" by (simp add: edge_id_def edge_key_def)
  then show "e = e'" using the_edge_mem(3) [OF e(1)] the_edge_mem(3) [OF e(2)] by simp
next
  fix n p es assume "n \<in> node_set topo" "dict_get (dict_at (tp_out_ports topo) n) p = Some es"
  then show "distinct es \<and> set es = {e \<in> edge_set topo. e_src topo e = n \<and> e_sport topo e = p}"
    by (rule out_port_edges)
next
  fix n q wr assume nw: "n \<in> node_set topo" "(q, wr) \<in> set (dict_at (tp_in_ports topo) n)"
  from in_port_wiring [OF nw]
  show "distinct (pw_forward_edges wr @ pw_back_edges wr)
      \<and> set (pw_forward_edges wr) = {e \<in> fwd_edges topo. e_tgt topo e = n \<and> e_tport topo e = q}
      \<and> set (pw_back_edges wr) = {e \<in> back_edges topo. e_tgt topo e = n \<and> e_tport topo e = q}" by blast
  show "pw_forward_edges wr = [] \<or> pw_back_edges wr = []" by (rule port_not_mixed [OF nw])
  fix e e' assume "pw_multiplicity wr = One" "e \<in> set (pw_forward_edges wr)" "e' \<in> set (pw_forward_edges wr)"
  then show "e_src topo e = e_src topo e'" by (rule port_one_source [OF nw])
next
  fix e e' assume e: "e \<in> back_edges topo" "e' \<in> edge_set topo" "e_src topo e' = e_src topo e" "e_sport topo e' = e_sport topo e"
  then have be: "e \<in> edge_set topo" "is_back_edge (the_edge e)" by (auto simp: back_iff)
  have "the_edge e' = the_edge e"
    using out_port_exclusive [OF the_edge_mem(2) [OF be(1)] be(2) the_edge_mem(2) [OF e(2)]] e(3,4)
    by (simp add: edge_ends [OF be(1)] edge_ends [OF e(2)])
  then show "e' = e" using the_edge_mem(3) [OF be(1)] the_edge_mem(3) [OF e(2)] by simp
next
  fix e assume e: "e \<in> back_edges topo"
  then have be: "e \<in> edge_set topo" "is_back_edge (the_edge e)" by (auto simp: back_iff)
  have tgt: "e_tgt topo e \<in> node_set topo"
    using edge_ok(2) [OF the_edge_mem(2) [OF be(1)]] by (simp only: edge_ends [OF be(1)] node_set_topo)
  have "e_src topo e \<in> set (forward_reach adj (e_tgt topo e))"
    using topology_clean(2) [OF the_edge_mem(2) [OF be(1)] be(2)] by (simp add: edge_ends [OF be(1)])
  moreover have "e_tgt topo e \<in> set (forward_reach adj (e_tgt topo e))" by (simp add: set_forward_reach)
  ultimately show "dict_get (tp_regions topo) (e_tgt topo e) \<noteq> None \<and> set (region_of topo e) \<subseteq> node_set topo
      \<and> e_src topo e \<in> set (region_of topo e) \<and> e_tgt topo e \<in> set (region_of topo e)"
    using reach_nodes [OF tgt] by (simp add: region_topo [OF e])
  fix f assume "f \<in> fwd_edges topo" "e_src topo f \<in> set (region_of topo e)"
  then show "e_tgt topo f \<in> set (region_of topo e)"
    using fwd_edge_adj [of f] unfolding region_topo(2) [OF e] set_forward_reach
    by (auto simp del: adj_rel_iff intro: rtrancl_into_rtrancl)
next
  fix e assume "dict_get (tp_bounds topo) e \<noteq> None"
  then show "e \<in> edge_set topo" by (simp add: bounds_topo split: if_splits)
qed (rule fwd_rel_acyclic)

context legal_graph
begin

lemma laws: "topology_laws (build_topology g (first_nodes g) registry)"
  by (rule topology_laws_axioms)

end

lemma from_graph_legal:
  assumes "from_graph check_model g registry roles = Inr t"
  shows "legal_graph check_model g registry roles" "t = build_topology g (first_nodes g) registry"
proof -
  have "vr_problems (validate check_model g registry roles) = []"
    and t: "vr_topology (validate check_model g registry roles) = Some t"
    using assms by (auto simp: from_graph_def validate_def Let_def split: option.splits if_splits)
  then show *: "legal_graph check_model g registry roles" by unfold_locales
  show "t = build_topology g (first_nodes g) registry"
    using legal_graph.validate_topology [OF *] t by simp
qed

lemma from_graph_laws:
  assumes "from_graph check_model g registry roles = Inr t"
  shows "topology_laws t"
  using legal_graph.laws [OF from_graph_legal(1) [OF assms]] by (simp add: from_graph_legal(2) [OF assms])

end
