(* ===== verification/Review_Loop.thy ===== *)
theory Review_Loop
  imports Validate_Sound
begin

text \<open>
  The architecture-review loop of the shipped default graph
  (\<open>workflows/graphs/default.graph.yaml\<close>): intake, clarification, the architect and its gate, whose
  \<open>revise\<close> port leads back to the architect at most twice. The validator accepts it over the
  shipped node-type catalogue; the run below goes round the loop once and completes. It is the
  concrete instance on which the engine's properties are exercised.
\<close>

section \<open>The graph\<close>

definition plain_node :: "string \<Rightarrow> string \<Rightarrow> graph_node" where
  "plain_node i ty = \<lparr>gn_id = i, gn_type = ty, gn_role = None, gn_gate = None, gn_position = None, gn_label = None\<rparr>"

definition plain_edge :: "string \<Rightarrow> string \<Rightarrow> string \<Rightarrow> string \<Rightarrow> nat option \<Rightarrow> graph_edge" where
  "plain_edge s sp t tp b = \<lparr>ge_source = s, ge_source_port = sp, ge_target = t, ge_target_port = tp,
     ge_max_traversals = b, ge_label = None\<rparr>"

definition review_roles :: role_map where
  "review_roles =
     [(''dev'', default_role_config\<lparr>rc_model := Some ''zai-coding-plan/glm-5.3''\<rparr>),
      (''reviewer'', default_role_config\<lparr>rc_kind := Proposer, rc_model := Some ''zai:glm-5.3''\<rparr>),
      (''clarify'', default_role_config\<lparr>rc_kind := Proposer, rc_model := Some ''zai:glm-5.3''\<rparr>),
      (''architect'', default_role_config\<lparr>rc_kind := Proposer, rc_model := Some ''zai:glm-5.3''\<rparr>)]"

definition review_graph :: pipeline_graph where
  "review_graph = \<lparr>
     pg_nodes = [plain_node ''architect'' ''architect'', plain_node ''architecture'' ''gate.architecture'',
       plain_node ''clarify'' ''clarify'', plain_node ''intake'' ''intake''],
     pg_edges = [plain_edge ''architect'' ''spec'' ''architecture'' ''artifact'' None,
       plain_edge ''architecture'' ''revise'' ''architect'' ''guidance'' (Some 2),
       plain_edge ''clarify'' ''requirements'' ''architect'' ''requirements'' None,
       plain_edge ''intake'' ''ok'' ''clarify'' ''trigger'' None]\<rparr>"

abbreviation accept_model :: "string \<Rightarrow> string \<Rightarrow> check" where
  "accept_model \<equiv> \<lambda>_ _. Inr ()"

definition wired :: "bool \<Rightarrow> string list \<Rightarrow> string list \<Rightarrow> port_wiring" where
  "wired req fwd back = \<lparr>pw_required = req, pw_multiplicity = One, pw_forward_edges = fwd, pw_back_edges = back\<rparr>"

abbreviation "e_spec \<equiv> ''architect.spec->architecture.artifact''"
abbreviation "e_revise \<equiv> ''architecture.revise->architect.guidance''"
abbreviation "e_reqs \<equiv> ''clarify.requirements->architect.requirements''"
abbreviation "e_ok \<equiv> ''intake.ok->clarify.trigger''"

definition review_topology :: topology where
  "review_topology = \<lparr>
     tp_entry = ''intake'',
     tp_node_ids = [''architect'', ''architecture'', ''clarify'', ''intake''],
     tp_gate_nodes = [''architecture''],
     tp_edges = [(e_spec, ''architect'', ''spec'', ''architecture'', ''artifact''),
       (e_revise, ''architecture'', ''revise'', ''architect'', ''guidance''),
       (e_reqs, ''clarify'', ''requirements'', ''architect'', ''requirements''),
       (e_ok, ''intake'', ''ok'', ''clarify'', ''trigger'')],
     tp_bounds = [(e_revise, 2)],
     tp_out_ports = [
       (''architect'', [(''fail'', []), (''spec'', [e_spec])]),
       (''architecture'', [(''approve'', []), (''reject'', []), (''revise'', [e_revise])]),
       (''clarify'', [(''fail'', []), (''requirements'', [e_reqs])]),
       (''intake'', [(''brownfield'', []), (''fail'', []), (''ok'', [e_ok]), (''reject'', [])])],
     tp_in_ports = [
       (''architect'', [(''guidance'', wired False [] [e_revise]), (''requirements'', wired True [e_reqs] [])]),
       (''architecture'', [(''artifact'', wired True [e_spec] [])]),
       (''clarify'', [(''trigger'', wired False [e_ok] [])]),
       (''intake'', [])],
     tp_regions = [(''architect'', [''architect'', ''architecture''])],
     tp_terminal_ports = [
       (''architect'', [(''fail'', TFailed)]),
       (''architecture'', [(''reject'', TRejected)]),
       (''clarify'', [(''fail'', TFailed)]),
       (''intake'', [(''fail'', TFailed), (''reject'', TRejected)])]\<rparr>"

lemma review_from_graph: "from_graph accept_model review_graph NODE_TYPES review_roles = Inr review_topology"
  by code_simp

interpretation review: legal_graph accept_model review_graph NODE_TYPES review_roles
  by (rule from_graph_legal(1) [OF review_from_graph])

section \<open>A run\<close>

definition review_events :: "event list" where
  "review_events = [Emitted ''intake#1'' ''ok'' ''r1'', Emitted ''clarify#1'' ''requirements'' ''r2'',
     Emitted ''architect#1'' ''spec'' ''r3'', Emitted ''architecture#1'' ''revise'' ''r4'',
     Emitted ''architect#2'' ''spec'' ''r5'', Emitted ''architecture#2'' ''approve'' ''r6'']"

definition review_state :: "nat \<Rightarrow> router_state" where
  "review_state k = (case run_events review_topology (take k review_events) (sp_state (start review_topology)) of
     Inr s \<Rightarrow> s | Inl _ \<Rightarrow> sp_state (start review_topology))"

lemma review_state_reachable: "reachable review_topology (review_state k)"
  unfolding review_state_def
  by (auto split: sum.splits intro: reach_start reachable_run_events)

lemma review_state_0: "map la_activation_id (rs_live (review_state 0)) = [''intake#1'']"
  by code_simp

lemma review_state_4: "rs_outcome (review_state 4) = ORunning" "rs_traversals (review_state 4) e_revise = Some 1"
  by code_simp+

lemma review_state_6: "rs_outcome (review_state 6) = OCompleted" "length (rs_emissions (review_state 6)) = 6"
  by code_simp+

lemma review_state_1:
  "rs_emissions (review_state 1) = [\<lparr>em_activation_id = ''intake#1'', em_port = ''ok'', em_payload_ref = ''r1''\<rparr>]"
  "''intake'' \<in> set (tp_node_ids review_topology)"
  "ns_round (the (rs_nodes (review_state 1) ''intake'')) = 1"
  "''ok'' \<in> set (dict_keys (dict_at (tp_out_ports review_topology) (node_of ''intake#1'')))"
  by code_simp+

text \<open>Three rounds of the gate: the third \<open>revise\<close> finds the loop exhausted.\<close>

definition exhausting_events :: "event list" where
  "exhausting_events = take 4 review_events @
     [Emitted ''architect#2'' ''spec'' ''r5'', Emitted ''architecture#2'' ''revise'' ''r6'',
      Emitted ''architect#3'' ''spec'' ''r7'']"

definition exhausted_state :: router_state where
  "exhausted_state = (case run_events review_topology exhausting_events (sp_state (start review_topology)) of
     Inr s \<Rightarrow> s | Inl _ \<Rightarrow> sp_state (start review_topology))"

definition exhausted_step :: step where
  "exhausted_step = (case advance review_topology exhausted_state (Emitted ''architecture#3'' ''revise'' ''r8'') of
     Inr st \<Rightarrow> st | Inl _ \<Rightarrow> start review_topology)"

lemma exhausted_reachable: "reachable review_topology exhausted_state"
  unfolding exhausted_state_def
  by (auto split: sum.splits intro: reach_start reachable_run_events)

lemma exhausted_running: "rs_outcome exhausted_state = ORunning"
  by code_simp

lemma exhausted_isr: "isl (advance review_topology exhausted_state (Emitted ''architecture#3'' ''revise'' ''r8'')) = False"
  by code_simp

lemma exhausted_advance:
  "advance review_topology exhausted_state (Emitted ''architecture#3'' ''revise'' ''r8'') = Inr exhausted_step"
  "sp_outcome exhausted_step = OEscalated"
  "sp_reason exhausted_step = Some ''architecture.revise: exhausted''"
proof -
  show "advance review_topology exhausted_state (Emitted ''architecture#3'' ''revise'' ''r8'') = Inr exhausted_step"
    using exhausted_isr unfolding exhausted_step_def by (auto split: sum.splits simp del: advance.simps)
qed code_simp+

end
