(* ===== verification/Engine_Properties.thy ===== *)
theory Engine_Properties
  imports Review_Loop
begin

text \<open>
  The correctness of the graph engine as a whole: what \<open>from_graph\<close> followed by any sequence of
  \<open>advance\<close> calls guarantees. Every statement is about a topology that the validator produced;
  the contract \<open>topology_laws\<close> enters only through \<open>from_graph_laws\<close>. The witnesses run the engine
  on the architecture-review loop of the shipped default graph.
\<close>

section \<open>Facts of the contract\<close>

context topology_laws
begin

lemma accounted:
  assumes "reachable t s"
  shows "aid \<in> issued_ids t (work_of s) \<longleftrightarrow> aid \<in> live_ids (work_of s) \<or> aid \<in> set (rs_retired s)
      \<or> aid \<in> em_activation_id ` set (rs_emissions s)"
    "\<not> (aid \<in> live_ids (work_of s) \<and> aid \<in> set (rs_retired s))"
    "\<not> (aid \<in> live_ids (work_of s) \<and> aid \<in> em_activation_id ` set (rs_emissions s))"
    "\<not> (aid \<in> set (rs_retired s) \<and> aid \<in> em_activation_id ` set (rs_emissions s))"
  using coreD(4) [OF reachable_core [OF assms]] unfolding acct_ok_def work_of_sel by blast+

lemma terminal_absorbs:
  assumes "reachable t s" "rs_outcome s \<noteq> ORunning" "advance t s ev = Inr st"
  obtains aid port r where "st = drop_event (work_of s) aid port r"
proof (cases ev)
  case (Emitted aid port ref)
  have "rs_live s = []" using goodD(4) [OF reachable_good [OF assms(1)] assms(2)] .
  then have "dict_get (wk_live (work_of s)) aid = None" using work_of_live_Nil [of s] by simp
  from advance_not_live [OF this assms(3) [unfolded Emitted]] show thesis using that by blast
qed (use assms in simp)

lemma duplicate_dropped:
  assumes s: "reachable t s" and em: "\<lparr>em_activation_id = aid, em_port = port, em_payload_ref = ref\<rparr> \<in> set (rs_emissions s)"
    and port: "port \<in> set (dict_keys (dict_at (tp_out_ports t) (node_of aid)))"
  shows "advance t s (Emitted aid port ref) = Inr (drop_event (work_of s) aid port Duplicate)"
proof -
  have core: "core t (work_of s)" by (rule reachable_core [OF s])
  have mem: "aid \<in> em_activation_id ` set (rs_emissions s)" using em by force
  then have iss: "aid \<in> issued_ids t (work_of s)" and nl: "aid \<notin> live_ids (work_of s)" and nr: "aid \<notin> set (rs_retired s)"
    using accounted [OF s, of aid] by auto
  from issued_node_issued [OF core iss] obtain n k where n: "aid = gate_key n (int k)" "issued_node (work_of s) aid = Inr n" by blast
  have "dict_get (wk_live (work_of s)) aid = None" using nl by (simp add: map_of_eq_None_iff)
  moreover have "find (\<lambda>e. em_activation_id e = aid) (rs_emissions s)
      = Some \<lparr>em_activation_id = aid, em_port = port, em_payload_ref = ref\<rparr>"
  proof (rule find_unique [OF _ em])
    show "distinct (map em_activation_id (rs_emissions s))" using coreD(4) [OF core] by (simp add: acct_ok_def)
  qed simp
  ultimately show ?thesis
    using nr port n by (simp add: advance_emitted_def not_live_def Let_def del: set_map)
qed

end

section \<open>Properties of the engine\<close>

text \<open>C1: no loop runs away. In every state reachable on a validated graph, an edge is counted as
  traversed only if it carries a bound, and never more often than its bound allows.\<close>

theorem loop_bounds_respected:
  assumes "from_graph check_model g registry roles = Inr t" "reachable t s"
    and "rs_traversals s e = Some k"
  shows "\<exists>b. dict_get (tp_bounds t) e = Some b \<and> k \<le> b"
  by (rule topology_laws.reachable_traversals [OF from_graph_laws [OF assms(1)] assms(2,3)])

theorem loop_bounds_respected_witness:
  "rs_traversals (review_state 4) e_revise = Some 1 \<and>
   (\<exists>b. dict_get (tp_bounds review_topology) e_revise = Some b \<and> 1 \<le> b)"
  using loop_bounds_respected [OF review_from_graph review_state_reachable review_state_4(2)] review_state_4(2)
  by (rule conjI [rotated])

text \<open>C4: every run is finite. On a validated graph no node is activated more than once per granted
  loop traversal plus one, and the number of emissions that are ever applied is bounded by the
  number of nodes times that figure, whatever the order of events.\<close>

theorem run_length_bounded:
  assumes "from_graph check_model g registry roles = Inr t" "reachable t s"
  shows "(\<forall>n \<in> set (tp_node_ids t). ns_round (the (rs_nodes s n)) \<le> 1 + total_bound t)
    \<and> length (rs_emissions s) \<le> length (tp_node_ids t) * (1 + total_bound t)"
proof -
  note laws = from_graph_laws [OF assms(1)]
  note core = topology_laws.reachable_core [OF laws assms(2)]
  show ?thesis
    using topology_laws.rounds_bound [OF laws core] topology_laws.emissions_bound [OF laws core] by simp
qed

theorem run_length_bounded_witness:
  "length (rs_emissions (review_state 6)) \<le> length (tp_node_ids review_topology) * (1 + total_bound review_topology)"
  using run_length_bounded [OF review_from_graph review_state_reachable] by (rule conjunct2)

text \<open>C2: completion is honest. When a reachable state of a validated graph is \<open>completed\<close>, nothing is
  live and every node of the graph is either done or dead; none was left waiting.\<close>

theorem completed_settles_every_node:
  assumes "from_graph check_model g registry roles = Inr t" "reachable t s" "rs_outcome s = OCompleted"
  shows "rs_live s = [] \<and> (\<forall>n \<in> set (tp_node_ids t). ns_status (the (rs_nodes s n)) \<in> {NDone, NDead})"
proof -
  note good = topology_laws.reachable_good [OF from_graph_laws [OF assms(1)] assms(2)]
  show ?thesis using goodD(3,4) [OF good] assms(3) by (simp add: settled_all_def)
qed

theorem completed_settles_every_node_witness:
  "rs_outcome (review_state 6) = OCompleted \<and> rs_live (review_state 6) = [] \<and>
   ns_status (the (rs_nodes (review_state 6) ''architect'')) \<in> {NDone, NDead}"
  using completed_settles_every_node [OF review_from_graph review_state_reachable review_state_6(1)] review_state_6(1)
  by (simp add: review_topology_def)

text \<open>C3: no run gets stuck. In a reachable running state of a validated graph something is live, and
  an event for any live activation on any out-port its node declares is accepted without an
  exception: either the emission is recorded and the engine does not escalate, or the port was
  marked unavailable when the activation was issued and the run escalates with that port as its
  reason.\<close>

theorem live_emission_accepted:
  assumes "from_graph check_model g registry roles = Inr t" "reachable t s"
  shows "(rs_outcome s = ORunning \<longrightarrow> rs_live s \<noteq> []) \<and>
    (\<forall>la \<in> set (rs_live s). \<forall>port \<in> set (dict_keys (dict_at (tp_out_ports t) (la_node_id la))). \<forall>ref.
       \<exists>st. advance t s (Emitted (la_activation_id la) port ref) = Inr st \<and>
         (case dict_get (la_unavailable_ports la) port of
            None \<Rightarrow> sp_outcome st \<noteq> OEscalated \<and> mset (rs_emissions (sp_state st)) = mset (rs_emissions s) +
                {#\<lparr>em_activation_id = la_activation_id la, em_port = port, em_payload_ref = ref\<rparr>#}
          | Some why \<Rightarrow> sp_outcome st = OEscalated \<and>
                sp_reason st = Some (la_node_id la @ ''.'' @ port @ '': '' @ unavailable_value why)))"
proof (intro conjI ballI allI impI)
  note laws = from_graph_laws [OF assms(1)]
  note good = topology_laws.reachable_good [OF laws assms(2)]
  show "rs_live s \<noteq> []" if "rs_outcome s = ORunning" using goodD(2) [OF good that] by simp
  fix la port ref
  assume la: "la \<in> set (rs_live s)" and port: "port \<in> set (dict_keys (dict_at (tp_out_ports t) (la_node_id la)))"
  have "dict_get (wk_live (work_of s)) (la_activation_id la) = Some la" using la by (simp add: live_lookup [OF good])
  from topology_laws.advance_live(2) [OF laws good this port, of ref]
  show "\<exists>st. advance t s (Emitted (la_activation_id la) port ref) = Inr st \<and>
         (case dict_get (la_unavailable_ports la) port of
            None \<Rightarrow> sp_outcome st \<noteq> OEscalated \<and> mset (rs_emissions (sp_state st)) = mset (rs_emissions s) +
                {#\<lparr>em_activation_id = la_activation_id la, em_port = port, em_payload_ref = ref\<rparr>#}
          | Some why \<Rightarrow> sp_outcome st = OEscalated \<and>
                sp_reason st = Some (la_node_id la @ ''.'' @ port @ '': '' @ unavailable_value why))"
    by (auto split: option.splits)
qed

theorem live_emission_accepted_witness:
  "rs_outcome (review_state 4) = ORunning \<and> rs_live (review_state 4) \<noteq> []"
  using live_emission_accepted [OF review_from_graph review_state_reachable, of 4] review_state_4(1) by blast

text \<open>The backstops of the router never fire on a validated graph. A running reachable state
  escalates only because a live activation emitted on a port that its own issue-time snapshot
  marks unavailable, and the reason says so; neither a delivery into an occupied slot nor two
  tokens on a one port ever happens.\<close>

lemma escalation_cause:
  assumes "from_graph check_model g registry roles = Inr t" "reachable t s" "rs_outcome s = ORunning"
    and "advance t s ev = Inr st" "sp_outcome st = OEscalated"
  shows "\<exists>la port ref why. ev = Emitted (la_activation_id la) port ref \<and> la \<in> set (rs_live s) \<and>
    dict_get (la_unavailable_ports la) port = Some why \<and>
    sp_reason st = Some (la_node_id la @ ''.'' @ port @ '': '' @ unavailable_value why)"
proof -
  note laws = from_graph_laws [OF assms(1)]
  note good = topology_laws.reachable_good [OF laws assms(2)]
  show ?thesis
  proof (cases ev)
    case (Halt kind r)
    with assms(4) have "st = terminate (work_of s) (terminal_outcome kind) r None []" by (auto split: if_splits)
    with assms(5) show ?thesis by (cases kind) simp_all
  next
    case (Emitted aid port ref)
    show ?thesis
    proof (cases "dict_get (wk_live (work_of s)) aid")
      case None
      from topology_laws.advance_not_live [OF laws None assms(4) [unfolded Emitted]]
      obtain r where "st = drop_event (work_of s) aid port r" .
      with assms(3,5) show ?thesis by (simp add: topology_laws.drop_sel [OF laws])
    next
      case (Some la)
      then have la: "la \<in> set (rs_live s)" "la_activation_id la = aid" by (simp_all add: live_lookup [OF good])
      have port: "port \<in> set (dict_keys (dict_at (tp_out_ports t) (la_node_id la)))"
        using assms(4) topology_laws.live_node_issued [OF laws goodD(1) [OF good] Some]
        by (auto simp: Emitted advance_emitted_def Let_def split: if_splits)
      obtain why where "dict_get (la_unavailable_ports la) port = Some why"
        "sp_reason st = Some (la_node_id la @ ''.'' @ port @ '': '' @ unavailable_value why)"
        using topology_laws.advance_live(2) [OF laws good Some port, of ref] assms(4,5)
        by (cases "dict_get (la_unavailable_ports la) port") (auto simp: Emitted)
      with la Emitted show ?thesis by blast
    qed
  qed
qed

text \<open>Every activation that was ever issued is accounted for exactly once: it is live, or it was
  retired, or its emission was applied, and never two of these.\<close>

lemma activation_accounting:
  assumes "from_graph check_model g registry roles = Inr t" "reachable t s"
    and "n \<in> set (tp_node_ids t)" "1 \<le> k" "k \<le> ns_round (the (rs_nodes s n))"
  shows "let aid = gate_key n (int k);
             live = aid \<in> la_activation_id ` set (rs_live s);
             retired = aid \<in> set (rs_retired s);
             emitted = aid \<in> em_activation_id ` set (rs_emissions s)
         in (live \<or> retired \<or> emitted) \<and> \<not> (live \<and> retired) \<and> \<not> (live \<and> emitted) \<and> \<not> (retired \<and> emitted)"
proof -
  note laws = from_graph_laws [OF assms(1)]
  note good = topology_laws.reachable_good [OF laws assms(2)]
  have live: "live_ids (work_of s) = la_activation_id ` set (rs_live s)"
    by (simp add: thawed_live [OF good] image_image)
  have "gate_key n (int k) \<in> issued_ids t (work_of s)"
    using assms(3-5) by (auto simp: issued_ids_def)
  with topology_laws.accounted [OF laws assms(2), of "gate_key n (int k)"] show ?thesis
    unfolding live Let_def by blast
qed

text \<open>Redelivery is harmless. Once an emission has been applied, the same event again changes
  nothing but the drop log: it is reported as a duplicate, activates and cancels nothing.\<close>

lemma duplicate_is_idempotent:
  assumes "from_graph check_model g registry roles = Inr t" "reachable t s"
    and "\<lparr>em_activation_id = aid, em_port = port, em_payload_ref = ref\<rparr> \<in> set (rs_emissions s)"
    and "port \<in> set (dict_keys (dict_at (tp_out_ports t) (node_of aid)))"
  shows "\<exists>st. advance t s (Emitted aid port ref) = Inr st \<and> sp_activations st = [] \<and> sp_cancelled st = []
    \<and> sp_outcome st = rs_outcome s \<and> rs_nodes (sp_state st) = rs_nodes s \<and> rs_slots (sp_state st) = rs_slots s
    \<and> rs_traversals (sp_state st) = rs_traversals s \<and> mset (rs_emissions (sp_state st)) = mset (rs_emissions s)
    \<and> mset (rs_dropped (sp_state st)) = mset (rs_dropped s) +
        {#\<lparr>dr_activation_id = aid, dr_port = port, dr_reason = Duplicate\<rparr>#}"
proof -
  note laws = from_graph_laws [OF assms(1)]
  have "mset (rs_dropped (sp_state (drop_event (work_of s) aid port Duplicate)))
      = mset (rs_dropped s) + {#\<lparr>dr_activation_id = aid, dr_port = port, dr_reason = Duplicate\<rparr>#}"
    by (simp add: drop_event_def freeze_def Let_def)
  with topology_laws.duplicate_dropped [OF laws assms(2-4)] show ?thesis
    by (auto simp: topology_laws.drop_sel [OF laws])
qed

text \<open>An outcome other than \<open>running\<close> is final. No event changes it, activates or cancels
  anything, moves a token or counts a traversal, and a halt is refused.\<close>

lemma final_outcome_absorbs:
  assumes "from_graph check_model g registry roles = Inr t" "reachable t s" "rs_outcome s \<noteq> ORunning"
  shows "(\<forall>kind r. advance t s (Halt kind r) = Inl (HaltAfterTerminal (rs_outcome s) r)) \<and>
    (\<forall>ev st. advance t s ev = Inr st \<longrightarrow> sp_outcome st = rs_outcome s \<and> sp_activations st = [] \<and>
       sp_cancelled st = [] \<and> rs_nodes (sp_state st) = rs_nodes s \<and> rs_slots (sp_state st) = rs_slots s \<and>
       rs_traversals (sp_state st) = rs_traversals s \<and> mset (rs_emissions (sp_state st)) = mset (rs_emissions s))"
proof (intro conjI allI impI)
  note laws = from_graph_laws [OF assms(1)]
  show "advance t s (Halt kind r) = Inl (HaltAfterTerminal (rs_outcome s) r)" for kind r
    using assms(3) by simp
  fix ev st assume "advance t s ev = Inr st"
  from topology_laws.terminal_absorbs [OF laws assms(2,3) this]
  obtain aid port r where st: "st = drop_event (work_of s) aid port r" .
  show "sp_outcome st = rs_outcome s" "sp_activations st = []" "sp_cancelled st = []"
    "rs_nodes (sp_state st) = rs_nodes s" "rs_slots (sp_state st) = rs_slots s"
    "rs_traversals (sp_state st) = rs_traversals s" "mset (rs_emissions (sp_state st)) = mset (rs_emissions s)"
    unfolding st topology_laws.drop_sel [OF laws] by simp_all
qed

end
