(* ===== verification/Validate_Properties.thy ===== *)
theory Validate_Properties
  imports Review_Loop
begin

text \<open>
  What acceptance by the validator means for the graph itself: its loop structure, its ports, its
  edges in the topology, and ADR-6 over every combination of models that its nodes can run with.
\<close>

section \<open>Edge ids name edges\<close>

lemma split_at:
  assumes "c \<notin> set a" "c \<notin> set a'" "a @ c # x = a' @ c # x'"
  shows "a = a' \<and> x = x'"
proof -
  have "takeWhile (\<lambda>y. y \<noteq> c) (b @ c # z) = b" if "c \<notin> set b" for b z
    using that by (induction b) auto
  from this [OF assms(1), of x] this [OF assms(2), of x'] assms(3) have "a = a'" by simp
  with assms(3) show ?thesis by simp
qed

lemma id_ok_plain: "id_ok s \<Longrightarrow> CHR ''.'' \<notin> set s \<and> CHR ''-'' \<notin> set s"
  by (cases s) (auto simp: id_ok_def list_all_iff id_rest_def lower_def is_digit_def)

lemma edge_id_inj:
  assumes "graph_edge_ok e" "graph_edge_ok e'" "edge_id e = edge_id e'"
  shows "edge_key e = edge_key e'"
proof -
  have ids: "id_ok (ge_source e)" "id_ok (ge_source_port e)" "id_ok (ge_target e)"
    "id_ok (ge_source e')" "id_ok (ge_source_port e')" "id_ok (ge_target e')"
    using assms(1,2) by (simp_all add: graph_edge_ok_def)
  note plain = ids [THEN id_ok_plain]
  have "ge_source e = ge_source e' \<and> ge_source_port e @ ''->'' @ ge_target e @ ''.'' @ ge_target_port e
      = ge_source_port e' @ ''->'' @ ge_target e' @ ''.'' @ ge_target_port e'"
    by (rule split_at [of "CHR ''.''"]) (use plain assms(3) in \<open>simp_all add: edge_id_def\<close>)
  moreover from this have "ge_source_port e = ge_source_port e' \<and> CHR ''>'' # ge_target e @ ''.'' @ ge_target_port e
      = CHR ''>'' # ge_target e' @ ''.'' @ ge_target_port e'"
    by (intro split_at [of "CHR ''-''"]) (use plain in simp_all)
  moreover from this have "ge_target e = ge_target e' \<and> ge_target_port e = ge_target_port e'"
    by (intro split_at [of "CHR ''.''"]) (use plain in simp_all)
  ultimately show ?thesis by (simp add: edge_key_def)
qed

lemma first_nodes_mem: "(i, n) \<in> set (first_nodes g) \<Longrightarrow> n \<in> set (pg_nodes g) \<and> gn_id n = i"
proof -
  have "set (foldl (\<lambda>d n. if gn_id n \<in> set (dict_keys d) then d else d @ [(gn_id n, n)]) acc ns)
      \<subseteq> set acc \<union> (\<lambda>n. (gn_id n, n)) ` set ns" for acc ns
  proof (induction ns arbitrary: acc)
    case (Cons n ns)
    show ?case
    proof (cases "gn_id n \<in> set (dict_keys acc)")
      case True
      with Cons.IH [of acc] show ?thesis by (simp del: set_map) blast
    next
      case False
      with Cons.IH [of "acc @ [(gn_id n, n)]"] show ?thesis by (simp del: set_map)
    qed
  qed simp
  from this [of "[]" "pg_nodes g"] show "(i, n) \<in> set (first_nodes g) \<Longrightarrow> n \<in> set (pg_nodes g) \<and> gn_id n = i"
    by (auto simp: first_nodes_def)
qed

context legal_graph
begin

lemma edge_id_distinct:
  assumes "list_all graph_edge_ok (pg_edges g)"
  shows "inj_on edge_id (set (pg_edges g))"
proof (rule inj_onI)
  fix e e' assume e: "e \<in> set (pg_edges g)" "e' \<in> set (pg_edges g)" "edge_id e = edge_id e'"
  with assms have "edge_key e = edge_key e'" by (auto intro: edge_id_inj simp: list_all_iff)
  with e distinct_edges show "e = e'" by (auto simp: distinct_map dest: inj_onD)
qed

lemma by_id_lookup:
  assumes "list_all graph_edge_ok (pg_edges g)" "e \<in> set (pg_edges g)"
  shows "edge_id e \<in> edge_set topo" "the_edge (edge_id e) = e"
proof -
  show m: "edge_id e \<in> edge_set topo" using assms(2) by (simp add: edge_set_topo edges_by_id_facts(2) del: set_map)
  have "the_edge (edge_id e) \<in> set (pg_edges g)" "edge_id (the_edge (edge_id e)) = edge_id e"
    using the_edge_mem [OF m] by simp_all
  with inj_onD [OF edge_id_distinct [OF assms(1)]] assms(2) show "the_edge (edge_id e) = e" by blast
qed

lemma distinct_pg_edges: "distinct (pg_edges g)"
  using distinct_edges by (simp add: distinct_map)

lemma topo_edges:
  assumes "list_all graph_edge_ok (pg_edges g)"
  shows "length (tp_edges topo) = length (pg_edges g)"
    "e \<in> set (pg_edges g) \<Longrightarrow> dict_get (tp_edges topo) (edge_id e) = Some (edge_key e) \<and>
       dict_get (tp_bounds topo) (edge_id e) = ge_max_traversals e"
proof -
  have "length (tp_edges topo) = card (set (dict_keys (edges_by_id g)))"
    using distinct_card [OF edges_by_id_facts(1) [of g]] by (simp add: tp_simps(2))
  also have "\<dots> = card (set (pg_edges g))"
    using card_image [OF edge_id_distinct [OF assms]] by (simp add: edges_by_id_facts(2) del: set_map)
  also have "\<dots> = length (pg_edges g)" using distinct_pg_edges by (rule distinct_card)
  finally show "length (tp_edges topo) = length (pg_edges g)" .
  assume e: "e \<in> set (pg_edges g)"
  note l = by_id_lookup [OF assms e]
  have "dict_get (edges_by_id g) (edge_id e) \<noteq> None" using l(1) by (simp add: edge_set_topo map_of_eq_None_iff)
  then have "dict_get (edges_by_id g) (edge_id e) = Some e" using l(2) by (auto simp: dict_at_def)
  then show "dict_get (tp_edges topo) (edge_id e) = Some (edge_key e) \<and> dict_get (tp_bounds topo) (edge_id e) = ge_max_traversals e"
    using l by (simp add: tp_simps(2) bounds_topo map_of_map)
qed

section \<open>Loop structure\<close>

abbreviation fwd_graph :: "(string \<times> string) set" where
  "fwd_graph \<equiv> {(ge_source e, ge_target e) | e. e \<in> set (pg_edges g) \<and> \<not> is_back_edge e}"

lemma adj_rel_fwd_graph: "adj_rel adj = fwd_graph"
proof -
  have "(u, v) \<in> adj_rel adj \<longleftrightarrow> (u, v) \<in> fwd_graph" for u v
  proof
    assume "(u, v) \<in> adj_rel adj"
    then show "(u, v) \<in> fwd_graph"
      unfolding adj_rel_iff set_forward_adjacency_succs by (auto split: if_splits)
  next
    assume "(u, v) \<in> fwd_graph"
    then obtain e where e: "e \<in> set (pg_edges g)" "\<not> is_back_edge e" "u = ge_source e" "v = ge_target e" by auto
    with edge_ok(1,2) [OF e(1)] show "(u, v) \<in> adj_rel adj"
      unfolding adj_rel_iff set_forward_adjacency_succs node_set_topo by auto
  qed
  then show ?thesis by (intro set_eqI) (auto simp del: adj_rel_iff)
qed

lemma entry_facts:
  "entry_nodes g (tp_node_ids topo) = [tp_entry topo]"
  "n \<in> node_set topo \<Longrightarrow> n \<in> set (forward_reach adj (tp_entry topo))"
proof -
  have top: "topology_problems g (tp_node_ids topo) = []" using groups_empty(5) by (simp add: tp_simps(1))
  note parts = top [unfolded topology_problems_def Let_def append_is_Nil_conv, THEN conjunct2, THEN conjunct2]
  have len: "length (entry_nodes g (tp_node_ids topo)) = 1" using parts by (simp split: if_splits)
  moreover have hd: "tp_entry topo = hd (entry_nodes g (tp_node_ids topo))" by (simp add: build_topology_def Let_def)
  ultimately show one: "entry_nodes g (tp_node_ids topo) = [tp_entry topo]"
    by (cases "entry_nodes g (tp_node_ids topo)") auto
  show "n \<in> node_set topo \<Longrightarrow> n \<in> set (forward_reach adj (tp_entry topo))"
    using parts one by (simp split: if_splits) blast
qed

section \<open>Ports\<close>

lemma node_ports_ok:
  assumes "n \<in> set (pg_nodes g)"
  shows "\<exists>sp. dict_get registry (gn_type n) = Some sp \<and>
       (\<forall>p \<in> set (nt_ports sp). np_direction p = In \<and> np_required p \<longrightarrow>
          (\<exists>e \<in> set (pg_edges g). \<not> is_back_edge e \<and> ge_target e = gn_id n \<and> ge_target_port e = np_name p))"
proof -
  let ?ns = "first_nodes g"
  have key: "gn_id n \<in> set (dict_keys ?ns)" using assms by (simp add: first_nodes_keys(1) del: set_map)
  have "(gn_id n, dict_at ?ns (gn_id n)) \<in> set ?ns" by (rule node_typed(3) [OF key])
  then have "dict_at ?ns (gn_id n) \<in> set (pg_nodes g)" "gn_id (dict_at ?ns (gn_id n)) = gn_id n"
    using first_nodes_mem by blast+
  with assms distinct_ids have n: "dict_at ?ns (gn_id n) = n" by (auto simp: distinct_map dest: inj_onD)
  obtain sp where sp: "dict_get registry (gn_type n) = Some sp" using node_typed(1) [OF key] n by auto
  have "\<exists>e \<in> set (pg_edges g). \<not> is_back_edge e \<and> ge_target e = gn_id n \<and> ge_target_port e = np_name p"
    if p: "p \<in> set (nt_ports sp)" "np_direction p = In" "np_required p" for p
  proof -
    have "in_port_problems g (gn_id n) p = []"
      using in_port_clean [OF key] p sp n by (simp add: node_spec_def dict_at_def)
    then have "filter (\<lambda>e. \<not> is_back_edge e) (classified (gn_id n) p) \<noteq> []"
      using p(3) unfolding in_port_problems_def Let_def append_is_Nil_conv classified_def
      by (simp add: no_duplicated split: if_splits)
    then obtain e where "e \<in> set (filter (\<lambda>e. \<not> is_back_edge e) (classified (gn_id n) p))"
      by (metis list.set_sel(1))
    then show ?thesis by (auto simp: classified_def)
  qed
  with sp show ?thesis by blast
qed

lemma edge_ports_ok:
  assumes "e \<in> set (pg_edges g)"
  shows "\<exists>op ip. find_port (node_spec (first_nodes g) registry (ge_source e)) (ge_source_port e) Out = Some op \<and>
       find_port (node_spec (first_nodes g) registry (ge_target e)) (ge_target_port e) In = Some ip \<and>
       ports_compatible op ip"
proof -
  obtain op ip where p: "find_port (node_spec (first_nodes g) registry (ge_source e)) (ge_source_port e) Out = Some op"
    "find_port (node_spec (first_nodes g) registry (ge_target e)) (ge_target_port e) In = Some ip"
    using edge_ok(3,4) [OF assms] by auto
  have "edge_reference_problems (first_nodes g) registry e = []"
    using groups_empty(2) assms by (simp add: reference_problems_def)
  then have "ports_compatible op ip"
    using p node_typed(2) [OF edge_ok(1) [OF assms]] node_typed(2) [OF edge_ok(2) [OF assms]]
    by (simp add: edge_reference_problems_def Let_def split: if_splits)
  with p show ?thesis by blast
qed

section \<open>ADR-6 over the models of the nodes\<close>

lemma adr6_clean: "adr6_problems (first_nodes g) registry roles = []"
  using groups_empty(3) by (simp add: node_config_problems_def)

lemma combos_clean:
  assumes "combo \<in> set (product_lists (map snd (role_choices (first_nodes g) registry roles)))"
  shows "validate_run_roles (zip (dict_keys (role_choices (first_nodes g) registry roles)) combo) = Inr ()"
proof -
  let ?names = "dict_keys (role_choices (first_nodes g) registry roles)"
  let ?msgs = "List.map_filter (combo_message ?names) (product_lists (map snd (role_choices (first_nodes g) registry roles)))"
  have "sorted_set ?msgs = []" using adr6_clean by (auto simp: adr6_problems_def Let_def split: if_splits)
  then have "?msgs = []" by (metis set_empty set_sorted_set)
  with assms have "combo_message ?names combo = None"
    by (auto simp: List.map_filter_def filter_empty_conv)
  then show ?thesis by (cases "validate_run_roles (zip ?names combo)") (auto simp: combo_message_def)
qed

end

lemma product_listsI: "list_all2 (\<lambda>x xs. x \<in> set xs) cs xss \<Longrightarrow> cs \<in> set (product_lists xss)"
  by (simp add: in_set_product_lists_length product_lists_set)

lemma set_first_nodes:
  assumes "distinct (map gn_id (pg_nodes g))"
  shows "set (map snd (first_nodes g)) = set (pg_nodes g)"
proof -
  have "map snd (foldl (\<lambda>d n. if gn_id n \<in> set (dict_keys d) then d else d @ [(gn_id n, n)]) acc ns) = map snd acc @ ns"
    if "distinct (dict_keys acc @ map gn_id ns)" for acc ns
    using that
  proof (induction ns arbitrary: acc)
    case (Cons n ns)
    then have "gn_id n \<notin> set (dict_keys acc)" by auto
    moreover from Cons.prems have "distinct (dict_keys (acc @ [(gn_id n, n)]) @ map gn_id ns)" by auto
    ultimately show ?case using Cons.IH [of "acc @ [(gn_id n, n)]"] by (simp del: set_map)
  qed simp
  from this [of "[]" "pg_nodes g"] assms show ?thesis by (simp add: first_nodes_def)
qed

text \<open>
  An assignment of models to roles that a run of the graph can have: a role that nodes use takes
  the effective model of one of these nodes, every other role the registry's model.
\<close>

definition run_assignment :: "pipeline_graph \<Rightarrow> registry \<Rightarrow> role_map \<Rightarrow> (string \<rightharpoonup> string) \<Rightarrow> bool" where
  "run_assignment g registry roles m \<longleftrightarrow>
     (\<forall>r. if \<exists>n \<in> set (pg_nodes g). \<exists>x. effective_model roles registry n = Some (r, x)
          then \<exists>n \<in> set (pg_nodes g). \<exists>x. effective_model roles registry n = Some (r, x) \<and> m r = Some x
          else m r = dict_get (role_models_of roles) r)"

context legal_graph
begin

lemma set_used_models:
  "set (used_models (first_nodes g) registry roles) = {p. \<exists>n \<in> set (pg_nodes g). effective_model roles registry n = Some p}"
proof -
  have "set (used_models (first_nodes g) registry roles)
      = {p. \<exists>n \<in> set (map snd (first_nodes g)). effective_model roles registry n = Some p}"
    unfolding used_models_def List.map_filter_def by (force simp: rev_image_eqI)
  then show ?thesis unfolding set_first_nodes [OF distinct_ids] .
qed

lemma role_choices_assignment:
  assumes m: "run_assignment g registry roles m"
    and rx: "(r, xs) \<in> set (role_choices (first_nodes g) registry roles)"
  shows "\<exists>x \<in> set xs. m r = Some x"
proof -
  let ?used = "used_models (first_nodes g) registry roles" and ?base = "role_models_of roles"
  from rx have r: "r \<in> set (dict_keys ?base @ map fst ?used)"
    and xs: "xs = (if r \<in> fst ` set ?used then sorted_set (map snd (filter (\<lambda>(r', _). r' = r) ?used)) else [dict_at ?base r])"
    unfolding role_choices_def Let_def set_map [of "\<lambda>r. (r, _ r)"] set_sorted_set by (blast, blast)
  show ?thesis
  proof (cases "r \<in> fst ` set ?used")
    case True
    then have "\<exists>n \<in> set (pg_nodes g). \<exists>x. effective_model roles registry n = Some (r, x)"
      unfolding set_used_models by (elim imageE CollectE bexE) (metis prod.collapse)
    with m [unfolded run_assignment_def, rule_format, of r]
    obtain n x where "n \<in> set (pg_nodes g)" "effective_model roles registry n = Some (r, x)" "m r = Some x"
      by auto
    then have "(r, x) \<in> set ?used" unfolding set_used_models by blast
    then have "x \<in> set xs" unfolding xs using True by (auto intro!: rev_image_eqI)
    with \<open>m r = Some x\<close> show ?thesis by blast
  next
    case False
    then have "\<not> (\<exists>n \<in> set (pg_nodes g). \<exists>x. effective_model roles registry n = Some (r, x))"
      unfolding set_used_models image_iff by force
    with m [unfolded run_assignment_def, rule_format, of r] have "m r = dict_get ?base r" by simp
    moreover have "dict_get ?base r \<noteq> None" using r False by (auto simp: map_of_eq_None_iff)
    ultimately show ?thesis using xs False by (auto simp: dict_at_def)
  qed
qed

lemma role_choices_keys:
  assumes m: "run_assignment g registry roles m" and r: "m r \<noteq> None"
  shows "r \<in> set (dict_keys (role_choices (first_nodes g) registry roles))"
proof -
  let ?used = "used_models (first_nodes g) registry roles" and ?base = "role_models_of roles"
  have "r \<in> fst ` set ?used \<or> dict_get ?base r \<noteq> None"
  proof (cases "\<exists>n \<in> set (pg_nodes g). \<exists>x. effective_model roles registry n = Some (r, x)")
    case True
    then obtain n x where "n \<in> set (pg_nodes g)" "effective_model roles registry n = Some (r, x)" by blast
    then have "(r, x) \<in> set ?used" unfolding set_used_models by blast
    then show ?thesis by (auto simp: rev_image_eqI)
  next
    case False
    with m [unfolded run_assignment_def, rule_format, of r] r show ?thesis by simp
  qed
  then have "r \<in> set (sorted_set (dict_keys ?base @ map fst ?used))"
    by (auto simp: map_of_eq_None_iff rev_image_eqI dest!: map_of_SomeD)
  then show ?thesis unfolding role_choices_def Let_def dict_keys_map_pair .
qed

lemma adr6_assignment:
  assumes m: "run_assignment g registry roles m"
  shows "adr6_ok m"
proof -
  let ?rc = "role_choices (first_nodes g) registry roles"
  let ?combo = "map (\<lambda>r. the (m r)) (dict_keys ?rc)"
  have "list_all2 (\<lambda>x xs. x \<in> set xs) ?combo (map snd ?rc)"
    unfolding list_all2_map1 list_all2_map2
    by (rule list.rel_refl_strong) (use role_choices_assignment [OF m] in force)
  then have "validate_run_roles (zip (dict_keys ?rc) ?combo) = Inr ()"
    by (intro combos_clean product_listsI)
  then have "adr6_ok (dict_get (zip (dict_keys ?rc) ?combo))" by (simp only: validate_run_roles_ok)
  moreover have "dict_get (zip (dict_keys ?rc) ?combo) = m"
  proof
    fix r
    have zip: "zip (dict_keys ?rc) ?combo = map (\<lambda>r. (r, the (m r))) (dict_keys ?rc)"
      by (rule nth_equalityI) simp_all
    show "dict_get (zip (dict_keys ?rc) ?combo) r = m r"
    proof (cases "r \<in> set (dict_keys ?rc)")
      case True
      then have "m r \<noteq> None" using role_choices_assignment [OF m] by force
      then show ?thesis unfolding zip map_of_map_pair [OF True] by simp
    next
      case False
      with role_choices_keys [OF m, of r] show ?thesis
        unfolding zip by (metis dict_keys_map_pair map_of_eq_None_iff set_map)
    qed
  qed
  ultimately show ?thesis by simp
qed

end

section \<open>Elements already in normal order\<close>

lemma sort_key_strict:
  assumes "sorted_wrt (<) (map f xs)" "\<And>x y. f x < f y \<Longrightarrow> k x \<le> k y"
  shows "sort_key k xs = xs"
proof (rule sort_key_id_if_sorted)
  show "sorted (map k xs)"
    unfolding sorted_map by (rule sorted_wrt_mono_rel [OF _ assms(1) [unfolded sorted_wrt_map]]) (rule assms(2))
qed

lemma sort_nodes_id: "sorted_wrt (<) (map gn_id ns) \<Longrightarrow> sort_nodes ns = ns"
  unfolding sort_nodes_def by (rule sort_key_strict) (auto simp: node_sort_key_def less_eq_prod_def less_prod_def)

lemma sort_edges_id: "sorted_wrt (<) (map edge_endpoints es) \<Longrightarrow> sort_edges es = es"
  unfolding sort_edges_def by (rule sort_key_strict) (auto simp: edge_sort_key_def less_eq_prod_def less_prod_def)

section \<open>Properties of the validator\<close>

text \<open>C5: acceptance means bounded loops. The forward edges of an accepted graph form no cycle, every
  bounded edge closes a cycle of forward edges, the node named as entry is the only one without a
  forward in-edge, and every node is reachable from it by forward edges.\<close>

theorem legal_graph_structure:
  assumes "from_graph check_model g registry roles = Inr t"
  defines "fwd \<equiv> {(ge_source e, ge_target e) | e. e \<in> set (pg_edges g) \<and> \<not> is_back_edge e}"
  shows "acyclic fwd
    \<and> (\<forall>e \<in> set (pg_edges g). is_back_edge e \<longrightarrow> (ge_target e, ge_source e) \<in> fwd\<^sup>*)
    \<and> {n \<in> gn_id ` set (pg_nodes g). \<nexists>m. (m, n) \<in> fwd} = {tp_entry t}
    \<and> (\<forall>n \<in> gn_id ` set (pg_nodes g). (tp_entry t, n) \<in> fwd\<^sup>*)"
proof -
  note lg = from_graph_legal(1) [OF assms(1)]
  note t = from_graph_legal(2) [OF assms(1)]
  note adj = legal_graph.adj_rel_fwd_graph [OF lg, folded fwd_def]
  note clean = legal_graph.topology_clean [OF lg]
  have nodes: "set (tp_node_ids t) = gn_id ` set (pg_nodes g)"
    unfolding t legal_graph.node_set_topo [OF lg] by (rule first_nodes_keys(1))
  have acyc: "acyclic fwd" using forward_cycles_Nil_acyclic [OF clean(1)] by (simp only: adj)
  have loops: "(ge_target e, ge_source e) \<in> fwd\<^sup>*" if "e \<in> set (pg_edges g)" "is_back_edge e" for e
    using clean(2) [OF that] unfolding set_forward_reach adj by simp
  have reach: "(tp_entry t, n) \<in> fwd\<^sup>*" if "n \<in> gn_id ` set (pg_nodes g)" for n
    using legal_graph.entry_facts(2) [OF lg, of n] that unfolding t [symmetric] nodes set_forward_reach
    by (simp add: legal_graph.adj_rel_fwd_graph [OF lg, folded fwd_def t])
  have "set (entry_nodes g (tp_node_ids t)) = {n \<in> gn_id ` set (pg_nodes g). \<nexists>m. (m, n) \<in> fwd}"
    unfolding entry_nodes_def set_filter nodes by (auto simp: fwd_def)
  then have "{n \<in> gn_id ` set (pg_nodes g). \<nexists>m. (m, n) \<in> fwd} = {tp_entry t}"
    using legal_graph.entry_facts(1) [OF lg, folded t] by simp
  with acyc loops reach show ?thesis by blast
qed

theorem legal_graph_structure_witness:
  "acyclic {(ge_source e, ge_target e) | e. e \<in> set (pg_edges review_graph) \<and> \<not> is_back_edge e}"
  using legal_graph_structure [OF review_from_graph] by (rule conjunct1)

text \<open>C6: ADR-6 survives per-node overrides. On an accepted graph, whichever of its nodes supplies the
  model of a role, the developer's family differs from the reviewer's and the deep reviewer's and
  the adversary's model is neither the developer's nor the reviewer's.\<close>

theorem legal_graph_adr6:
  assumes "from_graph check_model g registry roles = Inr t" "run_assignment g registry roles m"
  shows "adr6_ok m"
  by (rule legal_graph.adr6_assignment [OF from_graph_legal(1) [OF assms(1)] assms(2)])

theorem legal_graph_adr6_witness:
  "adr6_ok (dict_get (role_models_of review_roles))"
proof (rule legal_graph_adr6 [OF review_from_graph])
  have "\<forall>p \<in> set (List.map_filter (effective_model review_roles NODE_TYPES) (pg_nodes review_graph)).
      dict_get (role_models_of review_roles) (fst p) = Some (snd p)" by code_simp
  then have same: "dict_get (role_models_of review_roles) r = Some x"
    if "n \<in> set (pg_nodes review_graph)" "effective_model review_roles NODE_TYPES n = Some (r, x)" for n r x
    using that by (force simp: List.map_filter_def image_iff)
  show "run_assignment review_graph NODE_TYPES review_roles (dict_get (role_models_of review_roles))"
    unfolding run_assignment_def using same by (metis (full_types))
qed

text \<open>The topology loses no edge. For a graph built from shape-checked elements, the topology has
  exactly as many edges as the graph, and looks every edge up under its id with its four endpoints
  and its loop bound; distinct edges have distinct ids.\<close>

lemma topology_keeps_edges:
  assumes "mk_graph v ns es = Some g" "from_graph check_model g registry roles = Inr t"
  shows "length (tp_edges t) = length (pg_edges g) \<and> inj_on edge_id (set (pg_edges g)) \<and>
    (\<forall>e \<in> set (pg_edges g). dict_get (tp_edges t) (edge_id e) = Some (edge_key e) \<and>
       dict_get (tp_bounds t) (edge_id e) = ge_max_traversals e)"
proof -
  note lg = from_graph_legal(1) [OF assms(2)]
  have ok: "list_all graph_edge_ok (pg_edges g)"
    using assms(1) by (auto simp: mk_graph_def sort_edges_def list_all_iff split: if_splits)
  show ?thesis
    using legal_graph.topo_edges [OF lg ok] legal_graph.edge_id_distinct [OF lg ok]
    by (simp add: from_graph_legal(2) [OF assms(2)])
qed

text \<open>C7: on an accepted graph every required in-port of every node has a forward in-edge, and every
  edge joins a declared out-port to a declared in-port that accepts its payload.\<close>

theorem legal_graph_ports:
  assumes "from_graph check_model g registry roles = Inr t"
  shows "(\<forall>n \<in> set (pg_nodes g). \<exists>sp. dict_get registry (gn_type n) = Some sp \<and>
       (\<forall>p \<in> set (nt_ports sp). np_direction p = In \<and> np_required p \<longrightarrow>
          (\<exists>e \<in> set (pg_edges g). \<not> is_back_edge e \<and> ge_target e = gn_id n \<and> ge_target_port e = np_name p)))
    \<and> (\<forall>e \<in> set (pg_edges g). \<exists>op ip.
       find_port (node_spec (first_nodes g) registry (ge_source e)) (ge_source_port e) Out = Some op \<and>
       find_port (node_spec (first_nodes g) registry (ge_target e)) (ge_target_port e) In = Some ip \<and>
       ports_compatible op ip)"
  using legal_graph.node_ports_ok [OF from_graph_legal(1) [OF assms]]
    legal_graph.edge_ports_ok [OF from_graph_legal(1) [OF assms]] by blast

theorem legal_graph_ports_witness:
  "\<exists>op ip. find_port (node_spec (first_nodes review_graph) NODE_TYPES ''intake'') ''ok'' Out = Some op \<and>
     find_port (node_spec (first_nodes review_graph) NODE_TYPES ''clarify'') ''trigger'' In = Some ip \<and>
     ports_compatible op ip"
proof -
  have "plain_edge ''intake'' ''ok'' ''clarify'' ''trigger'' None \<in> set (pg_edges review_graph)"
    by (simp add: review_graph_def)
  with legal_graph_ports [OF review_from_graph, THEN conjunct2] show ?thesis
    by (fastforce simp: plain_edge_def)
qed

text \<open>A report is all or nothing. It carries a topology exactly when it carries no problem; the
  problems are all those found, in the order of \<open>sort_key\<close>; and \<open>from_graph\<close> raises them.\<close>

lemma validate_report:
  "let r = validate check_model g registry roles in
     (vr_topology r = None \<longleftrightarrow> vr_problems r \<noteq> []) \<and>
     mset (vr_problems r) = mset (all_problems check_model g registry roles) \<and>
     sorted (map problem_sort_key (vr_problems r)) \<and>
     from_graph check_model g registry roles =
       (case vr_topology r of None \<Rightarrow> Inl (vr_problems r) | Some t \<Rightarrow> Inr t)"
proof -
  have "mset (sort_key problem_sort_key (all_problems check_model g registry roles))
      = mset (all_problems check_model g registry roles)" by simp
  moreover have "sort_key problem_sort_key xs = [] \<longleftrightarrow> xs = []" for xs by (metis length_0_conv length_sort)
  ultimately show ?thesis unfolding validate_def from_graph_def Let_def by auto
qed

end
