(* ===== verification/Run_View.thy ===== *)
theory Run_View
  imports Node_Types Graph_Router
begin

text \<open>
  The run view of \<open>graph/run_view.py\<close>: per-activation facts, the pending decisions joined to
  activations, and the pure projections that the workflow and the dashboard share. Times are
  microseconds since an epoch; a missing key of a dictionary read \<open>d[k]\<close> is None where the code
  documents the \<open>KeyError\<close>.
\<close>

section \<open>Facts and views\<close>

datatype node_run_status = RIdle | RRunning | RBlocked | RDone | RFailed | RStale | RSkipped | RCancelled

datatype wire_kind = WGate | WClarify | WEscalation

datatype dot_state = DPending | DActive | DBlocked | DDone | DFailed | DSkipped

definition PENDING_KINDS :: "(string, wire_kind) dict" where
  "PENDING_KINDS = [(''clarify'', WClarify), (''merge_gate'', WGate), (''stage_gate'', WGate),
     (''task_escalation'', WEscalation)]"

definition pending_kind :: "string \<Rightarrow> wire_kind option" where
  "pending_kind decision_kind = dict_get PENDING_KINDS decision_kind"

record activation_facts =
  af_started_at :: int
  af_ended_at :: "int option"
  af_cost_usd :: pyfloat
  af_priced :: bool

record pending_fact =
  pf_key :: string
  pf_activation_id :: "string option"
  pf_kind :: wire_kind

record unrouted_failure =
  uf_activation_id :: string
  uf_error_type :: string

record graph_run_view =
  gv_graph_sha :: string
  gv_state :: router_state
  gv_activations :: "(string, activation_facts) dict"
  gv_pending :: "pending_fact list"
  gv_result :: "string option"
  gv_escalated_by :: "string option"
  gv_unrouted_failure :: "unrouted_failure option"

text \<open>Construction runs the field validators: activations and pendings are sorted by key.\<close>

definition mk_view ::
    "string \<Rightarrow> router_state \<Rightarrow> (string, activation_facts) dict \<Rightarrow> pending_fact list \<Rightarrow> string option \<Rightarrow>
     string option \<Rightarrow> unrouted_failure option \<Rightarrow> graph_run_view" where
  "mk_view sha st acts pend res esc unr =
     \<lparr>gv_graph_sha = sha, gv_state = st, gv_activations = dict_sorted acts,
      gv_pending = sort_key pf_key pend, gv_result = res, gv_escalated_by = esc,
      gv_unrouted_failure = unr\<rparr>"

record run_outcome_rec =
  ro_state :: outcome
  ro_reason :: "string option"
  ro_result :: "string option"

definition latest_activation :: "string \<Rightarrow> router_state \<Rightarrow> string option" where
  "latest_activation node_id state =
     (let rnd = ns_round (the (rs_nodes state node_id))
      in if rnd > 0 then Some (gate_key node_id (int rnd)) else None)"

section \<open>Projections\<close>

definition node_status :: "string \<Rightarrow> graph_run_view \<Rightarrow> topology \<Rightarrow> bool \<Rightarrow> node_run_status" where
  "node_status node_id view t closed =
     (let ns = the (rs_nodes (gv_state view) node_id);
          aid = latest_activation node_id (gv_state view) in
      case ns_status ns of
        NDead \<Rightarrow> RSkipped
      | NPending \<Rightarrow> if ns_round ns > 0 then RStale else RIdle
      | NRunning \<Rightarrow>
          if aid \<noteq> None \<and> aid = gv_escalated_by view then RFailed
          else if rs_outcome (gv_state view) \<noteq> ORunning \<or> closed then RCancelled
          else if list_ex (\<lambda>p. pf_activation_id p = aid) (gv_pending view) then RBlocked
          else RRunning
      | NDone \<Rightarrow>
          let port = (case ns_taken_port ns of None \<Rightarrow> [] | Some p \<Rightarrow> p) in
          if port = ''fail'' \<or> dict_get (dict_get_or (tp_terminal_ports t) node_id []) port = Some TFailed
          then RFailed else RDone)"

definition node_cost :: "string \<Rightarrow> graph_run_view \<Rightarrow> node_type_spec option \<Rightarrow> pyfloat option" where
  "node_cost node_id view spec =
     (case spec of
        None \<Rightarrow> None
      | Some sp \<Rightarrow>
          if nt_role sp = None then None
          else case latest_activation node_id (gv_state view) of
            None \<Rightarrow> None
          | Some aid \<Rightarrow>
              (case dict_get (gv_activations view) aid of
                 None \<Rightarrow> None
               | Some facts \<Rightarrow> if af_priced facts then Some (af_cost_usd facts) else None))"

text \<open>An optional string in an f-string.\<close>

definition opt_str :: "string option \<Rightarrow> string" where
  "opt_str x = (case x of None \<Rightarrow> ''None'' | Some s \<Rightarrow> s)"

definition run_outcome :: "graph_run_view option \<Rightarrow> bool \<Rightarrow> string option \<Rightarrow> run_outcome_rec" where
  "run_outcome view closed close_status =
     (let failed = (\<lambda>r. \<lparr>ro_state = OFailed, ro_reason = Some r, ro_result = None\<rparr>);
          running = \<lparr>ro_state = ORunning, ro_reason = None, ro_result = None\<rparr> in
      case view of
        None \<Rightarrow> if closed then failed (''not_started:'' @ opt_str close_status) else running
      | Some v \<Rightarrow>
          (case gv_unrouted_failure v of
             Some u \<Rightarrow> failed (node_of (uf_activation_id u) @ ''.fail: '' @ uf_error_type u)
           | None \<Rightarrow>
               if rs_outcome (gv_state v) = ORunning
               then (if closed then failed (''interrupted:'' @ opt_str close_status) else running)
               else \<lparr>ro_state = rs_outcome (gv_state v), ro_reason = rs_reason (gv_state v),
                     ro_result = gv_result v\<rparr>))"

fun DOT :: "node_run_status \<Rightarrow> dot_state" where
  "DOT RIdle = DPending"
| "DOT RStale = DPending"
| "DOT RRunning = DActive"
| "DOT RBlocked = DBlocked"
| "DOT RDone = DDone"
| "DOT RFailed = DFailed"
| "DOT RCancelled = DFailed"
| "DOT RSkipped = DSkipped"

text \<open>\<open>_RANK\<close> has no entry for \<open>skipped\<close>; it is only read for the other marks.\<close>

fun RANK :: "dot_state \<Rightarrow> nat" where
  "RANK DPending = 0"
| "RANK DDone = 1"
| "RANK DActive = 2"
| "RANK DBlocked = 3"
| "RANK DFailed = 4"
| "RANK DSkipped = 5"

text \<open>\<open>max(dots, key=...)\<close> of a list that is not empty: the first maximal element.\<close>

fun max_rank :: "dot_state \<Rightarrow> dot_state list \<Rightarrow> dot_state" where
  "max_rank m [] = m"
| "max_rank m (d # ds) = max_rank (if RANK m < RANK d then d else m) ds"

text \<open>\<open>by_stage.setdefault(stage, []).append(dot)\<close>.\<close>

definition add_dot :: "string \<Rightarrow> dot_state \<Rightarrow> (string, dot_state list) dict \<Rightarrow> (string, dot_state list) dict" where
  "add_dot st d m = AList.update st (dict_get_or m st [] @ [d]) m"

definition stage_mark :: "dot_state list \<Rightarrow> dot_state" where
  "stage_mark ds =
     (case filter (\<lambda>d. d \<noteq> DSkipped) ds of [] \<Rightarrow> DSkipped | x # xs \<Rightarrow> max_rank x xs)"

definition stage_marks ::
    "graph_run_view \<Rightarrow> topology \<Rightarrow> pipeline_graph \<Rightarrow> registry \<Rightarrow> bool \<Rightarrow> (string, dot_state) dict" where
  "stage_marks view t graph reg closed =
     (let by_stage = foldl (\<lambda>m n. add_dot (resolve_stage (gn_type n) reg)
                                   (DOT (node_status (gn_id n) view t closed)) m) [] (pg_nodes graph)
      in map (\<lambda>name. (name, stage_mark (dict_at by_stage name))) (sort (dict_keys by_stage)))"

definition close_mark :: "dot_state \<Rightarrow> dot_state" where
  "close_mark v = (if v = DActive \<or> v = DBlocked then DFailed else v)"

definition close_marks :: "(string, dot_state) dict \<Rightarrow> (string, dot_state) dict" where
  "close_marks marks = map (\<lambda>(k, v). (k, close_mark v)) (dict_sorted marks)"

fun input_refs :: "input \<Rightarrow> string list" where
  "input_refs (OneRef r) = [r]"
| "input_refs (ManyRefs rs) = rs"

definition fail_reentry :: "activation \<Rightarrow> topology \<Rightarrow> nat option" where
  "fail_reentry act t =
     (let wiring = dict_get_or (tp_in_ports t) (ac_node_id act) [];
          has_fail_back = list_ex (\<lambda>(_, w). list_ex (\<lambda>eid. fst (snd (dict_at (tp_edges t) eid)) = ''fail'')
                                              (pw_back_edges w)) wiring;
          is_fail = (\<lambda>r. snd (snd (rpartition (CHR ''.'') r)) = ''fail'') in
      if \<not> has_fail_back then None
      else if list_ex (\<lambda>(_, v). list_ex is_fail (input_refs v)) (ac_inputs act) then Some 1 else Some 0)"

section \<open>Marks of a stage\<close>

lemma RANK_inject [simp]: "RANK a = RANK b \<longleftrightarrow> a = b"
  by (cases a; cases b; simp)

lemma max_rank_mem: "max_rank m ds \<in> set (m # ds)"
  by (induction ds arbitrary: m) (auto split: if_splits)

lemma max_rank_base: "RANK m \<le> RANK (max_rank m ds)"
proof (induction ds arbitrary: m)
  case (Cons a ds)
  show ?case using Cons [of m] Cons [of a] by auto
qed simp

lemma max_rank_ge: "d \<in> set (m # ds) \<Longrightarrow> RANK d \<le> RANK (max_rank m ds)"
proof (induction ds arbitrary: m)
  case (Cons a ds)
  show ?case
    using Cons.IH [of m] Cons.IH [of a] Cons.prems max_rank_base [of m ds] max_rank_base [of a ds] by auto
qed simp

text \<open>The mark of a stage: skipped exactly when every dot is, else the dot of the highest rank.\<close>

lemma stage_mark_iff:
  "stage_mark ds = d \<longleftrightarrow>
     (if \<forall>x \<in> set ds. x = DSkipped then d = DSkipped
      else d \<in> set ds \<and> d \<noteq> DSkipped \<and> (\<forall>x \<in> set ds. x \<noteq> DSkipped \<longrightarrow> RANK x \<le> RANK d))"
proof (cases "filter (\<lambda>d. d \<noteq> DSkipped) ds")
  case Nil
  then show ?thesis by (auto simp: stage_mark_def filter_empty_conv)
next
  case (Cons x xs)
  have dots: "set (x # xs) = {y \<in> set ds. y \<noteq> DSkipped}" using arg_cong [OF Cons, of set] by auto
  let ?m = "max_rank x xs"
  have m: "?m \<in> set ds" "?m \<noteq> DSkipped" using max_rank_mem [of x xs] unfolding dots by auto
  have ge: "RANK y \<le> RANK ?m" if "y \<in> set ds" "y \<noteq> DSkipped" for y
    by (rule max_rank_ge) (use that dots in blast)
  have "d = ?m" if "d \<in> set ds" "d \<noteq> DSkipped" "\<forall>x \<in> set ds. x \<noteq> DSkipped \<longrightarrow> RANK x \<le> RANK d"
  proof -
    have "RANK ?m \<le> RANK d" "RANK d \<le> RANK ?m" using that m ge by auto
    then have "RANK d = RANK ?m" by simp
    then show ?thesis by simp
  qed
  moreover have "stage_mark ds = ?m" by (simp add: stage_mark_def Cons)
  ultimately show ?thesis using m ge by auto
qed

lemma close_mark_max: "close_mark (max_rank m ds) = max_rank (close_mark m) (map close_mark ds)"
  if "DSkipped \<notin> set (m # ds)"
  using that
proof (induction ds arbitrary: m)
  case (Cons d ds)
  have "close_mark (if RANK m < RANK d then d else m)
      = (if RANK (close_mark m) < RANK (close_mark d) then close_mark d else close_mark m)"
    using Cons.prems by (cases m; cases d) (simp_all add: close_mark_def)
  with Cons show ?case by simp
qed simp

lemma close_mark_skipped [simp]: "close_mark d = DSkipped \<longleftrightarrow> d = DSkipped"
  by (cases d) (simp_all add: close_mark_def)

lemma close_mark_stage: "close_mark (stage_mark ds) = stage_mark (map close_mark ds)"
proof -
  have "filter (\<lambda>d. d \<noteq> DSkipped) (map close_mark ds) = map close_mark (filter (\<lambda>d. d \<noteq> DSkipped) ds)"
    by (simp add: filter_map o_def)
  moreover have "DSkipped \<notin> set (filter (\<lambda>d. d \<noteq> DSkipped) ds)" by auto
  ultimately show ?thesis
    by (cases "filter (\<lambda>d. d \<noteq> DSkipped) ds") (auto simp: stage_mark_def close_mark_max simp del: filter_map)
qed

text \<open>Dots grouped by stage.\<close>

definition stage_dots :: "('n \<Rightarrow> string) \<Rightarrow> ('n \<Rightarrow> dot_state) \<Rightarrow> 'n list \<Rightarrow> (string, dot_state list) dict" where
  "stage_dots st dot ns = foldl (\<lambda>m n. add_dot (st n) (dot n) m) [] ns"

lemma stage_dots_snoc: "stage_dots st dot (ns @ [n]) = add_dot (st n) (dot n) (stage_dots st dot ns)"
  by (simp add: stage_dots_def)

lemma stage_dots_get:
  "dict_get_or (stage_dots st dot ns) s [] = map dot (filter (\<lambda>n. st n = s) ns)"
proof (induction ns rule: rev_induct)
  case Nil
  then show ?case by (simp add: stage_dots_def dict_get_or_def)
next
  case (snoc n ns)
  then show ?case
    by (cases "st n = s") (auto simp: stage_dots_snoc add_dot_def dict_get_or_def update_conv')
qed

lemma add_dot_keys: "dict_keys (add_dot s d m) = (if s \<in> set (dict_keys m) then dict_keys m else dict_keys m @ [s])"
  by (simp add: add_dot_def update_keys)

lemma stage_dots_keys: "dict_keys (stage_dots st dot ns) = dict_keys (stage_dots st dot' ns)"
  by (induction ns rule: rev_induct) (simp_all add: stage_dots_snoc add_dot_keys stage_dots_def del: set_map)

lemma stage_dots_key_set: "set (dict_keys (stage_dots st dot ns)) = st ` set ns"
proof (induction ns rule: rev_induct)
  case Nil
  then show ?case by (simp add: stage_dots_def)
next
  case (snoc n ns)
  then show ?case unfolding stage_dots_snoc add_dot_keys by auto
qed

lemma stage_dots_distinct: "distinct (dict_keys (stage_dots st dot ns))"
proof (induction ns rule: rev_induct)
  case Nil
  then show ?case by (simp add: stage_dots_def)
next
  case (snoc n ns)
  then show ?case unfolding stage_dots_snoc add_dot_keys by auto
qed

lemma stage_dots_at:
  assumes "s \<in> st ` set ns"
  shows "dict_at (stage_dots st dot ns) s = map dot (filter (\<lambda>n. st n = s) ns)"
proof -
  have "s \<in> set (dict_keys (stage_dots st dot ns))" using assms unfolding stage_dots_key_set .
  then obtain v where "map_of (stage_dots st dot ns) s = Some v"
    by (metis map_of_eq_None_iff not_None_eq set_map)
  with stage_dots_get [of st dot ns s] show ?thesis by (simp add: dict_at_def dict_get_or_def)
qed

abbreviation node_stage :: "registry \<Rightarrow> graph_node \<Rightarrow> string" where
  "node_stage reg n \<equiv> resolve_stage (gn_type n) reg"

lemma stage_marks_dots:
  "stage_marks view t g reg closed =
     (let dots = stage_dots (node_stage reg) (\<lambda>n. DOT (node_status (gn_id n) view t closed)) (pg_nodes g)
      in map (\<lambda>name. (name, stage_mark (dict_at dots name))) (sort (dict_keys dots)))"
  by (simp add: stage_marks_def stage_dots_def)

lemma close_status: "DOT (node_status n view t True) = close_mark (DOT (node_status n view t False))"
  by (auto simp: node_status_def Let_def close_mark_def split: node_status.splits)

lemma stage_marks_keys:
  "dict_keys (stage_marks view t g reg closed)
     = sort (dict_keys (stage_dots (node_stage reg) (\<lambda>n. DOT (node_status (gn_id n) view t closed)) (pg_nodes g)))"
  by (simp add: stage_marks_dots Let_def o_def)

section \<open>Properties\<close>

text \<open>The stage marks of a run follow the documented priority. A stage has a mark exactly when
  some node of the graph contributes to it (an unmapped node contributes to the unknown stage);
  the mark is \<open>skipped\<close> exactly when every contributing node is, and otherwise it is the mark of a
  contributing node that no other outranks, failed before blocked before active before done
  before pending.\<close>

lemma stage_marks_priority:
  "dict_get (stage_marks view t g reg closed) name = Some mark \<longleftrightarrow>
     (let dots = map (\<lambda>n. DOT (node_status (gn_id n) view t closed))
                   (filter (\<lambda>n. resolve_stage (gn_type n) reg = name) (pg_nodes g))
      in dots \<noteq> [] \<and>
         (if set dots = {DSkipped} then mark = DSkipped
          else mark \<in> set dots - {DSkipped} \<and> Max (RANK ` (set dots - {DSkipped})) = RANK mark))"
proof -
  let ?dot = "\<lambda>n. DOT (node_status (gn_id n) view t closed)"
  let ?D = "stage_dots (node_stage reg) ?dot (pg_nodes g)"
  let ?dots = "map ?dot (filter (\<lambda>n. node_stage reg n = name) (pg_nodes g))"
  have get: "dict_get (stage_marks view t g reg closed) name
      = (if name \<in> set (dict_keys ?D) then Some (stage_mark (dict_at ?D name)) else None)"
    by (simp add: stage_marks_dots Let_def map_of_map_restrict restrict_map_def del: set_map)
  have ne: "name \<in> set (dict_keys ?D) \<longleftrightarrow> ?dots \<noteq> []"
    unfolding stage_dots_key_set by (auto simp: filter_empty_conv)
  have at: "dict_at ?D name = ?dots" if "?dots \<noteq> []"
    by (rule stage_dots_at) (use that ne stage_dots_key_set in blast)
  have mark: "stage_mark ds = mark \<longleftrightarrow> (if set ds = {DSkipped} then mark = DSkipped
       else mark \<in> set ds - {DSkipped} \<and> Max (RANK ` (set ds - {DSkipped})) = RANK mark)" if "ds \<noteq> []" for ds
  proof -
    have "(\<forall>x \<in> set ds. x = DSkipped) \<longleftrightarrow> set ds = {DSkipped}" using that by (cases ds) auto
    moreover have "Max (RANK ` (set ds - {DSkipped})) = RANK mark \<longleftrightarrow> (\<forall>x \<in> set ds. x \<noteq> DSkipped \<longrightarrow> RANK x \<le> RANK mark)"
      if "mark \<in> set ds - {DSkipped}"
      using that by (subst Max_eq_iff) auto
    ultimately show ?thesis unfolding stage_mark_iff by auto
  qed
  show ?thesis unfolding get ne Let_def using at mark [of ?dots] by auto
qed

text \<open>Closing the marks of an open run gives the marks of the closed run. The adjustment the
  dashboard applies to marks computed while the run was open agrees with computing the marks
  from the view of the closed execution.\<close>

lemma close_marks_agree:
  "close_marks (stage_marks view t g reg False) = stage_marks view t g reg True"
proof -
  let ?D = "\<lambda>c. stage_dots (node_stage reg) (\<lambda>n. DOT (node_status (gn_id n) view t c)) (pg_nodes g)"
  have keys: "dict_keys (?D True) = dict_keys (?D False)" by (rule stage_dots_keys)
  have marks: "stage_mark (dict_at (?D True) s) = close_mark (stage_mark (dict_at (?D False) s))"
    if "s \<in> set (dict_keys (?D False))" for s
    using that unfolding stage_dots_key_set
    by (simp add: stage_dots_at close_mark_stage close_status o_def)
  have sorted: "dict_sorted (stage_marks view t g reg False) = stage_marks view t g reg False"
    unfolding dict_sorted_def by (rule sort_key_id_if_sorted) (unfold stage_marks_keys, simp)
  show ?thesis
    unfolding close_marks_def sorted
    by (simp add: stage_marks_dots Let_def keys marks del: set_map)
qed

end
