(* ===== verification/Router_Effects.thy ===== *)
theory Router_Effects
  imports Router_Reach Run_View
begin

text \<open>
  What one step of the router does to the activations that are live and to the payload references
  that are in flight: the part of its contract that the dispatcher relies on. New live activations
  are exactly announced by the step, the emitter is no longer live, and every reference that a
  step hands to an activation was in a slot before or is the one just emitted.
\<close>

section \<open>References in flight\<close>

definition slot_refs :: "(string \<rightharpoonup> token) \<Rightarrow> string set" where
  "slot_refs slots = {tk_payload_ref tok | e tok. slots e = Some tok}"

definition act_refs :: "activation \<Rightarrow> string set" where
  "act_refs a = {r. \<exists>(q, v) \<in> set (ac_inputs a). r \<in> set (input_refs v)}"

abbreviation act_ids :: "activation list \<Rightarrow> string set" where
  "act_ids acts \<equiv> ac_activation_id ` set acts"

abbreviation state_live :: "router_state \<Rightarrow> string set" where
  "state_live s \<equiv> la_activation_id ` set (rs_live s)"

lemma slot_refsI: "m e = Some tok \<Longrightarrow> tk_payload_ref tok \<in> slot_refs m"
  unfolding slot_refs_def by blast

lemma slot_refs_update: "slot_refs (m(e \<mapsto> tok)) \<subseteq> insert (tk_payload_ref tok) (slot_refs m)"
  by (auto simp: slot_refs_def split: if_splits)

lemma slot_refs_clear: "slot_refs (clear_slots region m) \<subseteq> slot_refs m"
  by (auto simp: slot_refs_def clear_slots_def split: option.splits if_splits)

lemma slot_refs_deliver:
  "deliver es tok w = Inr w' \<Longrightarrow> slot_refs (wk_slots w') \<subseteq> insert (tk_payload_ref tok) (slot_refs (wk_slots w))"
proof (induction es arbitrary: w)
  case (Cons e es)
  then have "deliver es tok (w\<lparr>wk_slots := (wk_slots w)(e \<mapsto> tok)\<rparr>) = Inr w'" by (auto split: if_splits)
  from Cons.IH [OF this] have sub: "slot_refs (wk_slots w') \<subseteq> insert (tk_payload_ref tok) (slot_refs ((wk_slots w)(e \<mapsto> tok)))"
    by (simp add: fun_upd_def)
  show ?case
    by (rule subset_trans [OF sub]) (use slot_refs_update [of "wk_slots w" e tok] in blast)
qed auto

lemma slot_refs_deliver_fail:
  "deliver es tok w = Inl (e, w') \<Longrightarrow> slot_refs (wk_slots w') \<subseteq> insert (tk_payload_ref tok) (slot_refs (wk_slots w))"
proof (induction es arbitrary: w)
  case (Cons e' es)
  show ?case
  proof (cases "wk_slots w e' = None")
    case True
    with Cons.prems have "deliver es tok (w\<lparr>wk_slots := (wk_slots w)(e' \<mapsto> tok)\<rparr>) = Inl (e, w')" by simp
    from Cons.IH [OF this] have sub: "slot_refs (wk_slots w') \<subseteq> insert (tk_payload_ref tok) (slot_refs ((wk_slots w)(e' \<mapsto> tok)))"
      by (simp add: fun_upd_def)
    show ?thesis
      by (rule subset_trans [OF sub]) (use slot_refs_update [of "wk_slots w" e' tok] in blast)
  qed (use Cons.prems in auto)
qed simp

lemma input_refs_image:
  "v = ManyRefs (map f occ) \<or> v = OneRef (f (hd occ)) \<Longrightarrow> occ \<noteq> [] \<Longrightarrow> set (input_refs v) \<subseteq> f ` set occ"
  by auto

lemma gather_inputs_refs:
  "gather_inputs w ps = Some d \<Longrightarrow> (q, v) \<in> set d \<Longrightarrow> set (input_refs v) \<subseteq> slot_refs (wk_slots w)"
proof (induction ps arbitrary: d)
  case (Cons p ps)
  obtain name wiring where p: "p = (name, wiring)" by (cases p)
  let ?occ = "sort (filter (\<lambda>e. wk_slots w e \<noteq> None) (pw_forward_edges wiring @ pw_back_edges wiring))"
  have ref: "tk_payload_ref (the (wk_slots w e)) \<in> slot_refs (wk_slots w)" if "e \<in> set ?occ" for e
    using that by (auto intro: slot_refsI)
  show ?case
  proof (cases "?occ = []")
    case True
    with Cons.prems(1) have "gather_inputs w ps = Some d" by (simp add: p Let_def)
    then show ?thesis using Cons.prems(2) by (rule Cons.IH)
  next
    case False
    with Cons.prems(1) obtain v0 d' where d: "gather_inputs w ps = Some d'" "d = (name, v0) # d'"
      and v0: "v0 = ManyRefs (map (\<lambda>e. tk_payload_ref (the (wk_slots w e))) ?occ) \<or> v0 = OneRef (tk_payload_ref (the (wk_slots w (hd ?occ))))"
      by (auto simp: p Let_def split: if_splits)
    have "set (input_refs v0) \<subseteq> slot_refs (wk_slots w)"
      using input_refs_image [OF v0 False] ref by blast
    then show ?thesis using Cons.IH [OF d(1)] Cons.prems(2) d(2) by auto
  qed
qed simp

section \<open>Issuing and settling\<close>

lemma issue_effect:
  "live_ids (fst (issue t n inputs w)) = insert (ac_activation_id (snd (issue t n inputs w))) (live_ids w)"
  "wk_slots (fst (issue t n inputs w)) = wk_slots w" "ac_inputs (snd (issue t n inputs w)) = inputs"
  by (simp_all add: issue_def Let_def keys_update set_node_def flip: set_map)

lemma issue_all_effect:
  "live_ids (fst (issue_all t rs w)) = live_ids w \<union> act_ids (snd (issue_all t rs w))"
proof (induction t rs w rule: issue_all.induct)
  case (2 t n inputs rs w)
  obtain w' a where i: "issue t n inputs w = (w', a)" by (cases "issue t n inputs w")
  obtain w'' acts where ia: "issue_all t rs w' = (w'', acts)" by (cases "issue_all t rs w'")
  have "live_ids w' = insert (ac_activation_id a) (live_ids w)" using issue_effect(1) [of t n inputs w] by (simp add: i)
  moreover have "live_ids w'' = live_ids w' \<union> act_ids acts" using 2 [OF i [symmetric]] by (simp add: ia)
  ultimately show ?case by (simp add: i ia)
qed simp

lemma issue_all_slots: "wk_slots (fst (issue_all t rs w)) = wk_slots w"
proof (induction t rs w rule: issue_all.induct)
  case (2 t n inputs rs w)
  obtain w' a where i: "issue t n inputs w = (w', a)" by (cases "issue t n inputs w")
  show ?case using 2 [OF i [symmetric]] issue_effect(2) [of t n inputs w] by (simp add: i case_prod_beta)
qed simp

lemma issue_all_inputs: "map ac_inputs (snd (issue_all t rs w)) = map snd rs"
proof (induction t rs w rule: issue_all.induct)
  case (2 t n inputs rs w)
  obtain w' a where i: "issue t n inputs w = (w', a)" by (cases "issue t n inputs w")
  obtain w'' acts where ia: "issue_all t rs w' = (w'', acts)" by (cases "issue_all t rs w'")
  show ?case using 2 [OF i [symmetric]] issue_effect(3) [of t n inputs w] by (simp add: i ia)
qed simp

lemma collect_ready_refs:
  "collect_ready t w ns = Inr rs \<Longrightarrow> d \<in> set (map snd rs) \<Longrightarrow> (q, v) \<in> set d \<Longrightarrow>
   set (input_refs v) \<subseteq> slot_refs (wk_slots w)"
proof (induction ns arbitrary: rs)
  case (Cons n ns)
  show ?case
  proof (cases "pending w n \<and> is_ready t w n")
    case True
    then obtain inputs rs' where "inputs_of t w n = Some inputs" "collect_ready t w ns = Inr rs'" "rs = (n, inputs) # rs'"
      using Cons.prems(1) by (auto split: option.splits sum.splits)
    with Cons.prems(2) have "d = inputs \<or> d \<in> set (map snd rs')" by auto
    then show ?thesis
    proof
      assume "d = inputs"
      with Cons.prems(3) \<open>inputs_of t w n = Some inputs\<close> show ?thesis
        unfolding inputs_of_def by (intro gather_inputs_refs) simp_all
    qed (rule Cons.IH [OF \<open>collect_ready t w ns = Inr rs'\<close> _ Cons.prems(3)])
  next
    case False
    with Cons show ?thesis by auto
  qed
qed simp

lemma state_live_freeze: "state_live (freeze w) = la_activation_id ` snd ` set (wk_live w)"
  by (simp add: freeze_def image_image)

lemma rs_slots_freeze: "rs_slots (freeze w) = wk_slots w"
  by (simp add: freeze_def)

text \<open>The effect of a step, as one predicate.\<close>

definition step_effect :: "string set \<Rightarrow> string set \<Rightarrow> step \<Rightarrow> bool" where
  "step_effect live refs st \<longleftrightarrow>
     state_live (sp_state st) \<subseteq> live \<union> act_ids (sp_activations st) \<and>
     slot_refs (rs_slots (sp_state st)) \<subseteq> refs \<and>
     (\<forall>a \<in> set (sp_activations st). act_refs a \<subseteq> refs)"

lemma step_effect_mono: "step_effect live refs st \<Longrightarrow> live \<subseteq> live' \<Longrightarrow> refs \<subseteq> refs' \<Longrightarrow> step_effect live' refs' st"
  unfolding step_effect_def by blast

definition live_keyed :: "work \<Rightarrow> bool" where
  "live_keyed w \<longleftrightarrow> (\<forall>(k, la) \<in> set (wk_live w). la_activation_id la = k)"

lemma live_keyed_ids: "live_keyed w \<Longrightarrow> la_activation_id ` snd ` set (wk_live w) = live_ids w"
  by (force simp: live_keyed_def image_image)

lemma set_update: "x \<in> set (AList.update k v d) \<Longrightarrow> x = (k, v) \<or> x \<in> set d"
  by (induction d) (auto split: if_splits)

lemma in_delete: "x \<in> set (AList.delete k d) \<Longrightarrow> x \<in> set d"
  by (induction d) (auto split: if_splits)

lemma live_keyed_issue: "live_keyed w \<Longrightarrow> live_keyed (fst (issue t n inputs w))"
  unfolding live_keyed_def issue_def Let_def by (auto simp: set_node_def dest!: set_update)

lemma live_keyed_issue_all: "live_keyed w \<Longrightarrow> live_keyed (fst (issue_all t rs w))"
proof (induction t rs w rule: issue_all.induct)
  case (2 t n inputs rs w)
  obtain w' a where i: "issue t n inputs w = (w', a)" by (cases "issue t n inputs w")
  obtain w'' acts where ia: "issue_all t rs w' = (w'', acts)" by (cases "issue_all t rs w'")
  show ?case using 2(1) [OF i [symmetric]] live_keyed_issue [OF 2(2), of t n inputs] by (simp add: i ia)
qed simp

lemma terminate_effect: "step_effect {} (slot_refs (wk_slots w)) (terminate w oc r em c)"
  by (simp add: step_effect_def terminate_def Let_def state_live_freeze rs_slots_freeze)

lemma deaden_slots [simp]: "wk_slots (deaden t w) = wk_slots w"
  by (rule deaden_induct [where P = "\<lambda>v. wk_slots v = wk_slots w"]) (auto simp: mark_dead_def)

lemma settle_effect:
  assumes "live_keyed w"
  shows "step_effect (live_ids w) (slot_refs (wk_slots w)) (settle t w c)"
proof (cases "collect_ready t (deaden t w) (tp_node_ids t)")
  case (Inl n)
  then show ?thesis
    using step_effect_mono [OF terminate_effect [of "deaden t w"] empty_subsetI subset_refl]
    by (simp add: settle_def Let_def)
next
  case (Inr ready)
  let ?w = "deaden t w"
  obtain w' issued where ia: "issue_all t ready ?w = (w', issued)" by (cases "issue_all t ready ?w")
  have keyed: "live_keyed w'" using live_keyed_issue_all [of ?w t ready] assms by (simp add: ia live_keyed_def)
  have live: "live_ids w' = live_ids w \<union> act_ids issued" using issue_all_effect [of t ready ?w] by (simp add: ia)
  have slots: "wk_slots w' = wk_slots w" using issue_all_slots [of t ready ?w] by (simp add: ia)
  have "act_refs a \<subseteq> slot_refs (wk_slots w)" if "a \<in> set issued" for a
  proof -
    have "ac_inputs a \<in> set (map ac_inputs issued)" using that by simp
    then have "ac_inputs a \<in> set (map snd ready)"
      using issue_all_inputs [of t ready ?w] by (simp only: ia snd_conv)
    then show ?thesis using collect_ready_refs [OF Inr] by (fastforce simp: act_refs_def)
  qed
  then show ?thesis
    using live_keyed_ids [OF keyed] live slots
    by (simp add: settle_def Let_def Inr ia step_effect_def state_live_freeze rs_slots_freeze)
qed

section \<open>The reducer\<close>

lemma fst_delete: "fst ` set (AList.delete aid d) = fst ` set d - {aid}"
  by (induction d) auto

lemma live_keyed_mark_done: "live_keyed w \<Longrightarrow> live_keyed (mark_done w n aid port ref)"
  by (auto simp: live_keyed_def mark_done_sel dest!: in_delete)

lemma deliver_live: "deliver es tok w = Inr w' \<Longrightarrow> wk_live w' = wk_live w"
  by (induction es arbitrary: w) (fastforce split: if_splits)+

lemma apply_emission_effect:
  assumes "live_keyed w"
  shows "step_effect (live_ids w - {aid}) (insert ref (slot_refs (wk_slots w))) (apply_emission t w n aid port ref)"
proof -
  let ?w = "mark_done w n aid port ref" and ?tok = "\<lparr>tk_payload_ref = ref, tk_producer = aid\<rparr>"
  let ?L = "live_ids w - {aid}" and ?R = "insert ref (slot_refs (wk_slots w))"
  let ?edges = "dict_at (dict_at (tp_out_ports t) n) port"
  have keyed: "live_keyed ?w" by (rule live_keyed_mark_done [OF assms])
  have live: "live_ids ?w = ?L" by (simp add: mark_done_sel fst_delete)
  have fin: "step_effect ?L ?R (terminate w' oc r em c)" if "slot_refs (wk_slots w') \<subseteq> ?R" for w' oc r em c
    by (rule step_effect_mono [OF terminate_effect empty_subsetI that])
  have settle: "step_effect ?L ?R (settle t w' c)"
    if "live_keyed w'" "live_ids w' \<subseteq> ?L" "slot_refs (wk_slots w') \<subseteq> ?R" for w' c
    by (rule step_effect_mono [OF settle_effect [OF that(1)] that(2,3)])
  show ?thesis
  proof (cases ?edges)
    case Nil
    have "slot_refs (wk_slots ?w) \<subseteq> ?R" unfolding mark_done_sel(1) by (rule subset_insertI)
    then have "step_effect ?L ?R (settle t ?w c)" "step_effect ?L ?R (terminate ?w oc r em c)" for oc r em c
      using settle [OF keyed equalityD1 [OF live]] fin by simp_all
    then show ?thesis using Nil by (simp add: apply_emission_def Let_def split: option.splits)
  next
    case (Cons e es)
    show ?thesis
    proof (cases "dict_get (tp_bounds t) e = None")
      case False
      obtain w' c where tb: "traverse_back t ?w e ?tok = (w', c)" by (cases "traverse_back t ?w e ?tok")
      from tb have w': "wk_live w' = filter (\<lambda>(_, l). la_node_id l \<notin> set (dict_at (tp_regions t) (fst (snd (snd (dict_at (tp_edges t) e)))))) (wk_live ?w)"
        "wk_slots w' = (clear_slots (dict_at (tp_regions t) (fst (snd (snd (dict_at (tp_edges t) e))))) (wk_slots ?w))(e \<mapsto> ?tok)"
        by (auto simp: traverse_back_def Let_def)
      have "live_ids w' \<subseteq> ?L" unfolding w'(1) live [symmetric] by auto
      moreover have "live_keyed w'" using keyed w'(1) by (auto simp: live_keyed_def)
      moreover have "slot_refs (wk_slots w') \<subseteq> ?R"
        unfolding w'(2) mark_done_sel(1) using slot_refs_update slot_refs_clear by fastforce
      ultimately have "step_effect ?L ?R (settle t w' c)" by (intro settle)
      then show ?thesis using Cons False by (simp add: apply_emission_def Let_def tb)
    next
      case True
      show ?thesis
      proof (cases "deliver ?edges ?tok ?w")
        case (Inl p)
        obtain sl w' where p: "p = (sl, w')" by (cases p)
        have "slot_refs (wk_slots w') \<subseteq> ?R"
          using slot_refs_deliver_fail [OF Inl [unfolded p]] by (simp add: mark_done_sel(1))
        from fin [OF this] show ?thesis using Cons True Inl p by (simp add: apply_emission_def Let_def)
      next
        case (Inr w')
        have "wk_live w' = wk_live ?w" by (rule deliver_live [OF Inr])
        moreover have "slot_refs (wk_slots w') \<subseteq> ?R"
          using slot_refs_deliver [OF Inr] by (simp add: mark_done_sel(1))
        ultimately have "step_effect ?L ?R (settle t w' [])"
          using keyed live by (intro settle) (simp_all add: live_keyed_def)
        then show ?thesis using Cons True Inr by (simp add: apply_emission_def Let_def)
      qed
    qed
  qed
qed

lemma start_effect: "step_effect {} {} (start t)"
proof -
  have "step_effect (live_ids (work_of (init_state t))) (slot_refs (wk_slots (work_of (init_state t)))) (start t)"
    unfolding start_def by (rule settle_effect) (simp add: live_keyed_def work_of_def init_state_def dict_of_def)
  then show ?thesis by (simp add: work_of_def init_state_def slot_refs_def dict_of_def)
qed

lemma good_live_keyed: "good t s \<Longrightarrow> live_keyed (work_of s)"
  by (auto simp: live_keyed_def thawed_live)

lemma good_live_ids: "good t s \<Longrightarrow> live_ids (work_of s) = state_live s"
  by (simp add: thawed_live image_image)

text \<open>The effect of every event that does not raise, on a state that satisfies the invariant.\<close>

lemma advance_effect:
  assumes good: "good t s" and live: "dict_get (wk_live (work_of s)) aid \<noteq> None"
    and adv: "advance t s (Emitted aid port ref) = Inr st"
  shows "step_effect (state_live s - {aid}) (insert ref (slot_refs (rs_slots s))) st"
proof -
  have keyed: "live_keyed (work_of s)" by (rule good_live_keyed [OF good])
  have slots: "wk_slots (work_of s) = rs_slots s" by (simp add: work_of_def)
  have fin: "step_effect (state_live s - {aid}) (insert ref (slot_refs (rs_slots s))) (terminate (work_of s) oc r em c)" for oc r em c
    by (rule step_effect_mono [OF terminate_effect]) (auto simp: slots)
  have app: "step_effect (state_live s - {aid}) (insert ref (slot_refs (rs_slots s))) (apply_emission t (work_of s) n aid port ref)" for n
    using apply_emission_effect [OF keyed] by (simp only: good_live_ids [OF good] slots)
  show ?thesis
    using adv live fin app
    by (auto simp: advance_emitted_def Let_def simp del: set_map split: sum.splits if_splits option.splits)
qed

lemma halt_effect:
  assumes "advance t s (Halt kind reason) = Inr st"
  shows "step_effect {} (slot_refs (rs_slots s)) st"
  using assms terminate_effect [of "work_of s"] by (auto simp: work_of_def split: if_splits)

text \<open>Only nodes of the topology are ever activated.\<close>

lemma issue_all_nodes: "map ac_node_id (snd (issue_all t rs w)) = map fst rs"
proof (induction t rs w rule: issue_all.induct)
  case (2 t n inputs rs w)
  obtain w' a where i: "issue t n inputs w = (w', a)" by (cases "issue t n inputs w")
  have "ac_node_id a = n" using i by (auto simp: issue_def Let_def)
  with 2 [OF i [symmetric]] show ?case by (simp add: i case_prod_beta)
qed simp

lemma collect_ready_nodes: "collect_ready t w ns = Inr rs \<Longrightarrow> set (map fst rs) \<subseteq> set ns"
  by (induction ns arbitrary: rs) (fastforce split: if_splits option.splits sum.splits)+

lemma settle_nodes: "a \<in> set (sp_activations (settle t w c)) \<Longrightarrow> ac_node_id a \<in> node_set t"
proof (cases "collect_ready t (deaden t w) (tp_node_ids t)")
  case (Inr ready)
  obtain w' issued where ia: "issue_all t ready (deaden t w) = (w', issued)" by (cases "issue_all t ready (deaden t w)")
  assume "a \<in> set (sp_activations (settle t w c))"
  then have "ac_node_id a \<in> set (map ac_node_id issued)" by (simp add: settle_def Let_def Inr ia)
  also have "map ac_node_id issued = map fst ready" using issue_all_nodes [of t ready "deaden t w"] by (simp add: ia)
  finally show ?thesis using collect_ready_nodes [OF Inr] by blast
qed (simp add: settle_def Let_def)

lemma advance_nodes:
  assumes "advance t s ev = Inr st" "a \<in> set (sp_activations st)"
  shows "ac_node_id a \<in> node_set t"
proof (cases ev)
  case (Halt kind r)
  with assms show ?thesis by (auto split: if_splits)
next
  case (Emitted aid port ref)
  have app: "ac_node_id a \<in> node_set t" if "a \<in> set (sp_activations (apply_emission t w n aid port ref))" for w n
    using that settle_nodes
    by (auto simp: apply_emission_def Let_def split: list.splits option.splits if_splits prod.splits sum.splits)
  show ?thesis
    using assms app unfolding Emitted
    by (auto simp: advance_emitted_def not_live_def drop_event_def Let_def split: sum.splits if_splits option.splits)
qed

end
