(* ===== verification/Graph_Catalog.thy ===== *)
theory Graph_Catalog
  imports Review_Loop
begin

text \<open>
  The shipped graphs and the start of a run, \<open>workflows/graph_catalog.py\<close> with
  \<open>workflows/graph_nodes/base.py\<close>'s configuration overlay: graph selection, the templated revision
  bounds, the executable check and \<open>build_run_input\<close>. A configuration is a record of the fields
  this code reads or writes and the rest. The registry of agent roles and the set of handler types
  are arguments, as in the workflow callers.
\<close>

section \<open>Shipped graphs\<close>

text \<open>The files under \<open>workflows/graphs\<close>, in the order of their lines.\<close>

definition default_nodes :: "graph_node list" where
  "default_nodes = map (\<lambda>(i, ty). plain_node i ty) [
     (''intake'', ''intake''), (''context'', ''context''), (''clarify'', ''clarify''),
     (''architect'', ''architect''), (''architecture'', ''gate.architecture''), (''planner'', ''plan''),
     (''plan'', ''gate.plan''), (''plan_check'', ''plan_check''), (''code'', ''code''),
     (''analyze'', ''analyze''), (''merge'', ''merge''), (''deploy'', ''deploy'')]"

definition design_edges :: "graph_edge list" where
  "design_edges = [
     plain_edge ''clarify'' ''requirements'' ''architect'' ''requirements'' None,
     plain_edge ''clarify'' ''requirements'' ''planner'' ''requirements'' None,
     plain_edge ''architect'' ''spec'' ''architecture'' ''artifact'' None,
     plain_edge ''architecture'' ''revise'' ''architect'' ''guidance'' (Some 2),
     plain_edge ''architecture'' ''approve'' ''planner'' ''spec'' None,
     plain_edge ''architecture'' ''approve'' ''merge'' ''spec'' None,
     plain_edge ''planner'' ''plan'' ''plan'' ''artifact'' None,
     plain_edge ''plan'' ''revise'' ''planner'' ''guidance'' (Some 2),
     plain_edge ''plan'' ''approve'' ''plan_check'' ''plan'' None,
     plain_edge ''plan_check'' ''ok'' ''code'' ''plan'' None,
     plain_edge ''plan_check'' ''ok'' ''analyze'' ''plan'' None,
     plain_edge ''plan_check'' ''ok'' ''merge'' ''plan'' None]"

definition delivery_edges :: "graph_edge list" where
  "delivery_edges = [
     plain_edge ''code'' ''results'' ''analyze'' ''results'' None,
     plain_edge ''code'' ''results'' ''merge'' ''results'' None,
     plain_edge ''analyze'' ''analysis'' ''merge'' ''analysis'' None,
     plain_edge ''merge'' ''pr'' ''deploy'' ''pr'' None]"

definition sorted_graph :: "graph_node list \<Rightarrow> graph_edge list \<Rightarrow> pipeline_graph" where
  "sorted_graph ns es = \<lparr>pg_nodes = sort_nodes ns, pg_edges = sort_edges es\<rparr>"

definition graph_default :: pipeline_graph where
  "graph_default = sorted_graph default_nodes (
     [plain_edge ''intake'' ''ok'' ''clarify'' ''trigger'' None,
      plain_edge ''intake'' ''brownfield'' ''context'' ''trigger'' None,
      plain_edge ''context'' ''map'' ''clarify'' ''codebase_map'' None,
      plain_edge ''context'' ''map'' ''architect'' ''codebase_map'' None]
     @ design_edges @ delivery_edges)"

definition graph_default_research :: pipeline_graph where
  "graph_default_research = sorted_graph (default_nodes @ [plain_node ''research'' ''research'']) (
     [plain_edge ''intake'' ''ok'' ''research'' ''trigger'' None,
      plain_edge ''intake'' ''brownfield'' ''context'' ''trigger'' None,
      plain_edge ''context'' ''map'' ''research'' ''codebase_map'' None,
      plain_edge ''context'' ''map'' ''clarify'' ''codebase_map'' None,
      plain_edge ''context'' ''map'' ''architect'' ''codebase_map'' None,
      plain_edge ''research'' ''brief'' ''clarify'' ''research'' None]
     @ design_edges @ delivery_edges)"

definition graph_seeded :: pipeline_graph where
  "graph_seeded = sorted_graph
     [plain_node ''intake'' ''intake'', plain_node ''seed_spec'' ''seed.spec'',
      plain_node ''seed_plan'' ''seed.plan'', plain_node ''code'' ''code'', plain_node ''analyze'' ''analyze'',
      plain_node ''merge'' ''merge'', plain_node ''deploy'' ''deploy''] (
     [plain_edge ''intake'' ''ok'' ''seed_spec'' ''trigger'' None,
      plain_edge ''intake'' ''brownfield'' ''seed_spec'' ''trigger'' None,
      plain_edge ''intake'' ''ok'' ''seed_plan'' ''trigger'' None,
      plain_edge ''intake'' ''brownfield'' ''seed_plan'' ''trigger'' None,
      plain_edge ''seed_plan'' ''plan'' ''code'' ''plan'' None,
      plain_edge ''seed_plan'' ''plan'' ''analyze'' ''plan'' None,
      plain_edge ''seed_plan'' ''plan'' ''merge'' ''plan'' None,
      plain_edge ''seed_spec'' ''spec'' ''merge'' ''spec'' None]
     @ delivery_edges)"

section \<open>Configuration\<close>

record 'c pipeline_cfg =
  cf_roles :: role_map
  cf_gates :: "string \<rightharpoonup> gate_config"
  cf_research_enabled :: bool
  cf_max_gate_rounds :: int
  cf_rest :: 'c

text \<open>\<open>graph_nodes/base.py\<close>: the configuration of one activation.\<close>

definition graph_has_research :: "pipeline_graph \<Rightarrow> bool" where
  "graph_has_research g = list_ex (\<lambda>n. gn_type n = ''research'') (pg_nodes g)"

definition project_cfg :: "'c pipeline_cfg \<Rightarrow> graph_node \<Rightarrow> node_type_spec \<Rightarrow> bool \<Rightarrow> 'c pipeline_cfg" where
  "project_cfg cfg node spec research_in_graph =
     cfg\<lparr>cf_roles :=
           (case (gn_role node, nt_role spec) of
              (Some rc, Some r) \<Rightarrow> if r \<notin> set (dict_keys (cf_roles cfg)) then AList.update r rc (cf_roles cfg) else cf_roles cfg
            | _ \<Rightarrow> cf_roles cfg),
         cf_gates :=
           (case gn_gate node of None \<Rightarrow> cf_gates cfg | Some gc \<Rightarrow> (cf_gates cfg)(gn_id node \<mapsto> gc)),
         cf_research_enabled := research_in_graph\<rparr>"

section \<open>The executable check\<close>

definition PRE_CODE_REVISE :: "(string \<times> string) list" where
  "PRE_CODE_REVISE = [(''architecture'', ''revise''), (''plan'', ''revise'')]"

definition NOT_EXECUTABLE :: "(string, string) dict" where
  "NOT_EXECUTABLE = [(''gate.research'',
     ''the research refine loop is handler-internal until research-as-topology (E74-OQ-2)'')]"

definition HANDLER_INTERNAL_GATES :: "(string, string) dict" where
  "HANDLER_INTERNAL_GATES = [(''research'', ''research'')]"

definition HANDLERS :: "string list" where
  "HANDLERS = [''analyze'', ''architect'', ''clarify'', ''code'', ''context'', ''deploy'',
     ''gate.architecture'', ''gate.plan'', ''intake'', ''merge'', ''plan'', ''plan_check'', ''research'',
     ''seed.plan'', ''seed.spec'']"

datatype exec_code = Gate_name_collision | No_handler | Not_executable

fun exec_code_value :: "exec_code \<Rightarrow> string" where
  "exec_code_value Gate_name_collision = ''gate_name_collision''"
| "exec_code_value No_handler = ''no_handler''"
| "exec_code_value Not_executable = ''not_executable''"

record executable_problem =
  ep_code :: exec_code
  ep_node :: string
  ep_message :: string

definition internal_gates :: "pipeline_graph \<Rightarrow> string list" where
  "internal_gates g = List.map_filter (\<lambda>n. dict_get HANDLER_INTERNAL_GATES (gn_type n)) (pg_nodes g)"

definition node_exec_problems :: "string list \<Rightarrow> string list \<Rightarrow> graph_node \<Rightarrow> executable_problem list" where
  "node_exec_problems known internal n =
     (case dict_get NOT_EXECUTABLE (gn_type n) of
        Some why \<Rightarrow> [\<lparr>ep_code = Not_executable, ep_node = gn_id n, ep_message = why\<rparr>]
      | None \<Rightarrow>
          if gn_type n \<notin> set known
          then [\<lparr>ep_code = No_handler, ep_node = gn_id n,
                 ep_message = ''no handler for node type '' @ py_repr (gn_type n)\<rparr>]
          else [])
     @ (case dict_get NODE_TYPES (gn_type n) of
          None \<Rightarrow> []
        | Some spec \<Rightarrow>
            if nt_kind spec = Gate \<and> gn_id n \<in> set internal
            then [\<lparr>ep_code = Gate_name_collision, ep_node = gn_id n,
                   ep_message = ''gate node id '' @ py_repr (gn_id n)
                     @ '' collides with a handler-internal gate of the same name''\<rparr>]
            else [])"

definition executable :: "pipeline_graph \<Rightarrow> string list \<Rightarrow> executable_problem list" where
  "executable g handler_types =
     sort_key (\<lambda>p. (exec_code_value (ep_code p), ep_node p))
       (concat (map (node_exec_problems handler_types (internal_gates g)) (pg_nodes g)))"

section \<open>Starting a run\<close>

definition strip_role :: "role_config \<Rightarrow> role_config" where
  "strip_role rc = rc\<lparr>rc_instructions := None, rc_tool_files := []\<rparr>"

definition resolved_roles :: "'c pipeline_cfg \<Rightarrow> role_map \<Rightarrow> role_map" where
  "resolved_roles cfg registry_roles =
     (let merged = dict_of (registry_roles @ cf_roles cfg)
      in map (\<lambda>(name, rc). (name, strip_role rc)) (dict_sorted merged))"

definition select_graph :: "'c pipeline_cfg \<Rightarrow> bool \<Rightarrow> role_map \<Rightarrow> pipeline_graph" where
  "select_graph cfg seeded registry_roles =
     (if seeded then graph_seeded
      else if cf_research_enabled cfg \<and> ''research'' \<in> set (dict_keys registry_roles)
      then graph_default_research
      else graph_default)"

definition template_edge :: "nat \<Rightarrow> graph_edge \<Rightarrow> graph_edge" where
  "template_edge bound e =
     (if (ge_source e, ge_source_port e) \<in> set PRE_CODE_REVISE \<and> ge_max_traversals e \<noteq> None
      then e\<lparr>ge_max_traversals := Some bound\<rparr> else e)"

definition template_revise_bounds :: "pipeline_graph \<Rightarrow> nat \<Rightarrow> pipeline_graph" where
  "template_revise_bounds g bound = sorted_graph (pg_nodes g) (map (template_edge bound) (pg_edges g))"

record 'c graph_run_input =
  ri_cfg :: "'c pipeline_cfg"
  ri_graph :: pipeline_graph
  ri_roles :: role_map
  ri_seeded :: bool

definition build_run_input ::
    "(string \<Rightarrow> string \<Rightarrow> check) \<Rightarrow> 'c pipeline_cfg \<Rightarrow> bool \<Rightarrow> role_map \<Rightarrow> string list \<Rightarrow>
     string list + 'c graph_run_input" where
  "build_run_input check_model cfg seeded registry_roles handler_types =
     (if cf_max_gate_rounds cfg < 1
      then Inl [''max_gate_rounds must be >= 1 on the graph path (got '' @ int_str (cf_max_gate_rounds cfg) @ '')'']
      else
        let graph = template_revise_bounds (select_graph cfg seeded registry_roles) (nat (cf_max_gate_rounds cfg));
            roles = resolved_roles cfg registry_roles;
            report = validate check_model graph NODE_TYPES roles;
            problems = map (\<lambda>p. code_value (pb_code p) @ '': '' @ pb_message p) (vr_problems report)
              @ map (\<lambda>p. exec_code_value (ep_code p) @ '': '' @ ep_message p) (executable graph handler_types)
        in if problems \<noteq> [] then Inl problems
           else Inr \<lparr>ri_cfg = cfg, ri_graph = graph, ri_roles = roles, ri_seeded = seeded\<rparr>)"

text \<open>The checks \<open>GraphWorkflow.run\<close> repeats before it dispatches (\<open>workflows/graph.py\<close>).\<close>

datatype run_error = Invalid_Graph "problem list" | Graph_Not_Executable string

definition run_checks ::
    "(string \<Rightarrow> string \<Rightarrow> check) \<Rightarrow> 'c graph_run_input \<Rightarrow> string list \<Rightarrow> run_error + topology" where
  "run_checks check_model inp handler_types =
     (case from_graph check_model (ri_graph inp) NODE_TYPES (ri_roles inp) of
        Inl problems \<Rightarrow> Inl (Invalid_Graph problems)
      | Inr t \<Rightarrow>
          let problems = executable (ri_graph inp) handler_types in
          if problems \<noteq> []
          then Inl (Graph_Not_Executable (''graph not executable: '' @ str_join ''; '' (map ep_message problems)))
          else Inr t)"

section \<open>Lemmas\<close>

lemma sort_key_Nil [simp]: "sort_key f xs = [] \<longleftrightarrow> xs = []"
  by (metis length_0_conv length_sort)

lemma executable_Nil:
  assumes "executable g handlers = []" "n \<in> set (pg_nodes g)"
  shows "gn_type n \<in> set handlers" "dict_get NOT_EXECUTABLE (gn_type n) = None"
proof -
  have "node_exec_problems handlers (internal_gates g) n = []" using assms by (auto simp: executable_def)
  then show "gn_type n \<in> set handlers" "dict_get NOT_EXECUTABLE (gn_type n) = None"
    by (auto simp: node_exec_problems_def split: option.splits if_splits)
qed

lemma validate_topology_iff:
  "vr_problems (validate check g reg roles) = [] \<longleftrightarrow> vr_topology (validate check g reg roles) \<noteq> None"
  by (simp add: validate_def Let_def)

lemma from_graph_iff:
  "(\<exists>t. from_graph check g reg roles = Inr t) \<longleftrightarrow> vr_problems (validate check g reg roles) = []"
  by (auto simp: from_graph_def Let_def validate_topology_iff split: option.splits)

lemma template_edges: "set (pg_edges (template_revise_bounds g b)) = template_edge b ` set (pg_edges g)"
  by (simp add: template_revise_bounds_def sorted_graph_def sort_edges_def)

lemma template_nodes: "set (pg_nodes (template_revise_bounds g b)) = set (pg_nodes g)"
  by (simp add: template_revise_bounds_def sorted_graph_def sort_nodes_def)

section \<open>Properties\<close>

text \<open>What the start of a run promises. An input that \<open>build_run_input\<close> returns passes every check
  that the workflow itself repeats for the same handlers, so \<open>GraphWorkflow.run\<close> never rejects it;
  every revision loop before the code stage carries exactly the configured number of rounds, and
  no role carries loader-only fields.\<close>

lemma built_input_runs:
  assumes "build_run_input check_model cfg seeded registry_roles handlers = Inr inp"
  shows "(\<exists>t. run_checks check_model inp handlers = Inr t)
    \<and> (\<forall>e \<in> set (pg_edges (ri_graph inp)). (ge_source e, ge_source_port e) \<in> set PRE_CODE_REVISE \<longrightarrow>
         ge_max_traversals e \<in> {None, Some (nat (cf_max_gate_rounds cfg))})
    \<and> (\<forall>(name, rc) \<in> set (ri_roles inp). rc_instructions rc = None \<and> rc_tool_files rc = [])"
proof (intro conjI)
  let ?g = "template_revise_bounds (select_graph cfg seeded registry_roles) (nat (cf_max_gate_rounds cfg))"
  have inp: "inp = \<lparr>ri_cfg = cfg, ri_graph = ?g, ri_roles = resolved_roles cfg registry_roles, ri_seeded = seeded\<rparr>"
    and legal: "vr_problems (validate check_model ?g NODE_TYPES (resolved_roles cfg registry_roles)) = []"
    and ex: "executable ?g handlers = []"
    using assms by (auto simp: build_run_input_def Let_def split: if_splits)
  from legal obtain t where "from_graph check_model ?g NODE_TYPES (resolved_roles cfg registry_roles) = Inr t"
    using from_graph_iff by blast
  then show "\<exists>t. run_checks check_model inp handlers = Inr t" by (simp add: run_checks_def inp ex)
  show "\<forall>e \<in> set (pg_edges (ri_graph inp)). (ge_source e, ge_source_port e) \<in> set PRE_CODE_REVISE \<longrightarrow>
         ge_max_traversals e \<in> {None, Some (nat (cf_max_gate_rounds cfg))}"
    unfolding inp graph_run_input.simps template_edges by (auto simp: template_edge_def)
  show "\<forall>(name, rc) \<in> set (ri_roles inp). rc_instructions rc = None \<and> rc_tool_files rc = []"
    by (auto simp: inp resolved_roles_def strip_role_def Let_def)
qed

section \<open>The seeded graph, concretely\<close>

text \<open>With distinct ids and endpoints the normal order is the order of those alone.\<close>

lemma sort_key_pair:
  fixes f :: "'a \<Rightarrow> 'b::linorder" and g :: "'a \<Rightarrow> 'c::linorder"
  assumes "distinct (map f xs)"
  shows "sort_key (\<lambda>x. (f x, g x)) xs = sort_key f xs"
proof -
  let ?a = "sort_key (\<lambda>x. (f x, g x)) xs" and ?b = "sort_key f xs"
  have "map f ?b = sort (map f xs)"
    by (rule properties_for_sort [symmetric]) (simp_all only: mset_map mset_sort sorted_sort_key)
  then have eq: "map f ?a = map f ?b" by (simp add: map_fst_sort_key)
  have "inj_on f (set ?a \<union> set ?b)" using assms by (simp add: distinct_map)
  then show ?thesis using eq by (metis map_inj_on)
qed

lemma sort_nodes_ids: "distinct (map gn_id ns) \<Longrightarrow> sort_nodes ns = sort_key gn_id ns"
  unfolding sort_nodes_def node_sort_key_def
  by (simp add: sort_key_pair distinct_map inj_on_def)

lemma sort_edges_ends: "distinct (map edge_endpoints es) \<Longrightarrow> sort_edges es = sort_key edge_endpoints es"
  unfolding sort_edges_def edge_sort_key_def
  by (simp add: sort_key_pair distinct_map inj_on_def)

definition seeded_sorted :: pipeline_graph where
  "seeded_sorted = \<lparr>
     pg_nodes = [
       plain_node ''analyze'' ''analyze'',
       plain_node ''code'' ''code'',
       plain_node ''deploy'' ''deploy'',
       plain_node ''intake'' ''intake'',
       plain_node ''merge'' ''merge'',
       plain_node ''seed_plan'' ''seed.plan'',
       plain_node ''seed_spec'' ''seed.spec''],
     pg_edges = [
       plain_edge ''analyze'' ''analysis'' ''merge'' ''analysis'' None,
       plain_edge ''code'' ''results'' ''analyze'' ''results'' None,
       plain_edge ''code'' ''results'' ''merge'' ''results'' None,
       plain_edge ''intake'' ''brownfield'' ''seed_plan'' ''trigger'' None,
       plain_edge ''intake'' ''brownfield'' ''seed_spec'' ''trigger'' None,
       plain_edge ''intake'' ''ok'' ''seed_plan'' ''trigger'' None,
       plain_edge ''intake'' ''ok'' ''seed_spec'' ''trigger'' None,
       plain_edge ''merge'' ''pr'' ''deploy'' ''pr'' None,
       plain_edge ''seed_plan'' ''plan'' ''analyze'' ''plan'' None,
       plain_edge ''seed_plan'' ''plan'' ''code'' ''plan'' None,
       plain_edge ''seed_plan'' ''plan'' ''merge'' ''plan'' None,
       plain_edge ''seed_spec'' ''spec'' ''merge'' ''spec'' None]\<rparr>"

lemma sorted_seeded:
  "sort_nodes (pg_nodes seeded_sorted) = pg_nodes seeded_sorted"
  "sort_edges (pg_edges seeded_sorted) = pg_edges seeded_sorted"
proof -
  have "distinct (map gn_id (pg_nodes seeded_sorted))" "distinct (map edge_endpoints (pg_edges seeded_sorted))"
    "sort_key gn_id (pg_nodes seeded_sorted) = pg_nodes seeded_sorted"
    "sort_key edge_endpoints (pg_edges seeded_sorted) = pg_edges seeded_sorted"
    by code_simp+
  then show "sort_nodes (pg_nodes seeded_sorted) = pg_nodes seeded_sorted"
    "sort_edges (pg_edges seeded_sorted) = pg_edges seeded_sorted"
    by (simp_all add: sort_nodes_ids sort_edges_ends)
qed

lemma graph_seeded_sorted: "graph_seeded = seeded_sorted"
proof -
  let ?ns = "[plain_node ''intake'' ''intake'', plain_node ''seed_spec'' ''seed.spec'',
      plain_node ''seed_plan'' ''seed.plan'', plain_node ''code'' ''code'', plain_node ''analyze'' ''analyze'',
      plain_node ''merge'' ''merge'', plain_node ''deploy'' ''deploy'']"
  let ?es = "[plain_edge ''intake'' ''ok'' ''seed_spec'' ''trigger'' None,
      plain_edge ''intake'' ''brownfield'' ''seed_spec'' ''trigger'' None,
      plain_edge ''intake'' ''ok'' ''seed_plan'' ''trigger'' None,
      plain_edge ''intake'' ''brownfield'' ''seed_plan'' ''trigger'' None,
      plain_edge ''seed_plan'' ''plan'' ''code'' ''plan'' None,
      plain_edge ''seed_plan'' ''plan'' ''analyze'' ''plan'' None,
      plain_edge ''seed_plan'' ''plan'' ''merge'' ''plan'' None,
      plain_edge ''seed_spec'' ''spec'' ''merge'' ''spec'' None] @ delivery_edges"
  have "distinct (map gn_id ?ns)" "distinct (map edge_endpoints ?es)"
    "sort_key gn_id ?ns = pg_nodes seeded_sorted" "sort_key edge_endpoints ?es = pg_edges seeded_sorted"
    by code_simp+
  then show ?thesis
    unfolding graph_seeded_def sorted_graph_def by (simp only: sort_nodes_ids sort_edges_ends) (simp add: seeded_sorted_def)
qed

definition seeded_cfg :: "unit pipeline_cfg" where
  "seeded_cfg = \<lparr>cf_roles = [], cf_gates = Map.empty, cf_research_enabled = False, cf_max_gate_rounds = 3,
     cf_rest = ()\<rparr>"

abbreviation seeded_roles :: role_map where
  "seeded_roles \<equiv> resolved_roles seeded_cfg review_roles"

lemma seeded_template: "template_revise_bounds (select_graph seeded_cfg True review_roles) (nat (cf_max_gate_rounds seeded_cfg)) = seeded_sorted"
proof -
  have "map (template_edge (nat (cf_max_gate_rounds seeded_cfg))) (pg_edges seeded_sorted) = pg_edges seeded_sorted"
    by (simp add: seeded_sorted_def template_edge_def plain_edge_def)
  then show ?thesis
    by (simp add: template_revise_bounds_def select_graph_def graph_seeded_sorted sorted_graph_def sorted_seeded)
qed

lemma seeded_groups:
  "identity_problems seeded_sorted = []"
  "reference_problems seeded_sorted (first_nodes seeded_sorted) NODE_TYPES = []"
  "node_config_problems accept_model (first_nodes seeded_sorted) NODE_TYPES seeded_roles = []"
  "wiring_problems seeded_sorted (first_nodes seeded_sorted) NODE_TYPES = []"
  "topology_problems seeded_sorted (sort (dict_keys (first_nodes seeded_sorted))) = []"
  "executable seeded_sorted HANDLERS = []"
  by code_simp+

lemma seeded_legal: "vr_problems (validate accept_model seeded_sorted NODE_TYPES seeded_roles) = []"
proof -
  have "all_problems accept_model seeded_sorted NODE_TYPES seeded_roles = []"
    by (simp add: all_problems_def Let_def seeded_groups(1-5))
  then show ?thesis by (simp add: validate_def)
qed

lemma seeded_input:
  "build_run_input accept_model seeded_cfg True review_roles HANDLERS
     = Inr \<lparr>ri_cfg = seeded_cfg, ri_graph = seeded_sorted, ri_roles = seeded_roles, ri_seeded = True\<rparr>"
  unfolding build_run_input_def Let_def seeded_template
  by (simp add: seeded_legal seeded_groups(6)) (simp add: seeded_cfg_def)

end
