(* ===== verification/Graph_Dispatch.thy ===== *)
theory Graph_Dispatch
  imports Router_Effects Graph_Catalog
begin

text \<open>
  The dispatch loop over the router, \<open>workflows/graph_dispatch.py\<close>. The fields of
  \<open>GraphDispatcher\<close> are a record. A handler is not modelled: when its task ends it has returned some
  result or raised some exception, and the loop reads that from the queue. An iteration of \<open>_loop\<close> is
  \<open>process_result\<close> followed by \<open>start_all\<close>; between two iterations, and while one awaits its budget
  boundary, only tasks append to the queue, so the order of those appends is the only
  interleaving. An exception of the loop is the left value of a sum.
\<close>

section \<open>State\<close>

text \<open>
  What the loop asks of an exception: whether it is a cancellation, a budget rejection or one of
  the \<open>FAILURE_TYPES\<close>, its type name and its text.
\<close>

record exn =
  xn_cancelled :: bool
  xn_budget :: bool
  xn_failure :: bool
  xn_type :: string
  xn_message :: string

datatype 'm payload = NoPayload | FailurePayload node_failure | ModelPayload 'm

record 'm stored_payload =
  sd_model :: "'m payload"
  sd_producer :: string
  sd_author_model :: "string option"
  sd_meta :: "(string, string) dict"

record 'm node_result =
  nd_port :: string
  nd_payload :: "'m payload"
  nd_author_model :: "string option"
  nd_meta :: "(string, string) dict"
  nd_result :: "string option"
  nd_finalize :: bool

datatype 'm raw = Returned "'m node_result" | Raised exn

record activation_attrib =
  aa_node_id :: string
  aa_round :: nat
  aa_node_stage :: string
  aa_fail_reentry :: "nat option"

record 'm dispatcher =
  dp_state :: router_state
  dp_payloads :: "string \<rightharpoonup> 'm stored_payload"
  dp_tasks :: "string list"
  dp_running :: "string list"
  dp_cancelled :: "string list"
  dp_results :: "(string \<times> 'm raw) list"
  dp_terminal_result :: "string option"
  dp_last_sink_result :: "string option"
  dp_budget_halted :: bool
  dp_stored_failure :: "exn option"
  dp_started :: "(string, int) dict"
  dp_ended :: "(string, int) dict"
  dp_attrib :: "string \<rightharpoonup> activation_attrib"
  dp_escalated_by :: "string option"
  dp_unrouted :: "unrouted_failure option"

text \<open>What the constructor is given: the topology, the nodes by id, the registry, the handler types.\<close>

record dispatch_env =
  de_topology :: topology
  de_nodes :: "(string, graph_node) dict"
  de_registry :: registry
  de_handlers :: "string list"

definition mk_env :: "topology \<Rightarrow> pipeline_graph \<Rightarrow> registry \<Rightarrow> string list \<Rightarrow> dispatch_env" where
  "mk_env t g reg handlers =
     \<lparr>de_topology = t, de_nodes = dict_of (map (\<lambda>n. (gn_id n, n)) (pg_nodes g)), de_registry = reg,
      de_handlers = handlers\<rparr>"

datatype dispatch_error =
    Key_Error string
  | Not_An_Out_Port string string
  | Result_On_Edged_Port string string
  | Reraised exn
  | Router_Raised router_error

record dispatch_outcome =
  do_state :: router_state
  do_terminal_result :: "string option"
  do_last_sink_result :: "string option"
  do_budget_halted :: bool
  do_stored_failure :: "exn option"

section \<open>Starting activations\<close>

definition set_default :: "string \<Rightarrow> int \<Rightarrow> (string, int) dict \<Rightarrow> (string, int) dict" where
  "set_default k v d = (if dict_get d k = None then d @ [(k, v)] else d)"

definition start_activation :: "dispatch_env \<Rightarrow> int \<Rightarrow> activation \<Rightarrow> 'm dispatcher \<Rightarrow> dispatch_error + 'm dispatcher" where
  "start_activation env now act d =
     (case dict_get (de_nodes env) (ac_node_id act) of
        None \<Rightarrow> Inl (Key_Error (ac_node_id act))
      | Some node \<Rightarrow>
          if dict_get (de_registry env) (gn_type node) = None \<or> gn_type node \<notin> set (de_handlers env)
          then Inl (Key_Error (gn_type node))
          else
            let aid = ac_activation_id act in
            Inr (d\<lparr>dp_started := AList.update aid now (dp_started d),
                   dp_attrib := (dp_attrib d)(aid \<mapsto> \<lparr>aa_node_id = ac_node_id act, aa_round = ac_round act,
                     aa_node_stage = resolve_stage (gn_type node) (de_registry env),
                     aa_fail_reentry = fail_reentry act (de_topology env)\<rparr>),
                   dp_tasks := (if aid \<in> set (dp_tasks d) then dp_tasks d else dp_tasks d @ [aid]),
                   dp_running := dp_running d @ [aid]\<rparr>))"

fun start_all :: "dispatch_env \<Rightarrow> int \<Rightarrow> activation list \<Rightarrow> 'm dispatcher \<Rightarrow> dispatch_error + 'm dispatcher" where
  "start_all env now [] d = Inr d"
| "start_all env now (act # acts) d =
     (case start_activation env now act d of Inl e \<Rightarrow> Inl e | Inr d' \<Rightarrow> start_all env now acts d')"

definition fresh_dispatcher :: "topology \<Rightarrow> 'm dispatcher" where
  "fresh_dispatcher t = \<lparr>dp_state = sp_state (start t), dp_payloads = Map.empty, dp_tasks = [], dp_running = [],
     dp_cancelled = [], dp_results = [], dp_terminal_result = None, dp_last_sink_result = None,
     dp_budget_halted = False, dp_stored_failure = None, dp_started = [], dp_ended = [],
     dp_attrib = Map.empty, dp_escalated_by = None, dp_unrouted = None\<rparr>"

definition dispatch_init :: "dispatch_env \<Rightarrow> int \<Rightarrow> dispatch_error + 'm dispatcher" where
  "dispatch_init env now =
     start_all env now (sp_activations (start (de_topology env))) (fresh_dispatcher (de_topology env))"

section \<open>Applying a step\<close>

definition cancel_one :: "int \<Rightarrow> 'm dispatcher \<Rightarrow> string \<Rightarrow> 'm dispatcher" where
  "cancel_one now d cid =
     d\<lparr>dp_ended := set_default cid now (dp_ended d),
       dp_tasks := filter (\<lambda>a. a \<noteq> cid) (dp_tasks d),
       dp_cancelled := (if cid \<in> set (dp_tasks d) then dp_cancelled d @ [cid] else dp_cancelled d)\<rparr>"

definition apply_step :: "int \<Rightarrow> step \<Rightarrow> 'm dispatcher \<Rightarrow> 'm dispatcher" where
  "apply_step now st d = foldl (cancel_one now) (d\<lparr>dp_state := sp_state st\<rparr>) (sp_cancelled st)"

definition halt_budget :: "topology \<Rightarrow> int \<Rightarrow> 'm dispatcher \<Rightarrow> dispatch_error + 'm dispatcher" where
  "halt_budget t now d =
     (case advance t (dp_state d) (Halt TRejected ''budget'') of
        Inl e \<Rightarrow> Inl (Router_Raised e)
      | Inr st \<Rightarrow> Inr ((apply_step now st d)\<lparr>dp_budget_halted := True\<rparr>))"

section \<open>Classifying a result\<close>

definition declares_fail :: "node_type_spec \<Rightarrow> bool" where
  "declares_fail spec = list_ex (\<lambda>p. np_name p = ''fail'' \<and> np_direction p = Out) (nt_ports spec)"

definition node_spec_of :: "dispatch_env \<Rightarrow> string \<Rightarrow> node_type_spec" where
  "node_spec_of env node_id = dict_at (de_registry env) (gn_type (dict_at (de_nodes env) node_id))"

definition fail_result :: "string \<Rightarrow> exn \<Rightarrow> 'm node_result" where
  "fail_result aid x = \<lparr>nd_port = ''fail'', nd_payload = FailurePayload
     \<lparr>nf_activation_id = aid, nf_error_type = xn_type x, nf_message = xn_message x\<rparr>,
     nd_author_model = None, nd_meta = [], nd_result = None, nd_finalize = False\<rparr>"

definition note_failure :: "dispatch_env \<Rightarrow> string \<Rightarrow> string \<Rightarrow> exn \<Rightarrow> 'm dispatcher \<Rightarrow> 'm dispatcher" where
  "note_failure env aid node_id x d =
     (if dict_at (dict_at (tp_out_ports (de_topology env)) node_id) ''fail'' = []
      then d\<lparr>dp_stored_failure := Some x,
             dp_unrouted := Some \<lparr>uf_activation_id = aid, uf_error_type = xn_type x\<rparr>\<rparr>
      else d)"

definition classify ::
    "dispatch_env \<Rightarrow> int \<Rightarrow> string \<Rightarrow> string \<Rightarrow> 'm raw \<Rightarrow> 'm dispatcher \<Rightarrow>
     dispatch_error + 'm node_result option \<times> 'm dispatcher" where
  "classify env now aid node_id raw d =
     (case raw of
        Returned r \<Rightarrow> Inr (Some r, d)
      | Raised x \<Rightarrow>
          if xn_cancelled x then Inl (Reraised x)
          else if xn_budget x
          then (case halt_budget (de_topology env) now d of Inl e \<Rightarrow> Inl e | Inr d' \<Rightarrow> Inr (None, d'))
          else if xn_failure x \<and> declares_fail (node_spec_of env node_id)
          then Inr (Some (fail_result aid x), note_failure env aid node_id x d)
          else Inl (Reraised x))"

definition is_boundary :: "dispatch_env \<Rightarrow> string \<Rightarrow> string \<Rightarrow> string list \<Rightarrow> bool" where
  "is_boundary env node_id port edges =
     (let mode = nt_budget_after (node_spec_of env node_id) in
      if mode = BNone \<or> list_ex (\<lambda>e. dict_get (tp_bounds (de_topology env)) e \<noteq> None) edges then False
      else if mode = Exiting then True
      else edges \<noteq> [])"

section \<open>One iteration of the loop\<close>

definition store_payload :: "string \<Rightarrow> 'm node_result \<Rightarrow> 'm dispatcher \<Rightarrow> 'm dispatcher" where
  "store_payload aid r d =
     d\<lparr>dp_payloads := (dp_payloads d)(aid @ ''.'' @ nd_port r \<mapsto>
         \<lparr>sd_model = nd_payload r, sd_producer = aid, sd_author_model = nd_author_model r,
          sd_meta = dict_sorted (nd_meta r)\<rparr>)\<rparr>"

definition note_escalation :: "string \<Rightarrow> string \<Rightarrow> 'm dispatcher \<Rightarrow> 'm dispatcher" where
  "note_escalation aid port d =
     (case find (\<lambda>a. la_activation_id a = aid) (rs_live (dp_state d)) of
        None \<Rightarrow> d
      | Some live \<Rightarrow>
          if port \<in> set (dict_keys (la_unavailable_ports live)) \<and> dp_escalated_by d = None
          then d\<lparr>dp_escalated_by := Some aid\<rparr> else d)"

definition note_result :: "'m node_result \<Rightarrow> string list \<Rightarrow> step \<Rightarrow> 'm dispatcher \<Rightarrow> 'm dispatcher" where
  "note_result r edges st d =
     (if nd_result r = None then d
      else if sp_outcome st = ORejected \<or> sp_outcome st = OFailed then d\<lparr>dp_terminal_result := nd_result r\<rparr>
      else if edges = [] then d\<lparr>dp_last_sink_result := nd_result r\<rparr>
      else d)"

definition emit_result ::
    "dispatch_env \<Rightarrow> int \<Rightarrow> string \<Rightarrow> 'm node_result \<Rightarrow> string list \<Rightarrow> 'm dispatcher \<Rightarrow>
     dispatch_error + 'm dispatcher \<times> activation list" where
  "emit_result env now aid r edges d =
     (let d' = note_escalation aid (nd_port r) (store_payload aid r d) in
      case advance (de_topology env) (dp_state d') (Emitted aid (nd_port r) (aid @ ''.'' @ nd_port r)) of
        Inl e \<Rightarrow> Inl (Router_Raised e)
      | Inr st \<Rightarrow> Inr (note_result r edges st (apply_step now st d'), sp_activations st))"

text \<open>
  What the awaits of one iteration answer: the wait for a result, the wait for the running tasks at
  a boundary, the budget check of the host and the result's own \<open>finalize\<close> callback. Each returns
  (\<open>None\<close>) or raises. \<open>lw_after\<close> is the workflow's time when they are over.
\<close>

record loop_world =
  lw_wait :: "exn option"
  lw_drain :: "exn option"
  lw_budget :: "exn option"
  lw_finalize :: "exn option"
  lw_after :: int

text \<open>Only \<open>_BudgetRejected\<close> is an answer of the budget check; anything else it raises leaves the loop.\<close>

definition budget_rejects :: "exn option \<Rightarrow> dispatch_error + bool" where
  "budget_rejects answer =
     (case answer of
        None \<Rightarrow> Inr False
      | Some x \<Rightarrow> if xn_budget x then Inr True else Inl (Reraised x))"

definition boundary_check :: "loop_world \<Rightarrow> dispatch_error + bool" where
  "boundary_check w =
     (case lw_drain w of Some x \<Rightarrow> Inl (Reraised x) | None \<Rightarrow> budget_rejects (lw_budget w))"

definition finalize_result ::
    "dispatch_env \<Rightarrow> loop_world \<Rightarrow> string \<Rightarrow> 'm node_result \<Rightarrow> string list \<Rightarrow> 'm dispatcher \<Rightarrow>
     dispatch_error + 'm dispatcher \<times> activation list" where
  "finalize_result env w aid r edges d =
     (case (if nd_finalize r then lw_finalize w else None) of
        Some x \<Rightarrow> Inl (Reraised x)
      | None \<Rightarrow> emit_result env (lw_after w) aid r edges d)"

text \<open>The body of the loop for one classified result. A rejected budget skips \<open>finalize\<close>.\<close>

definition handle_result ::
    "dispatch_env \<Rightarrow> loop_world \<Rightarrow> string \<Rightarrow> string \<Rightarrow> 'm node_result \<Rightarrow> 'm dispatcher \<Rightarrow>
     dispatch_error + 'm dispatcher \<times> activation list" where
  "handle_result env w aid node_id r d =
     (case dict_get (dict_at (tp_out_ports (de_topology env)) node_id) (nd_port r) of
        None \<Rightarrow> Inl (Not_An_Out_Port aid (nd_port r))
      | Some edges \<Rightarrow>
          if nd_result r \<noteq> None \<and> edges \<noteq> [] \<and>
             nd_port r \<notin> set (dict_keys (dict_get_or (tp_terminal_ports (de_topology env)) node_id []))
          then Inl (Result_On_Edged_Port aid (nd_port r))
          else
            (case (if is_boundary env node_id (nd_port r) edges then boundary_check w else Inr False) of
               Inl e \<Rightarrow> Inl e
             | Inr True \<Rightarrow>
                 (case halt_budget (de_topology env) (lw_after w) d of Inl e \<Rightarrow> Inl e | Inr d' \<Rightarrow> Inr (d', []))
             | Inr False \<Rightarrow> finalize_result env w aid r edges d))"

definition pop_result :: "int \<Rightarrow> string \<Rightarrow> 'm dispatcher \<Rightarrow> 'm dispatcher" where
  "pop_result now aid d =
     d\<lparr>dp_results := tl (dp_results d), dp_tasks := filter (\<lambda>a. a \<noteq> aid) (dp_tasks d),
       dp_ended := set_default aid now (dp_ended d)\<rparr>"

definition process_result ::
    "dispatch_env \<Rightarrow> int \<Rightarrow> loop_world \<Rightarrow> 'm dispatcher \<Rightarrow> dispatch_error + 'm dispatcher \<times> activation list" where
  "process_result env now w d =
     (case dp_results d of
        [] \<Rightarrow> Inr (d, [])
      | (aid, raw) # _ \<Rightarrow>
          let d1 = pop_result now aid d in
          if aid \<notin> la_activation_id ` set (rs_live (dp_state d1)) then Inr (d1, [])
          else case classify env now aid (node_of aid) raw d1 of
            Inl e \<Rightarrow> Inl e
          | Inr (None, d2) \<Rightarrow> Inr (d2, [])
          | Inr (Some r, d2) \<Rightarrow> handle_result env w aid (node_of aid) r d2)"

definition loop_iteration :: "dispatch_env \<Rightarrow> int \<Rightarrow> loop_world \<Rightarrow> 'm dispatcher \<Rightarrow> dispatch_error + 'm dispatcher" where
  "loop_iteration env now w d =
     (case lw_wait w of
        Some x \<Rightarrow> Inl (Reraised x)
      | None \<Rightarrow>
          (case process_result env now w d of
             Inl e \<Rightarrow> Inl e
           | Inr (d', held) \<Rightarrow> start_all env (lw_after w) held d'))"

definition task_done :: "string \<Rightarrow> 'm raw \<Rightarrow> 'm dispatcher \<Rightarrow> 'm dispatcher" where
  "task_done aid raw d = d\<lparr>dp_running := remove1 aid (dp_running d), dp_results := dp_results d @ [(aid, raw)]\<rparr>"

definition finish_dispatch :: "'m dispatcher \<Rightarrow> dispatch_outcome" where
  "finish_dispatch d = \<lparr>do_state = dp_state d, do_terminal_result = dp_terminal_result d,
     do_last_sink_result = dp_last_sink_result d, do_budget_halted = dp_budget_halted d,
     do_stored_failure = dp_stored_failure d\<rparr>"

text \<open>The states of a run: the loop and the tasks interleave, in any order and at any times.\<close>

inductive dispatch_reach :: "dispatch_env \<Rightarrow> 'm dispatcher \<Rightarrow> bool" for env where
  dr_init: "dispatch_init env now = Inr d \<Longrightarrow> dispatch_reach env d"
| dr_task: "dispatch_reach env d \<Longrightarrow> aid \<in> set (dp_running d) \<Longrightarrow> dispatch_reach env (task_done aid raw d)"
| dr_loop: "dispatch_reach env d \<Longrightarrow> rs_outcome (dp_state d) = ORunning \<Longrightarrow> dp_results d \<noteq> [] \<Longrightarrow>
    loop_iteration env now w d = Inr d' \<Longrightarrow> dispatch_reach env d'"

section \<open>The view and the result string\<close>

definition activation_facts_of ::
    "(string \<rightharpoonup> pyfloat \<times> bool) \<Rightarrow> (string, int) dict \<Rightarrow> string \<times> int \<Rightarrow> string \<times> activation_facts" where
  "activation_facts_of spend ended = (\<lambda>(aid, started).
     let cost = (case spend aid of None \<Rightarrow> (''0.0'', True) | Some c \<Rightarrow> c) in
     (aid, \<lparr>af_started_at = started, af_ended_at = dict_get ended aid, af_cost_usd = fst cost, af_priced = snd cost\<rparr>))"

definition view ::
    "string \<Rightarrow> string option \<Rightarrow> pending_fact list \<Rightarrow> (string \<rightharpoonup> pyfloat \<times> bool) \<Rightarrow> 'm dispatcher \<Rightarrow> graph_run_view" where
  "view graph_sha result pend spend d =
     mk_view graph_sha (dp_state d)
       (map (activation_facts_of spend (dp_ended d)) (dict_sorted (dp_started d)))
       pend result (dp_escalated_by d) (dp_unrouted d)"

definition sink_nodes :: "router_state \<Rightarrow> topology \<Rightarrow> string list" where
  "sink_nodes state t =
     sort (filter (\<lambda>n. case rs_nodes state n of
         None \<Rightarrow> False
       | Some ns \<Rightarrow> ns_status ns = NDone \<and>
           (case ns_taken_port ns of None \<Rightarrow> False
            | Some p \<Rightarrow> dict_at (dict_at (tp_out_ports t) n) p = [])) (tp_node_ids t))"

definition outcome_string :: "dispatch_outcome \<Rightarrow> topology \<Rightarrow> string" where
  "outcome_string oc t =
     (let state = do_state oc; reason = (case rs_reason state of None \<Rightarrow> [] | Some r \<Rightarrow> r) in
      case rs_outcome state of
        ORejected \<Rightarrow>
          if do_budget_halted oc then ''rejected:budget''
          else (case do_terminal_result oc of
                  Some r \<Rightarrow> r | None \<Rightarrow> ''rejected:'' @ fst (partition_at (CHR ''.'') reason))
      | OFailed \<Rightarrow>
          (case do_terminal_result oc of Some r \<Rightarrow> r | None \<Rightarrow> ''failed:'' @ opt_str (rs_reason state))
      | OEscalated \<Rightarrow> ''escalated:'' @ opt_str (rs_reason state)
      | _ \<Rightarrow>
          (case do_last_sink_result oc of
             Some r \<Rightarrow> r
           | None \<Rightarrow> ''completed:'' @ str_join '','' (sink_nodes state t)))"

end
