(* ===== verification/Dispatch_Properties.thy ===== *)
theory Dispatch_Properties
  imports Graph_Dispatch
begin

text \<open>
  The dispatcher over the router. The invariant \<open>dispatch_inv\<close> ties the dispatcher's fields to the
  router state it owns; every iteration of the loop and every task that ends keeps it. It rests on
  the router's contract only: the reachability invariant and the effect of a step.
\<close>

section \<open>Starting and applying\<close>

lemma start_activation_sel:
  assumes "start_activation env now act d = Inr d'"
  shows "dp_state d' = dp_state d" "dp_payloads d' = dp_payloads d" "dp_results d' = dp_results d"
    "dp_escalated_by d' = dp_escalated_by d" "dp_running d' = dp_running d @ [ac_activation_id act]"
    "dp_budget_halted d' = dp_budget_halted d"
  using assms by (auto simp: start_activation_def Let_def split: option.splits if_splits)

lemma start_all_sel:
  assumes "start_all env now acts d = Inr d'"
  shows "dp_state d' = dp_state d" "dp_payloads d' = dp_payloads d" "dp_results d' = dp_results d"
    "dp_escalated_by d' = dp_escalated_by d" "dp_running d' = dp_running d @ map ac_activation_id acts"
    "dp_budget_halted d' = dp_budget_halted d"
proof -
  have "dp_budget_halted d' = dp_budget_halted d \<and> dp_state d' = dp_state d \<and> dp_payloads d' = dp_payloads d \<and> dp_results d' = dp_results d \<and>
    dp_escalated_by d' = dp_escalated_by d \<and> dp_running d' = dp_running d @ map ac_activation_id acts"
    using assms
  proof (induction acts arbitrary: d)
    case (Cons a acts)
    then obtain d1 where "start_activation env now a d = Inr d1" "start_all env now acts d1 = Inr d'"
      by (auto split: sum.splits)
    with Cons.IH [of d1] start_activation_sel [of env now a d d1] show ?case by simp
  qed simp
  then show "dp_state d' = dp_state d" "dp_payloads d' = dp_payloads d" "dp_results d' = dp_results d"
    "dp_escalated_by d' = dp_escalated_by d" "dp_running d' = dp_running d @ map ac_activation_id acts"
    "dp_budget_halted d' = dp_budget_halted d" by simp_all
qed

definition startable :: "dispatch_env \<Rightarrow> string \<Rightarrow> bool" where
  "startable env n \<longleftrightarrow> (\<exists>node. dict_get (de_nodes env) n = Some node \<and>
     dict_get (de_registry env) (gn_type node) \<noteq> None \<and> gn_type node \<in> set (de_handlers env))"

lemma start_all_total:
  "\<forall>a \<in> set acts. startable env (ac_node_id a) \<Longrightarrow> \<exists>d'. start_all env now acts d = Inr d'"
proof (induction acts arbitrary: d)
  case (Cons a acts)
  have "\<exists>d1. start_activation env now a d = Inr d1"
    using Cons.prems by (auto simp: startable_def start_activation_def Let_def)
  with Cons show ?case by auto
qed simp

lemma cancel_sel:
  "dp_state (foldl (cancel_one now) d cs) = dp_state d" "dp_payloads (foldl (cancel_one now) d cs) = dp_payloads d"
  "dp_results (foldl (cancel_one now) d cs) = dp_results d" "dp_running (foldl (cancel_one now) d cs) = dp_running d"
  "dp_escalated_by (foldl (cancel_one now) d cs) = dp_escalated_by d"
  "dp_budget_halted (foldl (cancel_one now) d cs) = dp_budget_halted d"
  by (induction cs arbitrary: d) (simp_all add: cancel_one_def)

lemma apply_step_sel [simp]:
  "dp_state (apply_step now st d) = sp_state st" "dp_payloads (apply_step now st d) = dp_payloads d"
  "dp_results (apply_step now st d) = dp_results d" "dp_running (apply_step now st d) = dp_running d"
  "dp_escalated_by (apply_step now st d) = dp_escalated_by d"
  "dp_budget_halted (apply_step now st d) = dp_budget_halted d"
  by (simp_all add: apply_step_def cancel_sel)

lemma note_result_sel [simp]:
  "dp_state (note_result r es st d) = dp_state d" "dp_payloads (note_result r es st d) = dp_payloads d"
  "dp_results (note_result r es st d) = dp_results d" "dp_running (note_result r es st d) = dp_running d"
  "dp_escalated_by (note_result r es st d) = dp_escalated_by d"
  "dp_budget_halted (note_result r es st d) = dp_budget_halted d"
  by (simp_all add: note_result_def)

lemma note_failure_sel [simp]:
  "dp_state (note_failure env aid n x d) = dp_state d" "dp_payloads (note_failure env aid n x d) = dp_payloads d"
  "dp_results (note_failure env aid n x d) = dp_results d" "dp_running (note_failure env aid n x d) = dp_running d"
  "dp_escalated_by (note_failure env aid n x d) = dp_escalated_by d"
  "dp_budget_halted (note_failure env aid n x d) = dp_budget_halted d"
  by (simp_all add: note_failure_def)

lemma note_escalation_sel [simp]:
  "dp_state (note_escalation aid p d) = dp_state d" "dp_payloads (note_escalation aid p d) = dp_payloads d"
  "dp_results (note_escalation aid p d) = dp_results d" "dp_running (note_escalation aid p d) = dp_running d"
  "dp_budget_halted (note_escalation aid p d) = dp_budget_halted d"
  by (simp_all add: note_escalation_def split: option.splits)

lemma pop_result_sel [simp]:
  "dp_state (pop_result now aid d) = dp_state d" "dp_payloads (pop_result now aid d) = dp_payloads d"
  "dp_results (pop_result now aid d) = tl (dp_results d)" "dp_running (pop_result now aid d) = dp_running d"
  "dp_escalated_by (pop_result now aid d) = dp_escalated_by d"
  "dp_budget_halted (pop_result now aid d) = dp_budget_halted d"
  by (simp_all add: pop_result_def)

lemma store_payload_sel [simp]:
  "dp_state (store_payload aid r d) = dp_state d" "dp_results (store_payload aid r d) = dp_results d"
  "dp_running (store_payload aid r d) = dp_running d" "dp_escalated_by (store_payload aid r d) = dp_escalated_by d"
  "dom (dp_payloads (store_payload aid r d)) = insert (aid @ ''.'' @ nd_port r) (dom (dp_payloads d))"
  "dp_budget_halted (store_payload aid r d) = dp_budget_halted d"
  by (simp_all add: store_payload_def)

section \<open>The invariant\<close>

text \<open>
  The router state is reachable; whatever is in a slot has its payload in the store; every live
  activation has a task that still runs or a result in the queue, or is about to start (\<open>extra\<close>);
  the escalating activation is recorded exactly when the run escalated; a budget halt rejects.
\<close>

definition dispatch_inv :: "topology \<Rightarrow> string set \<Rightarrow> 'm dispatcher \<Rightarrow> bool" where
  "dispatch_inv t extra d \<longleftrightarrow>
     reachable t (dp_state d) \<and> slot_refs (rs_slots (dp_state d)) \<subseteq> dom (dp_payloads d) \<and>
     state_live (dp_state d) \<subseteq> set (dp_running d) \<union> fst ` set (dp_results d) \<union> extra \<and>
     (dp_escalated_by d \<noteq> None \<longleftrightarrow> rs_outcome (dp_state d) = OEscalated) \<and>
     (dp_budget_halted d \<longrightarrow> rs_outcome (dp_state d) = ORejected)"

lemma dispatch_invD:
  assumes "dispatch_inv t extra d"
  shows "reachable t (dp_state d)" "slot_refs (rs_slots (dp_state d)) \<subseteq> dom (dp_payloads d)"
    "state_live (dp_state d) \<subseteq> set (dp_running d) \<union> fst ` set (dp_results d) \<union> extra"
    "dp_escalated_by d \<noteq> None \<longleftrightarrow> rs_outcome (dp_state d) = OEscalated"
    "dp_budget_halted d \<longrightarrow> rs_outcome (dp_state d) = ORejected"
  using assms by (simp_all add: dispatch_inv_def)

lemma dispatch_inv_cong:
  assumes "dispatch_inv t extra d" "dp_state d' = dp_state d" "dp_payloads d' = dp_payloads d"
    "dp_escalated_by d' = dp_escalated_by d" "dp_budget_halted d' = dp_budget_halted d"
    "set (dp_running d) \<union> fst ` set (dp_results d) \<union> extra \<subseteq> set (dp_running d') \<union> fst ` set (dp_results d') \<union> extra'"
  shows "dispatch_inv t extra' d'"
  using dispatch_invD [OF assms(1)] assms(6)
  unfolding dispatch_inv_def assms(2,3,4,5) by (intro conjI) (assumption | erule (1) subset_trans)+

lemma live_after: "L' \<subseteq> L - {a} \<union> A \<Longrightarrow> L \<subseteq> R \<union> Q \<union> ({a} \<union> X) \<Longrightarrow> L' \<subseteq> R \<union> Q \<union> (X \<union> A)"
  by blast

lemma dispatch_inv_start:
  assumes "dispatch_inv t (act_ids acts) d" "start_all env now acts d = Inr d'"
  shows "dispatch_inv t {} d'"
  by (rule dispatch_inv_cong [OF assms(1)]) (auto simp: start_all_sel [OF assms(2)])

text \<open>
  What can leave the loop. A handler's exception that is neither a budget rejection nor routed to a
  \<open>fail\<close> port; an exception of an await the loop reaches (the drain and the budget check, at a
  boundary only, and the result's \<open>finalize\<close>); an emission on a port the node does not have, or a
  result string on a port that has edges.
\<close>

definition unroutable :: "dispatch_env \<Rightarrow> string \<Rightarrow> exn \<Rightarrow> bool" where
  "unroutable env aid x \<longleftrightarrow>
     xn_cancelled x \<or> \<not> xn_budget x \<and> \<not> (xn_failure x \<and> declares_fail (node_spec_of env (node_of aid)))"

definition emitted_port :: "'m raw \<Rightarrow> string" where
  "emitted_port raw = (case raw of Returned r \<Rightarrow> nd_port r | Raised _ \<Rightarrow> ''fail'')"

definition await_fault :: "dispatch_env \<Rightarrow> loop_world \<Rightarrow> string \<Rightarrow> 'm raw \<Rightarrow> exn \<Rightarrow> bool" where
  "await_fault env w aid raw x \<longleftrightarrow>
     (\<exists>edges. dict_get (dict_at (tp_out_ports (de_topology env)) (node_of aid)) (emitted_port raw) = Some edges \<and>
        is_boundary env (node_of aid) (emitted_port raw) edges \<and>
        (lw_drain w = Some x \<or> lw_drain w = None \<and> lw_budget w = Some x \<and> \<not> xn_budget x)) \<or>
     (\<exists>r. raw = Returned r \<and> nd_finalize r \<and> lw_finalize w = Some x)"

definition port_fault :: "topology \<Rightarrow> string \<Rightarrow> 'm node_result \<Rightarrow> dispatch_error \<Rightarrow> bool" where
  "port_fault t aid r e \<longleftrightarrow>
     (case dict_get (dict_at (tp_out_ports t) (node_of aid)) (nd_port r) of
        None \<Rightarrow> e = Not_An_Out_Port aid (nd_port r)
      | Some edges \<Rightarrow> e = Result_On_Edged_Port aid (nd_port r) \<and> nd_result r \<noteq> None \<and> edges \<noteq> [])"

text \<open>A budget rejection: of the handler, or of the check once the drain is over.\<close>

definition rejection :: "loop_world \<Rightarrow> 'm raw \<Rightarrow> bool" where
  "rejection w raw \<longleftrightarrow>
     (\<exists>y. raw = Raised y \<and> xn_budget y) \<or> lw_drain w = None \<and> (\<exists>y. lw_budget w = Some y \<and> xn_budget y)"

definition process_fault :: "dispatch_env \<Rightarrow> loop_world \<Rightarrow> string \<Rightarrow> 'm raw \<Rightarrow> dispatch_error \<Rightarrow> bool" where
  "process_fault env w aid raw e \<longleftrightarrow>
     (\<exists>x. e = Reraised x \<and> (raw = Raised x \<and> unroutable env aid x \<or> await_fault env w aid raw x)) \<or>
     (\<exists>r. raw = Returned r \<and> port_fault (de_topology env) aid r e)"

text \<open>The same faults are never swallowed: an iteration that goes on met none of them, unless the
  budget halted the run before the await was reached.\<close>

lemma halt_budget_halts: "halt_budget t now d = Inr d' \<Longrightarrow> dp_budget_halted d'"
  by (auto simp: halt_budget_def simp del: advance.simps split: sum.splits)

lemma handle_result_met:
  assumes "handle_result env w aid (node_of aid) r d = Inr (d', held)" "await_fault env w aid (Returned r) x"
  shows "dp_budget_halted d' \<and> rejection w (Returned r)"
  using assms halt_budget_halts
  by (fastforce simp: handle_result_def await_fault_def rejection_def emitted_port_def boundary_check_def budget_rejects_def
      finalize_result_def split: option.splits if_splits sum.splits bool.splits)

lemma process_result_met:
  assumes ok: "process_result env now w d = Inr (d', held)" and res: "dp_results d = (aid, raw) # rest"
    and live: "aid \<in> state_live (dp_state d)"
  shows "\<not> (raw = Raised x \<and> unroutable env aid x)" "await_fault env w aid raw x \<Longrightarrow> dp_budget_halted d' \<and> rejection w raw"
proof -
  let ?d = "pop_result now aid d"
  from ok live have step: "(case classify env now aid (node_of aid) raw ?d of
            Inl e \<Rightarrow> Inl e
          | Inr (None, d2) \<Rightarrow> Inr (d2, [])
          | Inr (Some r, d2) \<Rightarrow> handle_result env w aid (node_of aid) r d2) = Inr (d', held)"
    by (simp add: process_result_def res Let_def)
  then show "\<not> (raw = Raised x \<and> unroutable env aid x)"
    by (auto simp: classify_def unroutable_def split: if_splits)
  show "dp_budget_halted d' \<and> rejection w raw" if "await_fault env w aid raw x"
  proof (cases raw)
    case (Returned r)
    from step have "handle_result env w aid (node_of aid) r ?d = Inr (d', held)" by (simp add: Returned classify_def)
    from handle_result_met [OF this that [unfolded Returned]] show ?thesis by (simp add: Returned)
  next
    case (Raised y)
    have fault: "await_fault env w aid (Returned (fail_result aid y)) x"
      using that unfolding await_fault_def by (auto simp: Raised emitted_port_def fail_result_def)
    have weaker: "rejection w (Raised y)" if "rejection w (Returned (fail_result aid y))" using that by (auto simp: rejection_def)
    from step show ?thesis
      by (auto simp: Raised classify_def split: if_splits sum.splits intro: halt_budget_halts weaker dest: handle_result_met [OF _ fault])
        (auto simp: rejection_def)
  qed
qed

context topology_laws
begin

lemma halt_budget_running:
  assumes inv: "dispatch_inv t extra d" and run: "rs_outcome (dp_state d) = ORunning"
  obtains d' where "halt_budget t now d = Inr d'" "dispatch_inv t {} d'"
    "rs_outcome (dp_state d') = ORejected" "dp_budget_halted d'"
proof -
  let ?st = "terminate (work_of (dp_state d)) ORejected ''budget'' None []"
  let ?d = "(apply_step now ?st d)\<lparr>dp_budget_halted := True\<rparr>"
  have adv: "advance t (dp_state d) (Halt TRejected ''budget'') = Inr ?st" using run by simp
  note eff = halt_effect [OF adv, unfolded step_effect_def]
  have "reachable t (sp_state ?st)" by (rule reach_advance [OF dispatch_invD(1) [OF inv] adv])
  moreover have "state_live (sp_state ?st) \<subseteq> {}" using eff by simp
  moreover have "slot_refs (rs_slots (sp_state ?st)) \<subseteq> dom (dp_payloads d)"
    using eff dispatch_invD(2) [OF inv] by blast
  ultimately have "dispatch_inv t {} ?d"
    using dispatch_invD(4) [OF inv] run by (simp add: dispatch_inv_def)
  then show thesis using that [of ?d] adv by (simp add: halt_budget_def)
qed

lemma emit_result_ok:
  assumes inv: "dispatch_inv t ({aid} \<union> extra) d" and run: "rs_outcome (dp_state d) = ORunning"
    and live: "la \<in> set (rs_live (dp_state d))" "la_activation_id la = aid"
    and port: "dict_get (dict_at (tp_out_ports t) (la_node_id la)) (nd_port r) = Some edges"
    and env: "de_topology env = t"
  obtains d' held where "emit_result env now aid r edges d = Inr (d', held)"
    "dispatch_inv t (extra \<union> act_ids held) d'" "\<forall>a \<in> set held. act_refs a \<subseteq> dom (dp_payloads d')"
    "\<exists>st. advance t (dp_state d) (Emitted aid (nd_port r) (aid @ ''.'' @ nd_port r)) = Inr st \<and> held = sp_activations st"
proof -
  note reach = dispatch_invD(1) [OF inv]
  note good = reachable_good [OF reach]
  have look: "dict_get (wk_live (work_of (dp_state d))) aid = Some la"
    using live by (simp add: live_lookup [OF good])
  have key: "nd_port r \<in> set (dict_keys (dict_at (tp_out_ports t) (la_node_id la)))"
    using port by (metis map_of_eq_None_iff option.discI set_map)
  let ?ref = "aid @ ''.'' @ nd_port r"
  obtain st where adv: "advance t (dp_state d) (Emitted aid (nd_port r) ?ref) = Inr st"
    and oc: "rs_outcome (sp_state st) = sp_outcome st"
    and esc: "sp_outcome st = OEscalated \<longleftrightarrow> dict_get (la_unavailable_ports la) (nd_port r) \<noteq> None"
    using advance_live(2) [OF good look key, of ?ref] by (auto split: option.splits)
  let ?d1 = "note_escalation aid (nd_port r) (store_payload aid r d)"
  let ?d = "note_result r edges st (apply_step now st ?d1)"
  have eff: "step_effect (state_live (dp_state d) - {aid}) (insert ?ref (slot_refs (rs_slots (dp_state d)))) st"
    by (rule advance_effect [OF good _ adv]) (simp add: look)
  have res: "emit_result env now aid r edges d = Inr (?d, sp_activations st)"
    using adv by (simp add: emit_result_def Let_def env del: advance.simps)
  have dom: "dom (dp_payloads ?d) = insert ?ref (dom (dp_payloads d))" by simp
  have refs: "insert ?ref (slot_refs (rs_slots (dp_state d))) \<subseteq> dom (dp_payloads ?d)"
    unfolding dom using dispatch_invD(2) [OF inv] by blast
  have "find (\<lambda>a. la_activation_id a = aid) (rs_live (dp_state d)) = Some la"
    by (rule find_unique [OF goodD(5) [OF good] live])
  then have "dp_escalated_by ?d \<noteq> None \<longleftrightarrow> dict_get (la_unavailable_ports la) (nd_port r) \<noteq> None"
    using dispatch_invD(4) [OF inv] run by (auto simp: note_escalation_def map_of_eq_None_iff)
  then have esc': "dp_escalated_by ?d \<noteq> None \<longleftrightarrow> rs_outcome (dp_state ?d) = OEscalated" using oc esc by simp
  have "state_live (sp_state st) \<subseteq> set (dp_running d) \<union> fst ` set (dp_results d) \<union> (extra \<union> act_ids (sp_activations st))"
    by (rule live_after [OF _ dispatch_invD(3) [OF inv]]) (use eff in \<open>simp add: step_effect_def\<close>)
  moreover have "slot_refs (rs_slots (sp_state st)) \<subseteq> dom (dp_payloads ?d)"
    by (rule subset_trans [OF _ refs]) (use eff in \<open>simp add: step_effect_def\<close>)
  ultimately have "dispatch_inv t (extra \<union> act_ids (sp_activations st)) ?d"
    using reach_advance [OF reach adv] esc' dispatch_invD(5) [OF inv] run unfolding dispatch_inv_def by simp
  moreover have "\<forall>a \<in> set (sp_activations st). act_refs a \<subseteq> dom (dp_payloads ?d)"
    using eff refs unfolding step_effect_def by blast
  ultimately show thesis using that [OF res] adv by blast
qed

text \<open>One iteration: a new state in which the invariant holds, or an error of the handler.\<close>

lemma process_result_ok:
  assumes inv: "dispatch_inv t {} d" and run: "rs_outcome (dp_state d) = ORunning"
    and res: "dp_results d = (aid, raw) # rest" and env: "de_topology env = t"
    and fail: "\<And>n. n \<in> node_set t \<Longrightarrow> declares_fail (node_spec_of env n) \<Longrightarrow>
        ''fail'' \<in> set (dict_keys (dict_at (tp_out_ports t) n))"
  shows "case process_result env now w d of
      Inl e \<Rightarrow> process_fault env w aid raw e
    | Inr (d', held) \<Rightarrow> dispatch_inv t (act_ids held) d' \<and>
        (\<forall>a \<in> set held. act_refs a \<subseteq> dom (dp_payloads d') \<and> ac_node_id a \<in> node_set t)"
proof (cases "aid \<in> state_live (dp_state d)")
  case False
  have "dispatch_inv t {} (pop_result now aid d)"
    using dispatch_invD [OF inv] False res unfolding dispatch_inv_def by auto
  with False show ?thesis by (simp add: process_result_def res)
next
  case True
  then obtain la where la: "la \<in> set (rs_live (dp_state d))" "la_activation_id la = aid" by auto
  note good = reachable_good [OF dispatch_invD(1) [OF inv]]
  have "dict_get (wk_live (work_of (dp_state d))) aid = Some la" using la by (simp add: live_lookup [OF good])
  note lf = live_fact [OF goodD(1) [OF good] this]
  have node: "node_of aid = la_node_id la" "la_node_id la \<in> node_set t" using lf by auto
  let ?d1 = "pop_result now aid d"
  have inv1: "dispatch_inv t ({aid} \<union> {}) ?d1"
    by (rule dispatch_inv_cong [OF inv]) (auto simp: res)
  have handle: "case handle_result env w aid (node_of aid) r d2 of
      Inl e \<Rightarrow> process_fault env w aid (Returned r) e
    | Inr (d', held) \<Rightarrow> dispatch_inv t (act_ids held) d' \<and>
        (\<forall>a \<in> set held. act_refs a \<subseteq> dom (dp_payloads d') \<and> ac_node_id a \<in> node_set t)"
    if d2: "dispatch_inv t ({aid} \<union> {}) d2" "dp_state d2 = dp_state d" for r d2
  proof (cases "dict_get (dict_at (tp_out_ports t) (node_of aid)) (nd_port r)")
    case None
    then show ?thesis by (simp add: handle_result_def env process_fault_def port_fault_def)
  next
    case (Some edges)
    have run2: "rs_outcome (dp_state d2) = ORunning" using run d2(2) by simp
    obtain dh where dh: "halt_budget t (lw_after w) d2 = Inr dh" "dispatch_inv t {} dh"
      by (rule halt_budget_running [OF d2(1) run2])
    obtain d' held where emit: "emit_result env (lw_after w) aid r edges d2 = Inr (d', held)"
      "dispatch_inv t ({} \<union> act_ids held) d'" "\<forall>a \<in> set held. act_refs a \<subseteq> dom (dp_payloads d')"
      and ex: "\<exists>st. advance t (dp_state d2) (Emitted aid (nd_port r) (aid @ ''.'' @ nd_port r)) = Inr st \<and> held = sp_activations st"
      by (rule emit_result_ok [OF d2(1) run2 _ la(2) _ env]) (use la(1) d2(2) Some node(1) in simp_all)
    have "\<forall>a \<in> set held. ac_node_id a \<in> node_set t" using ex advance_nodes by blast
    with emit dh Some show ?thesis
      by (auto simp: handle_result_def env process_fault_def port_fault_def await_fault_def emitted_port_def
          boundary_check_def budget_rejects_def finalize_result_def split: option.splits bool.splits)
  qed
  have "process_result env now w d = (case classify env now aid (node_of aid) raw ?d1 of
            Inl e \<Rightarrow> Inl e
          | Inr (None, d2) \<Rightarrow> Inr (d2, [])
          | Inr (Some r, d2) \<Rightarrow> handle_result env w aid (node_of aid) r d2)"
    using True by (simp add: process_result_def res Let_def)
  moreover have "case (case classify env now aid (node_of aid) raw ?d1 of
            Inl e \<Rightarrow> Inl e
          | Inr (None, d2) \<Rightarrow> Inr (d2, [])
          | Inr (Some r, d2) \<Rightarrow> handle_result env w aid (node_of aid) r d2) of
      Inl e \<Rightarrow> process_fault env w aid raw e
    | Inr (d', held) \<Rightarrow> dispatch_inv t (act_ids held) d' \<and>
        (\<forall>a \<in> set held. act_refs a \<subseteq> dom (dp_payloads d') \<and> ac_node_id a \<in> node_set t)"
  proof (cases raw)
    case (Returned r)
    from handle [OF inv1, of r] show ?thesis unfolding Returned by (simp add: classify_def)
  next
    case (Raised x)
    show ?thesis
    proof (cases "unroutable env aid x")
      case True
      then show ?thesis unfolding Raised by (auto simp: classify_def unroutable_def process_fault_def)
    next
      case noraise: False
      show ?thesis
      proof (cases "xn_budget x")
        case True
        obtain dh where dh: "halt_budget t now ?d1 = Inr dh" "dispatch_inv t {} dh"
          by (rule halt_budget_running [OF inv1]) (use run in simp)
        with True noraise show ?thesis unfolding Raised by (simp add: classify_def unroutable_def env)
      next
        case False
        then have decl: "xn_failure x" "declares_fail (node_spec_of env (node_of aid))" using noraise by (auto simp: unroutable_def)
        let ?d2 = "note_failure env aid (node_of aid) x ?d1"
        have inv2: "dispatch_inv t ({aid} \<union> {}) ?d2" by (rule dispatch_inv_cong [OF inv1]) simp_all
        have port: "''fail'' \<in> set (dict_keys (dict_at (tp_out_ports t) (node_of aid)))"
          by (rule fail) (use decl(2) node in simp_all)
        have "process_fault env w aid raw e" if "process_fault env w aid (Returned (fail_result aid x)) e" for e
          using that port
          by (auto simp: Raised process_fault_def port_fault_def await_fault_def emitted_port_def fail_result_def env
              map_of_eq_None_iff split: option.splits)
        with handle [OF inv2, of "fail_result aid x"] noraise False decl show ?thesis
          unfolding Raised by (auto simp: classify_def unroutable_def split: sum.splits)
      qed
    qed
  qed
  ultimately show ?thesis by simp
qed

end

section \<open>On a validated graph\<close>

lemma first_nodes_distinct:
  "distinct (map gn_id (pg_nodes g)) \<Longrightarrow> first_nodes g = map (\<lambda>n. (gn_id n, n)) (pg_nodes g)"
proof -
  have "foldl (\<lambda>d n. if gn_id n \<in> set (dict_keys d) then d else d @ [(gn_id n, n)]) acc ns = acc @ map (\<lambda>n. (gn_id n, n)) ns"
    if "distinct (dict_keys acc @ map gn_id ns)" for acc ns
    using that
  proof (induction ns arbitrary: acc)
    case (Cons n ns)
    from Cons.prems have "distinct (dict_keys (acc @ [(gn_id n, n)]) @ map gn_id ns)" "gn_id n \<notin> set (dict_keys acc)" by auto
    with Cons.IH [of "acc @ [(gn_id n, n)]"] show ?case by (simp del: set_map)
  qed simp
  from this [of "[]" "pg_nodes g"] show "distinct (map gn_id (pg_nodes g)) \<Longrightarrow> ?thesis" by (simp add: first_nodes_def)
qed

lemma env_nodes: "distinct (map gn_id (pg_nodes g)) \<Longrightarrow> de_nodes (mk_env t g reg handlers) = first_nodes g"
  by (simp add: mk_env_def first_nodes_distinct dict_of_distinct comp_def)

context legal_graph
begin

lemma out_port_keys:
  assumes "n \<in> node_set topo"
  shows "set (dict_keys (dict_at (tp_out_ports topo) n))
    = np_name ` {p \<in> set (nt_ports (node_spec (first_nodes g) registry n)). np_direction p = Out}"
  unfolding outs_topo [OF assms] build_outs_def
  using dict_of_facts(2) [of "map (\<lambda>p. (np_name p,
         map fst (filter (\<lambda>(_, x). ge_source x = n \<and> ge_source_port x = np_name p) (edges_by_id g))))
       (filter (\<lambda>p. np_direction p = Out) (sorted_ports (node_spec (first_nodes g) registry n)))"]
  by (simp add: image_image)

lemma fail_port_declared:
  assumes "n \<in> node_set topo" "declares_fail (node_spec_of (mk_env topo g registry handlers) n)"
  shows "''fail'' \<in> set (dict_keys (dict_at (tp_out_ports topo) n))"
proof -
  have "node_spec_of (mk_env topo g registry handlers) n = node_spec (first_nodes g) registry n"
    unfolding node_spec_of_def node_spec_def env_nodes [OF distinct_ids] by (simp add: mk_env_def)
  with assms(2) obtain p where "p \<in> set (nt_ports (node_spec (first_nodes g) registry n))" "np_name p = ''fail''" "np_direction p = Out"
    by (auto simp: declares_fail_def list_ex_iff)
  then show ?thesis unfolding out_port_keys [OF assms(1)] by (metis (mono_tags, lifting) image_eqI mem_Collect_eq)
qed

lemma nodes_startable:
  assumes "executable g handlers = []" "n \<in> node_set topo"
  shows "startable (mk_env topo g registry handlers) n"
proof -
  have n: "n \<in> set (dict_keys (first_nodes g))" using assms(2) by (simp only: node_set_topo)
  have eq: "dict_get (first_nodes g) n = Some (dict_at (first_nodes g) n)"
    using node_typed(3) [OF n] first_nodes_keys(2) by (simp add: map_of_is_SomeI)
  moreover have "dict_at (first_nodes g) n \<in> set (pg_nodes g)"
    using node_typed(3) [OF n] by (auto simp: first_nodes_distinct [OF distinct_ids])
  ultimately show ?thesis
    using executable_Nil(1) [OF assms(1)] node_typed(1) [OF n] env_nodes [OF distinct_ids]
    unfolding startable_def by (auto simp: mk_env_def)
qed

end

text \<open>What a validated and executable graph gives the dispatcher.\<close>

lemma dispatch_env_ok:
  assumes "from_graph check_model g registry roles = Inr t" "executable g handlers = []"
  shows "topology_laws t"
    "n \<in> node_set t \<Longrightarrow> declares_fail (node_spec_of (mk_env t g registry handlers) n) \<Longrightarrow>
       ''fail'' \<in> set (dict_keys (dict_at (tp_out_ports t) n))"
    "n \<in> node_set t \<Longrightarrow> startable (mk_env t g registry handlers) n"
  using from_graph_laws [OF assms(1)] legal_graph.fail_port_declared [OF from_graph_legal(1) [OF assms(1)]]
    legal_graph.nodes_startable [OF from_graph_legal(1) [OF assms(1)] assms(2)]
  by (simp_all add: from_graph_legal(2) [OF assms(1)])

lemma mk_env_topology [simp]: "de_topology (mk_env t g reg handlers) = t"
  by (simp add: mk_env_def)

lemma dispatch_init_ok:
  assumes "from_graph check_model g registry roles = Inr t" "executable g handlers = []"
  obtains d where "dispatch_init (mk_env t g registry handlers) now = Inr d"
proof -
  let ?env = "mk_env t g registry handlers"
  have "\<forall>a \<in> set (sp_activations (start t)). startable ?env (ac_node_id a)"
    using dispatch_env_ok(3) [OF assms] settle_nodes by (auto simp: start_def)
  from start_all_total [OF this] show thesis using that by (auto simp: dispatch_init_def)
qed

lemma dispatch_init_inv:
  assumes "topology_laws t" "dispatch_init (mk_env t g registry handlers) now = Inr d"
  shows "dispatch_inv t {} d"
proof (rule dispatch_inv_start)
  show "start_all (mk_env t g registry handlers) now (sp_activations (start t)) (fresh_dispatcher t) = Inr d"
    using assms(2) by (simp add: dispatch_init_def)
  have "sp_outcome (start t) \<in> {ORunning, OCompleted}" "rs_outcome (sp_state (start t)) = sp_outcome (start t)"
    using topology_laws.settle_step(2,3) [OF assms(1)] topology_laws.core_init [OF assms(1)] unfolding start_def by blast+
  then have "rs_outcome (sp_state (start t)) \<noteq> OEscalated" by auto
  then show "dispatch_inv t (act_ids (sp_activations (start t))) (fresh_dispatcher t)"
    using start_effect [of t] unfolding dispatch_inv_def step_effect_def
    by (simp add: fresh_dispatcher_def reach_start)
qed

text \<open>The invariant of every state of a run, and what one iteration does there.\<close>

lemma dispatch_iteration:
  assumes graph: "from_graph check_model g registry roles = Inr t" "executable g handlers = []"
    and inv: "dispatch_inv t {} d" and run: "rs_outcome (dp_state d) = ORunning" and res: "dp_results d = (aid, raw) # rest"
  shows "case loop_iteration (mk_env t g registry handlers) now w d of
      Inl e \<Rightarrow> (\<exists>x. e = Reraised x \<and> lw_wait w = Some x) \<or> process_fault (mk_env t g registry handlers) w aid raw e
    | Inr d' \<Rightarrow> dispatch_inv t {} d' \<and> lw_wait w = None \<and>
        (aid \<in> state_live (dp_state d) \<longrightarrow>
           (\<forall>x. \<not> (raw = Raised x \<and> unroutable (mk_env t g registry handlers) aid x)) \<and>
           ((\<exists>x. await_fault (mk_env t g registry handlers) w aid raw x) \<longrightarrow> dp_budget_halted d' \<and> rejection w raw))"
proof (cases "lw_wait w")
  case (Some x)
  then show ?thesis by (simp add: loop_iteration_def)
next
  case None
  let ?env = "mk_env t g registry handlers"
  have ok: "case process_result ?env now w d of
      Inl e \<Rightarrow> process_fault ?env w aid raw e
    | Inr (d', held) \<Rightarrow> dispatch_inv t (act_ids held) d' \<and>
        (\<forall>a \<in> set held. act_refs a \<subseteq> dom (dp_payloads d') \<and> ac_node_id a \<in> node_set t)"
    by (rule topology_laws.process_result_ok [OF dispatch_env_ok(1) [OF graph] inv run res mk_env_topology])
      (rule dispatch_env_ok(2) [OF graph])
  show ?thesis
  proof (cases "process_result ?env now w d")
    case (Inl e)
    with ok None show ?thesis by (simp add: loop_iteration_def)
  next
    case (Inr p)
    obtain d1 held where p: "p = (d1, held)" by (cases p)
    from ok have d1: "dispatch_inv t (act_ids held) d1" and nodes: "\<forall>a \<in> set held. ac_node_id a \<in> node_set t"
      by (simp_all add: Inr p)
    have "\<forall>a \<in> set held. startable ?env (ac_node_id a)" using nodes dispatch_env_ok(3) [OF graph] by blast
    from start_all_total [OF this] obtain d' where d': "start_all ?env (lw_after w) held d1 = Inr d'" by blast
    have "process_result ?env now w d = Inr (d1, held)" using Inr p by simp
    note met = process_result_met [OF this res]
    from dispatch_inv_start [OF d1 d'] met start_all_sel(6) [OF d'] None show ?thesis
      by (auto simp: loop_iteration_def Inr p d')
  qed
qed

lemma dispatch_reach_inv:
  assumes graph: "from_graph check_model g registry roles = Inr t" "executable g handlers = []"
    and "dispatch_reach (mk_env t g registry handlers) d"
  shows "dispatch_inv t {} d"
  using assms(3)
proof (induction rule: dispatch_reach.induct)
  case (dr_init now d)
  then show ?case by (rule dispatch_init_inv [OF dispatch_env_ok(1) [OF graph]])
next
  case (dr_task d aid raw)
  show ?case by (rule dispatch_inv_cong [OF dr_task.IH]) (auto simp: task_done_def)
next
  case (dr_loop d now w d')
  obtain aid raw rest where "dp_results d = (aid, raw) # rest" using dr_loop.hyps(3) by (cases "dp_results d") auto
  from dispatch_iteration [OF graph dr_loop.IH dr_loop.hyps(2) this, where now = now and w = w] dr_loop.hyps(4) show ?case by simp
qed

section \<open>The review loop, dispatched\<close>

abbreviation review_env :: dispatch_env where
  "review_env \<equiv> mk_env review_topology review_graph NODE_TYPES HANDLERS"

lemma review_executable: "executable review_graph HANDLERS = []"
  by code_simp

definition review_dispatch :: "string dispatcher" where
  "review_dispatch = (case dispatch_init review_env 0 of Inr d \<Rightarrow> d | Inl _ \<Rightarrow> fresh_dispatcher review_topology)"

definition intake_result :: "string node_result" where
  "intake_result = \<lparr>nd_port = ''ok'', nd_payload = NoPayload, nd_author_model = None, nd_meta = [], nd_result = None, nd_finalize = False\<rparr>"

definition review_ready :: "string dispatcher" where
  "review_ready = task_done ''intake#1'' (Returned intake_result) review_dispatch"

lemma review_dispatch_facts:
  "isl (dispatch_init review_env 0 :: dispatch_error + string dispatcher) = False"
  "dp_running review_dispatch = [''intake#1'']" "dp_results review_dispatch = []"
  "rs_outcome (dp_state review_dispatch) = ORunning"
  by code_simp+

lemma review_dispatch_init: "dispatch_init review_env 0 = Inr review_dispatch"
  using review_dispatch_facts(1) unfolding review_dispatch_def by (auto split: sum.splits)

lemma review_dispatch_reach: "dispatch_reach review_env review_dispatch" "dispatch_reach review_env review_ready"
  using dr_init [OF review_dispatch_init] dr_task [of review_env review_dispatch "''intake#1''"]
  by (simp_all add: review_ready_def review_dispatch_facts)

lemma review_ready_facts: "rs_outcome (dp_state review_ready) = ORunning"
  "dp_results review_ready = [(''intake#1'', Returned intake_result)]"
  by (simp_all add: review_ready_def task_done_def review_dispatch_facts)

section \<open>Properties\<close>







definition all_return :: loop_world where
  "all_return = \<lparr>lw_wait = None, lw_drain = None, lw_budget = None, lw_finalize = None, lw_after = 2\<rparr>"


lemma nonempty_mono: "L \<subseteq> R \<Longrightarrow> L \<noteq> {} \<Longrightarrow> R \<noteq> {}"
  by blast

text \<open>C10: a run never stalls. While the outcome is running, something is live, and every live activation
  has a task that is still running or a result waiting in the queue; so the condition the loop
  awaits comes true as soon as any handler returns.\<close>

theorem dispatch_never_stalls:
  assumes "from_graph check_model g registry roles = Inr t" "executable g handlers = []"
    and "dispatch_reach (mk_env t g registry handlers) d"
  shows "state_live (dp_state d) \<subseteq> set (dp_running d) \<union> fst ` set (dp_results d)
    \<and> (rs_outcome (dp_state d) = ORunning \<longrightarrow> dp_results d \<noteq> [] \<or> dp_running d \<noteq> [])"
proof -
  note inv = dispatch_reach_inv [OF assms]
  note good = topology_laws.reachable_good [OF from_graph_laws [OF assms(1)] dispatch_invD(1) [OF inv]]
  have "state_live (dp_state d) \<noteq> {}" if "rs_outcome (dp_state d) = ORunning" using goodD(2) [OF good that] by simp
  from nonempty_mono [OF dispatch_invD(3) [OF inv] this]
  have "dp_results d \<noteq> [] \<or> dp_running d \<noteq> []" if "rs_outcome (dp_state d) = ORunning" using that by auto
  with dispatch_invD(3) [OF inv] show ?thesis by simp
qed

theorem dispatch_never_stalls_witness:
  "rs_outcome (dp_state review_dispatch) = ORunning \<and>
   state_live (dp_state review_dispatch) \<subseteq> set (dp_running review_dispatch) \<union> fst ` set (dp_results review_dispatch)"
  using dispatch_never_stalls [OF review_from_graph review_executable review_dispatch_reach(1), THEN conjunct1]
  by (intro conjI review_dispatch_facts(4))

text \<open>No handler is given a reference that cannot be resolved. Every token in a slot refers to a
  payload in the store, and so does every input of every activation that an iteration starts.\<close>

lemma dispatch_inputs_resolve:
  assumes "from_graph check_model g registry roles = Inr t" "executable g handlers = []"
    and "dispatch_reach (mk_env t g registry handlers) d" "rs_outcome (dp_state d) = ORunning" "dp_results d \<noteq> []"
    and "process_result (mk_env t g registry handlers) now w d = Inr (d', held)"
  shows "(\<forall>a \<in> set held. act_refs a \<subseteq> dom (dp_payloads d')) \<and> slot_refs (rs_slots (dp_state d')) \<subseteq> dom (dp_payloads d')"
proof -
  obtain aid raw rest where res: "dp_results d = (aid, raw) # rest" using assms(5) by (cases "dp_results d") auto
  have "case process_result (mk_env t g registry handlers) now w d of
      Inl e \<Rightarrow> process_fault (mk_env t g registry handlers) w aid raw e
    | Inr (d', held) \<Rightarrow> dispatch_inv t (act_ids held) d' \<and>
        (\<forall>a \<in> set held. act_refs a \<subseteq> dom (dp_payloads d') \<and> ac_node_id a \<in> node_set t)"
    by (rule topology_laws.process_result_ok [OF dispatch_env_ok(1) [OF assms(1,2)] dispatch_reach_inv [OF assms(1-3)]
          assms(4) res mk_env_topology]) (rule dispatch_env_ok(2) [OF assms(1,2)])
  then have "dispatch_inv t (act_ids held) d'" "\<forall>a \<in> set held. act_refs a \<subseteq> dom (dp_payloads d')"
    by (simp_all add: assms(6))
  then show ?thesis using dispatch_invD(2) by blast
qed

lemma review_processed:
  "\<exists>d' held. process_result review_env 1 all_return review_ready = Inr (d', held)"
proof -
  have "isl (process_result review_env 1 all_return review_ready) = False" by code_simp
  then show ?thesis by (cases "process_result review_env 1 all_return review_ready") auto
qed

text \<open>The facts recorded for the outside agree with the router. An escalating activation is recorded
  exactly when the run escalated, and once the budget halted the run its result string is
  \<open>rejected:budget\<close>, whatever result a handler had offered.\<close>

lemma dispatch_facts_agree:
  assumes "from_graph check_model g registry roles = Inr t" "executable g handlers = []"
    and "dispatch_reach (mk_env t g registry handlers) d"
  shows "(dp_escalated_by d \<noteq> None \<longleftrightarrow> rs_outcome (dp_state d) = OEscalated)
    \<and> (dp_budget_halted d \<longrightarrow> outcome_string (finish_dispatch d) t = ''rejected:budget'')"
  using dispatch_invD(4,5) [OF dispatch_reach_inv [OF assms]] by (auto simp: outcome_string_def finish_dispatch_def Let_def)

end
