(* ===== verification/Notify_Schedule.thy ===== *)
theory Notify_Schedule
  imports Core_Models
begin

text \<open>
  When notifications fire, \<open>notify/schedule.py\<close>. A \<open>datetime\<close> is the number of microseconds since
  the start of year 1 and a \<open>timedelta\<close> a number of microseconds, each with its range of Python:
  leaving it raises \<open>OverflowError\<close>, the left value of the result. The two fractions of the timeout
  are exact: for timeouts below ten million hours the rounding of the float product is far below
  half a microsecond, so \<open>timedelta\<close> rounds it away.
\<close>

section \<open>Time\<close>

datatype notify_reason = OPENED | REMIND | ESCALATE | EXPIRE

datatype overflow = OverflowError

definition hour_us :: int where
  "hour_us = 3600000000"

definition day_us :: int where
  "day_us = 86400000000"

text \<open>\<open>timedelta\<close>: at most 999999999 days either way; \<open>datetime\<close>: years 1 to 9999.\<close>

definition mk_timedelta :: "int \<Rightarrow> overflow + int" where
  "mk_timedelta us = (if - 999999999 * day_us \<le> us \<and> us < 1000000000 * day_us then Inr us else Inl OverflowError)"

definition add_time :: "int \<Rightarrow> overflow + int \<Rightarrow> overflow + int" where
  "add_time at delta =
     (case delta of Inl e \<Rightarrow> Inl e
      | Inr us \<Rightarrow> if 0 \<le> at + us \<and> at + us < 3652059 * day_us then Inr (at + us) else Inl OverflowError)"

type_synonym schedule = "(int \<times> notify_reason) list"

section \<open>The schedule\<close>

text \<open>The delay of an entry: the explicit hours, or a fraction (in tenths) of the timeout.\<close>

definition delay_us :: "int option \<Rightarrow> int \<Rightarrow> int \<Rightarrow> int" where
  "delay_us explicit timeout_hours tenths =
     (case explicit of Some h \<Rightarrow> h * hour_us | None \<Rightarrow> timeout_hours * tenths * (hour_us div 10))"

definition schedule_entry ::
    "int \<Rightarrow> int option \<Rightarrow> notify_reason \<Rightarrow> int option \<Rightarrow> int \<Rightarrow> int \<Rightarrow> overflow + schedule" where
  "schedule_entry opened_at expires reason explicit timeout_hours tenths =
     (case add_time opened_at (mk_timedelta (delay_us explicit timeout_hours tenths)) of
        Inl e \<Rightarrow> Inl e
      | Inr at \<Rightarrow>
          if at \<le> opened_at then Inr []
          else if (case expires of None \<Rightarrow> False | Some x \<Rightarrow> x \<le> at) then Inr []
          else Inr [(at, reason)])"

definition final_deadline :: "gate_config \<Rightarrow> int \<Rightarrow> int \<Rightarrow> overflow + int option" where
  "final_deadline cfg timeout_hours opened_at =
     (if gc_on_timeout cfg = THold then Inr None
      else case add_time opened_at (mk_timedelta (timeout_hours * hour_us)) of
             Inl e \<Rightarrow> Inl e | Inr x \<Rightarrow> Inr (Some x))"

definition build_schedule :: "gate_config \<Rightarrow> int \<Rightarrow> int \<Rightarrow> overflow + schedule \<times> int option" where
  "build_schedule cfg timeout_hours opened_at =
     (case final_deadline cfg timeout_hours opened_at of Inl e \<Rightarrow> Inl e | Inr expires \<Rightarrow>
      case schedule_entry opened_at expires REMIND (gc_remind_after_hours cfg) timeout_hours 5 of
        Inl e \<Rightarrow> Inl e | Inr r \<Rightarrow>
      case schedule_entry opened_at expires ESCALATE (gc_escalate_after_hours cfg) timeout_hours 8 of
        Inl e \<Rightarrow> Inl e | Inr s \<Rightarrow>
      Inr (sort_key fst ([(opened_at, OPENED)] @ r @ s)
             @ (case expires of None \<Rightarrow> [] | Some x \<Rightarrow> [(x, EXPIRE)]), expires))"

section \<open>Shape of a schedule\<close>

lemma schedule_entry_cases:
  assumes "schedule_entry o' ex r ex_h th f = Inr es"
  shows "es = [] \<or> (\<exists>at. es = [(at, r)] \<and> o' < at \<and> (\<forall>x. ex = Some x \<longrightarrow> at < x))"
  using assms by (auto simp: schedule_entry_def split: sum.splits if_splits option.splits)

lemma sort_opened_first:
  assumes "\<forall>e \<in> set es. o' < fst e"
  shows "sort_key fst ((o', OPENED) # es) = (o', OPENED) # sort_key fst (es :: schedule)"
proof -
  have "\<forall>e \<in> set (sort_key fst es). fst (o', OPENED) \<le> fst e" using assms by (simp add: less_imp_le)
  then show ?thesis by (simp add: insort_is_Cons)
qed

lemma build_schedule_cases:
  assumes "build_schedule cfg th o' = Inr (sched, ex)"
  obtains mid where "sched = (o', OPENED) # mid @ (case ex of None \<Rightarrow> [] | Some x \<Rightarrow> [(x, EXPIRE)])"
    "sorted (map fst mid)" "set (map snd mid) \<subseteq> {REMIND, ESCALATE}" "length mid \<le> 2"
    "\<forall>e \<in> set mid. o' < fst e \<and> (\<forall>x. ex = Some x \<longrightarrow> fst e < x)"
    "ex = None \<longleftrightarrow> gc_on_timeout cfg = THold" "\<forall>x. ex = Some x \<longrightarrow> x = o' + th * hour_us"
proof -
  obtain r s where
    r: "schedule_entry o' ex REMIND (gc_remind_after_hours cfg) th 5 = Inr r"
    and s: "schedule_entry o' ex ESCALATE (gc_escalate_after_hours cfg) th 8 = Inr s"
    and ex: "final_deadline cfg th o' = Inr ex"
    and sched: "sched = sort_key fst ([(o', OPENED)] @ r @ s) @ (case ex of None \<Rightarrow> [] | Some x \<Rightarrow> [(x, EXPIRE)])"
    using assms by (auto simp: build_schedule_def split: sum.splits)
  note rc = schedule_entry_cases [OF r] and sc = schedule_entry_cases [OF s]
  let ?mid = "sort_key fst (r @ s)"
  have lt: "\<forall>e \<in> set (r @ s). o' < fst e \<and> (\<forall>x. ex = Some x \<longrightarrow> fst e < x)" using rc sc by auto
  show thesis
  proof (rule that [of ?mid])
    show "sched = (o', OPENED) # ?mid @ (case ex of None \<Rightarrow> [] | Some x \<Rightarrow> [(x, EXPIRE)])"
      using sort_opened_first [of "r @ s" o'] lt by (simp add: sched)
    show "sorted (map fst ?mid)" by simp
    show "set (map snd ?mid) \<subseteq> {REMIND, ESCALATE}" "length ?mid \<le> 2" using rc sc by auto
    show "\<forall>e \<in> set ?mid. o' < fst e \<and> (\<forall>x. ex = Some x \<longrightarrow> fst e < x)" using lt by simp
    show "ex = None \<longleftrightarrow> gc_on_timeout cfg = THold"
      using ex by (auto simp: final_deadline_def split: sum.splits if_splits)
    show "\<forall>x. ex = Some x \<longrightarrow> x = o' + th * hour_us"
      using ex by (auto simp: final_deadline_def add_time_def mk_timedelta_def split: sum.splits if_splits)
  qed
qed

section \<open>Properties\<close>

text \<open>For a timeout that is not negative, a schedule starts with the opening, is sorted in time,
  has at most a reminder and an escalation strictly between opening and expiry, and ends with the
  expiry at the final deadline exactly when there is one, which is the case exactly when the gate
  does not hold.\<close>

lemma schedule_well_formed:
  assumes "build_schedule cfg timeout_hours opened_at = Inr (sched, expires)" "0 \<le> timeout_hours"
  shows "hd sched = (opened_at, OPENED) \<and> sorted (map fst sched) \<and> length sched \<le> 4
    \<and> (expires = None \<longleftrightarrow> gc_on_timeout cfg = THold)
    \<and> (case expires of
         None \<Rightarrow> EXPIRE \<notin> set (map snd sched)
       | Some x \<Rightarrow> x = opened_at + timeout_hours * hour_us \<and> last sched = (x, EXPIRE)
           \<and> EXPIRE \<notin> set (map snd (butlast sched)))"
proof -
  obtain mid where m: "sched = (opened_at, OPENED) # mid @ (case expires of None \<Rightarrow> [] | Some x \<Rightarrow> [(x, EXPIRE)])"
    "sorted (map fst mid)" "set (map snd mid) \<subseteq> {REMIND, ESCALATE}" "length mid \<le> 2"
    "\<forall>e \<in> set mid. opened_at < fst e \<and> (\<forall>x. expires = Some x \<longrightarrow> fst e < x)"
    "expires = None \<longleftrightarrow> gc_on_timeout cfg = THold" "\<forall>x. expires = Some x \<longrightarrow> x = opened_at + timeout_hours * hour_us"
    by (rule build_schedule_cases [OF assms(1)])
  have "opened_at \<le> opened_at + timeout_hours * hour_us" using assms(2) by (simp add: hour_us_def)
  with m show ?thesis
    by (cases expires) (auto simp: sorted_append less_imp_le butlast_append)
qed

text \<open>For configurations of any realistic size the schedule is total: when the gate opens within
  the first nine thousand years and no delay exceeds a million hours, nothing overflows.\<close>

theorem schedule_total:
  assumes "0 \<le> opened_at" "opened_at < 3287181 * day_us" "0 \<le> timeout_hours" "timeout_hours \<le> 1000000"
    and "\<forall>h. gc_remind_after_hours cfg = Some h \<longrightarrow> 0 < h \<and> h \<le> 1000000"
    and "\<forall>h. gc_escalate_after_hours cfg = Some h \<longrightarrow> 0 < h \<and> h \<le> 1000000"
  shows "\<exists>sched expires. build_schedule cfg timeout_hours opened_at = Inr (sched, expires)"
proof -
  have ok: "\<exists>x. add_time opened_at (mk_timedelta us) = Inr x" if "0 \<le> us" "us \<le> 1000000 * hour_us" for us
    using that assms(1,2) by (simp add: add_time_def mk_timedelta_def day_us_def hour_us_def)
  have d: "0 \<le> delay_us e timeout_hours k \<and> delay_us e timeout_hours k \<le> 1000000 * hour_us"
    if "\<forall>h. e = Some h \<longrightarrow> 0 < h \<and> h \<le> 1000000" "0 \<le> k" "k \<le> 10" for e k
  proof (cases e)
    case None
    have "timeout_hours * k \<le> 1000000 * 10" using that(2,3) assms(3,4) by (intro mult_mono) auto
    with None that(2) assms(3) show ?thesis by (simp add: delay_us_def hour_us_def mult.commute)
  qed (use that in \<open>auto simp: delay_us_def hour_us_def\<close>)
  have "\<exists>x. final_deadline cfg timeout_hours opened_at = Inr x"
    using ok [of "timeout_hours * hour_us"] assms(3,4) by (auto simp: final_deadline_def hour_us_def)
  moreover have "\<exists>x. schedule_entry opened_at ex REMIND (gc_remind_after_hours cfg) timeout_hours 5 = Inr x" for ex
    using ok [of "delay_us (gc_remind_after_hours cfg) timeout_hours 5"] d [OF assms(5), of 5]
    by (auto simp: schedule_entry_def)
  moreover have "\<exists>x. schedule_entry opened_at ex ESCALATE (gc_escalate_after_hours cfg) timeout_hours 8 = Inr x" for ex
    using ok [of "delay_us (gc_escalate_after_hours cfg) timeout_hours 8"] d [OF assms(6), of 8]
    by (auto simp: schedule_entry_def)
  ultimately show ?thesis by (metis (no_types, lifting) build_schedule_def sum.simps(6))
qed

theorem schedule_total_witness:
  "\<exists>sched expires. build_schedule default_gate_config 48 0 = Inr (sched, expires)"
  by (rule schedule_total) (simp_all add: default_gate_config_def day_us_def)

text \<open>
  Totality has a limit that the module's documentation does not name: a configuration that passes
  every field constraint can still overflow the range of \<open>datetime\<close>.
\<close>

lemma schedule_overflow:
  "build_schedule (default_gate_config\<lparr>gc_remind_after_hours := Some 100000000\<rparr>) 48 0 = Inl OverflowError"
  by code_simp

end
