(* ===== verification/Quality_Gate.thy ===== *)
theory Quality_Gate
  imports Kroker_Prelude
begin

text \<open>
  The deterministic merge gate, \<open>gate.py\<close>: checks with their classification, the floor that no
  configuration can demote, the manifest of checks that must be present, and the evaluation that
  turns checks and audited overrides into a report.
\<close>

section \<open>Checks\<close>

datatype check_class = ABSOLUTE | ADVISORY

record check_result =
  ck_name :: string
  ck_passed :: bool
  ck_class :: check_class
  ck_detail :: string

record gate_override =
  ov_check :: string
  ov_approved_by :: string
  ov_reason :: string

record gate_report =
  gr_passed :: bool
  gr_blocking :: "string list"
  gr_overridden :: "string list"
  gr_checks :: "check_result list"

definition ABSOLUTE_FLOOR :: "string list" where
  "ABSOLUTE_FLOOR = [''security_no_critical'', ''security_scan_collected'']"

definition MERGE_REQUIRED_CHECKS :: "(string, check_class) dict" where
  "MERGE_REQUIRED_CHECKS = [
     (''build_integration_green'', ABSOLUTE), (''lint_clean'', ABSOLUTE),
     (''security_scan_collected'', ABSOLUTE), (''security_no_critical'', ABSOLUTE),
     (''review_severity'', ADVISORY), (''review_lenses_present'', ADVISORY),
     (''traceability'', ADVISORY), (''coverage'', ADVISORY), (''plan_drift'', ADVISORY)]"

definition build_check :: "string \<Rightarrow> bool \<Rightarrow> check_class \<Rightarrow> string \<Rightarrow> check_result" where
  "build_check name passed requested detail =
     \<lparr>ck_name = name, ck_passed = passed,
      ck_class = (if name \<in> set ABSOLUTE_FLOOR then ABSOLUTE else requested), ck_detail = detail\<rparr>"

definition normalized :: "check_result list \<Rightarrow> check_result list" where
  "normalized checks =
     map (\<lambda>c. if ck_name c \<in> set ABSOLUTE_FLOOR
              then build_check (ck_name c) (ck_passed c) (ck_class c) (ck_detail c) else c) checks"

definition synthesized :: "string set \<Rightarrow> check_result list" where
  "synthesized present =
     map (\<lambda>(name, cls). build_check name False cls
            (''MISCONFIGURED: required check '' @ py_repr name @ '' absent from gate input''))
       (filter (\<lambda>(name, _). name \<notin> present) MERGE_REQUIRED_CHECKS)"

section \<open>Evaluation\<close>

text \<open>The loop body, on the accumulators \<open>blocking\<close> and \<open>overridden\<close>.\<close>

definition grade :: "string set \<Rightarrow> check_result \<Rightarrow> string list \<times> string list \<Rightarrow> string list \<times> string list" where
  "grade override_names c acc =
     (case acc of (blocking, overridden) \<Rightarrow>
        if ck_passed c then (blocking, overridden)
        else if ck_class c = ABSOLUTE then (blocking @ [ck_name c], overridden)
        else if ck_name c \<in> override_names then (blocking, overridden @ [ck_name c])
        else (blocking @ [ck_name c], overridden))"

definition evaluate_quality_gate :: "check_result list \<Rightarrow> gate_override list option \<Rightarrow> gate_report" where
  "evaluate_quality_gate checks overrides =
     (let ns = normalized checks;
          evaluated = ns @ synthesized (set (map ck_name ns));
          override_names = (case overrides of None \<Rightarrow> {} | Some os \<Rightarrow> set (map ov_check os))
      in case fold (grade override_names) evaluated ([], []) of (blocking, overridden) \<Rightarrow>
           \<lparr>gr_passed = (blocking = []), gr_blocking = blocking, gr_overridden = overridden,
            gr_checks = evaluated\<rparr>)"

section \<open>What the gate decides\<close>

definition blocks :: "string set \<Rightarrow> check_result \<Rightarrow> bool" where
  "blocks ov c \<longleftrightarrow> \<not> ck_passed c \<and> (ck_class c = ABSOLUTE \<or> ck_name c \<notin> ov)"

definition waived :: "string set \<Rightarrow> check_result \<Rightarrow> bool" where
  "waived ov c \<longleftrightarrow> \<not> ck_passed c \<and> ck_class c = ADVISORY \<and> ck_name c \<in> ov"

lemma fold_grade:
  "fold (grade ov) cs (b, w) = (b @ map ck_name (filter (blocks ov) cs), w @ map ck_name (filter (waived ov) cs))"
proof (induction cs arbitrary: b w)
  case (Cons c cs)
  then show ?case by (cases "ck_class c") (auto simp: grade_def blocks_def waived_def)
qed simp

lemma normalized_names [simp]: "map ck_name (normalized cs) = map ck_name cs"
  by (simp add: normalized_def build_check_def)

lemma normalized_name_set [simp]: "ck_name ` set (normalized cs) = ck_name ` set cs"
  by (metis normalized_names set_map)

lemma floor_absolute: "c \<in> set (normalized cs) \<Longrightarrow> ck_name c \<in> set ABSOLUTE_FLOOR \<Longrightarrow> ck_class c = ABSOLUTE"
  by (auto simp: normalized_def build_check_def split: if_splits)

definition override_set :: "gate_override list option \<Rightarrow> string set" where
  "override_set overrides = (case overrides of None \<Rightarrow> {} | Some os \<Rightarrow> set (map ov_check os))"

lemma evaluate_sel:
  "gr_checks (evaluate_quality_gate cs os) = normalized cs @ synthesized (set (map ck_name cs))"
  "gr_blocking (evaluate_quality_gate cs os) =
     map ck_name (filter (blocks (override_set os)) (gr_checks (evaluate_quality_gate cs os)))"
  "gr_overridden (evaluate_quality_gate cs os) =
     map ck_name (filter (waived (override_set os)) (gr_checks (evaluate_quality_gate cs os)))"
  "gr_passed (evaluate_quality_gate cs os) \<longleftrightarrow> gr_blocking (evaluate_quality_gate cs os) = []"
  by (simp_all add: evaluate_quality_gate_def Let_def fold_grade override_set_def)

lemma ball_normalized: "(\<forall>c \<in> set (normalized cs). P c) \<longleftrightarrow>
    (\<forall>c \<in> set cs. P (c\<lparr>ck_class := if ck_name c \<in> set ABSOLUTE_FLOOR then ABSOLUTE else ck_class c\<rparr>))"
proof -
  have "(if ck_name c \<in> set ABSOLUTE_FLOOR then build_check (ck_name c) (ck_passed c) (ck_class c) (ck_detail c) else c)
      = c\<lparr>ck_class := if ck_name c \<in> set ABSOLUTE_FLOOR then ABSOLUTE else ck_class c\<rparr>" for c
    by (simp add: build_check_def)
  then show ?thesis by (simp add: normalized_def)
qed

lemma ball_synthesized: "(\<forall>c \<in> set (synthesized present). \<not> blocks ov c) \<longleftrightarrow>
    (\<forall>(name, cls) \<in> set MERGE_REQUIRED_CHECKS. name \<notin> present \<longrightarrow> cls = ADVISORY \<and> name \<in> ov)"
proof -
  have floor: "cls = ABSOLUTE" if "(name, cls) \<in> set MERGE_REQUIRED_CHECKS" "name \<in> set ABSOLUTE_FLOOR" for name cls
    using that by (auto simp: MERGE_REQUIRED_CHECKS_def ABSOLUTE_FLOOR_def)
  have "blocks ov (build_check name False cls d) \<longleftrightarrow> \<not> (cls = ADVISORY \<and> name \<in> ov)"
    if "(name, cls) \<in> set MERGE_REQUIRED_CHECKS" for name cls d
    using floor [OF that] by (cases cls) (auto simp: blocks_def build_check_def)
  then show ?thesis by (fastforce simp: synthesized_def)
qed

section \<open>Properties\<close>

text \<open>C13: the merge gate fails closed. It passes exactly when every failed check is advisory, off the
  security floor and named by an override, and every check of the manifest that was not handed in
  is advisory there and named by an override. No override ever waives an absolute check, whatever
  classification a caller gave it.\<close>

theorem quality_gate_fails_closed:
  "gr_passed (evaluate_quality_gate checks overrides) \<longleftrightarrow>
     (\<forall>c \<in> set checks. \<not> ck_passed c \<longrightarrow>
        ck_class c = ADVISORY \<and> ck_name c \<notin> set ABSOLUTE_FLOOR \<and> ck_name c \<in> override_set overrides) \<and>
     (\<forall>(name, cls) \<in> set MERGE_REQUIRED_CHECKS. name \<notin> set (map ck_name checks) \<longrightarrow>
        cls = ADVISORY \<and> name \<in> override_set overrides)"
proof -
  let ?ov = "override_set overrides"
  have cls: "(ck_class c = ABSOLUTE) = (ck_class c \<noteq> ADVISORY)" for c :: check_result by (cases "ck_class c") auto
  have "gr_passed (evaluate_quality_gate checks overrides) \<longleftrightarrow>
      (\<forall>c \<in> set (normalized checks). \<not> blocks ?ov c) \<and> (\<forall>c \<in> set (synthesized (set (map ck_name checks))). \<not> blocks ?ov c)"
    unfolding evaluate_sel(4) evaluate_sel(2) evaluate_sel(1) by (simp add: filter_empty_conv ball_Un)
  moreover have "(\<forall>c \<in> set (normalized checks). \<not> blocks ?ov c) \<longleftrightarrow> (\<forall>c \<in> set checks. \<not> ck_passed c \<longrightarrow>
        ck_class c = ADVISORY \<and> ck_name c \<notin> set ABSOLUTE_FLOOR \<and> ck_name c \<in> ?ov)"
    unfolding ball_normalized by (intro ball_cong refl) (auto simp: blocks_def cls)
  ultimately show ?thesis unfolding ball_synthesized by simp
qed

theorem quality_gate_fails_closed_witness:
  "gr_passed (evaluate_quality_gate (map (\<lambda>(n, c). build_check n True c []) MERGE_REQUIRED_CHECKS) None)"
  unfolding quality_gate_fails_closed
  by (simp add: MERGE_REQUIRED_CHECKS_def build_check_def ABSOLUTE_FLOOR_def)

text \<open>The report is complete and consistent. Every failed check of the evaluated list is either
  blocking or overridden and never both at once under one classification, the verdict is the
  absence of blocking checks, and the caller's checks come back unchanged in name, result and
  order with only the floor reasserted.\<close>

lemma quality_gate_report:
  "let r = evaluate_quality_gate checks overrides in
     gr_passed r = (gr_blocking r = []) \<and>
     mset (gr_blocking r) + mset (gr_overridden r) = mset (map ck_name (filter (\<lambda>c. \<not> ck_passed c) (gr_checks r))) \<and>
     map ck_name (take (length checks) (gr_checks r)) = map ck_name checks \<and>
     map ck_passed (take (length checks) (gr_checks r)) = map ck_passed checks \<and>
     set (map fst MERGE_REQUIRED_CHECKS) \<subseteq> set (map ck_name (gr_checks r))"
proof -
  let ?r = "evaluate_quality_gate checks overrides" and ?ov = "override_set overrides"
  have split: "mset (map ck_name (filter (blocks ov) cs)) + mset (map ck_name (filter (waived ov) cs))
      = mset (map ck_name (filter (\<lambda>c. \<not> ck_passed c) cs))" for ov and cs :: "check_result list"
  proof (induction cs)
    case (Cons c cs)
    then show ?case by (cases "ck_class c") (auto simp: blocks_def waived_def)
  qed simp
  have len: "length (normalized checks) = length checks" by (simp add: normalized_def)
  have "take (length checks) (gr_checks ?r) = normalized checks" by (simp add: evaluate_sel(1) flip: len)
  moreover have "map ck_passed (normalized checks) = map ck_passed checks" by (simp add: normalized_def build_check_def)
  moreover have "set (map fst MERGE_REQUIRED_CHECKS) \<subseteq> set (map ck_name (gr_checks ?r))"
    unfolding evaluate_sel(1) by (force simp: synthesized_def build_check_def)
  ultimately show ?thesis
    unfolding Let_def evaluate_sel(2,3,4) split by simp
qed

end
