(* ===== verification/Gate_Host.thy ===== *)
theory Gate_Host
  imports Notify_Schedule Quality_Gate Run_View
begin

text \<open>
  Durable human gates: \<open>workflows/gates.py\<close> (class \<open>GateHost\<close>) with the pending decisions of
  \<open>pending.py\<close>. The host's fields are a record; the no-op hooks and the notification activity are
  entries of a log. The coroutine \<open>_gate\<close> is split at its awaits: \<open>gate_enter\<close> runs up to the wait,
  and the relation \<open>gate_step\<close> interleaves the wait loop with decision signals. Whether a wait whose
  deadline has passed sees a decision that is already there is left open, as the workflow library
  decides it; both continuations are steps.
\<close>

section \<open>Pending decisions\<close>

datatype pending_decision =
    ClarifyPending (pd_key: string) (pd_question: string) (pd_why_it_matters: string)
      (pd_suggested_answer: "string option") (pd_opened_at: "int option") (pd_parent_run_id: "string option")
  | StageGatePending (pd_key: string) (pd_gate: string) (pd_round: int) (pd_spec_summary: string)
      (pd_opened_at: "int option") (pd_parent_run_id: "string option")
  | TaskEscalationPending (pd_key: string) (pd_gate: string) (pd_round: int) (pd_task_id: string)
      (pd_analysis: string) (pd_attempts: int) (pd_opened_at: "int option") (pd_parent_run_id: "string option")
  | MergeGatePending (pd_key: string) (pd_gate: string) (pd_round: int) (pd_checks: "check_result list")
      (pd_verdict: "string option") (pd_opened_at: "int option") (pd_parent_run_id: "string option")

record gate_context =
  gx_spec_summary :: "string option"
  gx_checks :: "check_result list"
  gx_verdict :: "string option"
  gx_analysis :: "string option"
  gx_attempts :: "int option"
  gx_task_id :: "string option"

definition empty_context :: gate_context where
  "empty_context = \<lparr>gx_spec_summary = None, gx_checks = [], gx_verdict = None, gx_analysis = None,
     gx_attempts = None, gx_task_id = None\<rparr>"

record open_question =
  oq_id :: string
  oq_question :: string
  oq_why_it_matters :: string
  oq_suggested_answer :: "string option"

definition clarify_pending :: "open_question list \<Rightarrow> string set \<Rightarrow> int option \<Rightarrow> pending_decision list" where
  "clarify_pending questions answered opened =
     map (\<lambda>q. ClarifyPending (oq_id q) (oq_question q) (oq_why_it_matters q) (oq_suggested_answer q) opened None)
       (filter (\<lambda>q. oq_id q \<notin> answered) questions)"

text \<open>\<open>x or d\<close> for an optional string or integer.\<close>

definition str_or :: "string option \<Rightarrow> string \<Rightarrow> string" where
  "str_or x d = (case x of Some s \<Rightarrow> if s = [] then d else s | None \<Rightarrow> d)"

definition int_or :: "int option \<Rightarrow> int \<Rightarrow> int" where
  "int_or x d = (case x of Some i \<Rightarrow> if i = 0 then d else i | None \<Rightarrow> d)"

definition task_prefix :: string where
  "task_prefix = ''task:''"

definition gate_pending ::
    "string \<Rightarrow> int \<Rightarrow> gate_context option \<Rightarrow> int option \<Rightarrow> string option \<Rightarrow> pending_decision" where
  "gate_pending name rnd context opened parent =
     (let key = gate_key name rnd; ctx = (case context of None \<Rightarrow> empty_context | Some c \<Rightarrow> c) in
      if name = ''merge'' then MergeGatePending key name rnd (gx_checks ctx) (gx_verdict ctx) opened parent
      else if take 5 name = task_prefix
      then TaskEscalationPending key name rnd (str_or (gx_task_id ctx) (drop 5 name))
             (str_or (gx_analysis ctx) []) (int_or (gx_attempts ctx) 0) opened parent
      else StageGatePending key name rnd (str_or (gx_spec_summary ctx) []) opened parent)"

section \<open>The host\<close>

datatype gate_event =
    Gate_Awaited string int
  | Gate_Decided string int gate_policy gate_decision "pyfloat option" "string option"
  | Gate_Notified string notify_reason
  | Route_Notified string notify_reason string bool string

record gate_host =
  gh_decisions :: "string \<rightharpoonup> gate_decision"
  gh_pending :: "(string, pending_decision) dict"
  gh_pending_activation :: "string \<rightharpoonup> string option"
  gh_parent_run_id :: "string option"
  gh_status :: string
  gh_log :: "gate_event list"

definition init_host :: gate_host where
  "init_host = \<lparr>gh_decisions = Map.empty, gh_pending = [], gh_pending_activation = Map.empty,
     gh_parent_run_id = None, gh_status = ''starting'', gh_log = []\<rparr>"

definition log_event :: "gate_event \<Rightarrow> gate_host \<Rightarrow> gate_host" where
  "log_event e h = h\<lparr>gh_log := gh_log h @ [e]\<rparr>"

definition pop_pending :: "string \<Rightarrow> gate_host \<Rightarrow> gate_host" where
  "pop_pending key h = h\<lparr>gh_pending := AList.delete key (gh_pending h),
     gh_pending_activation := (gh_pending_activation h)(key := None)\<rparr>"

definition submit_gate_decision :: "int \<Rightarrow> gate_decision \<Rightarrow> gate_host \<Rightarrow> gate_host" where
  "submit_gate_decision now d h =
     (let key = gate_key (gd_gate d) (gd_round d);
          h' = (if gh_decisions h key = None
                then h\<lparr>gh_decisions := (gh_decisions h)(key \<mapsto> d\<lparr>gd_decided_at := Some now\<rparr>)\<rparr> else h)
      in pop_pending key h')"

definition pending_gate :: "gate_host \<Rightarrow> string option" where
  "pending_gate h = (if take 9 (gh_status h) = ''awaiting:'' then Some (gh_status h) else None)"

definition pending_decisions :: "gate_host \<Rightarrow> pending_decision list" where
  "pending_decisions h = map snd (gh_pending h)"

text \<open>
  \<open>_pending_facts\<close>: None is the \<open>KeyError\<close> of a variant without a wire kind.
\<close>

fun decision_kind :: "pending_decision \<Rightarrow> string" where
  "decision_kind (ClarifyPending _ _ _ _ _ _) = ''clarify''"
| "decision_kind (StageGatePending _ _ _ _ _ _) = ''stage_gate''"
| "decision_kind (TaskEscalationPending _ _ _ _ _ _ _ _) = ''task_escalation''"
| "decision_kind (MergeGatePending _ _ _ _ _ _ _) = ''merge_gate''"

definition pending_fact_of :: "gate_host \<Rightarrow> string \<times> pending_decision \<Rightarrow> pending_fact option" where
  "pending_fact_of h kp =
     (case kp of (key, p) \<Rightarrow>
        map_option (\<lambda>k. \<lparr>pf_key = key,
          pf_activation_id = (case gh_pending_activation h key of None \<Rightarrow> None | Some a \<Rightarrow> a), pf_kind = k\<rparr>)
          (pending_kind (decision_kind p)))"

definition pending_facts :: "gate_host \<Rightarrow> pending_fact list option" where
  "pending_facts h =
     map_option (sort_key pf_key) (those (map (pending_fact_of h) (gh_pending h)))"

section \<open>One gate\<close>

record gate_call =
  gl_name :: string
  gl_settings :: gate_settings
  gl_auto_decision :: "gate_decision option"
  gl_round :: int
  gl_context :: "gate_context option"
  gl_confidence :: "pyfloat option"
  gl_author_model :: "string option"
  gl_default_policy :: "gate_policy option"

definition call_key :: "gate_call \<Rightarrow> string" where
  "call_key c = gate_key (gl_name c) (gl_round c)"

definition call_config :: "gate_call \<Rightarrow> gate_config" where
  "call_config c =
     (case gs_gates (gl_settings c) (gl_name c) of
        Some cfg \<Rightarrow> cfg
      | None \<Rightarrow> default_gate_config\<lparr>gc_policy :=
          (case gl_default_policy c of Some p \<Rightarrow> p | None \<Rightarrow> gs_default_gate_policy (gl_settings c))\<rparr>)"

definition mk_decision :: "gate_call \<Rightarrow> gate_outcome \<Rightarrow> decided_by \<Rightarrow> string option \<Rightarrow> gate_decision" where
  "mk_decision c oc who comments =
     \<lparr>gd_gate = gl_name c, gd_round = gl_round c, gd_outcome = oc, gd_decided_by = who, gd_reviewer = None,
      gd_comments = comments, gd_guidance = None, gd_thaw_tests = False, gd_decided_at = None\<rparr>"

definition timeout_decision :: "gate_call \<Rightarrow> gate_decision" where
  "timeout_decision c =
     mk_decision c (if gc_on_timeout (call_config c) = TApprove then APPROVE else REJECT) ByTimeout
       (Some (''no decision within '' @ int_str (gs_gate_timeout_hours (gl_settings c)) @ ''h''))"

datatype gate_pc = GWait schedule | GHold | GDone gate_decision

definition decided_hook :: "gate_call \<Rightarrow> gate_decision \<Rightarrow> gate_host \<Rightarrow> gate_host" where
  "decided_hook c d =
     log_event (Gate_Decided (gl_name c) (gl_round c) (gc_policy (call_config c)) d (gl_confidence c) (gl_author_model c))"

text \<open>The \<open>finally\<close> block and the final hook.\<close>

definition gate_finish :: "gate_call \<Rightarrow> gate_decision \<Rightarrow> gate_host \<Rightarrow> gate_host" where
  "gate_finish c d h = decided_hook c d (pop_pending (call_key c) (h\<lparr>gh_status := ''running''\<rparr>))"

text \<open>
  Up to the wait: policy resolution, or opening the pending decision and building the schedule.
  An overflow in the schedule leaves before the \<open>try\<close>, with the decision still pending.
\<close>

definition gate_open ::
    "int \<Rightarrow> string option \<Rightarrow> gate_call \<Rightarrow> gate_host \<Rightarrow> gate_host \<times> (overflow + gate_pc \<times> int option)" where
  "gate_open now activation c h =
     (let key = call_key c;
          pending = gate_pending (gl_name c) (gl_round c) (gl_context c) (Some now) (gh_parent_run_id h);
          h' = log_event (Gate_Awaited (gl_name c) (gl_round c))
                 (h\<lparr>gh_pending := AList.update key pending (gh_pending h),
                    gh_pending_activation := (gh_pending_activation h)(key \<mapsto> activation),
                    gh_status := ''awaiting:'' @ gl_name c\<rparr>)
      in (h', case build_schedule (call_config c) (gs_gate_timeout_hours (gl_settings c)) now of
                Inl e \<Rightarrow> Inl e | Inr (sched, expires) \<Rightarrow> Inr (GWait sched, expires)))"

definition gate_enter ::
    "int \<Rightarrow> string option \<Rightarrow> gate_call \<Rightarrow> gate_host \<Rightarrow> gate_host \<times> (overflow + gate_pc \<times> int option)" where
  "gate_enter now activation c h =
     (if gc_policy (call_config c) = OFF
      then (let d = mk_decision c APPROVE ByPolicy None in (decided_hook c d h, Inr (GDone d, None)))
      else case (gc_policy (call_config c), gl_auto_decision c) of
        (SOFT, Some d) \<Rightarrow>
          if approved d then (decided_hook c d h, Inr (GDone d, None))
          else gate_open now activation c h
      | _ \<Rightarrow> gate_open now activation c h)"

text \<open>
  \<open>_notify\<close>: the activity either fails, which is reported as one undelivered route, or returns the
  outcome of every route; both are reported through the hook, with the error text cut at 200
  characters. The first entry of the log is the request itself.
\<close>

record notify_result =
  nr_notifier :: string
  nr_delivered :: bool
  nr_error :: "string option"

definition notified_gate :: "pending_decision \<Rightarrow> string" where
  "notified_gate p =
     (case p of ClarifyPending _ _ _ _ _ _ \<Rightarrow> pd_key p | _ \<Rightarrow> if pd_gate p = [] then pd_key p else pd_gate p)"

definition notify_report :: "string \<Rightarrow> notify_reason \<Rightarrow> string + notify_result list \<Rightarrow> gate_event list" where
  "notify_report gate reason out =
     (case out of
        Inl e \<Rightarrow> [Route_Notified gate reason ''unresolved'' False (take 200 e)]
      | Inr rs \<Rightarrow> map (\<lambda>r. Route_Notified gate reason (nr_notifier r) (nr_delivered r)
                            (take 200 (str_or (nr_error r) []))) rs)"

definition notify_pending :: "gate_call \<Rightarrow> notify_reason \<Rightarrow> string + notify_result list \<Rightarrow> gate_host \<Rightarrow> gate_host" where
  "notify_pending c reason out h =
     (let p = gate_pending (gl_name c) (gl_round c) (gl_context c) None None in
      foldl (\<lambda>h e. log_event e h) (log_event (Gate_Notified (call_key c) reason) h)
        (notify_report (notified_gate p) reason out))"

text \<open>
  The wait loop, one await at a time, interleaved with decision signals for any gate and with the
  steps of other gates on the same host, which have other keys.
\<close>

inductive gate_step :: "gate_call \<Rightarrow> int option \<Rightarrow> gate_host \<times> gate_pc \<Rightarrow> gate_host \<times> gate_pc \<Rightarrow> bool"
  for c expires where
  gs_submit: "gate_step c expires (h, pc) (submit_gate_decision now d h, pc)"
| gs_decided: "gh_decisions h (call_key c) = Some d \<Longrightarrow>
    gate_step c expires (h, GWait (e # rest)) (gate_finish c d h, GDone d)"
| gs_timer: "fst e \<le> now \<Longrightarrow>
    gate_step c expires (h, GWait (e # rest))
      (notify_pending c (snd e) out h, GWait rest)"
| gs_hold: "expires = None \<Longrightarrow> gate_step c expires (h, GWait []) (h, GHold)"
| gs_held: "gh_decisions h (call_key c) = Some d \<Longrightarrow>
    gate_step c expires (h, GHold) (gate_finish c d h, GDone d)"
| gs_expired: "expires = Some x \<Longrightarrow>
    gate_step c expires (h, GWait []) (gate_finish c (timeout_decision c) h, GDone (timeout_decision c))"

| gs_other_open: "call_key c' \<noteq> call_key c \<Longrightarrow>
    gate_step c expires (h, pc) (fst (gate_enter now activation c' h), pc)"
| gs_other_notify: "call_key c' \<noteq> call_key c \<Longrightarrow>
    gate_step c expires (h, pc) (notify_pending c' r out h, pc)"
| gs_other_finish: "call_key c' \<noteq> call_key c \<Longrightarrow>
    gate_step c expires (h, pc) (gate_finish c' d h, pc)"

inductive_cases gate_step_doneE: "gate_step c ex (h, GDone d) s"

text \<open>
  The steps among these that the workflow takes by itself when its clock shows \<open>now\<close>: no signal arrives and
  no other gate moves. \<open>wait_condition\<close> looks at the decision before it looks at the timer, and a timer that
  is due fires.
\<close>

inductive gate_own :: "gate_call \<Rightarrow> int option \<Rightarrow> int \<Rightarrow> gate_host \<times> gate_pc \<Rightarrow> gate_host \<times> gate_pc \<Rightarrow> bool"
  for c expires now where
  gw_decided: "gh_decisions h (call_key c) = Some d \<Longrightarrow>
    gate_own c expires now (h, GWait (e # rest)) (gate_finish c d h, GDone d)"
| gw_timer: "gh_decisions h (call_key c) = None \<Longrightarrow> fst e \<le> now \<Longrightarrow>
    gate_own c expires now (h, GWait (e # rest)) (notify_pending c (snd e) out h, GWait rest)"
| gw_hold: "expires = None \<Longrightarrow> gate_own c expires now (h, GWait []) (h, GHold)"
| gw_held: "gh_decisions h (call_key c) = Some d \<Longrightarrow>
    gate_own c expires now (h, GHold) (gate_finish c d h, GDone d)"
| gw_expired: "expires = Some x \<Longrightarrow>
    gate_own c expires now (h, GWait []) (gate_finish c (timeout_decision c) h, GDone (timeout_decision c))"


lemma gate_own_step: "gate_own c ex now s s' \<Longrightarrow> gate_step c ex s s'"
  by (induction rule: gate_own.induct) (blast intro: gate_step.intros)+

abbreviation gate_steps :: "gate_call \<Rightarrow> int option \<Rightarrow> gate_host \<times> gate_pc \<Rightarrow> gate_host \<times> gate_pc \<Rightarrow> bool" where
  "gate_steps c expires \<equiv> (gate_step c expires)\<^sup>*\<^sup>*"

section \<open>Signals and hooks\<close>

lemma host_sel [simp]:
  "gh_decisions (log_event e h) = gh_decisions h" "gh_pending (log_event e h) = gh_pending h"
  "gh_status (log_event e h) = gh_status h" "gh_log (log_event e h) = gh_log h @ [e]"
  "gh_decisions (pop_pending k h) = gh_decisions h" "gh_status (pop_pending k h) = gh_status h"
  "gh_log (pop_pending k h) = gh_log h" "gh_pending (pop_pending k h) = AList.delete k (gh_pending h)"
  by (simp_all add: log_event_def pop_pending_def)

lemma log_events_sel:
  "gh_decisions (foldl (\<lambda>h e. log_event e h) h es) = gh_decisions h"
  "gh_pending (foldl (\<lambda>h e. log_event e h) h es) = gh_pending h"
  "gh_log (foldl (\<lambda>h e. log_event e h) h es) = gh_log h @ es"
  by (induction es arbitrary: h) simp_all

lemma notify_sel [simp]:
  "gh_decisions (notify_pending c r out h) = gh_decisions h"
  "gh_pending (notify_pending c r out h) = gh_pending h"
  "set (gh_log h) \<subseteq> set (gh_log (notify_pending c r out h))"
  "Gate_Notified (call_key c) r \<in> set (gh_log (notify_pending c r out h))"
  by (auto simp: notify_pending_def Let_def log_events_sel)

lemma notify_log: "e \<in> set (gh_log h) \<Longrightarrow> e \<in> set (gh_log (notify_pending c r out h))"
  using notify_sel(3) by blast

lemma finish_sel [simp]:
  "gh_decisions (gate_finish c d h) = gh_decisions h" "gh_status (gate_finish c d h) = ''running''"
  "gh_pending (gate_finish c d h) = AList.delete (call_key c) (gh_pending h)"
  by (simp_all add: gate_finish_def decided_hook_def)

lemma finish_log [simp]: "gh_log (gate_finish c d h) = gh_log h @
    [Gate_Decided (gl_name c) (gl_round c) (gc_policy (call_config c)) d (gl_confidence c) (gl_author_model c)]"
  by (simp add: gate_finish_def decided_hook_def)

lemma gate_open_sel [simp]:
  "gh_decisions (fst (gate_open now a c h)) = gh_decisions h"
  "gh_pending (fst (gate_open now a c h)) = AList.update (call_key c)
     (gate_pending (gl_name c) (gl_round c) (gl_context c) (Some now) (gh_parent_run_id h)) (gh_pending h)"
  "gh_log (fst (gate_open now a c h)) = gh_log h @ [Gate_Awaited (gl_name c) (gl_round c)]"
  by (simp_all add: gate_open_def Let_def)

lemma gate_enter_cases:
  obtains (policy) d where "gate_enter now a c h = (decided_hook c d h, Inr (GDone d, None))"
      "approved d" "gc_policy (call_config c) \<noteq> HARD"
  | (opens) "gate_enter now a c h = gate_open now a c h" "gc_policy (call_config c) \<noteq> OFF"
proof (cases "gc_policy (call_config c)")
  case OFF
  then show thesis
    using policy [of "mk_decision c APPROVE ByPolicy None"] by (simp add: gate_enter_def Let_def approved_def mk_decision_def)
next
  case SOFT
  show thesis
  proof (cases "gl_auto_decision c")
    case None
    then show thesis using SOFT opens by (simp add: gate_enter_def)
  next
    case (Some d)
    then show thesis using SOFT opens policy [of d] by (cases "approved d") (simp_all add: gate_enter_def)
  qed
next
  case HARD
  then show thesis using opens by (simp add: gate_enter_def)
qed

lemma mem_insert_between: "A \<subseteq> B \<Longrightarrow> B \<subseteq> insert k A \<Longrightarrow> k \<noteq> x \<Longrightarrow> x \<in> B \<longleftrightarrow> x \<in> A"
  by blast

lemma gate_enter_other:
  "gh_decisions (fst (gate_enter now a c h)) = gh_decisions h"
  "set (dict_keys (gh_pending h)) \<subseteq> set (dict_keys (gh_pending (fst (gate_enter now a c h))))"
  "set (dict_keys (gh_pending (fst (gate_enter now a c h)))) \<subseteq> insert (call_key c) (set (dict_keys (gh_pending h)))"
  "set (gh_log h) \<subseteq> set (gh_log (fst (gate_enter now a c h)))"
  by (cases rule: gate_enter_cases [of now a c h]; auto simp: decided_hook_def keys_update simp del: set_map)+

lemma submit_decisions:
  "gh_decisions (submit_gate_decision now d h) k =
     (if k = gate_key (gd_gate d) (gd_round d) \<and> gh_decisions h k = None
      then Some (d\<lparr>gd_decided_at := Some now\<rparr>) else gh_decisions h k)"
  by (auto simp: submit_gate_decision_def Let_def)

lemma submit_sel [simp]:
  "gh_status (submit_gate_decision now d h) = gh_status h" "gh_log (submit_gate_decision now d h) = gh_log h"
  "gh_pending (submit_gate_decision now d h) = AList.delete (gate_key (gd_gate d) (gd_round d)) (gh_pending h)"
  by (simp_all add: submit_gate_decision_def Let_def)

lemma gate_step_decisions:
  "gate_step c ex (h, pc) (h', pc') \<Longrightarrow> gh_decisions h k = Some d \<Longrightarrow> gh_decisions h' k = Some d"
  by (induction "(h, pc)" "(h', pc')" rule: gate_step.induct) (auto simp: submit_decisions gate_enter_other(1))

lemma gate_steps_decisions:
  "gate_steps c ex (h, pc) (h', pc') \<Longrightarrow> gh_decisions h k = Some d \<Longrightarrow> gh_decisions h' k = Some d"
  by (induction "(h', pc')" arbitrary: h' pc' rule: rtranclp_induct) (auto intro: gate_step_decisions)

section \<open>The invariant of a waiting gate\<close>

text \<open>
  What holds of a gate from the moment it waits: it shows its decision as pending, unless one was
  submitted, while it waits; when it is done, its decision is the stored one or, if the gate has a
  final deadline, the timeout's.
\<close>

definition gate_inv :: "gate_call \<Rightarrow> int option \<Rightarrow> gate_host \<times> gate_pc \<Rightarrow> bool" where
  "gate_inv c ex s =
     (case s of (h, pc) \<Rightarrow>
        (case pc of
           GDone d \<Rightarrow> call_key c \<notin> set (dict_keys (gh_pending h)) \<and>
             (gh_decisions h (call_key c) = Some d \<or>
              ex \<noteq> None \<and> d = timeout_decision c \<and> Gate_Notified (call_key c) EXPIRE \<in> set (gh_log h))
         | GHold \<Rightarrow> ex = None \<and>
             (call_key c \<in> set (dict_keys (gh_pending h)) \<or> gh_decisions h (call_key c) \<noteq> None)
         | GWait sched \<Rightarrow>
             (call_key c \<in> set (dict_keys (gh_pending h)) \<or> gh_decisions h (call_key c) \<noteq> None) \<and>
             (ex \<noteq> None \<longrightarrow> EXPIRE \<in> set (map snd sched) \<or> Gate_Notified (call_key c) EXPIRE \<in> set (gh_log h))))"

lemma gate_inv_step:
  assumes "gate_step c ex s s'" "gate_inv c ex s"
  shows "gate_inv c ex s'"
  using assms
proof (induction rule: gate_step.induct)
  case (gs_submit h pc now d)
  then show ?case
    by (cases pc) (auto simp: gate_inv_def keys_delete submit_decisions simp del: set_map)
next
  case (gs_timer e now h rest out)
  then show ?case by (auto simp: gate_inv_def notify_log)
next
  case (gs_other_open c' h pc now a)
  let ?h = "fst (gate_enter now a c' h)"
  have same: "call_key c \<in> set (dict_keys (gh_pending ?h)) \<longleftrightarrow> call_key c \<in> set (dict_keys (gh_pending h))"
    by (rule mem_insert_between [OF gate_enter_other(2) gate_enter_other(3) gs_other_open(1)])
  have log: "Gate_Notified k r \<in> set (gh_log h) \<Longrightarrow> Gate_Notified k r \<in> set (gh_log ?h)" for k r
    using gate_enter_other(4) [where now = now and a = a and c = c' and h = h] by blast
  show ?case
    using gs_other_open(2) log unfolding gate_inv_def case_prod_conv same gate_enter_other(1)
    by (cases pc) (auto simp del: set_map)
next
  case (gs_other_finish c' h pc d)
  then show ?case by (cases pc) (auto simp: gate_inv_def keys_delete simp del: set_map)
next
  case (gs_other_notify c' h pc r out)
  then show ?case by (cases pc) (auto simp: gate_inv_def notify_log)
qed (auto simp: gate_inv_def keys_delete simp del: set_map)

lemma gate_inv_steps: "gate_steps c ex s s' \<Longrightarrow> gate_inv c ex s \<Longrightarrow> gate_inv c ex s'"
  by (induction rule: rtranclp_induct) (auto intro: gate_inv_step)

lemma gate_inv_enter:
  assumes "gate_enter now a c h = (h', Inr (GWait sched, ex))"
  shows "gate_inv c ex (h', GWait sched)" "ex = None \<longleftrightarrow> gc_on_timeout (call_config c) = THold"
    "build_schedule (call_config c) (gs_gate_timeout_hours (gl_settings c)) now = Inr (sched, ex)"
proof -
  have open_c: "gate_open now a c h = (h', Inr (GWait sched, ex))"
    using assms by (cases rule: gate_enter_cases [of now a c h]) auto
  then show b: "build_schedule (call_config c) (gs_gate_timeout_hours (gl_settings c)) now = Inr (sched, ex)"
    by (auto simp: gate_open_def Let_def split: sum.splits)
  obtain mid where m: "sched = (now, OPENED) # mid @ (case ex of None \<Rightarrow> [] | Some x \<Rightarrow> [(x, EXPIRE)])"
    "ex = None \<longleftrightarrow> gc_on_timeout (call_config c) = THold"
    by (rule build_schedule_cases [OF b])
  show "ex = None \<longleftrightarrow> gc_on_timeout (call_config c) = THold" by (fact m(2))
  have "h' = fst (gate_open now a c h)" using open_c by simp
  then show "gate_inv c ex (h', GWait sched)"
    using m(1) by (cases ex) (auto simp: gate_inv_def keys_update simp del: set_map)
qed

lemma gate_policy_entry:
  "gc_policy (call_config c) = HARD \<Longrightarrow> gate_enter now a c h = gate_open now a c h"
  by (simp add: gate_enter_def)







lemma pending_kind_total: "\<exists>k. pending_kind (decision_kind p) = Some k"
  by (cases p) (simp_all add: pending_kind_def PENDING_KINDS_def)

lemma those_some: "\<forall>x \<in> set xs. f x \<noteq> None \<Longrightarrow> those (map f xs) = Some (map (the \<circ> f) xs)"
  by (induction xs) auto

section \<open>A gate, concretely\<close>

definition plan_call :: "timeout_action \<Rightarrow> gate_call" where
  "plan_call action = \<lparr>gl_name = ''plan'',
     gl_settings = \<lparr>gs_gates = [''plan'' \<mapsto> default_gate_config\<lparr>gc_on_timeout := action\<rparr>],
       gs_default_gate_policy = HARD, gs_gate_timeout_hours = 48\<rparr>,
     gl_auto_decision = None, gl_round = 1, gl_context = None, gl_confidence = None,
     gl_author_model = None, gl_default_policy = None\<rparr>"

definition off_call :: gate_call where
  "off_call = plan_call THold\<lparr>gl_name := ''qa'', gl_default_policy := Some OFF\<rparr>"

lemma off_call_policy: "gc_policy (call_config off_call) = OFF"
  by code_simp

definition plan_host :: "timeout_action \<Rightarrow> gate_host" where
  "plan_host action = fst (gate_enter 0 None (plan_call action) init_host)"

definition plan_decision :: gate_decision where
  "plan_decision = \<lparr>gd_gate = ''plan'', gd_round = 1, gd_outcome = APPROVE, gd_decided_by = ByHuman,
     gd_reviewer = None, gd_comments = None, gd_guidance = None, gd_thaw_tests = False, gd_decided_at = None\<rparr>"

definition plan_schedule :: "timeout_action \<Rightarrow> schedule" where
  "plan_schedule action = [(0, OPENED), (24 * hour_us, REMIND), (38 * hour_us + 1440000000, ESCALATE)]
     @ (if action = THold then [] else [(48 * hour_us, EXPIRE)])"

lemma plan_snd:
  "snd (gate_enter 0 None (plan_call TReject) init_host)
     = Inr (GWait (plan_schedule TReject), Some (48 * hour_us))"
  "snd (gate_enter 0 None (plan_call THold) init_host) = Inr (GWait (plan_schedule THold), None)"
  by code_simp+

lemma plan_enter:
  "gate_enter 0 None (plan_call TReject) init_host
     = (plan_host TReject, Inr (GWait (plan_schedule TReject), Some (48 * hour_us)))"
  "gate_enter 0 None (plan_call THold) init_host = (plan_host THold, Inr (GWait (plan_schedule THold), None))"
  unfolding plan_host_def plan_snd [symmetric] by simp_all

lemma plan_submitted:
  "gh_decisions (submit_gate_decision 5 plan_decision h) (call_key (plan_call a))
     = (case gh_decisions h (call_key (plan_call a)) of None \<Rightarrow> Some (plan_decision\<lparr>gd_decided_at := Some 5\<rparr>) | Some d \<Rightarrow> Some d)"
  by (simp add: submit_decisions plan_decision_def plan_call_def call_key_def split: option.splits)

lemma plan_host_undecided: "gh_decisions (plan_host a) k = None"
  by (simp add: plan_host_def gate_enter_other(1) init_host_def)

abbreviation plan_decided :: "timeout_action \<Rightarrow> gate_host" where
  "plan_decided a \<equiv> submit_gate_decision 5 plan_decision (plan_host a)"

lemma plan_decided_run:
  "gate_steps (plan_call a) ex (plan_host a, GWait (plan_schedule a)) (plan_decided a, GWait (plan_schedule a))"
  "gate_steps (plan_call a) ex (plan_decided a, GWait (plan_schedule a))
     (gate_finish (plan_call a) (plan_decision\<lparr>gd_decided_at := Some 5\<rparr>) (plan_decided a),
      GDone (plan_decision\<lparr>gd_decided_at := Some 5\<rparr>))"
proof -
  show "gate_steps (plan_call a) ex (plan_host a, GWait (plan_schedule a)) (plan_decided a, GWait (plan_schedule a))"
    by (rule r_into_rtranclp, rule gs_submit)
  have "gh_decisions (plan_decided a) (call_key (plan_call a)) = Some (plan_decision\<lparr>gd_decided_at := Some 5\<rparr>)"
    by (simp add: plan_submitted plan_host_undecided)
  then show "gate_steps (plan_call a) ex (plan_decided a, GWait (plan_schedule a))
     (gate_finish (plan_call a) (plan_decision\<lparr>gd_decided_at := Some 5\<rparr>) (plan_decided a),
      GDone (plan_decision\<lparr>gd_decided_at := Some 5\<rparr>))"
    unfolding plan_schedule_def append_Cons by (intro r_into_rtranclp gs_decided)
qed

text \<open>
  A decision that arrives while the expiry notification is being delivered is stored, and its
  pending entry is withdrawn, but the gate still returns the decision of the timeout: the approval
  below is the first decision for its round and the gate rejects.
\<close>

lemma late_decision_lost:
  "\<exists>h. gate_steps (plan_call TReject) (Some (48 * hour_us)) (plan_host TReject, GWait (plan_schedule TReject))
         (h, GDone (timeout_decision (plan_call TReject)))
     \<and> gh_decisions h (call_key (plan_call TReject)) = Some (plan_decision\<lparr>gd_decided_at := Some 5\<rparr>)
     \<and> approved plan_decision \<and> \<not> approved (timeout_decision (plan_call TReject))"
proof -
  let ?c = "plan_call TReject" and ?ex = "Some (48 * hour_us)"
  have fire: "\<exists>h'. gate_steps ?c ?ex (h, GWait s) (h', GWait []) \<and> gh_decisions h' = gh_decisions h" for h s
  proof (induction s arbitrary: h)
    case (Cons e s)
    have "gate_step ?c ?ex (h, GWait (e # s)) (notify_pending ?c (snd e) (Inr []) h, GWait s)"
      by (rule gs_timer [OF order_refl])
    moreover obtain h' where "gate_steps ?c ?ex (notify_pending ?c (snd e) (Inr []) h, GWait s) (h', GWait [])"
      "gh_decisions h' = gh_decisions (notify_pending ?c (snd e) (Inr []) h)" using Cons by blast
    ultimately show ?case by (metis converse_rtranclp_into_rtranclp notify_sel(1))
  qed blast
  obtain h' where h': "gate_steps ?c ?ex (plan_host TReject, GWait (plan_schedule TReject)) (h', GWait [])"
    "gh_decisions h' = gh_decisions (plan_host TReject)" using fire by blast
  let ?h = "submit_gate_decision 5 plan_decision h'"
  have "gate_step ?c ?ex (h', GWait []) (?h, GWait [])" by (rule gs_submit)
  moreover have "gate_step ?c ?ex (?h, GWait []) (gate_finish ?c (timeout_decision ?c) ?h, GDone (timeout_decision ?c))"
    by (rule gs_expired) simp
  ultimately have "gate_steps ?c ?ex (plan_host TReject, GWait (plan_schedule TReject))
      (gate_finish ?c (timeout_decision ?c) ?h, GDone (timeout_decision ?c))"
    using h'(1) by (meson rtranclp.rtrancl_into_rtrancl)
  moreover have "gh_decisions (gate_finish ?c (timeout_decision ?c) ?h) (call_key ?c)
      = Some (plan_decision\<lparr>gd_decided_at := Some 5\<rparr>)"
    by (simp add: plan_submitted h'(2) plan_host_undecided)
  moreover have "approved plan_decision" "\<not> approved (timeout_decision ?c)" by code_simp+
  ultimately show ?thesis by blast
qed

section \<open>Properties\<close>

text \<open>C11: the outcome of a gate that waited. Whatever signals arrive and whatever other gates do on
  the same host meanwhile, a gate that returns has withdrawn its pending decision, and it returns
  either the first decision that was stored for its key, or, only if its configuration has a
  deadline and only after the expiry notification, the decision of the timeout. A stored decision
  is never replaced.\<close>

theorem gate_returns_stored_or_timeout:
  assumes "gate_enter now a c h = (h0, Inr (GWait sched, ex))"
    and "gate_steps c ex (h0, GWait sched) (h1, pc)" "gate_steps c ex (h1, pc) (h2, GDone d)"
  shows "call_key c \<notin> set (dict_keys (gh_pending h2))
    \<and> (gh_decisions h2 (call_key c) = Some d
       \<or> gc_on_timeout (call_config c) \<noteq> THold \<and> d = timeout_decision c
         \<and> Gate_Notified (call_key c) EXPIRE \<in> set (gh_log h2))
    \<and> (\<forall>d'. gh_decisions h1 (call_key c) = Some d' \<longrightarrow> gh_decisions h2 (call_key c) = Some d')"
proof -
  have all: "gate_steps c ex (h0, GWait sched) (h2, GDone d)" using assms(2,3) by (rule rtranclp_trans)
  have "gate_inv c ex (h2, GDone d)" by (rule gate_inv_steps [OF all gate_inv_enter(1) [OF assms(1)]])
  then show ?thesis
    using gate_inv_enter(2) [OF assms(1)] gate_steps_decisions [OF assms(3)]
    by (simp add: gate_inv_def del: set_map)
qed

theorem gate_returns_stored_or_timeout_witness:
  "call_key (plan_call TReject) \<notin> set (dict_keys (gh_pending (gate_finish (plan_call TReject)
     (plan_decision\<lparr>gd_decided_at := Some 5\<rparr>) (plan_decided TReject))))"
  using gate_returns_stored_or_timeout [OF plan_enter(1) plan_decided_run] by (rule conjunct1)

text \<open>A gate configured to hold never decides by itself: when it returns, it returns a decision
  that was submitted for its own key.\<close>

lemma hold_gate_waits:
  assumes "gate_enter now a c h = (h0, Inr (GWait sched, ex))" "gc_on_timeout (call_config c) = THold"
    and "gate_steps c ex (h0, GWait sched) (h2, GDone d)"
  shows "gh_decisions h2 (call_key c) = Some d"
proof -
  have "gate_inv c ex (h2, GDone d)" by (rule gate_inv_steps [OF assms(3) gate_inv_enter(1) [OF assms(1)]])
  then show ?thesis using gate_inv_enter(2) [OF assms(1)] assms(2) by (simp add: gate_inv_def)
qed



text \<open>When a gate does not wait, the policy allowed it: its policy is off, or it is soft and the
  automatic decision it was given approves, the decision is an approval, and the host shows
  nothing pending for it. A hard gate always opens.\<close>

lemma gate_bypass_policy:
  assumes "gate_enter now a c h = (h', Inr (GDone d, ex))"
  shows "approved d \<and> gh_pending h' = gh_pending h \<and> gh_decisions h' = gh_decisions h
    \<and> (gc_policy (call_config c) = OFF \<and> d = mk_decision c APPROVE ByPolicy None
       \<or> gc_policy (call_config c) = SOFT \<and> gl_auto_decision c = Some d)"
proof (cases "gc_policy (call_config c)")
  case OFF
  with assms show ?thesis by (auto simp: gate_enter_def Let_def decided_hook_def approved_def mk_decision_def)
next
  case SOFT
  show ?thesis
  proof (cases "gl_auto_decision c")
    case None
    with SOFT assms show ?thesis by (auto simp: gate_enter_def gate_open_def Let_def split: sum.splits)
  next
    case (Some d')
    with SOFT assms show ?thesis
      by (cases "approved d'") (auto simp: gate_enter_def gate_open_def Let_def decided_hook_def split: sum.splits)
  qed
next
  case HARD
  with assms show ?thesis by (auto simp: gate_policy_entry gate_open_def Let_def split: sum.splits)
qed

text \<open>The pending facts of a host are total: every variant of a pending decision has a wire kind,
  so the query never raises, and it lists exactly the keys a decision is owed for, sorted.\<close>

lemma pending_facts_total:
  "\<exists>facts. pending_facts h = Some facts \<and> map pf_key facts = sort (dict_keys (gh_pending h))"
proof -
  have some: "pending_fact_of h kp \<noteq> None" for kp
    using pending_kind_total [of "snd kp"] by (auto simp: pending_fact_of_def split: prod.splits)
  have key: "pf_key (the (pending_fact_of h kp)) = fst kp" for kp
    using pending_kind_total [of "snd kp"] by (auto simp: pending_fact_of_def split: prod.splits)
  let ?fs = "map (the \<circ> pending_fact_of h) (gh_pending h)"
  have "pending_facts h = Some (sort_key pf_key ?fs)"
    by (simp add: pending_facts_def those_some some)
  moreover have "map pf_key (sort_key pf_key ?fs) = sort (map pf_key ?fs)"
    by (rule properties_for_sort [symmetric]) (simp_all only: mset_map mset_sort sorted_sort_key)
  ultimately show ?thesis by (simp add: key o_def)
qed

end
