(* ===== verification/Task_Plan.thy ===== *)
theory Task_Plan
  imports Core_Models
begin

text \<open>
  The task graph of a plan: the tasks of \<open>stages/plan/models.py\<close>, as far as the scheduler and the
  board read them, and \<open>validate_task_graph\<close> of \<open>stages/plan/validation.py\<close>, a depth-first search with
  three colours. The recursion of \<open>visit\<close> carries the number of tasks as fuel, which is always enough.
\<close>

section \<open>Tasks\<close>

record dev_task =
  dt_id :: string
  dt_title :: string
  dt_depends_on :: "string list"
  dt_overlaps :: "string list"

text \<open>\<open>{t.id: t for t in tasks}\<close>: the first position and the last task of a repeated id.\<close>

definition tasks_by_id :: "dev_task list \<Rightarrow> (string, dev_task) dict" where
  "tasks_by_id tasks = dict_of (map (\<lambda>t. (dt_id t, t)) tasks)"

definition deps_of :: "dev_task list \<Rightarrow> string \<Rightarrow> string list" where
  "deps_of tasks tid = dt_depends_on (dict_at (tasks_by_id tasks) tid)"

section \<open>Validation\<close>

datatype plan_error =
    Unknown_Deps string "string list"
  | Dependency_Cycle "string list"
  | Out_Of_Fuel

datatype color = White | Gray | Black

text \<open>The loop over the dependencies of the last node of \<open>path\<close>, and with it the body of \<open>visit\<close>.\<close>

fun visit_deps ::
    "nat \<Rightarrow> (string \<Rightarrow> string list) \<Rightarrow> string list \<Rightarrow> string list \<Rightarrow> (string \<Rightarrow> color) \<Rightarrow> plan_error option \<times> (string \<Rightarrow> color)" where
  "visit_deps fuel deps path [] color = (None, color)"
| "visit_deps fuel deps path (dep # ds) color =
     (case color dep of
        Gray \<Rightarrow> (Some (Dependency_Cycle (dropWhile (\<lambda>x. x \<noteq> dep) path @ [dep])), color)
      | Black \<Rightarrow> visit_deps fuel deps path ds color
      | White \<Rightarrow>
          (case fuel of
             0 \<Rightarrow> (Some Out_Of_Fuel, color)
           | Suc f \<Rightarrow>
               (case visit_deps f deps (path @ [dep]) (deps dep) (color(dep := Gray)) of
                  (Some e, c) \<Rightarrow> (Some e, c)
                | (None, c) \<Rightarrow> visit_deps fuel deps path ds (c(dep := Black)))))"

fun visit_all :: "nat \<Rightarrow> (string \<Rightarrow> string list) \<Rightarrow> string list \<Rightarrow> (string \<Rightarrow> color) \<Rightarrow> plan_error option" where
  "visit_all fuel deps [] color = None"
| "visit_all fuel deps (tid # tids) color =
     (if color tid = White
      then (case visit_deps fuel deps [tid] (deps tid) (color(tid := Gray)) of
              (Some e, c) \<Rightarrow> Some e
            | (None, c) \<Rightarrow> visit_all fuel deps tids (c(tid := Black)))
      else visit_all fuel deps tids color)"

definition unknown_deps :: "dev_task list \<Rightarrow> dev_task \<Rightarrow> string list" where
  "unknown_deps tasks t = filter (\<lambda>d. d \<notin> set (map dt_id tasks)) (dt_depends_on t)"

definition validate_task_graph :: "dev_task list \<Rightarrow> plan_error option" where
  "validate_task_graph tasks =
     (case find (\<lambda>t. unknown_deps tasks t \<noteq> []) tasks of
        Some t \<Rightarrow> Some (Unknown_Deps (dt_id t) (unknown_deps tasks t))
      | None \<Rightarrow> visit_all (length tasks) (deps_of tasks) (map dt_id tasks) (\<lambda>_. White))"

section \<open>Sets that can be scheduled\<close>

text \<open>A set of tasks that can be finished one by one, each after its dependencies.\<close>

inductive sched :: "(string \<Rightarrow> string list) \<Rightarrow> string set \<Rightarrow> bool" for deps where
  sched_empty: "sched deps {}"
| sched_insert: "sched deps B \<Longrightarrow> set (deps t) \<subseteq> B \<Longrightarrow> sched deps (insert t B)"

definition dep_rel :: "(string \<Rightarrow> string list) \<Rightarrow> string set \<Rightarrow> (string \<times> string) set" where
  "dep_rel deps ids = {(a, b). a \<in> ids \<and> b \<in> set (deps a)}"

lemma sched_finite: "sched deps B \<Longrightarrow> finite B"
  by (induction rule: sched.induct) auto

lemma sched_closed: "sched deps B \<Longrightarrow> a \<in> B \<Longrightarrow> set (deps a) \<subseteq> B"
  by (induction rule: sched.induct) auto

lemma sched_rank: "sched deps B \<Longrightarrow> \<exists>f :: string \<Rightarrow> nat. \<forall>a \<in> B. \<forall>b \<in> set (deps a). f b < f a"
proof (induction rule: sched.induct)
  case (sched_insert B t)
  then obtain f :: "string \<Rightarrow> nat" where f: "\<forall>a \<in> B. \<forall>b \<in> set (deps a). f b < f a" by blast
  show ?case
  proof (cases "t \<in> B")
    case True
    then show ?thesis using f by (auto simp: insert_absorb)
  next
    case False
    have fin: "finite (f ` B)" using sched_finite [OF sched_insert.hyps(1)] by simp
    let ?f = "f(t := Suc (Max (insert 0 (f ` B))))"
    have "?f b < ?f t" if "b \<in> set (deps t)" for b
    proof -
      have b: "b \<in> B" using that sched_insert.hyps(2) by blast
      then have "f b \<le> Max (insert 0 (f ` B))" using fin by simp
      with b False show ?thesis by auto
    qed
    moreover have "?f b < ?f a" if "a \<in> B" "b \<in> set (deps a)" for a b
    proof -
      have "b \<in> B" using sched_closed [OF sched_insert.hyps(1) that(1)] that(2) by blast
      with False that f show ?thesis by auto
    qed
    ultimately show ?thesis by blast
  qed
qed simp

lemma sched_acyclic:
  assumes "sched deps ids"
  shows "acyclic (dep_rel deps ids)"
proof -
  obtain f :: "string \<Rightarrow> nat" where "\<forall>a \<in> ids. \<forall>b \<in> set (deps a). f b < f a" using sched_rank [OF assms] by blast
  then have "(dep_rel deps ids)\<inverse> \<subseteq> measure f" by (auto simp: dep_rel_def)
  then have "wf ((dep_rel deps ids)\<inverse>)" by (rule wf_subset [OF wf_measure])
  then show ?thesis using wf_acyclic acyclic_converse by blast
qed

text \<open>Progress: some task outside a smaller set has all its dependencies inside.\<close>

lemma sched_progress:
  assumes "sched deps ids" "\<not> ids \<subseteq> done_ids"
  shows "\<exists>t \<in> ids - done_ids. set (deps t) \<subseteq> done_ids"
  using assms
proof (induction rule: sched.induct)
  case (sched_insert B t)
  show ?case
  proof (cases "B \<subseteq> done_ids")
    case True
    with sched_insert show ?thesis by auto
  next
    case False
    with sched_insert show ?thesis by blast
  qed
qed simp

section \<open>The search\<close>

lemma visit_deps_None:
  assumes "visit_deps fuel deps path ds color = (None, c)" "sched deps {x. color x = Black}"
  shows "{x. c x = Gray} = {x. color x = Gray} \<and> sched deps {x. c x = Black} \<and>
    {x. color x = Black} \<subseteq> {x. c x = Black} \<and> set ds \<subseteq> {x. c x = Black}"
  using assms
proof (induction fuel deps path ds color arbitrary: c rule: visit_deps.induct)
  case (2 fuel deps path dep ds color)
  show ?case
  proof (cases "color dep")
    case White
    then obtain f where f: "fuel = Suc f" using "2.prems"(1) by (cases fuel) auto
    obtain r c1 where r: "visit_deps f deps (path @ [dep]) (deps dep) (color(dep := Gray)) = (r, c1)" by fastforce
    with White f "2.prems"(1) have none: "r = None" and tail: "visit_deps fuel deps path ds (c1(dep := Black)) = (None, c)"
      by (auto split: option.splits)
    have black: "{x. (color(dep := Gray)) x = Black} = {x. color x = Black}" using White by auto
    have gray: "{x. (color(dep := Gray)) x = Gray} = insert dep {x. color x = Gray}" by auto
    have inner: "{x. c1 x = Gray} = insert dep {x. color x = Gray}" "sched deps {x. c1 x = Black}"
      "{x. color x = Black} \<subseteq> {x. c1 x = Black}" "set (deps dep) \<subseteq> {x. c1 x = Black}"
      using "2.IH"(1) [OF White f r [unfolded none]] "2.prems"(2) unfolding black gray by auto
    have black1: "{x. (c1(dep := Black)) x = Black} = insert dep {x. c1 x = Black}" by auto
    have gray1: "{x. (c1(dep := Black)) x = Gray} = {x. color x = Gray}"
    proof -
      have "{x. (c1(dep := Black)) x = Gray} = {x. c1 x = Gray} - {dep}" by auto
      then show ?thesis using inner(1) White by auto
    qed
    have "sched deps {x. (c1(dep := Black)) x = Black}"
      unfolding black1 using inner(2,4) by (rule sched_insert)
    from "2.IH"(2) [OF White f r [unfolded none, symmetric] refl tail this] show ?thesis
      using gray1 black1 inner(3) by auto
  next
    case Gray
    with "2.prems" show ?thesis by simp
  next
    case Black
    with "2.prems" "2.IH"(3) show ?thesis by auto
  qed
qed auto

definition dep_path :: "(string \<Rightarrow> string list) \<Rightarrow> string list \<Rightarrow> bool" where
  "dep_path deps xs \<longleftrightarrow> successively (\<lambda>a b. b \<in> set (deps a)) xs"

definition is_cycle :: "(string \<Rightarrow> string list) \<Rightarrow> string set \<Rightarrow> string list \<Rightarrow> bool" where
  "is_cycle deps ids xs \<longleftrightarrow> 2 \<le> length xs \<and> hd xs = last xs \<and> dep_path deps xs \<and> set xs \<subseteq> ids"

lemma dep_path_snoc:
  "xs \<noteq> [] \<Longrightarrow> dep_path deps (xs @ [x]) \<longleftrightarrow> dep_path deps xs \<and> x \<in> set (deps (last xs))"
  by (auto simp: dep_path_def successively_append_iff)

lemma dep_path_dropWhile: "dep_path deps xs \<Longrightarrow> dep_path deps (dropWhile P xs)"
proof -
  assume "dep_path deps xs"
  then have "dep_path deps (takeWhile P xs @ dropWhile P xs)" by simp
  then show ?thesis by (simp only: dep_path_def successively_append_iff)
qed

lemma dep_path_reach:
  assumes "dep_path deps xs" "set xs \<subseteq> ids" "2 \<le> length xs"
  shows "(hd xs, last xs) \<in> (dep_rel deps ids)\<^sup>+"
  using assms
proof (induction xs)
  case (Cons x xs)
  then obtain y ys where xs: "xs = y # ys" by (cases xs) auto
  have xy: "(x, y) \<in> dep_rel deps ids" using Cons.prems by (auto simp: xs dep_path_def dep_rel_def)
  show ?case
  proof (cases ys)
    case Nil
    with xy show ?thesis by (simp add: xs)
  next
    case (Cons z zs)
    have "(hd xs, last xs) \<in> (dep_rel deps ids)\<^sup>+"
      using Cons.prems Cons by (intro Cons.IH) (auto simp: xs dep_path_def)
    with xy show ?thesis by (auto simp: xs intro: trancl_into_trancl2)
  qed
qed simp

lemma cycle_not_acyclic: "is_cycle deps ids xs \<Longrightarrow> \<not> acyclic (dep_rel deps ids)"
  using dep_path_reach [of deps xs ids] by (auto simp: is_cycle_def acyclic_def)

lemma visit_deps_cycle:
  assumes "visit_deps fuel deps path ds color = (Some e, c)" "sched deps {x. color x = Black}"
    and "{x. color x = Gray} = set path" "distinct path" "path \<noteq> []" "dep_path deps path"
    and "set ds \<subseteq> set (deps (last path))" "set path \<subseteq> ids" "\<And>i. i \<in> ids \<Longrightarrow> set (deps i) \<subseteq> ids"
    and "finite ids" "card ids \<le> length path + fuel"
  shows "\<exists>xs. e = Dependency_Cycle xs \<and> is_cycle deps ids xs"
  using assms(1-9,11)
proof (induction fuel deps path ds color arbitrary: c rule: visit_deps.induct)
  case (2 fuel deps path dep ds color)
  note prems = "2.prems"
  have "last path \<in> ids" using prems(5,8) last_in_set by blast
  from prems(9) [OF this] have "set (deps (last path)) \<subseteq> ids" .
  then have dep: "dep \<in> set (deps (last path))" "dep \<in> ids" using prems(7) by auto
  show ?case
  proof (cases "color dep")
    case Gray
    then have mem: "dep \<in> set path" using prems(3) by auto
    let ?tail = "dropWhile (\<lambda>x. x \<noteq> dep) path"
    have tail: "?tail \<noteq> []" "hd ?tail = dep" using mem hd_dropWhile [of "\<lambda>x. x \<noteq> dep" path] by (auto simp: dropWhile_eq_Nil_conv)
    have "last ?tail = last path" using last_appendR [OF tail(1), of "takeWhile (\<lambda>x. x \<noteq> dep) path"] by simp
    moreover have "set ?tail \<subseteq> ids" by (rule subsetI, rule subsetD [OF prems(8)], erule set_dropWhileD)
    ultimately have "is_cycle deps ids (?tail @ [dep])"
      using tail dep dep_path_dropWhile [OF prems(6)]
      by (simp add: is_cycle_def dep_path_snoc Suc_le_eq)
    with Gray prems(1) show ?thesis by auto
  next
    case Black
    with prems "2.IH"(3) show ?thesis by auto
  next
    case White
    then have new: "dep \<notin> set path" unfolding prems(3) [symmetric] by simp
    have "length path < card ids"
    proof -
      have "card (insert dep (set path)) \<le> card ids" using dep(2) prems(8) by (intro card_mono [OF assms(10)]) auto
      then show ?thesis using new prems(4) by (simp add: distinct_card)
    qed
    with prems(10) obtain f where f: "fuel = Suc f" by (cases fuel) auto
    obtain r c1 where r: "visit_deps f deps (path @ [dep]) (deps dep) (color(dep := Gray)) = (r, c1)" by fastforce
    have black: "{x. (color(dep := Gray)) x = Black} = {x. color x = Black}" using White by auto
    have gray: "{x. (color(dep := Gray)) x = Gray} = insert dep (set path)" using prems(3) by auto
    have s: "sched deps {x. (color(dep := Gray)) x = Black}" unfolding black by (rule prems(2))
    have g: "{x. (color(dep := Gray)) x = Gray} = set (path @ [dep])" using gray by simp
    show ?thesis
    proof (cases r)
      case (Some e')
      with White f r prems(1) have e: "e' = e" by auto
      show ?thesis
        by (rule "2.IH"(1) [OF White f r [unfolded Some e] s g])
          (use prems(4-10) new dep f in \<open>simp_all add: dep_path_snoc\<close>)
    next
      case None
      with White f r prems(1) have tail: "visit_deps fuel deps path ds (c1(dep := Black)) = (Some e, c)" by simp
      have inner: "{x. c1 x = Gray} = insert dep (set path)" "sched deps {x. c1 x = Black}" "set (deps dep) \<subseteq> {x. c1 x = Black}"
        using visit_deps_None [OF r [unfolded None]] prems(2) unfolding black gray by auto
      have black1: "{x. (c1(dep := Black)) x = Black} = insert dep {x. c1 x = Black}" by auto
      have "{x. (c1(dep := Black)) x = Gray} = {x. c1 x = Gray} - {dep}" by auto
      then have gray1: "{x. (c1(dep := Black)) x = Gray} = set path" using inner(1) new by auto
      have "sched deps {x. (c1(dep := Black)) x = Black}" unfolding black1 using inner(2,3) by (rule sched_insert)
      from "2.IH"(2) [OF White f r [unfolded None, symmetric] refl tail this gray1] prems show ?thesis by simp
    qed
  qed
qed simp

lemma visit_all_None:
  assumes "visit_all fuel deps tids color = None" "sched deps {x. color x = Black}" "{x. color x = Gray} = {}"
  shows "\<exists>B. sched deps B \<and> set tids \<subseteq> B"
proof -
  have "\<exists>B. sched deps B \<and> {x. color x = Black} \<union> set tids \<subseteq> B"
    using assms
  proof (induction fuel deps tids color rule: visit_all.induct)
    case (2 fuel deps tid tids color)
    show ?case
    proof (cases "color tid = White")
      case True
      obtain c where v: "visit_deps fuel deps [tid] (deps tid) (color(tid := Gray)) = (None, c)"
        and rest: "visit_all fuel deps tids (c(tid := Black)) = None"
        using "2.prems"(1) True by (auto split: prod.splits option.splits)
      have black: "{x. (color(tid := Gray)) x = Black} = {x. color x = Black}" using True by auto
      have inner: "{x. c x = Gray} = {tid}" "sched deps {x. c x = Black}" "{x. color x = Black} \<subseteq> {x. c x = Black}"
        "set (deps tid) \<subseteq> {x. c x = Black}"
        using visit_deps_None [OF v] "2.prems"(2,3) unfolding black by auto
      have black1: "{x. (c(tid := Black)) x = Black} = insert tid {x. c x = Black}" by auto
      have "sched deps {x. (c(tid := Black)) x = Black}" unfolding black1 using inner(2,4) by (rule sched_insert)
      moreover have "{x. (c(tid := Black)) x = Gray} = {}" using inner(1) by auto
      ultimately obtain B where "sched deps B" "{x. (c(tid := Black)) x = Black} \<union> set tids \<subseteq> B"
        using "2.IH"(1) [OF True v [symmetric] refl rest] by blast
      then show ?thesis unfolding black1 using inner(3) by auto
    next
      case False
      then have "color tid = Black" using "2.prems"(3) by (cases "color tid") auto
      with False "2.prems" "2.IH"(2) show ?thesis by auto
    qed
  qed auto
  then show ?thesis by blast
qed

lemma visit_all_Some:
  assumes "visit_all fuel deps tids color = Some e" "sched deps {x. color x = Black}" "{x. color x = Gray} = {}"
    and "\<And>i. i \<in> ids \<Longrightarrow> set (deps i) \<subseteq> ids" "finite ids" "card ids \<le> Suc fuel" "set tids \<subseteq> ids"
  shows "\<exists>xs. e = Dependency_Cycle xs \<and> is_cycle deps ids xs"
  using assms(1-4,6,7)
proof (induction fuel deps tids color rule: visit_all.induct)
  case (2 fuel deps tid tids color)
  show ?case
  proof (cases "color tid = White")
    case True
    obtain r c where v: "visit_deps fuel deps [tid] (deps tid) (color(tid := Gray)) = (r, c)" by fastforce
    have black: "{x. (color(tid := Gray)) x = Black} = {x. color x = Black}" using True by auto
    have gray: "{x. (color(tid := Gray)) x = Gray} = set [tid]" using "2.prems"(3) by auto
    show ?thesis
    proof (cases r)
      case (Some e')
      then have e: "e' = e" using "2.prems"(1) True v by simp
      show ?thesis
        by (rule visit_deps_cycle [OF v [unfolded Some e] _ gray _ _ _ _ _ "2.prems"(4) assms(5)])
          (use "2.prems" black in \<open>auto simp: dep_path_def\<close>)
    next
      case None
      have rest: "visit_all fuel deps tids (c(tid := Black)) = Some e" using "2.prems"(1) True v None by simp
      have inner: "{x. c x = Gray} = {tid}" "sched deps {x. c x = Black}" "set (deps tid) \<subseteq> {x. c x = Black}"
        using visit_deps_None [OF v [unfolded None]] "2.prems"(2,3) unfolding black by auto
      have black1: "{x. (c(tid := Black)) x = Black} = insert tid {x. c x = Black}" by auto
      have "sched deps {x. (c(tid := Black)) x = Black}" unfolding black1 using inner(2,3) by (rule sched_insert)
      moreover have "{x. (c(tid := Black)) x = Gray} = {}" using inner(1) by auto
      ultimately show ?thesis using "2.IH"(1) [OF True v [unfolded None, symmetric] refl rest] "2.prems"(4-6) by simp
    qed
  next
    case False
    with "2.prems" "2.IH"(2) show ?thesis by simp
  qed
qed simp

lemma tasks_by_id_keys: "set (dict_keys (tasks_by_id tasks)) = set (map dt_id tasks)"
  unfolding tasks_by_id_def dict_of_facts(2) by (simp add: comp_def)

lemma task_at:
  assumes "tid \<in> set (map dt_id tasks)"
  shows "dict_at (tasks_by_id tasks) tid \<in> set tasks \<and> dt_id (dict_at (tasks_by_id tasks) tid) = tid"
proof -
  have "tid \<in> set (dict_keys (tasks_by_id tasks))" unfolding tasks_by_id_keys by (rule assms)
  then have "dict_get (tasks_by_id tasks) tid \<noteq> None" by (simp add: map_of_eq_None_iff)
  then obtain t where t: "dict_get (tasks_by_id tasks) tid = Some t" by blast
  then have "(tid, t) \<in> set (map (\<lambda>t. (dt_id t, t)) tasks)"
    using dict_of_facts(3) unfolding tasks_by_id_def by (meson map_of_SomeD subsetD)
  with t show ?thesis by (auto simp: dict_at_def)
qed

text \<open>What a validated plan gives its scheduler.\<close>

lemma validated_sched:
  assumes "validate_task_graph tasks = None"
  shows "sched (deps_of tasks) (set (map dt_id tasks))"
proof -
  have known: "unknown_deps tasks t = []" if "t \<in> set tasks" for t
    using assms that by (auto simp: validate_task_graph_def find_None_iff split: option.splits)
  have "visit_all (length tasks) (deps_of tasks) (map dt_id tasks) (\<lambda>_. White) = None"
    using assms by (auto simp: validate_task_graph_def split: option.splits)
  from visit_all_None [OF this] obtain B where B: "sched (deps_of tasks) B" "set (map dt_id tasks) \<subseteq> B"
    by (auto simp: sched_empty simp del: set_map)
  have "sched (deps_of tasks) (B \<inter> A)" if "sched (deps_of tasks) B" "\<And>i. i \<in> A \<Longrightarrow> set (deps_of tasks i) \<subseteq> A" for A B
    using that(1)
  proof (induction rule: sched.induct)
    case (sched_insert B t)
    show ?case
    proof (cases "t \<in> A")
      case True
      then have "set (deps_of tasks t) \<subseteq> B \<inter> A" using that(2) sched_insert.hyps(2) by blast
      from sched.sched_insert [OF sched_insert.IH this] True show ?thesis by simp
    next
      case False
      with sched_insert.IH show ?thesis by simp
    qed
  qed (simp add: sched_empty)
  moreover have "set (deps_of tasks i) \<subseteq> set (map dt_id tasks)" if "i \<in> set (map dt_id tasks)" for i
    using task_at [OF that] known unfolding deps_of_def unknown_deps_def filter_empty_conv by blast
  ultimately have "sched (deps_of tasks) (B \<inter> set (map dt_id tasks))" using B(1) by blast
  then show ?thesis using B(2) by (simp add: Int_absorb1)
qed

section \<open>Property\<close>

text \<open>C14: plan validation is exact. A plan passes if and only if every task depends only on tasks of the
  plan and the dependencies have no cycle; a reported cycle is one, edge by edge, and the search
  never runs out of its fuel.\<close>

theorem validate_task_graph_exact:
  "(validate_task_graph tasks = None \<longleftrightarrow>
      (\<forall>t \<in> set tasks. set (dt_depends_on t) \<subseteq> set (map dt_id tasks)) \<and>
      acyclic (dep_rel (deps_of tasks) (set (map dt_id tasks)))) \<and>
   validate_task_graph tasks \<noteq> Some Out_Of_Fuel \<and>
   (\<forall>xs. validate_task_graph tasks = Some (Dependency_Cycle xs) \<longrightarrow>
      is_cycle (deps_of tasks) (set (map dt_id tasks)) xs)"
proof (cases "find (\<lambda>t. unknown_deps tasks t \<noteq> []) tasks")
  case (Some t)
  then have "t \<in> set tasks" "unknown_deps tasks t \<noteq> []" by (auto simp: find_Some_iff)
  then have "\<not> (\<forall>t \<in> set tasks. set (dt_depends_on t) \<subseteq> set (map dt_id tasks))"
    by (auto simp: unknown_deps_def filter_empty_conv)
  then show ?thesis using Some by (simp add: validate_task_graph_def)
next
  case None
  let ?ids = "set (map dt_id tasks)"
  have v: "validate_task_graph tasks = visit_all (length tasks) (deps_of tasks) (map dt_id tasks) (\<lambda>_. White)"
    by (simp add: validate_task_graph_def None)
  have known: "set (dt_depends_on t) \<subseteq> ?ids" if "t \<in> set tasks" for t
    using None that by (auto simp: find_None_iff unknown_deps_def filter_empty_conv)
  have closed: "set (deps_of tasks i) \<subseteq> ?ids" if "i \<in> ?ids" for i
    using task_at [OF that] known by (simp add: deps_of_def)
  have "card ?ids \<le> Suc (length tasks)" using card_length [of "map dt_id tasks"] by simp
  then have cyc: "\<exists>xs. e = Dependency_Cycle xs \<and> is_cycle (deps_of tasks) ?ids xs" if "validate_task_graph tasks = Some e" for e
    using visit_all_Some [of "length tasks" "deps_of tasks" "map dt_id tasks" "\<lambda>_. White" e ?ids] that closed sched_empty
    by (simp add: v)
  show ?thesis
  proof (cases "validate_task_graph tasks")
    case None
    then show ?thesis using sched_acyclic [OF validated_sched [OF None]] known by auto
  next
    case (Some e)
    with cyc cycle_not_acyclic show ?thesis by fastforce
  qed
qed

definition demo_tasks :: "dev_task list" where
  "demo_tasks = [
     \<lparr>dt_id = ''t1'', dt_title = ''model'', dt_depends_on = [], dt_overlaps = [''db'']\<rparr>,
     \<lparr>dt_id = ''t2'', dt_title = ''api'', dt_depends_on = [''t1''], dt_overlaps = [''db'', ''http'']\<rparr>,
     \<lparr>dt_id = ''t3'', dt_title = ''docs'', dt_depends_on = [], dt_overlaps = []\<rparr>,
     \<lparr>dt_id = ''t4'', dt_title = ''ui'', dt_depends_on = [''t2'', ''t3''], dt_overlaps = []\<rparr>]"

lemma demo_valid: "validate_task_graph demo_tasks = None"
  by code_simp

lemma validate_task_graph_exact_witness:
  "validate_task_graph demo_tasks = None \<and> acyclic (dep_rel (deps_of demo_tasks) (set (map dt_id demo_tasks)))"
  using validate_task_graph_exact [of demo_tasks] demo_valid by simp

end
