(* ===== verification/Board_Store.thy ===== *)
theory Board_Store
  imports Task_Plan
begin

text \<open>
  The task board: \<open>board/models.py\<close>, \<open>board/schema.py\<close>, \<open>board/transitions.py\<close>, \<open>board/store.py\<close> and the
  claim-check store \<open>artifacts/store.py\<close> it writes blobs to. Each table is a list of rows in the order
  of insertion, each AUTOINCREMENT column a counter, the blob directory a map from paths to
  contents. A write transaction that raises rolls back, so an error carries no new board. SHA-256
  and the URI of a path are parameters; times are microseconds.
\<close>

section \<open>Entities\<close>

datatype artifact_status = PROPOSED | CURRENT | SUPERSEDED | REJECTED

datatype task_status = PENDING | IN_PROGRESS | DONE | FAILED | BLOCKED | QUARANTINED

datatype authority = AUTHORITATIVE | OBSERVATIONAL

fun artifact_status_value :: "artifact_status \<Rightarrow> string" where
  "artifact_status_value PROPOSED = ''proposed''"
| "artifact_status_value CURRENT = ''current''"
| "artifact_status_value SUPERSEDED = ''superseded''"
| "artifact_status_value REJECTED = ''rejected''"

fun task_status_value :: "task_status \<Rightarrow> string" where
  "task_status_value PENDING = ''pending''"
| "task_status_value IN_PROGRESS = ''in_progress''"
| "task_status_value DONE = ''done''"
| "task_status_value FAILED = ''failed''"
| "task_status_value BLOCKED = ''blocked''"
| "task_status_value QUARANTINED = ''quarantined''"

record artifact_ref =
  ar_kind :: string
  ar_uri :: string
  ar_sha256 :: string

record artifact_version =
  av_id :: nat
  av_project :: string
  av_key :: string
  av_n :: nat
  av_run_id :: string
  av_sha256 :: string
  av_uri :: string
  av_supersedes :: "nat option"
  av_created_at :: int

record board_artifact =
  ba_project :: string
  ba_key :: string
  ba_status :: artifact_status
  ba_current_version :: "nat option"

record board_task =
  bt_project :: string
  bt_plan_version :: nat
  bt_task_id :: string
  bt_run_id :: string
  bt_status :: task_status
  bt_authoritative_status :: task_status
  bt_row_version :: nat
  bt_fix_attempts :: nat
  bt_error :: "string option"
  bt_branch :: "string option"
  bt_updated_at :: int

record task_evidence =
  te_id :: nat
  te_project :: string
  te_plan_version :: nat
  te_task_id :: string
  te_run_id :: string
  te_kind :: string
  te_sha256 :: string
  te_uri :: string
  te_created_at :: int

record board_event =
  be_id :: nat
  be_project :: string
  be_subject :: string
  be_actor :: string
  be_authority :: authority
  be_from_status :: "string option"
  be_to_status :: "string option"
  be_at :: int
  be_detail :: string

record board_stats =
  bs_tasks_by_status :: "task_status \<rightharpoonup> nat"
  bs_total_fix_attempts :: nat
  bs_tasks_with_error :: nat
  bs_diverged_tasks :: nat
  bs_event_count :: nat

text \<open>The tables of the schema, and the blobs.\<close>

record board =
  bd_projects :: "(string, string) dict"
  bd_artifacts :: "board_artifact list"
  bd_versions :: "artifact_version list"
  bd_version_seq :: nat
  bd_tasks :: "board_task list"
  bd_evidence :: "task_evidence list"
  bd_evidence_seq :: nat
  bd_events :: "board_event list"
  bd_event_seq :: nat
  bd_blobs :: "string \<rightharpoonup> string"

definition empty_board :: board where
  "empty_board = \<lparr>bd_projects = [], bd_artifacts = [], bd_versions = [], bd_version_seq = 0, bd_tasks = [],
     bd_evidence = [], bd_evidence_seq = 0, bd_events = [], bd_event_seq = 0, bd_blobs = Map.empty\<rparr>"

record board_env =
  en_sha256 :: "string \<Rightarrow> string"
  en_uri :: "string \<Rightarrow> string"

datatype board_error =
    NotFoundError string
  | ConflictError nat nat
  | InvalidTransition task_status task_status
  | EvidenceKindError string

section \<open>The task state machine\<close>

fun TASK_TRANSITIONS :: "task_status \<Rightarrow> task_status list" where
  "TASK_TRANSITIONS PENDING = [IN_PROGRESS, BLOCKED]"
| "TASK_TRANSITIONS IN_PROGRESS = [DONE, FAILED, BLOCKED, QUARANTINED]"
| "TASK_TRANSITIONS BLOCKED = [PENDING, IN_PROGRESS, FAILED, QUARANTINED]"
| "TASK_TRANSITIONS FAILED = [IN_PROGRESS, DONE]"
| "TASK_TRANSITIONS QUARANTINED = [IN_PROGRESS]"
| "TASK_TRANSITIONS DONE = [IN_PROGRESS]"

definition check_task_transition :: "task_status \<Rightarrow> task_status \<Rightarrow> board_error + unit" where
  "check_task_transition frm to =
     (if to \<notin> set (TASK_TRANSITIONS frm) then Inl (InvalidTransition frm to) else Inr ())"

section \<open>Blobs\<close>

definition SUBDIRS :: "(string, string) dict" where
  "SUBDIRS = [(''harness_session'', ''sessions''), (''harness_session_digest'', ''sessions''),
     (''board_artifact'', ''artifacts''), (''board_evidence'', ''evidence'')]"

definition blob_path :: "string \<Rightarrow> string \<Rightarrow> string \<Rightarrow> string" where
  "blob_path kind run_id name = run_id @ ''/'' @ dict_get_or SUBDIRS kind kind @ ''/'' @ name"

definition put_blob :: "board_env \<Rightarrow> string \<Rightarrow> string \<Rightarrow> string \<Rightarrow> string \<Rightarrow> board \<Rightarrow> artifact_ref \<times> board" where
  "put_blob env kind run_id name data b =
     (let path = blob_path kind run_id name in
      (\<lparr>ar_kind = kind, ar_uri = en_uri env path, ar_sha256 = en_sha256 env data\<rparr>,
       b\<lparr>bd_blobs := (bd_blobs b)(path \<mapsto> data)\<rparr>))"

section \<open>Projects and events\<close>

definition add_event ::
    "int \<Rightarrow> string \<Rightarrow> string \<Rightarrow> string \<Rightarrow> authority \<Rightarrow> string option \<Rightarrow> string option \<Rightarrow> string \<Rightarrow> board \<Rightarrow> board" where
  "add_event now project subject actor auth frm to detail b =
     b\<lparr>bd_events := bd_events b @ [\<lparr>be_id = Suc (bd_event_seq b), be_project = project, be_subject = subject,
         be_actor = actor, be_authority = auth, be_from_status = frm, be_to_status = to, be_at = now,
         be_detail = detail\<rparr>],
       bd_event_seq := Suc (bd_event_seq b)\<rparr>"

definition ensure_project :: "string \<Rightarrow> string \<Rightarrow> board \<Rightarrow> board" where
  "ensure_project key repo b =
     (if dict_get (bd_projects b) key = None then b\<lparr>bd_projects := bd_projects b @ [(key, repo)]\<rparr> else b)"

definition list_projects :: "board \<Rightarrow> (string \<times> string) list" where
  "list_projects b = sort_key fst (bd_projects b)"

definition get_project :: "string \<Rightarrow> board \<Rightarrow> board_error + string \<times> string" where
  "get_project project b =
     (case dict_get (bd_projects b) project of
        None \<Rightarrow> Inl (NotFoundError (''no project '' @ py_repr project))
      | Some repo \<Rightarrow> Inr (project, repo))"

definition list_events :: "string \<Rightarrow> nat \<Rightarrow> string option \<Rightarrow> board \<Rightarrow> board_event list" where
  "list_events project since subject b =
     filter (\<lambda>e. be_project e = project \<and> since < be_id e \<and>
        (case subject of None \<Rightarrow> True | Some s \<Rightarrow> be_subject e = s)) (bd_events b)"

section \<open>Artifacts\<close>

abbreviation at_key :: "string \<Rightarrow> string \<Rightarrow> artifact_version \<Rightarrow> bool" where
  "at_key project key v \<equiv> av_project v = project \<and> av_key v = key"

definition find_artifact :: "string \<Rightarrow> string \<Rightarrow> board \<Rightarrow> board_artifact option" where
  "find_artifact project key b = find (\<lambda>a. ba_project a = project \<and> ba_key a = key) (bd_artifacts b)"

text \<open>\<open>COALESCE(MAX(n), 0)\<close> of the versions of an artifact.\<close>

definition max_n :: "string \<Rightarrow> string \<Rightarrow> board \<Rightarrow> nat" where
  "max_n project key b = foldr (\<lambda>v m. max (av_n v) m) (filter (at_key project key) (bd_versions b)) 0"

definition version_name :: "string \<Rightarrow> nat \<Rightarrow> string" where
  "version_name key n = key @ ''-v'' @ nat_str n @ ''.json''"

definition artifact_subject :: "string \<Rightarrow> string" where
  "artifact_subject key = ''artifact:'' @ key"

text \<open>The upsert of the pointer row: a current version moves it, any other only creates it.\<close>

definition upsert_artifact :: "string \<Rightarrow> string \<Rightarrow> artifact_status \<Rightarrow> nat \<Rightarrow> board \<Rightarrow> board" where
  "upsert_artifact project key status version_id b =
     (case find_artifact project key b of
        None \<Rightarrow> b\<lparr>bd_artifacts := bd_artifacts b @ [\<lparr>ba_project = project, ba_key = key, ba_status = status,
           ba_current_version = (if status = CURRENT then Some version_id else None)\<rparr>]\<rparr>
      | Some _ \<Rightarrow>
          if status = CURRENT
          then b\<lparr>bd_artifacts := map (\<lambda>a. if ba_project a = project \<and> ba_key a = key
                  then a\<lparr>ba_current_version := Some version_id, ba_status := CURRENT\<rparr> else a) (bd_artifacts b)\<rparr>
          else b)"

definition publish_artifact_version ::
    "board_env \<Rightarrow> int \<Rightarrow> string \<Rightarrow> string \<Rightarrow> string \<Rightarrow> string \<Rightarrow> artifact_status \<Rightarrow> string \<Rightarrow> board \<Rightarrow>
     (artifact_ref \<times> nat) \<times> board" where
  "publish_artifact_version env now project key run_id content status actor b =
     (let sha = en_sha256 env content in
      case find (\<lambda>v. at_key project key v \<and> av_run_id v = run_id \<and> av_sha256 v = sha) (bd_versions b) of
        Some prior \<Rightarrow> ((\<lparr>ar_kind = ''board_artifact'', ar_uri = av_uri prior, ar_sha256 = av_sha256 prior\<rparr>, av_id prior), b)
      | None \<Rightarrow>
          let n = max_n project key b + 1;
              prev_current = (case find_artifact project key b of None \<Rightarrow> None | Some a \<Rightarrow> ba_current_version a);
              (ref, b1) = put_blob env ''board_artifact'' run_id (version_name key n) content b;
              version_id = Suc (bd_version_seq b1);
              b2 = b1\<lparr>bd_versions := bd_versions b1 @ [\<lparr>av_id = version_id, av_project = project, av_key = key,
                     av_n = n, av_run_id = run_id, av_sha256 = ar_sha256 ref, av_uri = ar_uri ref,
                     av_supersedes = (if status = CURRENT then prev_current else None), av_created_at = now\<rparr>],
                   bd_version_seq := version_id\<rparr>;
              b3 = upsert_artifact project key status version_id b2;
              b4 = add_event now project (artifact_subject key) actor AUTHORITATIVE None
                     (Some (artifact_status_value status))
                     (''v'' @ nat_str n @ '' sha256='' @ take 12 (ar_sha256 ref)) b3
          in ((ref, version_id), b4))"

definition get_artifact :: "string \<Rightarrow> string \<Rightarrow> board \<Rightarrow> board_error + board_artifact" where
  "get_artifact project key b =
     (case find_artifact project key b of
        None \<Rightarrow> Inl (NotFoundError (''no artifact '' @ py_repr key @ '' in project '' @ py_repr project))
      | Some a \<Rightarrow> Inr a)"

definition list_artifacts :: "string \<Rightarrow> board \<Rightarrow> board_artifact list" where
  "list_artifacts project b = sort_key ba_key (filter (\<lambda>a. ba_project a = project) (bd_artifacts b))"

definition list_versions :: "string \<Rightarrow> string \<Rightarrow> board \<Rightarrow> artifact_version list" where
  "list_versions project key b = sort_key av_n (filter (at_key project key) (bd_versions b))"

definition get_version :: "string \<Rightarrow> nat \<Rightarrow> board \<Rightarrow> board_error + artifact_version" where
  "get_version project version_id b =
     (case find (\<lambda>v. av_project v = project \<and> av_id v = version_id) (bd_versions b) of
        None \<Rightarrow> Inl (NotFoundError (''no version '' @ nat_str version_id @ '' in '' @ py_repr project))
      | Some v \<Rightarrow> Inr v)"

section \<open>Tasks\<close>

abbreviation is_task :: "string \<Rightarrow> nat \<Rightarrow> string \<Rightarrow> board_task \<Rightarrow> bool" where
  "is_task project plan_version task_id t \<equiv>
     bt_project t = project \<and> bt_plan_version t = plan_version \<and> bt_task_id t = task_id"

definition task_subject :: "nat \<Rightarrow> string \<Rightarrow> string" where
  "task_subject plan_version task_id = ''task:'' @ nat_str plan_version @ '':'' @ task_id"

definition sync_one :: "int \<Rightarrow> string \<Rightarrow> nat \<Rightarrow> string \<Rightarrow> string \<Rightarrow> nat \<times> board \<Rightarrow> dev_task \<Rightarrow> nat \<times> board" where
  "sync_one now project plan_version run_id actor = (\<lambda>(inserted, b) t.
     if list_ex (is_task project plan_version (dt_id t)) (bd_tasks b) then (inserted, b)
     else (Suc inserted,
       add_event now project (task_subject plan_version (dt_id t)) actor AUTHORITATIVE None
         (Some (task_status_value PENDING)) (dt_title t)
         (b\<lparr>bd_tasks := bd_tasks b @ [\<lparr>bt_project = project, bt_plan_version = plan_version, bt_task_id = dt_id t,
            bt_run_id = run_id, bt_status = PENDING, bt_authoritative_status = PENDING, bt_row_version = 1,
            bt_fix_attempts = 0, bt_error = None, bt_branch = None, bt_updated_at = now\<rparr>]\<rparr>)))"

definition sync_plan_tasks ::
    "int \<Rightarrow> string \<Rightarrow> nat \<Rightarrow> string \<Rightarrow> dev_task list \<Rightarrow> string \<Rightarrow> board \<Rightarrow> nat \<times> board" where
  "sync_plan_tasks now project plan_version run_id tasks actor b =
     foldl (sync_one now project plan_version run_id actor) (0, b) tasks"

definition get_task :: "string \<Rightarrow> nat \<Rightarrow> string \<Rightarrow> board \<Rightarrow> board_error + board_task" where
  "get_task project plan_version task_id b =
     (case find (is_task project plan_version task_id) (bd_tasks b) of
        None \<Rightarrow> Inl (NotFoundError (''no task '' @ py_repr task_id @ '' in plan '' @ nat_str plan_version
                   @ '' of '' @ py_repr project))
      | Some t \<Rightarrow> Inr t)"

definition list_tasks :: "string \<Rightarrow> nat \<Rightarrow> task_status option \<Rightarrow> string option \<Rightarrow> board \<Rightarrow> board_task list" where
  "list_tasks project plan_version status run_id b =
     sort_key bt_task_id (filter (\<lambda>t. bt_project t = project \<and> bt_plan_version t = plan_version \<and>
        (case status of None \<Rightarrow> True | Some s \<Rightarrow> bt_status t = s) \<and>
        (case run_id of None \<Rightarrow> True | Some r \<Rightarrow> bt_run_id t = r)) (bd_tasks b))"

definition update_task :: "string \<Rightarrow> nat \<Rightarrow> string \<Rightarrow> (board_task \<Rightarrow> board_task) \<Rightarrow> board \<Rightarrow> board" where
  "update_task project plan_version task_id f b =
     b\<lparr>bd_tasks := map (\<lambda>t. if is_task project plan_version task_id t then f t else t) (bd_tasks b)\<rparr>"

definition coalesce :: "'a option \<Rightarrow> 'a option \<Rightarrow> 'a option" where
  "coalesce x y = (case x of Some v \<Rightarrow> Some v | None \<Rightarrow> y)"

definition authoritative_row ::
    "int \<Rightarrow> task_status \<Rightarrow> nat option \<Rightarrow> string option \<Rightarrow> string option \<Rightarrow> board_task \<Rightarrow> board_task" where
  "authoritative_row now status fix_attempts err branch t =
     t\<lparr>bt_status := status, bt_authoritative_status := status, bt_row_version := bt_row_version t + 1,
       bt_fix_attempts := (case fix_attempts of Some k \<Rightarrow> k | None \<Rightarrow> bt_fix_attempts t),
       bt_error := coalesce err (bt_error t), bt_branch := coalesce branch (bt_branch t), bt_updated_at := now\<rparr>"

text \<open>The row a write returns is read back after the transaction.\<close>

definition read_back :: "string \<Rightarrow> nat \<Rightarrow> string \<Rightarrow> board \<Rightarrow> board_error + board_task \<times> board" where
  "read_back project plan_version task_id b =
     (case get_task project plan_version task_id b of Inl e \<Rightarrow> Inl e | Inr t \<Rightarrow> Inr (t, b))"

definition set_task_authoritative ::
    "int \<Rightarrow> string \<Rightarrow> nat \<Rightarrow> string \<Rightarrow> task_status \<Rightarrow> string \<Rightarrow> nat option \<Rightarrow> string option \<Rightarrow> string option \<Rightarrow> board \<Rightarrow>
     board_error + board_task \<times> board" where
  "set_task_authoritative now project plan_version task_id status actor fix_attempts err branch b =
     (case get_task project plan_version task_id b of
        Inl e \<Rightarrow> Inl e
      | Inr task \<Rightarrow>
          if bt_authoritative_status task = status then Inr (task, b)
          else case check_task_transition (bt_authoritative_status task) status of
            Inl e \<Rightarrow> Inl e
          | Inr _ \<Rightarrow>
              read_back project plan_version task_id
                (add_event now project (task_subject plan_version task_id) actor AUTHORITATIVE
                  (Some (task_status_value (bt_authoritative_status task))) (Some (task_status_value status)) []
                  (update_task project plan_version task_id (authoritative_row now status fix_attempts err branch) b)))"

definition observational_row :: "int \<Rightarrow> task_status \<Rightarrow> board_task \<Rightarrow> board_task" where
  "observational_row now status t =
     t\<lparr>bt_status := status, bt_row_version := bt_row_version t + 1, bt_updated_at := now\<rparr>"

definition set_task_observational ::
    "int \<Rightarrow> string \<Rightarrow> nat \<Rightarrow> string \<Rightarrow> task_status \<Rightarrow> string \<Rightarrow> nat \<Rightarrow> string \<Rightarrow> board \<Rightarrow>
     board_error + board_task \<times> board" where
  "set_task_observational now project plan_version task_id status actor expect_row_version detail b =
     (case get_task project plan_version task_id b of
        Inl e \<Rightarrow> Inl e
      | Inr task \<Rightarrow>
          if bt_row_version task \<noteq> expect_row_version
          then Inl (ConflictError expect_row_version (bt_row_version task))
          else case check_task_transition (bt_status task) status of
            Inl e \<Rightarrow> Inl e
          | Inr _ \<Rightarrow>
              read_back project plan_version task_id
                (add_event now project (task_subject plan_version task_id) actor OBSERVATIONAL
                  (Some (task_status_value (bt_status task))) (Some (task_status_value status)) detail
                  (update_task project plan_version task_id (observational_row now status) b)))"

section \<open>Evidence and statistics\<close>

definition EVIDENCE_KINDS :: "string list" where
  "EVIDENCE_KINDS = [''qa'', ''review'', ''deep_review'']"

definition attach_task_evidence ::
    "board_env \<Rightarrow> int \<Rightarrow> string \<Rightarrow> nat \<Rightarrow> string \<Rightarrow> string \<Rightarrow> string \<Rightarrow> string \<Rightarrow> board \<Rightarrow>
     board_error + artifact_ref \<times> board" where
  "attach_task_evidence env now project plan_version task_id run_id kind content b =
     (if kind \<notin> set EVIDENCE_KINDS then Inl (EvidenceKindError kind)
      else case get_task project plan_version task_id b of
        Inl e \<Rightarrow> Inl e
      | Inr _ \<Rightarrow>
          let sha = en_sha256 env content in
          case find (\<lambda>e. te_project e = project \<and> te_plan_version e = plan_version \<and> te_task_id e = task_id \<and>
                 te_run_id e = run_id \<and> te_kind e = kind \<and> te_sha256 e = sha) (bd_evidence b) of
            Some prior \<Rightarrow> Inr (\<lparr>ar_kind = ''board_evidence'', ar_uri = te_uri prior, ar_sha256 = te_sha256 prior\<rparr>, b)
          | None \<Rightarrow>
              (case put_blob env ''board_evidence'' run_id (task_id @ ''-'' @ kind @ ''.json'') content b of (ref, b1) \<Rightarrow>
                 Inr (ref, b1\<lparr>bd_evidence := bd_evidence b1 @ [\<lparr>te_id = Suc (bd_evidence_seq b1), te_project = project,
                   te_plan_version = plan_version, te_task_id = task_id, te_run_id = run_id, te_kind = kind,
                   te_sha256 = ar_sha256 ref, te_uri = ar_uri ref, te_created_at = now\<rparr>],
                   bd_evidence_seq := Suc (bd_evidence_seq b1)\<rparr>)))"

definition list_evidence :: "string \<Rightarrow> nat \<Rightarrow> string \<Rightarrow> board \<Rightarrow> task_evidence list" where
  "list_evidence project plan_version task_id b =
     filter (\<lambda>e. te_project e = project \<and> te_plan_version e = plan_version \<and> te_task_id e = task_id) (bd_evidence b)"

definition diverged :: "board_task \<Rightarrow> bool" where
  "diverged t \<longleftrightarrow> bt_status t \<noteq> bt_authoritative_status t"

definition count_status :: "board_task list \<Rightarrow> task_status \<Rightarrow> nat" where
  "count_status ts s = length (filter (\<lambda>t. bt_authoritative_status t = s) ts)"

definition stats :: "string \<Rightarrow> board \<Rightarrow> board_stats" where
  "stats project b =
     (let ts = filter (\<lambda>t. bt_project t = project) (bd_tasks b) in
      \<lparr>bs_tasks_by_status = (\<lambda>s. if count_status ts s = 0 then None else Some (count_status ts s)),
       bs_total_fix_attempts = sum_list (map bt_fix_attempts ts),
       bs_tasks_with_error = length (filter (\<lambda>t. bt_error t \<noteq> None) ts),
       bs_diverged_tasks = length (filter diverged ts),
       bs_event_count = length (filter (\<lambda>e. be_project e = project) (bd_events b))\<rparr>)"

section \<open>The boards a store can hold\<close>

inductive board_step :: "board_env \<Rightarrow> board \<Rightarrow> board \<Rightarrow> bool" for env where
  br_project: "board_step env b (ensure_project key repo b)"
| br_publish: "publish_artifact_version env now project key run_id content status actor b = (r, b') \<Longrightarrow> board_step env b b'"
| br_sync: "sync_plan_tasks now project plan_version run_id tasks actor b = (k, b') \<Longrightarrow> board_step env b b'"
| br_authoritative: "set_task_authoritative now project plan_version task_id s actor fix err br b = Inr (t, b') \<Longrightarrow>
    board_step env b b'"
| br_observational: "set_task_observational now project plan_version task_id s actor rv detail b = Inr (t, b') \<Longrightarrow>
    board_step env b b'"
| br_evidence: "attach_task_evidence env now project plan_version task_id run_id kind content b = Inr (r, b') \<Longrightarrow>
    board_step env b b'"

abbreviation board_steps :: "board_env \<Rightarrow> board \<Rightarrow> board \<Rightarrow> bool" where
  "board_steps env \<equiv> (board_step env)\<^sup>*\<^sup>*"

abbreviation board_reach :: "board_env \<Rightarrow> board \<Rightarrow> bool" where
  "board_reach env \<equiv> board_steps env empty_board"

end
