(* ===== verification/Board_Properties.thy ===== *)
theory Board_Properties
  imports Board_Store
begin

text \<open>
  What the board promises. \<open>versions_inv\<close> is the invariant of artifacts and their versions,
  \<open>tasks_inv\<close> that of the task rows; every operation of the store keeps both. The event log is the
  abstract specification of the task rows: replaying it gives every live and every authoritative
  status the table holds.
\<close>

section \<open>Rows and events\<close>

lemma find_ex: "x \<in> set xs \<Longrightarrow> P x \<Longrightarrow> \<exists>y. find P xs = Some y \<and> y \<in> set xs \<and> P y"
  by (induction xs) auto

lemma add_event_sel [simp]:
  "bd_projects (add_event now p s a au f t d b) = bd_projects b" "bd_artifacts (add_event now p s a au f t d b) = bd_artifacts b"
  "bd_versions (add_event now p s a au f t d b) = bd_versions b" "bd_version_seq (add_event now p s a au f t d b) = bd_version_seq b"
  "bd_tasks (add_event now p s a au f t d b) = bd_tasks b"
  by (simp_all add: add_event_def)

lemma update_task_sel [simp]:
  "bd_artifacts (update_task p v i f b) = bd_artifacts b" "bd_versions (update_task p v i f b) = bd_versions b"
  "bd_version_seq (update_task p v i f b) = bd_version_seq b" "bd_events (update_task p v i f b) = bd_events b"
  by (simp_all add: update_task_def)

lemma upsert_sel [simp]:
  "bd_versions (upsert_artifact p k s i b) = bd_versions b" "bd_version_seq (upsert_artifact p k s i b) = bd_version_seq b"
  "bd_tasks (upsert_artifact p k s i b) = bd_tasks b" "bd_events (upsert_artifact p k s i b) = bd_events b"
  "bd_event_seq (upsert_artifact p k s i b) = bd_event_seq b"
  by (simp_all add: upsert_artifact_def split: option.splits)

lemma put_blob_sel:
  assumes "put_blob env kind run name data b = (ref, b')"
  shows "b' = b\<lparr>bd_blobs := (bd_blobs b)(blob_path kind run name \<mapsto> data)\<rparr>" "ar_sha256 ref = en_sha256 env data"
    "ar_kind ref = kind" "ar_uri ref = en_uri env (blob_path kind run name)"
  using assms by (auto simp: put_blob_def Let_def)

lemma task_subject_inject [simp]: "task_subject v i = task_subject v' i' \<longleftrightarrow> v = v' \<and> i = i'"
proof -
  have colon: "CHR '':'' \<notin> set (nat_str n)" for n by (rule not_digit_notin_nat_str) (simp add: is_digit_def)
  have "takeWhile (\<lambda>c. c \<noteq> CHR '':'') (nat_str n @ CHR '':'' # x) = nat_str n" for n x
    using colon [of n] by (subst takeWhile_append2) auto
  then have "nat_str v @ '':'' @ i = nat_str v' @ '':'' @ i' \<Longrightarrow> nat_str v = nat_str v'"
    by (metis append_Cons append_Nil)
  then show ?thesis by (auto simp: task_subject_def)
qed

lemma artifact_not_task [simp]: "artifact_subject key \<noteq> task_subject v i"
  by (simp add: artifact_subject_def task_subject_def)

lemma find_map_task:
  assumes "\<And>t. bt_project (f t) = bt_project t \<and> bt_plan_version (f t) = bt_plan_version t \<and> bt_task_id (f t) = bt_task_id t"
  shows "find (is_task p' v' i') (map (\<lambda>t. if is_task p v i t then f t else t) ts)
    = (if p' = p \<and> v' = v \<and> i' = i then map_option f (find (is_task p v i) ts) else find (is_task p' v' i') ts)"
  using assms by (induction ts) auto

lemma row_keys:
  "bt_project (authoritative_row now s fx err br t) = bt_project t \<and>
   bt_plan_version (authoritative_row now s fx err br t) = bt_plan_version t \<and>
   bt_task_id (authoritative_row now s fx err br t) = bt_task_id t"
  "bt_project (observational_row now s t) = bt_project t \<and>
   bt_plan_version (observational_row now s t) = bt_plan_version t \<and> bt_task_id (observational_row now s t) = bt_task_id t"
  by (simp_all add: authoritative_row_def observational_row_def)

text \<open>A write that succeeds, in one form for both writers.\<close>

lemma authoritative_cases:
  assumes "set_task_authoritative now p v i s actor fx err br b = Inr (t, b')"
  obtains (same) "b' = b" "get_task p v i b = Inr t" "bt_authoritative_status t = s"
  | (moved) t0 where "get_task p v i b = Inr t0" "s \<in> set (TASK_TRANSITIONS (bt_authoritative_status t0))"
      "t = authoritative_row now s fx err br t0"
      "b' = add_event now p (task_subject v i) actor AUTHORITATIVE (Some (task_status_value (bt_authoritative_status t0)))
         (Some (task_status_value s)) [] (update_task p v i (authoritative_row now s fx err br) b)"
proof -
  obtain t0 where t0: "get_task p v i b = Inr t0"
    using assms by (auto simp: set_task_authoritative_def split: sum.splits)
  then have find: "find (is_task p v i) (bd_tasks b) = Some t0" by (auto simp: get_task_def split: option.splits)
  show thesis
  proof (cases "bt_authoritative_status t0 = s")
    case True
    with assms t0 show thesis by (intro same) (simp_all add: set_task_authoritative_def)
  next
    case False
    let ?b = "add_event now p (task_subject v i) actor AUTHORITATIVE (Some (task_status_value (bt_authoritative_status t0)))
         (Some (task_status_value s)) [] (update_task p v i (authoritative_row now s fx err br) b)"
    have "get_task p v i ?b = Inr (authoritative_row now s fx err br t0)"
      using find by (simp add: get_task_def update_task_def find_map_task [OF row_keys(1)])
    with assms t0 False show thesis
      by (intro moved [of t0]) (auto simp: set_task_authoritative_def check_task_transition_def read_back_def split: if_splits)
  qed
qed

lemma observational_cases:
  assumes "set_task_observational now p v i s actor rv detail b = Inr (t, b')"
  obtains t0 where "get_task p v i b = Inr t0" "bt_row_version t0 = rv" "s \<in> set (TASK_TRANSITIONS (bt_status t0))"
      "t = observational_row now s t0"
      "b' = add_event now p (task_subject v i) actor OBSERVATIONAL (Some (task_status_value (bt_status t0)))
         (Some (task_status_value s)) detail (update_task p v i (observational_row now s) b)"
proof -
  obtain t0 where t0: "get_task p v i b = Inr t0" "bt_row_version t0 = rv" "s \<in> set (TASK_TRANSITIONS (bt_status t0))"
    using assms by (auto simp: set_task_observational_def check_task_transition_def split: sum.splits if_splits)
  then have find: "find (is_task p v i) (bd_tasks b) = Some t0" by (auto simp: get_task_def split: option.splits)
  let ?b = "add_event now p (task_subject v i) actor OBSERVATIONAL (Some (task_status_value (bt_status t0)))
         (Some (task_status_value s)) detail (update_task p v i (observational_row now s) b)"
  have "get_task p v i ?b = Inr (observational_row now s t0)"
    using find by (simp add: get_task_def update_task_def find_map_task [OF row_keys(2)])
  with assms t0 show thesis
    by (intro that [of t0]) (auto simp: set_task_observational_def check_task_transition_def read_back_def)
qed

text \<open>A publication that is not a repetition.\<close>

lemma publish_cases:
  assumes "publish_artifact_version env now p k run c s actor b = (r, b')"
  obtains (repeated) prior where
      "find (\<lambda>v. at_key p k v \<and> av_run_id v = run \<and> av_sha256 v = en_sha256 env c) (bd_versions b) = Some prior"
      "b' = b" "snd r = av_id prior"
  | (appended) v where
      "find (\<lambda>v. at_key p k v \<and> av_run_id v = run \<and> av_sha256 v = en_sha256 env c) (bd_versions b) = None"
      "at_key p k v" "av_id v = Suc (bd_version_seq b)" "av_n v = max_n p k b + 1" "av_run_id v = run"
      "av_sha256 v = en_sha256 env c" "snd r = av_id v"
      "av_supersedes v = (if s = CURRENT then (case find_artifact p k b of None \<Rightarrow> None | Some a \<Rightarrow> ba_current_version a) else None)"
      "bd_versions b' = bd_versions b @ [v]" "bd_version_seq b' = av_id v" "bd_tasks b' = bd_tasks b"
      "bd_artifacts b' = bd_artifacts (upsert_artifact p k s (av_id v) b)"
      "\<exists>d. bd_events b' = bd_events (add_event now p (artifact_subject k) actor AUTHORITATIVE None (Some (artifact_status_value s)) d b)"
proof (cases "find (\<lambda>v. at_key p k v \<and> av_run_id v = run \<and> av_sha256 v = en_sha256 env c) (bd_versions b)")
  case (Some prior)
  with assms show thesis by (intro repeated [of prior]) (auto simp: publish_artifact_version_def Let_def)
next
  case None
  obtain ref b1 where pb: "put_blob env ''board_artifact'' run (version_name k (max_n p k b + 1)) c b = (ref, b1)"
    by (cases "put_blob env ''board_artifact'' run (version_name k (max_n p k b + 1)) c b")
  note ref = put_blob_sel [OF pb]
  have ups: "bd_artifacts (upsert_artifact p k s i (b\<lparr>bd_blobs := x, bd_versions := y, bd_version_seq := z\<rparr>)) = bd_artifacts (upsert_artifact p k s i b)"
    for i x y z by (simp add: upsert_artifact_def find_artifact_def split: option.splits)
  show thesis
    using assms None pb
    by (intro appended [of "\<lparr>av_id = Suc (bd_version_seq b), av_project = p, av_key = k, av_n = max_n p k b + 1, av_run_id = run,
          av_sha256 = ar_sha256 ref, av_uri = ar_uri ref,
          av_supersedes = (if s = CURRENT then (case find_artifact p k b of None \<Rightarrow> None | Some a \<Rightarrow> ba_current_version a) else None),
          av_created_at = now\<rparr>"])
      (auto simp: publish_artifact_version_def Let_def ref ups add_event_def)
qed

section \<open>The log explains the rows\<close>

definition replay :: "string \<Rightarrow> nat \<Rightarrow> string \<Rightarrow> board_event list \<Rightarrow> (string option \<times> string option) option" where
  "replay p v i es = foldl (\<lambda>st e.
     if be_project e = p \<and> be_subject e = task_subject v i
     then Some (be_to_status e,
       if be_authority e = AUTHORITATIVE then be_to_status e
       else (case st of None \<Rightarrow> None | Some (_, a) \<Rightarrow> a))
     else st) None es"

definition task_view :: "board \<Rightarrow> string \<Rightarrow> nat \<Rightarrow> string \<Rightarrow> (string option \<times> string option) option" where
  "task_view b p v i =
     map_option (\<lambda>t. (Some (task_status_value (bt_status t)), Some (task_status_value (bt_authoritative_status t))))
       (find (is_task p v i) (bd_tasks b))"

lemma replay_add:
  "replay p v i (bd_events (add_event now p' subj actor au frm to d b)) =
     (if p' = p \<and> subj = task_subject v i
      then Some (to, if au = AUTHORITATIVE then to else (case replay p v i (bd_events b) of None \<Rightarrow> None | Some (_, a) \<Rightarrow> a))
      else replay p v i (bd_events b))"
  by (simp add: replay_def add_event_def)

abbreviation explained :: "board \<Rightarrow> bool" where
  "explained b \<equiv> \<forall>p v i. task_view b p v i = replay p v i (bd_events b)"

lemma explained_sync_one:
  "explained b \<Longrightarrow> sync_one now project plan run actor (k, b) t = (k', b') \<Longrightarrow> explained b'"
proof (cases "list_ex (is_task project plan (dt_id t)) (bd_tasks b)")
  case False
  assume ex: "explained b" and s: "sync_one now project plan run actor (k, b) t = (k', b')"
  have "find P (xs @ [x]) = (case find P xs of None \<Rightarrow> if P x then Some x else None | Some y \<Rightarrow> Some y)" for P and xs :: "board_task list" and x
    by (induction xs) auto
  moreover have "find (is_task project plan (dt_id t)) (bd_tasks b) = None"
    using False by (simp add: find_None_iff list_ex_iff)
  ultimately show ?thesis
    using s False by (auto simp: sync_one_def replay_add ex [rule_format, symmetric] task_view_def split: option.splits)
qed (auto simp: sync_one_def)

lemma foldl_sync_induct:
  assumes "P b" "\<And>k b t k' b'. P b \<Longrightarrow> sync_one now project plan run actor (k, b) t = (k', b') \<Longrightarrow> P b'"
    "foldl (sync_one now project plan run actor) (k, b) ts = (k', b')"
  shows "P b'"
  using assms(1,3)
proof (induction ts arbitrary: k b)
  case (Cons t ts)
  obtain k1 b1 where s: "sync_one now project plan run actor (k, b) t = (k1, b1)"
    by (cases "sync_one now project plan run actor (k, b) t")
  with Cons assms(2) show ?case by (metis foldl_Cons)
qed simp

lemma explained_update:
  assumes ex: "explained b" and get: "get_task p v i b = Inr t0"
    and keys: "\<And>t. bt_project (f t) = bt_project t \<and> bt_plan_version (f t) = bt_plan_version t \<and> bt_task_id (f t) = bt_task_id t"
    and st: "bt_status (f t0) = s"
      "bt_authoritative_status (f t0) = (if au = AUTHORITATIVE then s else bt_authoritative_status t0)"
  shows "explained (add_event now p (task_subject v i) actor au frm (Some (task_status_value s)) d (update_task p v i f b))"
proof (intro allI)
  fix p' v' i'
  have find: "find (is_task p v i) (bd_tasks b) = Some t0" using get by (auto simp: get_task_def split: option.splits)
  have "replay p v i (bd_events b) = Some (Some (task_status_value (bt_status t0)), Some (task_status_value (bt_authoritative_status t0)))"
    using ex find by (metis (no_types, lifting) task_view_def option.simps(9))
  then show "task_view (add_event now p (task_subject v i) actor au frm (Some (task_status_value s)) d (update_task p v i f b)) p' v' i'
    = replay p' v' i' (bd_events (add_event now p (task_subject v i) actor au frm (Some (task_status_value s)) d (update_task p v i f b)))"
    using find st by (auto simp: replay_add ex [rule_format, symmetric] task_view_def update_task_def find_map_task [OF keys])
qed

lemma explained_step:
  assumes "board_step env b b'" "explained b"
  shows "explained b'"
  using assms
proof (induction rule: board_step.induct)
  case (br_project b key repo)
  then show ?case by (simp add: ensure_project_def task_view_def)
next
  case (br_publish now p k run c s actor b r b')
  from br_publish.hyps show ?case
  proof (cases rule: publish_cases)
    case (appended v)
    then obtain d where "bd_events b' = bd_events (add_event now p (artifact_subject k) actor AUTHORITATIVE None (Some (artifact_status_value s)) d b)"
      by blast
    with appended show ?thesis
      by (simp add: replay_add br_publish.prems [rule_format, symmetric]) (simp add: task_view_def)
  qed (use br_publish in simp)
next
  case (br_sync now project plan run tasks actor b k b')
  show ?case
    by (rule foldl_sync_induct [where P = explained, OF br_sync.prems explained_sync_one br_sync.hyps [unfolded sync_plan_tasks_def]])
next
  case (br_authoritative now p v i s actor fx err br b t b')
  from br_authoritative.hyps show ?case
  proof (cases rule: authoritative_cases)
    case (moved t0)
    show ?thesis unfolding moved(4)
      by (rule explained_update [OF br_authoritative.prems moved(1) row_keys(1)]) (simp_all add: authoritative_row_def)
  qed (use br_authoritative in simp)
next
  case (br_observational now p v i s actor rv detail b t b')
  from br_observational.hyps show ?case
  proof (cases rule: observational_cases)
    case (1 t0)
    show ?thesis unfolding 1(5)
      by (rule explained_update [OF br_observational.prems 1(1) row_keys(2)]) (simp_all add: observational_row_def)
  qed
next
  case (br_evidence now p v i run kind c b r b')
  then show ?case
    by (auto simp: attach_task_evidence_def put_blob_def Let_def task_view_def split: if_splits sum.splits option.splits)
qed

lemma explained_reach: "board_reach env b \<Longrightarrow> explained b"
proof (induction rule: rtranclp_induct)
  case base
  then show ?case by (simp add: empty_board_def task_view_def replay_def)
qed (rule explained_step)

section \<open>Versions\<close>

text \<open>
  Version ids and the numbers of each artifact count up from one without a gap, a pointer names a
  version of its own artifact, and a version supersedes only an earlier version of its own
  artifact; a run publishes one content only once.
\<close>

definition counts_up :: "nat list \<Rightarrow> bool" where
  "counts_up xs \<longleftrightarrow> xs = [1..<Suc (length xs)]"

lemma counts_up_Nil [simp]: "counts_up []"
  by (simp add: counts_up_def)

lemma counts_up_snoc: "counts_up xs \<Longrightarrow> counts_up (xs @ [Suc (length xs)])"
  unfolding counts_up_def by (metis One_nat_def Suc_le_eq length_append_singleton upt_Suc_append zero_less_Suc)

lemma counts_up_le: "counts_up xs \<Longrightarrow> x \<in> set xs \<Longrightarrow> 1 \<le> x \<and> x \<le> length xs"
  unfolding counts_up_def by (metis atLeastLessThan_iff less_Suc_eq_le set_upt)

lemma counts_up_max: "counts_up xs \<Longrightarrow> foldr max xs 0 = length xs"
proof -
  assume c: "counts_up xs"
  have ge: "x \<in> set ys \<Longrightarrow> x \<le> foldr max ys 0" for x :: nat and ys by (induction ys) auto
  have le: "foldr max ys 0 \<le> m" if "\<forall>x \<in> set ys. x \<le> m" for m :: nat and ys using that by (induction ys) auto
  show ?thesis
  proof (cases "xs = []")
    case False
    then have "length xs \<in> set [1..<Suc (length xs)]" by (cases xs) auto
    then have "length xs \<in> set xs" using c unfolding counts_up_def by (simp only:)
    then show ?thesis using ge le counts_up_le [OF c] by (metis le_antisym)
  qed simp
qed

abbreviation numbers :: "string \<Rightarrow> string \<Rightarrow> board \<Rightarrow> nat list" where
  "numbers p k b \<equiv> map av_n (filter (at_key p k) (bd_versions b))"

definition pointer_ok :: "board \<Rightarrow> string \<Rightarrow> string \<Rightarrow> nat option \<Rightarrow> bool" where
  "pointer_ok b p k i \<longleftrightarrow> (case i of None \<Rightarrow> True | Some j \<Rightarrow> \<exists>v \<in> set (bd_versions b). av_id v = j \<and> at_key p k v)"

abbreviation publication :: "artifact_version \<Rightarrow> string \<times> string \<times> string \<times> string" where
  "publication v \<equiv> (av_project v, av_key v, av_run_id v, av_sha256 v)"

definition versions_inv :: "board \<Rightarrow> bool" where
  "versions_inv b \<longleftrightarrow> inj_on publication (set (bd_versions b)) \<and>
     counts_up (map av_id (bd_versions b)) \<and> bd_version_seq b = length (bd_versions b) \<and>
     (\<forall>p k. counts_up (numbers p k b)) \<and>
     (\<forall>a \<in> set (bd_artifacts b). pointer_ok b (ba_project a) (ba_key a) (ba_current_version a)) \<and>
     (\<forall>v \<in> set (bd_versions b). pointer_ok b (av_project v) (av_key v) (av_supersedes v) \<and>
        (case av_supersedes v of None \<Rightarrow> True | Some j \<Rightarrow> j < av_id v))"

lemma versions_invD:
  assumes "versions_inv b"
  shows "counts_up (map av_id (bd_versions b))" "counts_up (numbers p k b)"
    "a \<in> set (bd_artifacts b) \<Longrightarrow> pointer_ok b (ba_project a) (ba_key a) (ba_current_version a)"
    "v \<in> set (bd_versions b) \<Longrightarrow> pointer_ok b (av_project v) (av_key v) (av_supersedes v)"
    "v \<in> set (bd_versions b) \<Longrightarrow> av_supersedes v = Some j \<Longrightarrow> j < av_id v"
    "bd_version_seq b = length (bd_versions b)" "inj_on publication (set (bd_versions b))"
  using assms unfolding versions_inv_def by (auto split: option.splits)

lemma versions_inv_cong:
  assumes "bd_versions b' = bd_versions b" "bd_version_seq b' = bd_version_seq b" "bd_artifacts b' = bd_artifacts b"
    "versions_inv b"
  shows "versions_inv b'"
  using assms(4) unfolding versions_inv_def pointer_ok_def assms(1-3) .

lemma max_n_length: "versions_inv b \<Longrightarrow> max_n p k b = length (numbers p k b)"
proof -
  assume "versions_inv b"
  from counts_up_max [OF versions_invD(2) [OF this, of p k]] show ?thesis by (simp add: max_n_def foldr_map comp_def)
qed

lemma upsert_artifacts:
  assumes "a \<in> set (bd_artifacts (upsert_artifact p k s i b))"
  shows "a \<in> set (bd_artifacts b) \<or> (ba_project a = p \<and> ba_key a = k \<and> ba_current_version a \<in> {None, Some i})"
  using assms by (auto simp: upsert_artifact_def split: option.splits if_splits)

lemma find_artifact_mem: "find_artifact p k b = Some a \<Longrightarrow> a \<in> set (bd_artifacts b) \<and> ba_project a = p \<and> ba_key a = k"
  by (auto simp: find_artifact_def find_Some_iff)

lemma pointer_ok_mono: "pointer_ok b p k i \<Longrightarrow> set (bd_versions b) \<subseteq> set (bd_versions b') \<Longrightarrow> pointer_ok b' p k i"
  unfolding pointer_ok_def by (auto split: option.splits)

lemma versions_inv_publish:
  assumes inv: "versions_inv b" and pub: "publish_artifact_version env now p k run c s actor b = (r, b')"
  shows "versions_inv b'"
  using pub
proof (cases rule: publish_cases)
  case (appended v)
  note I = versions_invD [OF inv]
  have mono: "set (bd_versions b) \<subseteq> set (bd_versions b')" by (auto simp: appended)
  have v: "v \<in> set (bd_versions b')" by (simp add: appended)
  have ids: "av_id u \<le> bd_version_seq b" if "u \<in> set (bd_versions b)" for u
  proof -
    have "av_id u \<in> set (map av_id (bd_versions b))" using that by simp
    then show ?thesis using counts_up_le [OF I(1)] I(6) by simp
  qed
  have sup: "pointer_ok b p k (av_supersedes v)"
  proof (cases "find_artifact p k b")
    case (Some a)
    with I(3) [of a] find_artifact_mem [OF Some] show ?thesis by (auto simp: appended(8) pointer_ok_def)
  qed (simp add: appended(8) pointer_ok_def)
  have "counts_up (numbers p' k' b')" for p' k'
  proof (cases "at_key p' k' v")
    case True
    then have eq: "p' = p" "k' = k" using appended(2) by auto
    have "numbers p k b' = numbers p k b @ [Suc (length (numbers p k b))]"
      using appended(2) by (simp add: appended(4,9) max_n_length [OF inv])
    then show ?thesis using counts_up_snoc [OF I(2) [of p k]] unfolding eq by (simp only:)
  next
    case False
    then have "numbers p' k' b' = numbers p' k' b" by (auto simp: appended(9))
    then show ?thesis using I(2) [of p' k'] by (simp only:)
  qed
  moreover have "counts_up (map av_id (bd_versions b'))" "bd_version_seq b' = length (bd_versions b')"
    using counts_up_snoc [OF I(1)] I(6) by (simp_all add: appended(3,9,10))
  moreover have "pointer_ok b' (ba_project a) (ba_key a) (ba_current_version a)" if "a \<in> set (bd_artifacts b')" for a
  proof -
    from that have "a \<in> set (bd_artifacts b) \<or> (ba_project a = p \<and> ba_key a = k \<and> ba_current_version a \<in> {None, Some (av_id v)})"
      unfolding appended(12) by (rule upsert_artifacts)
    then show ?thesis
    proof
      assume "a \<in> set (bd_artifacts b)"
      then show ?thesis by (rule pointer_ok_mono [OF I(3) mono])
    next
      assume "ba_project a = p \<and> ba_key a = k \<and> ba_current_version a \<in> {None, Some (av_id v)}"
      then show ?thesis using v appended(2) by (auto simp: pointer_ok_def)
    qed
  qed
  moreover have "pointer_ok b' (av_project u) (av_key u) (av_supersedes u) \<and>
      (case av_supersedes u of None \<Rightarrow> True | Some j \<Rightarrow> j < av_id u)" if "u \<in> set (bd_versions b')" for u
  proof (cases "u = v")
    case True
    have "j < av_id v" if "av_supersedes v = Some j" for j
      using sup that ids by (fastforce simp: pointer_ok_def appended(3))
    then show ?thesis using pointer_ok_mono [OF sup mono] appended(2) True by (auto split: option.splits)
  next
    case False
    then have u: "u \<in> set (bd_versions b)" using that by (simp add: appended(9))
    then show ?thesis using pointer_ok_mono [OF I(4) [OF u] mono] I(5) [OF u] by (auto split: option.splits)
  qed
  moreover have "inj_on publication (set (bd_versions b'))"
    using I(7) appended(1,2,5,6) by (auto simp: appended(9) find_None_iff inj_on_def)
  ultimately show ?thesis unfolding versions_inv_def by blast
qed (use inv in simp)

lemma sync_one_versions:
  "sync_one now project plan run actor (k, b) t = (k', b') \<Longrightarrow>
   bd_versions b' = bd_versions b \<and> bd_version_seq b' = bd_version_seq b \<and> bd_artifacts b' = bd_artifacts b"
  by (auto simp: sync_one_def split: if_splits)

lemma versions_inv_step:
  assumes "board_step env b b'" "versions_inv b"
  shows "versions_inv b'"
  using assms
proof (induction rule: board_step.induct)
  case (br_project b key repo)
  show ?case by (rule versions_inv_cong [OF _ _ _ br_project.prems]) (simp_all add: ensure_project_def)
next
  case (br_publish now p k run c s actor b r b')
  show ?case by (rule versions_inv_publish [OF br_publish.prems br_publish.hyps])
next
  case (br_sync now project plan run tasks actor b k b')
  show ?case
    by (rule foldl_sync_induct [where P = versions_inv, OF br_sync.prems _ br_sync.hyps [unfolded sync_plan_tasks_def]])
      (use sync_one_versions versions_inv_cong in blast)
next
  case (br_authoritative now p v i s actor fx err br b t b')
  from br_authoritative.hyps show ?case
    by (cases rule: authoritative_cases) (use br_authoritative.prems in \<open>auto intro: versions_inv_cong [rotated 3]\<close>)
next
  case (br_observational now p v i s actor rv detail b t b')
  from br_observational.hyps show ?case
    by (cases rule: observational_cases) (use br_observational.prems in \<open>auto intro: versions_inv_cong [rotated 3]\<close>)
next
  case (br_evidence now p v i run kind c b r b')
  then have "bd_versions b' = bd_versions b \<and> bd_version_seq b' = bd_version_seq b \<and> bd_artifacts b' = bd_artifacts b"
    by (auto simp: attach_task_evidence_def put_blob_def Let_def split: if_splits sum.splits option.splits)
  with br_evidence.prems versions_inv_cong show ?case by blast
qed

lemma versions_inv_reach: "board_reach env b \<Longrightarrow> versions_inv b"
proof (induction rule: rtranclp_induct)
  case base
  then show ?case by (simp add: versions_inv_def empty_board_def)
qed (rule versions_inv_step)

text \<open>Versions are never removed or changed.\<close>

lemma versions_grow_step: "board_step env b b' \<Longrightarrow> set (bd_versions b) \<subseteq> set (bd_versions b')"
proof (induction rule: board_step.induct)
  case (br_project b key repo)
  then show ?case by (simp add: ensure_project_def)
next
  case (br_publish now p k run c s actor b r b')
  then show ?case by (cases rule: publish_cases) auto
next
  case (br_sync now project plan run tasks actor b k b')
  show ?case
    by (rule foldl_sync_induct [where P = "\<lambda>x. set (bd_versions b) \<subseteq> set (bd_versions x)",
          OF subset_refl _ br_sync [unfolded sync_plan_tasks_def]]) (auto dest!: sync_one_versions)
next
  case (br_authoritative now p v i s actor fx err br b t b')
  then show ?case by (cases rule: authoritative_cases) auto
next
  case (br_observational now p v i s actor rv detail b t b')
  then show ?case by (cases rule: observational_cases) auto
next
  case (br_evidence now p v i run kind c b r b')
  then show ?case
    by (auto simp: attach_task_evidence_def put_blob_def Let_def split: if_splits sum.splits option.splits)
qed

lemma versions_grow: "board_steps env b b' \<Longrightarrow> set (bd_versions b) \<subseteq> set (bd_versions b')"
  by (induction rule: rtranclp_induct) (auto dest: versions_grow_step)

section \<open>A board, concretely\<close>

definition demo_env :: board_env where
  "demo_env = \<lparr>en_sha256 = (\<lambda>c. ''sha-'' @ c), en_uri = (\<lambda>p. ''file:///runs/'' @ p)\<rparr>"

abbreviation publish_demo :: "string \<Rightarrow> string \<Rightarrow> artifact_status \<Rightarrow> board \<Rightarrow> (artifact_ref \<times> nat) \<times> board" where
  "publish_demo run c s b \<equiv> publish_artifact_version demo_env 0 ''kroker'' ''plan'' run c s ''workflow:r'' b"

definition planned :: board where
  "planned = snd (sync_plan_tasks 0 ''kroker'' 1 ''r1'' [\<lparr>dt_id = ''t1'', dt_title = ''first'', dt_depends_on = [], dt_overlaps = []\<rparr>] ''workflow:r1''
     (snd (publish_demo ''r1'' ''A'' CURRENT empty_board)))"

lemma planned_reach: "board_reach demo_env planned"
proof -
  let ?b = "snd (publish_demo ''r1'' ''A'' CURRENT empty_board)"
  have "board_step demo_env empty_board ?b" by (rule br_publish) (rule surjective_pairing)
  moreover have "board_step demo_env ?b planned" unfolding planned_def by (rule br_sync) (rule surjective_pairing)
  ultimately show ?thesis by (meson rtranclp.rtrancl_into_rtrancl rtranclp.rtrancl_refl)
qed

definition claimed :: board where
  "claimed = (case set_task_observational 0 ''kroker'' 1 ''t1'' IN_PROGRESS ''agent:a'' 1 [] planned of
     Inr (t, b) \<Rightarrow> b | Inl _ \<Rightarrow> planned)"

lemma planned_claim: "\<exists>t. set_task_observational 0 ''kroker'' 1 ''t1'' IN_PROGRESS ''agent:a'' 1 [] planned = Inr (t, claimed)"
proof -
  have "isl (set_task_observational 0 ''kroker'' 1 ''t1'' IN_PROGRESS ''agent:a'' 1 [] planned) = False" by code_simp
  then show ?thesis
    unfolding claimed_def by (cases "set_task_observational 0 ''kroker'' 1 ''t1'' IN_PROGRESS ''agent:a'' 1 [] planned") auto
qed

lemma claimed_reach: "board_reach demo_env claimed"
  using planned_claim br_observational rtranclp.rtrancl_into_rtrancl [OF planned_reach] by blast

section \<open>Properties\<close>

text \<open>C38: the event log is a faithful account of the board. In every board the store can hold, the live
  and the authoritative status of every task, and whether the task exists at all, are exactly what
  replaying the task's events gives: the last event's target is the live status, the last
  authoritative event's target is the authoritative one.\<close>

theorem event_log_replays:
  assumes "board_reach env b"
  shows "task_view b project plan_version task_id = replay project plan_version task_id (bd_events b)"
  using explained_reach [OF assms] by blast

theorem event_log_replays_witness:
  "replay ''kroker'' 1 ''t1'' (bd_events claimed) = Some (Some ''in_progress'', Some ''pending'')"
proof -
  have "task_view claimed ''kroker'' 1 ''t1'' = Some (Some ''in_progress'', Some ''pending'')" by code_simp
  then show ?thesis using event_log_replays [OF claimed_reach] by simp
qed

text \<open>C39: the lineage of artifacts is sound. In every board the store can hold, version ids and the
  version numbers of each artifact count up from one without a gap, the pointer of an artifact
  names a version of that artifact, and a version supersedes only an earlier version of the same
  artifact.\<close>

theorem artifact_lineage_sound:
  assumes "board_reach env b"
  shows "map av_id (bd_versions b) = [1..<Suc (length (bd_versions b))]
    \<and> map av_n (list_versions project key b) = [1..<Suc (length (list_versions project key b))]
    \<and> (\<forall>a i. get_artifact project key b = Inr a \<and> ba_current_version a = Some i \<longrightarrow>
         (\<exists>v. get_version project i b = Inr v \<and> av_key v = key))
    \<and> (\<forall>v \<in> set (bd_versions b). \<forall>j. av_supersedes v = Some j \<longrightarrow>
         j < av_id v \<and> (\<exists>u. get_version (av_project v) j b = Inr u \<and> av_key u = av_key v))"
proof -
  note I = versions_invD [OF versions_inv_reach [OF assms]]
  have ids: "distinct (map av_id (bd_versions b))" using I(1) unfolding counts_up_def by (metis distinct_upt)
  have look: "get_version p j b = Inr v" if v: "v \<in> set (bd_versions b)" "av_id v = j" "av_project v = p" for p j v
  proof -
    obtain u where u: "find (\<lambda>v. av_project v = p \<and> av_id v = j) (bd_versions b) = Some u" "u \<in> set (bd_versions b)" "av_id u = j"
      using find_ex [OF v(1), of "\<lambda>v. av_project v = p \<and> av_id v = j"] v(2,3) by auto
    have "u = v" using inj_onD [of av_id "set (bd_versions b)" u v] ids v(1,2) u(2,3) by (simp add: distinct_map)
    with u show ?thesis by (simp add: get_version_def)
  qed
  have ptr: "\<exists>v. get_version p j b = Inr v \<and> av_key v = k" if "pointer_ok b p k (Some j)" for p k j
    using that look by (fastforce simp: pointer_ok_def)
  have sorted: "list_versions project key b = filter (at_key project key) (bd_versions b)"
    unfolding list_versions_def
    by (rule sort_key_id_if_sorted) (use I(2) [of project key] in \<open>metis counts_up_def sorted_upt\<close>)
  have "map av_n (list_versions project key b) = [1..<Suc (length (list_versions project key b))]"
    using I(2) [of project key] unfolding sorted counts_up_def by (simp only: length_map)
  moreover have "map av_id (bd_versions b) = [1..<Suc (length (bd_versions b))]"
    using I(1) unfolding counts_up_def by (simp only: length_map)
  moreover have "\<exists>v. get_version project i b = Inr v \<and> av_key v = key"
    if "get_artifact project key b = Inr a" "ba_current_version a = Some i" for a i
  proof -
    have "find_artifact project key b = Some a" using that(1) by (auto simp: get_artifact_def split: option.splits)
    from find_artifact_mem [OF this] I(3) [of a] that(2) show ?thesis by (intro ptr) auto
  qed
  moreover have "j < av_id v \<and> (\<exists>u. get_version (av_project v) j b = Inr u \<and> av_key u = av_key v)"
    if "v \<in> set (bd_versions b)" "av_supersedes v = Some j" for v j
    using I(5) [OF that] I(4) [OF that(1)] that(2) ptr by auto
  ultimately show ?thesis by blast
qed

theorem artifact_lineage_sound_witness:
  "map av_id (bd_versions planned) = [1..<Suc (length (bd_versions planned))]"
  using artifact_lineage_sound [OF planned_reach] by (rule conjunct1)

text \<open>Publishing is idempotent per run. Publishing the same content for the same artifact in the
  same run again, at any later time and whatever happened to the board in between, returns the
  version id of the first publication and changes nothing.\<close>

lemma publish_idempotent:
  assumes "board_reach env b" "publish_artifact_version env now project key run_id content status actor b = (r, b')"
    and "board_steps env b' b''"
  shows "\<exists>ref. publish_artifact_version env now' project key run_id content status' actor' b'' = ((ref, snd r), b'')"
proof -
  let ?P = "\<lambda>v. at_key project key v \<and> av_run_id v = run_id \<and> av_sha256 v = en_sha256 env content"
  have "\<exists>v \<in> set (bd_versions b'). ?P v \<and> snd r = av_id v"
    using assms(2)
  proof (cases rule: publish_cases)
    case (repeated prior)
    then show ?thesis by (auto simp: find_Some_iff)
  next
    case (appended v)
    then show ?thesis by auto
  qed
  then obtain v where v: "v \<in> set (bd_versions b')" "?P v" "snd r = av_id v" by blast
  have "board_reach env b'" using assms(1) br_publish [OF assms(2)] by (rule rtranclp.rtrancl_into_rtrancl)
  then have "board_reach env b''" using assms(3) by (rule rtranclp_trans)
  then have inj: "inj_on publication (set (bd_versions b''))" by (rule versions_invD(7) [OF versions_inv_reach])
  have mem: "v \<in> set (bd_versions b'')" using v(1) versions_grow [OF assms(3)] by blast
  obtain u where u: "find ?P (bd_versions b'') = Some u" "u \<in> set (bd_versions b'')" "?P u"
    using find_ex [OF mem, of ?P, OF v(2)] by blast
  then have "u = v" using inj_onD [OF inj _ _ mem, of u] v(2) by simp
  with u v(3) show ?thesis by (simp add: publish_artifact_version_def)
qed

text \<open>
  The repetition test ignores the status: a content that a run published as rejected cannot become
  current in that run. The second call reports the version, and the pointer stays where it was.
\<close>

lemma rejected_content_stays_rejected:
  "(let b = snd (publish_demo ''r1'' ''A'' REJECTED empty_board); b' = snd (publish_demo ''r1'' ''A'' CURRENT b)
    in map ba_status (bd_artifacts b') = [REJECTED] \<and> map ba_current_version (bd_artifacts b') = [None])"
  by code_simp

text \<open>An agent never moves a number that is read as truth. A successful observational write changes
  no task's authoritative status, fix attempts, error or branch, and so leaves every statistic of
  every project alone but the divergence and event counts.\<close>

lemma observational_keeps_truth:
  assumes "set_task_observational now project plan_version task_id status actor rv detail b = Inr (t, b')"
  shows "map (\<lambda>t. (bt_project t, bt_plan_version t, bt_task_id t, bt_authoritative_status t, bt_fix_attempts t, bt_error t, bt_branch t)) (bd_tasks b')
      = map (\<lambda>t. (bt_project t, bt_plan_version t, bt_task_id t, bt_authoritative_status t, bt_fix_attempts t, bt_error t, bt_branch t)) (bd_tasks b)
    \<and> bs_tasks_by_status (stats p b') = bs_tasks_by_status (stats p b)
    \<and> bs_total_fix_attempts (stats p b') = bs_total_fix_attempts (stats p b)
    \<and> bs_tasks_with_error (stats p b') = bs_tasks_with_error (stats p b)"
  using assms
proof (cases rule: observational_cases)
  case (1 t0)
  let ?f = "\<lambda>t. if is_task project plan_version task_id t then observational_row now status t else t"
  have tasks: "bd_tasks b' = map ?f (bd_tasks b)" unfolding 1(5) by (simp add: update_task_def)
  have row: "bt_project (?f t) = bt_project t" "bt_authoritative_status (?f t) = bt_authoritative_status t"
      "bt_fix_attempts (?f t) = bt_fix_attempts t" "bt_error (?f t) = bt_error t" "bt_branch (?f t) = bt_branch t"
      "bt_plan_version (?f t) = bt_plan_version t" "bt_task_id (?f t) = bt_task_id t" for t
    by (simp_all add: observational_row_def)
  have mine: "filter (\<lambda>t. bt_project t = p) (map ?f ts) = map ?f (filter (\<lambda>t. bt_project t = p) ts)" for ts
    by (induction ts) (simp_all add: row(1))
  have count: "length (filter (\<lambda>t. P (bt_authoritative_status t) (bt_error t)) (map ?f ts))
      = length (filter (\<lambda>t. P (bt_authoritative_status t) (bt_error t)) ts)" for P ts
    by (induction ts) (simp_all add: row)
  have status: "count_status (map ?f ts) = count_status ts" for ts
    by (rule ext) (use count [of "\<lambda>a e. a = s" for s] in \<open>simp add: count_status_def\<close>)
  show ?thesis
    unfolding tasks stats_def Let_def mine board_stats.simps status
    using count [of "\<lambda>a e. e \<noteq> None"] by (simp add: comp_def row)
qed

text \<open>Two agents cannot both claim a task. After an observational write on a row version succeeded,
  every further write that still expects that version is refused as a conflict that names the
  new version, and a refused write leaves the board as it was.\<close>

lemma stale_claim_conflicts:
  assumes "set_task_observational now project plan_version task_id status actor rv detail b = Inr (t, b')"
  shows "bt_status t = status \<and> bt_row_version t = rv + 1
    \<and> set_task_observational now' project plan_version task_id status' actor' rv detail' b' = Inl (ConflictError rv (rv + 1))"
  using assms
proof (cases rule: observational_cases)
  case (1 t0)
  have find: "find (is_task project plan_version task_id) (bd_tasks b) = Some t0"
    using 1(1) by (auto simp: get_task_def split: option.splits)
  have "get_task project plan_version task_id b' = Inr (observational_row now status t0)"
    unfolding 1(5) using find by (simp add: get_task_def update_task_def find_map_task [OF row_keys(2)])
  then show ?thesis using 1(2,4) by (simp add: set_task_observational_def observational_row_def)
qed

text \<open>
  The one transition table serves both writers, so the edges that are meant for a replayed workflow
  are open to agents too: a task that the workflow completed can be reopened by an agent.
\<close>

definition finished :: board where
  "finished =
     (let auth = (\<lambda>s b. case set_task_authoritative 0 ''kroker'' 1 ''t1'' s ''workflow:r1'' None None None b of
                        Inr (t, b') \<Rightarrow> b' | Inl _ \<Rightarrow> b)
      in auth DONE (auth IN_PROGRESS planned))"

lemma agent_reopens_done:
  "map bt_authoritative_status (bd_tasks finished) = [DONE]"
  "(case set_task_observational 0 ''kroker'' 1 ''t1'' IN_PROGRESS ''agent:a'' 3 [] finished of
      Inr (t, b') \<Rightarrow> bt_status t = IN_PROGRESS \<and> bt_authoritative_status t = DONE | Inl _ \<Rightarrow> False)"
  by code_simp+

end
