(* ===== verification/Task_Schedule.thy ===== *)
theory Task_Schedule
  imports Board_Properties
begin

text \<open>
  The execution of a plan: \<open>run_tasks\<close> of \<open>workflows/build.py\<close> with the board writes of
  \<open>workflows/board_host.py\<close> and the integration merge of \<open>workflows/task_host.py\<close>. One call is a
  sequence of steps: a wave begins, its tasks start and finish in any order, their results are
  merged in wave order, the wave is checked. What a task, a merge and the budget answer is up to the
  environment. Agents may write to the board between any two steps.
\<close>

section \<open>Results and state\<close>

datatype result_status = RDone | RFailed | RQuarantined

record task_result =
  tr_task_id :: string
  tr_status :: result_status
  tr_attempts :: nat
  tr_branch :: string
  tr_handoff :: "string option"
  tr_qa :: "string option"
  tr_review :: "string option"
  tr_deep_review :: "string option"
  tr_notes :: string

datatype execution_mode = SERIAL | WAVES

record sched_env =
  se_mode :: execution_mode
  se_project :: string
  se_run_id :: string
  se_plan_version :: "nat option"
  se_board :: board_env

datatype run_error =
    Board_Raised board_error
  | Task_Raised string
  | Key_Error string
  | Budget_Rejected

text \<open>
  \<open>In_Wave\<close> holds the tasks of the batch that have not started, the running ones and the batch
  itself; \<open>Merging\<close> the results still to be merged.
\<close>

datatype phase =
    Looping
  | In_Wave "dev_task list" "dev_task list" "dev_task list"
  | Merging "task_result list"
  | Returned "string option"
  | Raised run_error

record scheduler =
  sc_done :: "(string, task_result) dict"
  sc_handoffs :: "string list"
  sc_remaining :: "(string, dev_task) dict"
  sc_merged :: "string list"
  sc_board :: board
  sc_phase :: phase

definition sched_init :: "dev_task list \<Rightarrow> board \<Rightarrow> scheduler" where
  "sched_init tasks b =
     \<lparr>sc_done = [], sc_handoffs = [], sc_remaining = tasks_by_id tasks, sc_merged = [], sc_board = b, sc_phase = Looping\<rparr>"

section \<open>Board writes of the host\<close>

definition board_task_status ::
    "sched_env \<Rightarrow> int \<Rightarrow> string \<Rightarrow> task_status \<Rightarrow> nat option \<Rightarrow> string option \<Rightarrow> string option \<Rightarrow> board \<Rightarrow> run_error + board" where
  "board_task_status env now tid status fix_attempts err branch b =
     (case se_plan_version env of
        None \<Rightarrow> Inr b
      | Some pv \<Rightarrow>
          (case set_task_authoritative now (se_project env) pv tid status (''workflow:'' @ se_run_id env) fix_attempts err branch b of
             Inl e \<Rightarrow> Inl (Board_Raised e)
           | Inr (_, b') \<Rightarrow> Inr b'))"

definition board_evidence :: "sched_env \<Rightarrow> int \<Rightarrow> string \<Rightarrow> string \<Rightarrow> string \<Rightarrow> board \<Rightarrow> run_error + board" where
  "board_evidence env now tid kind content b =
     (case se_plan_version env of
        None \<Rightarrow> Inr b
      | Some pv \<Rightarrow>
          (case attach_task_evidence (se_board env) now (se_project env) pv tid (se_run_id env) kind content b of
             Inl e \<Rightarrow> Inl (Board_Raised e)
           | Inr (_, b') \<Rightarrow> Inr b'))"

fun attach_reports :: "sched_env \<Rightarrow> int \<Rightarrow> string \<Rightarrow> (string \<times> string option) list \<Rightarrow> board \<Rightarrow> run_error + board" where
  "attach_reports env now tid [] b = Inr b"
| "attach_reports env now tid ((kind, None) # rest) b = attach_reports env now tid rest b"
| "attach_reports env now tid ((kind, Some report) # rest) b =
     (case board_evidence env now tid kind report b of
        Inl e \<Rightarrow> Inl e
      | Inr b' \<Rightarrow> attach_reports env now tid rest b')"

section \<open>The scheduler loop\<close>

definition ready :: "scheduler \<Rightarrow> dev_task list" where
  "ready s = filter (\<lambda>t. set (dt_depends_on t) \<subseteq> set (dict_keys (sc_done s))) (map snd (sc_remaining s))"

fun pick_batch :: "string list \<Rightarrow> dev_task list \<Rightarrow> dev_task list" where
  "pick_batch seen [] = []"
| "pick_batch seen (t # ts) =
     (if set seen \<inter> set (dt_overlaps t) = {} then t # pick_batch (seen @ dt_overlaps t) ts else pick_batch seen ts)"

definition batch_of :: "execution_mode \<Rightarrow> dev_task list \<Rightarrow> dev_task list" where
  "batch_of mode ts = (case mode of SERIAL \<Rightarrow> take 1 ts | WAVES \<Rightarrow> pick_batch [] ts)"

definition begin_wave :: "sched_env \<Rightarrow> scheduler \<Rightarrow> scheduler" where
  "begin_wave env s =
     (if sc_remaining s = [] then s\<lparr>sc_phase := Returned None\<rparr>
      else if ready s = [] then s\<lparr>sc_phase := Returned (Some ''failed:dependency-cycle'')\<rparr>
      else let batch = batch_of (se_mode env) (ready s) in s\<lparr>sc_phase := In_Wave batch [] batch\<rparr>)"

text \<open>\<open>run_one\<close>: up to the call of \<open>_dev_task\<close>, and after it returned or raised.\<close>

definition start_task :: "sched_env \<Rightarrow> int \<Rightarrow> dev_task \<Rightarrow> scheduler \<Rightarrow> run_error + scheduler" where
  "start_task env now t s =
     (case board_task_status env now (dt_id t) IN_PROGRESS None None None (sc_board s) of
        Inl e \<Rightarrow> Inl e
      | Inr b \<Rightarrow> Inr (s\<lparr>sc_board := b\<rparr>))"

fun BOARD_STATUS :: "result_status \<Rightarrow> task_status" where
  "BOARD_STATUS RDone = DONE"
| "BOARD_STATUS RFailed = FAILED"
| "BOARD_STATUS RQuarantined = QUARANTINED"

definition result_error :: "task_result \<Rightarrow> string option" where
  "result_error r = (if tr_status r \<noteq> RDone \<and> tr_notes r \<noteq> [] then Some (tr_notes r) else None)"

definition finish_task :: "sched_env \<Rightarrow> int \<Rightarrow> dev_task \<Rightarrow> task_result \<Rightarrow> scheduler \<Rightarrow> run_error + scheduler" where
  "finish_task env now t r s =
     (case board_task_status env now (dt_id t) (BOARD_STATUS (tr_status r)) (Some (tr_attempts r)) (result_error r)
             (Some (tr_branch r)) (sc_board s) of
        Inl e \<Rightarrow> Inl e
      | Inr b1 \<Rightarrow>
          (case attach_reports env now (dt_id t)
                  [(''qa'', tr_qa r), (''review'', tr_review r), (''deep_review'', tr_deep_review r)] b1 of
             Inl e \<Rightarrow> Inl e
           | Inr b2 \<Rightarrow>
               if tr_task_id r \<notin> set (dict_keys (sc_remaining s)) then Inl (Key_Error (tr_task_id r))
               else Inr (s\<lparr>sc_board := b2, sc_done := AList.update (tr_task_id r) r (sc_done s),
                      sc_handoffs := sc_handoffs s @ (case tr_handoff r of None \<Rightarrow> [] | Some h \<Rightarrow> [h]),
                      sc_remaining := AList.delete (tr_task_id r) (sc_remaining s)\<rparr>)))"

definition crash_task :: "sched_env \<Rightarrow> int \<Rightarrow> dev_task \<Rightarrow> string \<Rightarrow> scheduler \<Rightarrow> scheduler" where
  "crash_task env now t exc s =
     (case board_task_status env now (dt_id t) FAILED None (Some (''unhandled: '' @ exc)) None (sc_board s) of
        Inl e \<Rightarrow> s\<lparr>sc_phase := Raised e\<rparr>
      | Inr b \<Rightarrow> s\<lparr>sc_board := b, sc_phase := Raised (Task_Raised exc)\<rparr>)"

text \<open>The results of \<open>gather\<close> come in the order of the batch.\<close>

definition after_finish :: "dev_task list \<Rightarrow> dev_task list \<Rightarrow> dev_task list \<Rightarrow> scheduler \<Rightarrow> scheduler" where
  "after_finish waiting running batch s =
     s\<lparr>sc_phase := (if waiting = [] \<and> running = [] then Merging (map (\<lambda>t. dict_at (sc_done s) (dt_id t)) batch)
                    else In_Wave waiting running batch)\<rparr>"

definition merge_next :: "bool \<Rightarrow> task_result \<Rightarrow> task_result list \<Rightarrow> scheduler \<Rightarrow> scheduler" where
  "merge_next conflict r rs s =
     (if tr_status r \<noteq> RDone then s\<lparr>sc_phase := Merging rs\<rparr>
      else if conflict then s\<lparr>sc_phase := Returned (Some (''failed:integration-conflict:'' @ tr_task_id r))\<rparr>
      else s\<lparr>sc_merged := sc_merged s @ [tr_task_id r], sc_phase := Merging rs\<rparr>)"

definition after_wave :: "bool \<Rightarrow> scheduler \<Rightarrow> scheduler" where
  "after_wave budget_ok s =
     s\<lparr>sc_phase :=
        (if list_ex (\<lambda>(_, r). tr_status r = RQuarantined) (sc_done s) then Returned (Some ''failed:quarantined-tasks'')
         else if budget_ok then Looping else Raised Budget_Rejected)\<rparr>"

text \<open>
  The actions. A result names its task (\<open>stages/code/step.py\<close> builds it so); the exception of a
  running task ends the call.
\<close>

inductive sched_act :: "sched_env \<Rightarrow> scheduler \<Rightarrow> scheduler \<Rightarrow> bool" for env where
  sa_begin: "sc_phase s = Looping \<Longrightarrow> sched_act env s (begin_wave env s)"
| sa_start: "sc_phase s = In_Wave (t # waiting) running batch \<Longrightarrow> start_task env now t s = Inr s' \<Longrightarrow>
    sched_act env s (s'\<lparr>sc_phase := In_Wave waiting (running @ [t]) batch\<rparr>)"
| sa_start_raise: "sc_phase s = In_Wave (t # waiting) running batch \<Longrightarrow> start_task env now t s = Inl e \<Longrightarrow>
    sched_act env s (s\<lparr>sc_phase := Raised e\<rparr>)"
| sa_finish: "sc_phase s = In_Wave waiting running batch \<Longrightarrow> t \<in> set running \<Longrightarrow> tr_task_id r = dt_id t \<Longrightarrow>
    finish_task env now t r s = Inr s' \<Longrightarrow> sched_act env s (after_finish waiting (remove1 t running) batch s')"
| sa_finish_raise: "sc_phase s = In_Wave waiting running batch \<Longrightarrow> t \<in> set running \<Longrightarrow> tr_task_id r = dt_id t \<Longrightarrow>
    finish_task env now t r s = Inl e \<Longrightarrow> sched_act env s (s\<lparr>sc_phase := Raised e\<rparr>)"
| sa_crash: "sc_phase s = In_Wave waiting running batch \<Longrightarrow> t \<in> set running \<Longrightarrow>
    sched_act env s (crash_task env now t exc s)"
| sa_merge: "sc_phase s = Merging (r # rs) \<Longrightarrow> sched_act env s (merge_next conflict r rs s)"
| sa_check: "sc_phase s = Merging [] \<Longrightarrow> sched_act env s (after_wave budget_ok s)"

inductive_cases sched_actE: "sched_act env s s'"

inductive sched_step :: "sched_env \<Rightarrow> scheduler \<Rightarrow> scheduler \<Rightarrow> bool" for env where
  ss_act: "sched_act env s s' \<Longrightarrow> sched_step env s s'"
| ss_agent: "set_task_observational now project plan_version tid status actor rv detail (sc_board s) = Inr (t, b) \<Longrightarrow>
    sched_step env s (s\<lparr>sc_board := b\<rparr>)"

abbreviation sched_reach :: "sched_env \<Rightarrow> dev_task list \<Rightarrow> board \<Rightarrow> scheduler \<Rightarrow> bool" where
  "sched_reach env tasks b s \<equiv> (sched_step env)\<^sup>*\<^sup>* (sched_init tasks b) s"

end
