(* ===== verification/Schedule_Properties.thy ===== *)
theory Schedule_Properties
  imports Task_Schedule
begin

text \<open>
  What the scheduler guarantees: it never deadlocks on a validated plan, respects dependencies and
  overlaps, merges every completed task once, ends within a bound, and none of its board writes is
  ever refused, whatever agents write in between.
\<close>

section \<open>The invariant of the loop\<close>

definition held :: "scheduler \<Rightarrow> string set" where
  "held s = set (dict_keys (sc_done s))"

definition wave_inv :: "scheduler \<Rightarrow> bool" where
  "wave_inv s \<longleftrightarrow>
     (case sc_phase s of
        Looping \<Rightarrow> \<forall>(k, r) \<in> set (sc_done s). tr_status r \<noteq> RQuarantined
      | In_Wave waiting running batch \<Rightarrow>
          waiting @ running \<noteq> [] \<and>
          set waiting \<union> set running \<subseteq> set (map snd (sc_remaining s)) \<and> distinct (map dt_id (waiting @ running)) \<and>
          set batch = set waiting \<union> set running \<union> {t \<in> set batch. dt_id t \<in> held s} \<and> distinct (map dt_id batch) \<and>
          sorted_wrt (\<lambda>t u. set (dt_overlaps t) \<inter> set (dt_overlaps u) = {}) batch \<and>
          (\<forall>t \<in> set waiting \<union> set running. set (dt_depends_on t) \<subseteq> held s)
      | Merging rs \<Rightarrow> True
      | Returned None \<Rightarrow> sc_remaining s = [] \<and> (\<forall>(k, r) \<in> set (sc_done s). tr_status r \<noteq> RQuarantined)
      | _ \<Rightarrow> True)"

definition base_inv :: "dev_task list \<Rightarrow> scheduler \<Rightarrow> bool" where
  "base_inv tasks s \<longleftrightarrow>
     distinct (dict_keys (sc_remaining s)) \<and> distinct (dict_keys (sc_done s)) \<and>
     set (dict_keys (sc_remaining s)) \<inter> held s = {} \<and>
     set (dict_keys (sc_remaining s)) \<union> held s = set (map dt_id tasks) \<and>
     (\<forall>(k, t) \<in> set (sc_remaining s). dict_at (tasks_by_id tasks) k = t \<and> dt_id t = k) \<and>
     (\<forall>(k, r) \<in> set (sc_done s). tr_task_id r = k) \<and>
     (\<forall>xs k r ys. sc_done s = xs @ (k, r) # ys \<longrightarrow> set (deps_of tasks k) \<subseteq> set (dict_keys xs))"

lemma base_invI:
  assumes "distinct (dict_keys (sc_remaining s))" "distinct (dict_keys (sc_done s))"
    and "set (dict_keys (sc_remaining s)) \<inter> held s = {}"
    and "set (dict_keys (sc_remaining s)) \<union> held s = set (map dt_id tasks)"
    and "\<And>k t. (k, t) \<in> set (sc_remaining s) \<Longrightarrow> dict_at (tasks_by_id tasks) k = t \<and> dt_id t = k"
    and "\<And>k r. (k, r) \<in> set (sc_done s) \<Longrightarrow> tr_task_id r = k"
    and "\<And>xs k r ys. sc_done s = xs @ (k, r) # ys \<Longrightarrow> set (deps_of tasks k) \<subseteq> set (dict_keys xs)"
  shows "base_inv tasks s"
  unfolding base_inv_def using assms by blast

lemma base_invD:
  assumes "base_inv tasks s"
  shows "distinct (dict_keys (sc_remaining s))" "distinct (dict_keys (sc_done s))"
    "set (dict_keys (sc_remaining s)) \<inter> held s = {}"
    "set (dict_keys (sc_remaining s)) \<union> held s = set (map dt_id tasks)"
    "\<And>k t. (k, t) \<in> set (sc_remaining s) \<Longrightarrow> dict_at (tasks_by_id tasks) k = t \<and> dt_id t = k"
    "\<And>k r. (k, r) \<in> set (sc_done s) \<Longrightarrow> tr_task_id r = k"
    "\<And>xs k r ys. sc_done s = xs @ (k, r) # ys \<Longrightarrow> set (deps_of tasks k) \<subseteq> set (dict_keys xs)"
proof -
  note c1 = assms [unfolded base_inv_def]
  note c2 = c1 [THEN conjunct2]
  note c3 = c2 [THEN conjunct2]
  note c4 = c3 [THEN conjunct2]
  note c5 = c4 [THEN conjunct2]
  note c6 = c5 [THEN conjunct2]
  show "distinct (dict_keys (sc_remaining s))" by (rule c1 [THEN conjunct1])
  show "distinct (dict_keys (sc_done s))" by (rule c2 [THEN conjunct1])
  show "set (dict_keys (sc_remaining s)) \<inter> held s = {}" by (rule c3 [THEN conjunct1])
  show "set (dict_keys (sc_remaining s)) \<union> held s = set (map dt_id tasks)" by (rule c4 [THEN conjunct1])
  show "dict_at (tasks_by_id tasks) k = t \<and> dt_id t = k" if "(k, t) \<in> set (sc_remaining s)" for k t
    using bspec [OF c5 [THEN conjunct1] that] by (simp only: prod.case)
  show "tr_task_id r = k" if "(k, r) \<in> set (sc_done s)" for k r
    using bspec [OF c6 [THEN conjunct1] that] by simp
  show "set (deps_of tasks k) \<subseteq> set (dict_keys xs)" if "sc_done s = xs @ (k, r) # ys" for xs k r ys
    using c6 [THEN conjunct2] that by blast
qed

lemma wave_inv_cong:
  assumes "sc_done s' = sc_done s" "sc_remaining s' = sc_remaining s" "sc_phase s' = sc_phase s"
  shows "wave_inv s' = wave_inv s"
  unfolding wave_inv_def held_def assms by (rule refl)

lemma base_inv_cong:
  assumes "sc_done s' = sc_done s" "sc_remaining s' = sc_remaining s"
  shows "base_inv tasks s' = base_inv tasks s"
  unfolding base_inv_def held_def assms by (rule refl)

lemma base_inv_init: "base_inv tasks (sched_init tasks b)"
proof -
  have "dict_at (tasks_by_id tasks) k = t \<and> dt_id t = k" if "(k, t) \<in> set (tasks_by_id tasks)" for k t
  proof -
    have "distinct (dict_keys (tasks_by_id tasks))" unfolding tasks_by_id_def by (rule dict_of_facts(1))
    then have "dict_at (tasks_by_id tasks) k = t" using that by (simp add: dict_at_def)
    moreover have "(k, t) \<in> set (map (\<lambda>t. (dt_id t, t)) tasks)"
      using that dict_of_facts(3) unfolding tasks_by_id_def by blast
    ultimately show ?thesis by auto
  qed
  then show ?thesis
    using tasks_by_id_keys [of tasks] dict_of_facts(1)
    by (auto simp: base_inv_def sched_init_def held_def tasks_by_id_def simp del: set_map)
qed

lemma pick_batch_subset: "set (pick_batch seen ts) \<subseteq> set ts"
  by (induction seen ts rule: pick_batch.induct) auto

lemma pick_batch_seen: "t \<in> set (pick_batch seen ts) \<Longrightarrow> set seen \<inter> set (dt_overlaps t) = {}"
proof (induction seen ts rule: pick_batch.induct)
  case (2 seen u ts)
  show ?case
  proof (cases "set seen \<inter> set (dt_overlaps u) = {}")
    case True
    with "2.prems" consider "t = u" | "t \<in> set (pick_batch (seen @ dt_overlaps u) ts)" by auto
    then show ?thesis
    proof cases
      case 2
      from "2.IH"(1) [OF True this] show ?thesis by (simp add: Int_Un_distrib2)
    qed (simp add: True)
  next
    case False
    then show ?thesis using "2.IH"(2) [OF False] "2.prems" by simp
  qed
qed simp

lemma pick_batch_disjoint: "sorted_wrt (\<lambda>t u. set (dt_overlaps t) \<inter> set (dt_overlaps u) = {}) (pick_batch seen ts)"
proof (induction seen ts rule: pick_batch.induct)
  case (2 seen t ts)
  have "set (dt_overlaps t) \<inter> set (dt_overlaps u) = {}" if "u \<in> set (pick_batch (seen @ dt_overlaps t) ts)" for u
    using pick_batch_seen [OF that] by (simp add: Int_Un_distrib2)
  with 2 show ?case by simp
qed simp

lemma pick_batch_distinct: "distinct (map dt_id ts) \<Longrightarrow> distinct (map dt_id (pick_batch seen ts))"
proof (induction seen ts rule: pick_batch.induct)
  case (2 seen t ts)
  have "dt_id t \<notin> dt_id ` set (pick_batch (seen @ dt_overlaps t) ts)"
    using "2.prems" pick_batch_subset [of "seen @ dt_overlaps t" ts] by auto
  with 2 show ?case by simp
qed simp

lemma batch_of_facts:
  "set (batch_of mode ts) \<subseteq> set ts" "ts \<noteq> [] \<Longrightarrow> batch_of mode ts \<noteq> []"
  "sorted_wrt (\<lambda>t u. set (dt_overlaps t) \<inter> set (dt_overlaps u) = {}) (batch_of mode ts)"
  "distinct (map dt_id ts) \<Longrightarrow> distinct (map dt_id (batch_of mode ts))"
proof -
  have one: "batch_of SERIAL ts = (case ts of [] \<Rightarrow> [] | t # _ \<Rightarrow> [t])" by (cases ts) (simp_all add: batch_of_def)
  show "set (batch_of mode ts) \<subseteq> set ts"
    using pick_batch_subset [of "[]" ts] by (cases mode) (auto simp: batch_of_def [of WAVES] one split: list.splits)
  show "ts \<noteq> [] \<Longrightarrow> batch_of mode ts \<noteq> []"
    by (cases mode; cases ts) (simp_all add: batch_of_def)
  show "sorted_wrt (\<lambda>t u. set (dt_overlaps t) \<inter> set (dt_overlaps u) = {}) (batch_of mode ts)"
    using pick_batch_disjoint by (cases mode) (auto simp: batch_of_def [of WAVES] one split: list.splits)
  show "distinct (map dt_id ts) \<Longrightarrow> distinct (map dt_id (batch_of mode ts))"
    using pick_batch_distinct by (cases mode) (auto simp: batch_of_def [of WAVES] one split: list.splits)
qed

lemma finish_task_sel:
  assumes "finish_task env now t r s = Inr s'"
  shows "tr_task_id r \<in> set (dict_keys (sc_remaining s))" "sc_done s' = AList.update (tr_task_id r) r (sc_done s)"
    "sc_remaining s' = AList.delete (tr_task_id r) (sc_remaining s)" "sc_merged s' = sc_merged s" "sc_phase s' = sc_phase s"
  using assms by (auto simp: finish_task_def simp del: set_map split: sum.splits if_splits)

lemma start_task_sel:
  assumes "start_task env now t s = Inr s'"
  shows "sc_done s' = sc_done s" "sc_remaining s' = sc_remaining s" "sc_merged s' = sc_merged s"
  using assms by (auto simp: start_task_def split: sum.splits)

lemma crash_task_sel:
  "sc_done (crash_task env now t exc s) = sc_done s" "sc_remaining (crash_task env now t exc s) = sc_remaining s"
  "sc_merged (crash_task env now t exc s) = sc_merged s" "\<exists>e. sc_phase (crash_task env now t exc s) = Raised e"
  by (auto simp: crash_task_def split: sum.splits)

lemma merge_next_sel [simp]:
  "sc_done (merge_next c r rs s) = sc_done s" "sc_remaining (merge_next c r rs s) = sc_remaining s"
  by (simp_all add: merge_next_def)

lemma begin_wave_sel [simp]:
  "sc_done (begin_wave env s) = sc_done s" "sc_remaining (begin_wave env s) = sc_remaining s"
  "sc_merged (begin_wave env s) = sc_merged s" "sc_board (begin_wave env s) = sc_board s"
  by (simp_all add: begin_wave_def Let_def)

text \<open>Everything but a finished task leaves the books as they are.\<close>

lemma base_inv_finish:
  assumes inv: "base_inv tasks s" and fin: "finish_task env now t r s = Inr s'"
    and id: "tr_task_id r = dt_id t" and deps: "set (dt_depends_on t) \<subseteq> held s" and mem: "t \<in> set (map snd (sc_remaining s))"
  shows "base_inv tasks s' \<and> held s' = insert (dt_id t) (held s) \<and> sc_done s' = sc_done s @ [(dt_id t, r)]"
proof -
  note f = finish_task_sel [OF fin, unfolded id]
  note inv = base_invD [OF inv]
  have new: "dt_id t \<notin> set (dict_keys (sc_done s))" using f(1) inv(3) unfolding held_def by blast
  have books: "sc_done s' = sc_done s @ [(dt_id t, r)]" unfolding f(2) by (rule alist_update_new [OF new])
  obtain k where "(k, t) \<in> set (sc_remaining s)" using mem by auto
  from inv(5) [OF this] have at: "dict_at (tasks_by_id tasks) (dt_id t) = t" by simp
  have ord: "set (deps_of tasks k) \<subseteq> set (dict_keys xs)" if "sc_done s' = xs @ (k, r') # ys" for xs k r' ys
  proof (cases ys rule: rev_cases)
    case Nil
    with that have "xs = sc_done s" "k = dt_id t" by (simp_all add: books)
    then show ?thesis using deps at by (simp add: deps_of_def held_def)
  next
    case (snoc zs z)
    with that have "sc_done s = xs @ (k, r') # zs" by (simp add: books)
    with inv(7) show ?thesis by blast
  qed
  have rem: "set (dict_keys (sc_remaining s')) = set (dict_keys (sc_remaining s)) - {dt_id t}"
    unfolding f(3) by (rule keys_delete)
  have held': "held s' = insert (dt_id t) (held s)" by (simp add: held_def books)
  have sub: "set (sc_remaining s') \<subseteq> set (sc_remaining s)" unfolding f(3) by (auto simp: AList.delete_eq)
  have "base_inv tasks s'"
  proof (rule base_invI)
    show "distinct (dict_keys (sc_remaining s'))" unfolding f(3) using inv(1) by (rule distinct_delete)
    show "distinct (dict_keys (sc_done s'))" using new inv(2) by (simp add: books)
    show "set (dict_keys (sc_remaining s')) \<inter> held s' = {}" using inv(3) unfolding rem held' by blast
    show "set (dict_keys (sc_remaining s')) \<union> held s' = set (map dt_id tasks)"
      using inv(4) f(1) unfolding rem held' by blast
    show "dict_at (tasks_by_id tasks) k = t' \<and> dt_id t' = k" if "(k, t') \<in> set (sc_remaining s')" for k t'
      using inv(5) sub that by blast
    show "tr_task_id r' = k" if "(k, r') \<in> set (sc_done s')" for k r'
      using that inv(6) id by (auto simp: books)
  qed (rule ord)
  with held' books show ?thesis by simp
qed

section \<open>Preservation\<close>

lemma distinct_ready:
  assumes "base_inv tasks s"
  shows "distinct (map dt_id (ready s))"
proof -
  have "dt_id (snd x) = fst x" if "x \<in> set (sc_remaining s)" for x
    using base_invD(5) [OF assms, of "fst x" "snd x"] that by simp
  then have keys: "map dt_id (map snd (sc_remaining s)) = dict_keys (sc_remaining s)" by simp
  have "distinct (map dt_id (map snd (sc_remaining s)))" unfolding keys by (rule base_invD(1) [OF assms])
  then show ?thesis unfolding ready_def by (rule distinct_map_filter)
qed

lemma wave_inv_begin:
  assumes "base_inv tasks s" "sc_phase s = Looping" "wave_inv s"
  shows "wave_inv (begin_wave env s)"
proof (cases "sc_remaining s = [] \<or> ready s = []")
  case True
  then show ?thesis using assms(2,3) by (auto simp: wave_inv_def begin_wave_def)
next
  case False
  let ?b = "batch_of (se_mode env) (ready s)"
  have ph: "sc_phase (begin_wave env s) = In_Wave ?b [] ?b" using False by (simp add: begin_wave_def Let_def)
  have held: "held (begin_wave env s) = held s" by (simp add: held_def)
  have sub: "set ?b \<subseteq> set (ready s)" by (rule batch_of_facts(1))
  have deps: "set (dt_depends_on t) \<subseteq> held s" "t \<in> set (map snd (sc_remaining s))" if "t \<in> set ?b" for t
    using sub that by (auto simp: ready_def held_def)
  have "set ?b \<subseteq> set (map snd (sc_remaining s))" using deps(2) by blast
  moreover have "set ?b = set ?b \<union> set [] \<union> {t \<in> set ?b. dt_id t \<in> held s}" by auto
  moreover have "\<forall>t \<in> set ?b \<union> set []. set (dt_depends_on t) \<subseteq> held s" using deps(1) by simp
  ultimately show ?thesis
    using batch_of_facts(2,3) [where ts = "ready s" and mode = "se_mode env"] False batch_of_facts(4) [OF distinct_ready [OF assms(1)]]
    unfolding wave_inv_def ph phase.case held by simp
qed

lemma wave_invD:
  assumes "wave_inv s" "sc_phase s = In_Wave waiting running batch"
  shows "waiting @ running \<noteq> []" "set waiting \<union> set running \<subseteq> set (map snd (sc_remaining s))"
    "distinct (map dt_id (waiting @ running))"
    "set batch = set waiting \<union> set running \<union> {t \<in> set batch. dt_id t \<in> held s}" "distinct (map dt_id batch)"
    "sorted_wrt (\<lambda>t u. set (dt_overlaps t) \<inter> set (dt_overlaps u) = {}) batch"
    "\<And>t. t \<in> set waiting \<union> set running \<Longrightarrow> set (dt_depends_on t) \<subseteq> held s"
proof -
  note w = assms(1) [unfolded wave_inv_def assms(2) phase.case]
  show "waiting @ running \<noteq> []" "set waiting \<union> set running \<subseteq> set (map snd (sc_remaining s))"
    "distinct (map dt_id (waiting @ running))"
    "set batch = set waiting \<union> set running \<union> {t \<in> set batch. dt_id t \<in> held s}" "distinct (map dt_id batch)"
    "sorted_wrt (\<lambda>t u. set (dt_overlaps t) \<inter> set (dt_overlaps u) = {}) batch"
    by (insert w, elim conjE, assumption)+
  show "set (dt_depends_on t) \<subseteq> held s" if "t \<in> set waiting \<union> set running" for t
    using w that by blast
qed

lemma wave_inv_start:
  assumes "wave_inv s" "sc_phase s = In_Wave (t # waiting) running batch" "start_task env now t s = Inr s'"
  shows "wave_inv (s'\<lparr>sc_phase := In_Wave waiting (running @ [t]) batch\<rparr>)"
proof -
  note w = wave_invD [OF assms(1,2)]
  note sel = start_task_sel [OF assms(3)]
  have held: "held (s'\<lparr>sc_phase := In_Wave waiting (running @ [t]) batch\<rparr>) = held s" by (simp add: held_def sel)
  have same: "set waiting \<union> set (running @ [t]) = set (t # waiting) \<union> set running" by auto
  have "distinct (map dt_id (waiting @ running @ [t]))" using w(3) by auto
  then show ?thesis
    using w(2,4-7) unfolding wave_inv_def held same by (simp add: sel)
qed

lemma wave_inv_finish:
  assumes inv: "base_inv tasks s" "wave_inv s" and ph: "sc_phase s = In_Wave waiting running batch"
    and t: "t \<in> set running" "tr_task_id r = dt_id t" and fin: "finish_task env now t r s = Inr s'"
  shows "wave_inv (after_finish waiting (remove1 t running) batch s')"
proof (cases "waiting = [] \<and> remove1 t running = []")
  case True
  then show ?thesis by (simp add: after_finish_def wave_inv_def)
next
  case False
  let ?s = "after_finish waiting (remove1 t running) batch s'"
  note w = wave_invD [OF inv(2) ph]
  have mem: "t \<in> set (map snd (sc_remaining s))" using w(2) t(1) by blast
  have f: "base_inv tasks s'" "held s' = insert (dt_id t) (held s)"
    using base_inv_finish [OF inv(1) fin t(2) _ mem] w(7) [of t] t(1) by auto
  have held: "held ?s = insert (dt_id t) (held s)" using f(2) by (simp add: after_finish_def held_def)
  have ph': "sc_phase ?s = In_Wave waiting (remove1 t running) batch" using False by (simp add: after_finish_def)
  have dr: "distinct running" using w(3) by (simp add: distinct_map)
  have ids: "dt_id u \<noteq> dt_id t" if "u \<in> set waiting \<union> set (remove1 t running)" for u
  proof (cases "u \<in> set waiting")
    case True
    then show ?thesis using w(3) t(1) by auto
  next
    case False
    then have "u \<in> set running" "u \<noteq> t" using that dr by auto
    then show ?thesis using w(3) t(1) by (auto simp: inj_on_def distinct_map)
  qed
  have "u \<in> set (map snd (sc_remaining ?s))" if "u \<in> set waiting \<union> set (remove1 t running)" for u
  proof -
    have "u \<in> set waiting \<union> set running" using that set_remove1_subset by fastforce
    then obtain k where k: "(k, u) \<in> set (sc_remaining s)" using w(2) by auto
    then have "k \<noteq> dt_id t" using base_invD(5) [OF inv(1) k] ids [OF that] by simp
    then have "(k, u) \<in> set (sc_remaining s')"
      using k unfolding finish_task_sel(3) [OF fin] t(2) by (simp add: AList.delete_eq)
    then show ?thesis by (force simp: after_finish_def)
  qed
  moreover have "distinct (map dt_id (waiting @ remove1 t running))"
    using w(3) dr by (auto simp: distinct_map inj_on_def)
  moreover have "set batch = set waiting \<union> set (remove1 t running) \<union> {u \<in> set batch. dt_id u \<in> held ?s}"
  proof -
    have "set (remove1 t running) = set running - {t}" using dr by simp
    then show ?thesis using w(4) t(1) unfolding held by blast
  qed
  moreover have "\<forall>u \<in> set waiting \<union> set (remove1 t running). set (dt_depends_on u) \<subseteq> held ?s"
    using w(7) set_remove1_subset [of t running] unfolding held by blast
  ultimately show ?thesis
    using False w(5,6) unfolding wave_inv_def ph' phase.case by blast
qed

lemma wave_inv_merge: "sc_phase s = Merging (r # rs) \<Longrightarrow> wave_inv (merge_next c r rs s)"
  by (simp add: merge_next_def wave_inv_def)

lemma wave_inv_check: "sc_phase s = Merging [] \<Longrightarrow> wave_inv (after_wave ok s)"
  by (auto simp: after_wave_def wave_inv_def list_ex_iff)

lemma wave_inv_raised: "sc_phase s = Raised e \<Longrightarrow> wave_inv s"
  by (simp add: wave_inv_def)

lemma books_act:
  assumes "sched_act env s s'" "base_inv tasks s" "wave_inv s"
  shows "base_inv tasks s' \<and> wave_inv s'"
  using assms(1)
proof (cases rule: sched_act.cases)
  case sa_begin
  then show ?thesis using wave_inv_begin [OF assms(2) _ assms(3)] base_inv_cong [of s' s] assms(2) by simp
next
  case (sa_start t waiting running batch now s1)
  have "base_inv tasks s' = base_inv tasks s"
    by (rule base_inv_cong) (simp_all add: sa_start(1) start_task_sel [OF sa_start(3)])
  then show ?thesis using wave_inv_start [OF assms(3) sa_start(2,3)] assms(2) sa_start(1) by simp
next
  case (sa_finish waiting running batch t r now s1)
  note w = wave_invD [OF assms(3) sa_finish(2)]
  have "base_inv tasks s1"
    using base_inv_finish [OF assms(2) sa_finish(5,4)] w(2,7) sa_finish(3) by blast
  moreover have "base_inv tasks s' = base_inv tasks s1" unfolding sa_finish(1) by (rule base_inv_cong) (simp_all add: after_finish_def)
  ultimately show ?thesis using wave_inv_finish [OF assms(2,3) sa_finish(2-5)] sa_finish(1) by simp
next
  case (sa_crash waiting running batch t now exc)
  have "base_inv tasks s' = base_inv tasks s"
    by (rule base_inv_cong) (simp_all add: sa_crash(1) crash_task_sel)
  then show ?thesis using assms(2) crash_task_sel(4) wave_inv_raised sa_crash(1) by metis
next
  case (sa_merge r rs c)
  have "base_inv tasks s' = base_inv tasks s" by (rule base_inv_cong) (simp_all add: sa_merge(1))
  then show ?thesis using wave_inv_merge [OF sa_merge(2)] assms(2) sa_merge(1) by simp
next
  case (sa_check ok)
  have "base_inv tasks s' = base_inv tasks s" by (rule base_inv_cong) (simp_all add: sa_check(1) after_wave_def)
  then show ?thesis using wave_inv_check [OF sa_check(2)] assms(2) sa_check(1) by simp
next
  case (sa_start_raise t waiting running batch now e)
  have "base_inv tasks s' = base_inv tasks s" by (rule base_inv_cong) (simp_all add: sa_start_raise(1))
  then show ?thesis using assms(2) by (simp add: sa_start_raise(1) wave_inv_raised)
next
  case (sa_finish_raise waiting running batch t r now e)
  have "base_inv tasks s' = base_inv tasks s" by (rule base_inv_cong) (simp_all add: sa_finish_raise(1))
  then show ?thesis using assms(2) by (simp add: sa_finish_raise(1) wave_inv_raised)
qed

lemma books_step:
  assumes "sched_step env s s'" "base_inv tasks s" "wave_inv s"
  shows "base_inv tasks s' \<and> wave_inv s'"
  using assms(1)
proof (cases rule: sched_step.cases)
  case ss_act
  then show ?thesis using assms(2,3) by (rule books_act)
next
  case (ss_agent now project plan_version tid status actor rv detail t b)
  have "base_inv tasks s' = base_inv tasks s" unfolding ss_agent(1) by (rule base_inv_cong) simp_all
  moreover have "wave_inv s' = wave_inv s" unfolding ss_agent(1) by (rule wave_inv_cong) simp_all
  ultimately show ?thesis using assms(2,3) by blast
qed

lemma books_reach:
  assumes "sched_reach env tasks b s"
  shows "base_inv tasks s" "wave_inv s"
proof -
  have "base_inv tasks s \<and> wave_inv s"
    using assms
  proof (induction rule: rtranclp_induct)
    case base
    show ?case using base_inv_init by (simp add: wave_inv_def sched_init_def)
  next
    case (step s s')
    then show ?case using books_step by blast
  qed
  then show "base_inv tasks s" "wave_inv s" by blast+
qed

lemma wave_task:
  assumes "base_inv tasks s" "wave_inv s" "sc_phase s = In_Wave w r ba" "t \<in> set w \<union> set r"
  shows "dt_id t \<in> set (dict_keys (sc_remaining s))" "dt_id t \<notin> held s" "dt_id t \<in> set (map dt_id tasks)"
proof -
  note inv = base_invD [OF assms(1)]
  obtain k where k: "(k, t) \<in> set (sc_remaining s)" using subsetD [OF wave_invD(2) [OF assms(2,3)] assms(4)] by auto
  then show mem: "dt_id t \<in> set (dict_keys (sc_remaining s))" using inv(5) [OF k] by force
  then show "dt_id t \<notin> held s" using inv(3) by (metis IntI emptyE)
  show "dt_id t \<in> set (map dt_id tasks)" unfolding inv(4) [symmetric] using mem by (rule UnI1)
qed

section \<open>Progress\<close>

lemma ready_progress:
  assumes "validate_task_graph tasks = None" "base_inv tasks s" "sc_remaining s \<noteq> []"
  shows "ready s \<noteq> []"
proof -
  note inv = base_invD [OF assms(2)]
  let ?ids = "set (map dt_id tasks)"
  have "set (dict_keys (sc_remaining s)) \<noteq> {}" using assms(3) by (cases "sc_remaining s") simp_all
  then obtain k where k: "k \<in> set (dict_keys (sc_remaining s))" by (meson ex_in_conv)
  have "k \<in> ?ids" unfolding inv(4) [symmetric] using k by (rule UnI1)
  have "\<not> ?ids \<subseteq> held s"
  proof
    assume "?ids \<subseteq> held s"
    from this \<open>k \<in> ?ids\<close> have "k \<in> held s" by (rule subsetD)
    with k have "k \<in> set (dict_keys (sc_remaining s)) \<inter> held s" by (rule IntI)
    then show False unfolding inv(3) by (rule emptyE)
  qed
  from sched_progress [OF validated_sched [OF assms(1)] this]
  obtain i where i: "i \<in> ?ids" "i \<notin> held s" "set (deps_of tasks i) \<subseteq> held s" by blast
  from i(1) have "i \<in> set (dict_keys (sc_remaining s)) \<union> held s" unfolding inv(4) .
  with i(2) have "i \<in> set (dict_keys (sc_remaining s))" by (elim UnE) (assumption, erule notE)
  then obtain t where t: "(i, t) \<in> set (sc_remaining s)" by auto
  have "dt_depends_on t = deps_of tasks i" using inv(5) [OF t] by (simp add: deps_of_def)
  with i(3) have "set (dt_depends_on t) \<subseteq> set (dict_keys (sc_done s))" by (simp add: held_def)
  moreover have "t \<in> set (map snd (sc_remaining s))" using t by force
  ultimately have "t \<in> set (ready s)" by (simp add: ready_def)
  then show ?thesis by (rule list.set_cases) simp_all
qed

abbreviation stuck :: phase where
  "stuck \<equiv> Returned (Some ''failed:dependency-cycle'')"

lemma stuck_act:
  assumes "sched_act env s s'" "validate_task_graph tasks = None" "base_inv tasks s"
  shows "sc_phase s' \<noteq> stuck"
  using assms(1)
proof (cases rule: sched_act.cases)
  case sa_begin
  then show ?thesis using ready_progress [OF assms(2,3)] by (simp add: begin_wave_def Let_def)
next
  case (sa_crash waiting running batch t now exc)
  then show ?thesis using crash_task_sel(4) [of env now t exc s] by auto
qed (auto simp: after_finish_def merge_next_def after_wave_def)

lemma never_stuck:
  assumes "sched_reach env tasks b s" "validate_task_graph tasks = None"
  shows "sc_phase s \<noteq> stuck"
  using assms(1)
proof (induction rule: rtranclp_induct)
  case base
  then show ?case by (simp add: sched_init_def)
next
  case (step s1 s2)
  from step.hyps(2) show ?case
  proof (cases rule: sched_step.cases)
    case ss_act
    then show ?thesis by (rule stuck_act [OF _ assms(2) books_reach(1) [OF step.hyps(1)]])
  qed (use step.IH in simp)
qed

section \<open>Merges\<close>

definition done_ids :: "scheduler \<Rightarrow> string set" where
  "done_ids s = {k. \<exists>r. (k, r) \<in> set (sc_done s) \<and> tr_status r = RDone}"

text \<open>What the current wave has completed and not yet merged.\<close>

definition pending_ids :: "scheduler \<Rightarrow> string set" where
  "pending_ids s =
     (case sc_phase s of
        In_Wave waiting running batch \<Rightarrow> dt_id ` set batch \<inter> done_ids s
      | Merging rs \<Rightarrow> tr_task_id ` {r \<in> set rs. tr_status r = RDone}
      | _ \<Rightarrow> {})"

definition failed :: "scheduler \<Rightarrow> bool" where
  "failed s = (case sc_phase s of Returned (Some _) \<Rightarrow> True | Raised _ \<Rightarrow> True | _ \<Rightarrow> False)"

definition merge_phase :: "scheduler \<Rightarrow> bool" where
  "merge_phase s =
     (case sc_phase s of
        In_Wave waiting running batch \<Rightarrow> set (sc_merged s) \<inter> dt_id ` set batch = {}
      | Merging rs \<Rightarrow> distinct (map tr_task_id rs) \<and> (\<forall>r \<in> set rs. (tr_task_id r, r) \<in> set (sc_done s))
      | _ \<Rightarrow> True)"

definition merge_inv :: "scheduler \<Rightarrow> bool" where
  "merge_inv s \<longleftrightarrow> distinct (sc_merged s) \<and> set (sc_merged s) \<subseteq> done_ids s \<and> set (sc_merged s) \<inter> pending_ids s = {} \<and>
     (\<not> failed s \<longrightarrow> done_ids s \<subseteq> set (sc_merged s) \<union> pending_ids s) \<and> merge_phase s"

lemma done_ids_held: "done_ids s \<subseteq> held s"
  by (force simp: done_ids_def held_def)

lemma merge_inv_cong:
  assumes "sc_done s' = sc_done s" "sc_merged s' = sc_merged s" "sc_phase s' = sc_phase s"
  shows "merge_inv s' = merge_inv s"
  unfolding merge_inv_def merge_phase_def failed_def pending_ids_def done_ids_def assms by (rule refl)

lemma merge_inv_failed:
  assumes "merge_inv s" "failed s'" "sc_done s' = sc_done s" "sc_merged s' = sc_merged s"
  shows "merge_inv s'"
proof -
  have "pending_ids s' = {}" "merge_phase s'"
    using assms(2) by (auto simp: failed_def pending_ids_def merge_phase_def split: phase.splits)
  moreover have "done_ids s' = done_ids s" by (simp add: done_ids_def assms)
  ultimately show ?thesis using assms by (simp add: merge_inv_def)
qed

lemma merge_inv_begin:
  assumes "base_inv tasks s" "sc_phase s = Looping" "merge_inv s"
  shows "merge_inv (begin_wave env s)"
proof -
  note m = assms(3) [unfolded merge_inv_def]
  let ?b = "batch_of (se_mode env) (ready s)"
  have pend: "pending_ids s = {}" and ok: "\<not> failed s" by (simp_all add: pending_ids_def failed_def assms(2))
  have same: "done_ids (begin_wave env s) = done_ids s" by (simp add: done_ids_def)
  have rem: "dt_id t \<in> set (dict_keys (sc_remaining s))" if "t \<in> set ?b" for t
  proof -
    have "t \<in> set (ready s)" by (rule subsetD [OF batch_of_facts(1) that])
    then obtain k where "(k, t) \<in> set (sc_remaining s)" by (auto simp: ready_def)
    from base_invD(5) [OF assms(1) this] this show ?thesis by force
  qed
  then have "dt_id ` set ?b \<inter> held s = {}" using base_invD(3) [OF assms(1)] by blast
  then have new: "dt_id ` set ?b \<inter> done_ids s = {}" using done_ids_held by blast
  have eq: "set (sc_merged s) = done_ids s" using m pend ok by blast
  have pend': "pending_ids (begin_wave env s) = {}"
    using new by (simp add: begin_wave_def Let_def pending_ids_def done_ids_def)
  have "merge_phase (begin_wave env s)"
    using new unfolding eq [symmetric] by (auto simp: begin_wave_def Let_def merge_phase_def)
  then show ?thesis using m pend' eq by (simp add: merge_inv_def same)
qed

lemma done_ids_at:
  assumes "base_inv tasks s" "k \<in> held s"
  shows "(k, dict_at (sc_done s) k) \<in> set (sc_done s)" "tr_task_id (dict_at (sc_done s) k) = k"
    "k \<in> done_ids s \<longleftrightarrow> tr_status (dict_at (sc_done s) k) = RDone"
proof -
  obtain r where r: "(k, r) \<in> set (sc_done s)" using assms(2) by (auto simp: held_def)
  have at: "dict_at (sc_done s) k = r'" if "(k, r') \<in> set (sc_done s)" for r'
    using that base_invD(2) [OF assms(1)] by (simp add: dict_at_def)
  show mem: "(k, dict_at (sc_done s) k) \<in> set (sc_done s)" unfolding at [OF r] by (rule r)
  show "tr_task_id (dict_at (sc_done s) k) = k" by (rule base_invD(6) [OF assms(1) mem])
  show "k \<in> done_ids s \<longleftrightarrow> tr_status (dict_at (sc_done s) k) = RDone"
  proof
    assume "k \<in> done_ids s"
    then obtain r' where r': "(k, r') \<in> set (sc_done s)" "tr_status r' = RDone" unfolding done_ids_def by blast
    show "tr_status (dict_at (sc_done s) k) = RDone" unfolding at [OF r'(1)] by (rule r'(2))
  next
    assume "tr_status (dict_at (sc_done s) k) = RDone"
    with mem show "k \<in> done_ids s" unfolding done_ids_def by blast
  qed
qed

lemma merge_inv_finish:
  assumes inv: "base_inv tasks s" "wave_inv s" "merge_inv s" and ph: "sc_phase s = In_Wave waiting running batch"
    and t: "t \<in> set running" "tr_task_id r = dt_id t" and fin: "finish_task env now t r s = Inr s'"
  shows "merge_inv (after_finish waiting (remove1 t running) batch s')"
proof -
  let ?s = "after_finish waiting (remove1 t running) batch s'"
  note w = wave_invD [OF inv(2) ph]
  note m = inv(3) [unfolded merge_inv_def]
  have mem: "t \<in> set (map snd (sc_remaining s))" using w(2) t(1) by blast
  have f: "base_inv tasks s'" "held s' = insert (dt_id t) (held s)" "sc_done s' = sc_done s @ [(dt_id t, r)]"
    using base_inv_finish [OF inv(1) fin t(2) _ mem] w(7) [of t] t(1) by auto
  have tb: "dt_id t \<in> dt_id ` set batch" using w(4) t(1) by blast
  have done': "done_ids ?s = done_ids s'" "done_ids s \<subseteq> done_ids s'" "done_ids s' \<subseteq> insert (dt_id t) (done_ids s)"
    by (auto simp: after_finish_def done_ids_def f(3))
  have mg: "sc_merged ?s = sc_merged s" using finish_task_sel(4) [OF fin] by (simp add: after_finish_def)
  have apart: "set (sc_merged s) \<inter> dt_id ` set batch = {}" using m by (simp add: merge_phase_def ph)
  have ok: "\<not> failed s" "\<not> failed ?s" by (simp_all add: failed_def ph after_finish_def)
  have old: "done_ids s \<subseteq> set (sc_merged s) \<union> dt_id ` set batch" using m ok by (auto simp: pending_ids_def ph)
  have pend: "pending_ids ?s = dt_id ` set batch \<inter> done_ids s' \<and> merge_phase ?s"
  proof (cases "waiting = [] \<and> remove1 t running = []")
    case False
    then have ph': "sc_phase ?s = In_Wave waiting (remove1 t running) batch" by (simp add: after_finish_def)
    show ?thesis using apart unfolding pending_ids_def merge_phase_def ph' phase.case done'(1) mg by simp
  next
    case True
    let ?f = "\<lambda>t. dict_at (sc_done s') (dt_id t)"
    have ph': "sc_phase ?s = Merging (map ?f batch)" using True by (simp add: after_finish_def)
    have "set running \<subseteq> {t}" using True t(1) by (cases running) (auto split: if_splits)
    have held: "dt_id u \<in> held s'" if "u \<in> set batch" for u
    proof -
      have "u \<in> set waiting \<union> set running \<union> {t \<in> set batch. dt_id t \<in> held s}" using that w(4) by simp
      with True \<open>set running \<subseteq> {t}\<close> consider "u = t" | "dt_id u \<in> held s" by auto
      then show ?thesis unfolding f(2) by cases simp_all
    qed
    have ids: "tr_task_id (?f u) = dt_id u" "(dt_id u, ?f u) \<in> set (sc_done s')"
        "tr_status (?f u) = RDone \<longleftrightarrow> dt_id u \<in> done_ids s'" if "u \<in> set batch" for u
      using done_ids_at [OF f(1) held [OF that]] by simp_all
    have "map tr_task_id (map ?f batch) = map dt_id batch" using ids(1) by simp
    then have "distinct (map tr_task_id (map ?f batch))" using w(5) by (simp only:)
    moreover have "sc_done ?s = sc_done s'" by (simp add: after_finish_def)
    ultimately have "merge_phase ?s" using ids by (simp add: merge_phase_def ph')
    moreover have "pending_ids ?s = dt_id ` set batch \<inter> done_ids s'"
    proof -
      have "{r \<in> set (map ?f batch). tr_status r = RDone} = ?f ` {u \<in> set batch. dt_id u \<in> done_ids s'}"
        using ids(3) by auto
      moreover have "tr_task_id ` ?f ` {u \<in> set batch. dt_id u \<in> done_ids s'} = dt_id ` {u \<in> set batch. dt_id u \<in> done_ids s'}"
        using ids(1) by (simp add: image_image)
      ultimately show ?thesis unfolding pending_ids_def ph' phase.case by auto
    qed
    ultimately show ?thesis by blast
  qed
  have sub: "set (sc_merged s) \<subseteq> done_ids s'" using m done'(2) by blast
  have "done_ids s' \<subseteq> set (sc_merged s) \<union> (dt_id ` set batch \<inter> done_ids s')" using old done'(3) tb by blast
  then show ?thesis unfolding merge_inv_def mg done'(1) using m pend ok sub apart by auto
qed

lemma merge_inv_merge:
  assumes "merge_inv s" "sc_phase s = Merging (r # rs)"
  shows "merge_inv (merge_next c r rs s)"
proof -
  note m = assms(1) [unfolded merge_inv_def]
  let ?s = "merge_next c r rs s"
  have ids: "distinct (map tr_task_id (r # rs))" "\<forall>r \<in> set (r # rs). (tr_task_id r, r) \<in> set (sc_done s)"
    using m by (simp_all add: merge_phase_def assms(2))
  have ok: "\<not> failed s" by (simp add: failed_def assms(2))
  have same: "done_ids ?s = done_ids s" by (simp add: done_ids_def)
  show ?thesis
  proof (cases "tr_status r = RDone")
    case False
    then have "?s = s\<lparr>sc_phase := Merging rs\<rparr>" by (simp add: merge_next_def)
    moreover have "pending_ids (s\<lparr>sc_phase := Merging rs\<rparr>) = pending_ids s"
      using False by (auto simp: pending_ids_def assms(2))
    ultimately show ?thesis using m ids ok by (simp add: merge_inv_def merge_phase_def failed_def done_ids_def)
  next
    case ok_r: True
    let ?i = "tr_task_id r"
    show ?thesis
    proof (cases c)
      case True
      then have "failed ?s" using ok_r by (simp add: merge_next_def failed_def)
      then show ?thesis by (rule merge_inv_failed [OF assms(1)]) (use ok_r True in \<open>simp_all add: merge_next_def\<close>)
    next
      case False
      let ?rest = "tr_task_id ` {r \<in> set rs. tr_status r = RDone}"
      have s: "sc_merged ?s = sc_merged s @ [?i]" "sc_phase ?s = Merging rs" using False ok_r by (simp_all add: merge_next_def)
      have pend: "pending_ids s = insert ?i ?rest" "pending_ids ?s = ?rest"
        using ok_r by (auto simp: pending_ids_def assms(2) s(2))
      have fresh: "?i \<notin> ?rest" using ids(1) by auto
      have "?i \<in> done_ids s" using ids(2) ok_r by (auto simp: done_ids_def)
      moreover have "?i \<notin> set (sc_merged s)" using m unfolding pend(1) by blast
      moreover have "merge_phase ?s" using ids by (simp add: merge_phase_def s(2))
      ultimately show ?thesis using m ok fresh unfolding merge_inv_def same s(1) pend by auto
    qed
  qed
qed

lemma merge_inv_check:
  assumes "merge_inv s" "sc_phase s = Merging []"
  shows "merge_inv (after_wave ok s)"
proof -
  have "done_ids (after_wave ok s) = done_ids s" "sc_merged (after_wave ok s) = sc_merged s"
    by (simp_all add: done_ids_def after_wave_def)
  moreover have "pending_ids (after_wave ok s) = {}" "merge_phase (after_wave ok s)"
    by (simp_all add: pending_ids_def merge_phase_def after_wave_def)
  ultimately show ?thesis using assms by (simp add: merge_inv_def failed_def pending_ids_def)
qed

lemma merge_inv_act:
  assumes "sched_act env s s'" "base_inv tasks s" "wave_inv s" "merge_inv s"
  shows "merge_inv s'"
  using assms(1)
proof (cases rule: sched_act.cases)
  case sa_begin
  then show ?thesis using merge_inv_begin [OF assms(2) _ assms(4)] by simp
next
  case (sa_start t waiting running batch now s1)
  note sel = start_task_sel [OF sa_start(3)]
  have d: "done_ids s' = done_ids s" by (simp add: done_ids_def sa_start(1) sel)
  have "pending_ids s' = pending_ids s" unfolding pending_ids_def d by (simp add: sa_start(1,2))
  moreover have "merge_phase s' = merge_phase s" "sc_merged s' = sc_merged s" "failed s' = failed s"
    by (simp_all add: merge_phase_def failed_def sa_start(1,2) sel)
  ultimately show ?thesis using assms(4) by (simp add: merge_inv_def d)
next
  case (sa_finish waiting running batch t r now s1)
  show ?thesis unfolding sa_finish(1) by (rule merge_inv_finish [OF assms(2-4) sa_finish(2-5)])
next
  case (sa_crash waiting running batch t now exc)
  then have "failed s'" using crash_task_sel(4) [of env now t exc s] by (auto simp: failed_def)
  then show ?thesis by (rule merge_inv_failed [OF assms(4)]) (simp_all add: sa_crash(1) crash_task_sel)
next
  case (sa_start_raise t waiting running batch now e)
  show ?thesis by (rule merge_inv_failed [OF assms(4)]) (simp_all add: sa_start_raise(1) failed_def)
next
  case (sa_finish_raise waiting running batch t r now e)
  show ?thesis by (rule merge_inv_failed [OF assms(4)]) (simp_all add: sa_finish_raise(1) failed_def)
next
  case (sa_merge r rs c)
  then show ?thesis using merge_inv_merge [OF assms(4)] by simp
next
  case (sa_check ok)
  then show ?thesis using merge_inv_check [OF assms(4)] by simp
qed

lemma merge_inv_reach: "sched_reach env tasks b s \<Longrightarrow> merge_inv s"
proof (induction rule: rtranclp_induct)
  case base
  show ?case by (simp add: merge_inv_def sched_init_def done_ids_def pending_ids_def merge_phase_def)
next
  case (step s1 s2)
  from step.hyps(2) show ?case
  proof (cases rule: sched_step.cases)
    case ss_act
    then show ?thesis by (rule merge_inv_act [OF _ books_reach [OF step.hyps(1)] step.IH])
  next
    case (ss_agent now project plan_version tid status actor rv detail t b)
    have "merge_inv s2 = merge_inv s1" unfolding ss_agent(1) by (rule merge_inv_cong) simp_all
    then show ?thesis using step.IH by simp
  qed
qed

section \<open>Length of a run\<close>

text \<open>A path counts the actions of the scheduler; agents act in between, uncounted.\<close>

inductive sched_path :: "sched_env \<Rightarrow> scheduler \<Rightarrow> nat \<Rightarrow> scheduler \<Rightarrow> bool" for env s0 where
  sp_start: "sched_path env s0 0 s0"
| sp_act: "sched_path env s0 n s \<Longrightarrow> sched_act env s s' \<Longrightarrow> sched_path env s0 (Suc n) s'"
| sp_agent: "sched_path env s0 n s \<Longrightarrow> set_task_observational now project plan_version tid status actor rv detail (sc_board s) = Inr (t, b) \<Longrightarrow>
    sched_path env s0 n (s\<lparr>sc_board := b\<rparr>)"

fun phase_left :: "nat \<Rightarrow> phase \<Rightarrow> nat" where
  "phase_left n Looping = 5 * n + 1"
| "phase_left n (In_Wave w r b) = 5 * (n - (length w + length r)) + 3 * length w + 2 * length r + (length b - (length w + length r)) + 2"
| "phase_left n (Merging rs) = 5 * n + length rs + 2"
| "phase_left n (Returned _) = 0"
| "phase_left n (Raised _) = 0"

definition steps_left :: "scheduler \<Rightarrow> nat" where
  "steps_left s = phase_left (length (sc_remaining s)) (sc_phase s)"

lemma wave_lengths:
  assumes "wave_inv s" "sc_phase s = In_Wave w r b"
  shows "length w + length r \<le> length (sc_remaining s)" "length w + length r \<le> length b"
proof -
  note wi = wave_invD [OF assms]
  have d: "distinct (w @ r)" using wi(3) unfolding distinct_map by (rule conjunct1)
  have fit: "length w + length r \<le> length xs" if "set w \<union> set r \<subseteq> set xs" for xs
  proof -
    have "length w + length r = card (set w \<union> set r)" using distinct_card [OF d] by simp
    also have "\<dots> \<le> card (set xs)" using that by (intro card_mono) simp_all
    also have "\<dots> \<le> length xs" by (rule card_length)
    finally show ?thesis .
  qed
  show "length w + length r \<le> length (sc_remaining s)" using fit [OF wi(2)] by simp
  show "length w + length r \<le> length b" by (rule fit) (use wi(4) in blast)
qed

lemma finish_length:
  assumes "base_inv tasks s" "finish_task env now t r s = Inr s'"
  shows "Suc (length (sc_remaining s')) = length (sc_remaining s)"
proof -
  note f = finish_task_sel [OF assms(2)]
  note d = base_invD(1) [OF assms(1)]
  have len: "length xs = card (set (dict_keys xs))" if "distinct (dict_keys xs)" for xs :: "(string, dev_task) dict"
    using distinct_card [OF that] by simp
  have "distinct (dict_keys (sc_remaining s'))" unfolding f(3) using d by (rule distinct_delete)
  from len [OF this] have "length (sc_remaining s') = card (set (dict_keys (sc_remaining s)) - {tr_task_id r})"
    unfolding f(3) keys_delete .
  moreover have "card (set (dict_keys (sc_remaining s)) - {tr_task_id r}) = length (sc_remaining s) - 1"
    using f(1) len [OF d] by (simp add: card_Diff_singleton)
  moreover have "sc_remaining s \<noteq> []" using f(1) by auto
  ultimately show ?thesis by (cases "sc_remaining s") simp_all
qed

lemma steps_left_begin:
  assumes "sc_phase s = Looping" "base_inv tasks s" "wave_inv s"
  shows "steps_left (begin_wave env s) < steps_left s"
proof (cases "sc_remaining s = [] \<or> ready s = []")
  case True
  then show ?thesis using assms(1) by (auto simp: steps_left_def begin_wave_def)
next
  case False
  let ?b = "batch_of (se_mode env) (ready s)"
  have ph: "sc_phase (begin_wave env s) = In_Wave ?b [] ?b" using False by (simp add: begin_wave_def Let_def)
  have "1 \<le> length ?b" using False batch_of_facts(2) by (simp add: Suc_le_eq)
  moreover have "length ?b \<le> length (sc_remaining s)"
    using wave_lengths(1) [OF wave_inv_begin [OF assms(2,1,3)] ph] by simp
  then obtain k where "length (sc_remaining s) = length ?b + k" by (auto simp: le_iff_add)
  ultimately show ?thesis unfolding steps_left_def ph assms(1) begin_wave_sel(2) phase_left.simps list.size by arith
qed

lemma steps_left_act:
  assumes "sched_act env s s'" "base_inv tasks s" "wave_inv s"
  shows "steps_left s' < steps_left s"
  using assms(1)
proof (cases rule: sched_act.cases)
  case sa_begin
  then show ?thesis using steps_left_begin [OF _ assms(2,3)] by simp
next
  case (sa_start t waiting running batch now s1)
  then show ?thesis using wave_lengths [OF assms(3) sa_start(2)] start_task_sel [OF sa_start(3)]
    by (simp add: steps_left_def)
next
  case (sa_finish waiting running batch t r now s1)
  note len = wave_lengths [OF assms(3) sa_finish(2)]
  have n: "length (sc_remaining s) = Suc (length (sc_remaining s1))"
    using finish_length [OF assms(2) sa_finish(5)] by simp
  have r: "length running = Suc (length (remove1 t running))"
    using sa_finish(3) by (metis One_nat_def Suc_pred length_pos_if_in_set length_remove1)
  have "sc_remaining s' = sc_remaining s1" by (simp add: sa_finish(1) after_finish_def)
  then show ?thesis using len unfolding n r steps_left_def
    by (auto simp: sa_finish(1,2) after_finish_def r)
next
  case (sa_crash waiting running batch t now exc)
  then show ?thesis using crash_task_sel(4) [of env now t exc s] by (auto simp: steps_left_def)
qed (auto simp: steps_left_def merge_next_def after_wave_def)

lemma path_reach: "sched_path env (sched_init tasks b) n s \<Longrightarrow> sched_reach env tasks b s"
proof (induction rule: sched_path.induct)
  case (sp_act n s s')
  from sp_act.IH ss_act [OF sp_act.hyps(2)] show ?case by (rule rtranclp.rtrancl_into_rtrancl)
next
  case (sp_agent n s now project plan_version tid status actor rv detail t b')
  from sp_agent.IH ss_agent [OF sp_agent.hyps(2)] show ?case by (rule rtranclp.rtrancl_into_rtrancl)
qed simp

lemma path_left:
  "sched_path env (sched_init tasks b) n s \<Longrightarrow> n + steps_left s \<le> steps_left (sched_init tasks b)"
proof (induction rule: sched_path.induct)
  case (sp_act n s s')
  note inv = books_reach [OF path_reach [OF sp_act.hyps(1)]]
  from sp_act.IH steps_left_act [OF sp_act.hyps(2) inv] show ?case by linarith
qed (simp_all add: steps_left_def)

lemma steps_left_init: "steps_left (sched_init tasks b) \<le> 5 * length tasks + 1"
proof -
  have "length (tasks_by_id tasks) = card (set (dict_keys (tasks_by_id tasks)))"
    using distinct_card [OF dict_of_facts(1), of "map (\<lambda>t. (dt_id t, t)) tasks"] by (simp add: tasks_by_id_def)
  also have "\<dots> \<le> length tasks" unfolding tasks_by_id_keys using card_length [of "map dt_id tasks"] by simp
  finally show ?thesis by (simp add: steps_left_def sched_init_def)
qed

definition running_phase :: "phase \<Rightarrow> bool" where
  "running_phase p = (case p of Returned _ \<Rightarrow> False | Raised _ \<Rightarrow> False | _ \<Rightarrow> True)"

lemma act_enabled:
  assumes "wave_inv s" "running_phase (sc_phase s)"
  shows "\<exists>s'. sched_act env s s'"
proof (cases "sc_phase s")
  case (In_Wave w r b)
  show ?thesis
  proof (cases r)
    case (Cons t ts)
    then have "t \<in> set r" by simp
    from sa_crash [OF In_Wave this] show ?thesis by (rule exI)
  next
    case Nil
    then obtain t ts where w: "w = t # ts" using wave_invD(1) [OF assms(1) In_Wave] by (cases w) auto
    show ?thesis
      by (cases "start_task env 0 t s") (use sa_start sa_start_raise In_Wave w in blast)+
  qed
next
  case (Merging rs)
  then show ?thesis using sa_merge sa_check by (cases rs) blast+
qed (use assms(2) sa_begin in \<open>auto simp: running_phase_def\<close>)

section \<open>Runs\<close>

text \<open>A run of one task, and a wave of two in a synchronised board.\<close>

definition solo_task :: dev_task where
  "solo_task = \<lparr>dt_id = ''t1'', dt_title = ''model'', dt_depends_on = [], dt_overlaps = [''db'']\<rparr>"

definition solo_result :: task_result where
  "solo_result = \<lparr>tr_task_id = ''t1'', tr_status = RDone, tr_attempts = 0, tr_branch = ''b'', tr_handoff = Some ''h'',
     tr_qa = Some ''ok'', tr_review = None, tr_deep_review = None, tr_notes = []\<rparr>"

definition solo_env :: sched_env where
  "solo_env = \<lparr>se_mode = WAVES, se_project = ''kroker'', se_run_id = ''r1'', se_plan_version = None,
     se_board = \<lparr>en_sha256 = id, en_uri = id\<rparr>\<rparr>"

definition solo_end :: scheduler where
  "solo_end = \<lparr>sc_done = [(''t1'', solo_result)], sc_handoffs = [''h''], sc_remaining = [], sc_merged = [''t1''],
     sc_board = empty_board, sc_phase = Returned None\<rparr>"

lemmas solo_defs = solo_task_def solo_result_def solo_env_def solo_end_def sched_init_def tasks_by_id_def dict_of_def

lemma solo_path: "sched_path solo_env (sched_init [solo_task] empty_board) 6 solo_end"
proof -
  let ?s0 = "sched_init [solo_task] empty_board"
  let ?s1 = "?s0\<lparr>sc_phase := In_Wave [solo_task] [] [solo_task]\<rparr>"
  let ?s2 = "?s0\<lparr>sc_phase := In_Wave [] [solo_task] [solo_task]\<rparr>"
  let ?f = "\<lambda>m p. \<lparr>sc_done = [(''t1'', solo_result)], sc_handoffs = [''h''], sc_remaining = [], sc_merged = m,
     sc_board = empty_board, sc_phase = p\<rparr>"
  have wave: "sc_phase ?s1 = In_Wave (solo_task # []) [] [solo_task]" "sc_phase ?s2 = In_Wave [] [solo_task] [solo_task]" by simp_all
  have "sc_phase ?s0 = Looping" by (simp add: sched_init_def)
  from sa_begin [OF this, of solo_env] have 1: "sched_act solo_env ?s0 ?s1"
    by (simp add: begin_wave_def ready_def batch_of_def Let_def solo_defs)
  have "start_task solo_env 0 solo_task ?s1 = Inr ?s1"
    by (simp add: start_task_def board_task_status_def solo_env_def)
  from sa_start [OF wave(1) this] have 2: "sched_act solo_env ?s1 ?s2" by simp
  have "finish_task solo_env 0 solo_task solo_result ?s2 = Inr (?f [] (In_Wave [] [solo_task] [solo_task]))"
    by (simp add: finish_task_def board_task_status_def board_evidence_def solo_defs)
  from sa_finish [OF wave(2) _ _ this] have 3: "sched_act solo_env ?s2 (?f [] (Merging [solo_result]))"
    by (simp add: after_finish_def solo_task_def solo_result_def dict_at_def)
  from sa_merge [of "?f [] (Merging [solo_result])" solo_result "[]" solo_env False]
  have 4: "sched_act solo_env (?f [] (Merging [solo_result])) (?f [''t1''] (Merging []))"
    by (simp add: merge_next_def solo_result_def)
  from sa_check [of "?f [''t1''] (Merging [])" solo_env True]
  have 5: "sched_act solo_env (?f [''t1''] (Merging [])) (?f [''t1''] Looping)"
    by (simp add: after_wave_def solo_result_def)
  from sa_begin [of "?f [''t1''] Looping" solo_env]
  have 6: "sched_act solo_env (?f [''t1''] Looping) solo_end" by (simp add: begin_wave_def solo_end_def)
  have "sched_path solo_env ?s0 (Suc (Suc (Suc (Suc (Suc (Suc 0)))))) solo_end"
    by (intro sp_act [OF sp_act [OF sp_act [OF sp_act [OF sp_act [OF sp_act [OF sp_start 1] 2] 3] 4] 5] 6])
  then show ?thesis by (simp add: eval_nat_numeral)
qed

definition pair_env :: sched_env where
  "pair_env = solo_env\<lparr>se_plan_version := Some 1\<rparr>"

definition pair_board :: board where
  "pair_board = snd (sync_plan_tasks 0 (se_project pair_env) 1 ''r1'' demo_tasks ''workflow:r1'' empty_board)"

definition pair_first :: scheduler where
  "pair_first = begin_wave pair_env (sched_init demo_tasks pair_board)"

definition start_next :: "scheduler \<Rightarrow> scheduler" where
  "start_next s =
     (case sc_phase s of
        In_Wave (t # w) r b \<Rightarrow>
          (case start_task pair_env 0 t s of Inr s' \<Rightarrow> s'\<lparr>sc_phase := In_Wave w (r @ [t]) b\<rparr> | Inl e \<Rightarrow> s\<lparr>sc_phase := Raised e\<rparr>)
      | _ \<Rightarrow> s)"

definition pair_wave :: scheduler where
  "pair_wave = start_next (start_next pair_first)"

lemma act_reach: "sched_reach env tasks b s \<Longrightarrow> sched_act env s s' \<Longrightarrow> sched_reach env tasks b s'"
  using ss_act rtranclp.rtrancl_into_rtrancl by metis

lemma start_next_reach: "sched_reach pair_env tasks b s \<Longrightarrow> sched_reach pair_env tasks b (start_next s)"
  by (auto simp: start_next_def split: phase.splits list.splits sum.splits intro: act_reach sa_start sa_start_raise)

lemma pair_reach: "sched_reach pair_env demo_tasks pair_board pair_wave"
proof -
  have "sched_act pair_env (sched_init demo_tasks pair_board) pair_first"
    unfolding pair_first_def by (rule sa_begin) (simp add: sched_init_def)
  then have "sched_reach pair_env demo_tasks pair_board pair_first" by (intro r_into_rtranclp ss_act)
  then show ?thesis unfolding pair_wave_def by (intro start_next_reach)
qed

lemma pair_phase: "sc_phase pair_wave = In_Wave [] [demo_tasks ! 0, demo_tasks ! 2] [demo_tasks ! 0, demo_tasks ! 2]"
  by code_simp

section \<open>Properties\<close>

lemma sorted_wrt_pair:
  assumes "sorted_wrt P xs" "\<And>x y. P x y \<Longrightarrow> P y x" "x \<in> set xs" "y \<in> set xs" "x \<noteq> y"
  shows "P x y"
  using assms(1,3-5) by (induction xs) (auto intro: assms(2))

text \<open>C15: the scheduler never deadlocks on a plan that validation accepted. Whatever the tasks, the
  merges, the budget and the agents do, the call never ends with the dependency-cycle failure, and
  as long as it has not ended some action of it is possible.\<close>

theorem valid_plan_never_deadlocks:
  assumes "validate_task_graph tasks = None" "sched_reach env tasks b s"
  shows "sc_phase s \<noteq> Returned (Some ''failed:dependency-cycle'') \<and>
    (running_phase (sc_phase s) \<longrightarrow> (\<exists>s'. sched_act env s s'))"
  using never_stuck [OF assms(2,1)] act_enabled [OF books_reach(2) [OF assms(2)]] by simp

lemma valid_plan_never_deadlocks_witness: "\<exists>s'. sched_act pair_env pair_wave s'"
  using valid_plan_never_deadlocks [OF demo_valid pair_reach] pair_phase by (simp add: running_phase_def)

text \<open>C16: the schedule respects the plan. Every waiting or running task has all its dependencies done,
  two running tasks never share a declared overlap, and the results are in an order in which every
  task comes after its dependencies, each once and each a task of the plan.\<close>

theorem schedule_respects_plan:
  assumes "sched_reach env tasks b s"
  shows "(\<forall>w r ba. sc_phase s = In_Wave w r ba \<longrightarrow>
       (\<forall>t \<in> set w \<union> set r. set (dt_depends_on t) \<subseteq> set (dict_keys (sc_done s)) \<and> dt_id t \<notin> set (dict_keys (sc_done s))) \<and>
       (\<forall>t \<in> set r. \<forall>u \<in> set r. t \<noteq> u \<longrightarrow> set (dt_overlaps t) \<inter> set (dt_overlaps u) = {})) \<and>
     (\<forall>xs k r ys. sc_done s = xs @ (k, r) # ys \<longrightarrow> set (deps_of tasks k) \<subseteq> set (dict_keys xs)) \<and>
     distinct (dict_keys (sc_done s)) \<and> set (dict_keys (sc_done s)) \<subseteq> set (map dt_id tasks)"
proof -
  note inv = base_invD [OF books_reach(1) [OF assms]]
  have wave: "set (dt_depends_on t) \<subseteq> set (dict_keys (sc_done s)) \<and> dt_id t \<notin> set (dict_keys (sc_done s))"
    if ph: "sc_phase s = In_Wave w r ba" and t: "t \<in> set w \<union> set r" for w r ba t
  proof -
    show ?thesis
      using wave_invD(7) [OF books_reach(2) [OF assms] ph t] wave_task(2) [OF books_reach [OF assms] ph t]
      by (simp add: held_def)
  qed
  have apart: "set (dt_overlaps t) \<inter> set (dt_overlaps u) = {}"
    if "sc_phase s = In_Wave w r ba" "t \<in> set r" "u \<in> set r" "t \<noteq> u" for w r ba t u
  proof -
    note wi = wave_invD [OF books_reach(2) [OF assms] that(1)]
    have "set r \<subseteq> set ba" using wi(4) by blast
    then have mem: "t \<in> set ba" "u \<in> set ba" using that(2,3) by (auto intro: subsetD)
    show ?thesis by (rule sorted_wrt_pair [OF wi(6) _ mem that(4)]) (simp add: Int_commute)
  qed
  have "set (dict_keys (sc_done s)) \<subseteq> set (map dt_id tasks)"
    unfolding inv(4) [symmetric] held_def by (rule Un_upper2)
  then show ?thesis using wave apart inv(2,7) by blast
qed

lemma schedule_respects_plan_witness:
  "set (dt_overlaps (demo_tasks ! 0)) \<inter> set (dt_overlaps (demo_tasks ! 2)) = {} \<and> ''t3'' \<notin> set (dict_keys (sc_done pair_wave))"
  using schedule_respects_plan [OF pair_reach] by (simp add: pair_phase demo_tasks_def)

text \<open>C17: no completed task is merged twice and nothing else is merged; when the call returns success,
  every task of the plan has a result, none is quarantined and exactly the completed tasks have been
  merged.\<close>

theorem completed_merged_once:
  assumes "sched_reach env tasks b s"
  shows "distinct (sc_merged s) \<and> set (sc_merged s) \<subseteq> {k. \<exists>r. (k, r) \<in> set (sc_done s) \<and> tr_status r = RDone} \<and>
    (sc_phase s = Returned None \<longrightarrow>
       set (dict_keys (sc_done s)) = set (map dt_id tasks) \<and> (\<forall>(k, r) \<in> set (sc_done s). tr_status r \<noteq> RQuarantined) \<and>
       set (sc_merged s) = {k. \<exists>r. (k, r) \<in> set (sc_done s) \<and> tr_status r = RDone})"
proof -
  note inv = base_invD [OF books_reach(1) [OF assms]]
  note m = merge_inv_reach [OF assms, unfolded merge_inv_def]
  have "set (dict_keys (sc_done s)) = set (map dt_id tasks) \<and> (\<forall>(k, r) \<in> set (sc_done s). tr_status r \<noteq> RQuarantined) \<and>
       set (sc_merged s) = done_ids s" if ret: "sc_phase s = Returned None"
  proof -
    have w: "sc_remaining s = []" "\<forall>(k, r) \<in> set (sc_done s). tr_status r \<noteq> RQuarantined"
      using books_reach(2) [OF assms] by (simp_all add: wave_inv_def ret)
    have "done_ids s \<subseteq> set (sc_merged s)" using m by (simp add: failed_def pending_ids_def ret)
    then have "set (sc_merged s) = done_ids s" using m by blast
    moreover have "set (dict_keys (sc_done s)) = set (map dt_id tasks)"
      using inv(4) by (simp add: w(1) held_def)
    ultimately show ?thesis using w(2) by blast
  qed
  then show ?thesis using m unfolding done_ids_def by blast
qed

lemma completed_merged_once_witness: "set (sc_merged solo_end) = {''t1''} \<and> distinct (sc_merged solo_end)"
  using completed_merged_once [OF path_reach [OF solo_path]] by (simp add: solo_end_def solo_result_def)

text \<open>C18: the call ends. On a plan of n tasks it takes at most 5 n + 1 actions, whatever agents write
  in between, and every path that has not returned or raised can be extended.\<close>

theorem schedule_terminates:
  assumes "sched_path env (sched_init tasks b) n s"
  shows "n \<le> 5 * length tasks + 1 \<and>
    (running_phase (sc_phase s) \<longrightarrow> (\<exists>s'. sched_path env (sched_init tasks b) (Suc n) s'))"
proof -
  have "n + steps_left s \<le> 5 * length tasks + 1"
    using path_left [OF assms] steps_left_init [of tasks b] by linarith
  moreover have "\<exists>s'. sched_path env (sched_init tasks b) (Suc n) s'" if "running_phase (sc_phase s)"
    using act_enabled [OF books_reach(2) [OF path_reach [OF assms]] that, of env] sp_act [OF assms] by blast
  ultimately show ?thesis by simp
qed

lemma schedule_terminates_witness: "sched_path solo_env (sched_init [solo_task] empty_board) 6 solo_end \<and> (6::nat) \<le> 5 * 1 + 1"
  using schedule_terminates [OF solo_path] solo_path by simp

end
