(* ===== verification/Schedule_Board.thy ===== *)
theory Schedule_Board
  imports Schedule_Properties
begin

text \<open>
  The scheduler and the board together: from a synchronised board no write of the host is ever
  refused, and the authoritative column follows the schedule, whatever agents write in between.
\<close>

section \<open>The authoritative column\<close>

definition column :: "sched_env \<Rightarrow> nat \<Rightarrow> board \<Rightarrow> string \<Rightarrow> task_status option" where
  "column env pv b i = map_option bt_authoritative_status (find (is_task (se_project env) pv i) (bd_tasks b))"

lemma get_task_column: "get_task (se_project env) pv i b = Inr t \<Longrightarrow> column env pv b i = Some (bt_authoritative_status t)"
  by (auto simp: get_task_def column_def split: option.splits)

lemma column_get_task:
  "column env pv b i = Some s \<Longrightarrow> \<exists>t. get_task (se_project env) pv i b = Inr t \<and> bt_authoritative_status t = s"
  by (auto simp: get_task_def column_def split: option.splits)

lemma column_authoritative:
  assumes "set_task_authoritative now (se_project env) pv i st actor fx err br b = Inr (t, b')"
  shows "column env pv b' = (column env pv b)(i \<mapsto> st)"
  using assms
proof (cases rule: authoritative_cases)
  case same
  then show ?thesis using get_task_column [OF same(2)] by (simp add: fun_upd_idem)
next
  case (moved t0)
  show ?thesis
  proof
    fix j
    have "find (is_task (se_project env) pv i) (bd_tasks b) = Some t0"
      using moved(1) by (auto simp: get_task_def split: option.splits)
    then show "column env pv b' j = ((column env pv b)(i \<mapsto> st)) j"
      by (simp add: column_def moved(4) update_task_def find_map_task [OF row_keys(1)] authoritative_row_def)
  qed
qed

lemma column_observational:
  assumes "set_task_observational now p v i st actor rv detail b = Inr (t, b')"
  shows "column env pv b' = column env pv b"
proof -
  from assms obtain t0 where t0: "get_task p v i b = Inr t0" and tasks: "bd_tasks b' = bd_tasks (update_task p v i (observational_row now st) b)"
    by (cases rule: observational_cases) simp
  have "find (is_task p v i) (bd_tasks b) = Some t0"
    using t0 by (auto simp: get_task_def split: option.splits)
  then show ?thesis unfolding column_def tasks
    by (auto simp: fun_eq_iff update_task_def find_map_task [OF row_keys(2)] observational_row_def)
qed

lemma authoritative_works:
  assumes "column env pv b i = Some st0" "st0 = st \<or> st \<in> set (TASK_TRANSITIONS st0)"
  shows "\<exists>t b'. set_task_authoritative now (se_project env) pv i st actor fx err br b = Inr (t, b')"
proof -
  obtain t0 where t0: "get_task (se_project env) pv i b = Inr t0" "bt_authoritative_status t0 = st0"
    using column_get_task [OF assms(1)] by blast
  then have find: "find (is_task (se_project env) pv i) (bd_tasks b) = Some t0" by (auto simp: get_task_def split: option.splits)
  show ?thesis
  proof (cases "st0 = st")
    case True
    then show ?thesis using t0 by (simp add: set_task_authoritative_def)
  next
    case False
    then have "st \<in> set (TASK_TRANSITIONS (bt_authoritative_status t0))" using assms(2) t0(2) by simp
    then have "check_task_transition (bt_authoritative_status t0) st = Inr ()" by (simp add: check_task_transition_def)
    then show ?thesis using t0 False find
      by (simp add: set_task_authoritative_def read_back_def get_task_def update_task_def find_map_task [OF row_keys(1)])
  qed
qed

lemma evidence_tasks:
  "attach_task_evidence ben now p v i run kind c b = Inr (r, b') \<Longrightarrow> bd_tasks b' = bd_tasks b"
  by (auto simp: attach_task_evidence_def put_blob_def Let_def split: if_splits sum.splits option.splits)

lemma evidence_works:
  assumes "column env pv b i = Some st" "kind \<in> set EVIDENCE_KINDS"
  shows "\<exists>r b'. attach_task_evidence ben now (se_project env) pv i run kind c b = Inr (r, b')"
  using column_get_task [OF assms(1)] assms(2)
  by (auto simp: attach_task_evidence_def Let_def split: option.splits prod.splits)

text \<open>The same for the writes of the host.\<close>

lemma board_task_status_ok:
  assumes "se_plan_version env = Some pv" "column env pv b i = Some st0" "st0 = st \<or> st \<in> set (TASK_TRANSITIONS st0)"
  shows "\<exists>b'. board_task_status env now i st fx err br b = Inr b' \<and> column env pv b' = (column env pv b)(i \<mapsto> st)"
proof -
  obtain t b' where "set_task_authoritative now (se_project env) pv i st (''workflow:'' @ se_run_id env) fx err br b = Inr (t, b')"
    using authoritative_works [OF assms(2,3)] by blast
  then show ?thesis using column_authoritative by (simp add: board_task_status_def assms(1))
qed

lemma attach_reports_ok:
  assumes "se_plan_version env = Some pv" "column env pv b i \<noteq> None" "set (map fst reports) \<subseteq> set EVIDENCE_KINDS"
  shows "\<exists>b'. attach_reports env now i reports b = Inr b' \<and> column env pv b' = column env pv b"
  using assms(2,3)
proof (induction reports arbitrary: b)
  case Nil
  then show ?case by simp
next
  case (Cons x rest)
  obtain kind rep where x: "x = (kind, rep)" by (cases x)
  have rest: "set (map fst rest) \<subseteq> set EVIDENCE_KINDS" using Cons.prems(2) by simp
  show ?case
  proof (cases rep)
    case None
    then show ?thesis using Cons.IH [OF Cons.prems(1) rest] by (simp add: x)
  next
    case (Some c)
    from Cons.prems(1) obtain st where st: "column env pv b i = Some st" by blast
    have "kind \<in> set EVIDENCE_KINDS" using Cons.prems(2) by (simp add: x)
    from evidence_works [OF st this] obtain r b1 where
      b1: "attach_task_evidence (se_board env) now (se_project env) pv i (se_run_id env) kind c b = Inr (r, b1)" by blast
    have "column env pv b1 = column env pv b" unfolding column_def evidence_tasks [OF b1] by (rule refl)
    then show ?thesis using Cons.IH [of b1] Cons.prems(1) rest b1 by (simp add: x Some board_evidence_def assms(1))
  qed
qed

section \<open>The invariant\<close>

definition board_inv :: "sched_env \<Rightarrow> nat \<Rightarrow> dev_task list \<Rightarrow> scheduler \<Rightarrow> bool" where
  "board_inv env pv tasks s \<longleftrightarrow>
     (\<forall>i \<in> set (map dt_id tasks). column env pv (sc_board s) i \<noteq> None) \<and>
     (\<forall>(k, r) \<in> set (sc_done s). column env pv (sc_board s) k = Some (BOARD_STATUS (tr_status r))) \<and>
     (case sc_phase s of
        In_Wave w r ba \<Rightarrow> \<forall>t \<in> set r. column env pv (sc_board s) (dt_id t) = Some IN_PROGRESS
      | Raised (Board_Raised _) \<Rightarrow> False
      | Raised (Key_Error _) \<Rightarrow> False
      | _ \<Rightarrow> True)"

lemma board_inv_cong:
  assumes "column env pv (sc_board s') = column env pv (sc_board s)" "sc_done s' = sc_done s" "sc_phase s' = sc_phase s"
  shows "board_inv env pv tasks s' = board_inv env pv tasks s"
  unfolding board_inv_def assms by (rule refl)

lemma not_held: "i \<notin> held s \<Longrightarrow> (k, x) \<in> set (sc_done s) \<Longrightarrow> k \<noteq> i"
  by (force simp: held_def)

lemma find_snoc: "P x \<Longrightarrow> find P (xs @ [x]) \<noteq> None"
  by (induction xs) auto

lemma start_task_ok:
  assumes "se_plan_version env = Some pv" "column env pv (sc_board s) (dt_id t) \<noteq> None"
  shows "\<exists>b'. start_task env now t s = Inr (s\<lparr>sc_board := b'\<rparr>) \<and>
    column env pv b' = (column env pv (sc_board s))(dt_id t \<mapsto> IN_PROGRESS)"
proof -
  obtain st where st: "column env pv (sc_board s) (dt_id t) = Some st" using assms(2) by blast
  have "st = IN_PROGRESS \<or> IN_PROGRESS \<in> set (TASK_TRANSITIONS st)" by (cases st) simp_all
  from board_task_status_ok [OF assms(1) st this, of now None None None] show ?thesis by (auto simp: start_task_def)
qed

lemma result_reachable: "BOARD_STATUS st = IN_PROGRESS \<or> BOARD_STATUS st \<in> set (TASK_TRANSITIONS IN_PROGRESS)"
  by (cases st) simp_all

lemma finish_task_ok:
  assumes "se_plan_version env = Some pv" "column env pv (sc_board s) (dt_id t) = Some IN_PROGRESS"
    and "tr_task_id r = dt_id t" "dt_id t \<in> set (dict_keys (sc_remaining s))"
  shows "\<exists>s'. finish_task env now t r s = Inr s' \<and>
    column env pv (sc_board s') = (column env pv (sc_board s))(dt_id t \<mapsto> BOARD_STATUS (tr_status r))"
proof -
  have "IN_PROGRESS = BOARD_STATUS (tr_status r) \<or> BOARD_STATUS (tr_status r) \<in> set (TASK_TRANSITIONS IN_PROGRESS)"
    using result_reachable by metis
  from board_task_status_ok [OF assms(1,2) this, of now "Some (tr_attempts r)" "result_error r" "Some (tr_branch r)"]
  obtain b1 where b1: "board_task_status env now (dt_id t) (BOARD_STATUS (tr_status r)) (Some (tr_attempts r))
      (result_error r) (Some (tr_branch r)) (sc_board s) = Inr b1"
    "column env pv b1 = (column env pv (sc_board s))(dt_id t \<mapsto> BOARD_STATUS (tr_status r))" by blast
  have "column env pv b1 (dt_id t) \<noteq> None" by (simp add: b1(2))
  from attach_reports_ok [OF assms(1) this, of "[(''qa'', tr_qa r), (''review'', tr_review r), (''deep_review'', tr_deep_review r)]" now]
  obtain b2 where "attach_reports env now (dt_id t) [(''qa'', tr_qa r), (''review'', tr_review r), (''deep_review'', tr_deep_review r)] b1 = Inr b2"
    "column env pv b2 = column env pv b1" by (auto simp: EVIDENCE_KINDS_def)
  then show ?thesis using b1 assms(3,4) by (simp add: finish_task_def)
qed

lemma crash_task_ok:
  assumes "se_plan_version env = Some pv" "column env pv (sc_board s) (dt_id t) = Some IN_PROGRESS"
  shows "\<exists>b'. crash_task env now t exc s = s\<lparr>sc_board := b', sc_phase := Raised (Task_Raised exc)\<rparr> \<and>
    column env pv b' = (column env pv (sc_board s))(dt_id t \<mapsto> FAILED)"
proof -
  have "IN_PROGRESS = FAILED \<or> FAILED \<in> set (TASK_TRANSITIONS IN_PROGRESS)" by simp
  from board_task_status_ok [OF assms this, of now None "Some (''unhandled: '' @ exc)" None]
  show ?thesis by (auto simp: crash_task_def)
qed

lemma board_inv_parts:
  assumes "board_inv env pv tasks s"
  shows "i \<in> set (map dt_id tasks) \<Longrightarrow> column env pv (sc_board s) i \<noteq> None"
    "(k, r) \<in> set (sc_done s) \<Longrightarrow> column env pv (sc_board s) k = Some (BOARD_STATUS (tr_status r))"
    "sc_phase s = In_Wave w ru ba \<Longrightarrow> t \<in> set ru \<Longrightarrow> column env pv (sc_board s) (dt_id t) = Some IN_PROGRESS"
  using assms by (auto simp: board_inv_def simp del: set_map)

lemma board_inv_keep:
  assumes "board_inv env pv tasks s" "sc_board s' = sc_board s" "sc_done s' = sc_done s"
    and "\<And>w r ba. sc_phase s' = In_Wave w r ba \<Longrightarrow> r = []"
    and "\<And>e. sc_phase s' \<noteq> Raised (Board_Raised e)" "\<And>k. sc_phase s' \<noteq> Raised (Key_Error k)"
  shows "board_inv env pv tasks s'"
  using assms unfolding board_inv_def by (auto split: phase.splits run_error.splits simp del: set_map)

lemma board_inv_start:
  assumes inv: "base_inv tasks s" "wave_inv s" "board_inv env pv tasks s" and pv: "se_plan_version env = Some pv"
    and ph: "sc_phase s = In_Wave (t # w) r ba"
  shows "\<exists>s'. start_task env now t s = Inr s' \<and> board_inv env pv tasks (s'\<lparr>sc_phase := In_Wave w (r @ [t]) ba\<rparr>)"
proof -
  note b = board_inv_parts [OF inv(3)]
  have tm: "t \<in> set (t # w) \<union> set r" by simp
  note t = wave_task [OF inv(1,2) ph tm]
  have "column env pv (sc_board s) (dt_id t) \<noteq> None" using b(1) t(3) by simp
  from start_task_ok [OF pv this, of now] obtain b' where
    b': "start_task env now t s = Inr (s\<lparr>sc_board := b'\<rparr>)" "column env pv b' = (column env pv (sc_board s))(dt_id t \<mapsto> IN_PROGRESS)" by blast
  have "k \<noteq> dt_id t" if "(k, x) \<in> set (sc_done s)" for k x by (rule not_held [OF t(2) that])
  then have "board_inv env pv tasks (s\<lparr>sc_board := b', sc_phase := In_Wave w (r @ [t]) ba\<rparr>)"
    using b(1,2) b(3) [OF ph] by (auto simp: board_inv_def b'(2) simp del: set_map)
  then show ?thesis using b'(1) by simp
qed

lemma board_inv_finish:
  assumes inv: "base_inv tasks s" "wave_inv s" "board_inv env pv tasks s" and pv: "se_plan_version env = Some pv"
    and ph: "sc_phase s = In_Wave w ru ba" and t: "t \<in> set ru" "tr_task_id r = dt_id t"
  shows "\<exists>s'. finish_task env now t r s = Inr s' \<and> board_inv env pv tasks (after_finish w (remove1 t ru) ba s')"
proof -
  note b = board_inv_parts [OF inv(3)]
  have tm: "t \<in> set w \<union> set ru" using t(1) by simp
  note ti = wave_task [OF inv(1,2) ph tm]
  note wi = wave_invD [OF inv(2) ph]
  from finish_task_ok [OF pv b(3) [OF ph t(1)] t(2) ti(1), of now] obtain s' where
    s': "finish_task env now t r s = Inr s'" "column env pv (sc_board s') = (column env pv (sc_board s))(dt_id t \<mapsto> BOARD_STATUS (tr_status r))"
    by blast
  have books: "sc_done s' = sc_done s @ [(dt_id t, r)]"
    using base_inv_finish [OF inv(1) s'(1) t(2)] wi(2,7) tm by blast
  have other: "k \<noteq> dt_id t" if "(k, x) \<in> set (sc_done s)" for k x by (rule not_held [OF ti(2) that])
  have apart: "dt_id u \<noteq> dt_id t" "u \<in> set ru" if "u \<in> set (remove1 t ru)" for u
  proof -
    have d: "distinct ru" using wi(3) by (simp add: distinct_map)
    show "u \<in> set ru" using that d by simp
    moreover have "u \<noteq> t" using that d by simp
    moreover have "inj_on dt_id (set ru)" using wi(3) by (simp add: distinct_map)
    ultimately show "dt_id u \<noteq> dt_id t" using t(1) by (meson inj_onD)
  qed
  let ?s = "after_finish w (remove1 t ru) ba s'"
  have same: "sc_board ?s = sc_board s'" "sc_done ?s = sc_done s'" by (simp_all add: after_finish_def)
  have "board_inv env pv tasks ?s"
    unfolding board_inv_def same s'(2) books
  proof (intro conjI ballI)
    show "((column env pv (sc_board s))(dt_id t \<mapsto> BOARD_STATUS (tr_status r))) i \<noteq> None" if "i \<in> set (map dt_id tasks)" for i
      using b(1) [OF that] by simp
    show "case x of (k, r') \<Rightarrow> ((column env pv (sc_board s))(dt_id t \<mapsto> BOARD_STATUS (tr_status r))) k = Some (BOARD_STATUS (tr_status r'))"
      if "x \<in> set (sc_done s @ [(dt_id t, r)])" for x
    proof (cases x)
      case (Pair k r')
      from that consider "x \<in> set (sc_done s)" | "x = (dt_id t, r)" by auto
      then show ?thesis
      proof cases
        case 1
        with other [of k r'] b(2) [of k r'] show ?thesis by (simp add: Pair)
      qed simp
    qed
    have "((column env pv (sc_board s))(dt_id t \<mapsto> BOARD_STATUS (tr_status r))) (dt_id u) = Some IN_PROGRESS"
      if "u \<in> set (remove1 t ru)" for u
      using b(3) [OF ph apart(2) [OF that]] apart(1) [OF that] by simp
    then show "case sc_phase ?s of
        In_Wave w r' ba \<Rightarrow> \<forall>u \<in> set r'. ((column env pv (sc_board s))(dt_id t \<mapsto> BOARD_STATUS (tr_status r))) (dt_id u) = Some IN_PROGRESS
      | Raised (Board_Raised _) \<Rightarrow> False
      | Raised (Key_Error _) \<Rightarrow> False
      | _ \<Rightarrow> True"
      unfolding after_finish_def by simp
  qed
  then show ?thesis using s'(1) by blast
qed

lemma board_inv_act:
  assumes "sched_act env s s'" "base_inv tasks s" "wave_inv s" "board_inv env pv tasks s" "se_plan_version env = Some pv"
  shows "board_inv env pv tasks s'"
  using assms(1)
proof (cases rule: sched_act.cases)
  case sa_begin
  show ?thesis by (rule board_inv_keep [OF assms(4)]) (auto simp: sa_begin(1) begin_wave_def Let_def split: if_splits)
next
  case (sa_start t w r ba now s1)
  then show ?thesis using board_inv_start [OF assms(2-5) sa_start(2), of now] by auto
next
  case (sa_start_raise t w r ba now e)
  then show ?thesis using board_inv_start [OF assms(2-5) sa_start_raise(2), of now] by auto
next
  case (sa_finish w ru ba t r now s1)
  then show ?thesis using board_inv_finish [OF assms(2-5) sa_finish(2-4), of now] by auto
next
  case (sa_finish_raise w ru ba t r now e)
  then show ?thesis using board_inv_finish [OF assms(2-5) sa_finish_raise(2-4), of now] by auto
next
  case (sa_crash w r ba t now exc)
  note b = board_inv_parts [OF assms(4)]
  from crash_task_ok [OF assms(5) b(3) [OF sa_crash(2,3)], of now exc] obtain b' where
    b': "s' = s\<lparr>sc_board := b', sc_phase := Raised (Task_Raised exc)\<rparr>"
    "column env pv b' = (column env pv (sc_board s))(dt_id t \<mapsto> FAILED)" using sa_crash(1) by blast
  have "dt_id t \<notin> held s" by (rule wave_task(2) [OF assms(2,3) sa_crash(2)]) (use sa_crash(3) in simp)
  from not_held [OF this] have "k \<noteq> dt_id t" if "(k, x) \<in> set (sc_done s)" for k x using that .
  then show ?thesis using b(1,2) by (auto simp: board_inv_def b' simp del: set_map)
next
  case (sa_merge r rs c)
  show ?thesis by (rule board_inv_keep [OF assms(4)]) (auto simp: sa_merge(1) merge_next_def split: if_splits)
next
  case (sa_check ok)
  show ?thesis by (rule board_inv_keep [OF assms(4)]) (auto simp: sa_check(1) after_wave_def split: if_splits)
qed

lemma sync_column:
  assumes "i \<in> set (map dt_id tasks)"
  shows "column env pv (snd (sync_plan_tasks now (se_project env) pv run tasks actor b)) i \<noteq> None"
proof -
  have grow: "find P (bd_tasks b') \<noteq> None" if "foldl (sync_one now p v run actor) (k, b) ts = (k', b')" "find P (bd_tasks b) \<noteq> None"
    for P p v k b ts k' b'
    using that
  proof (induction ts arbitrary: k b)
    case (Cons t ts)
    obtain k1 b1 where s: "sync_one now p v run actor (k, b) t = (k1, b1)" by (cases "sync_one now p v run actor (k, b) t")
    have "find P (bd_tasks b1) \<noteq> None"
      using s Cons.prems(2) by (auto simp: sync_one_def find_None_iff split: if_splits)
    with Cons s show ?case by (metis foldl_Cons)
  qed simp
  have "find (is_task (se_project env) pv i) (bd_tasks (snd (foldl (sync_one now (se_project env) pv run actor) (k, b) tasks))) \<noteq> None" for k
    using assms
  proof (induction tasks arbitrary: k b)
    case (Cons t ts)
    obtain k1 b1 where s: "sync_one now (se_project env) pv run actor (k, b) t = (k1, b1)"
      by (cases "sync_one now (se_project env) pv run actor (k, b) t")
    show ?case
    proof (cases "i = dt_id t")
      case True
      have found: "find (is_task (se_project env) pv i) (bd_tasks b1) \<noteq> None"
      proof (cases "list_ex (is_task (se_project env) pv i) (bd_tasks b)")
        case True
        then show ?thesis using s by (auto simp: sync_one_def \<open>i = dt_id t\<close> find_None_iff list_ex_iff)
      next
        case False
        then obtain row where "bd_tasks b1 = bd_tasks b @ [row]" "is_task (se_project env) pv i row"
          using s by (auto simp: sync_one_def \<open>i = dt_id t\<close>)
        then show ?thesis using find_snoc [of "is_task (se_project env) pv i" row] by (simp only:) simp
      qed
      obtain k2 b2 where f: "foldl (sync_one now (se_project env) pv run actor) (k1, b1) ts = (k2, b2)"
        by (cases "foldl (sync_one now (se_project env) pv run actor) (k1, b1) ts")
      have "find (is_task (se_project env) pv i) (bd_tasks b2) \<noteq> None" by (rule grow [OF f found])
      then show ?thesis by (simp only: foldl_Cons s f snd_conv not_False_eq_True)
    next
      case False
      with Cons show ?thesis by (simp add: s)
    qed
  qed simp
  then show ?thesis by (simp add: column_def sync_plan_tasks_def)
qed

lemma board_inv_reach:
  assumes "se_plan_version env = Some pv"
    and "sched_reach env tasks (snd (sync_plan_tasks now (se_project env) pv run tasks actor b0)) s"
  shows "board_inv env pv tasks s"
  using assms(2)
proof (induction rule: rtranclp_induct)
  case base
  show ?case using sync_column by (simp add: board_inv_def sched_init_def del: set_map)
next
  case (step s1 s2)
  from step.hyps(2) show ?case
  proof (cases rule: sched_step.cases)
    case ss_act
    then show ?thesis by (rule board_inv_act [OF _ books_reach [OF step.hyps(1)] step.IH assms(1)])
  next
    case (ss_agent now project plan_version tid status actor rv detail t b)
    have "board_inv env pv tasks s2 = board_inv env pv tasks s1" unfolding ss_agent(1)
      by (rule board_inv_cong) (simp_all add: column_observational [OF ss_agent(2)])
    then show ?thesis using step.IH by simp
  qed
qed

section \<open>Property\<close>

text \<open>C19: the board follows the schedule. Once the tasks of the plan are synchronised, no board write of
  the host is ever refused and the call never raises a missing key; the authoritative status of a
  running task is in_progress and that of a finished one is its result, whatever agents write in
  between.\<close>

theorem board_follows_schedule:
  assumes "se_plan_version env = Some pv"
    and "sched_reach env tasks (snd (sync_plan_tasks now (se_project env) pv run tasks actor b0)) s"
  shows "(\<forall>e. sc_phase s \<noteq> Raised (Board_Raised e)) \<and> (\<forall>k. sc_phase s \<noteq> Raised (Key_Error k)) \<and>
    (\<forall>(k, r) \<in> set (sc_done s). column env pv (sc_board s) k = Some (BOARD_STATUS (tr_status r))) \<and>
    (\<forall>w ru ba. sc_phase s = In_Wave w ru ba \<longrightarrow>
       (\<forall>t \<in> set ru. column env pv (sc_board s) (dt_id t) = Some IN_PROGRESS))"
  using board_inv_reach [OF assms] unfolding board_inv_def
  by (intro conjI) (auto split: phase.splits run_error.splits simp del: set_map)

lemma board_follows_schedule_witness: "column pair_env 1 (sc_board pair_wave) ''t3'' = Some IN_PROGRESS"
proof -
  have "se_plan_version pair_env = Some 1" by (simp add: pair_env_def)
  from board_follows_schedule [OF this pair_reach [unfolded pair_board_def]] show ?thesis
    by (simp add: pair_phase demo_tasks_def)
qed

text \<open>
  The other tasks of a wave keep their status when one of them raises: the row of a running sibling
  stays in_progress after the call has ended.
\<close>

lemma crash_leaves_sibling:
  "let s = crash_task pair_env 0 (demo_tasks ! 0) ''boom'' pair_wave in
     sc_phase s = Raised (Task_Raised ''boom'') \<and> column pair_env 1 (sc_board s) ''t1'' = Some FAILED \<and>
     column pair_env 1 (sc_board s) ''t3'' = Some IN_PROGRESS"
  by code_simp

end
