(* ===== verification/Calibration.thy ===== *)
theory Calibration
  imports Core_Models
begin

text \<open>
  The calibration ledger and the rule it guards: \<open>calibration/models.py\<close>, \<open>calibration/verdict.py\<close>,
  \<open>calibration/decision.py\<close>, \<open>calibration/labels.py\<close>, \<open>calibration/store.py\<close>, and the agreement
  statistic of \<open>benchmarks/calibration.py\<close>. A float is its text; the arithmetic on floats is a
  parameter, and no property assumes anything of it. The table is the list of its rows in the
  order of their ids.
\<close>

section \<open>Floats\<close>

text \<open>IEEE arithmetic and the formatting of a float, on the texts of floats.\<close>

record float_ops =
  fl_lt :: "pyfloat \<Rightarrow> pyfloat \<Rightarrow> bool"
  fl_le :: "pyfloat \<Rightarrow> pyfloat \<Rightarrow> bool"
  fl_add :: "pyfloat \<Rightarrow> pyfloat \<Rightarrow> pyfloat"
  fl_sub :: "pyfloat \<Rightarrow> pyfloat \<Rightarrow> pyfloat"
  fl_mul :: "pyfloat \<Rightarrow> pyfloat \<Rightarrow> pyfloat"
  fl_div :: "pyfloat \<Rightarrow> pyfloat \<Rightarrow> pyfloat"
  fl_pow :: "pyfloat \<Rightarrow> pyfloat \<Rightarrow> pyfloat"
  fl_abs :: "pyfloat \<Rightarrow> pyfloat"
  fl_round :: "pyfloat \<Rightarrow> int \<Rightarrow> pyfloat"
  fl_sum :: "pyfloat list \<Rightarrow> pyfloat"
  fl_of_int :: "int \<Rightarrow> pyfloat"
  fl_fmt1 :: "pyfloat \<Rightarrow> string"
  fl_fmt2 :: "pyfloat \<Rightarrow> string"
  fl_fmt4 :: "pyfloat \<Rightarrow> string"

text \<open>Float equality, as a pair of comparisons.\<close>

definition fl_eq :: "float_ops \<Rightarrow> pyfloat \<Rightarrow> pyfloat \<Rightarrow> bool" where
  "fl_eq ops x y \<longleftrightarrow> fl_le ops x y \<and> fl_le ops y x"

text \<open>\<open>max(0.0, min(1.0, x))\<close>.\<close>

definition clamp01 :: "float_ops \<Rightarrow> pyfloat \<Rightarrow> pyfloat" where
  "clamp01 ops x =
     (let m = (if fl_lt ops x ''1.0'' then x else ''1.0'') in if fl_lt ops ''0.0'' m then m else ''0.0'')"

definition mean :: "float_ops \<Rightarrow> pyfloat list \<Rightarrow> pyfloat" where
  "mean ops xs = fl_div ops (fl_sum ops xs) (fl_of_int ops (int (length xs)))"

section \<open>The agreement statistic\<close>

fun insort_lt :: "float_ops \<Rightarrow> pyfloat list \<Rightarrow> nat \<Rightarrow> nat list \<Rightarrow> nat list" where
  "insort_lt ops xs i [] = [i]"
| "insort_lt ops xs i (j # js) = (if fl_lt ops (xs ! j) (xs ! i) then j # insort_lt ops xs i js else i # j # js)"

definition rank_order :: "float_ops \<Rightarrow> pyfloat list \<Rightarrow> nat list" where
  "rank_order ops xs = foldr (insort_lt ops xs) [0..<length xs] []"

text \<open>The inner loop: the length of the run of values equal to the first, and the outer loop over the runs.\<close>

definition tie_length :: "float_ops \<Rightarrow> pyfloat list \<Rightarrow> nat list \<Rightarrow> nat" where
  "tie_length ops xs order = (case order of [] \<Rightarrow> 0 | k # ks \<Rightarrow> Suc (length (takeWhile (\<lambda>m. fl_eq ops (xs ! m) (xs ! k)) ks)))"

function rank_runs :: "float_ops \<Rightarrow> pyfloat list \<Rightarrow> nat \<Rightarrow> nat list \<Rightarrow> (nat \<times> pyfloat) list" where
  "rank_runs ops xs i [] = []"
| "rank_runs ops xs i (k # ks) =
     (let t = tie_length ops xs (k # ks); j = i + t - 1;
          avg = fl_add ops (fl_div ops (fl_of_int ops (int (i + j))) (fl_of_int ops 2)) (fl_of_int ops 1)
      in map (\<lambda>m. (m, avg)) (take t (k # ks)) @ rank_runs ops xs (j + 1) (drop t (k # ks)))"
  by pat_completeness auto
termination
  by (relation "measure (\<lambda>(ops, xs, i, order). length order)") (auto simp: tie_length_def)

definition ranks :: "float_ops \<Rightarrow> pyfloat list \<Rightarrow> pyfloat list" where
  "ranks ops xs =
     fold (\<lambda>(m, r) acc. acc[m := r]) (rank_runs ops xs 0 (rank_order ops xs)) (replicate (length xs) ''0.0'')"

definition square :: "float_ops \<Rightarrow> pyfloat \<Rightarrow> pyfloat" where
  "square ops x = fl_pow ops x (fl_of_int ops 2)"

definition spearman :: "float_ops \<Rightarrow> pyfloat list \<Rightarrow> pyfloat list \<Rightarrow> pyfloat" where
  "spearman ops xs ys =
     (if length xs < 2 then ''0.0''
      else let rx = ranks ops xs; ry = ranks ops ys;
               n = fl_of_int ops (int (length xs));
               mx = fl_div ops (fl_sum ops rx) n; my = fl_div ops (fl_sum ops ry) n;
               num = fl_sum ops (map (\<lambda>(a, b). fl_mul ops (fl_sub ops a mx) (fl_sub ops b my)) (zip rx ry));
               denx = fl_sum ops (map (\<lambda>a. square ops (fl_sub ops a mx)) rx);
               deny = fl_sum ops (map (\<lambda>b. square ops (fl_sub ops b my)) ry)
           in if fl_eq ops denx ''0.0'' \<or> fl_eq ops deny ''0.0'' then ''0.0''
              else fl_round ops (fl_div ops num (fl_mul ops (fl_pow ops denx ''0.5'') (fl_pow ops deny ''0.5''))) 15)"

datatype verdict = Calibrated | Uncalibrated | Insufficient_Data

record agreement_stats =
  as_n :: nat
  as_epsilon :: pyfloat
  as_threshold :: pyfloat
  as_agreement_rate :: pyfloat
  as_mae :: pyfloat
  as_spearman :: pyfloat
  as_verdict :: verdict

definition agreeing :: "float_ops \<Rightarrow> pyfloat \<Rightarrow> (pyfloat \<times> pyfloat) list \<Rightarrow> nat" where
  "agreeing ops epsilon pairs =
     length (filter (\<lambda>(h, j). fl_le ops (fl_abs ops (fl_sub ops j h)) (fl_add ops epsilon ''1e-09'')) pairs)"

definition compute_agreement :: "float_ops \<Rightarrow> (pyfloat \<times> pyfloat) list \<Rightarrow> pyfloat \<Rightarrow> pyfloat \<Rightarrow> agreement_stats" where
  "compute_agreement ops pairs epsilon threshold =
     (if pairs = []
      then \<lparr>as_n = 0, as_epsilon = epsilon, as_threshold = threshold, as_agreement_rate = ''0.0'', as_mae = ''0.0'',
            as_spearman = ''0.0'', as_verdict = Uncalibrated\<rparr>
      else let n = int (length pairs);
               agree = fl_div ops (fl_of_int ops (int (agreeing ops epsilon pairs))) (fl_of_int ops n);
               diffs = map (\<lambda>(h, j). fl_abs ops (fl_sub ops j h)) pairs
           in \<lparr>as_n = length pairs, as_epsilon = epsilon, as_threshold = threshold, as_agreement_rate = agree,
               as_mae = fl_div ops (fl_sum ops diffs) (fl_of_int ops n),
               as_spearman = spearman ops (map fst pairs) (map snd pairs),
               as_verdict = (if fl_le ops threshold agree then Calibrated else Uncalibrated)\<rparr>)"

section \<open>Verdicts\<close>

datatype label_source = BENCHMARK | PRODUCTION_PROXY

fun source_value :: "label_source \<Rightarrow> string" where
  "source_value BENCHMARK = ''benchmark''"
| "source_value PRODUCTION_PROXY = ''production-proxy''"

record calibration_verdict =
  cv_verdict :: verdict
  cv_n :: nat
  cv_agreement_rate :: pyfloat

definition INSUFFICIENT :: calibration_verdict where
  "INSUFFICIENT = \<lparr>cv_verdict = Insufficient_Data, cv_n = 0, cv_agreement_rate = ''0.0''\<rparr>"

definition MIN_SAMPLES :: nat where
  "MIN_SAMPLES = 20"

definition WINDOW :: nat where
  "WINDOW = 200"

definition THRESHOLD :: pyfloat where
  "THRESHOLD = ''0.75''"

definition EPSILON :: pyfloat where
  "EPSILON = ''0.15''"

definition bucket_key :: "string option \<Rightarrow> label_source \<Rightarrow> string" where
  "bucket_key author_model source =
     (case author_model of None \<Rightarrow> ''_unknown'' | Some a \<Rightarrow> if a = [] then ''_unknown'' else a) @ ''|'' @ source_value source"

definition verdict_for :: "float_ops \<Rightarrow> (pyfloat \<times> pyfloat) list \<Rightarrow> calibration_verdict" where
  "verdict_for ops pairs =
     (if length pairs < MIN_SAMPLES
      then \<lparr>cv_verdict = Insufficient_Data, cv_n = length pairs, cv_agreement_rate = ''0.0''\<rparr>
      else let stats = compute_agreement ops pairs EPSILON THRESHOLD
           in \<lparr>cv_verdict = as_verdict stats, cv_n = as_n stats, cv_agreement_rate = as_agreement_rate stats\<rparr>)"

fun verdict_value :: "verdict \<Rightarrow> string" where
  "verdict_value Calibrated = ''calibrated''"
| "verdict_value Uncalibrated = ''uncalibrated''"
| "verdict_value Insufficient_Data = ''insufficient_data''"

section \<open>The ledger\<close>

record calibration_sample =
  cs_gate :: string
  cs_bucket_key :: string
  cs_confidence :: pyfloat
  cs_outcome_label :: pyfloat
  cs_run_id :: string

type_synonym ledger = "(calibration_sample \<times> string) list"

definition ledger_append :: "string \<Rightarrow> calibration_sample list \<Rightarrow> ledger \<Rightarrow> ledger" where
  "ledger_append now samples l = l @ map (\<lambda>s. (s, now)) samples"

definition in_bucket :: "string \<Rightarrow> string \<Rightarrow> calibration_sample \<times> string \<Rightarrow> bool" where
  "in_bucket gate bucket row \<longleftrightarrow> cs_gate (fst row) = gate \<and> cs_bucket_key (fst row) = bucket"

definition recent :: "string \<Rightarrow> string \<Rightarrow> nat \<Rightarrow> ledger \<Rightarrow> (pyfloat \<times> pyfloat) list" where
  "recent gate bucket limit l =
     map (\<lambda>(s, _). (cs_confidence s, cs_outcome_label s)) (rev (take limit (rev (filter (in_bucket gate bucket) l))))"

definition ledger_verdict :: "float_ops \<Rightarrow> string \<Rightarrow> string \<Rightarrow> ledger \<Rightarrow> calibration_verdict" where
  "ledger_verdict ops gate bucket l = verdict_for ops (recent gate bucket WINDOW l)"

section \<open>The rule\<close>

definition auto_decision_for ::
    "float_ops \<Rightarrow> string \<Rightarrow> (string \<rightharpoonup> gate_config) \<Rightarrow> pyfloat option \<Rightarrow> calibration_verdict \<Rightarrow> gate_decision option" where
  "auto_decision_for ops name gates confidence calibration =
     (let cfg = (case gates name of None \<Rightarrow> default_gate_config | Some c \<Rightarrow> c) in
      case confidence of
        None \<Rightarrow> None
      | Some c \<Rightarrow>
          if gc_policy cfg \<noteq> SOFT then None
          else if fl_lt ops c (gc_threshold cfg) then None
          else if cv_verdict calibration \<noteq> Calibrated then None
          else Some \<lparr>gd_gate = name, gd_round = 1, gd_outcome = APPROVE, gd_decided_by = ByPolicy, gd_reviewer = None,
                 gd_comments = Some (''auto-approved: confidence='' @ fl_fmt2 ops c @ '' >= threshold='' @
                   fl_fmt2 ops (gc_threshold cfg) @ ''; calibration='' @ verdict_value (cv_verdict calibration) @
                   '' (n='' @ nat_str (cv_n calibration) @ '', agreement='' @ fl_fmt2 ops (cv_agreement_rate calibration) @ '')''),
                 gd_guidance = None, gd_thaw_tests = False, gd_decided_at = None\<rparr>)"

section \<open>Labels\<close>

record stage_outcome =
  so_stage :: string
  so_fix_attempts :: int
  so_plan_drift :: "pyfloat option"
  so_quality_score :: "pyfloat option"
  so_quality_judge :: "string option"

record gate_outcome_summary =
  go_gate :: string
  go_round :: int
  go_policy :: string
  go_decided_by :: string
  go_approved :: bool
  go_confidence :: "pyfloat option"
  go_author_model :: "string option"

record run_summary =
  rs_run_id :: string
  rs_stages :: "stage_outcome list"
  rs_gates :: "gate_outcome_summary list"

record plan_drift =
  pd_files_hinted :: int
  pd_files_touched :: int
  pd_hinted_untouched :: "string list"
  pd_touched_unhinted :: "string list"

definition unhinted_ratio :: "float_ops \<Rightarrow> plan_drift \<Rightarrow> pyfloat" where
  "unhinted_ratio ops d =
     (if pd_files_touched d \<le> 0 then ''0.0''
      else let r = fl_div ops (fl_of_int ops (int (length (pd_touched_unhinted d)))) (fl_of_int ops (pd_files_touched d))
           in if fl_lt ops ''1.0'' r then ''1.0'' else r)"

definition plan_drift_label :: "float_ops \<Rightarrow> pyfloat list \<Rightarrow> pyfloat option" where
  "plan_drift_label ops ratios =
     (if ratios = [] then None else Some (clamp01 ops (fl_sub ops ''1.0'' (mean ops ratios))))"

definition fix_attempt_label :: "float_ops \<Rightarrow> int list \<Rightarrow> int \<Rightarrow> pyfloat option" where
  "fix_attempt_label ops attempts max_fix_attempts =
     (if attempts = [] \<or> max_fix_attempts \<le> 0 then None
      else Some (clamp01 ops (fl_sub ops ''1.0''
             (mean ops (map (\<lambda>a. fl_div ops (fl_of_int ops (min a max_fix_attempts)) (fl_of_int ops max_fix_attempts)) attempts)))))"

definition DRIFT_GATES :: "string list" where
  "DRIFT_GATES = [''plan'']"

definition FIX_ATTEMPT_GATES :: "string list" where
  "FIX_ATTEMPT_GATES = [''architecture'']"

definition judge_label :: "float_ops \<Rightarrow> run_summary \<Rightarrow> string \<Rightarrow> pyfloat option" where
  "judge_label ops summary gate =
     (let scores = List.map_filter so_quality_score
            (filter (\<lambda>s. so_stage s = gate \<and> so_quality_judge s = Some ''llm_judge'') (rs_stages summary))
      in if scores = [] then None else Some (clamp01 ops (mean ops scores)))"

definition gate_label ::
    "float_ops \<Rightarrow> run_summary \<Rightarrow> pyfloat option \<Rightarrow> pyfloat option \<Rightarrow> bool \<Rightarrow> string \<Rightarrow> pyfloat option" where
  "gate_label ops summary drift fixes benchmarking gate =
     (let judged = (if benchmarking then judge_label ops summary gate else None) in
      if gate \<in> set DRIFT_GATES then (case judged of Some j \<Rightarrow> Some j | None \<Rightarrow> drift)
      else if gate \<in> set FIX_ATTEMPT_GATES then (case judged of Some j \<Rightarrow> Some j | None \<Rightarrow> fixes)
      else None)"

definition honoured :: "gate_outcome_summary \<Rightarrow> bool" where
  "honoured g \<longleftrightarrow> go_policy g = ''soft'' \<and> go_decided_by g = ''policy'' \<and> go_confidence g \<noteq> None"

text \<open>The bounds of a sample are checked by its class; an error names the offending value.\<close>

definition mk_sample :: "float_ops \<Rightarrow> string \<Rightarrow> string \<Rightarrow> pyfloat \<Rightarrow> pyfloat \<Rightarrow> string \<Rightarrow> string + calibration_sample" where
  "mk_sample ops gate bucket confidence label run_id =
     (if \<not> (fl_le ops ''0.0'' confidence \<and> fl_le ops confidence ''1.0'') then Inl confidence
      else if \<not> (fl_le ops ''0.0'' label \<and> fl_le ops label ''1.0'') then Inl label
      else Inr \<lparr>cs_gate = gate, cs_bucket_key = bucket, cs_confidence = confidence, cs_outcome_label = label, cs_run_id = run_id\<rparr>)"

fun gate_samples ::
    "float_ops \<Rightarrow> run_summary \<Rightarrow> pyfloat option \<Rightarrow> pyfloat option \<Rightarrow> bool \<Rightarrow> gate_outcome_summary list \<Rightarrow>
     string + calibration_sample list" where
  "gate_samples ops summary drift fixes benchmarking [] = Inr []"
| "gate_samples ops summary drift fixes benchmarking (g # gs) =
     (if \<not> honoured g then gate_samples ops summary drift fixes benchmarking gs
      else case gate_label ops summary drift fixes benchmarking (go_gate g) of
        None \<Rightarrow> gate_samples ops summary drift fixes benchmarking gs
      | Some label \<Rightarrow>
          (case mk_sample ops (go_gate g)
                  (bucket_key (go_author_model g) (if benchmarking then BENCHMARK else PRODUCTION_PROXY))
                  (the (go_confidence g)) label (rs_run_id summary) of
             Inl e \<Rightarrow> Inl e
           | Inr s \<Rightarrow>
               (case gate_samples ops summary drift fixes benchmarking gs of Inl e \<Rightarrow> Inl e | Inr ss \<Rightarrow> Inr (s # ss))))"

definition calibration_samples_for :: "float_ops \<Rightarrow> run_summary \<Rightarrow> int \<Rightarrow> bool \<Rightarrow> string + calibration_sample list" where
  "calibration_samples_for ops summary max_fix_attempts benchmarking =
     (let tasks = filter (\<lambda>s. so_stage s = ''code'') (rs_stages summary);
          drift = plan_drift_label ops (List.map_filter so_plan_drift tasks);
          fixes = fix_attempt_label ops (map so_fix_attempts tasks) max_fix_attempts
      in gate_samples ops summary drift fixes benchmarking (rs_gates summary))"

text \<open>What the retro stage does with the ledger at the end of a run.\<close>

definition record_run :: "float_ops \<Rightarrow> string \<Rightarrow> run_summary \<Rightarrow> int \<Rightarrow> bool \<Rightarrow> ledger \<Rightarrow> ledger" where
  "record_run ops now summary max_fix_attempts benchmarking l =
     (case calibration_samples_for ops summary max_fix_attempts benchmarking of
        Inl _ \<Rightarrow> l
      | Inr samples \<Rightarrow> ledger_append now samples l)"

text \<open>A run may fail to reach the ledger.\<close>

inductive ledger_reach :: "float_ops \<Rightarrow> ledger \<Rightarrow> bool" for ops where
  lr_empty: "ledger_reach ops []"
| lr_run: "ledger_reach ops l \<Longrightarrow> ledger_reach ops (record_run ops now summary max_fix_attempts benchmarking l)"

end
