(* ===== verification/Calibration_Properties.thy ===== *)
theory Calibration_Properties
  imports Calibration
begin

text \<open>
  What the ledger guarantees: an automatic approval is earned by enough agreeing samples of its own
  bucket, the two populations of samples are never pooled, and a gate that is never sampled, such
  as the merge gate, is never approved automatically.
\<close>

section \<open>The decision\<close>

lemma auto_decision_Some:
  assumes "auto_decision_for ops name gates confidence cal = Some d"
  obtains cfg c where "gates name = Some cfg" "gc_policy cfg = SOFT" "confidence = Some c"
    "\<not> fl_lt ops c (gc_threshold cfg)" "cv_verdict cal = Calibrated" "gd_outcome d = APPROVE" "gd_decided_by d = ByPolicy" "gd_gate d = name"
  using assms by (auto simp: auto_decision_for_def Let_def default_gate_config_def split: option.splits if_splits)

lemma ledger_calibrated:
  "cv_verdict (ledger_verdict ops g b l) = Calibrated \<longleftrightarrow>
     MIN_SAMPLES \<le> length (recent g b WINDOW l) \<and>
     fl_le ops THRESHOLD (fl_div ops (fl_of_int ops (int (agreeing ops EPSILON (recent g b WINDOW l))))
       (fl_of_int ops (int (length (recent g b WINDOW l)))))"
  by (auto simp: ledger_verdict_def verdict_for_def compute_agreement_def Let_def MIN_SAMPLES_def)

section \<open>Samples\<close>

lemma gate_samples_from:
  assumes "gate_samples ops summary drift fixes bm gs = Inr ss" "s \<in> set ss"
  shows "\<exists>g \<in> set gs. honoured g \<and> cs_gate s = go_gate g \<and> go_gate g \<in> {''plan'', ''architecture''} \<and>
    cs_bucket_key s = bucket_key (go_author_model g) (if bm then BENCHMARK else PRODUCTION_PROXY) \<and>
    go_confidence g = Some (cs_confidence s) \<and> cs_run_id s = rs_run_id summary"
  using assms
proof (induction gs arbitrary: ss)
  case (Cons g gs)
  show ?case
  proof (cases "honoured g \<and> gate_label ops summary drift fixes bm (go_gate g) \<noteq> None")
    case False
    then have "gate_samples ops summary drift fixes bm gs = Inr ss" using Cons.prems(1) by (auto split: if_splits)
    with Cons.IH Cons.prems(2) show ?thesis by (meson list.set_intros(2))
  next
    case True
    then obtain label where label: "gate_label ops summary drift fixes bm (go_gate g) = Some label" by blast
    have gate: "go_gate g \<in> {''plan'', ''architecture''}"
      using label by (auto simp: gate_label_def Let_def DRIFT_GATES_def FIX_ATTEMPT_GATES_def split: if_splits)
    from Cons.prems(1) True label obtain x xs where x: "ss = x # xs" "gate_samples ops summary drift fixes bm gs = Inr xs"
        "mk_sample ops (go_gate g) (bucket_key (go_author_model g) (if bm then BENCHMARK else PRODUCTION_PROXY))
           (the (go_confidence g)) label (rs_run_id summary) = Inr x"
      by (auto split: sum.splits if_splits)
    from Cons.prems(2) x(1) consider "s = x" | "s \<in> set xs" by auto
    then show ?thesis
    proof cases
      case 1
      with x(3) True gate show ?thesis
        by (intro bexI [of _ g]) (auto simp: mk_sample_def honoured_def split: if_splits)
    next
      case 2
      with Cons.IH [OF x(2)] show ?thesis by (meson list.set_intros(2))
    qed
  qed
qed simp

lemma samples_for_from:
  assumes "calibration_samples_for ops summary m bm = Inr ss" "s \<in> set ss"
  shows "\<exists>g \<in> set (rs_gates summary). honoured g \<and> cs_gate s = go_gate g \<and> go_gate g \<in> {''plan'', ''architecture''} \<and>
    cs_bucket_key s = bucket_key (go_author_model g) (if bm then BENCHMARK else PRODUCTION_PROXY) \<and>
    go_confidence g = Some (cs_confidence s) \<and> cs_run_id s = rs_run_id summary"
  using gate_samples_from assms unfolding calibration_samples_for_def Let_def by metis

lemma bucket_key_source: "bucket_key a s = bucket_key a' s' \<Longrightarrow> s = s'"
proof -
  assume eq: "bucket_key a s = bucket_key a' s'"
  have "rpartition (CHR ''|'') (bucket_key a s) = (x, ''|'', source_value s)"
    if "x = (case a of None \<Rightarrow> ''_unknown'' | Some a \<Rightarrow> if a = [] then ''_unknown'' else a)" for x a s
    using rpartition_append [of "CHR ''|''" "source_value s" x] that by (cases s) (simp_all add: bucket_key_def)
  from this [OF refl, of a s] this [OF refl, of a' s'] eq have "source_value s = source_value s'" by simp
  then show "s = s'" by (cases s; cases s') simp_all
qed

section \<open>The ledger over many runs\<close>

lemma record_run_cases:
  obtains "record_run ops now summary m bm l = l"
  | ss where "calibration_samples_for ops summary m bm = Inr ss" "record_run ops now summary m bm l = ledger_append now ss l"
  by (cases "calibration_samples_for ops summary m bm") (simp_all add: record_run_def)

lemma ledger_gates: "ledger_reach ops l \<Longrightarrow> row \<in> set l \<Longrightarrow> cs_gate (fst row) \<in> {''plan'', ''architecture''}"
proof (induction rule: ledger_reach.induct)
  case (lr_run l now summary m bm)
  show ?case
  proof (cases rule: record_run_cases [of ops now summary m bm l])
    case 1
    with lr_run show ?thesis by simp
  next
    case (2 ss)
    from lr_run.prems 2(2) consider "row \<in> set l" | s where "s \<in> set ss" "row = (s, now)" by (auto simp: ledger_append_def)
    then show ?thesis
    proof cases
      case 1
      then show ?thesis by (rule lr_run.IH)
    next
      case (2 s)
      with samples_for_from [OF \<open>calibration_samples_for ops summary m bm = Inr ss\<close> 2(1)] show ?thesis by auto
    qed
  qed
qed simp

definition history :: "string \<Rightarrow> string \<Rightarrow> ledger \<Rightarrow> (pyfloat \<times> pyfloat) list" where
  "history gate bucket l = map (\<lambda>(s, _). (cs_confidence s, cs_outcome_label s)) (filter (in_bucket gate bucket) l)"

lemma recent_history: "recent g b k l = drop (length (history g b l) - k) (history g b l)"
  by (simp add: recent_def history_def take_rev drop_map)

lemma history_append:
  "history g b (ledger_append now ss l) =
     history g b l @ map (\<lambda>s. (cs_confidence s, cs_outcome_label s)) (filter (\<lambda>s. cs_gate s = g \<and> cs_bucket_key s = b) ss)"
  by (simp add: history_def ledger_append_def filter_map comp_def in_bucket_def)

lemma never_sampled:
  assumes "ledger_reach ops l" "g \<notin> {''plan'', ''architecture''}"
  shows "history g b l = []"
proof -
  have "\<not> in_bucket g b row" if "row \<in> set l" for row
    using ledger_gates [OF assms(1) that] assms(2) unfolding in_bucket_def by metis
  then show ?thesis by (simp add: history_def filter_empty_conv)
qed

lemma other_source:
  assumes "calibration_samples_for ops summary m bm = Inr ss" "source \<noteq> (if bm then BENCHMARK else PRODUCTION_PROXY)"
  shows "filter (\<lambda>s. cs_gate s = g \<and> cs_bucket_key s = bucket_key a source) ss = []"
proof -
  have "cs_bucket_key s \<noteq> bucket_key a source" if "s \<in> set ss" for s
    using samples_for_from [OF assms(1) that] bucket_key_source assms(2) by metis
  then show ?thesis by (simp add: filter_empty_conv)
qed

text \<open>Only the plan and the architecture gate are ever sampled, so any other gate has insufficient data.\<close>

lemma unsampled_gate_never_auto:
  assumes "ledger_reach ops l" "name \<noteq> ''plan''" "name \<noteq> ''architecture''"
  shows "cv_verdict (ledger_verdict ops name bucket l) = Insufficient_Data \<and>
    auto_decision_for ops name gates confidence (ledger_verdict ops name bucket l) = None"
proof -
  have "history name bucket l = []" by (rule never_sampled [OF assms(1)]) (use assms(2,3) in simp)
  then have "cv_verdict (ledger_verdict ops name bucket l) = Insufficient_Data"
    by (simp add: ledger_verdict_def recent_history verdict_for_def MIN_SAMPLES_def)
  then show ?thesis by (auto simp: auto_decision_for_def Let_def split: option.splits)
qed

section \<open>A ledger, concretely\<close>

text \<open>Arithmetic good enough for decimals of one format: order of the texts, and exact agreement.\<close>

definition demo_floats :: float_ops where
  "demo_floats = \<lparr>fl_lt = (<), fl_le = (\<le>), fl_add = (\<lambda>x _. x), fl_sub = (\<lambda>x y. if x = y then ''0.0'' else x), fl_mul = (\<lambda>x _. x),
     fl_div = (\<lambda>x y. if x = y then ''1.0'' else ''0.0''), fl_pow = (\<lambda>x _. x), fl_abs = id, fl_round = (\<lambda>x _. x),
     fl_sum = (\<lambda>xs. case xs of [] \<Rightarrow> ''0.0'' | x # _ \<Rightarrow> x), fl_of_int = int_str, fl_fmt1 = id, fl_fmt2 = id, fl_fmt4 = id\<rparr>"

definition demo_sample :: calibration_sample where
  "demo_sample = \<lparr>cs_gate = ''plan'', cs_bucket_key = ''m|production-proxy'', cs_confidence = ''0.9'', cs_outcome_label = ''0.9'',
     cs_run_id = ''r''\<rparr>"

definition demo_ledger :: ledger where
  "demo_ledger = replicate 20 (demo_sample, ''now'')"

definition demo_gates :: "string \<rightharpoonup> gate_config" where
  "demo_gates = [''plan'' \<mapsto> default_gate_config\<lparr>gc_policy := SOFT\<rparr>]"

definition demo_run :: run_summary where
  "demo_run = \<lparr>rs_run_id = ''r'', rs_stages = [\<lparr>so_stage = ''code'', so_fix_attempts = 0, so_plan_drift = Some ''1.0'',
       so_quality_score = None, so_quality_judge = None\<rparr>],
     rs_gates = [\<lparr>go_gate = ''plan'', go_round = 1, go_policy = ''soft'', go_decided_by = ''policy'', go_approved = True,
       go_confidence = Some ''0.9'', go_author_model = Some ''m''\<rparr>]\<rparr>"

section \<open>Properties\<close>

text \<open>C23: a gate is approved automatically only when that was earned. If the rule, asked with the verdict
  of the ledger, approves, then the gate is configured as soft, the artifact reported a confidence not
  below the threshold, and the window of the gate's own bucket holds at least twenty samples whose
  agreement rate reaches the bar.\<close>

theorem auto_approval_earned:
  assumes "auto_decision_for ops name gates confidence (ledger_verdict ops name bucket l) = Some d"
  shows "\<exists>cfg c. gates name = Some cfg \<and> gc_policy cfg = SOFT \<and> confidence = Some c \<and> \<not> fl_lt ops c (gc_threshold cfg) \<and>
    20 \<le> length (history name bucket l) \<and> length (recent name bucket WINDOW l) \<le> 200 \<and>
    fl_le ops ''0.75'' (fl_div ops (fl_of_int ops (int (agreeing ops ''0.15'' (recent name bucket WINDOW l))))
       (fl_of_int ops (int (length (recent name bucket WINDOW l))))) \<and>
    approved d \<and> gd_decided_by d = ByPolicy \<and> gd_gate d = name"
proof -
  from auto_decision_Some [OF assms] obtain cfg c where *: "gates name = Some cfg" "gc_policy cfg = SOFT" "confidence = Some c"
    "\<not> fl_lt ops c (gc_threshold cfg)" "cv_verdict (ledger_verdict ops name bucket l) = Calibrated"
    "gd_outcome d = APPROVE" "gd_decided_by d = ByPolicy" "gd_gate d = name" .
  have "20 \<le> length (recent name bucket WINDOW l)" using *(5) unfolding ledger_calibrated MIN_SAMPLES_def by blast
  moreover have "length (recent name bucket WINDOW l) \<le> length (history name bucket l)" by (simp add: recent_history)
  moreover have "length (recent name bucket WINDOW l) \<le> 200" by (simp add: recent_history WINDOW_def)
  ultimately show ?thesis using * unfolding ledger_calibrated THRESHOLD_def EPSILON_def by (auto simp: approved_def)
qed

lemma demo_auto:
  "\<not> Option.is_none (auto_decision_for demo_floats ''plan'' demo_gates (Some ''0.9'')
     (ledger_verdict demo_floats ''plan'' ''m|production-proxy'' demo_ledger))"
  by code_simp

lemma auto_approval_earned_witness:
  "gc_policy (the (demo_gates ''plan'')) = SOFT \<and> 20 \<le> length (history ''plan'' ''m|production-proxy'' demo_ledger)"
proof -
  obtain d where "auto_decision_for demo_floats ''plan'' demo_gates (Some ''0.9'')
     (ledger_verdict demo_floats ''plan'' ''m|production-proxy'' demo_ledger) = Some d" using demo_auto by (auto simp: Option.is_none_def)
  from auto_approval_earned [OF this] show ?thesis by auto
qed

text \<open>The populations are never pooled. Recording a run of one source leaves the verdict of every gate
  and author under the other source as it was; under its own source the window is the most recent two
  hundred pairs of the bucket, the new ones last.\<close>

lemma sources_never_pooled:
  assumes "calibration_samples_for ops summary m bm = Inr ss"
  shows "(source \<noteq> (if bm then BENCHMARK else PRODUCTION_PROXY) \<longrightarrow>
       ledger_verdict ops g (bucket_key a source) (record_run ops now summary m bm l) = ledger_verdict ops g (bucket_key a source) l) \<and>
    (let h = history g b l @ map (\<lambda>s. (cs_confidence s, cs_outcome_label s)) (filter (\<lambda>s. cs_gate s = g \<and> cs_bucket_key s = b) ss)
     in recent g b WINDOW (record_run ops now summary m bm l) = drop (length h - 200) h)"
proof -
  have run: "record_run ops now summary m bm l = ledger_append now ss l" using assms by (simp add: record_run_def)
  have "history g (bucket_key a source) (ledger_append now ss l) = history g (bucket_key a source) l"
    if "source \<noteq> (if bm then BENCHMARK else PRODUCTION_PROXY)"
    using other_source [OF assms that] by (simp add: history_append)
  then show ?thesis
    unfolding run Let_def by (simp add: ledger_verdict_def recent_history history_append WINDOW_def)
qed

lemma demo_run_samples: "case calibration_samples_for demo_floats demo_run 2 False of Inr ss \<Rightarrow> length ss = 1 | Inl _ \<Rightarrow> False"
  by code_simp

end
