(* ===== verification/Gate_Review.thy ===== *)
theory Gate_Review
  imports Calibration_Properties Gate_Host Graph_Dispatch Board_Properties
begin

text \<open>
  The review of a proposal, twice: the loop \<open>_revisable_stage\<close> of \<open>workflows/role_host.py\<close>, and
  the gate handler of \<open>workflows/graph_nodes/gate.py\<close> inside the loop of a graph. The producer, the gate and the
  calibration lookup are parameters: the producer may answer differently in every round, the lookup
  may raise.
\<close>

section \<open>Proposals and configuration\<close>

record proposal =
  pr_summary :: "string option"
  pr_overview :: "string option"
  pr_type_name :: string
  pr_confidence :: "pyfloat option"
  pr_json :: string

definition spec_summary :: "proposal \<Rightarrow> string" where
  "spec_summary a = str_or (pr_summary a) (str_or (pr_overview a) (pr_type_name a))"

record review_cfg =
  rv_gates :: "string \<rightharpoonup> gate_config"
  rv_default_gate_policy :: gate_policy
  rv_gate_timeout_hours :: int
  rv_max_gate_rounds :: int
  rv_case_id :: "string option"
  rv_project_key :: string

definition gate_settings_of :: "review_cfg \<Rightarrow> gate_settings" where
  "gate_settings_of cfg =
     \<lparr>gs_gates = rv_gates cfg, gs_default_gate_policy = rv_default_gate_policy cfg,
      gs_gate_timeout_hours = rv_gate_timeout_hours cfg\<rparr>"

text \<open>The lookup of a gate and a bucket, \<open>None\<close> when the activity raised.\<close>

type_synonym lookup = "string \<Rightarrow> string \<Rightarrow> calibration_verdict option"

definition calibration_of :: "lookup \<Rightarrow> review_cfg \<Rightarrow> string \<Rightarrow> string \<Rightarrow> calibration_verdict" where
  "calibration_of lookup cfg gate author_model =
     (let source = (if rv_case_id cfg \<noteq> None then BENCHMARK else PRODUCTION_PROXY) in
      case lookup gate (bucket_key (Some author_model) source) of None \<Rightarrow> INSUFFICIENT | Some v \<Rightarrow> v)"

section \<open>The two calls of a gate\<close>

definition round_auto ::
    "float_ops \<Rightarrow> lookup \<Rightarrow> review_cfg \<Rightarrow> string \<Rightarrow> string \<Rightarrow> pyfloat option \<Rightarrow> gate_decision option" where
  "round_auto ops lookup cfg name author_model confidence =
     (if confidence \<noteq> None \<and> gc_policy (case rv_gates cfg name of None \<Rightarrow> default_gate_config | Some c \<Rightarrow> c) = SOFT
      then auto_decision_for ops name (rv_gates cfg) confidence (calibration_of lookup cfg name author_model)
      else None)"

definition round_call ::
    "float_ops \<Rightarrow> lookup \<Rightarrow> review_cfg \<Rightarrow> string \<Rightarrow> string \<Rightarrow> int \<Rightarrow> proposal \<Rightarrow> gate_call" where
  "round_call ops lookup cfg name author_model rnd a =
     \<lparr>gl_name = name, gl_settings = gate_settings_of cfg,
      gl_auto_decision = round_auto ops lookup cfg name author_model (pr_confidence a), gl_round = rnd,
      gl_context = Some (empty_context\<lparr>gx_spec_summary := Some (spec_summary a)\<rparr>),
      gl_confidence = pr_confidence a, gl_author_model = Some author_model, gl_default_policy = None\<rparr>"

definition final_call :: "review_cfg \<Rightarrow> string \<Rightarrow> string \<Rightarrow> int \<Rightarrow> proposal \<Rightarrow> gate_call" where
  "final_call cfg name author_model rnd a =
     \<lparr>gl_name = name, gl_settings = gate_settings_of cfg, gl_auto_decision = None, gl_round = rnd,
      gl_context = Some (empty_context\<lparr>gx_spec_summary := Some (spec_summary a)\<rparr>),
      gl_confidence = None, gl_author_model = Some author_model, gl_default_policy = None\<rparr>"

section \<open>The loop of the workflow\<close>

definition py_or :: "string option \<Rightarrow> string option \<Rightarrow> string option" where
  "py_or x y = (case x of None \<Rightarrow> y | Some s \<Rightarrow> if s = [] then y else x)"

type_synonym producer = "int \<Rightarrow> string option \<Rightarrow> proposal"

type_synonym human = "gate_call \<Rightarrow> gate_decision"

record review =
  re_artifact :: proposal
  re_decision :: gate_decision
  re_calls :: "gate_call list"
  re_guidance :: "string option list"

text \<open>\<open>k\<close> rounds of the loop are left, \<open>rnd\<close> is the next one.\<close>

fun review_rounds ::
    "float_ops \<Rightarrow> lookup \<Rightarrow> review_cfg \<Rightarrow> string \<Rightarrow> string \<Rightarrow> producer \<Rightarrow> human \<Rightarrow> nat \<Rightarrow> int \<Rightarrow> string option \<Rightarrow> review" where
  "review_rounds ops lookup cfg name author run gate 0 rnd guidance =
     (let final = rv_max_gate_rounds cfg + 1; a = run final guidance; c = final_call cfg name author final a in
      \<lparr>re_artifact = a, re_decision = gate c, re_calls = [c], re_guidance = [guidance]\<rparr>)"
| "review_rounds ops lookup cfg name author run gate (Suc k) rnd guidance =
     (let a = run rnd guidance; c = round_call ops lookup cfg name author rnd a; d = gate c in
      if gd_outcome d \<noteq> REVISE
      then \<lparr>re_artifact = a, re_decision = d, re_calls = [c], re_guidance = [guidance]\<rparr>
      else let r = review_rounds ops lookup cfg name author run gate k (rnd + 1) (py_or (gd_guidance d) (gd_comments d)) in
           r\<lparr>re_calls := c # re_calls r, re_guidance := guidance # re_guidance r\<rparr>)"

definition revisable_stage ::
    "float_ops \<Rightarrow> lookup \<Rightarrow> review_cfg \<Rightarrow> string \<Rightarrow> string \<Rightarrow> producer \<Rightarrow> human \<Rightarrow> review" where
  "revisable_stage ops lookup cfg name author run gate =
     review_rounds ops lookup cfg name author run gate (nat (rv_max_gate_rounds cfg)) 1 None"

section \<open>The gate handler\<close>

record gate_finish_spec =
  gf_finish :: string
  gf_board_key :: string
  gf_sets_plan_version :: bool

definition GATE_FINISH :: "(string, gate_finish_spec) dict" where
  "GATE_FINISH = [
     (''gate.architecture'', \<lparr>gf_finish = ''architecture_finish'', gf_board_key = ''architecture'', gf_sets_plan_version = False\<rparr>),
     (''gate.plan'', \<lparr>gf_finish = ''plan_finish'', gf_board_key = ''plan'', gf_sets_plan_version = True\<rparr>)]"

datatype gate_model = MProposal proposal | MDecision gate_decision

record publish =
  pb_key :: string
  pb_content :: string
  pb_approved :: bool
  pb_sets_plan_version :: bool

record gate_run =
  gn_call :: gate_call
  gn_decision :: gate_decision
  gn_result :: "gate_model node_result"
  gn_finish :: "(string \<times> proposal \<times> gate_decision) option"
  gn_publish :: "publish option"

definition mk_result :: "string \<Rightarrow> gate_model payload \<Rightarrow> string option \<Rightarrow> bool \<Rightarrow> gate_model node_result" where
  "mk_result port p author fin =
     \<lparr>nd_port = port, nd_payload = p, nd_author_model = author, nd_meta = [], nd_result = None, nd_finalize = fin\<rparr>"

text \<open>The stored artifact and its author model come from the payload of the \<open>artifact\<close> port.\<close>

definition gate_node ::
    "float_ops \<Rightarrow> lookup \<Rightarrow> review_cfg \<Rightarrow> human \<Rightarrow> (string \<Rightarrow> bool) \<Rightarrow> string \<Rightarrow> string \<Rightarrow> string list \<Rightarrow> int \<Rightarrow>
     proposal \<Rightarrow> string option \<Rightarrow> string + gate_run" where
  "gate_node ops lookup cfg gate connected node_id node_type unavailable rnd a author_model =
     (let author = (case author_model of None \<Rightarrow> [] | Some m \<Rightarrow> m);
          final = ''revise'' \<in> set unavailable;
          c = (if final then final_call cfg node_id author rnd a else round_call ops lookup cfg node_id author rnd a);
          d = gate c
      in if gd_outcome d = REVISE \<and> \<not> final \<and> connected ''revise''
         then Inr \<lparr>gn_call = c, gn_decision = d, gn_result = mk_result ''revise'' (ModelPayload (MDecision d)) None False,
                gn_finish = None, gn_publish = None\<rparr>
         else (case dict_get GATE_FINISH node_type of
             None \<Rightarrow> Inl node_type
           | Some fin \<Rightarrow>
               (let ok = (gd_outcome d = APPROVE) in
                Inr \<lparr>gn_call = c, gn_decision = d,
                  gn_result = mk_result (if ok then ''approve'' else ''reject'') (if ok then ModelPayload (MProposal a) else NoPayload)
                     (if ok then Some author else None) True,
                  gn_finish = Some (gf_finish fin, a, d),
                  gn_publish = Some \<lparr>pb_key = gf_board_key fin, pb_content = pr_json a, pb_approved = approved d,
                     pb_sets_plan_version = gf_sets_plan_version fin\<rparr>\<rparr>)))"

definition guidance_text :: "gate_model option \<Rightarrow> string option" where
  "guidance_text m =
     (case m of Some (MDecision d) \<Rightarrow> py_or (py_or (gd_guidance d) (gd_comments d)) None | _ \<Rightarrow> None)"

section \<open>The publication behind the gate\<close>

definition board_publish ::
    "board_env \<Rightarrow> int \<Rightarrow> review_cfg \<Rightarrow> string \<Rightarrow> string \<Rightarrow> string \<Rightarrow> bool \<Rightarrow> board \<Rightarrow> nat \<times> board" where
  "board_publish env now cfg run_id key content ok b =
     (case publish_artifact_version env now (rv_project_key cfg) key run_id content
             (if ok then CURRENT else REJECTED) (''workflow:'' @ run_id) b of
        ((ref, version_id), b') \<Rightarrow> (version_id, b'))"

text \<open>\<open>_publish\<close>, on the board and the plan version of the host.\<close>

definition finalize_gate ::
    "board_env \<Rightarrow> int \<Rightarrow> review_cfg \<Rightarrow> string \<Rightarrow> publish \<Rightarrow> nat option \<times> board \<Rightarrow> nat option \<times> board" where
  "finalize_gate env now cfg run_id p s =
     (case board_publish env now cfg run_id (pb_key p) (pb_content p) (pb_approved p) (snd s) of
        (version, b') \<Rightarrow> (if pb_sets_plan_version p then Some version else fst s, b'))"

section \<open>The loop of a graph\<close>

text \<open>
  A producer and its gate on a revise edge with \<open>k\<close> traversals left: the router makes the port
  unavailable when none is left, and hands the decision to the producer otherwise.
\<close>

fun graph_rounds ::
    "float_ops \<Rightarrow> lookup \<Rightarrow> review_cfg \<Rightarrow> string \<Rightarrow> string \<Rightarrow> string \<Rightarrow> producer \<Rightarrow> human \<Rightarrow> nat \<Rightarrow> int \<Rightarrow>
     gate_model option \<Rightarrow> string + gate_run \<times> gate_call list" where
  "graph_rounds ops lookup cfg name typ author run gate k rnd decision =
     (let a = run rnd (guidance_text decision) in
      case gate_node ops lookup cfg gate (\<lambda>_. True) name typ (if k = 0 then [''revise''] else []) rnd a (Some author) of
        Inl e \<Rightarrow> Inl e
      | Inr g \<Rightarrow>
          (case (k, nd_payload (gn_result g)) of
             (Suc k', ModelPayload (MDecision d)) \<Rightarrow>
               (case graph_rounds ops lookup cfg name typ author run gate k' (rnd + 1) (Some (MDecision d)) of
                  Inl e \<Rightarrow> Inl e | Inr (g', calls) \<Rightarrow> Inr (g', gn_call g # calls))
           | _ \<Rightarrow> Inr (g, [gn_call g])))"

end
