(* ===== verification/Measurement.thy ===== *)
theory Measurement
  imports Agent_Registry
begin

text \<open>
  \<open>measurement.py\<close>: a number that may not have been collected, with the reason it was not. Used by the
  merge stage and by the capability identities.
\<close>

datatype collection_state = MEASURED | NOT_COLLECTED | UNKNOWN

record measurement =
  me_state :: collection_state
  me_value :: "pyfloat option"
  me_reason :: string

text \<open>\<open>math.isfinite\<close> on the text of a float.\<close>

definition isfinite :: "pyfloat \<Rightarrow> bool" where
  "isfinite x \<longleftrightarrow> x \<notin> {''nan'', ''inf'', ''-inf''}"

text \<open>The validator of the class: whether a measurement with these fields constructs.\<close>

definition value_matches_state :: "measurement \<Rightarrow> bool" where
  "value_matches_state m =
     (if me_state m = MEASURED then (case me_value m of None \<Rightarrow> False | Some v \<Rightarrow> isfinite v)
      else me_value m = None \<and> strip (me_reason m) \<noteq> [])"

definition not_collected :: "string \<Rightarrow> measurement" where
  "not_collected reason = \<lparr>me_state = NOT_COLLECTED, me_value = None, me_reason = reason\<rparr>"

definition measured :: "pyfloat \<Rightarrow> measurement" where
  "measured v = \<lparr>me_state = MEASURED, me_value = Some v, me_reason = []\<rparr>"

end
