(* ===== verification/Merge_Stage.thy ===== *)
theory Merge_Stage
  imports Gate_Review Measurement
begin

text \<open>
  The merge stage: \<open>stages/merge/step.py\<close> over the reports its activities return, the lens outcomes of
  \<open>stages/review/lenses.py\<close>. The reports, the merge
  verdict of the model and the answer of the gate are inputs.
\<close>

section \<open>Reports\<close>

record scoped_test_report =
  st_state :: collection_state
  st_reason :: string
  st_introduced :: "string list"
  st_preexisting :: "string list"
  st_preexisting_flaky :: "string list"

record lint_finding =
  lf_rule :: string
  lf_path :: string
  lf_line :: string

record scoped_lint_report =
  sl_state :: collection_state
  sl_reason :: string
  sl_introduced :: "lint_finding list"
  sl_preexisting :: int
  sl_resolved :: int
  sl_policy_paths_changed :: "string list"
  sl_suppressions_added :: int

datatype severity = Critical | High | Medium | Low

record security_finding =
  sf_severity :: severity
  sf_rule :: string
  sf_path :: string
  sf_line :: string

record scoped_security_report =
  ss_state :: collection_state
  ss_reason :: string
  ss_introduced :: "security_finding list"
  ss_preexisting :: int
  ss_resolved :: int

definition introduced_critical :: "scoped_security_report \<Rightarrow> nat" where
  "introduced_critical r = length (filter (\<lambda>f. sf_severity f = Critical) (ss_introduced r))"

section \<open>Lenses\<close>

datatype lens_presence = PRESENT | DECLARED_ABSENT | NOT_REACHED | UNDECLARED_ABSENT

fun presence_value :: "lens_presence \<Rightarrow> string" where
  "presence_value PRESENT = ''present''"
| "presence_value DECLARED_ABSENT = ''declared_absent''"
| "presence_value NOT_REACHED = ''not_reached''"
| "presence_value UNDECLARED_ABSENT = ''undeclared_absent''"

record lens_outcome =
  lo_lens :: string
  lo_presence :: lens_presence
  lo_approved :: "bool option"
  lo_has_blocking_findings :: bool
  lo_reason :: string

record review_report =
  rr_approve :: bool
  rr_blocking_findings :: "string list"

definition GATING_LENSES :: "string list" where
  "GATING_LENSES = [''reviewer'', ''adversary'']"

definition facts_match_presence :: "lens_outcome \<Rightarrow> string option" where
  "facts_match_presence o1 =
     (if lo_presence o1 = PRESENT
      then (if lo_approved o1 = None then Some ''PRESENT requires an approved verdict'' else None)
      else if lo_approved o1 \<noteq> None then Some (presence_value (lo_presence o1) @ '' cannot carry an approved verdict'')
      else if lo_reason o1 = [] then Some (presence_value (lo_presence o1) @ '' requires a reason'')
      else None)"

definition absent_lens :: "string \<Rightarrow> lens_presence \<Rightarrow> string \<Rightarrow> lens_outcome" where
  "absent_lens lens presence reason =
     \<lparr>lo_lens = lens, lo_presence = presence, lo_approved = None, lo_has_blocking_findings = False, lo_reason = reason\<rparr>"

definition classify_lens :: "string \<Rightarrow> bool \<Rightarrow> bool \<Rightarrow> bool \<Rightarrow> review_report option \<Rightarrow> string + lens_outcome" where
  "classify_lens lens enabled agent_present reached report =
     (if report \<noteq> None \<and> \<not> reached then Inl ''a lens that was not reached cannot have produced a report''
      else if \<not> enabled then Inr (absent_lens lens DECLARED_ABSENT (lens @ '' disabled by configuration''))
      else if \<not> agent_present then Inr (absent_lens lens UNDECLARED_ABSENT (lens @ '' enabled but no agent is configured''))
      else if \<not> reached then Inr (absent_lens lens NOT_REACHED (lens @ '' run site was never reached on this task''))
      else case report of
        None \<Rightarrow> Inr (absent_lens lens UNDECLARED_ABSENT (lens @ '' ran but produced no report (raised, or returned nothing)''))
      | Some r \<Rightarrow> Inr \<lparr>lo_lens = lens, lo_presence = PRESENT, lo_approved = Some (rr_approve r),
          lo_has_blocking_findings = (rr_blocking_findings r \<noteq> []), lo_reason = []\<rparr>)"

definition primary_admits :: "lens_outcome \<Rightarrow> bool" where
  "primary_admits o1 \<longleftrightarrow> lo_presence o1 \<noteq> PRESENT \<or> lo_approved o1 = Some True"

definition backstop_admits :: "lens_outcome \<Rightarrow> bool" where
  "backstop_admits o1 \<longleftrightarrow> lo_presence o1 \<noteq> PRESENT \<or> lo_approved o1 = Some True \<or> \<not> lo_has_blocking_findings o1"

section \<open>Checks\<close>

record merge_result =
  mt_task_id :: string
  mt_tests_passed :: "bool option"
  mt_lens_outcomes :: "lens_outcome list"
  mt_plan_drift :: "plan_drift option"

definition merge_evidence_all_green :: "merge_result list \<Rightarrow> bool" where
  "merge_evidence_all_green results \<longleftrightarrow> results \<noteq> [] \<and> list_all (\<lambda>r. mt_tests_passed r = Some True) results"

definition plan_drift_flags :: "float_ops \<Rightarrow> plan_drift \<Rightarrow> bool" where
  "plan_drift_flags ops d \<longleftrightarrow>
     (if pd_files_touched d \<le> 1 then False
      else let unhinted = length (pd_touched_unhinted d) in
        2 \<le> unhinted \<or> fl_le ops ''0.5'' (fl_div ops (fl_of_int ops (int unhinted)) (fl_of_int ops (pd_files_touched d))))"

definition plan_drift_check :: "float_ops \<Rightarrow> merge_result list \<Rightarrow> check_result" where
  "plan_drift_check ops results =
     (let drifted = map mt_task_id (filter (\<lambda>r. case mt_plan_drift r of None \<Rightarrow> False | Some d \<Rightarrow> plan_drift_flags ops d) results) in
      build_check ''plan_drift'' (drifted = []) ADVISORY
        (if drifted \<noteq> [] then nat_str (length drifted) @ '' task(s) touched unhinted files beyond threshold: '' @ list_repr (take 10 drifted)
         else ''no task exceeded the plan-drift threshold (or drift is unmeasured)''))"

text \<open>The failures and the notes of one task, over the gating lenses in sorted order.\<close>

definition lens_recorded :: "merge_result \<Rightarrow> string \<Rightarrow> lens_outcome option" where
  "lens_recorded r lens = dict_get (dict_of (map (\<lambda>o1. (lo_lens o1, o1)) (mt_lens_outcomes r))) lens"

definition lens_failure :: "merge_result \<Rightarrow> string \<Rightarrow> string option" where
  "lens_failure r lens =
     (case lens_recorded r lens of
        None \<Rightarrow> Some (mt_task_id r @ ''/'' @ lens @ '': no outcome recorded'')
      | Some o1 \<Rightarrow>
          if lo_presence o1 = UNDECLARED_ABSENT
          then Some (mt_task_id r @ ''/'' @ lens @ '': '' @ presence_value (lo_presence o1) @ '' ('' @ lo_reason o1 @ '')'') else None)"

definition lens_note :: "merge_result \<Rightarrow> string \<Rightarrow> string option" where
  "lens_note r lens =
     (case lens_recorded r lens of
        None \<Rightarrow> None
      | Some o1 \<Rightarrow>
          if lo_presence o1 = UNDECLARED_ABSENT then None
          else Some (mt_task_id r @ ''/'' @ lens @ '': '' @ presence_value (lo_presence o1)))"

definition lens_presence_check :: "merge_result list \<Rightarrow> check_result" where
  "lens_presence_check results =
     (let failures = concat (map (\<lambda>r. List.map_filter (lens_failure r) (sort GATING_LENSES)) results);
          notes = concat (map (\<lambda>r. List.map_filter (lens_note r) (sort GATING_LENSES)) results);
          detail = str_join ''; '' (failures @ notes)
      in build_check ''review_lenses_present'' (failures = []) ADVISORY
           (if detail = [] then ''no task results to grade'' else detail))"

definition listed :: "string list \<Rightarrow> string" where
  "listed items =
     (if items \<noteq> [] then ''; introduced: '' @ list_repr (take 10 items) @ (if 10 < length items then '' ...'' else []) else [])"

definition tests_check :: "scoped_test_report \<Rightarrow> check_result" where
  "tests_check r =
     (if st_state r \<noteq> MEASURED then build_check ''build_integration_green'' False ABSOLUTE (''not collected: '' @ st_reason r)
      else build_check ''build_integration_green'' (st_introduced r = []) ABSOLUTE
        (nat_str (length (st_introduced r)) @ '' introduced; '' @ nat_str (length (st_preexisting r)) @ '' pre-existing; '' @
         nat_str (length (st_preexisting_flaky r)) @ '' pre-existing flaky'' @ listed (st_introduced r)))"

definition finding_line :: "string \<Rightarrow> string \<Rightarrow> string \<Rightarrow> string" where
  "finding_line rule path line = rule @ '' '' @ path @ '': '' @ line"

definition lint_check :: "scoped_lint_report \<Rightarrow> check_result" where
  "lint_check r =
     (if sl_state r \<noteq> MEASURED then build_check ''lint_clean'' False ABSOLUTE (''not collected: '' @ sl_reason r)
      else build_check ''lint_clean'' (sl_introduced r = []) ABSOLUTE
        (nat_str (length (sl_introduced r)) @ '' introduced; '' @ int_str (sl_preexisting r) @ '' pre-existing; '' @
         int_str (sl_resolved r) @ '' resolved; '' @ nat_str (length (sl_policy_paths_changed r)) @ '' policy path(s) changed; '' @
         int_str (sl_suppressions_added r) @ '' suppression(s) added'' @
         listed (map (\<lambda>f. finding_line (lf_rule f) (lf_path f) (lf_line f)) (sl_introduced r))))"

definition security_checks :: "scoped_security_report \<Rightarrow> check_result list" where
  "security_checks r =
     [build_check ''security_scan_collected'' (ss_state r = MEASURED) ABSOLUTE
        (if ss_reason r = [] then ''collected at the base and the head'' else ss_reason r),
      build_check ''security_no_critical'' (introduced_critical r = 0) ABSOLUTE
        (nat_str (introduced_critical r) @ '' introduced critical; '' @ nat_str (length (ss_introduced r)) @ '' introduced; '' @
         int_str (ss_preexisting r) @ '' pre-existing; '' @ int_str (ss_resolved r) @ '' resolved'' @
         listed (map (\<lambda>f. finding_line (sf_rule f) (sf_path f) (sf_line f)) (ss_introduced r)))]"

section \<open>The step\<close>

text \<open>What the activities of the stage return: a report of the wrong shape is \<open>None\<close>.\<close>

record merge_input =
  mi_toolchain :: "string option"
  mi_tests :: "scoped_test_report option"
  mi_lint :: "scoped_lint_report option"
  mi_lint_run :: "bool \<times> string"
  mi_coverage :: measurement
  mi_security :: "scoped_security_report option"
  mi_verdict_approve :: bool
  mi_verdict_confidence :: pyfloat
  mi_pr_url :: string

definition absolute_checks :: "merge_input \<Rightarrow> merge_result list \<Rightarrow> check_result list" where
  "absolute_checks inp results =
     (case mi_toolchain inp of
        Some _ \<Rightarrow>
          [tests_check (case mi_tests inp of Some r \<Rightarrow> r
              | None \<Rightarrow> \<lparr>st_state = NOT_COLLECTED, st_reason = ''no scoped test report'', st_introduced = [],
                         st_preexisting = [], st_preexisting_flaky = []\<rparr>),
           lint_check (case mi_lint inp of Some r \<Rightarrow> r
              | None \<Rightarrow> \<lparr>sl_state = NOT_COLLECTED, sl_reason = ''no scoped lint report'', sl_introduced = [], sl_preexisting = 0,
                         sl_resolved = 0, sl_policy_paths_changed = [], sl_suppressions_added = 0\<rparr>)]
      | None \<Rightarrow>
          [build_check ''build_integration_green'' (merge_evidence_all_green results) ABSOLUTE
             ''no toolchain adapter: aggregate of per-task QA runs'',
           build_check ''lint_clean'' (fst (mi_lint_run inp)) ABSOLUTE (snd (mi_lint_run inp))])"

definition security_report :: "merge_input \<Rightarrow> scoped_security_report" where
  "security_report inp =
     (case mi_security inp of Some r \<Rightarrow> r
      | None \<Rightarrow> \<lparr>ss_state = NOT_COLLECTED, ss_reason = ''no scoped security report'', ss_introduced = [],
                 ss_preexisting = 0, ss_resolved = 0\<rparr>)"

definition diff_coverage :: "merge_input \<Rightarrow> pyfloat option" where
  "diff_coverage inp = (if me_state (mi_coverage inp) = MEASURED then me_value (mi_coverage inp) else None)"

definition merge_checks :: "float_ops \<Rightarrow> pyfloat \<Rightarrow> merge_input \<Rightarrow> merge_result list \<Rightarrow> string list \<Rightarrow> check_result list" where
  "merge_checks ops threshold inp results untraced =
     absolute_checks inp results @ security_checks (security_report inp) @
     [build_check ''review_severity''
        (list_all (\<lambda>r. list_all primary_admits (filter (\<lambda>o1. lo_lens o1 = ''reviewer'') (mt_lens_outcomes r))) results) ADVISORY
        (''clean-context reviewer blocking findings (FR-204); absence is graded by review_lenses_present, not here''),
      build_check ''traceability'' (untraced = []) ADVISORY
        (if untraced \<noteq> [] then nat_str (length untraced) @ '' criterion(s) without traced evidence: '' @ list_repr (take 10 untraced)
         else ''every acceptance criterion traces to >=1 test''),
      build_check ''coverage'' (case diff_coverage inp of None \<Rightarrow> True | Some c \<Rightarrow> fl_le ops threshold c) ADVISORY
        (case diff_coverage inp of None \<Rightarrow> me_reason (mi_coverage inp)
         | Some c \<Rightarrow> ''diff coverage '' @ fl_fmt1 ops c @ ''% vs threshold '' @ fl_fmt1 ops threshold @ ''%''),
      plan_drift_check ops results, lens_presence_check results]"

definition blocking_of :: "check_class \<Rightarrow> gate_report \<Rightarrow> string list" where
  "blocking_of cls r = map ck_name (filter (\<lambda>c. ck_name c \<in> set (gr_blocking r) \<and> ck_class c = cls) (gr_checks r))"

definition merge_call :: "review_cfg \<Rightarrow> gate_report \<Rightarrow> gate_call" where
  "merge_call cfg r =
     \<lparr>gl_name = ''merge'', gl_settings = gate_settings_of cfg, gl_auto_decision = None, gl_round = 1,
      gl_context = Some (empty_context\<lparr>gx_checks := gr_checks r\<rparr>), gl_confidence = None, gl_author_model = None,
      gl_default_policy = None\<rparr>"

definition merge_overrides :: "gate_decision \<Rightarrow> string list \<Rightarrow> gate_override list" where
  "merge_overrides d names =
     map (\<lambda>n. \<lparr>ov_check = n, ov_approved_by = str_or (gd_reviewer d) ''human'',
               ov_reason = str_or (gd_comments d) ''advisory override''\<rparr>) names"

definition resolve_merge_model :: "string option \<Rightarrow> (string \<rightharpoonup> role_config) \<Rightarrow> string" where
  "resolve_merge_model model roles =
     (case model of
        Some m \<Rightarrow> if m \<noteq> [] then m
          else (case (case roles ''merge_verdict'' of None \<Rightarrow> roles ''merge'' | Some rc \<Rightarrow> Some rc) of
                  None \<Rightarrow> ''unknown'' | Some rc \<Rightarrow> str_or (rc_model rc) ''unknown'')
      | None \<Rightarrow>
          (case (case roles ''merge_verdict'' of None \<Rightarrow> roles ''merge'' | Some rc \<Rightarrow> Some rc) of
             None \<Rightarrow> ''unknown'' | Some rc \<Rightarrow> str_or (rc_model rc) ''unknown''))"

definition soft_auto :: "float_ops \<Rightarrow> lookup \<Rightarrow> review_cfg \<Rightarrow> string \<Rightarrow> merge_input \<Rightarrow> gate_decision option" where
  "soft_auto ops lookup cfg merge_model inp =
     (if mi_verdict_approve inp
      then auto_decision_for ops ''merge'' (rv_gates cfg) (Some (mi_verdict_confidence inp)) (calibration_of lookup cfg ''merge'' merge_model)
      else None)"

text \<open>The report at the end, the gates asked, the audited overrides, and the result; \<open>ml_pr\<close> says that a
  pull request was opened.\<close>

record merge_log =
  ml_report :: gate_report
  ml_calls :: "gate_call list"
  ml_overrides :: "gate_override list"
  ml_result :: string
  ml_passed :: bool
  ml_pr :: bool

definition merge_done ::
    "review_cfg \<Rightarrow> merge_input \<Rightarrow> gate_report \<Rightarrow> gate_call list \<Rightarrow> gate_override list \<Rightarrow> merge_log" where
  "merge_done cfg inp r calls os =
     (if rv_case_id cfg \<noteq> None
      then \<lparr>ml_report = r, ml_calls = calls, ml_overrides = os, ml_result = ''skipped:benchmark-run-has-no-remote'',
            ml_passed = True, ml_pr = False\<rparr>
      else \<lparr>ml_report = r, ml_calls = calls, ml_overrides = os, ml_result = mi_pr_url inp, ml_passed = True, ml_pr = True\<rparr>)"

definition merge_rejected :: "gate_report \<Rightarrow> gate_call list \<Rightarrow> string \<Rightarrow> merge_log" where
  "merge_rejected r calls res =
     \<lparr>ml_report = r, ml_calls = calls, ml_overrides = [], ml_result = ''rejected:merge:'' @ res, ml_passed = False, ml_pr = False\<rparr>"

definition merge_step ::
    "float_ops \<Rightarrow> lookup \<Rightarrow> review_cfg \<Rightarrow> pyfloat \<Rightarrow> string \<Rightarrow> human \<Rightarrow> merge_input \<Rightarrow> merge_result list \<Rightarrow> string list \<Rightarrow> merge_log" where
  "merge_step ops lookup cfg threshold merge_model gate inp results untraced =
     (let checks = merge_checks ops threshold inp results untraced;
          r = evaluate_quality_gate checks None;
          blocked = blocking_of ABSOLUTE r;
          c = merge_call cfg r
      in if blocked \<noteq> [] then merge_rejected r [] (''absolute-gate-failed:'' @ str_join '','' blocked)
         else if \<not> gr_passed r
         then (let d = gate c in
               if \<not> approved d then merge_rejected r [c] ''advisory''
               else let os = merge_overrides d (blocking_of ADVISORY r)
                    in merge_done cfg inp (evaluate_quality_gate checks (Some os)) [c] os)
         else if gc_policy (case rv_gates cfg ''merge'' of None \<Rightarrow> default_gate_config | Some g \<Rightarrow> g) = SOFT
         then (if soft_auto ops lookup cfg merge_model inp = None
               then (if \<not> approved (gate c) then merge_rejected r [c] ''soft-verdict'' else merge_done cfg inp r [c] [])
               else merge_done cfg inp r [] [])
         else merge_done cfg inp r [] [])"

end
