(* ===== verification/Review_Properties.thy ===== *)
theory Review_Properties
  imports Gate_Review
begin

text \<open>
  What a review guarantees: it is bounded and never asks under a key it has used, an approval without
  a human is earned, the gate of a graph decides as the loop of the workflow does, and only an
  approval moves the board.
\<close>

section \<open>The loop\<close>

lemma round_call_sel [simp]:
  "gl_name (round_call ops lookup cfg name author rnd a) = name" "gl_round (round_call ops lookup cfg name author rnd a) = rnd"
  "gl_settings (round_call ops lookup cfg name author rnd a) = gate_settings_of cfg"
  "gl_auto_decision (round_call ops lookup cfg name author rnd a) = round_auto ops lookup cfg name author (pr_confidence a)"
  by (simp_all add: round_call_def)

lemma final_call_sel [simp]:
  "gl_name (final_call cfg name author rnd a) = name" "gl_round (final_call cfg name author rnd a) = rnd"
  "gl_settings (final_call cfg name author rnd a) = gate_settings_of cfg" "gl_auto_decision (final_call cfg name author rnd a) = None"
  by (simp_all add: final_call_def)

text \<open>The calls of the loop: numbered from the next round on, all but the last answered with revise.\<close>

definition calls_ok :: "review_cfg \<Rightarrow> string \<Rightarrow> human \<Rightarrow> nat \<Rightarrow> int \<Rightarrow> review \<Rightarrow> bool" where
  "calls_ok cfg name gate k rnd r \<longleftrightarrow>
     re_calls r \<noteq> [] \<and> length (re_calls r) \<le> Suc k \<and>
     map gl_round (re_calls r) = map (\<lambda>i. rnd + int i) [0..<length (re_calls r)] \<and>
     (\<forall>c \<in> set (re_calls r). gl_name c = name \<and> gl_settings c = gate_settings_of cfg) \<and>
     re_decision r = gate (last (re_calls r)) \<and> (\<forall>c \<in> set (butlast (re_calls r)). gd_outcome (gate c) = REVISE) \<and>
     (gd_outcome (re_decision r) = REVISE \<longrightarrow> length (re_calls r) = Suc k)"

lemma calls_ok_one:
  "gl_name c = name \<Longrightarrow> gl_settings c = gate_settings_of cfg \<Longrightarrow> gl_round c = rnd \<Longrightarrow> gd_outcome (gate c) \<noteq> REVISE \<or> k = 0 \<Longrightarrow>
   calls_ok cfg name gate k rnd \<lparr>re_artifact = a, re_decision = gate c, re_calls = [c], re_guidance = gs\<rparr>"
  by (auto simp: calls_ok_def)

lemma calls_ok_cons:
  assumes "calls_ok cfg name gate k (rnd + 1) r" "gl_name c = name" "gl_settings c = gate_settings_of cfg" "gl_round c = rnd"
    "gd_outcome (gate c) = REVISE"
  shows "calls_ok cfg name gate (Suc k) rnd (r\<lparr>re_calls := c # re_calls r, re_guidance := gs\<rparr>)"
proof -
  have "map (\<lambda>i. rnd + int i) [0..<Suc (length (re_calls r))] = rnd # map (\<lambda>i. rnd + 1 + int i) [0..<length (re_calls r)]"
    by (simp add: upt_conv_Cons map_Suc_upt [symmetric] del: upt_Suc)
  then show ?thesis using assms by (simp add: calls_ok_def del: upt_Suc)
qed

lemma review_calls_ok:
  assumes "rnd + int k = rv_max_gate_rounds cfg + 1"
  shows "calls_ok cfg name gate k rnd (review_rounds ops lookup cfg name author run gate k rnd g)"
  using assms
proof (induction k arbitrary: rnd g)
  case 0
  then show ?case by (simp add: Let_def calls_ok_one)
next
  case (Suc k)
  let ?a = "run rnd g"
  let ?c = "round_call ops lookup cfg name author rnd ?a"
  show ?case
  proof (cases "gd_outcome (gate ?c) = REVISE")
    case True
    have "rnd + 1 + int k = rv_max_gate_rounds cfg + 1" using Suc.prems by simp
    from calls_ok_cons [OF Suc.IH [OF this] _ _ _ True] show ?thesis by (simp add: Let_def True)
  next
    case False
    then show ?thesis by (simp add: Let_def calls_ok_one)
  qed
qed

text \<open>Every call of the loop is one of the two, the one of the last round without an automatic decision.\<close>

lemma review_call_cases:
  assumes "c \<in> set (re_calls (review_rounds ops lookup cfg name author run gate k rnd g))"
  shows "(\<exists>r a. c = round_call ops lookup cfg name author r a) \<or> (\<exists>a. c = final_call cfg name author (rv_max_gate_rounds cfg + 1) a)"
  using assms
proof (induction k arbitrary: rnd g)
  case (Suc k)
  then show ?case by (auto simp: Let_def split: if_splits)
qed (auto simp: Let_def)

section \<open>The gate handler\<close>

lemma finish_types: "typ \<in> {''gate.architecture'', ''gate.plan''} \<Longrightarrow> \<exists>fin. dict_get GATE_FINISH typ = Some fin"
  by (auto simp: GATE_FINISH_def)

lemma py_or_None: "py_or x None = (if x = Some [] then None else x)"
  by (cases x) (auto simp: py_or_def)

definition agrees :: "gate_run \<Rightarrow> string \<Rightarrow> review \<Rightarrow> bool" where
  "agrees g typ r \<longleftrightarrow>
     gn_decision g = re_decision r \<and>
     (nd_port (gn_result g) = (if approved (re_decision r) then ''approve'' else ''reject'')) \<and>
     (approved (re_decision r) \<longrightarrow> nd_payload (gn_result g) = ModelPayload (MProposal (re_artifact r))) \<and>
     (\<exists>fin. dict_get GATE_FINISH typ = Some fin \<and> gn_finish g = Some (gf_finish fin, re_artifact r, re_decision r) \<and>
        gn_publish g = Some \<lparr>pb_key = gf_board_key fin, pb_content = pr_json (re_artifact r),
          pb_approved = approved (re_decision r), pb_sets_plan_version = gf_sets_plan_version fin\<rparr>)"

lemma agrees_cong: "agrees g typ (r\<lparr>re_calls := cs, re_guidance := gs\<rparr>) = agrees g typ r"
  by (simp add: agrees_def)

lemma gate_node_settled:
  assumes "typ \<in> {''gate.architecture'', ''gate.plan''}"
    and "c = (if ''revise'' \<in> set un then final_call cfg name author rnd a else round_call ops lookup cfg name author rnd a)"
    and "gd_outcome (gate c) \<noteq> REVISE \<or> ''revise'' \<in> set un"
  shows "\<exists>g. gate_node ops lookup cfg gate (\<lambda>_. True) name typ un rnd a (Some author) = Inr g \<and> gn_call g = c \<and>
    (\<forall>d. nd_payload (gn_result g) \<noteq> ModelPayload (MDecision d)) \<and>
    agrees g typ \<lparr>re_artifact = a, re_decision = gate c, re_calls = cs, re_guidance = gs\<rparr>"
proof -
  obtain fin where fin: "dict_get GATE_FINISH typ = Some fin" using finish_types [OF assms(1)] by blast
  have "\<not> (gd_outcome (gate c) = REVISE \<and> ''revise'' \<notin> set un)" using assms(3) by blast
  then show ?thesis
    by (simp add: gate_node_def Let_def assms(2) [symmetric] fin agrees_def mk_result_def approved_def)
qed

lemma gate_node_revise:
  assumes "''revise'' \<notin> set un" "c = round_call ops lookup cfg name author rnd a" "gd_outcome (gate c) = REVISE"
  shows "\<exists>g. gate_node ops lookup cfg gate (\<lambda>_. True) name typ un rnd a (Some author) = Inr g \<and> gn_call g = c \<and>
    nd_payload (gn_result g) = ModelPayload (MDecision (gate c))"
  using assms by (simp add: gate_node_def Let_def mk_result_def)

declare graph_rounds.simps [simp del]

lemma graph_rounds_agree:
  assumes "rnd + int k = rv_max_gate_rounds cfg + 1" "typ \<in> {''gate.architecture'', ''gate.plan''}"
    and "\<And>r. run r (Some []) = run r None" "\<And>r. run r (guidance_text m) = run r g"
  shows "\<exists>gr. graph_rounds ops lookup cfg name typ author run gate k rnd m =
      Inr (gr, re_calls (review_rounds ops lookup cfg name author run gate k rnd g)) \<and>
    agrees gr typ (review_rounds ops lookup cfg name author run gate k rnd g)"
  using assms(1,4)
proof (induction k arbitrary: rnd m g)
  case 0
  let ?c = "final_call cfg name author rnd (run rnd g)"
  from gate_node_settled [OF assms(2), of ?c "[''revise'']" cfg name author rnd "run rnd g" ops lookup gate "[?c]" "[g]"]
  obtain gr where gr: "gate_node ops lookup cfg gate (\<lambda>_. True) name typ [''revise''] rnd (run rnd g) (Some author) = Inr gr" "gn_call gr = ?c"
    "agrees gr typ \<lparr>re_artifact = run rnd g, re_decision = gate ?c, re_calls = [?c], re_guidance = [g]\<rparr>" by auto
  have "rv_max_gate_rounds cfg + 1 = rnd" using 0 by simp
  then show ?case using gr 0 by (simp add: graph_rounds.simps [of _ _ _ _ _ _ _ _ 0] Let_def)
next
  case (Suc k)
  let ?a = "run rnd g"
  let ?c = "round_call ops lookup cfg name author rnd ?a"
  show ?case
  proof (cases "gd_outcome (gate ?c) = REVISE")
    case False
    from gate_node_settled [OF assms(2), of ?c "[]" cfg name author rnd ?a ops lookup gate "[?c]" "[g]"] False
    obtain gr where gr: "gate_node ops lookup cfg gate (\<lambda>_. True) name typ [] rnd ?a (Some author) = Inr gr" "gn_call gr = ?c"
      "\<forall>d. nd_payload (gn_result gr) \<noteq> ModelPayload (MDecision d)"
      "agrees gr typ \<lparr>re_artifact = ?a, re_decision = gate ?c, re_calls = [?c], re_guidance = [g]\<rparr>" by auto
    then show ?thesis using Suc.prems(2) False
      by (auto simp: graph_rounds.simps [of _ _ _ _ _ _ _ _ "Suc k"] Let_def split: payload.splits gate_model.splits)
  next
    case True
    let ?d = "gate ?c"
    let ?g' = "py_or (gd_guidance (gate ?c)) (gd_comments (gate ?c))"
    from gate_node_revise [of "[]" "?c" ops lookup cfg name author rnd "?a" gate "typ"] True
    obtain gr where gr: "gate_node ops lookup cfg gate (\<lambda>_. True) name typ [] rnd ?a (Some author) = Inr gr" "gn_call gr = ?c"
      "nd_payload (gn_result gr) = ModelPayload (MDecision ?d)" by auto
    have rnd: "rnd + 1 + int k = rv_max_gate_rounds cfg + 1" using Suc.prems(1) by simp
    have "run r (guidance_text (Some (MDecision ?d))) = run r ?g'" for r
      using assms(3) by (simp add: guidance_text_def py_or_None)
    from Suc.IH [OF rnd this] obtain gr' where
      "graph_rounds ops lookup cfg name typ author run gate k (rnd + 1) (Some (MDecision ?d)) =
         Inr (gr', re_calls (review_rounds ops lookup cfg name author run gate k (rnd + 1) ?g'))"
      "agrees gr' typ (review_rounds ops lookup cfg name author run gate k (rnd + 1) ?g')" by blast
    then show ?thesis using gr Suc.prems(2) True
      by (auto simp: graph_rounds.simps [of _ _ _ _ _ _ _ _ "Suc k"] Let_def agrees_cong)
  qed
qed

section \<open>The board behind the gate\<close>

definition current :: "board \<Rightarrow> string \<Rightarrow> string \<Rightarrow> nat option" where
  "current b project key = (case find_artifact project key b of None \<Rightarrow> None | Some a \<Rightarrow> ba_current_version a)"

lemma find_artifact_cong: "bd_artifacts b = bd_artifacts b' \<Longrightarrow> find_artifact p k b = find_artifact p k b'"
  by (simp add: find_artifact_def)

lemma find_snoc_cases: "find P (xs @ [x]) = (case find P xs of None \<Rightarrow> if P x then Some x else None | Some y \<Rightarrow> Some y)"
  by (induction xs) auto

lemma current_upsert:
  "current (upsert_artifact p k st i b) q j = (if q = p \<and> j = k \<and> st = CURRENT then Some i else current b q j)"
proof (cases "find_artifact p k b")
  case None
  then show ?thesis
    by (auto simp: current_def upsert_artifact_def find_artifact_def find_snoc_cases split: option.splits)
next
  case (Some a)
  let ?f = "\<lambda>a. if ba_project a = p \<and> ba_key a = k then a\<lparr>ba_current_version := Some i, ba_status := CURRENT\<rparr> else a"
  have f: "find (\<lambda>a. ba_project a = q \<and> ba_key a = j) (map ?f xs) = map_option ?f (find (\<lambda>a. ba_project a = q \<and> ba_key a = j) xs)"
    for xs by (induction xs) auto
  show ?thesis
  proof (cases "st = CURRENT")
    case True
    have "find_artifact q j (upsert_artifact p k st i b) = map_option ?f (find_artifact q j b)"
      using Some True f by (simp add: upsert_artifact_def find_artifact_def)
    moreover have "ba_project x = q \<and> ba_key x = j" if "find_artifact q j b = Some x" for x
      using find_artifact_mem [OF that] by simp
    ultimately show ?thesis using Some True by (auto simp: current_def split: option.splits)
  qed (simp add: Some upsert_artifact_def)
qed

lemma publish_current:
  assumes "publish_artifact_version env now p k run c st actor b = (r, b')"
  shows "current b' q j = current b q j \<or> (st = CURRENT \<and> q = p \<and> j = k \<and> current b' q j = Some (snd r))"
    and "st = CURRENT \<Longrightarrow> find (\<lambda>v. at_key p k v \<and> av_run_id v = run \<and> av_sha256 v = en_sha256 env c) (bd_versions b) = None \<Longrightarrow>
      current b' p k = Some (snd r)"
  using assms
proof (atomize (full), cases rule: publish_cases)
  case (appended v)
  have "current b' q' j' = current (upsert_artifact p k st (av_id v) b) q' j'" for q' j'
    using find_artifact_cong [OF appended(12)] by (simp add: current_def)
  then show "(current b' q j = current b q j \<or> st = CURRENT \<and> q = p \<and> j = k \<and> current b' q j = Some (snd r)) \<and>
      (st = CURRENT \<longrightarrow> find (\<lambda>v. at_key p k v \<and> av_run_id v = run \<and> av_sha256 v = en_sha256 env c) (bd_versions b) = None \<longrightarrow>
        current b' p k = Some (snd r))"
    unfolding current_upsert appended(7) by auto
qed auto

section \<open>Reviews, concretely\<close>

definition demo_cfg :: review_cfg where
  "demo_cfg = \<lparr>rv_gates = demo_gates, rv_default_gate_policy = HARD, rv_gate_timeout_hours = 48, rv_max_gate_rounds = 2,
     rv_case_id = None, rv_project_key = ''kroker''\<rparr>"

definition demo_lookup :: lookup where
  "demo_lookup g b = Some (ledger_verdict demo_floats g b demo_ledger)"

text \<open>A producer that reports its confidence once it was given guidance, and a human who asks twice.\<close>

definition demo_producer :: producer where
  "demo_producer rnd guidance =
     \<lparr>pr_summary = None, pr_overview = None, pr_type_name = ''ImplementationPlan'',
      pr_confidence = (if guidance = None \<or> guidance = Some [] then None else Some ''0.9''), pr_json = ''plan'' @ int_str rnd\<rparr>"

definition demo_human :: human where
  "demo_human c = (mk_decision c (if gl_round c \<le> 2 then REVISE else APPROVE) ByHuman None)\<lparr>gd_guidance := Some ''smaller tasks''\<rparr>"

definition demo_review :: review where
  "demo_review = revisable_stage demo_floats demo_lookup demo_cfg ''plan'' ''m'' demo_producer demo_human"

lemma demo_review_calls: "map gl_round (re_calls demo_review) = [1, 2, 3] \<and> map (Option.is_none \<circ> gl_auto_decision) (re_calls demo_review) = [True, False, True]"
  by code_simp

section \<open>Properties\<close>

text \<open>A review is bounded and its questions are fresh. At most max_gate_rounds + 1 gates are opened,
  numbered from one without a gap, so no two share a key and none can be answered by an earlier
  decision; all but the last were answered with revise, and the decision returned is the last
  answer, which is revise only when the rounds are used up.\<close>

lemma review_bounded:
  assumes "0 \<le> rv_max_gate_rounds cfg"
  shows "let r = revisable_stage ops lookup cfg name author run gate in
    1 \<le> length (re_calls r) \<and> int (length (re_calls r)) \<le> rv_max_gate_rounds cfg + 1 \<and>
    map gl_round (re_calls r) = map int [1..<Suc (length (re_calls r))] \<and> distinct (map call_key (re_calls r)) \<and>
    re_decision r = gate (last (re_calls r)) \<and> (\<forall>c \<in> set (butlast (re_calls r)). gd_outcome (gate c) = REVISE) \<and>
    (gd_outcome (re_decision r) = REVISE \<longrightarrow> int (length (re_calls r)) = rv_max_gate_rounds cfg + 1)"
proof -
  let ?r = "revisable_stage ops lookup cfg name author run gate"
  have ok: "calls_ok cfg name gate (nat (rv_max_gate_rounds cfg)) 1 ?r"
    unfolding revisable_stage_def by (rule review_calls_ok) (use assms in simp)
  note c = ok [unfolded calls_ok_def]
  have rounds: "map gl_round (re_calls ?r) = map int [1..<Suc (length (re_calls ?r))]"
    using c by (simp add: map_Suc_upt [symmetric] del: upt_Suc)
  have "map call_key (re_calls ?r) = map (gate_key name \<circ> int) [1..<Suc (length (re_calls ?r))]"
  proof -
    have names: "gl_name x = name" if "x \<in> set (re_calls ?r)" for x using c that by blast
    have "map call_key (re_calls ?r) = map (\<lambda>x. gate_key name (gl_round x)) (re_calls ?r)"
      by (rule map_cong [OF refl]) (simp add: call_key_def names)
    then have "map call_key (re_calls ?r) = map (gate_key name) (map gl_round (re_calls ?r))" by (simp only: map_map comp_def)
    then show ?thesis unfolding rounds by (simp only: map_map)
  qed
  moreover have "distinct (map (gate_key name \<circ> int) [1..<Suc (length (re_calls ?r))])"
    by (simp add: distinct_map inj_on_def del: upt_Suc)
  ultimately have fresh: "distinct (map call_key (re_calls ?r))" by (simp only:)
  have "1 \<le> length (re_calls ?r)" using c by (cases "re_calls ?r") simp_all
  moreover have "int (length (re_calls ?r)) \<le> rv_max_gate_rounds cfg + 1" using c assms by linarith
  moreover have "int (length (re_calls ?r)) = rv_max_gate_rounds cfg + 1" if "gd_outcome (re_decision ?r) = REVISE"
    using c that assms by simp
  ultimately show ?thesis unfolding Let_def using c rounds fresh by blast
qed

text \<open>A review ends without a human only when that is earned. If a gate of a review returns at once,
  with the lookup reading the ledger, then its policy is off, or it is soft and the round is not the
  last one, the proposal reported a confidence not below the threshold, and the ledger holds at least
  twenty samples of this gate and this author from the population of the run.\<close>

lemma review_bypass_earned:
  assumes "c \<in> set (re_calls (revisable_stage ops (\<lambda>g b. Some (ledger_verdict ops g b l)) cfg name author run gate))"
    and "gate_enter now activation c h = (h', Inr (GDone d, ex))"
  shows "gc_policy (call_config c) = OFF \<or>
    (\<exists>gc conf. rv_gates cfg name = Some gc \<and> gc_policy gc = SOFT \<and> gl_confidence c = Some conf \<and>
       \<not> fl_lt ops conf (gc_threshold gc) \<and> gl_auto_decision c = Some d \<and>
       20 \<le> length (history name (bucket_key (Some author) (if rv_case_id cfg \<noteq> None then BENCHMARK else PRODUCTION_PROXY)) l))"
proof (rule disjCI)
  assume off: "\<not> (\<exists>gc conf. rv_gates cfg name = Some gc \<and> gc_policy gc = SOFT \<and> gl_confidence c = Some conf \<and>
       \<not> fl_lt ops conf (gc_threshold gc) \<and> gl_auto_decision c = Some d \<and>
       20 \<le> length (history name (bucket_key (Some author) (if rv_case_id cfg \<noteq> None then BENCHMARK else PRODUCTION_PROXY)) l))"
  show "gc_policy (call_config c) = OFF"
  proof (rule ccontr)
    assume pol: "gc_policy (call_config c) \<noteq> OFF"
    have auto: "gl_auto_decision c = Some d"
      using assms(2) pol by (auto simp: gate_enter_def gate_open_def Let_def split: gate_policy.splits option.splits if_splits sum.splits prod.splits)
    from review_call_cases [OF assms(1) [unfolded revisable_stage_def]] auto
    obtain r a where c: "c = round_call ops (\<lambda>g b. Some (ledger_verdict ops g b l)) cfg name author r a" by auto
    let ?b = "bucket_key (Some author) (if rv_case_id cfg \<noteq> None then BENCHMARK else PRODUCTION_PROXY)"
    have "auto_decision_for ops name (rv_gates cfg) (pr_confidence a) (ledger_verdict ops name ?b l) = Some d"
      using auto unfolding c round_call_sel round_auto_def calibration_of_def Let_def by (simp split: if_splits)
    from auto_approval_earned [OF this] off auto show False by (auto simp: c round_call_def)
  qed
qed

text \<open>C22: the gate of a graph is the review loop of the workflow. For a producer that treats empty guidance
  as none, the handler on a revise edge with max_gate_rounds traversals opens the same gates with the same arguments,
  returns the same decision, approves exactly when the loop does and then hands on the same artifact, and finishes and
  publishes with that verdict; anything but an approval leaves through reject.\<close>

theorem graph_gate_is_review_loop:
  assumes "0 \<le> rv_max_gate_rounds cfg" "typ \<in> {''gate.architecture'', ''gate.plan''}" "\<forall>r. run r (Some []) = run r None"
  shows "let r = revisable_stage ops lookup cfg name author run gate in
    \<exists>g. graph_rounds ops lookup cfg name typ author run gate (nat (rv_max_gate_rounds cfg)) 1 None = Inr (g, re_calls r) \<and>
      gn_decision g = re_decision r \<and>
      nd_port (gn_result g) = (if approved (re_decision r) then ''approve'' else ''reject'') \<and>
      (approved (re_decision r) \<longrightarrow> nd_payload (gn_result g) = ModelPayload (MProposal (re_artifact r))) \<and>
      (\<exists>p. gn_publish g = Some p \<and> pb_content p = pr_json (re_artifact r) \<and> pb_approved p = approved (re_decision r))"
proof -
  have "1 + int (nat (rv_max_gate_rounds cfg)) = rv_max_gate_rounds cfg + 1" using assms(1) by simp
  moreover have "run r (guidance_text None) = run r None" for r by (simp add: guidance_text_def)
  ultimately obtain g where g: "graph_rounds ops lookup cfg name typ author run gate (nat (rv_max_gate_rounds cfg)) 1 None =
      Inr (g, re_calls (revisable_stage ops lookup cfg name author run gate))"
    "agrees g typ (revisable_stage ops lookup cfg name author run gate)"
    using graph_rounds_agree [of 1 "nat (rv_max_gate_rounds cfg)" cfg "typ" run None None] assms(2,3)
    unfolding revisable_stage_def by metis
  from g(2) show ?thesis unfolding Let_def agrees_def by (intro exI [of _ g] conjI g(1)) auto
qed

lemma graph_gate_is_review_loop_witness:
  "\<exists>g. graph_rounds demo_floats demo_lookup demo_cfg ''plan'' ''gate.plan'' ''m'' demo_producer demo_human 2 1 None = Inr (g, re_calls demo_review)"
proof -
  have "0 \<le> rv_max_gate_rounds demo_cfg" "nat (rv_max_gate_rounds demo_cfg) = 2" by (simp_all add: demo_cfg_def)
  moreover have "\<forall>r. demo_producer r (Some []) = demo_producer r None" by (simp add: demo_producer_def)
  ultimately show ?thesis
    using graph_gate_is_review_loop [of demo_cfg "''gate.plan''" demo_producer demo_floats demo_lookup "''plan''" "''m''" demo_human]
    by (auto simp: demo_review_def Let_def)
qed

text \<open>The board moves with the verdict. What a settled gate publishes never moves the pointer of any artifact
  unless the gate approved; an approval of content this run has not published before makes the new version
  current for the artifact of the gate, and only the gate of the plan sets the plan version of the host.\<close>

lemma gate_publishes_verdict:
  assumes "gate_node ops lookup cfg gate connected node_id node_type unavailable rnd a author = Inr g"
    and "gn_publish g = Some p" "finalize_gate env now cfg run_id p (pv, b) = (pv', b')"
  shows "(nd_port (gn_result g) = ''reject'' \<longrightarrow> (\<forall>q k. current b' q k = current b q k)) \<and>
    (nd_port (gn_result g) = ''approve'' \<longrightarrow>
       find (\<lambda>v. at_key (rv_project_key cfg) (pb_key p) v \<and> av_run_id v = run_id \<and> av_sha256 v = en_sha256 env (pr_json a)) (bd_versions b) = None \<longrightarrow>
       (\<exists>v. current b' (rv_project_key cfg) (pb_key p) = Some v \<and> (node_type = ''gate.plan'' \<longrightarrow> pv' = Some v))) \<and>
    (node_type = ''gate.architecture'' \<longrightarrow> pv' = pv)"
proof -
  obtain ref version b1 where pub: "publish_artifact_version env now (rv_project_key cfg) (pb_key p) run_id (pb_content p)
      (if pb_approved p then CURRENT else REJECTED) (''workflow:'' @ run_id) b = ((ref, version), b1)"
    by (metis prod.collapse)
  have fin: "b' = b1" "pv' = (if pb_sets_plan_version p then Some version else pv)"
    using assms(3) [unfolded finalize_gate_def board_publish_def snd_conv fst_conv pub prod.case] by auto
  have node: "nd_port (gn_result g) = (if pb_approved p then ''approve'' else ''reject'')" "pb_content p = pr_json a"
    "node_type = ''gate.plan'' \<Longrightarrow> pb_sets_plan_version p" "node_type = ''gate.architecture'' \<Longrightarrow> \<not> pb_sets_plan_version p"
    using assms(1,2) by (auto simp: gate_node_def Let_def mk_result_def approved_def GATE_FINISH_def split: if_splits option.splits)
  note cur = publish_current [OF pub]
  have "current b' q k = current b q k" if "nd_port (gn_result g) = ''reject''" for q k
    using cur(1) [of q k] that node(1) unfolding fin(1) by (simp split: if_splits)
  moreover have "current b' (rv_project_key cfg) (pb_key p) = Some version"
    if "nd_port (gn_result g) = ''approve''"
      "find (\<lambda>v. at_key (rv_project_key cfg) (pb_key p) v \<and> av_run_id v = run_id \<and> av_sha256 v = en_sha256 env (pr_json a)) (bd_versions b) = None"
    using cur(2) that node(1,2) unfolding fin(1) by (simp split: if_splits)
  ultimately show ?thesis using fin(2) node(3,4) by auto
qed

text \<open>
  The automatic rule reads a gate the configuration does not name as hard, the gate itself as the default
  policy: with a soft default such a gate is soft and never approved automatically.
\<close>

lemma unnamed_gate_never_auto:
  "rv_gates cfg name = None \<Longrightarrow> rv_default_gate_policy cfg = SOFT \<Longrightarrow>
   gc_policy (call_config (round_call ops lookup cfg name author rnd a)) = SOFT \<and>
   gl_auto_decision (round_call ops lookup cfg name author rnd a) = None"
  by (simp add: call_config_def round_call_def gate_settings_of_def round_auto_def default_gate_config_def)

end
