(* ===== verification/Merge_Properties.thy ===== *)
theory Merge_Properties
  imports Merge_Stage Review_Properties
begin

text \<open>
  What the merge stage guarantees: it hands every required check to the quality gate, no pull request
  is opened over a failed absolute check or without evidence, a failed advisory check needs an approval of the
  gate, and under a soft policy the gate is always asked.
\<close>

section \<open>The checks\<close>

lemma build_check_sel [simp]:
  "ck_name (build_check n p c d) = n" "ck_passed (build_check n p c d) = p"
  "ck_class (build_check n p c d) = (if n \<in> set ABSOLUTE_FLOOR then ABSOLUTE else c)"
  by (simp_all add: build_check_def)

definition merge_shape :: "(string \<times> check_class) list" where
  "merge_shape = [
     (''build_integration_green'', ABSOLUTE), (''lint_clean'', ABSOLUTE), (''security_scan_collected'', ABSOLUTE),
     (''security_no_critical'', ABSOLUTE), (''review_severity'', ADVISORY), (''traceability'', ADVISORY),
     (''coverage'', ADVISORY), (''plan_drift'', ADVISORY), (''review_lenses_present'', ADVISORY)]"

lemma merge_checks_shape:
  "map (\<lambda>c. (ck_name c, ck_class c)) (merge_checks ops threshold inp results untraced) = merge_shape"
  by (simp add: merge_checks_def merge_shape_def absolute_checks_def security_checks_def tests_check_def lint_check_def
      plan_drift_check_def lens_presence_check_def ABSOLUTE_FLOOR_def Let_def split: option.splits)

lemma shape_names: "map ck_name cs = map fst merge_shape" if "map (\<lambda>c. (ck_name c, ck_class c)) cs = merge_shape"
  using arg_cong [OF that, of "map fst"] by (simp add: comp_def)

lemma shape_distinct: "distinct (map fst merge_shape)"
  by (simp add: merge_shape_def)

lemma shape_class: "c \<in> set cs \<Longrightarrow> map (\<lambda>c. (ck_name c, ck_class c)) cs = merge_shape \<Longrightarrow> (ck_name c, ck_class c) \<in> set merge_shape"
  by (metis (no_types, lifting) image_eqI set_map)

lemma normalized_shape:
  assumes "map (\<lambda>c. (ck_name c, ck_class c)) cs = merge_shape"
  shows "normalized cs = cs"
proof -
  have "(if ck_name c \<in> set ABSOLUTE_FLOOR then build_check (ck_name c) (ck_passed c) (ck_class c) (ck_detail c) else c) = c"
    if "c \<in> set cs" for c
  proof -
    have "ck_name c \<in> set ABSOLUTE_FLOOR \<Longrightarrow> ck_class c = ABSOLUTE"
      using shape_class [OF that assms] by (auto simp: merge_shape_def ABSOLUTE_FLOOR_def)
    then show ?thesis by (simp add: build_check_def)
  qed
  then show ?thesis by (simp add: normalized_def map_idI)
qed

lemma synthesized_shape: "synthesized (set (map fst merge_shape)) = []"
  by (simp add: synthesized_def MERGE_REQUIRED_CHECKS_def merge_shape_def)

lemma report_checks:
  assumes "map (\<lambda>c. (ck_name c, ck_class c)) cs = merge_shape"
  shows "gr_checks (evaluate_quality_gate cs os) = cs"
  unfolding evaluate_sel(1) shape_names [OF assms] synthesized_shape normalized_shape [OF assms] by simp

lemma report_blocking:
  assumes "map (\<lambda>c. (ck_name c, ck_class c)) cs = merge_shape"
  shows "gr_blocking (evaluate_quality_gate cs None) = map ck_name (filter (\<lambda>c. \<not> ck_passed c) cs)"
proof -
  have "blocks {} = (\<lambda>c. \<not> ck_passed c)" by (simp add: fun_eq_iff blocks_def)
  then show ?thesis unfolding evaluate_sel(2) report_checks [OF assms] by (simp add: override_set_def)
qed

lemma report_passed:
  assumes "map (\<lambda>c. (ck_name c, ck_class c)) cs = merge_shape"
  shows "gr_passed (evaluate_quality_gate cs os) \<longleftrightarrow>
    (\<forall>c \<in> set cs. \<not> ck_passed c \<longrightarrow> ck_class c = ADVISORY \<and> ck_name c \<in> override_set os)"
proof -
  have "(\<not> blocks ov c) = (\<not> ck_passed c \<longrightarrow> ck_class c = ADVISORY \<and> ck_name c \<in> ov)" for ov c
    by (cases "ck_class c") (auto simp: blocks_def)
  then show ?thesis
    unfolding evaluate_sel(4) evaluate_sel(2) report_checks [OF assms] by (simp add: filter_empty_conv)
qed

lemma blocking_of_shape:
  assumes "map (\<lambda>c. (ck_name c, ck_class c)) cs = merge_shape"
  shows "blocking_of cls (evaluate_quality_gate cs None) = map ck_name (filter (\<lambda>c. \<not> ck_passed c \<and> ck_class c = cls) cs)"
proof -
  have inj: "inj_on ck_name (set cs)"
    using shape_distinct unfolding shape_names [OF assms, symmetric] by (simp add: distinct_map)
  have "ck_name c \<in> set (map ck_name (filter (\<lambda>c. \<not> ck_passed c) cs)) \<longleftrightarrow> \<not> ck_passed c" if "c \<in> set cs" for c
    using inj_onD [OF inj _ _ that] that by auto
  then show ?thesis
    unfolding blocking_of_def report_checks [OF assms] report_blocking [OF assms]
    by (intro arg_cong [of _ _ "map ck_name"] filter_cong refl) blast
qed

section \<open>The verdict\<close>

definition soft_merge :: "review_cfg \<Rightarrow> bool" where
  "soft_merge cfg \<longleftrightarrow> gc_policy (case rv_gates cfg ''merge'' of None \<Rightarrow> default_gate_config | Some g \<Rightarrow> g) = SOFT"

lemma merge_done_sel [simp]:
  "ml_passed (merge_done cfg inp r calls os)" "ml_report (merge_done cfg inp r calls os) = r"
  "ml_calls (merge_done cfg inp r calls os) = calls" "ml_overrides (merge_done cfg inp r calls os) = os"
  by (simp_all add: merge_done_def)

lemma merge_rejected_sel [simp]: "\<not> ml_passed (merge_rejected r calls res)" "\<not> ml_pr (merge_rejected r calls res)"
  by (simp_all add: merge_rejected_def)

lemma ml_pr_passed: "ml_pr (merge_step ops lookup cfg threshold mm gate inp results untraced) \<Longrightarrow>
    ml_passed (merge_step ops lookup cfg threshold mm gate inp results untraced) \<and> rv_case_id cfg = None"
  by (auto simp: merge_step_def Let_def merge_done_def merge_rejected_def split: if_splits)

lemma merge_step_cases:
  fixes ops threshold inp results untraced
  defines "cs \<equiv> merge_checks ops threshold inp results untraced"
  assumes "ml_passed (merge_step ops lookup cfg threshold mm gate inp results untraced)"
  obtains (overridden) d where "\<forall>c \<in> set cs. \<not> ck_passed c \<longrightarrow> ck_class c = ADVISORY"
      "d = gate (merge_call cfg (evaluate_quality_gate cs None))" "approved d" "\<exists>c \<in> set cs. \<not> ck_passed c"
      "merge_step ops lookup cfg threshold mm gate inp results untraced =
         (let os = merge_overrides d (map ck_name (filter (\<lambda>c. \<not> ck_passed c) cs)) in
          merge_done cfg inp (evaluate_quality_gate cs (Some os)) [merge_call cfg (evaluate_quality_gate cs None)] os)"
  | (clean) calls where "\<forall>c \<in> set cs. ck_passed c"
      "merge_step ops lookup cfg threshold mm gate inp results untraced = merge_done cfg inp (evaluate_quality_gate cs None) calls []"
      "calls = (if soft_merge cfg \<and> soft_auto ops lookup cfg mm inp = None then [merge_call cfg (evaluate_quality_gate cs None)] else [])"
      "\<forall>c \<in> set calls. approved (gate c)"
proof -
  have shape: "map (\<lambda>c. (ck_name c, ck_class c)) cs = merge_shape" unfolding cs_def by (rule merge_checks_shape)
  let ?r = "evaluate_quality_gate cs None"
  let ?m = "merge_step ops lookup cfg threshold mm gate inp results untraced"
  note step = merge_step_def [of ops lookup cfg threshold mm gate inp results untraced, folded cs_def, unfolded Let_def]
  have abs: "blocking_of ABSOLUTE ?r = []" using assms(2) unfolding step by (auto split: if_splits)
  then have adv: "\<forall>c \<in> set cs. \<not> ck_passed c \<longrightarrow> ck_class c = ADVISORY"
    unfolding blocking_of_shape [OF shape] filter_empty_conv map_is_Nil_conv by (metis check_class.exhaust)
  show thesis
  proof (cases "gr_passed ?r")
    case True
    then have all: "\<forall>c \<in> set cs. ck_passed c" unfolding report_passed [OF shape] by (auto simp: override_set_def)
    show thesis
      by (rule clean [OF all]) (use assms(2) abs True in \<open>auto simp: step soft_merge_def split: if_splits\<close>)
  next
    case False
    then have ok: "approved (gate (merge_call cfg ?r))" using assms(2) abs unfolding step by (auto split: if_splits)
    have some: "\<exists>c \<in> set cs. \<not> ck_passed c" using False unfolding report_passed [OF shape] by auto
    have names: "blocking_of ADVISORY ?r = map ck_name (filter (\<lambda>c. \<not> ck_passed c) cs)"
      unfolding blocking_of_shape [OF shape] using adv by (metis (mono_tags, lifting) filter_cong)
    show thesis by (rule overridden [OF adv refl ok some]) (simp add: step abs False ok names Let_def)
  qed
qed

lemma override_set_merge [simp]: "override_set (Some (merge_overrides d names)) = set names"
  by (simp add: override_set_def merge_overrides_def comp_def)

section \<open>A merge, concretely\<close>

definition demo_merge :: "bool \<Rightarrow> merge_input" where
  "demo_merge covered = \<lparr>mi_toolchain = Some ''python'',
     mi_tests = Some \<lparr>st_state = MEASURED, st_reason = [], st_introduced = [], st_preexisting = [''old''], st_preexisting_flaky = []\<rparr>,
     mi_lint = Some \<lparr>sl_state = MEASURED, sl_reason = [], sl_introduced = [], sl_preexisting = 2, sl_resolved = 0,
       sl_policy_paths_changed = [], sl_suppressions_added = 0\<rparr>,
     mi_lint_run = (False, []), mi_coverage = \<lparr>me_state = MEASURED, me_value = Some (if covered then ''90.0'' else ''10.0''), me_reason = []\<rparr>,
     mi_security = Some \<lparr>ss_state = MEASURED, ss_reason = [], ss_introduced = [], ss_preexisting = 1, ss_resolved = 0\<rparr>,
     mi_verdict_approve = True, mi_verdict_confidence = ''1.0'', mi_pr_url = ''pr/1''\<rparr>"

definition demo_results :: "merge_result list" where
  "demo_results = [\<lparr>mt_task_id = ''t1'', mt_tests_passed = Some True,
     mt_lens_outcomes = [\<lparr>lo_lens = ''reviewer'', lo_presence = PRESENT, lo_approved = Some True, lo_has_blocking_findings = False, lo_reason = []\<rparr>,
       absent_lens ''adversary'' DECLARED_ABSENT ''off''], mt_plan_drift = None\<rparr>]"

definition merge_cfg :: "gate_policy \<Rightarrow> review_cfg" where
  "merge_cfg p = demo_cfg\<lparr>rv_gates := [''merge'' \<mapsto> default_gate_config\<lparr>gc_policy := p\<rparr>]\<rparr>"

definition demo_step :: "gate_policy \<Rightarrow> bool \<Rightarrow> merge_log" where
  "demo_step p covered =
     merge_step demo_floats demo_lookup (merge_cfg p) ''80.0'' ''m'' (\<lambda>c. mk_decision c APPROVE ByHuman None) (demo_merge covered) demo_results []"

lemma demo_step_runs:
  "ml_pr (demo_step HARD False) \<and> map ov_check (ml_overrides (demo_step HARD False)) = [''coverage'']"
  "ml_pr (demo_step HARD True) \<and> ml_overrides (demo_step HARD True) = []"
  "ml_pr (demo_step SOFT True) \<and> length (ml_calls (demo_step SOFT True)) = 1"
  by code_simp+

section \<open>Properties\<close>

text \<open>C20: the merge stage fails closed. It passes only when no absolute check failed; if an advisory check
  failed, the gate approved and every failed check is named by an audited override; otherwise no
  override is recorded. The report it ends with passes, and a pull request is opened only then.\<close>

theorem merge_fails_closed:
  fixes ops lookup cfg threshold mm gate inp results untraced
  defines "m \<equiv> merge_step ops lookup cfg threshold mm gate inp results untraced"
    and "cs \<equiv> merge_checks ops threshold inp results untraced"
  assumes "ml_passed m \<or> ml_pr m"
  shows "ml_passed m \<and> gr_passed (ml_report m) \<and> gr_checks (ml_report m) = cs \<and>
    (\<forall>c \<in> set cs. ck_class c = ABSOLUTE \<longrightarrow> ck_passed c) \<and>
    ((\<exists>c \<in> set cs. \<not> ck_passed c) \<longrightarrow> approved (gate (merge_call cfg (evaluate_quality_gate cs None)))) \<and>
    set (map ov_check (ml_overrides m)) = set (map ck_name (filter (\<lambda>c. \<not> ck_passed c) cs))"
proof -
  have shape: "map (\<lambda>c. (ck_name c, ck_class c)) cs = merge_shape" unfolding cs_def by (rule merge_checks_shape)
  have p: "ml_passed m" using assms(3) ml_pr_passed unfolding m_def by blast
  from p [unfolded m_def] show ?thesis
  proof (cases rule: merge_step_cases)
    case (overridden d)
    note o = overridden [folded cs_def m_def]
    let ?names = "map ck_name (filter (\<lambda>c. \<not> ck_passed c) cs)"
    have m: "m = merge_done cfg inp (evaluate_quality_gate cs (Some (merge_overrides d ?names)))
        [merge_call cfg (evaluate_quality_gate cs None)] (merge_overrides d ?names)"
      using o(5) by (simp add: Let_def)
    have "gr_passed (ml_report m)" using o(1) by (auto simp: m report_passed [OF shape])
    moreover have "map ov_check (ml_overrides m) = ?names" by (simp add: m merge_overrides_def comp_def)
    ultimately show ?thesis using o(1-3) p by (auto simp: m report_checks [OF shape])
  next
    case (clean calls)
    note cl = clean [folded cs_def m_def]
    have m: "m = merge_done cfg inp (evaluate_quality_gate cs None) calls []" by (rule cl(2))
    have "gr_passed (ml_report m)" using cl(1) by (simp add: m report_passed [OF shape])
    then show ?thesis using cl(1) p by (auto simp: m report_checks [OF shape])
  qed
qed

lemma merge_fails_closed_witness:
  "set (map ov_check (ml_overrides (demo_step HARD False))) = {''coverage''} \<and> gr_passed (ml_report (demo_step HARD False))"
  using merge_fails_closed [of demo_floats demo_lookup "merge_cfg HARD" "''80.0''" "''m''" "\<lambda>c. mk_decision c APPROVE ByHuman None" "demo_merge False"
      demo_results "[]"] demo_step_runs(1) by (auto simp: demo_step_def)



text \<open>A soft merge asks a human. With the lookup reading a ledger that runs have built, a stage that passes under
  a soft policy has asked the merge gate once and the gate approved, however confident the verdict.\<close>

lemma soft_merge_asks:
  assumes "ledger_reach ops l" "gc_policy (case rv_gates cfg ''merge'' of None \<Rightarrow> default_gate_config | Some g \<Rightarrow> g) = SOFT"
    and "ml_passed (merge_step ops (\<lambda>g b. Some (ledger_verdict ops g b l)) cfg threshold mm gate inp results untraced)"
  shows "\<exists>c. ml_calls (merge_step ops (\<lambda>g b. Some (ledger_verdict ops g b l)) cfg threshold mm gate inp results untraced) = [c] \<and>
    gl_name c = ''merge'' \<and> gl_auto_decision c = None \<and> approved (gate c)"
proof -
  have "soft_auto ops (\<lambda>g b. Some (ledger_verdict ops g b l)) cfg mm inp = None"
    using unsampled_gate_never_auto [OF assms(1), of "''merge''"] by (simp add: soft_auto_def calibration_of_def Let_def)
  note none = this
  have "soft_merge cfg" using assms(2) by (simp add: soft_merge_def)
  note soft = this none
  from assms(3) show ?thesis
    by (cases rule: merge_step_cases) (use soft in \<open>simp_all add: Let_def merge_call_def\<close>)
qed

text \<open>C24: an absent lens never reads as an approval. Every outcome the classifier produces satisfies the
  invariant of its class, an approval means that an enabled, configured and reached lens reported one, and
  the presence check of the merge gate passes exactly when every gating lens of every task has an outcome
  that is not an undeclared absence.\<close>

theorem lens_absence_never_approves:
  assumes "classify_lens lens enabled agent reached report = Inr o1"
  shows "facts_match_presence o1 = None \<and>
    (lo_approved o1 = Some True \<longrightarrow> enabled \<and> agent \<and> reached \<and> (\<exists>r. report = Some r \<and> rr_approve r)) \<and>
    (lo_presence o1 = UNDECLARED_ABSENT \<longleftrightarrow> enabled \<and> (\<not> agent \<or> reached \<and> report = None)) \<and>
    (ck_passed (lens_presence_check results) \<longleftrightarrow>
       (\<forall>r \<in> set results. \<forall>l \<in> {''reviewer'', ''adversary''}. \<exists>x. lens_recorded r l = Some x \<and> lo_presence x \<noteq> UNDECLARED_ABSENT))"
proof -
  have one: "facts_match_presence o1 = None" "lo_approved o1 = Some True \<longrightarrow> enabled \<and> agent \<and> reached \<and> (\<exists>r. report = Some r \<and> rr_approve r)"
    "lo_presence o1 = UNDECLARED_ABSENT \<longleftrightarrow> enabled \<and> (\<not> agent \<or> reached \<and> report = None)"
    using assms by (auto simp: classify_lens_def absent_lens_def facts_match_presence_def split: if_splits option.splits)
  have "List.map_filter f xs = [] \<longleftrightarrow> (\<forall>x \<in> set xs. f x = None)" for f :: "string \<Rightarrow> string option" and xs
    by (induction xs) (auto simp: List.map_filter_simps split: option.splits)
  then have "ck_passed (lens_presence_check results) \<longleftrightarrow> (\<forall>r \<in> set results. \<forall>l \<in> set GATING_LENSES. lens_failure r l = None)"
    by (simp add: lens_presence_check_def Let_def)
  moreover have "lens_failure r l = None \<longleftrightarrow> (\<exists>x. lens_recorded r l = Some x \<and> lo_presence x \<noteq> UNDECLARED_ABSENT)" for r l
    by (auto simp: lens_failure_def split: option.splits)
  ultimately show ?thesis using one by (simp add: GATING_LENSES_def)
qed

lemma lens_absence_never_approves_witness: "ck_passed (lens_presence_check demo_results)"
proof -
  have "classify_lens ''adversary'' False True True None = Inr (absent_lens ''adversary'' DECLARED_ABSENT ''adversary disabled by configuration'')"
    by (simp add: classify_lens_def)
  from lens_absence_never_approves [OF this, of demo_results] show ?thesis
    by (simp add: demo_results_def lens_recorded_def dict_of_def absent_lens_def)
qed

text \<open>
  The audit of an override: with the merge policy off, or after a timeout that approves, no human decides and the
  override is recorded as approved by one.
\<close>

lemma off_override_recorded_as_human:
  "let c = merge_call (merge_cfg OFF) r in
     (\<exists>h d. gate_enter 0 None c init_host = (h, Inr (GDone d, None)) \<and> approved d \<and> gd_decided_by d = ByPolicy \<and>
        map ov_approved_by (merge_overrides d [''coverage'']) = [''human''])"
  by (simp add: gate_enter_def merge_call_def call_config_def gate_settings_of_def merge_cfg_def demo_cfg_def approved_def mk_decision_def
      merge_overrides_def str_or_def Let_def)

end
