(* ===== verification/Role_Host.thy ===== *)
theory Role_Host
  imports Gate_Review
begin

text \<open>
  The spending, caching and questioning hosts of a workflow: \<open>workflows/role_host.py\<close>,
  \<open>workflows/report_host.py\<close>, \<open>observability/usage.py\<close>, \<open>memoization/cache.py\<close> (its keys),
  \<open>agents/roles.py\<close> (model resolution) and \<open>workflows/question_host.py\<close>. The model call, the price lookup,
  the cache files, SHA-256 and the arrival of answers are parameters.
\<close>

section \<open>Usage\<close>

record tokens =
  tk_input :: int
  tk_output :: int
  tk_cache_read :: int
  tk_cache_write :: int

definition add_tokens :: "tokens \<Rightarrow> tokens \<Rightarrow> tokens" where
  "add_tokens a b = \<lparr>tk_input = tk_input a + tk_input b, tk_output = tk_output a + tk_output b,
     tk_cache_read = tk_cache_read a + tk_cache_read b, tk_cache_write = tk_cache_write a + tk_cache_write b\<rparr>"

definition no_tokens :: tokens where
  "no_tokens = \<lparr>tk_input = 0, tk_output = 0, tk_cache_read = 0, tk_cache_write = 0\<rparr>"

record role_usage =
  ru_role :: string
  ru_model :: string
  ru_calls :: nat
  ru_tokens :: tokens
  ru_cost_usd :: "pyfloat option"

text \<open>\<open>x or 0.0\<close>.\<close>

definition or_zero :: "float_ops \<Rightarrow> pyfloat option \<Rightarrow> pyfloat" where
  "or_zero ops x = (case x of None \<Rightarrow> ''0.0'' | Some v \<Rightarrow> if fl_eq ops v ''0.0'' then ''0.0'' else v)"

definition add_cost :: "float_ops \<Rightarrow> pyfloat option \<Rightarrow> pyfloat option \<Rightarrow> pyfloat option" where
  "add_cost ops old cost = (case cost of None \<Rightarrow> old | Some c \<Rightarrow> Some (fl_add ops (or_zero ops old) c))"

definition merge_usage :: "float_ops \<Rightarrow> string \<Rightarrow> tokens \<Rightarrow> pyfloat option \<Rightarrow> role_usage \<Rightarrow> role_usage" where
  "merge_usage ops model t cost bag =
     bag\<lparr>ru_model := (if model = [] then ru_model bag else model), ru_calls := ru_calls bag + 1,
       ru_tokens := add_tokens (ru_tokens bag) t, ru_cost_usd := add_cost ops (ru_cost_usd bag) cost\<rparr>"

definition add_spend :: "float_ops \<Rightarrow> tokens \<Rightarrow> pyfloat option \<Rightarrow> role_usage \<Rightarrow> role_usage" where
  "add_spend ops t cost bag =
     bag\<lparr>ru_tokens := add_tokens (ru_tokens bag) t, ru_cost_usd := add_cost ops (ru_cost_usd bag) cost\<rparr>"

text \<open>
  A \<open>MODEL_USAGE\<close> event of the trace. Three places emit it: \<open>_track_usage\<close>, which names no stage and also
  counts the call in \<open>_role_usage\<close>, and the coding and the research stage, which only emit it.
\<close>

record usage_event =
  ue_stage :: "string option"
  ue_role :: string
  ue_calls :: nat
  ue_model :: string
  ue_tokens :: tokens
  ue_cost_usd :: "pyfloat option"

record spend_host =
  sh_role_usage :: "(string, role_usage) dict"
  sh_activation_spend :: "(string, pyfloat \<times> bool) dict"
  sh_unattributed_spend :: "pyfloat \<times> bool"
  sh_events :: "usage_event list"

definition init_spend :: spend_host where
  "init_spend = \<lparr>sh_role_usage = [], sh_activation_spend = [], sh_unattributed_spend = (''0.0'', True), sh_events = []\<rparr>"

definition fold_spend :: "float_ops \<Rightarrow> pyfloat option \<Rightarrow> pyfloat \<times> bool \<Rightarrow> pyfloat \<times> bool" where
  "fold_spend ops cost prior = (fl_add ops (fst prior) (or_zero ops cost), snd prior \<and> cost \<noteq> None)"

definition role_bag :: "string \<Rightarrow> string \<Rightarrow> spend_host \<Rightarrow> role_usage" where
  "role_bag role model h =
     dict_get_or (sh_role_usage h) role \<lparr>ru_role = role, ru_model = model, ru_calls = 0, ru_tokens = no_tokens, ru_cost_usd = None\<rparr>"

text \<open>The state after one tracked call, and the bag of the caller.\<close>

definition track_usage ::
    "float_ops \<Rightarrow> string option \<Rightarrow> string \<Rightarrow> string \<Rightarrow> tokens \<Rightarrow> pyfloat option \<Rightarrow> role_usage option \<times> spend_host \<Rightarrow>
     role_usage option \<times> spend_host" where
  "track_usage ops aid role model t cost = (\<lambda>(bag, h).
     (map_option (merge_usage ops model t cost) bag,
      (case str_or aid [] of
         [] \<Rightarrow> h\<lparr>sh_unattributed_spend := fold_spend ops cost (sh_unattributed_spend h)\<rparr>
       | a # as \<Rightarrow> h\<lparr>sh_activation_spend := AList.update (a # as)
            (fold_spend ops cost (dict_get_or (sh_activation_spend h) (a # as) (''0.0'', True))) (sh_activation_spend h)\<rparr>)
      \<lparr>sh_role_usage := AList.update role (merge_usage ops model t cost (role_bag role model h)) (sh_role_usage h),
       sh_events := sh_events h @ [\<lparr>ue_stage = None, ue_role = role, ue_calls = 1, ue_model = model, ue_tokens = t, ue_cost_usd = cost\<rparr>]\<rparr>))"

text \<open>The coding stage: the harness reports input and output tokens, or nothing, and perhaps dollars, which ride the event only.\<close>

definition attempt_tokens :: "int option \<Rightarrow> int option \<Rightarrow> tokens" where
  "attempt_tokens inp outp = no_tokens\<lparr>tk_input := (case inp of None \<Rightarrow> 0 | Some n \<Rightarrow> n), tk_output := (case outp of None \<Rightarrow> 0 | Some n \<Rightarrow> n)\<rparr>"

definition record_attempt_usage ::
    "float_ops \<Rightarrow> string \<Rightarrow> int option \<Rightarrow> int option \<Rightarrow> pyfloat option \<Rightarrow> role_usage \<times> spend_host \<Rightarrow> role_usage \<times> spend_host" where
  "record_attempt_usage ops model inp outp cost = (\<lambda>(code_spend, h).
     (merge_usage ops model (attempt_tokens inp outp) None code_spend,
      h\<lparr>sh_events := sh_events h @ [\<lparr>ue_stage = Some ''code'', ue_role = ''dev'', ue_calls = 1, ue_model = model,
          ue_tokens = attempt_tokens inp outp, ue_cost_usd = cost\<rparr>]\<rparr>))"

text \<open>The research stage: the usage an activity returned, with the calls it stands for; a pricing failure is no price.\<close>

definition fold_research_usage ::
    "float_ops \<Rightarrow> (string \<Rightarrow> tokens \<Rightarrow> pyfloat option) \<Rightarrow> nat \<Rightarrow> role_usage \<Rightarrow> role_usage \<times> spend_host \<Rightarrow> role_usage \<times> spend_host" where
  "fold_research_usage ops price calls usage = (\<lambda>(into, h).
     (if tk_input (ru_tokens usage) = 0 \<and> tk_output (ru_tokens usage) = 0 then (into, h)
      else let usd = price (ru_model usage) (ru_tokens usage) in
        (add_spend ops (ru_tokens usage) usd (into\<lparr>ru_calls := ru_calls into + calls\<rparr>),
         h\<lparr>sh_events := sh_events h @ [\<lparr>ue_stage = Some ''research'', ue_role = ''research'', ue_calls = calls,
             ue_model = ru_model usage, ue_tokens = ru_tokens usage, ue_cost_usd = usd\<rparr>]\<rparr>)))"

definition fold_dead_attempts ::
    "float_ops \<Rightarrow> (string \<Rightarrow> tokens \<Rightarrow> pyfloat option) \<Rightarrow> bool \<Rightarrow> role_usage list \<Rightarrow> role_usage \<times> spend_host \<Rightarrow> role_usage \<times> spend_host" where
  "fold_dead_attempts ops price ledger_v2 dead_usages s =
     (if \<not> ledger_v2 then s else foldl (\<lambda>s du. fold_research_usage ops price (ru_calls du) du s) s dead_usages)"

text \<open>The roles of the run summary and of the live state, rolled up from the trace.\<close>

definition role_rollup :: "float_ops \<Rightarrow> usage_event list \<Rightarrow> (string, role_usage) dict" where
  "role_rollup ops trace =
     foldl (\<lambda>bags e. AList.update (ue_role e)
       (merge_usage ops (ue_model e) (ue_tokens e) (ue_cost_usd e)
         (dict_get_or bags (ue_role e) \<lparr>ru_role = ue_role e, ru_model = ue_model e, ru_calls = 0, ru_tokens = no_tokens, ru_cost_usd = None\<rparr>))
       bags) [] trace"

section \<open>A role's model\<close>

datatype role_error =
    Missing_Key string
  | Label_Mismatch string string string
  | Invalid_Payload string

definition STAGE_ROLES :: "(string, string) dict" where
  "STAGE_ROLES = [(''clarify'', ''clarify''), (''architect'', ''architect''), (''plan'', ''planner''), (''devops'', ''devops_planner''),
     (''review'', ''reviewer''), (''analyze'', ''analyst''), (''qa'', ''qa''), (''merge_verdict'', ''merge_verdict''),
     (''research'', ''research''), (''deep_review'', ''deep_review''), (''handoff'', ''handoff''), (''adversary'', ''adversary''),
     (''discover'', ''discover''), (''risk'', ''risk'')]"

text \<open>The registry maps a role to its model, a stage to the hash of its prompt.\<close>

record role_registry =
  rg_models :: "string \<rightharpoonup> string"
  rg_prompt_shas :: "string \<rightharpoonup> string"

definition forwarded_model :: "role_registry \<Rightarrow> (string \<rightharpoonup> role_config) \<Rightarrow> string \<Rightarrow> string option" where
  "forwarded_model reg roles role =
     (case roles role of
        None \<Rightarrow> None
      | Some rc \<Rightarrow>
          (case (rc_model rc, rg_models reg role) of
             (Some m, Some r) \<Rightarrow> if m = r then None else Some m
           | _ \<Rightarrow> None))"

definition resolve_role_model :: "role_registry \<Rightarrow> (string \<rightharpoonup> role_config) \<Rightarrow> string \<Rightarrow> role_error + string" where
  "resolve_role_model reg roles stage =
     (case dict_get STAGE_ROLES stage of
        None \<Rightarrow> Inl (Missing_Key stage)
      | Some role \<Rightarrow>
          (case (case roles role of None \<Rightarrow> None | Some rc \<Rightarrow> rc_model rc) of
             Some m \<Rightarrow> Inr m
           | None \<Rightarrow> (case rg_models reg role of None \<Rightarrow> Inl (Missing_Key stage) | Some m \<Rightarrow> Inr m)))"

section \<open>One call\<close>

type_synonym price = "string \<Rightarrow> tokens \<Rightarrow> pyfloat option"

fun sum_reports :: "(string \<times> tokens) list \<Rightarrow> (string, tokens) dict \<Rightarrow> (string, tokens) dict" where
  "sum_reports [] sums = sums"
| "sum_reports ((m, t) # rest) sums =
     sum_reports rest (AList.update m (add_tokens (dict_get_or sums m no_tokens) t) sums)"

text \<open>The reports in order with the share each one is charged.\<close>

fun report_shares :: "(string \<rightharpoonup> pyfloat) \<Rightarrow> string list \<Rightarrow> (string \<times> tokens) list \<Rightarrow> (string \<times> tokens \<times> pyfloat option) list" where
  "report_shares batch_usd once [] = []"
| "report_shares batch_usd once ((m, t) # rest) =
     (case batch_usd m of
        None \<Rightarrow> (m, t, None) # report_shares batch_usd once rest
      | Some usd \<Rightarrow>
          if m \<in> set once then (m, t, Some ''0.0'') # report_shares batch_usd once rest
          else (m, t, Some usd) # report_shares batch_usd (m # once) rest)"

definition charge_reports ::
    "float_ops \<Rightarrow> price \<Rightarrow> string option \<Rightarrow> (string \<times> tokens) list \<Rightarrow> role_usage option \<times> spend_host \<Rightarrow> role_usage option \<times> spend_host" where
  "charge_reports ops price aid reports = (\<lambda>(bag, h).
     (let sums = sum_reports reports [];
          batch_usd = (\<lambda>m. case dict_get sums m of None \<Rightarrow> None | Some t \<Rightarrow> price m t);
          h' = foldl (\<lambda>h (m, t, share). snd (track_usage ops aid ''research'' m t share (None, h))) h (report_shares batch_usd [] reports)
      in (map_option (\<lambda>bag. foldl (\<lambda>bag (m, t). add_spend ops t (batch_usd m) bag) bag sums) bag, h')))"

text \<open>\<open>fwd\<close> is the forwarded model; \<open>u\<close> the usage the agent reports, \<open>reports\<close> the sub-runs harvested from its messages.\<close>

definition run_role ::
    "float_ops \<Rightarrow> price \<Rightarrow> role_registry \<Rightarrow> (string \<rightharpoonup> role_config) \<Rightarrow> string option \<Rightarrow> string \<Rightarrow> string \<Rightarrow> tokens \<Rightarrow>
     (string \<times> tokens) list \<Rightarrow> role_usage option \<times> spend_host \<Rightarrow> role_error + role_usage option \<times> spend_host" where
  "run_role ops price reg roles aid role model u reports s =
     (case forwarded_model reg roles role of
        Some fwd \<Rightarrow>
          if fwd \<noteq> model then Inl (Label_Mismatch role fwd model)
          else Inr (charge_reports ops price aid reports (track_usage ops aid role model u
                 (if tk_input u \<noteq> 0 \<or> tk_output u \<noteq> 0 then price model u else None) s))
      | None \<Rightarrow>
          Inr (charge_reports ops price aid reports (track_usage ops aid role model u
                 (if tk_input u \<noteq> 0 \<or> tk_output u \<noteq> 0 then price model u else None) s)))"

text \<open>The accounts a run can reach: its model calls, coding attempts and research activities, in any order.\<close>

inductive spend_reach :: "float_ops \<Rightarrow> price \<Rightarrow> spend_host \<Rightarrow> bool" for ops price where
  sr_init: "spend_reach ops price init_spend"
| sr_role: "spend_reach ops price h \<Longrightarrow>
    run_role ops price reg roles aid role model u reports (bag, h) = Inr (bag', h') \<Longrightarrow> spend_reach ops price h'"
| sr_attempt: "spend_reach ops price h \<Longrightarrow>
    record_attempt_usage ops model inp outp cost (code_spend, h) = (code_spend', h') \<Longrightarrow> spend_reach ops price h'"
| sr_research: "spend_reach ops price h \<Longrightarrow>
    fold_research_usage ops price calls usage (into, h) = (into', h') \<Longrightarrow> spend_reach ops price h'"

section \<open>The budget\<close>

record budget_host =
  bh_threshold :: pyfloat
  bh_crossings :: nat

datatype budget_result = Within | Rejected_Budget | Waiting

definition total_cost :: "float_ops \<Rightarrow> spend_host \<Rightarrow> pyfloat" where
  "total_cost ops h = fl_sum ops (map (\<lambda>(_, u). or_zero ops (ru_cost_usd u)) (sh_role_usage h))"

definition budget_rows :: "float_ops \<Rightarrow> spend_host \<Rightarrow> string" where
  "budget_rows ops h =
     str_join [CHR 0x0A] (List.map_filter (\<lambda>(_, u). map_option (\<lambda>c. ''  '' @ ru_role u @ '' ('' @ ru_model u @ ''): $'' @ fl_fmt4 ops c) (ru_cost_usd u))
       (sh_role_usage h))"

definition budget_call :: "float_ops \<Rightarrow> review_cfg \<Rightarrow> spend_host \<Rightarrow> budget_host \<Rightarrow> gate_call" where
  "budget_call ops cfg h b =
     \<lparr>gl_name = ''budget'', gl_settings = gate_settings_of cfg, gl_auto_decision = None, gl_round = int (bh_crossings b),
      gl_context = Some (empty_context\<lparr>gx_spec_summary := Some (''Run cost $'' @ fl_fmt4 ops (total_cost ops h) @ '' >= budget $'' @
        fl_fmt2 ops (bh_threshold b) @ [CHR 0x0A] @ budget_rows ops h)\<rparr>),
      gl_confidence = None, gl_author_model = None, gl_default_policy = Some HARD\<rparr>"

text \<open>The loop, over the answers of the budget gates in their order; without an answer it waits.\<close>

fun budget_loop ::
    "float_ops \<Rightarrow> review_cfg \<Rightarrow> pyfloat \<Rightarrow> spend_host \<Rightarrow> gate_decision list \<Rightarrow> budget_host \<Rightarrow>
     budget_result \<times> budget_host \<times> gate_call list" where
  "budget_loop ops cfg budget h [] b =
     (if fl_le ops (bh_threshold b) (total_cost ops h)
      then (let b' = b\<lparr>bh_crossings := bh_crossings b + 1\<rparr> in (Waiting, b', [budget_call ops cfg h b']))
      else (Within, b, []))"
| "budget_loop ops cfg budget h (d # ds) b =
     (if fl_le ops (bh_threshold b) (total_cost ops h)
      then (let b' = b\<lparr>bh_crossings := bh_crossings b + 1\<rparr>; c = budget_call ops cfg h b' in
            if gd_outcome d \<noteq> APPROVE then (Rejected_Budget, b', [c])
            else (case budget_loop ops cfg budget h ds (b'\<lparr>bh_threshold := fl_add ops (bh_threshold b) budget\<rparr>) of
                    (r, b'', cs) \<Rightarrow> (r, b'', c # cs)))
      else (Within, b, []))"

definition check_budget ::
    "float_ops \<Rightarrow> review_cfg \<Rightarrow> pyfloat \<Rightarrow> spend_host \<Rightarrow> gate_decision list \<Rightarrow> budget_host \<Rightarrow>
     budget_result \<times> budget_host \<times> gate_call list" where
  "check_budget ops cfg budget h ds b =
     (if fl_le ops budget ''0.0'' then (Within, b, []) else budget_loop ops cfg budget h ds b)"

section \<open>The stage cache\<close>

definition content_key :: "(string \<Rightarrow> string) \<Rightarrow> string \<Rightarrow> string \<Rightarrow> string \<Rightarrow> string \<Rightarrow> string \<Rightarrow> string" where
  "content_key sha stage input_json prompt_sha mdl upstream =
     sha (str_join ''|'' [stage, input_json, prompt_sha, mdl, upstream])"

definition stage_key ::
    "(string \<Rightarrow> string) \<Rightarrow> role_registry \<Rightarrow> (string \<rightharpoonup> role_config) \<Rightarrow> string \<Rightarrow> string \<Rightarrow> string \<Rightarrow> string option \<Rightarrow>
     role_error + string" where
  "stage_key sha reg roles stage input_json prompt_digest watermark =
     (case resolve_role_model reg roles stage of
        Inl e \<Rightarrow> Inl e
      | Inr resolved \<Rightarrow>
          (case rg_prompt_shas reg stage of
             None \<Rightarrow> Inl (Missing_Key stage)
           | Some prompt \<Rightarrow>
               Inr (content_key sha stage input_json (prompt @ prompt_digest)
                 (if forwarded_model reg roles (dict_at STAGE_ROLES stage) \<noteq> None then ''fwd1:'' @ resolved else resolved)
                 (str_or watermark ''none''))))"

text \<open>\<open>parse\<close> and \<open>dump\<close> are the JSON methods of the output type, \<open>out\<close> what the producer returns if it is run.\<close>

definition cached_stage ::
    "(string \<Rightarrow> string) \<Rightarrow> (string \<Rightarrow> 'a option) \<Rightarrow> ('a \<Rightarrow> string) \<Rightarrow> bool \<Rightarrow> role_registry \<Rightarrow> (string \<rightharpoonup> role_config) \<Rightarrow>
     string \<Rightarrow> string \<Rightarrow> string \<Rightarrow> string option \<Rightarrow> 'a \<Rightarrow> (string \<rightharpoonup> string) \<Rightarrow> role_error + ('a \<times> bool) \<times> (string \<rightharpoonup> string)" where
  "cached_stage sha parse dump enabled reg roles stage input_json prompt_digest watermark out store =
     (if \<not> enabled then Inr ((out, False), store)
      else case stage_key sha reg roles stage input_json prompt_digest watermark of
        Inl e \<Rightarrow> Inl e
      | Inr key \<Rightarrow>
          (case store key of
             Some cached \<Rightarrow> (case parse cached of None \<Rightarrow> Inl (Invalid_Payload key) | Some v \<Rightarrow> Inr ((v, True), store))
           | None \<Rightarrow> Inr ((out, False), store(key \<mapsto> dump out))))"

section \<open>Questions\<close>

record question_host =
  qh_answers :: "string \<rightharpoonup> string"
  qh_pending_questions :: "string list"
  qh_asked :: "(string \<times> string) list"
  qh_answered :: "(string \<times> string) list"
  qh_gate :: gate_host

definition answer_question :: "string \<Rightarrow> string \<Rightarrow> question_host \<Rightarrow> question_host" where
  "answer_question qid answer q =
     q\<lparr>qh_answers := (case qh_answers q qid of None \<Rightarrow> (qh_answers q)(qid \<mapsto> answer) | Some _ \<Rightarrow> qh_answers q),
       qh_gate := pop_pending qid (qh_gate q)\<rparr>"

definition register_pending :: "string option \<Rightarrow> pending_decision list \<Rightarrow> gate_host \<Rightarrow> gate_host" where
  "register_pending activation ps h =
     foldl (\<lambda>h p. h\<lparr>gh_pending := AList.update (pd_key p) p (gh_pending h),
                    gh_pending_activation := (gh_pending_activation h)(pd_key p \<mapsto> activation)\<rparr>) h ps"

text \<open>The events carry the question; the dimension label of the first is left out.\<close>

definition ask_open :: "int \<Rightarrow> string option \<Rightarrow> string \<Rightarrow> open_question list \<Rightarrow> question_host \<Rightarrow> question_host" where
  "ask_open now activation stage questions q =
     q\<lparr>qh_asked := qh_asked q @ map (\<lambda>o1. (oq_id o1, oq_question o1)) questions,
       qh_pending_questions := map oq_id questions,
       qh_gate := register_pending activation (clarify_pending questions {} (Some now))
         ((qh_gate q)\<lparr>gh_status := ''awaiting:'' @ stage\<rparr>)\<rparr>"

definition all_answered :: "open_question list \<Rightarrow> question_host \<Rightarrow> bool" where
  "all_answered questions q \<longleftrightarrow> list_all (\<lambda>o1. qh_answers q (oq_id o1) \<noteq> None) questions"

fun collect_answers :: "question_host \<Rightarrow> open_question list \<Rightarrow> (string, string) dict \<Rightarrow> (string, string) dict" where
  "collect_answers q [] acc = acc"
| "collect_answers q (o1 # os) acc =
     collect_answers q os (case qh_answers q (oq_id o1) of None \<Rightarrow> acc | Some a \<Rightarrow> AList.update (oq_id o1) a acc)"

definition answered_by :: "(string, string) dict \<Rightarrow> question_host \<Rightarrow> open_question \<Rightarrow> string" where
  "answered_by answers q o1 =
     (if qh_answers q (oq_id o1) \<noteq> None then ''human''
      else if dict_get answers (oq_id o1) \<noteq> None then ''suggested'' else ''unanswered'')"

definition ask_close :: "open_question list \<Rightarrow> question_host \<Rightarrow> (string, string) dict \<times> question_host" where
  "ask_close questions q =
     (let answers = collect_answers q questions [] in
      (answers,
       q\<lparr>qh_gate := foldl (\<lambda>h o1. pop_pending (oq_id o1) h) (qh_gate q) questions,
         qh_answered := qh_answered q @ map (\<lambda>o1. (oq_id o1, answered_by answers q o1)) questions,
         qh_pending_questions := []\<rparr>))"

text \<open>The wait ends when every question is answered, raises at the deadline, or goes on.\<close>

datatype ask_result = Answers "(string, string) dict" | Timeout_Raised | Still_Waiting

definition ask_and_wait ::
    "int \<Rightarrow> string option \<Rightarrow> string \<Rightarrow> open_question list \<Rightarrow> (string \<times> string) list \<Rightarrow> bool \<Rightarrow> question_host \<Rightarrow>
     ask_result \<times> question_host" where
  "ask_and_wait now activation stage questions arrivals expired q =
     (if questions = [] then (Answers [], q)
      else let q1 = foldl (\<lambda>q (qid, a). answer_question qid a q) (ask_open now activation stage questions q) arrivals in
        if all_answered questions q1 then (case ask_close questions q1 of (answers, q2) \<Rightarrow> (Answers answers, q2))
        else if expired then (Timeout_Raised, q1) else (Still_Waiting, q1))"

end
