(* ===== verification/Role_Properties.thy ===== *)
theory Role_Properties
  imports Role_Host Review_Properties
begin

text \<open>
  What the hosts of \<open>Role_Host\<close> promise: spending stops at the budget until a human grants more, the
  usage kept per role is the replay of the usage events, a cached result belongs to the same work, and a
  questionnaire returns exactly the first answers to its questions.
\<close>

section \<open>The budget\<close>

lemma budget_call_fields [simp]:
  "gl_name (budget_call ops cfg h b) = ''budget''" "gl_round (budget_call ops cfg h b) = int (bh_crossings b)"
  "gl_auto_decision (budget_call ops cfg h b) = None" "gl_default_policy (budget_call ops cfg h b) = Some HARD"
  by (simp_all add: budget_call_def)

text \<open>The gates of one check, their rounds and the outcomes they were answered with.\<close>

primrec grants :: "float_ops \<Rightarrow> pyfloat \<Rightarrow> nat \<Rightarrow> pyfloat \<Rightarrow> pyfloat" where
  "grants ops budget 0 x = x"
| "grants ops budget (Suc n) x = grants ops budget n (fl_add ops x budget)"

definition approvals :: "gate_decision list \<Rightarrow> nat" where
  "approvals ds = length (takeWhile (\<lambda>d. gd_outcome d = APPROVE) ds)"

fun budget_answered :: "budget_result \<Rightarrow> nat \<Rightarrow> gate_decision list \<Rightarrow> bool" where
  "budget_answered Within n ds = (n \<le> approvals ds)"
| "budget_answered Rejected_Budget n ds = (n = Suc (approvals ds) \<and> approvals ds < length ds)"
| "budget_answered Waiting n ds = (n = Suc (length ds) \<and> approvals ds = length ds)"

lemma approvals_Cons: "approvals (d # ds) = (if gd_outcome d = APPROVE then Suc (approvals ds) else 0)"
  by (simp add: approvals_def)

lemma budget_loop_calls:
  "budget_loop ops cfg budget h ds b = (r, b', cs) \<Longrightarrow>
   map gl_round cs = map int [Suc (bh_crossings b)..<Suc (bh_crossings b')] \<and> bh_crossings b' = bh_crossings b + length cs \<and>
   list_all (\<lambda>c. gl_name c = ''budget'' \<and> gl_auto_decision c = None \<and> gl_default_policy c = Some HARD) cs"
proof (induction ds arbitrary: b r b' cs)
  case Nil
  then show ?case by (auto simp: Let_def split: if_splits)
next
  case (Cons d ds)
  show ?case
  proof (cases "fl_le ops (bh_threshold b) (total_cost ops h) \<and> gd_outcome d = APPROVE")
    case True
    let ?b = "b\<lparr>bh_crossings := bh_crossings b + 1, bh_threshold := fl_add ops (bh_threshold b) budget\<rparr>"
    obtain r1 b1 cs1 where rest: "budget_loop ops cfg budget h ds ?b = (r1, b1, cs1)" by (metis prod_cases3)
    have eq: "r = r1" "b' = b1" "cs = budget_call ops cfg h (b\<lparr>bh_crossings := bh_crossings b + 1\<rparr>) # cs1"
      using Cons.prems True rest by (auto simp: Let_def)
    have "bh_crossings b1 = Suc (bh_crossings b) + length cs1" using Cons.IH [OF rest] by simp
    then have "[Suc (bh_crossings b)..<Suc (bh_crossings b1)] = Suc (bh_crossings b) # [Suc (Suc (bh_crossings b))..<Suc (bh_crossings b1)]"
      by (simp only: upt_conv_Cons)
    then show ?thesis using Cons.IH [OF rest] unfolding eq by (simp del: upt_Suc)
  next
    case False
    then show ?thesis using Cons.prems by (auto simp: Let_def split: if_splits)
  qed
qed

lemma budget_loop_result:
  "budget_loop ops cfg budget h ds b = (r, b', cs) \<Longrightarrow>
   budget_answered r (length cs) ds \<and>
   bh_threshold b' = grants ops budget (min (length cs) (approvals ds)) (bh_threshold b) \<and>
   (r = Within \<longleftrightarrow> \<not> fl_le ops (bh_threshold b') (total_cost ops h))"
proof (induction ds arbitrary: b r b' cs)
  case Nil
  then show ?case by (auto simp: Let_def approvals_def  split: if_splits)
next
  case (Cons d ds)
  show ?case
  proof (cases "fl_le ops (bh_threshold b) (total_cost ops h) \<and> gd_outcome d = APPROVE")
    case True
    let ?b = "b\<lparr>bh_crossings := bh_crossings b + 1, bh_threshold := fl_add ops (bh_threshold b) budget\<rparr>"
    obtain r1 b1 cs1 where rest: "budget_loop ops cfg budget h ds ?b = (r1, b1, cs1)" by (metis prod_cases3)
    have eq: "r = r1" "b' = b1" "cs = budget_call ops cfg h (b\<lparr>bh_crossings := bh_crossings b + 1\<rparr>) # cs1"
      using Cons.prems True rest by (auto simp: Let_def)
    have "budget_answered r1 (Suc n) (d # ds) = budget_answered r1 n ds" for n
      using True by (cases r1) (simp_all add: approvals_Cons)
    then show ?thesis using Cons.IH [OF rest] True unfolding eq by (simp add: approvals_Cons)
  next
    case False
    then show ?thesis using Cons.prems by (auto simp: Let_def approvals_Cons  split: if_splits)
  qed
qed

text \<open>
  The policy a budget gate runs under: hard, unless the configuration has a gate of that name. Under any policy
  but \<open>OFF\<close> the gate opens and waits, as no automatic decision is offered; under \<open>OFF\<close> it approves at once.
\<close>

definition budget_policy :: "review_cfg \<Rightarrow> gate_policy" where
  "budget_policy cfg = (case rv_gates cfg ''budget'' of Some g \<Rightarrow> gc_policy g | None \<Rightarrow> HARD)"

lemma budget_call_policy:
  assumes "gl_name c = ''budget''" "gl_settings c = gate_settings_of cfg" "gl_default_policy c = Some HARD"
  shows "gc_policy (call_config c) = budget_policy cfg"
  using assms by (simp add: call_config_def gate_settings_of_def budget_policy_def split: option.split)

lemma budget_gate_enter:
  assumes "gc_policy (call_config c) = P" "gl_auto_decision c = None"
  shows "gate_enter now activation c gh =
    (if P = OFF then (let d = mk_decision c APPROVE ByPolicy None in (decided_hook c d gh, Inr (GDone d, None)))
     else gate_open now activation c gh)"
  using assms by (cases P) (simp_all add: gate_enter_def)

lemma budget_calls_gate:
  assumes "budget_loop ops cfg budget h ds b = (r, b', cs)" "c \<in> set cs"
  shows "gl_name c = ''budget'' \<and> gc_policy (call_config c) = budget_policy cfg \<and>
    (\<forall>now activation gh. gate_enter now activation c gh =
      (if budget_policy cfg = OFF then (decided_hook c (mk_decision c APPROVE ByPolicy None) gh, Inr (GDone (mk_decision c APPROVE ByPolicy None), None))
       else gate_open now activation c gh))"
proof -
  have "gl_settings c = gate_settings_of cfg"
    using assms
  proof (induction ds arbitrary: b r b' cs)
    case (Cons d ds)
    then show ?case by (auto simp: Let_def budget_call_def split: if_splits prod.splits)
  qed (auto simp: Let_def budget_call_def split: if_splits)
  moreover have "gl_name c = ''budget''" "gl_auto_decision c = None" "gl_default_policy c = Some HARD"
    using budget_loop_calls [OF assms(1)] assms(2) by (simp_all add: list_all_iff)
  moreover note policy = budget_call_policy [OF calculation(2,1,4)]
  ultimately show ?thesis using budget_gate_enter [OF policy] by (simp add: Let_def)
qed

text \<open>C35: spending stops at the budget. A check of a positive budget opens one gate per crossing, in consecutive
  rounds never used before, and offers none of them an automatic decision. The gate is hard unless
  \<open>cfg.gates['budget']\<close> sets another policy; unless that policy is \<open>OFF\<close>, every one of them opens and waits for a
  decision, and under \<open>OFF\<close> every one is approved at once. The check lets the run go on exactly when the recorded
  cost is below the threshold, which an approval raises by one budget and nothing else raises; the first answer that
  is not an approval ends the run, and without an answer it waits.\<close>

theorem budget_stops_spending:
  assumes "check_budget ops cfg budget h ds b = (r, b', cs)" "\<not> fl_le ops budget ''0.0''"
  shows "map gl_round cs = map int [Suc (bh_crossings b)..<Suc (bh_crossings b')] \<and>
    list_all (\<lambda>c. gl_name c = ''budget'' \<and> gl_auto_decision c = None \<and> gl_default_policy c = Some HARD) cs \<and>
    (\<forall>c \<in> set cs.
       gc_policy (call_config c) = (case rv_gates cfg ''budget'' of Some g \<Rightarrow> gc_policy g | None \<Rightarrow> HARD) \<and>
       (\<forall>now activation gh. gate_enter now activation c gh =
          (if gc_policy (call_config c) = OFF
           then (decided_hook c (mk_decision c APPROVE ByPolicy None) gh, Inr (GDone (mk_decision c APPROVE ByPolicy None), None))
           else gate_open now activation c gh))) \<and>
    budget_answered r (length cs) ds \<and>
    bh_threshold b' = grants ops budget (min (length cs) (approvals ds)) (bh_threshold b) \<and>
    (r = Within \<longleftrightarrow> \<not> fl_le ops (bh_threshold b') (total_cost ops h))"
proof -
  have loop: "budget_loop ops cfg budget h ds b = (r, b', cs)" using assms by (simp add: check_budget_def)
  have "gc_policy (call_config c) = (case rv_gates cfg ''budget'' of Some g \<Rightarrow> gc_policy g | None \<Rightarrow> HARD) \<and>
       (\<forall>now activation gh. gate_enter now activation c gh =
          (if gc_policy (call_config c) = OFF
           then (decided_hook c (mk_decision c APPROVE ByPolicy None) gh, Inr (GDone (mk_decision c APPROVE ByPolicy None), None))
           else gate_open now activation c gh))" if "c \<in> set cs" for c
    using budget_calls_gate [OF loop that] unfolding budget_policy_def [symmetric] by simp
  then show ?thesis using budget_loop_calls [OF loop] budget_loop_result [OF loop] by blast
qed

definition demo_spent :: spend_host where
  "demo_spent = init_spend\<lparr>sh_role_usage := [(''dev'', \<lparr>ru_role = ''dev'', ru_model = ''m'', ru_calls = 1, ru_tokens = no_tokens, ru_cost_usd = Some ''5.0''\<rparr>)]\<rparr>"

definition demo_check :: "budget_result \<times> budget_host \<times> gate_call list" where
  "demo_check = check_budget demo_floats demo_cfg ''2.0'' demo_spent
     [mk_decision (budget_call demo_floats demo_cfg demo_spent \<lparr>bh_threshold = ''2.0'', bh_crossings = 4\<rparr>) REVISE ByHuman None]
     \<lparr>bh_threshold = ''2.0'', bh_crossings = 3\<rparr>"

lemma demo_check_stops: "fst demo_check = Rejected_Budget" "bh_crossings (fst (snd demo_check)) = 4"
  by code_simp+

lemma budget_stops_spending_witness:
  "fst demo_check = Rejected_Budget \<and> map gl_round (snd (snd demo_check)) = [4]"
proof -
  obtain r b' cs where run: "demo_check = (r, b', cs)" by (metis prod_cases3)
  have "map gl_round cs = map int [Suc 3..<Suc (bh_crossings b')]"
    using budget_stops_spending [OF run [unfolded demo_check_def]] by (auto simp: demo_floats_def)
  moreover have "bh_crossings b' = 4" using demo_check_stops(2) unfolding run by simp
  ultimately show ?thesis using demo_check_stops(1) unfolding run by (simp add: upt_rec)
qed

section \<open>Usage\<close>

definition tokens_sum :: "tokens list \<Rightarrow> tokens" where
  "tokens_sum ts = \<lparr>tk_input = sum_list (map tk_input ts), tk_output = sum_list (map tk_output ts),
     tk_cache_read = sum_list (map tk_cache_read ts), tk_cache_write = sum_list (map tk_cache_write ts)\<rparr>"

text \<open>The usage of a role as the events of the run tell it.\<close>

definition replay_step :: "float_ops \<Rightarrow> role_usage option \<Rightarrow> usage_event \<Rightarrow> role_usage option" where
  "replay_step ops acc e =
     Some (merge_usage ops (ue_model e) (ue_tokens e) (ue_cost_usd e)
       (case acc of Some bag \<Rightarrow> bag
        | None \<Rightarrow> \<lparr>ru_role = ue_role e, ru_model = ue_model e, ru_calls = 0, ru_tokens = no_tokens, ru_cost_usd = None\<rparr>))"

definition replay_role :: "float_ops \<Rightarrow> string \<Rightarrow> usage_event list \<Rightarrow> role_usage option" where
  "replay_role ops role evs = foldl (replay_step ops) None (filter (\<lambda>e. ue_role e = role) evs)"

text \<open>The events of \<open>_track_usage\<close>; the others are the coding attempts and the research activities.\<close>

definition tracked :: "usage_event \<Rightarrow> bool" where
  "tracked e \<longleftrightarrow> ue_stage e = None"

definition usage_replayed :: "float_ops \<Rightarrow> spend_host \<Rightarrow> bool" where
  "usage_replayed ops h \<longleftrightarrow> (\<forall>role. dict_get (sh_role_usage h) role = replay_role ops role (filter tracked (sh_events h)))"

definition track1 :: "float_ops \<Rightarrow> string option \<Rightarrow> string \<Rightarrow> string \<Rightarrow> tokens \<Rightarrow> pyfloat option \<Rightarrow> spend_host \<Rightarrow> spend_host" where
  "track1 ops aid role model t cost h = snd (track_usage ops aid role model t cost (None, h))"

lemma track_usage_split:
  "track_usage ops aid role model t cost (bag, h) = (map_option (merge_usage ops model t cost) bag, track1 ops aid role model t cost h)"
  by (simp add: track_usage_def track1_def)

lemma track1_fields:
  "sh_role_usage (track1 ops aid role model t cost h) =
     AList.update role (merge_usage ops model t cost (role_bag role model h)) (sh_role_usage h)"
  "sh_events (track1 ops aid role model t cost h) =
     sh_events h @ [\<lparr>ue_stage = None, ue_role = role, ue_calls = 1, ue_model = model, ue_tokens = t, ue_cost_usd = cost\<rparr>]"
  by (simp_all add: track1_def track_usage_def)

lemma track1_replayed: "usage_replayed ops h \<Longrightarrow> usage_replayed ops (track1 ops aid role model t cost h)"
  by (simp add: usage_replayed_def track1_fields tracked_def update_conv' replay_role_def replay_step_def role_bag_def dict_get_or_def split: option.split)

definition research_event :: "string \<times> tokens \<times> pyfloat option \<Rightarrow> usage_event" where
  "research_event r = (case r of (m, t, share) \<Rightarrow> \<lparr>ue_stage = None, ue_role = ''research'', ue_calls = 1, ue_model = m, ue_tokens = t, ue_cost_usd = share\<rparr>)"

lemma track_reports:
  "usage_replayed ops h \<Longrightarrow>
   usage_replayed ops (foldl (\<lambda>h (m, t, share). track1 ops aid ''research'' m t share h) h rs) \<and>
   sh_events (foldl (\<lambda>h (m, t, share). track1 ops aid ''research'' m t share h) h rs) = sh_events h @ map research_event rs"
  by (induction rs arbitrary: h) (auto simp: track1_replayed track1_fields research_event_def)

text \<open>Grouping the reports by model loses no token.\<close>

lemma sum_update:
  fixes f :: "'b \<Rightarrow> int"
  shows "(\<Sum>p\<leftarrow>AList.update k v d. f (snd p)) = (\<Sum>p\<leftarrow>d. f (snd p)) + f v - (case map_of d k of None \<Rightarrow> 0 | Some w \<Rightarrow> f w)"
  by (induction d) auto

lemma sum_reports_total:
  fixes f :: "tokens \<Rightarrow> int"
  assumes add: "\<And>a b. f (add_tokens a b) = f a + f b" and zero: "f no_tokens = 0"
  shows "(\<Sum>p\<leftarrow>sum_reports rs sums. f (snd p)) = (\<Sum>p\<leftarrow>sums. f (snd p)) + (\<Sum>p\<leftarrow>rs. f (snd p))"
proof (induction rs arbitrary: sums)
  case (Cons r rs)
  obtain m t where r: "r = (m, t)" by fastforce
  show ?case by (simp add: r Cons.IH sum_update add zero dict_get_or_def split: option.split)
qed simp

definition bag_of :: "float_ops \<Rightarrow> (string \<Rightarrow> pyfloat option) \<Rightarrow> (string, tokens) dict \<Rightarrow> role_usage \<Rightarrow> role_usage" where
  "bag_of ops batch sums bag = foldl (\<lambda>bag (m, t). add_spend ops t (batch m) bag) bag sums"

lemma bag_of_fields:
  "ru_role (bag_of ops batch sums bag) = ru_role bag \<and> ru_model (bag_of ops batch sums bag) = ru_model bag \<and>
   ru_calls (bag_of ops batch sums bag) = ru_calls bag \<and>
   ru_tokens (bag_of ops batch sums bag) = add_tokens (ru_tokens bag) (tokens_sum (map snd sums))"
  by (induction sums arbitrary: bag) (auto simp: bag_of_def add_spend_def add_tokens_def tokens_sum_def)

lemma reports_tokens: "tokens_sum (map snd (sum_reports rs [])) = tokens_sum (map snd rs)"
  using sum_reports_total [of tk_input rs "[]"] sum_reports_total [of tk_output rs "[]"]
    sum_reports_total [of tk_cache_read rs "[]"] sum_reports_total [of tk_cache_write rs "[]"]
  by (simp add: tokens_sum_def add_tokens_def no_tokens_def comp_def)

lemma report_shares_ids: "map (\<lambda>(m, t, share). (m, t)) (report_shares batch once rs) = rs"
  by (induction batch once rs rule: report_shares.induct) (auto split: option.split)

text \<open>Every batch is charged once: the first report of a model carries the price of its batch, the later
  ones nothing, and the reports of an unpriced batch no price at all.\<close>

definition shares_of :: "string \<Rightarrow> (string \<times> tokens \<times> pyfloat option) list \<Rightarrow> pyfloat option list" where
  "shares_of m rs = map (\<lambda>(_, _, share). share) (filter (\<lambda>(m', _, _). m' = m) rs)"

lemma shares_charged:
  "shares_of m (report_shares batch once rs) =
    (let n = length (filter (\<lambda>(m', _). m' = m) rs) in
     case batch m of None \<Rightarrow> replicate n None
     | Some usd \<Rightarrow> if m \<in> set once \<or> n = 0 then replicate n (Some ''0.0'') else Some usd # replicate (n - 1) (Some ''0.0''))"
proof (induction rs arbitrary: once)
  case (Cons r rs)
  obtain m' t where r: "r = (m', t)" by fastforce
  show ?case
  proof (cases "m' = m")
    case True
    have "\<exists>k. length (filter (\<lambda>(m', _). m' = m) rs) = k" by blast
    then show ?thesis using Cons.IH unfolding r True
      by (auto simp: shares_of_def Let_def split: option.split)
  next
    case False
    then show ?thesis using Cons.IH unfolding r
      by (auto simp: shares_of_def Let_def split: option.split)
  qed
qed (simp add: shares_of_def split: option.split)

definition batch_of :: "string \<Rightarrow> (string \<times> tokens) list \<Rightarrow> tokens list" where
  "batch_of m rs = map snd (filter (\<lambda>(m', _). m' = m) rs)"

lemma sum_reports_get:
  "dict_get (sum_reports rs sums) m =
    (case dict_get sums m of
       None \<Rightarrow> if batch_of m rs = [] then None else Some (tokens_sum (batch_of m rs))
     | Some t \<Rightarrow> Some (add_tokens t (tokens_sum (batch_of m rs))))"
proof (induction rs arbitrary: sums)
  case Nil
  show ?case by (simp add: batch_of_def tokens_sum_def add_tokens_def split: option.split)
next
  case (Cons r rs)
  obtain m' t where r: "r = (m', t)" by fastforce
  show ?case
    by (simp add: r Cons.IH update_conv' batch_of_def dict_get_or_def add_tokens_def tokens_sum_def no_tokens_def
        split: option.split)
qed

text \<open>What the reports of a model are charged.\<close>

definition charged :: "price \<Rightarrow> string \<Rightarrow> (string \<times> tokens) list \<Rightarrow> pyfloat option list" where
  "charged price m rs =
     (case batch_of m rs of
        [] \<Rightarrow> []
      | t # ts \<Rightarrow>
          (case price m (tokens_sum (t # ts)) of
             None \<Rightarrow> replicate (Suc (length ts)) None
           | Some usd \<Rightarrow> Some usd # replicate (length ts) (Some ''0.0'')))"

definition batch_price :: "price \<Rightarrow> (string \<times> tokens) list \<Rightarrow> string \<Rightarrow> pyfloat option" where
  "batch_price price rs m = (case dict_get (sum_reports rs []) m of None \<Rightarrow> None | Some t \<Rightarrow> price m t)"

lemma shares_are_charged: "shares_of m (report_shares (batch_price price rs) [] rs) = charged price m rs"
proof -
  have len: "length (filter (\<lambda>(m', _). m' = m) rs) = length (batch_of m rs)" by (simp add: batch_of_def)
  show ?thesis
    unfolding shares_charged len
    by (cases "batch_of m rs") (simp_all add: charged_def batch_price_def sum_reports_get Let_def split: option.split)
qed

definition own_price :: "price \<Rightarrow> string \<Rightarrow> tokens \<Rightarrow> pyfloat option" where
  "own_price price model u = (if tk_input u \<noteq> 0 \<or> tk_output u \<noteq> 0 then price model u else None)"

lemma run_role_eq:
  "run_role ops price reg roles aid role model u reports (bag, h) =
    (case forwarded_model reg roles role of
       Some fwd \<Rightarrow> if fwd \<noteq> model then Inl (Label_Mismatch role fwd model)
         else Inr (charge_reports ops price aid reports (track_usage ops aid role model u (own_price price model u) (bag, h)))
     | None \<Rightarrow> Inr (charge_reports ops price aid reports (track_usage ops aid role model u (own_price price model u) (bag, h))))"
  unfolding run_role_def own_price_def by (rule refl)

lemma charge_reports_eq:
  "charge_reports ops price aid reports (bag, h) =
    (map_option (bag_of ops (batch_price price reports) (sum_reports reports [])) bag,
     foldl (\<lambda>h (m, t, share). track1 ops aid ''research'' m t share h) h (report_shares (batch_price price reports) [] reports))"
  by (simp add: charge_reports_def Let_def bag_of_def [abs_def] batch_price_def [abs_def] track1_def)

lemma run_role_Inr:
  assumes "run_role ops price reg roles aid role model u reports (bag, h) = Inr (bag', h')"
  shows "bag' = map_option (bag_of ops (batch_price price reports) (sum_reports reports []) \<circ> merge_usage ops model u (own_price price model u)) bag"
    and "h' = foldl (\<lambda>h (m, t, share). track1 ops aid ''research'' m t share h)
      (track1 ops aid role model u (own_price price model u) h) (report_shares (batch_price price reports) [] reports)"
  using assms by (auto simp: run_role_eq track_usage_split charge_reports_eq option.map_comp split: option.splits if_splits)

section \<open>The counted and the traced figure\<close>

text \<open>The tokens of a usage that may be missing.\<close>

definition tokens_of :: "role_usage option \<Rightarrow> tokens" where
  "tokens_of u = (case u of None \<Rightarrow> no_tokens | Some b \<Rightarrow> ru_tokens b)"

lemma run_role_replayed:
  assumes "usage_replayed ops h" "run_role ops price reg roles aid role model u reports (bag, h) = Inr (bag', h')"
  shows "usage_replayed ops h'"
  unfolding run_role_Inr(2) [OF assms(2)] by (rule track_reports [OF track1_replayed [OF assms(1)], THEN conjunct1])

lemma attempt_replayed:
  assumes "usage_replayed ops h" "record_attempt_usage ops model inp outp cost (bag, h) = (bag', h')"
  shows "usage_replayed ops h'"
  using assms by (auto simp: record_attempt_usage_def usage_replayed_def tracked_def)

lemma research_replayed:
  assumes "usage_replayed ops h" "fold_research_usage ops price calls usage (into, h) = (into', h')"
  shows "usage_replayed ops h'"
  using assms by (auto simp: fold_research_usage_def usage_replayed_def tracked_def Let_def split: if_splits)

lemma spend_reach_replayed: "spend_reach ops price h \<Longrightarrow> usage_replayed ops h"
proof (induction rule: spend_reach.induct)
  case sr_init
  show ?case by (simp add: usage_replayed_def init_spend_def replay_role_def)
qed (erule (1) run_role_replayed attempt_replayed research_replayed)+

lemma rollup_replays: "dict_get (role_rollup ops evs) role = replay_role ops role evs"
proof (induction evs rule: rev_induct)
  case (snoc e evs)
  then show ?case
    by (cases "ue_role e = role")
      (auto simp: role_rollup_def replay_role_def replay_step_def update_conv' dict_get_or_def split: option.split)
qed (simp add: role_rollup_def replay_role_def)

lemma replay_snoc:
  "replay_role ops role (evs @ [e]) = (if ue_role e = role then replay_step ops (replay_role ops role evs) e else replay_role ops role evs)"
  by (simp add: replay_role_def)

lemma replay_tokens: "tokens_of (replay_role ops role evs) = tokens_sum (map ue_tokens (filter (\<lambda>e. ue_role e = role) evs))"
proof (induction evs rule: rev_induct)
  case (snoc e evs)
  then show ?case
    by (auto simp: replay_snoc replay_step_def tokens_of_def merge_usage_def tokens_sum_def add_tokens_def no_tokens_def split: option.splits)
qed (simp add: replay_role_def tokens_of_def tokens_sum_def no_tokens_def)

lemma replay_calls:
  "replay_role ops role evs = Some b \<Longrightarrow> ru_calls b = length (filter (\<lambda>e. ue_role e = role) evs)"
  "replay_role ops role evs = None \<longleftrightarrow> filter (\<lambda>e. ue_role e = role) evs = []"
proof (induction evs arbitrary: b rule: rev_induct)
  case (snoc e evs)
  {
    case 1
    then show ?case using snoc.IH by (auto simp: replay_snoc replay_step_def merge_usage_def split: if_splits option.splits)
  next
    case 2
    then show ?case using snoc.IH(2) by (auto simp: replay_snoc replay_step_def)
  }
qed (simp_all add: replay_role_def)

lemma tokens_partition:
  "tokens_sum (map ue_tokens (filter P evs)) =
   add_tokens (tokens_sum (map ue_tokens (filter P (filter Q evs)))) (tokens_sum (map ue_tokens (filter (\<lambda>e. P e \<and> \<not> Q e) evs)))"
  by (induction evs) (auto simp: tokens_sum_def add_tokens_def)

text \<open>One model call: what it adds to the trace and to the bag of its caller.\<close>

lemma run_role_accounts:
  assumes "usage_replayed ops h" "forwarded_model reg roles role \<in> {None, Some model}"
  shows "\<exists>b' h' shares. run_role ops price reg roles aid role model u reports (Some b, h) = Inr (Some b', h') \<and>
    sh_events h' = sh_events h @ \<lparr>ue_stage = None, ue_role = role, ue_calls = 1, ue_model = model, ue_tokens = u,
      ue_cost_usd = own_price price model u\<rparr> # map research_event shares \<and>
    map (\<lambda>(m, t, share). (m, t)) shares = reports \<and> (\<forall>m. shares_of m shares = charged price m reports) \<and>
    ru_calls b' = Suc (ru_calls b) \<and> ru_role b' = ru_role b \<and>
    ru_tokens b' = add_tokens (add_tokens (ru_tokens b) u) (tokens_sum (map snd reports))"
proof -
  obtain b' h' where run: "run_role ops price reg roles aid role model u reports (Some b, h) = Inr (Some b', h')"
    using assms(2) by (auto simp: run_role_eq track_usage_split charge_reports_eq)
  note h' = run_role_Inr(2) [OF run]
  have b': "bag_of ops (batch_price price reports) (sum_reports reports []) (merge_usage ops model u (own_price price model u) b) = b'"
    using run_role_Inr(1) [OF run] by simp
  from bag_of_fields [of ops "batch_price price reports" "sum_reports reports []" "merge_usage ops model u (own_price price model u) b"]
  have bag: "ru_calls b' = Suc (ru_calls b)" "ru_role b' = ru_role b"
    "ru_tokens b' = add_tokens (add_tokens (ru_tokens b) u) (tokens_sum (map snd reports))"
    unfolding b' reports_tokens by (simp_all add: merge_usage_def)
  let ?rs = "report_shares (batch_price price reports) [] reports"
  have "sh_events h' = sh_events h @ \<lparr>ue_stage = None, ue_role = role, ue_calls = 1, ue_model = model, ue_tokens = u,
      ue_cost_usd = own_price price model u\<rparr> # map research_event ?rs"
    unfolding h' track_reports [OF track1_replayed [OF assms(1)], THEN conjunct2] by (simp add: track1_fields)
  moreover have "\<forall>m. shares_of m ?rs = charged price m reports" by (rule allI, rule shares_are_charged)
  ultimately show ?thesis using run bag report_shares_ids [of "batch_price price reports" "[]" reports] by blast
qed

text \<open>C36: the two figures of a run. In every state its model calls, coding attempts and research activities can
  reach, the usage the budget counts is, role by role, the replay of the tracked calls alone, and the usage shown from
  the trace is the replay of all usage events; their tokens differ by exactly the events of the coding and
  research stages, and for a role without such events the two agree. From there a model call adds one event of its own
  and one per sub-run report, in their order, a priced batch charged once and an unpriced one never, and the caller's
  bag counts one call and every token of the call and of its sub-runs. Only a label that disagrees with the
  forwarded model stops the call.\<close>

theorem usage_accounted:
  assumes "spend_reach ops price h"
  shows "dict_get (sh_role_usage h) r = replay_role ops r (filter tracked (sh_events h)) \<and>
    dict_get (role_rollup ops (sh_events h)) r = replay_role ops r (sh_events h) \<and>
    tokens_of (dict_get (role_rollup ops (sh_events h)) r) =
      add_tokens (tokens_of (dict_get (sh_role_usage h) r))
        (tokens_sum (map ue_tokens (filter (\<lambda>e. ue_role e = r \<and> \<not> tracked e) (sh_events h)))) \<and>
    ((\<forall>e \<in> set (sh_events h). ue_role e = r \<longrightarrow> tracked e) \<longrightarrow>
      dict_get (role_rollup ops (sh_events h)) r = dict_get (sh_role_usage h) r) \<and>
    (forwarded_model reg roles role \<in> {None, Some model} \<longrightarrow>
      (\<exists>b' h' shares. run_role ops price reg roles aid role model u reports (Some b, h) = Inr (Some b', h') \<and>
        sh_events h' = sh_events h @ \<lparr>ue_stage = None, ue_role = role, ue_calls = 1, ue_model = model, ue_tokens = u,
          ue_cost_usd = own_price price model u\<rparr> # map research_event shares \<and>
        map (\<lambda>(m, t, share). (m, t)) shares = reports \<and> (\<forall>m. shares_of m shares = charged price m reports) \<and>
        ru_calls b' = Suc (ru_calls b) \<and> ru_role b' = ru_role b \<and>
        ru_tokens b' = add_tokens (add_tokens (ru_tokens b) u) (tokens_sum (map snd reports))))"
proof -
  note inv = spend_reach_replayed [OF assms]
  have counted: "dict_get (sh_role_usage h) r = replay_role ops r (filter tracked (sh_events h))"
    using inv unfolding usage_replayed_def by blast
  have "tokens_of (dict_get (role_rollup ops (sh_events h)) r) =
      add_tokens (tokens_of (dict_get (sh_role_usage h) r))
        (tokens_sum (map ue_tokens (filter (\<lambda>e. ue_role e = r \<and> \<not> tracked e) (sh_events h))))"
    unfolding counted rollup_replays replay_tokens by (rule tokens_partition)
  moreover have "dict_get (role_rollup ops (sh_events h)) r = dict_get (sh_role_usage h) r"
    if "\<forall>e \<in> set (sh_events h). ue_role e = r \<longrightarrow> tracked e"
  proof -
    have "filter (\<lambda>e. ue_role e = r) (filter tracked (sh_events h)) = filter (\<lambda>e. ue_role e = r) (sh_events h)"
      using that by (auto intro: filter_cong)
    then show ?thesis unfolding counted rollup_replays replay_role_def by simp
  qed
  ultimately show ?thesis using counted rollup_replays run_role_accounts [OF inv] by blast
qed

text \<open>The roll-up counts one call per event, whatever number of calls a research event carries.\<close>

lemma rollup_counts_events:
  "dict_get (role_rollup ops evs) r = Some b \<Longrightarrow> ru_calls b = length (filter (\<lambda>e. ue_role e = r) evs)"
  unfolding rollup_replays by (rule replay_calls(1))

definition demo_reports :: "(string \<times> tokens) list" where
  "demo_reports = [(''m1'', no_tokens\<lparr>tk_input := 3\<rparr>), (''m2'', no_tokens\<lparr>tk_input := 4\<rparr>), (''m1'', no_tokens\<lparr>tk_output := 5\<rparr>)]"

definition demo_price :: price where
  "demo_price m t = (if m = ''m2'' then None else Some ''1.5'')"

definition demo_registry :: role_registry where
  "demo_registry = \<lparr>rg_models = [''architect'' \<mapsto> ''m'', ''planner'' \<mapsto> ''m''], rg_prompt_shas = [''architect'' \<mapsto> ''pa'', ''plan'' \<mapsto> ''pp'']\<rparr>"

definition demo_bag :: role_usage where
  "demo_bag = \<lparr>ru_role = ''dev'', ru_model = ''m'', ru_calls = 0, ru_tokens = no_tokens, ru_cost_usd = None\<rparr>"

definition demo_coded :: spend_host where
  "demo_coded = snd (record_attempt_usage demo_floats ''m'' (Some 7) None None (demo_bag, init_spend))"

lemma demo_coded_reach: "spend_reach demo_floats demo_price demo_coded"
  unfolding demo_coded_def by (rule sr_attempt [OF sr_init surjective_pairing])

lemma usage_accounted_witness:
  "dict_get (sh_role_usage demo_coded) ''dev'' = None \<and>
   tk_input (tokens_of (dict_get (role_rollup demo_floats (sh_events demo_coded)) ''dev'')) = 7 \<and>
   (\<exists>b' h'. run_role demo_floats demo_price demo_registry Map.empty (Some ''a1'') ''architect'' ''m'' no_tokens demo_reports
      (Some demo_bag, demo_coded) = Inr (Some b', h') \<and> tk_input (ru_tokens b') = 7 \<and> length (sh_events h') = 5)"
proof -
  note th = usage_accounted [OF demo_coded_reach, of "''dev''" demo_registry Map.empty "''architect''" "''m''" "Some ''a1''" no_tokens
      demo_reports demo_bag]
  have ev: "sh_events demo_coded = [\<lparr>ue_stage = Some ''code'', ue_role = ''dev'', ue_calls = 1, ue_model = ''m'',
      ue_tokens = no_tokens\<lparr>tk_input := 7\<rparr>, ue_cost_usd = None\<rparr>]" and none: "dict_get (sh_role_usage demo_coded) ''dev'' = None"
    by (simp_all add: demo_coded_def record_attempt_usage_def init_spend_def attempt_tokens_def no_tokens_def)
  have "tk_input (tokens_of (dict_get (role_rollup demo_floats (sh_events demo_coded)) ''dev'')) = 7"
    using th [THEN conjunct2, THEN conjunct2, THEN conjunct1]
    by (simp add: none ev tracked_def tokens_of_def tokens_sum_def add_tokens_def no_tokens_def)
  moreover have "forwarded_model demo_registry Map.empty ''architect'' \<in> {None, Some ''m''}" by (simp add: forwarded_model_def)
  with th obtain b' h' shares where *: "run_role demo_floats demo_price demo_registry Map.empty (Some ''a1'') ''architect'' ''m'' no_tokens demo_reports
      (Some demo_bag, demo_coded) = Inr (Some b', h')"
    "sh_events h' = sh_events demo_coded @ \<lparr>ue_stage = None, ue_role = ''architect'', ue_calls = 1, ue_model = ''m'', ue_tokens = no_tokens,
        ue_cost_usd = own_price demo_price ''m'' no_tokens\<rparr> # map research_event shares"
    "map (\<lambda>(m, t, share). (m, t)) shares = demo_reports"
    "ru_tokens b' = add_tokens (add_tokens (ru_tokens demo_bag) no_tokens) (tokens_sum (map snd demo_reports))" by blast
  have "length shares = 3" using arg_cong [OF *(3), of length] by (simp add: demo_reports_def)
  then have "tk_input (ru_tokens b') = 7 \<and> length (sh_events h') = 5"
    using *(2,4) by (simp add: ev demo_bag_def add_tokens_def tokens_sum_def no_tokens_def demo_reports_def)
  ultimately show ?thesis using none *(1) by blast
qed

lemma label_mismatch_charges_nothing:
  "run_role ops price reg roles aid role model u reports (bag, h) = Inl e \<longleftrightarrow>
   (\<exists>fwd. forwarded_model reg roles role = Some fwd \<and> fwd \<noteq> model \<and> e = Label_Mismatch role fwd model)"
  by (auto simp: run_role_eq track_usage_split charge_reports_eq split: option.splits if_splits)

section \<open>The stage cache\<close>

lemma split_first: "x \<notin> set a \<Longrightarrow> x \<notin> set a' \<Longrightarrow> a @ x # r = a' @ x # r' \<longleftrightarrow> a = a' \<and> r = r'"
  by (induction a a' rule: list_induct2') auto

lemma split_last: "x \<notin> set a \<Longrightarrow> x \<notin> set a' \<Longrightarrow> r @ x # a = r' @ x # a' \<longleftrightarrow> r = r' \<and> a = a'"
  using split_first [of x "rev a" "rev a'" "rev r" "rev r'"] by (metis append.assoc append_Cons append_Nil rev.simps(2) rev_append rev_is_rev_conv set_rev)

text \<open>The five parts of a key: stage, input, prompt, model and memory watermark.\<close>

record key_parts =
  kp_stage :: string
  kp_input :: string
  kp_prompt :: string
  kp_model :: string
  kp_upstream :: string

definition payload :: "key_parts \<Rightarrow> string" where
  "payload k = str_join ''|'' [kp_stage k, kp_input k, kp_prompt k, kp_model k, kp_upstream k]"

text \<open>Only the input may contain the separator.\<close>

definition bar_free :: "key_parts \<Rightarrow> bool" where
  "bar_free k \<longleftrightarrow> list_all (\<lambda>s. CHR ''|'' \<notin> set s) [kp_stage k, kp_prompt k, kp_model k, kp_upstream k]"

lemma payload_inj:
  assumes "bar_free k" "bar_free k'" "payload k = payload k'"
  shows "k = k'"
proof -
  let ?x = "CHR ''|''"
  have free: "?x \<notin> set (kp_stage k)" "?x \<notin> set (kp_prompt k)" "?x \<notin> set (kp_model k)" "?x \<notin> set (kp_upstream k)"
    "?x \<notin> set (kp_stage k')" "?x \<notin> set (kp_prompt k')" "?x \<notin> set (kp_model k')" "?x \<notin> set (kp_upstream k')"
    using assms(1,2) by (simp_all add: bar_free_def)
  have "kp_stage k @ ?x # ((kp_input k @ ?x # kp_prompt k) @ ?x # kp_model k) @ ?x # kp_upstream k =
        kp_stage k' @ ?x # ((kp_input k' @ ?x # kp_prompt k') @ ?x # kp_model k') @ ?x # kp_upstream k'"
    using assms(3) by (simp add: payload_def)
  note 1 = this [unfolded split_first [OF free(1,5)]]
  note 2 = 1 [THEN conjunct2, unfolded split_last [OF free(4,8)]]
  note 3 = 2 [THEN conjunct1, unfolded split_last [OF free(3,7)]]
  note 4 = 3 [THEN conjunct1, unfolded split_last [OF free(2,6)]]
  show ?thesis using 1 2 3 4 by simp
qed

record 'a memo_call =
  mc_registry :: role_registry
  mc_roles :: "string \<rightharpoonup> role_config"
  mc_stage :: string
  mc_input :: string
  mc_digest :: string
  mc_watermark :: "string option"
  mc_out :: 'a

definition model_slot :: "role_registry \<Rightarrow> (string \<rightharpoonup> role_config) \<Rightarrow> string \<Rightarrow> string \<Rightarrow> string" where
  "model_slot reg roles stage resolved =
     (if forwarded_model reg roles (dict_at STAGE_ROLES stage) \<noteq> None then ''fwd1:'' @ resolved else resolved)"

definition call_parts :: "'a memo_call \<Rightarrow> key_parts option" where
  "call_parts c =
     (case (resolve_role_model (mc_registry c) (mc_roles c) (mc_stage c), rg_prompt_shas (mc_registry c) (mc_stage c)) of
        (Inr resolved, Some prompt) \<Rightarrow>
          Some \<lparr>kp_stage = mc_stage c, kp_input = mc_input c, kp_prompt = prompt @ mc_digest c,
                kp_model = model_slot (mc_registry c) (mc_roles c) (mc_stage c) resolved, kp_upstream = str_or (mc_watermark c) ''none''\<rparr>
      | _ \<Rightarrow> None)"

definition memo_step ::
    "(string \<Rightarrow> string) \<Rightarrow> (string \<Rightarrow> 'a option) \<Rightarrow> ('a \<Rightarrow> string) \<Rightarrow> 'a memo_call \<Rightarrow> (string \<rightharpoonup> string) \<Rightarrow>
     role_error + ('a \<times> bool) \<times> (string \<rightharpoonup> string)" where
  "memo_step sha parse dump c store =
     cached_stage sha parse dump True (mc_registry c) (mc_roles c) (mc_stage c) (mc_input c) (mc_digest c) (mc_watermark c) (mc_out c) store"

text \<open>The results of a sequence of calls that share one cache.\<close>

fun memo_run ::
    "(string \<Rightarrow> string) \<Rightarrow> (string \<Rightarrow> 'a option) \<Rightarrow> ('a \<Rightarrow> string) \<Rightarrow> 'a memo_call list \<Rightarrow> (string \<rightharpoonup> string) \<Rightarrow>
     (role_error + 'a \<times> bool) list" where
  "memo_run sha parse dump [] store = []"
| "memo_run sha parse dump (c # cs) store =
     (case memo_step sha parse dump c store of
        Inl e \<Rightarrow> Inl e # memo_run sha parse dump cs store
      | Inr (res, store') \<Rightarrow> Inr res # memo_run sha parse dump cs store')"

lemma stage_key_parts:
  "stage_key sha (mc_registry c) (mc_roles c) (mc_stage c) (mc_input c) (mc_digest c) (mc_watermark c) = Inr key \<longleftrightarrow>
   (\<exists>k. call_parts c = Some k \<and> key = sha (payload k))"
  by (auto simp: stage_key_def call_parts_def content_key_def payload_def model_slot_def split: sum.splits option.splits)

text \<open>Every entry of the cache was computed by a call of the past.\<close>

definition stored_by :: "(string \<Rightarrow> string) \<Rightarrow> ('a \<Rightarrow> string) \<Rightarrow> 'a memo_call list \<Rightarrow> (string \<rightharpoonup> string) \<Rightarrow> bool" where
  "stored_by sha dump past store \<longleftrightarrow>
     (\<forall>key s. store key = Some s \<longrightarrow> (\<exists>c \<in> set past. \<exists>k. call_parts c = Some k \<and> key = sha (payload k) \<and> s = dump (mc_out c)))"

lemma stored_byD:
  assumes "stored_by sha dump past store" "store key = Some s"
  obtains c k where "c \<in> set past" "call_parts c = Some k" "key = sha (payload k)" "s = dump (mc_out c)"
  using assms unfolding stored_by_def by blast

lemma stored_by_mono: "stored_by sha dump past store \<Longrightarrow> set past \<subseteq> set past' \<Longrightarrow> stored_by sha dump past' store"
  unfolding stored_by_def by blast

lemma memo_step_cases:
  assumes "memo_step sha parse dump c store = Inr ((v, hit), store')"
  obtains (hit) k s where "hit" "call_parts c = Some k" "store (sha (payload k)) = Some s" "parse s = Some v" "store' = store"
  | (miss) k where "\<not> hit" "call_parts c = Some k" "v = mc_out c" "store' = store(sha (payload k) \<mapsto> dump (mc_out c))"
proof -
  let ?key = "stage_key sha (mc_registry c) (mc_roles c) (mc_stage c) (mc_input c) (mc_digest c) (mc_watermark c)"
  obtain key where key: "?key = Inr key"
    using assms by (cases ?key) (auto simp: memo_step_def cached_stage_def)
  then obtain k where k: "call_parts c = Some k" "key = sha (payload k)" unfolding stage_key_parts by blast
  note run = assms [unfolded memo_step_def cached_stage_def key, simplified]
  show thesis
  proof (cases "store key")
    case None
    then have "v = mc_out c" "\<not> hit" "store' = store(key \<mapsto> dump (mc_out c))" using run by auto
    then show ?thesis using k by (intro miss) simp_all
  next
    case (Some s)
    then have "parse s = Some v" "hit" "store' = store" using run by (simp_all split: option.splits)
    then show ?thesis using k Some by (intro hit) simp_all
  qed
qed

lemma memo_step_stored:
  assumes "memo_step sha parse dump c store = Inr (res, store')" "stored_by sha dump past store"
  shows "stored_by sha dump (past @ [c]) store'"
proof -
  have old: "stored_by sha dump (past @ [c]) store" by (rule stored_by_mono [OF assms(2)]) auto
  obtain v hit where res: "res = (v, hit)" by fastforce
  from assms(1) [unfolded res] show ?thesis
  proof (cases rule: memo_step_cases)
    case (hit k s)
    then show ?thesis using old by simp
  next
    case (miss k)
    then show ?thesis using old by (auto simp: stored_by_def)
  qed
qed

lemma memo_run_hit:
  "memo_run sha parse dump cs store ! i = Inr (v, True) \<Longrightarrow> i < length cs \<Longrightarrow> stored_by sha dump past store \<Longrightarrow>
   \<exists>c \<in> set (past @ take i cs). \<exists>k k'. call_parts c = Some k \<and> call_parts (cs ! i) = Some k' \<and> sha (payload k) = sha (payload k') \<and>
     parse (dump (mc_out c)) = Some v"
proof (induction cs arbitrary: store i past)
  case (Cons c cs)
  let ?step = "memo_step sha parse dump c store"
  show ?case
  proof (cases i)
    case 0
    then obtain store' where "?step = Inr ((v, True), store')" using Cons.prems(1) by (auto split: sum.splits)
    then show ?thesis
    proof (cases rule: memo_step_cases)
      case (hit k' s)
      from Cons.prems(3) hit(3) obtain c0 k where "c0 \<in> set past" "call_parts c0 = Some k" "sha (payload k') = sha (payload k)" "s = dump (mc_out c0)"
        by (rule stored_byD)
      then show ?thesis using hit 0 by auto
    qed simp
  next
    case (Suc j)
    obtain store' where rest: "memo_run sha parse dump cs store' ! j = Inr (v, True)" "stored_by sha dump (past @ [c]) store'"
    proof (cases ?step)
      case (Inl e)
      have "stored_by sha dump (past @ [c]) store" by (rule stored_by_mono [OF Cons.prems(3)]) auto
      then show ?thesis using Inl Cons.prems Suc that [of store] by simp
    next
      case (Inr r)
      then obtain res store' where r: "?step = Inr (res, store')" by (cases r) auto
      then show ?thesis using Cons.prems Suc that [of store'] memo_step_stored [OF r Cons.prems(3)] by simp
    qed
    have "j < length cs" using Cons.prems(2) Suc by simp
    from Cons.IH [OF rest(1) this rest(2)] show ?thesis using Suc by simp
  qed
qed simp

definition clean_call :: "'a memo_call \<Rightarrow> bool" where
  "clean_call c = (case call_parts c of None \<Rightarrow> True | Some k \<Rightarrow> bar_free k)"

text \<open>C37: the cache serves the same work only. In any sequence of calls that start with an empty cache, a call
  that is answered from the cache gets the output an earlier call produced for the same stage, input,
  prompt, model (a forwarded model carries the mark \<open>fwd1\<close>) and memory watermark; the hash is assumed free of collisions on the keys in use, and the separator may occur in
  the input alone.\<close>

theorem cache_serves_same_work:
  assumes "inj_on sha {payload k |k. Some k \<in> call_parts ` set cs}" "\<And>x. parse (dump x) = Some x" "list_all clean_call cs"
    and "i < length cs" "memo_run sha parse dump cs Map.empty ! i = Inr (v, True)"
  shows "\<exists>c \<in> set (take i cs). mc_out c = v \<and> call_parts c = call_parts (cs ! i)"
proof -
  have "stored_by sha dump [] Map.empty" by (simp add: stored_by_def)
  from memo_run_hit [OF assms(5,4) this] obtain c k k' where c: "c \<in> set (take i cs)" "call_parts c = Some k" "call_parts (cs ! i) = Some k'"
    "sha (payload k) = sha (payload k')" "parse (dump (mc_out c)) = Some v" by auto
  have "c \<in> set cs" using c(1) by (rule in_set_takeD)
  have "cs ! i \<in> set cs" using assms(4) by simp
  have keys: "Some k \<in> call_parts ` set cs" "Some k' \<in> call_parts ` set cs"
    using imageI [OF \<open>c \<in> set cs\<close>, of call_parts] imageI [OF \<open>cs ! i \<in> set cs\<close>, of call_parts] unfolding c(2,3) by simp_all
  have "payload k = payload k'" by (rule inj_onD [OF assms(1) c(4)]) (use keys in blast)+
  moreover have "clean_call c" "clean_call (cs ! i)"
    using assms(3) \<open>c \<in> set cs\<close> \<open>cs ! i \<in> set cs\<close> by (simp_all add: list_all_iff)
  ultimately have "k = k'" using payload_inj [of k k'] c(2,3) by (simp add: clean_call_def)
  then show ?thesis using c assms(2) by auto
qed

definition demo_call :: "string \<Rightarrow> string \<Rightarrow> string memo_call" where
  "demo_call input out = \<lparr>mc_registry = demo_registry, mc_roles = Map.empty, mc_stage = ''plan'', mc_input = input, mc_digest = [],
     mc_watermark = None, mc_out = out\<rparr>"

definition demo_calls :: "string memo_call list" where
  "demo_calls = [demo_call ''a|b'' ''first'', demo_call ''c'' ''second'', demo_call ''a|b'' ''third'']"

lemma demo_parts:
  "call_parts (demo_call input out) = Some \<lparr>kp_stage = ''plan'', kp_input = input, kp_prompt = ''pp'', kp_model = ''m'', kp_upstream = ''none''\<rparr>"
  by (simp add: call_parts_def demo_call_def demo_registry_def resolve_role_model_def STAGE_ROLES_def model_slot_def forwarded_model_def str_or_def)

lemma demo_memo: "memo_run id Some id demo_calls Map.empty = [Inr (''first'', False), Inr (''second'', False), Inr (''first'', True)]"
  by code_simp

lemma cache_serves_same_work_witness:
  "memo_run id Some id demo_calls Map.empty ! 2 = Inr (''first'', True) \<and>
   (\<exists>c \<in> set (take 2 demo_calls). mc_out c = ''first'' \<and> call_parts c = call_parts (demo_calls ! 2))"
proof -
  have "list_all clean_call demo_calls" by (simp add: demo_calls_def clean_call_def demo_parts bar_free_def)
  moreover have "2 < length demo_calls" by (simp add: demo_calls_def)
  moreover have hit: "memo_run id Some id demo_calls Map.empty ! 2 = Inr (''first'', True)" by (simp add: demo_memo)
  ultimately have "\<exists>c \<in> set (take 2 demo_calls). mc_out c = ''first'' \<and> call_parts c = call_parts (demo_calls ! 2)"
    by (intro cache_serves_same_work [of id demo_calls Some id]) auto
  then show ?thesis using hit by blast
qed

section \<open>Questions\<close>

text \<open>The answer that counts: one given before, or the first to arrive.\<close>

definition first_answer :: "question_host \<Rightarrow> (string \<times> string) list \<Rightarrow> string \<Rightarrow> string option" where
  "first_answer q arrivals qid = (case qh_answers q qid of Some a \<Rightarrow> Some a | None \<Rightarrow> map_of arrivals qid)"

definition receive :: "(string \<times> string) list \<Rightarrow> question_host \<Rightarrow> question_host" where
  "receive arrivals q = foldl (\<lambda>q (qid, a). answer_question qid a q) q arrivals"

lemma receive_fields:
  "qh_answers (receive arrivals q) qid = first_answer q arrivals qid \<and>
   qh_asked (receive arrivals q) = qh_asked q \<and> qh_answered (receive arrivals q) = qh_answered q \<and>
   qh_pending_questions (receive arrivals q) = qh_pending_questions q \<and>
   dict_get (gh_pending (qh_gate (receive arrivals q))) k =
     (if k \<in> fst ` set arrivals then None else dict_get (gh_pending (qh_gate q)) k) \<and>
   (gh_pending_activation (qh_gate (receive arrivals q)) k) =
     (if k \<in> fst ` set arrivals then None else gh_pending_activation (qh_gate q) k)"
proof (induction arrivals arbitrary: q)
  case Nil
  then show ?case by (simp add: receive_def first_answer_def split: option.split)
next
  case (Cons x arrivals)
  obtain i a where x: "x = (i, a)" by fastforce
  have step: "receive (x # arrivals) q = receive arrivals (answer_question i a q)" by (simp add: receive_def x)
  show ?case unfolding step
    using Cons.IH [of "answer_question i a q"]
    by (auto simp: x answer_question_def first_answer_def pop_pending_def delete_conv' split: option.splits)
qed

lemma close_pending:
  "dict_get (gh_pending (foldl (\<lambda>h o1. pop_pending (oq_id o1) h) h questions)) k =
     (if k \<in> oq_id ` set questions then None else dict_get (gh_pending h) k) \<and>
   gh_pending_activation (foldl (\<lambda>h o1. pop_pending (oq_id o1) h) h questions) k =
     (if k \<in> oq_id ` set questions then None else gh_pending_activation h k)"
  by (induction questions arbitrary: h) (auto simp: pop_pending_def delete_conv')

lemma collect_answers_get:
  "dict_get (collect_answers q questions acc) k =
     (if k \<in> oq_id ` set questions \<and> qh_answers q k \<noteq> None then qh_answers q k else dict_get acc k)"
  by (induction q questions acc rule: collect_answers.induct) (auto simp: update_conv' split: option.split)

lemma register_pending_get:
  "(k \<notin> pd_key ` set ps \<longrightarrow> dict_get (gh_pending (register_pending act ps h)) k = dict_get (gh_pending h) k \<and>
     gh_pending_activation (register_pending act ps h) k = gh_pending_activation h k) \<and>
   (k \<in> pd_key ` set ps \<longrightarrow> dict_get (gh_pending (register_pending act ps h)) k \<noteq> None)"
proof (induction ps rule: rev_induct)
  case (snoc p ps)
  then show ?case by (auto simp: register_pending_def update_conv')
qed (simp add: register_pending_def)

lemma clarify_keys: "pd_key ` set (clarify_pending questions {} t) = oq_id ` set questions"
  by (force simp: clarify_pending_def)

lemma ask_open_fields:
  "qh_answers (ask_open now act stage questions q) = qh_answers q"
  "qh_answered (ask_open now act stage questions q) = qh_answered q"
  "qh_pending_questions (ask_open now act stage questions q) = map oq_id questions"
  "qh_asked (ask_open now act stage questions q) = qh_asked q @ map (\<lambda>o1. (oq_id o1, oq_question o1)) questions"
  "k \<notin> oq_id ` set questions \<Longrightarrow> dict_get (gh_pending (qh_gate (ask_open now act stage questions q))) k = dict_get (gh_pending (qh_gate q)) k"
  "k \<in> oq_id ` set questions \<Longrightarrow> dict_get (gh_pending (qh_gate (ask_open now act stage questions q))) k \<noteq> None"
  using register_pending_get [where ps = "clarify_pending questions {} (Some now)"]
  by (simp_all add: ask_open_def clarify_keys)

lemma first_answer_open: "first_answer (ask_open now act stage questions q) arrivals = first_answer q arrivals"
  by (rule ext) (simp add: first_answer_def ask_open_fields)

lemma ask_and_wait_eq:
  assumes "questions \<noteq> []"
  shows "ask_and_wait now act stage questions arrivals expired q =
    (let q1 = receive arrivals (ask_open now act stage questions q) in
     if list_all (\<lambda>o1. first_answer q arrivals (oq_id o1) \<noteq> None) questions
     then (Answers (fst (ask_close questions q1)), snd (ask_close questions q1))
     else if expired then (Timeout_Raised, q1) else (Still_Waiting, q1))"
proof -
  have "all_answered questions (receive arrivals (ask_open now act stage questions q)) =
      list_all (\<lambda>o1. first_answer q arrivals (oq_id o1) \<noteq> None) questions"
    unfolding all_answered_def by (simp add: receive_fields first_answer_open)
  then show ?thesis using assms unfolding ask_and_wait_def receive_def [symmetric] by (simp add: Let_def case_prod_unfold)
qed

text \<open>A questionnaire returns the first answers. It returns exactly when every question has an answer, given
  before or after it was asked; then it maps the asked questions, and no other, to the first answer of
  each, every one is recorded as answered by a human, and none stays pending. Answers to
  other questions withdraw those; the rest of the pending decisions is left alone.\<close>

lemma questions_get_first_answers:
  assumes "questions \<noteq> []" "list_all (\<lambda>o1. first_answer q arrivals (oq_id o1) \<noteq> None) questions"
  shows "\<exists>answers q'. ask_and_wait now act stage questions arrivals expired q = (Answers answers, q') \<and>
    dict_get answers = (\<lambda>k. if k \<in> oq_id ` set questions then first_answer q arrivals k else None) \<and>
    qh_answered q' = qh_answered q @ map (\<lambda>o1. (oq_id o1, ''human'')) questions \<and> qh_pending_questions q' = [] \<and>
    (\<forall>k. dict_get (gh_pending (qh_gate q')) k =
       (if k \<in> oq_id ` set questions \<union> fst ` set arrivals then None else dict_get (gh_pending (qh_gate q)) k))"
proof -
  let ?q1 = "receive arrivals (ask_open now act stage questions q)"
  have ans: "qh_answers ?q1 k = first_answer q arrivals k" for k by (simp add: receive_fields first_answer_open)
  have run: "ask_and_wait now act stage questions arrivals expired q = (Answers (fst (ask_close questions ?q1)), snd (ask_close questions ?q1))"
    using assms by (simp add: ask_and_wait_eq Let_def)
  have "dict_get (fst (ask_close questions ?q1)) k = (if k \<in> oq_id ` set questions then first_answer q arrivals k else None)" for k
    by (simp add: ask_close_def Let_def collect_answers_get ans)
  moreover have "map (\<lambda>o1. (oq_id o1, answered_by a ?q1 o1)) questions = map (\<lambda>o1. (oq_id o1, ''human'')) questions" for a
    using assms(2) by (simp add: answered_by_def ans list_all_iff)
  then have "qh_answered (snd (ask_close questions ?q1)) = qh_answered q @ map (\<lambda>o1. (oq_id o1, ''human'')) questions"
    by (simp add: ask_close_def Let_def receive_fields ask_open_fields)
  moreover have "qh_pending_questions (snd (ask_close questions ?q1)) = []" by (simp add: ask_close_def Let_def)
  moreover have "dict_get (gh_pending (qh_gate (snd (ask_close questions ?q1)))) k =
      (if k \<in> oq_id ` set questions \<union> fst ` set arrivals then None else dict_get (gh_pending (qh_gate q)) k)" for k
    by (simp add: ask_close_def Let_def close_pending receive_fields ask_open_fields)
  ultimately show ?thesis using run by blast
qed

definition demo_question :: open_question where
  "demo_question = \<lparr>oq_id = ''q1'', oq_question = ''Which users?'', oq_why_it_matters = ''scope'', oq_suggested_answer = Some ''all''\<rparr>"

definition demo_questions :: question_host where
  "demo_questions = \<lparr>qh_answers = Map.empty, qh_pending_questions = [], qh_asked = [], qh_answered = [], qh_gate = init_host\<rparr>"

text \<open>At the deadline the wait raises: the code that would report an unanswered question is not reached, and the
  questions stay pending, those answered meanwhile excepted.\<close>

lemma deadline_leaves_questions:
  assumes "o1 \<in> set questions" "first_answer q arrivals (oq_id o1) = None"
  shows "\<exists>q'. ask_and_wait now act stage questions arrivals True q = (Timeout_Raised, q') \<and>
    qh_pending_questions q' = map oq_id questions \<and> qh_answered q' = qh_answered q \<and>
    dict_get (gh_pending (qh_gate q')) (oq_id o1) \<noteq> None"
proof -
  let ?q1 = "receive arrivals (ask_open now act stage questions q)"
  have "questions \<noteq> []" using assms(1) by auto
  moreover have "\<not> list_all (\<lambda>o1. first_answer q arrivals (oq_id o1) \<noteq> None) questions"
    using assms by (auto simp: list_all_iff)
  ultimately have run: "ask_and_wait now act stage questions arrivals True q = (Timeout_Raised, ?q1)"
    by (simp add: ask_and_wait_eq Let_def)
  have "map_of arrivals (oq_id o1) = None" using assms(2) by (simp add: first_answer_def split: option.splits)
  then have "oq_id o1 \<notin> fst ` set arrivals" by (simp add: map_of_eq_None_iff)
  moreover have "oq_id o1 \<in> oq_id ` set questions" using assms(1) by simp
  ultimately have "dict_get (gh_pending (qh_gate ?q1)) (oq_id o1) \<noteq> None"
    by (simp only: receive_fields if_False ask_open_fields(6)) simp
  then show ?thesis using run by (simp add: receive_fields ask_open_fields)
qed

end
