(* ===== verification/Code_Stage.thy ===== *)
theory Code_Stage
  imports Merge_Stage Task_Schedule
begin

text \<open>
  The code stage: \<open>stages/code/step.py\<close>, \<open>stages/code/freeze.py\<close>, \<open>stages/code/usage.py\<close>, the issue list of
  \<open>stages/qa/step.py\<close> and the drift statistic of \<open>stages/plan/models.py\<close>. One task is executed, tested and
  reviewed in attempts, with tool calls suspended for a human and a task gate at the end of the budget.
  The harness, the tests, the model reviews and the human are the fields of a world; a prompt is its parts.
\<close>

section \<open>Data\<close>

record tool_grant =
  tg_tool_use_id :: string
  tg_tool :: string
  tg_input_digest :: string
  tg_rule_id :: string
  tg_approved :: bool
  tg_reason :: string

record deferred_tool_use =
  df_tool_use_id :: string
  df_tool :: string
  df_input_digest :: string
  df_rule_id :: string
  df_target :: "string option"

record tool_denial =
  dn_tool :: string
  dn_rule_id :: string
  dn_target :: "string option"
  dn_escalation_declined :: bool

datatype escalation_outcome = EscApproved | EscRejected | EscTimeout | EscCapped | EscBatched

text \<open>\<open>None\<close> is the empty \<open>decided_by\<close>: nobody was asked.\<close>

record tool_escalation =
  te_tool :: string
  te_rule_id :: string
  te_target :: "string option"
  te_outcome :: escalation_outcome
  te_decided_by :: "decided_by option"
  te_round :: nat

record harness_run =
  hr_session_id :: "string option"
  hr_exit_code :: int
  hr_cost_usd :: "pyfloat option"
  hr_commit_sha :: "string option"
  hr_input_tokens :: "int option"
  hr_output_tokens :: "int option"
  hr_context_window :: "int option"
  hr_compacted :: bool
  hr_session_ref :: "string option"
  hr_denials :: "tool_denial list"
  hr_deferred :: "deferred_tool_use option"
  hr_escalations :: "tool_escalation list"
  hr_freeze_vacuous :: bool

text \<open>\<open>input_tokens > 0.75 * context_window\<close>, which is exact for windows below two to the fifty-first.\<close>

definition near_context_ceiling :: "harness_run \<Rightarrow> bool" where
  "near_context_ceiling r \<longleftrightarrow>
     hr_compacted r \<or>
     (case (hr_input_tokens r, hr_context_window r) of (Some t, Some w) \<Rightarrow> w \<noteq> 0 \<and> 3 * w < 4 * t | _ \<Rightarrow> False)"

record qa_report =
  qr_tests_passed :: bool
  qr_failing_tests :: "string list"
  qr_issues :: "string list"
  qr_stack_mismatch :: bool
  qr_stopped_early :: bool

record drift_report =
  dr_available :: bool
  dr_unavailable_reason :: string
  dr_fence_paths :: "string list"
  dr_report_paths :: "string list"
  dr_index_bit_paths :: "string list"
  dr_patch :: string

definition clean_drift :: drift_report where
  "clean_drift = \<lparr>dr_available = True, dr_unavailable_reason = [], dr_fence_paths = [], dr_report_paths = [],
     dr_index_bit_paths = [], dr_patch = []\<rparr>"

definition drift_found :: "drift_report \<Rightarrow> bool" where
  "drift_found r \<longleftrightarrow> dr_fence_paths r \<noteq> [] \<or> dr_report_paths r \<noteq> [] \<or> dr_index_bit_paths r \<noteq> []"

record handoff_summary =
  hs_task_id :: string
  hs_files_touched :: "string list"
  hs_what_changed :: "string list"
  hs_decisions_made :: "string list"
  hs_open_concerns :: "string list"

record code_task =
  kt_id :: string
  kt_title :: string
  kt_files_hint :: "string list"

text \<open>The parts of a prompt that vary; the task, the stack directive and the assertions are in every one.\<close>

datatype code_prompt =
    First_Prompt "string list"
  | Resume_Prompt string
  | Fresh_Prompt bool "string list" string
  | Revise_Prompt string

record exec_request =
  er_prompt :: code_prompt
  er_session_id :: "string option"
  er_grants :: "tool_grant list"
  er_crew_sessions :: "(string, string) dict"
  er_repair :: bool

record exec_out =
  eo_run :: harness_run
  eo_crew_sessions :: "(string, string) dict"
  eo_refs :: "string list"

record code_cfg =
  cc_settings :: gate_settings
  cc_max_fix_attempts :: int
  cc_max_session_resumes :: int
  cc_max_tool_escalations :: int
  cc_max_gate_rounds :: int
  cc_containment_enabled :: bool
  cc_review_enabled :: bool
  cc_adversarial_review_enabled :: bool
  cc_deep_review_enabled :: bool
  cc_reviewer_agent :: bool
  cc_adversary_agent :: bool
  cc_deep_review_agent :: bool
  cc_handoff_agent :: bool
  cc_crew :: bool
  cc_model :: string
  cc_branch :: string
  cc_notes :: "string list"
  cc_drop_generated :: bool
  cc_session_refs :: "string list"

text \<open>
  What the outside answers: to the k-th execution of an attempt, to the checks of an attempt, and to a gate.
  A crew that dies answers \<open>None\<close>; so does a handoff extraction that raises.
\<close>

record code_world =
  cw_activity :: "nat \<Rightarrow> nat \<Rightarrow> exec_request \<Rightarrow> harness_run"
  cw_crew :: "nat \<Rightarrow> nat \<Rightarrow> exec_request \<Rightarrow> exec_out option"
  cw_gate :: human
  cw_drift :: "nat \<Rightarrow> string \<Rightarrow> drift_report"
  cw_tests :: "nat \<Rightarrow> qa_report"
  cw_qa :: "nat \<Rightarrow> qa_report"
  cw_files :: "nat \<Rightarrow> string list"
  cw_review :: "nat \<Rightarrow> review_report option"
  cw_adversary :: "nat \<Rightarrow> review_report option"
  cw_deep :: "nat \<Rightarrow> string option"
  cw_handoff :: "nat \<Rightarrow> (string list \<times> string list \<times> string list) option"
  cw_generated :: "string \<Rightarrow> bool"

datatype code_event =
    Fix_Attempt nat
  | Executed nat exec_request
  | Asked gate_call gate_decision
  | Escalated tool_escalation
  | Thawed nat decided_by
  | Model_Usage string int int "pyfloat option"
  | Code_Recorded nat bool "plan_drift option"
  | Qa_Recorded nat bool
  | Retained string

record code_state =
  ct_prompt :: code_prompt
  ct_session_id :: "string option"
  ct_resumes :: int
  ct_crew_sessions :: "(string, string) dict"
  ct_attempt :: nat
  ct_escalation_round :: nat
  ct_budget :: int
  ct_gate_round :: nat
  ct_anchor :: "string option"
  ct_thawed :: bool
  ct_refs :: "string list"
  ct_log :: "code_event list"

record code_result =
  cr_task_id :: string
  cr_status :: result_status
  cr_attempts :: nat
  cr_branch :: string
  cr_handoff :: "handoff_summary option"
  cr_qa :: qa_report
  cr_review :: "review_report option"
  cr_deep_review :: "string option"
  cr_lens_outcomes :: "lens_outcome list"
  cr_plan_drift :: "plan_drift option"
  cr_notes :: string

definition log_code :: "code_event list \<Rightarrow> code_state \<Rightarrow> code_state" where
  "log_code es st = st\<lparr>ct_log := ct_log st @ es\<rparr>"

section \<open>Plan drift\<close>

definition norm_path :: "string \<Rightarrow> string" where
  "norm_path p = dropWhile (\<lambda>c. c = CHR ''.'' \<or> c = CHR ''/'') (strip (map (\<lambda>c. if c = CHR 0x5C then CHR ''/'' else c) p))"

definition compute_plan_drift :: "(string \<Rightarrow> bool) \<Rightarrow> bool \<Rightarrow> code_task \<Rightarrow> string list \<Rightarrow> plan_drift option" where
  "compute_plan_drift generated drop_generated task files =
     (let touched = (if drop_generated then filter (\<lambda>p. \<not> generated p) files else files) in
      if kt_files_hint task = [] \<or> touched = [] then None
      else let hinted = map norm_path (kt_files_hint task); touched' = map norm_path touched in
        Some \<lparr>pd_files_hinted = int (card (set hinted)), pd_files_touched = int (card (set touched')),
              pd_hinted_untouched = sorted_set (filter (\<lambda>p. p \<notin> set touched') hinted),
              pd_touched_unhinted = sorted_set (filter (\<lambda>p. p \<notin> set hinted) touched')\<rparr>)"

section \<open>Freeze rules\<close>

definition is_repair_attempt :: "nat \<Rightarrow> bool \<Rightarrow> bool" where
  "is_repair_attempt attempt thawed \<longleftrightarrow> 1 < attempt \<and> \<not> thawed"

definition next_anchor :: "string option \<Rightarrow> string option \<Rightarrow> bool \<Rightarrow> string option" where
  "next_anchor cur commit_sha freely_writable =
     (if str_or commit_sha [] \<noteq> [] \<and> freely_writable then commit_sha else cur)"

definition drift_note :: "drift_report \<Rightarrow> string" where
  "drift_note r =
     (if \<not> dr_available r
      then ''TEST-FREEZE BACKSTOP UNAVAILABLE: '' @ dr_unavailable_reason r @ ''. Test drift was NOT checked for this attempt.''
      else if \<not> drift_found r then []
      else str_join [CHR 0x0A]
        ((if dr_index_bit_paths r = [] then [] else
            [''EVASION: the session set skip-worktree/assume-unchanged on protected paths, hiding edits from the diff: '' @
             str_join '', '' (dr_index_bit_paths r)]) @
         (if dr_fence_paths r = [] then [] else
            [''FROZEN TESTS CHANGED during a repair attempt: '' @ str_join '', '' (dr_fence_paths r)]) @
         (if dr_report_paths r = [] then [] else
            [''TEST CONFIGURATION CHANGED during a repair attempt: '' @ str_join '', '' (dr_report_paths r)]) @
         (if dr_patch r = [] then [] else [CHR 0x0A # ''Drift patch:'' @ [CHR 0x0A] @ dr_patch r])))"

section \<open>The issue list\<close>

definition STOPPED_EARLY :: string where
  "STOPPED_EARLY = ''NOTE: the test run STOPPED EARLY (-x / --maxfail), so tests ordered after the failure above did not run. This is a partial result, not a verdict on your work: the failure shown may be unrelated to your task, and your own tests may not have executed. Check whether it is yours before changing it.''"

text \<open>\<open>s[-n:]\<close>.\<close>

definition last_n :: "nat \<Rightarrow> 'a list \<Rightarrow> 'a list" where
  "last_n n s = drop (length s - n) s"

definition test_issues :: "qa_report \<Rightarrow> string list" where
  "test_issues raw =
     (if qr_tests_passed raw then []
      else (if qr_issues raw = [] then []
            else [''test command failed:'' @ [CHR 0x0A] @ last_n 1500 (str_join [CHR 0x0A] (qr_issues raw))]) @
           (if qr_failing_tests raw = [] then [] else [''failing tests: '' @ str_join '', '' (take 25 (qr_failing_tests raw))]) @
           (if qr_stopped_early raw then [STOPPED_EARLY] else []))"

definition findings_of :: "review_report option \<Rightarrow> string list" where
  "findings_of r = (case r of None \<Rightarrow> [] | Some r \<Rightarrow> rr_blocking_findings r)"

definition issue_items :: "qa_report \<Rightarrow> qa_report \<Rightarrow> review_report option \<Rightarrow> review_report option \<Rightarrow> string list" where
  "issue_items qa raw review adversary =
     (if qr_issues qa \<noteq> [] then qr_issues qa else qr_failing_tests qa) @ test_issues raw @ findings_of review @ findings_of adversary"

definition BULLET :: string where
  "BULLET = CHR 0x0A # ''- ''"

definition fix_loop_issues :: "qa_report \<Rightarrow> qa_report \<Rightarrow> review_report option \<Rightarrow> review_report option \<Rightarrow> string" where
  "fix_loop_issues qa raw review adversary = str_join BULLET (issue_items qa raw review adversary)"

section \<open>One execution\<close>

text \<open>A crew that died counts as a failed round.\<close>

definition crew_died :: exec_out where
  "crew_died = \<lparr>eo_run = \<lparr>hr_session_id = None, hr_exit_code = 124, hr_cost_usd = None, hr_commit_sha = None,
       hr_input_tokens = None, hr_output_tokens = None, hr_context_window = None, hr_compacted = False, hr_session_ref = None,
       hr_denials = [], hr_deferred = None, hr_escalations = [], hr_freeze_vacuous = False\<rparr>,
     eo_crew_sessions = [], eo_refs = []\<rparr>"

definition execute_coding_task :: "code_cfg \<Rightarrow> code_world \<Rightarrow> nat \<Rightarrow> nat \<Rightarrow> exec_request \<Rightarrow> exec_out option" where
  "execute_coding_task C W attempt k req =
     (if cc_crew C then cw_crew W attempt k req
      else let r = cw_activity W attempt k req in
        Some \<lparr>eo_run = r, eo_crew_sessions = [], eo_refs = (case hr_session_ref r of None \<Rightarrow> [] | Some ref \<Rightarrow> [ref])\<rparr>)"

definition add_refs :: "string list \<Rightarrow> string list \<Rightarrow> string list" where
  "add_refs old refs = foldl (\<lambda>rs r. if r \<in> set rs then rs else rs @ [r]) old refs"

definition escalations_from_denials :: "tool_denial list \<Rightarrow> tool_escalation list" where
  "escalations_from_denials ds =
     map (\<lambda>d. \<lparr>te_tool = dn_tool d, te_rule_id = dn_rule_id d, te_target = dn_target d, te_outcome = EscBatched,
               te_decided_by = None, te_round = 0\<rparr>) (filter dn_escalation_declined ds)"

definition exec_once ::
    "code_cfg \<Rightarrow> code_world \<Rightarrow> nat \<Rightarrow> tool_grant list \<Rightarrow> code_state \<Rightarrow> harness_run \<times> code_state" where
  "exec_once C W k grants st =
     (let req = \<lparr>er_prompt = ct_prompt st, er_session_id = ct_session_id st, er_grants = grants,
                 er_crew_sessions = ct_crew_sessions st, er_repair = is_repair_attempt (ct_attempt st) (ct_thawed st)\<rparr>;
          out = (case execute_coding_task C W (ct_attempt st) k req of None \<Rightarrow> crew_died | Some out \<Rightarrow> out);
          r = eo_run out
      in (r, log_code (Executed (ct_attempt st) req # map Escalated (hr_escalations r @ escalations_from_denials (hr_denials r)))
               (st\<lparr>ct_crew_sessions := eo_crew_sessions out, ct_refs := add_refs (ct_refs st) (eo_refs out)\<rparr>)))"

section \<open>Suspended tool calls\<close>

definition mk_grant :: "deferred_tool_use \<Rightarrow> bool \<Rightarrow> string \<Rightarrow> tool_grant" where
  "mk_grant d ok reason = \<lparr>tg_tool_use_id = df_tool_use_id d, tg_tool = df_tool d, tg_input_digest = df_input_digest d,
     tg_rule_id = df_rule_id d, tg_approved = ok, tg_reason = reason\<rparr>"

definition mk_escalation :: "deferred_tool_use \<Rightarrow> escalation_outcome \<Rightarrow> decided_by option \<Rightarrow> nat \<Rightarrow> tool_escalation" where
  "mk_escalation d oc who rnd = \<lparr>te_tool = df_tool d, te_rule_id = df_rule_id d, te_target = df_target d, te_outcome = oc,
     te_decided_by = who, te_round = rnd\<rparr>"

definition escalation_summary :: "code_task \<Rightarrow> deferred_tool_use \<Rightarrow> string" where
  "escalation_summary t d =
     ''Task '' @ kt_id t @ '' ('' @ kt_title t @ '') suspended at '' @ df_tool d @ ''('' @
     (case df_target d of None \<Rightarrow> ''None'' | Some x \<Rightarrow> x) @ ''): matched rule '' @ df_rule_id d"

definition tool_call :: "code_cfg \<Rightarrow> code_task \<Rightarrow> deferred_tool_use \<Rightarrow> nat \<Rightarrow> gate_call" where
  "tool_call C t d rnd =
     \<lparr>gl_name = ''tool_approval'', gl_settings = cc_settings C, gl_auto_decision = None, gl_round = int rnd,
      gl_context = Some (empty_context\<lparr>gx_spec_summary := Some (escalation_summary t d)\<rparr>), gl_confidence = None,
      gl_author_model = None, gl_default_policy = Some HARD\<rparr>"

definition outcome_of :: "gate_decision \<Rightarrow> escalation_outcome" where
  "outcome_of dec = (if approved dec then EscApproved else if gd_decided_by dec = ByTimeout then EscTimeout else EscRejected)"

text \<open>
  The executions of one attempt: \<open>asked\<close> counts the gates, \<open>capped\<close> says the refusal of the cap is being
  delivered, \<open>k\<close> numbers the executions.
\<close>

function exec_loop ::
    "code_cfg \<Rightarrow> code_world \<Rightarrow> code_task \<Rightarrow> nat \<Rightarrow> nat \<Rightarrow> bool \<Rightarrow> tool_grant list \<Rightarrow> code_state \<Rightarrow> harness_run \<times> code_state" where
  "exec_loop C W t k asked capped grants st =
     (case exec_once C W k grants st of (r, st1) \<Rightarrow>
        (case hr_deferred r of
           None \<Rightarrow> (r, st1)
         | Some d \<Rightarrow>
             if capped then (r, st1)
             else if cc_max_tool_escalations C \<le> int asked
             then exec_loop C W t (Suc k) asked True [mk_grant d False ''escalation cap reached'']
                    (log_code [Escalated (mk_escalation d EscCapped (Some ByPolicy) 0)] (st1\<lparr>ct_session_id := hr_session_id r\<rparr>))
             else let rnd = Suc (ct_escalation_round st1);
                      c = tool_call C t d rnd;
                      dec = cw_gate W c
               in exec_loop C W t (Suc k) (Suc asked) False [mk_grant d (approved dec) (str_or (gd_comments dec) [])]
                    (log_code [Asked c dec, Escalated (mk_escalation d (outcome_of dec) (Some (gd_decided_by dec)) rnd)]
                       (st1\<lparr>ct_session_id := hr_session_id r, ct_escalation_round := rnd\<rparr>))))"
  by pat_completeness auto
termination
  by (relation "measure (\<lambda>(C, W, t, k, asked, capped, grants, st). if capped then 0 else Suc (nat (cc_max_tool_escalations C - int asked)))")
    auto

declare exec_loop.simps [simp del]

section \<open>One attempt\<close>

text \<open>\<open>thawed\<close> and \<open>anchor\<close> are those of this attempt.\<close>

definition measure_drift :: "code_cfg \<Rightarrow> code_world \<Rightarrow> code_state \<Rightarrow> drift_report" where
  "measure_drift C W st =
     (if cc_containment_enabled C \<and> is_repair_attempt (ct_attempt st) (ct_thawed st)
      then (case ct_anchor st of
              Some anchor \<Rightarrow> cw_drift W (ct_attempt st) anchor
            | None \<Rightarrow> clean_drift\<lparr>dr_available := False,
                dr_unavailable_reason := ''no anchor captured (attempt 1 produced no checkpoint)''\<rparr>)
      else clean_drift)"

text \<open>The classification of a lens; it raises only for a report of a lens that was not reached.\<close>

definition observed_lens :: "string \<Rightarrow> bool \<Rightarrow> bool \<Rightarrow> bool \<Rightarrow> review_report option \<Rightarrow> lens_outcome" where
  "observed_lens lens enabled agent_present reached report =
     (case classify_lens lens enabled agent_present reached report of Inr o1 \<Rightarrow> o1 | Inl e \<Rightarrow> absent_lens lens UNDECLARED_ABSENT e)"

text \<open>The guards of the reviews: disabled, or without an agent, there is no report.\<close>

definition primary_review :: "code_cfg \<Rightarrow> code_world \<Rightarrow> nat \<Rightarrow> review_report option" where
  "primary_review C W n = (if \<not> cc_review_enabled C \<or> \<not> cc_reviewer_agent C then None else cw_review W n)"

definition adversary_review :: "code_cfg \<Rightarrow> code_world \<Rightarrow> nat \<Rightarrow> review_report option" where
  "adversary_review C W n = (if cc_adversarial_review_enabled C \<and> cc_adversary_agent C then cw_adversary W n else None)"

definition run_deep_review :: "code_cfg \<Rightarrow> code_world \<Rightarrow> nat \<Rightarrow> harness_run \<Rightarrow> string option" where
  "run_deep_review C W n r =
     (if cc_deep_review_enabled C \<and> cc_deep_review_agent C \<and> hr_session_ref r \<noteq> None then cw_deep W n else None)"

definition run_handoff :: "code_cfg \<Rightarrow> code_world \<Rightarrow> code_task \<Rightarrow> nat \<Rightarrow> harness_run \<Rightarrow> handoff_summary" where
  "run_handoff C W t n r =
     (let fallback = \<lparr>hs_task_id = kt_id t, hs_files_touched = cw_files W n, hs_what_changed = [], hs_decisions_made = [],
            hs_open_concerns = []\<rparr> in
      if \<not> (cc_handoff_agent C \<and> hr_session_ref r \<noteq> None) then fallback
      else case cw_handoff W n of
        None \<Rightarrow> fallback
      | Some (changed, decisions, concerns) \<Rightarrow>
          fallback\<lparr>hs_what_changed := changed, hs_decisions_made := decisions, hs_open_concerns := concerns\<rparr>)"

record attempt_facts =
  af_run :: harness_run
  af_drift :: drift_report
  af_passed :: bool
  af_plan_drift :: "plan_drift option"
  af_review_outcome :: lens_outcome
  af_adversary :: "review_report option"
  af_adversary_outcome :: lens_outcome

definition int_or_zero :: "int option \<Rightarrow> int" where
  "int_or_zero x = (case x of None \<Rightarrow> 0 | Some n \<Rightarrow> n)"

definition run_attempt :: "code_cfg \<Rightarrow> code_world \<Rightarrow> code_task \<Rightarrow> code_state \<Rightarrow> attempt_facts \<times> code_state" where
  "run_attempt C W t st =
     (let st = log_code [Fix_Attempt (Suc (ct_attempt st))] (st\<lparr>ct_attempt := Suc (ct_attempt st)\<rparr>);
          n = ct_attempt st
      in case exec_loop C W t 0 0 False [] st of (r, st) \<Rightarrow>
        let st = st\<lparr>ct_anchor := next_anchor (ct_anchor st) (hr_commit_sha r) (\<not> is_repair_attempt n (ct_thawed st))\<rparr>;
            drift = measure_drift C W st;
            raw = cw_tests W n; qa = cw_qa W n; review = primary_review C W n;
            passed = (qr_tests_passed raw \<and> qr_issues qa = [] \<and> \<not> drift_found drift);
            pd = compute_plan_drift (cw_generated W) (cc_drop_generated C) t (cw_files W n);
            primary = observed_lens ''reviewer'' (cc_review_enabled C) (cc_reviewer_agent C) True review;
            reached = (passed \<and> primary_admits primary);
            adversary = (if reached then adversary_review C W n else None)
        in (\<lparr>af_run = r, af_drift = drift, af_passed = passed, af_plan_drift = pd, af_review_outcome = primary,
             af_adversary = adversary,
             af_adversary_outcome = observed_lens ''adversary'' (cc_adversarial_review_enabled C) (cc_adversary_agent C) reached adversary\<rparr>,
            log_code [Model_Usage (cc_model C) (int_or_zero (hr_input_tokens r)) (int_or_zero (hr_output_tokens r)) (hr_cost_usd r),
                Code_Recorded (n - 1) passed pd, Qa_Recorded (n - 1) (qr_tests_passed raw \<and> qr_issues qa = [])]
              (st\<lparr>ct_thawed := False\<rparr>)))"

section \<open>Between attempts\<close>

definition should_resume_session :: "qa_report \<Rightarrow> int \<Rightarrow> int \<Rightarrow> bool \<Rightarrow> bool" where
  "should_resume_session qa resumes max_resumes near_ceiling \<longleftrightarrow>
     \<not> qr_stack_mismatch qa \<and> \<not> near_ceiling \<and> resumes < max_resumes"

definition accepted :: "attempt_facts \<Rightarrow> bool" where
  "accepted f \<longleftrightarrow> af_passed f \<and> primary_admits (af_review_outcome f) \<and> backstop_admits (af_adversary_outcome f)"

definition done_result :: "code_cfg \<Rightarrow> code_world \<Rightarrow> code_task \<Rightarrow> attempt_facts \<Rightarrow> nat \<Rightarrow> code_result" where
  "done_result C W t f n =
     \<lparr>cr_task_id = kt_id t, cr_status = RDone, cr_attempts = n, cr_branch = cc_branch C,
      cr_handoff = Some (run_handoff C W t n (af_run f)), cr_qa = cw_tests W n, cr_review = primary_review C W n,
      cr_deep_review = run_deep_review C W n (af_run f), cr_lens_outcomes = [af_review_outcome f, af_adversary_outcome f],
      cr_plan_drift = af_plan_drift f, cr_notes = []\<rparr>"

definition gated_result :: "code_cfg \<Rightarrow> code_world \<Rightarrow> code_task \<Rightarrow> attempt_facts \<Rightarrow> nat \<Rightarrow> gate_decision \<Rightarrow> code_result" where
  "gated_result C W t f n dec =
     \<lparr>cr_task_id = kt_id t, cr_status = (if approved dec then RDone else RQuarantined), cr_attempts = n, cr_branch = cc_branch C,
      cr_handoff = None, cr_qa = cw_tests W n, cr_review = primary_review C W n,
      cr_deep_review = run_deep_review C W n (af_run f), cr_lens_outcomes = [af_review_outcome f, af_adversary_outcome f],
      cr_plan_drift = af_plan_drift f, cr_notes = str_or (gd_comments dec) []\<rparr>"

text \<open>The strings that are not empty.\<close>

definition nonempty :: "string list \<Rightarrow> string list" where
  "nonempty xs = filter (\<lambda>x. x \<noteq> []) xs"

text \<open>The issues of a failed attempt and the budget that is left: drift, or nothing to act on, ends it.\<close>

definition issues_and_budget :: "code_world \<Rightarrow> code_cfg \<Rightarrow> attempt_facts \<Rightarrow> nat \<Rightarrow> int \<Rightarrow> string \<times> int" where
  "issues_and_budget W C f n budget =
     (let issues = (if budget \<le> int n then [] else fix_loop_issues (cw_qa W n) (cw_tests W n) (primary_review C W n) (af_adversary f));
          (issues, budget) = (if drift_found (af_drift f) then (str_join BULLET (nonempty [issues, drift_note (af_drift f)]), int n)
                              else (issues, budget))
      in (issues, if int n < budget \<and> issues = [] then int n else budget))"

definition FREEZE_VACUOUS :: string where
  "FREEZE_VACUOUS = [CHR 0x0A] @ ''NOTE: the test-freeze globs matched 0 files in this repo, so the freeze fenced nothing this attempt (likely an unfamiliar test layout).''"

definition gate_analysis :: "code_cfg \<Rightarrow> code_world \<Rightarrow> attempt_facts \<Rightarrow> nat \<Rightarrow> string" where
  "gate_analysis C W f n =
     str_join [CHR 0x0A] (nonempty [fix_loop_issues (cw_qa W n) (cw_tests W n) (primary_review C W n) None, drift_note (af_drift f)]) @
     (if hr_freeze_vacuous (af_run f) then FREEZE_VACUOUS else [])"

definition task_call :: "code_cfg \<Rightarrow> code_task \<Rightarrow> nat \<Rightarrow> nat \<Rightarrow> string \<Rightarrow> gate_call" where
  "task_call C t rnd n analysis =
     \<lparr>gl_name = ''task:'' @ kt_id t, gl_settings = cc_settings C, gl_auto_decision = None, gl_round = int rnd,
      gl_context = Some (empty_context\<lparr>gx_task_id := Some (kt_id t), gx_analysis := Some analysis, gx_attempts := Some (int n)\<rparr>),
      gl_confidence = None, gl_author_model = None, gl_default_policy = None\<rparr>"

text \<open>The gate at the end of the budget.\<close>

definition escalate_task :: "code_cfg \<Rightarrow> code_world \<Rightarrow> code_task \<Rightarrow> attempt_facts \<Rightarrow> code_state \<Rightarrow> (code_result \<times> code_state) + code_state" where
  "escalate_task C W t f st =
     (let n = ct_attempt st; rnd = Suc (ct_gate_round st);
          c = task_call C t rnd n (gate_analysis C W f n); dec = cw_gate W c;
          st = log_code [Asked c dec] (st\<lparr>ct_gate_round := rnd\<rparr>)
      in if gd_outcome dec = REVISE \<and> int rnd \<le> cc_max_gate_rounds C
         then Inr (log_code (if gd_thaw_tests dec then [Thawed (Suc n) (gd_decided_by dec)] else [])
                (st\<lparr>ct_budget := int n + 1, ct_session_id := None, ct_thawed := gd_thaw_tests dec,
                   ct_prompt := Revise_Prompt (str_or (py_or (gd_guidance dec) (gd_comments dec)) [])\<rparr>))
         else Inl (gated_result C W t f n dec, st))"

definition next_prompt :: "code_cfg \<Rightarrow> code_world \<Rightarrow> attempt_facts \<Rightarrow> string \<Rightarrow> code_state \<Rightarrow> code_state" where
  "next_prompt C W f issues st =
     (let n = ct_attempt st in
      if should_resume_session (cw_qa W n) (ct_resumes st) (cc_max_session_resumes C) (near_context_ceiling (af_run f))
      then st\<lparr>ct_session_id := hr_session_id (af_run f), ct_resumes := ct_resumes st + 1, ct_prompt := Resume_Prompt issues\<rparr>
      else st\<lparr>ct_session_id := None,
              ct_prompt := Fresh_Prompt (qr_stack_mismatch (cw_qa W n)) (take 20 (cw_files W n)) issues\<rparr>)"

definition failed_text :: "code_task \<Rightarrow> nat \<Rightarrow> string \<Rightarrow> string" where
  "failed_text t n issues = ''task '' @ kt_id t @ '' ('' @ kt_title t @ '') attempt '' @ nat_str n @ '' failed: '' @ issues"

definition attempt_step :: "code_cfg \<Rightarrow> code_world \<Rightarrow> code_task \<Rightarrow> code_state \<Rightarrow> (code_result \<times> code_state) + code_state" where
  "attempt_step C W t st =
     (case run_attempt C W t st of (f, st) \<Rightarrow>
        let n = ct_attempt st in
        if accepted f then Inl (done_result C W t f n, st)
        else case issues_and_budget W C f n (ct_budget st) of (issues, budget) \<Rightarrow>
          let st = st\<lparr>ct_budget := budget\<rparr> in
          if budget \<le> int n then escalate_task C W t f st
          else Inr (next_prompt C W f issues (log_code [Retained (failed_text t n issues)] st)))"

section \<open>The fix loop\<close>

lemma log_code_sel [simp]:
  "ct_attempt (log_code es st) = ct_attempt st" "ct_budget (log_code es st) = ct_budget st"
  "ct_gate_round (log_code es st) = ct_gate_round st" "ct_log (log_code es st) = ct_log st @ es"
  "ct_resumes (log_code es st) = ct_resumes st" "ct_escalation_round (log_code es st) = ct_escalation_round st"
  "ct_anchor (log_code es st) = ct_anchor st" "ct_thawed (log_code es st) = ct_thawed st"
  "ct_session_id (log_code es st) = ct_session_id st" "ct_prompt (log_code es st) = ct_prompt st"
  "ct_crew_sessions (log_code es st) = ct_crew_sessions st" "ct_refs (log_code es st) = ct_refs st"
  by (simp_all add: log_code_def)

lemma exec_once_sel:
  assumes "exec_once C W k grants st = (r, st')"
  shows "ct_attempt st' = ct_attempt st" "ct_budget st' = ct_budget st" "ct_gate_round st' = ct_gate_round st"
    "ct_resumes st' = ct_resumes st" "ct_escalation_round st' = ct_escalation_round st" "ct_anchor st' = ct_anchor st"
    "ct_thawed st' = ct_thawed st" "ct_session_id st' = ct_session_id st" "ct_prompt st' = ct_prompt st"
  using assms by (auto simp: exec_once_def Let_def)

text \<open>The state in which an execution goes on after the cap, and after a gate.\<close>

definition capped_state :: "deferred_tool_use \<Rightarrow> harness_run \<Rightarrow> code_state \<Rightarrow> code_state" where
  "capped_state d r st = log_code [Escalated (mk_escalation d EscCapped (Some ByPolicy) 0)] (st\<lparr>ct_session_id := hr_session_id r\<rparr>)"

definition asked_state :: "code_cfg \<Rightarrow> code_world \<Rightarrow> code_task \<Rightarrow> deferred_tool_use \<Rightarrow> harness_run \<Rightarrow> code_state \<Rightarrow> code_state" where
  "asked_state C W t d r st =
     (let rnd = Suc (ct_escalation_round st); c = tool_call C t d rnd; dec = cw_gate W c in
      log_code [Asked c dec, Escalated (mk_escalation d (outcome_of dec) (Some (gd_decided_by dec)) rnd)]
        (st\<lparr>ct_session_id := hr_session_id r, ct_escalation_round := rnd\<rparr>))"

definition asked_grant :: "code_cfg \<Rightarrow> code_world \<Rightarrow> code_task \<Rightarrow> deferred_tool_use \<Rightarrow> code_state \<Rightarrow> tool_grant" where
  "asked_grant C W t d st =
     (let dec = cw_gate W (tool_call C t d (Suc (ct_escalation_round st))) in mk_grant d (approved dec) (str_or (gd_comments dec) []))"

lemma exec_loop_unfold:
  assumes "exec_once C W k grants st = (r1, st1)"
  shows "exec_loop C W t k asked capped grants st =
    (case hr_deferred r1 of
       None \<Rightarrow> (r1, st1)
     | Some d \<Rightarrow>
         if capped then (r1, st1)
         else if cc_max_tool_escalations C \<le> int asked
         then exec_loop C W t (Suc k) asked True [mk_grant d False ''escalation cap reached''] (capped_state d r1 st1)
         else exec_loop C W t (Suc k) (Suc asked) False [asked_grant C W t d st1] (asked_state C W t d r1 st1))"
  unfolding exec_loop.simps [of C W t k] assms prod.case capped_state_def asked_state_def asked_grant_def Let_def by (rule refl)

lemma exec_loop_induct [consumes 1, case_names stop cap ask]:
  assumes run: "exec_loop C W t k asked capped grants st = (r, st')"
    and stop: "\<And>k asked capped grants st r st1. exec_once C W k grants st = (r, st1) \<Longrightarrow> hr_deferred r = None \<or> capped \<Longrightarrow>
      P k asked capped grants st r st1"
    and cap: "\<And>k asked grants st r1 st1 d r st'. exec_once C W k grants st = (r1, st1) \<Longrightarrow> hr_deferred r1 = Some d \<Longrightarrow>
      cc_max_tool_escalations C \<le> int asked \<Longrightarrow>
      P (Suc k) asked True [mk_grant d False ''escalation cap reached''] (capped_state d r1 st1) r st' \<Longrightarrow>
      P k asked False grants st r st'"
    and ask: "\<And>k asked grants st r1 st1 d r st'. exec_once C W k grants st = (r1, st1) \<Longrightarrow> hr_deferred r1 = Some d \<Longrightarrow>
      int asked < cc_max_tool_escalations C \<Longrightarrow>
      P (Suc k) (Suc asked) False [asked_grant C W t d st1] (asked_state C W t d r1 st1) r st' \<Longrightarrow>
      P k asked False grants st r st'"
  shows "P k asked capped grants st r st'"
  using run
proof (induction "if capped then 0 else Suc (nat (cc_max_tool_escalations C - int asked))" arbitrary: k asked capped grants st rule: less_induct)
  case less
  obtain r1 st1 where once: "exec_once C W k grants st = (r1, st1)" by fastforce
  note run = less.prems [unfolded exec_loop_unfold [OF once]]
  show ?case
  proof (cases "hr_deferred r1 = None \<or> capped")
    case True
    then have "(r1, st1) = (r, st')" using run by (auto split: option.splits)
    then show ?thesis using stop once True by auto
  next
    case False
    then obtain d where d: "hr_deferred r1 = Some d" "\<not> capped" by auto
    show ?thesis
    proof (cases "cc_max_tool_escalations C \<le> int asked")
      case True
      then have "exec_loop C W t (Suc k) asked True [mk_grant d False ''escalation cap reached''] (capped_state d r1 st1) = (r, st')"
        using run d by simp
      then show ?thesis using less.hyps d cap [OF once d(1) True] by simp
    next
      case False
      then have "exec_loop C W t (Suc k) (Suc asked) False [asked_grant C W t d st1] (asked_state C W t d r1 st1) = (r, st')"
        using run d by simp
      then show ?thesis using less.hyps d False ask [OF once d(1)] by simp
    qed
  qed
qed

lemma capped_state_sel [simp]:
  "ct_attempt (capped_state d r st) = ct_attempt st" "ct_budget (capped_state d r st) = ct_budget st"
  "ct_gate_round (capped_state d r st) = ct_gate_round st" "ct_resumes (capped_state d r st) = ct_resumes st"
  "ct_escalation_round (capped_state d r st) = ct_escalation_round st" "ct_anchor (capped_state d r st) = ct_anchor st"
  "ct_thawed (capped_state d r st) = ct_thawed st" "ct_prompt (capped_state d r st) = ct_prompt st"
  by (simp_all add: capped_state_def)

lemma asked_state_sel [simp]:
  "ct_attempt (asked_state C W t d r st) = ct_attempt st" "ct_budget (asked_state C W t d r st) = ct_budget st"
  "ct_gate_round (asked_state C W t d r st) = ct_gate_round st" "ct_resumes (asked_state C W t d r st) = ct_resumes st"
  "ct_escalation_round (asked_state C W t d r st) = Suc (ct_escalation_round st)" "ct_anchor (asked_state C W t d r st) = ct_anchor st"
  "ct_thawed (asked_state C W t d r st) = ct_thawed st" "ct_prompt (asked_state C W t d r st) = ct_prompt st"
  by (simp_all add: asked_state_def Let_def)

lemma exec_loop_sel:
  assumes "exec_loop C W t k asked capped grants st = (r, st')"
  shows "ct_attempt st' = ct_attempt st \<and> ct_budget st' = ct_budget st \<and> ct_gate_round st' = ct_gate_round st \<and>
    ct_resumes st' = ct_resumes st \<and> ct_anchor st' = ct_anchor st \<and> ct_thawed st' = ct_thawed st \<and> ct_prompt st' = ct_prompt st"
  using assms
proof (induction rule: exec_loop_induct)
  case (stop k asked capped grants st r st1)
  show ?case using exec_once_sel [OF stop(1)] by simp
next
  case (cap k asked grants st r1 st1 d r st')
  show ?case using exec_once_sel [OF cap(1)] cap(4) by simp
next
  case (ask k asked grants st r1 st1 d r st')
  show ?case using exec_once_sel [OF ask(1)] ask(4) by simp
qed

definition begin_attempt :: "code_state \<Rightarrow> code_state" where
  "begin_attempt st = log_code [Fix_Attempt (Suc (ct_attempt st))] (st\<lparr>ct_attempt := Suc (ct_attempt st)\<rparr>)"

definition end_attempt :: "code_state \<Rightarrow> harness_run \<Rightarrow> code_state" where
  "end_attempt st r = st\<lparr>ct_anchor := next_anchor (ct_anchor st) (hr_commit_sha r) (\<not> is_repair_attempt (ct_attempt st) (ct_thawed st))\<rparr>"

definition attempt_events :: "code_cfg \<Rightarrow> code_world \<Rightarrow> nat \<Rightarrow> attempt_facts \<Rightarrow> code_event list" where
  "attempt_events C W n f =
     [Model_Usage (cc_model C) (int_or_zero (hr_input_tokens (af_run f))) (int_or_zero (hr_output_tokens (af_run f))) (hr_cost_usd (af_run f)),
      Code_Recorded (n - 1) (af_passed f) (af_plan_drift f), Qa_Recorded (n - 1) (qr_tests_passed (cw_tests W n) \<and> qr_issues (cw_qa W n) = [])]"

lemma begin_attempt_sel [simp]:
  "ct_attempt (begin_attempt st) = Suc (ct_attempt st)" "ct_budget (begin_attempt st) = ct_budget st"
  "ct_gate_round (begin_attempt st) = ct_gate_round st" "ct_resumes (begin_attempt st) = ct_resumes st"
  "ct_escalation_round (begin_attempt st) = ct_escalation_round st" "ct_anchor (begin_attempt st) = ct_anchor st"
  "ct_thawed (begin_attempt st) = ct_thawed st" "ct_prompt (begin_attempt st) = ct_prompt st"
  "ct_log (begin_attempt st) = ct_log st @ [Fix_Attempt (Suc (ct_attempt st))]"
  by (simp_all add: begin_attempt_def)

lemma run_attemptE:
  assumes "run_attempt C W t st = (f, st')"
  obtains st1 where "exec_loop C W t 0 0 False [] (begin_attempt st) = (af_run f, st1)"
    and "st' = log_code (attempt_events C W (Suc (ct_attempt st)) f) ((end_attempt st1 (af_run f))\<lparr>ct_thawed := False\<rparr>)"
    and "af_drift f = measure_drift C W (end_attempt st1 (af_run f))"
    and "af_passed f = (qr_tests_passed (cw_tests W (Suc (ct_attempt st))) \<and> qr_issues (cw_qa W (Suc (ct_attempt st))) = [] \<and> \<not> drift_found (af_drift f))"
    and "af_review_outcome f = observed_lens ''reviewer'' (cc_review_enabled C) (cc_reviewer_agent C) True (primary_review C W (Suc (ct_attempt st)))"
    and "af_adversary_outcome f = observed_lens ''adversary'' (cc_adversarial_review_enabled C) (cc_adversary_agent C)
      (af_passed f \<and> primary_admits (af_review_outcome f)) (af_adversary f)"
    and "af_adversary f = (if af_passed f \<and> primary_admits (af_review_outcome f) then adversary_review C W (Suc (ct_attempt st)) else None)"
proof -
  obtain r st1 where loop: "exec_loop C W t 0 0 False [] (begin_attempt st) = (r, st1)" by fastforce
  have attempt: "ct_attempt st1 = Suc (ct_attempt st)" using exec_loop_sel [OF loop] by simp
  have eq: "run_attempt C W t st = (f, st')" by (rule assms)
  show thesis
    by (rule that [of st1]; use eq attempt loop in
      \<open>auto simp: run_attempt_def begin_attempt_def [symmetric] end_attempt_def attempt_events_def Let_def\<close>)
qed

lemma run_attempt_sel:
  assumes "run_attempt C W t st = (f, st')"
  shows "ct_attempt st' = Suc (ct_attempt st)" "ct_budget st' = ct_budget st" "ct_gate_round st' = ct_gate_round st"
    "ct_resumes st' = ct_resumes st" "\<not> ct_thawed st'"
proof -
  from assms obtain st1 where "exec_loop C W t 0 0 False [] (begin_attempt st) = (af_run f, st1)"
    "st' = log_code (attempt_events C W (Suc (ct_attempt st)) f) ((end_attempt st1 (af_run f))\<lparr>ct_thawed := False\<rparr>)"
    by (rule run_attemptE)
  then show "ct_attempt st' = Suc (ct_attempt st)" "ct_budget st' = ct_budget st" "ct_gate_round st' = ct_gate_round st"
    "ct_resumes st' = ct_resumes st" "\<not> ct_thawed st'"
    using exec_loop_sel [of C W t 0 0 False "[]" "begin_attempt st" "af_run f" st1] by (simp_all add: end_attempt_def)
qed

text \<open>Every attempt that goes on either keeps the gate round and stays below an unchanged budget, or spends a gate
  round and gets one attempt more.\<close>

lemma issues_and_budget_cases:
  assumes "issues_and_budget W C f n b = (issues, b')"
  shows "b' = b \<or> b' = int n"
  using assms by (auto simp: issues_and_budget_def Let_def split: if_splits)

lemma attempt_step_Inr:
  assumes "attempt_step C W t st = Inr st'"
  shows "ct_attempt st' = Suc (ct_attempt st)"
    and "(ct_gate_round st' = ct_gate_round st \<and> ct_budget st' = ct_budget st \<and> int (ct_attempt st') < ct_budget st \<and> \<not> ct_thawed st') \<or>
      (ct_gate_round st' = Suc (ct_gate_round st) \<and> int (ct_gate_round st') \<le> cc_max_gate_rounds C \<and> ct_budget st' = int (ct_attempt st') + 1)"
proof -
  obtain f st1 where att: "run_attempt C W t st = (f, st1)" by fastforce
  obtain issues b where ib: "issues_and_budget W C f (ct_attempt st1) (ct_budget st1) = (issues, b)" by fastforce
  note sel = run_attempt_sel [OF att]
  have na: "\<not> accepted f" using assms att by (auto simp: attempt_step_def Let_def)
  note step = assms [unfolded attempt_step_def att prod.case Let_def ib if_not_P [OF na]]
  have "ct_attempt st' = Suc (ct_attempt st) \<and>
     ((ct_gate_round st' = ct_gate_round st \<and> ct_budget st' = ct_budget st \<and> int (ct_attempt st') < ct_budget st \<and> \<not> ct_thawed st') \<or>
      (ct_gate_round st' = Suc (ct_gate_round st) \<and> int (ct_gate_round st') \<le> cc_max_gate_rounds C \<and> ct_budget st' = int (ct_attempt st') + 1))"
  proof (cases "b \<le> int (ct_attempt st1)")
    case True
    then show ?thesis using step sel by (auto simp: escalate_task_def Let_def split: if_splits)
  next
    case False
    then have "b = ct_budget st1" using issues_and_budget_cases [OF ib] by auto
    then show ?thesis using False step sel by (auto simp: next_prompt_def Let_def split: if_splits)
  qed
  then show "ct_attempt st' = Suc (ct_attempt st)" and
    "(ct_gate_round st' = ct_gate_round st \<and> ct_budget st' = ct_budget st \<and> int (ct_attempt st') < ct_budget st \<and> \<not> ct_thawed st') \<or>
      (ct_gate_round st' = Suc (ct_gate_round st) \<and> int (ct_gate_round st') \<le> cc_max_gate_rounds C \<and> ct_budget st' = int (ct_attempt st') + 1)"
    by blast+
qed

function code_loop :: "code_cfg \<Rightarrow> code_world \<Rightarrow> code_task \<Rightarrow> code_state \<Rightarrow> code_result \<times> code_state" where
  "code_loop C W t st = (case attempt_step C W t st of Inl res \<Rightarrow> res | Inr st' \<Rightarrow> code_loop C W t st')"
  by pat_completeness auto
termination
proof (relation "measures [\<lambda>(C, W, t, st). nat (cc_max_gate_rounds C - int (ct_gate_round st)), \<lambda>(C, W, t, st). nat (ct_budget st - int (ct_attempt st))]")
  fix C W t st st'
  assume "attempt_step C W t st = Inr st'"
  from attempt_step_Inr [OF this]
  show "((C, W, t, st'), (C, W, t, st)) \<in> measures [\<lambda>(C, W, t, st). nat (cc_max_gate_rounds C - int (ct_gate_round st)),
      \<lambda>(C, W, t, st). nat (ct_budget st - int (ct_attempt st))]"
    by auto
qed simp

declare code_loop.simps [simp del]

definition init_code :: "code_cfg \<Rightarrow> code_state" where
  "init_code C = \<lparr>ct_prompt = First_Prompt (cc_notes C), ct_session_id = None, ct_resumes = 0, ct_crew_sessions = [], ct_attempt = 0,
     ct_escalation_round = 0, ct_budget = cc_max_fix_attempts C + 1, ct_gate_round = 0, ct_anchor = None, ct_thawed = False,
     ct_refs = cc_session_refs C, ct_log = []\<rparr>"

definition code_step :: "code_cfg \<Rightarrow> code_world \<Rightarrow> code_task \<Rightarrow> code_result \<times> code_state" where
  "code_step C W t = code_loop C W t (init_code C)"

end
