(* ===== verification/Code_Properties.thy ===== *)
theory Code_Properties
  imports Code_Stage
begin

text \<open>
  What the code stage promises for one task: it ends within its budgets, a task is done only on green evidence
  or by the word of the task gate, tests are writable in the first and in thawed attempts only, and no tool
  call is granted that was not put to its gate.
\<close>

section \<open>The states between attempts\<close>

inductive code_head :: "code_cfg \<Rightarrow> code_world \<Rightarrow> code_task \<Rightarrow> code_state \<Rightarrow> bool" for C W t where
  head_init: "code_head C W t (init_code C)"
| head_next: "code_head C W t st \<Longrightarrow> attempt_step C W t st = Inr st' \<Longrightarrow> code_head C W t st'"

lemma code_loop_final:
  "code_loop C W t st = res \<Longrightarrow> code_head C W t st \<Longrightarrow> \<exists>st1. code_head C W t st1 \<and> attempt_step C W t st1 = Inl res"
proof (induction C W t st rule: code_loop.induct)
  case (1 C W t st)
  show ?case
  proof (cases "attempt_step C W t st")
    case (Inl r)
    then show ?thesis using "1.prems" by (auto simp: code_loop.simps [of C W t st])
  next
    case (Inr st')
    then show ?thesis using "1.IH" "1.prems" head_next by (simp add: code_loop.simps [of C W t st])
  qed
qed

lemma code_step_final:
  assumes "code_step C W t = (r, st')"
  obtains st where "code_head C W t st" "attempt_step C W t st = Inl (r, st')"
  using code_loop_final [OF assms [unfolded code_step_def] head_init] by blast

text \<open>An attempt that ends the stage is accepted, or goes to the gate.\<close>

lemma attempt_step_Inl:
  assumes "attempt_step C W t st = Inl (r, st')"
  obtains (accept) f where "run_attempt C W t st = (f, st')" "accepted f" "r = done_result C W t f (Suc (ct_attempt st))"
  | (gate) f st1 b where "run_attempt C W t st = (f, st1)" "\<not> accepted f"
      "escalate_task C W t f (st1\<lparr>ct_budget := b\<rparr>) = Inl (r, st')"
proof -
  obtain f st1 where att: "run_attempt C W t st = (f, st1)" by fastforce
  obtain issues b where ib: "issues_and_budget W C f (ct_attempt st1) (ct_budget st1) = (issues, b)" by fastforce
  note sel = run_attempt_sel [OF att]
  show thesis
  proof (cases "accepted f")
    case True
    then show ?thesis using assms att sel accept by (simp add: attempt_step_def Let_def)
  next
    case False
    then show ?thesis using assms [unfolded attempt_step_def att prod.case Let_def ib if_not_P [OF False]] att gate
      by (simp split: if_splits)
  qed
qed

lemma escalate_Inl:
  assumes "escalate_task C W t f st = Inl (r, st')"
  obtains c dec where "c = task_call C t (Suc (ct_gate_round st)) (ct_attempt st) (gate_analysis C W f (ct_attempt st))"
    "dec = cw_gate W c" "\<not> (gd_outcome dec = REVISE \<and> int (Suc (ct_gate_round st)) \<le> cc_max_gate_rounds C)"
    "r = gated_result C W t f (ct_attempt st) dec" "st' = log_code [Asked c dec] (st\<lparr>ct_gate_round := Suc (ct_gate_round st)\<rparr>)"
proof -
  let ?c = "task_call C t (Suc (ct_gate_round st)) (ct_attempt st) (gate_analysis C W f (ct_attempt st))"
  show thesis
    by (rule that [of ?c "cw_gate W ?c"]; use assms in \<open>simp add: escalate_task_def Let_def split: if_splits\<close>)
qed

section \<open>Bounds\<close>

definition bounded_head :: "code_cfg \<Rightarrow> code_state \<Rightarrow> bool" where
  "bounded_head C st \<longleftrightarrow>
     int (ct_attempt st) < max 1 (ct_budget st) \<and> ct_budget st \<le> max 1 (cc_max_fix_attempts C + 1) + int (ct_gate_round st) \<and>
     int (ct_gate_round st) \<le> max 0 (cc_max_gate_rounds C) \<and> ct_resumes st \<le> max 0 (cc_max_session_resumes C)"

lemma attempt_step_resumes:
  assumes "attempt_step C W t st = Inr st'" "ct_resumes st \<le> max 0 (cc_max_session_resumes C)"
  shows "ct_resumes st' \<le> max 0 (cc_max_session_resumes C)"
proof -
  obtain f st1 where att: "run_attempt C W t st = (f, st1)" by fastforce
  obtain issues b where ib: "issues_and_budget W C f (ct_attempt st1) (ct_budget st1) = (issues, b)" by fastforce
  note sel = run_attempt_sel [OF att]
  have na: "\<not> accepted f" using assms att by (auto simp: attempt_step_def Let_def)
  show ?thesis
    using assms(1) [unfolded attempt_step_def att prod.case Let_def ib if_not_P [OF na]] assms(2) sel
    by (auto simp: escalate_task_def next_prompt_def should_resume_session_def Let_def split: if_splits)
qed

lemma bounded_heads: "code_head C W t st \<Longrightarrow> bounded_head C st"
proof (induction rule: code_head.induct)
  case head_init
  show ?case by (auto simp: bounded_head_def init_code_def)
next
  case (head_next st st')
  show ?case
    using attempt_step_Inr [OF head_next(2)] attempt_step_resumes [OF head_next(2)] head_next.IH
    unfolding bounded_head_def by auto
qed

section \<open>The log\<close>

definition attempts_of :: "code_event list \<Rightarrow> nat list" where
  "attempts_of es = concat (map (\<lambda>e. case e of Fix_Attempt n \<Rightarrow> [n] | _ \<Rightarrow> []) es)"

definition asked_rounds :: "string \<Rightarrow> code_event list \<Rightarrow> int list" where
  "asked_rounds name es = concat (map (\<lambda>e. case e of Asked c dec \<Rightarrow> if gl_name c = name then [gl_round c] else [] | _ \<Rightarrow> []) es)"

definition executions :: "nat \<Rightarrow> code_event list \<Rightarrow> nat" where
  "executions n es = length (filter (\<lambda>e. case e of Executed m req \<Rightarrow> m = n | _ \<Rightarrow> False) es)"

lemma log_append [simp]:
  "attempts_of (xs @ ys) = attempts_of xs @ attempts_of ys" "attempts_of [] = []"
  "asked_rounds name (xs @ ys) = asked_rounds name xs @ asked_rounds name ys" "asked_rounds name [] = []"
  "executions n (xs @ ys) = executions n xs + executions n ys" "executions n [] = 0"
  by (simp_all add: attempts_of_def asked_rounds_def executions_def)

lemma log_Cons [simp]:
  "attempts_of (e # es) = (case e of Fix_Attempt n \<Rightarrow> [n] | _ \<Rightarrow> []) @ attempts_of es"
  "asked_rounds name (e # es) = (case e of Asked c dec \<Rightarrow> if gl_name c = name then [gl_round c] else [] | _ \<Rightarrow> []) @ asked_rounds name es"
  "executions n (e # es) = (case e of Executed m req \<Rightarrow> if m = n then 1 else 0 | _ \<Rightarrow> 0) + executions n es"
  by (simp_all add: attempts_of_def asked_rounds_def executions_def split: code_event.split)

lemma log_Escalated [simp]:
  "attempts_of (map Escalated xs) = []" "asked_rounds name (map Escalated xs) = []" "executions n (map Escalated xs) = 0"
  by (induction xs) simp_all

text \<open>What an execution of attempt \<open>n\<close> can log.\<close>

definition exec_event :: "code_cfg \<Rightarrow> code_world \<Rightarrow> code_task \<Rightarrow> nat \<Rightarrow> bool \<Rightarrow> code_event \<Rightarrow> bool" where
  "exec_event C W t n rep e \<longleftrightarrow>
     (case e of
        Executed m req \<Rightarrow> m = n \<and> er_repair req = rep
      | Asked c dec \<Rightarrow> dec = cw_gate W c \<and> (\<exists>d rnd. c = tool_call C t d rnd)
      | Escalated esc \<Rightarrow> True
      | _ \<Rightarrow> False)"

lemma exec_once_log:
  assumes "exec_once C W k grants st = (r, st')"
  obtains req xs where "ct_log st' = ct_log st @ Executed (ct_attempt st) req # map Escalated xs" "er_grants req = grants"
    "er_repair req = is_repair_attempt (ct_attempt st) (ct_thawed st)"
    "r = eo_run (case execute_coding_task C W (ct_attempt st) k req of None \<Rightarrow> crew_died | Some out \<Rightarrow> out)"
proof -
  let ?req = "\<lparr>er_prompt = ct_prompt st, er_session_id = ct_session_id st, er_grants = grants,
      er_crew_sessions = ct_crew_sessions st, er_repair = is_repair_attempt (ct_attempt st) (ct_thawed st)\<rparr>"
  show thesis
    by (rule that [of ?req "hr_escalations r @ escalations_from_denials (hr_denials r)"])
      (use assms in \<open>auto simp: exec_once_def Let_def\<close>)
qed

lemma tool_call_sel [simp]: "gl_name (tool_call C t d n) = ''tool_approval''" "gl_round (tool_call C t d n) = int n"
  by (simp_all add: tool_call_def)

lemma task_call_sel [simp]: "gl_name (task_call C t rnd n a) = ''task:'' @ kt_id t" "gl_round (task_call C t rnd n a) = int rnd"
  by (simp_all add: task_call_def)

definition exec_log :: "code_cfg \<Rightarrow> code_world \<Rightarrow> code_task \<Rightarrow> code_state \<Rightarrow> code_state \<Rightarrow> nat \<Rightarrow> code_event list \<Rightarrow> bool" where
  "exec_log C W t st st' b es \<longleftrightarrow>
     ct_log st' = ct_log st @ es \<and> list_all (exec_event C W t (ct_attempt st) (is_repair_attempt (ct_attempt st) (ct_thawed st))) es \<and>
     asked_rounds ''tool_approval'' es = map int [Suc (ct_escalation_round st)..<Suc (ct_escalation_round st')] \<and>
     ct_escalation_round st \<le> ct_escalation_round st' \<and> executions (ct_attempt st) es \<le> b"

lemma exec_log_step:
  assumes "exec_log C W t st1 st' b es" "ct_log st1 = ct_log st @ xs" "ct_attempt st1 = ct_attempt st" "ct_thawed st1 = ct_thawed st"
    and "list_all (exec_event C W t (ct_attempt st) (is_repair_attempt (ct_attempt st) (ct_thawed st))) xs"
    and "asked_rounds ''tool_approval'' xs = map int [Suc (ct_escalation_round st)..<Suc (ct_escalation_round st1)]"
    and "ct_escalation_round st \<le> ct_escalation_round st1" "executions (ct_attempt st) xs \<le> 1"
  shows "exec_log C W t st st' (Suc b) (xs @ es)"
proof -
  have "[Suc (ct_escalation_round st)..<Suc (ct_escalation_round st1)] @ [Suc (ct_escalation_round st1)..<Suc (ct_escalation_round st')] =
      [Suc (ct_escalation_round st)..<Suc (ct_escalation_round st')]"
    using assms(1,7) upt_add_eq_append [of "Suc (ct_escalation_round st)" "Suc (ct_escalation_round st1)" "ct_escalation_round st' - ct_escalation_round st1"]
    by (simp add: exec_log_def del: upt_Suc)
  then show ?thesis
    using assms unfolding exec_log_def by (simp del: upt_Suc flip: map_append)
qed

lemma exec_loop_log:
  assumes "exec_loop C W t k asked capped grants st = (r, st')"
  shows "\<exists>es. exec_log C W t st st' (if capped then 1 else nat (cc_max_tool_escalations C - int asked) + 2) es"
  using assms
proof (induction rule: exec_loop_induct)
  case (stop k asked capped grants st r st1)
  from stop(1) obtain req xs where "ct_log st1 = ct_log st @ Executed (ct_attempt st) req # map Escalated xs"
    "er_repair req = is_repair_attempt (ct_attempt st) (ct_thawed st)" by (rule exec_once_log)
  then have "exec_log C W t st st1 (if capped then 1 else nat (cc_max_tool_escalations C - int asked) + 2) (Executed (ct_attempt st) req # map Escalated xs)"
    using exec_once_sel [OF stop(1)] by (simp add: exec_log_def exec_event_def list_all_iff)
  then show ?case ..
next
  case (cap k asked grants st r1 st1 d r st')
  from cap(1) obtain req xs where log: "ct_log st1 = ct_log st @ Executed (ct_attempt st) req # map Escalated xs"
    "er_repair req = is_repair_attempt (ct_attempt st) (ct_thawed st)" by (rule exec_once_log)
  obtain es where es: "exec_log C W t (capped_state d r1 st1) st' 1 es" using cap(4) by auto
  let ?xs = "Executed (ct_attempt st) req # map Escalated (xs @ [mk_escalation d EscCapped (Some ByPolicy) 0])"
  have "exec_log C W t st st' (Suc 1) (?xs @ es)"
    by (rule exec_log_step [OF es]) (use log exec_once_sel [OF cap(1)] in \<open>simp_all add: capped_state_def exec_event_def list_all_iff\<close>)
  then show ?case using cap(3) by auto
next
  case (ask k asked grants st r1 st1 d r st')
  from ask(1) obtain req xs where log: "ct_log st1 = ct_log st @ Executed (ct_attempt st) req # map Escalated xs"
    "er_repair req = is_repair_attempt (ct_attempt st) (ct_thawed st)" by (rule exec_once_log)
  obtain es where es: "exec_log C W t (asked_state C W t d r1 st1) st' (nat (cc_max_tool_escalations C - int (Suc asked)) + 2) es"
    using ask(4) by auto
  let ?c = "tool_call C t d (Suc (ct_escalation_round st1))"
  let ?xs = "Executed (ct_attempt st) req # map Escalated xs @ [Asked ?c (cw_gate W ?c),
     Escalated (mk_escalation d (outcome_of (cw_gate W ?c)) (Some (gd_decided_by (cw_gate W ?c))) (Suc (ct_escalation_round st1)))]"
  have "exec_log C W t st st' (Suc (nat (cc_max_tool_escalations C - int (Suc asked)) + 2)) (?xs @ es)"
    by (rule exec_log_step [OF es])
      (use log exec_once_sel [OF ask(1)] in \<open>auto simp: asked_state_def Let_def exec_event_def list_all_iff\<close>)
  moreover have "Suc (nat (cc_max_tool_escalations C - int (Suc asked)) + 2) = nat (cc_max_tool_escalations C - int asked) + 2"
    using ask(3) by linarith
  ultimately show ?case by (metis (no_types))
qed

lemma exec_events_none:
  assumes "list_all (exec_event C W t n rep) es"
  shows "attempts_of es = []" "name \<noteq> ''tool_approval'' \<Longrightarrow> asked_rounds name es = []" "m \<noteq> n \<Longrightarrow> executions m es = 0"
    "Thawed m who \<notin> set es"
  using assms by (induction es) (auto simp: exec_event_def split: code_event.splits)

lemma attempt_log:
  assumes "run_attempt C W t st = (f, st')"
  obtains es where "ct_log st' = ct_log st @ Fix_Attempt (Suc (ct_attempt st)) # es @ attempt_events C W (Suc (ct_attempt st)) f"
    and "list_all (exec_event C W t (Suc (ct_attempt st)) (is_repair_attempt (Suc (ct_attempt st)) (ct_thawed st))) es"
    and "asked_rounds ''tool_approval'' es = map int [Suc (ct_escalation_round st)..<Suc (ct_escalation_round st')]"
    and "ct_escalation_round st \<le> ct_escalation_round st'"
    and "executions (Suc (ct_attempt st)) es \<le> nat (cc_max_tool_escalations C) + 2"
proof -
  from assms obtain st1 where loop: "exec_loop C W t 0 0 False [] (begin_attempt st) = (af_run f, st1)"
    and st': "st' = log_code (attempt_events C W (Suc (ct_attempt st)) f) ((end_attempt st1 (af_run f))\<lparr>ct_thawed := False\<rparr>)"
    by (rule run_attemptE)
  obtain es where es: "exec_log C W t (begin_attempt st) st1 (nat (cc_max_tool_escalations C) + 2) es"
    using exec_loop_log [OF loop] by auto
  show thesis
    by (rule that [of es]) (use es st' in \<open>simp_all add: exec_log_def end_attempt_def del: upt_Suc\<close>)
qed

text \<open>What follows an attempt: a note to the memory, or the task gate.\<close>

definition revised :: "code_cfg \<Rightarrow> code_world \<Rightarrow> code_task \<Rightarrow> code_state \<Rightarrow> code_state \<Rightarrow> gate_call \<Rightarrow> bool" where
  "revised C W t st st' c \<longleftrightarrow>
     (let dec = cw_gate W c in
      (\<exists>analysis. c = task_call C t (Suc (ct_gate_round st)) (ct_attempt st) analysis) \<and> gd_outcome dec = REVISE \<and>
      ct_log st' = ct_log st @ Asked c dec # (if gd_thaw_tests dec then [Thawed (Suc (ct_attempt st)) (gd_decided_by dec)] else []) \<and>
      ct_thawed st' = gd_thaw_tests dec \<and> ct_gate_round st' = Suc (ct_gate_round st))"

lemma escalate_Inr:
  assumes "escalate_task C W t f st = Inr st'"
  shows "revised C W t st st' (task_call C t (Suc (ct_gate_round st)) (ct_attempt st) (gate_analysis C W f (ct_attempt st)))"
    and "ct_attempt st' = ct_attempt st" "ct_anchor st' = ct_anchor st" "ct_escalation_round st' = ct_escalation_round st"
    "ct_crew_sessions st' = ct_crew_sessions st"
proof -
  let ?c = "task_call C t (Suc (ct_gate_round st)) (ct_attempt st) (gate_analysis C W f (ct_attempt st))"
  have cond: "gd_outcome (cw_gate W ?c) = REVISE \<and> int (Suc (ct_gate_round st)) \<le> cc_max_gate_rounds C"
  proof (rule ccontr)
    assume n: "\<not> ?thesis"
    show False using assms unfolding escalate_task_def Let_def if_not_P [OF n] by simp
  qed
  have st': "st' = log_code (if gd_thaw_tests (cw_gate W ?c) then [Thawed (Suc (ct_attempt st)) (gd_decided_by (cw_gate W ?c))] else [])
      ((log_code [Asked ?c (cw_gate W ?c)] (st\<lparr>ct_gate_round := Suc (ct_gate_round st)\<rparr>))
        \<lparr>ct_budget := int (ct_attempt st) + 1, ct_session_id := None, ct_thawed := gd_thaw_tests (cw_gate W ?c),
         ct_prompt := Revise_Prompt (str_or (py_or (gd_guidance (cw_gate W ?c)) (gd_comments (cw_gate W ?c))) [])\<rparr>)"
    using assms cond unfolding escalate_task_def Let_def by simp
  show "revised C W t st st' ?c" unfolding revised_def Let_def st' by (intro conjI exI refl) (use cond in simp_all)
  show "ct_attempt st' = ct_attempt st" "ct_anchor st' = ct_anchor st" "ct_escalation_round st' = ct_escalation_round st"
    "ct_crew_sessions st' = ct_crew_sessions st" unfolding st' by simp_all
qed

lemma revised_budget: "revised C W t (st\<lparr>ct_budget := b\<rparr>) st' c = revised C W t st st' c"
  by (simp add: revised_def)

lemma step_tail:
  assumes "attempt_step C W t st = Inr st'"
  obtains f st1 where "run_attempt C W t st = (f, st1)" "\<not> accepted f" "ct_attempt st' = ct_attempt st1" "ct_anchor st' = ct_anchor st1"
    "ct_escalation_round st' = ct_escalation_round st1" "ct_crew_sessions st' = ct_crew_sessions st1"
    "(\<exists>x. ct_log st' = ct_log st1 @ [Retained x] \<and> \<not> ct_thawed st' \<and> ct_gate_round st' = ct_gate_round st1) \<or> (\<exists>c. revised C W t st1 st' c)"
proof -
  obtain f st1 where att: "run_attempt C W t st = (f, st1)" by fastforce
  obtain issues b where ib: "issues_and_budget W C f (ct_attempt st1) (ct_budget st1) = (issues, b)" by fastforce
  have na: "\<not> accepted f" using assms att by (auto simp: attempt_step_def Let_def)
  note step = assms [unfolded attempt_step_def att prod.case Let_def ib if_not_P [OF na]]
  show thesis
  proof (cases "b \<le> int (ct_attempt st1)")
    case True
    then have "escalate_task C W t f (st1\<lparr>ct_budget := b\<rparr>) = Inr st'" using step by simp
    note esc = escalate_Inr [OF this, unfolded revised_budget]
    show ?thesis by (rule that [OF att na]) (use esc in auto)
  next
    case False
    let ?st = "log_code [Retained (failed_text t (ct_attempt st1) issues)] (st1\<lparr>ct_budget := b\<rparr>)"
    have st': "st' = next_prompt C W f issues ?st" using step False by simp
    have "ct_attempt st' = ct_attempt ?st" "ct_anchor st' = ct_anchor ?st" "ct_escalation_round st' = ct_escalation_round ?st"
      "ct_crew_sessions st' = ct_crew_sessions ?st" "ct_log st' = ct_log ?st" "ct_thawed st' = ct_thawed ?st" "ct_gate_round st' = ct_gate_round ?st"
      unfolding st' next_prompt_def Let_def by (simp_all split: if_split)
    then show ?thesis using run_attempt_sel(5) [OF att] by (intro that [OF att na]) simp_all
  qed
qed

text \<open>The log of a head: attempts, gates and executions are counted in it.\<close>

definition counted :: "code_cfg \<Rightarrow> code_task \<Rightarrow> code_state \<Rightarrow> bool" where
  "counted C t st \<longleftrightarrow>
     attempts_of (ct_log st) = [1..<Suc (ct_attempt st)] \<and>
     asked_rounds (''task:'' @ kt_id t) (ct_log st) = map int [1..<Suc (ct_gate_round st)] \<and>
     asked_rounds ''tool_approval'' (ct_log st) = map int [1..<Suc (ct_escalation_round st)] \<and>
     (\<forall>n. executions n (ct_log st) \<le> (if n \<le> ct_attempt st then nat (cc_max_tool_escalations C) + 2 else 0))"

lemma counted_attempt:
  assumes "counted C t st" "run_attempt C W t st = (f, st')"
  shows "counted C t st'"
proof -
  let ?n = "Suc (ct_attempt st)"
  from assms(2) obtain es where es: "ct_log st' = ct_log st @ Fix_Attempt ?n # es @ attempt_events C W ?n f"
    "list_all (exec_event C W t ?n (is_repair_attempt ?n (ct_thawed st))) es"
    "asked_rounds ''tool_approval'' es = map int [Suc (ct_escalation_round st)..<Suc (ct_escalation_round st')]"
    "ct_escalation_round st \<le> ct_escalation_round st'" "executions ?n es \<le> nat (cc_max_tool_escalations C) + 2"
    by (rule attempt_log)
  note none = exec_events_none [OF es(2)] run_attempt_sel [OF assms(2)]
  have "attempts_of (ct_log st') = [1..<Suc (ct_attempt st')]"
    using assms(1) none by (simp add: counted_def es(1) attempt_events_def)
  moreover have "asked_rounds (''task:'' @ kt_id t) (ct_log st') = map int [1..<Suc (ct_gate_round st')]"
    using assms(1) none by (simp add: counted_def es(1) attempt_events_def)
  moreover have "[1..<Suc (ct_escalation_round st)] @ [Suc (ct_escalation_round st)..<Suc (ct_escalation_round st')] = [1..<Suc (ct_escalation_round st')]"
    using es(4) upt_add_eq_append [of 1 "Suc (ct_escalation_round st)" "ct_escalation_round st' - ct_escalation_round st"]
    by (simp del: upt_Suc)
  then have "asked_rounds ''tool_approval'' (ct_log st') = map int [1..<Suc (ct_escalation_round st')]"
    using assms(1) by (simp add: counted_def es(1,3) attempt_events_def del: upt_Suc flip: map_append)
  moreover have "executions m (ct_log st') \<le> (if m \<le> ct_attempt st' then nat (cc_max_tool_escalations C) + 2 else 0)" for m
  proof -
    have old: "executions m (ct_log st) \<le> (if m \<le> ct_attempt st then nat (cc_max_tool_escalations C) + 2 else 0)"
      using assms(1) by (simp add: counted_def)
    show ?thesis using old none(3) [of m] none(5) es(5) by (cases "m = ?n") (auto simp: es(1) attempt_events_def split: if_splits)
  qed
  ultimately show ?thesis by (simp add: counted_def)
qed

lemma counted_heads: "code_head C W t st \<Longrightarrow> counted C t st"
proof (induction rule: code_head.induct)
  case head_init
  show ?case by (simp add: counted_def init_code_def)
next
  case (head_next st st')
  from head_next(2) obtain f st1 where att: "run_attempt C W t st = (f, st1)" "ct_attempt st' = ct_attempt st1"
    "ct_escalation_round st' = ct_escalation_round st1"
    and tail: "(\<exists>x. ct_log st' = ct_log st1 @ [Retained x] \<and> \<not> ct_thawed st' \<and> ct_gate_round st' = ct_gate_round st1) \<or> (\<exists>c. revised C W t st1 st' c)"
    by (rule step_tail)
  have "counted C t st1" by (rule counted_attempt [OF head_next.IH att(1)])
  note counts = this [unfolded counted_def]
  from tail show ?case
  proof
    assume "\<exists>x. ct_log st' = ct_log st1 @ [Retained x] \<and> \<not> ct_thawed st' \<and> ct_gate_round st' = ct_gate_round st1"
    then obtain x where x: "ct_log st' = ct_log st1 @ [Retained x]" "ct_gate_round st' = ct_gate_round st1" by blast
    show ?case unfolding counted_def att(2,3) x using counts by (simp del: upt_Suc)
  next
    assume "\<exists>c. revised C W t st1 st' c"
    then obtain c a where c: "c = task_call C t (Suc (ct_gate_round st1)) (ct_attempt st1) a" "ct_gate_round st' = Suc (ct_gate_round st1)"
      "ct_log st' = ct_log st1 @ Asked c (cw_gate W c) # (if gd_thaw_tests (cw_gate W c) then [Thawed (Suc (ct_attempt st1)) (gd_decided_by (cw_gate W c))] else [])"
      by (auto simp: revised_def Let_def)
    have "gl_name c = ''task:'' @ kt_id t" "gl_round c = int (Suc (ct_gate_round st1))" by (simp_all add: c(1))
    moreover have "[Suc 0..<Suc (Suc (ct_gate_round st1))] = [Suc 0..<Suc (ct_gate_round st1)] @ [Suc (ct_gate_round st1)]"
      by (rule upt_Suc_append) simp
    ultimately show ?case using counts unfolding counted_def att(2,3) c(2,3) by (simp del: upt_Suc)
  qed
qed

text \<open>What the last attempt adds.\<close>

lemma step_end:
  assumes "attempt_step C W t st = Inl (r, st')"
  obtains f st1 where "run_attempt C W t st = (f, st1)" "ct_attempt st' = ct_attempt st1" "ct_anchor st' = ct_anchor st1"
    "ct_escalation_round st' = ct_escalation_round st1" "ct_resumes st' = ct_resumes st1"
    "cr_attempts r = ct_attempt st1" "cr_task_id r = kt_id t"
    "cr_lens_outcomes r = [af_review_outcome f, af_adversary_outcome f]" "cr_qa r = cw_tests W (ct_attempt st1)"
    "(accepted f \<and> cr_status r = RDone \<and> ct_log st' = ct_log st1 \<and> ct_gate_round st' = ct_gate_round st1) \<or>
     (\<not> accepted f \<and> (\<exists>c a. c = task_call C t (Suc (ct_gate_round st1)) (ct_attempt st1) a \<and>
        cr_status r = (if approved (cw_gate W c) then RDone else RQuarantined) \<and>
        ct_log st' = ct_log st1 @ [Asked c (cw_gate W c)] \<and> ct_gate_round st' = Suc (ct_gate_round st1)))"
  using assms
proof (cases rule: attempt_step_Inl)
  case (accept f)
  then show ?thesis using run_attempt_sel(1) [OF accept(1)] by (intro that [OF accept(1)]) (simp_all add: done_result_def)
next
  case (gate f st1 b)
  from gate(3) obtain c dec where c: "c = task_call C t (Suc (ct_gate_round st1)) (ct_attempt st1) (gate_analysis C W f (ct_attempt st1))"
    "dec = cw_gate W c" "r = gated_result C W t f (ct_attempt st1) dec"
    "st' = log_code [Asked c dec] (st1\<lparr>ct_budget := b, ct_gate_round := Suc (ct_gate_round st1)\<rparr>)"
    by (rule escalate_Inl) simp
  have tail: "\<exists>c a. c = task_call C t (Suc (ct_gate_round st1)) (ct_attempt st1) a \<and>
        cr_status r = (if approved (cw_gate W c) then RDone else RQuarantined) \<and>
        ct_log st' = ct_log st1 @ [Asked c (cw_gate W c)] \<and> ct_gate_round st' = Suc (ct_gate_round st1)"
    by (rule exI [of _ c], rule exI) (use c in \<open>simp add: gated_result_def\<close>)
  then show ?thesis using gate(2) c(3,4) by (intro that [OF gate(1)]) (simp_all add: gated_result_def)
qed

section \<open>Properties\<close>

text \<open>C26: the code stage of a task always ends, within its budgets. It makes consecutive attempts, at most
  one more than \<open>max_fix_attempts\<close> plus one per revision the task gate may ask for, \<open>max_gate_rounds\<close> of them;
  no attempt executes the harness more than \<open>max_tool_escalations\<close> plus two times; the task gate and the tool
  gate are asked in consecutive rounds; and a session is resumed at most \<open>max_session_resumes\<close> times.\<close>

theorem code_stage_bounded:
  "case code_step C W t of (r, st) \<Rightarrow>
     attempts_of (ct_log st) = [1..<Suc (cr_attempts r)] \<and> 1 \<le> cr_attempts r \<and>
     int (cr_attempts r) \<le> max 1 (cc_max_fix_attempts C + 1) + max 0 (cc_max_gate_rounds C) \<and>
     (\<forall>n. executions n (ct_log st) \<le> nat (cc_max_tool_escalations C) + 2) \<and>
     asked_rounds (''task:'' @ kt_id t) (ct_log st) = map int [1..<Suc (ct_gate_round st)] \<and>
     int (ct_gate_round st) \<le> max 0 (cc_max_gate_rounds C) + 1 \<and>
     asked_rounds ''tool_approval'' (ct_log st) = map int [1..<Suc (ct_escalation_round st)] \<and>
     ct_resumes st \<le> max 0 (cc_max_session_resumes C)"
proof -
  obtain r st' where run: "code_step C W t = (r, st')" by fastforce
  from run obtain st where head: "code_head C W t st" "attempt_step C W t st = Inl (r, st')" by (rule code_step_final)
  from head(2) obtain f st1 where att: "run_attempt C W t st = (f, st1)" and same: "ct_attempt st' = ct_attempt st1"
    "ct_escalation_round st' = ct_escalation_round st1" "ct_resumes st' = ct_resumes st1" "cr_attempts r = ct_attempt st1"
    and tail: "(accepted f \<and> cr_status r = RDone \<and> ct_log st' = ct_log st1 \<and> ct_gate_round st' = ct_gate_round st1) \<or>
     (\<not> accepted f \<and> (\<exists>c a. c = task_call C t (Suc (ct_gate_round st1)) (ct_attempt st1) a \<and>
        cr_status r = (if approved (cw_gate W c) then RDone else RQuarantined) \<and>
        ct_log st' = ct_log st1 @ [Asked c (cw_gate W c)] \<and> ct_gate_round st' = Suc (ct_gate_round st1)))"
    by (rule step_end)
  note sel = run_attempt_sel [OF att]
  note bounds = bounded_heads [OF head(1), unfolded bounded_head_def]
  have counts: "counted C t st1" by (rule counted_attempt [OF counted_heads [OF head(1)] att])
  have "attempts_of (ct_log st') = attempts_of (ct_log st1) \<and> executions n (ct_log st') = executions n (ct_log st1) \<and>
      asked_rounds ''tool_approval'' (ct_log st') = asked_rounds ''tool_approval'' (ct_log st1)" for n
    using tail by auto
  moreover have "asked_rounds (''task:'' @ kt_id t) (ct_log st') = map int [1..<Suc (ct_gate_round st')]"
    using tail counts unfolding counted_def by auto
  moreover have "executions n (ct_log st1) \<le> nat (cc_max_tool_escalations C) + 2" for n
    using counts unfolding counted_def by (auto intro: order_trans)
  moreover have "int (cr_attempts r) \<le> max 1 (cc_max_fix_attempts C + 1) + max 0 (cc_max_gate_rounds C)"
    using bounds sel same by linarith
  moreover have "int (ct_gate_round st') \<le> max 0 (cc_max_gate_rounds C) + 1" using bounds sel tail by auto
  moreover have "1 \<le> cr_attempts r" "ct_resumes st' \<le> max 0 (cc_max_session_resumes C)" using sel same bounds by simp_all
  ultimately show ?thesis using counts same unfolding run counted_def by (simp del: upt_Suc)
qed

section \<open>Frozen tests\<close>

text \<open>The run that the k-th execution of an attempt returned.\<close>

definition returned :: "code_cfg \<Rightarrow> code_world \<Rightarrow> nat \<Rightarrow> nat \<Rightarrow> exec_request \<Rightarrow> harness_run" where
  "returned C W n k req = eo_run (case execute_coding_task C W n k req of None \<Rightarrow> crew_died | Some out \<Rightarrow> out)"

text \<open>The requests of an attempt, in their order, and the run the last of them returned: its result.\<close>

definition requests :: "nat \<Rightarrow> code_event list \<Rightarrow> exec_request list" where
  "requests n es = concat (map (\<lambda>e. case e of Executed m req \<Rightarrow> if m = n then [req] else [] | _ \<Rightarrow> []) es)"

definition commit_of :: "code_cfg \<Rightarrow> code_world \<Rightarrow> code_event list \<Rightarrow> nat \<Rightarrow> string" where
  "commit_of C W log n =
     (if requests n log = [] then []
      else str_or (hr_commit_sha (returned C W n (length (requests n log) - 1) (last (requests n log)))) [])"

lemma requests_append [simp]:
  "requests n (xs @ ys) = requests n xs @ requests n ys" "requests n [] = []"
  "requests n (e # es) = (case e of Executed m req \<Rightarrow> if m = n then [req] else [] | _ \<Rightarrow> []) @ requests n es"
  by (simp_all add: requests_def split: code_event.split)

lemma requests_Escalated [simp]: "requests n (map Escalated xs) = []"
  by (induction xs) simp_all

lemma requests_none: "(\<And>req. Executed n req \<notin> set es) \<Longrightarrow> requests n es = []"
proof (induction es)
  case (Cons e es)
  then show ?case by (cases e) auto
qed simp

lemma exec_loop_run:
  assumes "exec_loop C W t k asked capped grants st = (r, st')"
  shows "\<exists>reqs. reqs \<noteq> [] \<and> requests (ct_attempt st) (ct_log st') = requests (ct_attempt st) (ct_log st) @ reqs \<and>
    r = returned C W (ct_attempt st) (k + length reqs - 1) (last reqs)"
  using assms
proof (induction rule: exec_loop_induct)
  case (stop k asked capped grants st r st1)
  from stop(1) obtain req xs where "ct_log st1 = ct_log st @ Executed (ct_attempt st) req # map Escalated xs"
    "r = returned C W (ct_attempt st) k req" unfolding returned_def by (rule exec_once_log)
  then show ?case by (intro exI [of _ "[req]"]) simp
next
  case (cap k asked grants st r1 st1 d r st')
  from cap(1) obtain req xs where log: "ct_log st1 = ct_log st @ Executed (ct_attempt st) req # map Escalated xs" by (rule exec_once_log)
  from cap(4) obtain reqs where "reqs \<noteq> []" "requests (ct_attempt st) (ct_log st') = requests (ct_attempt st) (ct_log (capped_state d r1 st1)) @ reqs"
    "r = returned C W (ct_attempt st) (Suc k + length reqs - 1) (last reqs)" using exec_once_sel(1) [OF cap(1)] by auto
  then show ?case by (intro exI [of _ "req # reqs"]) (simp add: capped_state_def log)
next
  case (ask k asked grants st r1 st1 d r st')
  from ask(1) obtain req xs where log: "ct_log st1 = ct_log st @ Executed (ct_attempt st) req # map Escalated xs" by (rule exec_once_log)
  from ask(4) obtain reqs where "reqs \<noteq> []" "requests (ct_attempt st) (ct_log st') = requests (ct_attempt st) (ct_log (asked_state C W t d r1 st1)) @ reqs"
    "r = returned C W (ct_attempt st) (Suc k + length reqs - 1) (last reqs)" using exec_once_sel(1) [OF ask(1)] by auto
  then show ?case by (intro exI [of _ "req # reqs"]) (simp add: asked_state_def Let_def log)
qed

definition thaw_granted :: "code_cfg \<Rightarrow> code_world \<Rightarrow> code_task \<Rightarrow> code_event list \<Rightarrow> nat \<Rightarrow> decided_by \<Rightarrow> bool" where
  "thaw_granted C W t log n who \<longleftrightarrow>
     (\<exists>rnd a. let c = task_call C t rnd (n - 1) a in
        Asked c (cw_gate W c) \<in> set log \<and> gd_outcome (cw_gate W c) = REVISE \<and> gd_thaw_tests (cw_gate W c) \<and> gd_decided_by (cw_gate W c) = who)"

definition thawed_in :: "code_event list \<Rightarrow> nat \<Rightarrow> bool" where
  "thawed_in log n \<longleftrightarrow> (\<exists>who. Thawed n who \<in> set log)"

lemma thaw_granted_mono: "thaw_granted C W t log n who \<Longrightarrow> set log \<subseteq> set log' \<Longrightarrow> thaw_granted C W t log' n who"
  unfolding thaw_granted_def Let_def by blast

text \<open>Tests are free in the first attempt and in thawed ones. The anchor is the checkpoint of the latest free
  attempt that made one.\<close>

definition free_in :: "code_event list \<Rightarrow> nat \<Rightarrow> bool" where
  "free_in log n \<longleftrightarrow> n = 1 \<or> thawed_in log n"

definition latest_checkpoint :: "code_cfg \<Rightarrow> code_world \<Rightarrow> code_event list \<Rightarrow> nat \<Rightarrow> string option \<Rightarrow> bool" where
  "latest_checkpoint C W log attempts anchor \<longleftrightarrow>
     (case anchor of
        None \<Rightarrow> \<forall>n \<in> {1..attempts}. free_in log n \<longrightarrow> commit_of C W log n = []
      | Some a \<Rightarrow> a \<noteq> [] \<and> (\<exists>n \<in> {1..attempts}. free_in log n \<and> commit_of C W log n = a \<and>
          (\<forall>m \<in> {Suc n..attempts}. free_in log m \<longrightarrow> commit_of C W log m = [])))"

lemma latest_cong:
  assumes "\<And>n. n \<in> {1..N} \<Longrightarrow> free_in log' n = free_in log n" "\<And>n. n \<in> {1..N} \<Longrightarrow> commit_of C W log' n = commit_of C W log n"
  shows "latest_checkpoint C W log' N anchor = latest_checkpoint C W log N anchor"
  using assms unfolding latest_checkpoint_def by (auto split: option.split)

lemma latest_step:
  assumes old: "latest_checkpoint C W log N anchor" and c: "commit_of C W log (Suc N) = str_or sha []"
    and free: "free = free_in log (Suc N)"
  shows "latest_checkpoint C W log (Suc N) (next_anchor anchor sha free)"
proof (cases "str_or sha [] \<noteq> [] \<and> free")
  case True
  then obtain a where "sha = Some a" "a \<noteq> []" by (cases sha) (auto simp: str_or_def)
  with True c free show ?thesis
    by (auto simp: latest_checkpoint_def next_anchor_def str_or_def intro!: bexI [of _ "Suc N"])
next
  case False
  have upto: "{m..Suc N} = (if m \<le> Suc N then insert (Suc N) {m..N} else {})" for m
    by (auto simp: atLeastAtMostSuc_conv)
  have kept: "next_anchor anchor sha free = anchor" using False by (auto simp: next_anchor_def)
  show ?thesis
  proof (cases anchor)
    case None
    with old False c free show ?thesis unfolding kept by (auto simp: latest_checkpoint_def upto)
  next
    case (Some a)
    with old obtain n where n: "a \<noteq> []" "n \<in> {1..N}" "free_in log n" "commit_of C W log n = a"
      "\<forall>m \<in> {Suc n..N}. free_in log m \<longrightarrow> commit_of C W log m = []" by (auto simp: latest_checkpoint_def)
    have "\<forall>m \<in> {Suc n..Suc N}. free_in log m \<longrightarrow> commit_of C W log m = []"
      using n(2,5) False c free by (auto simp: upto)
    with n Some show ?thesis unfolding kept by (auto simp: latest_checkpoint_def intro!: bexI [of _ n])
  qed
qed

definition frozen_log :: "code_cfg \<Rightarrow> code_world \<Rightarrow> code_task \<Rightarrow> code_event list \<Rightarrow> nat \<Rightarrow> string option \<Rightarrow> bool" where
  "frozen_log C W t log attempt anchor \<longleftrightarrow>
     (\<forall>n who. Thawed n who \<in> set log \<longrightarrow> n \<le> Suc attempt \<and> thaw_granted C W t log n who) \<and>
     (\<forall>n req. Executed n req \<in> set log \<longrightarrow> n \<le> attempt \<and> er_repair req = (1 < n \<and> \<not> thawed_in log n)) \<and>
     latest_checkpoint C W log attempt anchor"

definition frozen_head :: "code_cfg \<Rightarrow> code_world \<Rightarrow> code_task \<Rightarrow> code_state \<Rightarrow> bool" where
  "frozen_head C W t st \<longleftrightarrow>
     frozen_log C W t (ct_log st) (ct_attempt st) (ct_anchor st) \<and> ct_thawed st = thawed_in (ct_log st) (Suc (ct_attempt st))"

text \<open>Events that neither thaw nor execute.\<close>

definition quiet :: "code_event \<Rightarrow> bool" where
  "quiet e = (case e of Thawed _ _ \<Rightarrow> False | Executed _ _ \<Rightarrow> False | _ \<Rightarrow> True)"

lemma thawed_in_append: "thawed_in (xs @ ys) n \<longleftrightarrow> thawed_in xs n \<or> thawed_in ys n"
  by (auto simp: thawed_in_def)

lemma quiet_thawed: "list_all quiet es \<Longrightarrow> \<not> thawed_in es n"
  by (induction es) (auto simp: thawed_in_def quiet_def)

lemma frozen_log_quiet:
  assumes "frozen_log C W t log attempt anchor" "list_all quiet es"
  shows "frozen_log C W t (log @ es) attempt anchor"
proof -
  have none: "Thawed n who \<notin> set es" "Executed n req \<notin> set es" for n who req
    using assms(2) by (auto simp: list_all_iff quiet_def)
  have thawed: "thawed_in (log @ es) n = thawed_in log n" for n using quiet_thawed [OF assms(2)] by (simp add: thawed_in_append)
  have "requests n es = []" for n using none(2) by (rule requests_none)
  then have "latest_checkpoint C W (log @ es) attempt anchor = latest_checkpoint C W log attempt anchor"
    by (intro latest_cong) (simp_all add: free_in_def thawed commit_of_def)
  then show ?thesis
    using assms(1) none thaw_granted_mono [of C W t log _ _ "log @ es"] unfolding frozen_log_def thawed by fastforce
qed

lemma measure_drift_cong:
  "ct_attempt a = ct_attempt b \<Longrightarrow> ct_thawed a = ct_thawed b \<Longrightarrow> ct_anchor a = ct_anchor b \<Longrightarrow> measure_drift C W a = measure_drift C W b"
  by (simp add: measure_drift_def split: option.split)

lemma frozen_attempt:
  assumes "frozen_head C W t st" "run_attempt C W t st = (f, st')"
  shows "frozen_log C W t (ct_log st') (ct_attempt st') (ct_anchor st')" "\<not> thawed_in (ct_log st') (Suc (ct_attempt st'))"
    "ct_anchor st' = next_anchor (ct_anchor st) (hr_commit_sha (af_run f)) (\<not> is_repair_attempt (Suc (ct_attempt st)) (ct_thawed st))"
    "thawed_in (ct_log st') (ct_attempt st') = ct_thawed st"
    "af_drift f = measure_drift C W (st'\<lparr>ct_thawed := ct_thawed st\<rparr>)"
proof -
  let ?n = "Suc (ct_attempt st)" and ?rep = "is_repair_attempt (Suc (ct_attempt st)) (ct_thawed st)"
  from assms(2) obtain es where es: "ct_log st' = ct_log st @ Fix_Attempt ?n # es @ attempt_events C W ?n f"
    "list_all (exec_event C W t ?n ?rep) es" by (rule attempt_log)
  from assms(2) obtain st1 where loop: "exec_loop C W t 0 0 False [] (begin_attempt st) = (af_run f, st1)"
    and st': "st' = log_code (attempt_events C W ?n f) ((end_attempt st1 (af_run f))\<lparr>ct_thawed := False\<rparr>)"
    and drift: "af_drift f = measure_drift C W (end_attempt st1 (af_run f))" by (rule run_attemptE)
  note sel = exec_loop_sel [OF loop]
  note old = assms(1) [unfolded frozen_head_def frozen_log_def]
  show anchor: "ct_anchor st' = next_anchor (ct_anchor st) (hr_commit_sha (af_run f)) (\<not> ?rep)"
    using sel by (simp add: st' end_attempt_def)
  show "af_drift f = measure_drift C W (st'\<lparr>ct_thawed := ct_thawed st\<rparr>)"
    unfolding drift st' by (rule measure_drift_cong) (use sel in \<open>simp_all add: end_attempt_def\<close>)
  have none: "Thawed n who \<notin> set es" for n who by (rule exec_events_none(4) [OF es(2)])
  have thawed: "thawed_in (ct_log st') n = thawed_in (ct_log st) n" for n
    using none by (auto simp: es(1) thawed_in_def attempt_events_def)
  have n: "ct_attempt st' = ?n" by (rule run_attempt_sel(1) [OF assms(2)])
  show "\<not> thawed_in (ct_log st') (Suc (ct_attempt st'))"
    unfolding thawed n using old by (fastforce simp: thawed_in_def)
  show "thawed_in (ct_log st') (ct_attempt st') = ct_thawed st" unfolding thawed n using old by simp
  have rep: "?rep \<longleftrightarrow> 1 < ?n \<and> \<not> thawed_in (ct_log st) ?n" using old by (simp add: is_repair_attempt_def)
  have exec: "m \<le> ?n \<and> er_repair req = (1 < m \<and> \<not> thawed_in (ct_log st) m)" if "Executed m req \<in> set (ct_log st')" for m req
  proof (cases "Executed m req \<in> set (ct_log st)")
    case True
    then show ?thesis using old by (fastforce intro: le_SucI)
  next
    case False
    then have "Executed m req \<in> set es" using that by (auto simp: es(1) attempt_events_def)
    then have "m = ?n" "er_repair req = ?rep" using es(2) by (auto simp: list_all_iff exec_event_def)
    then show ?thesis using rep by simp
  qed
  have "latest_checkpoint C W (ct_log st') ?n (ct_anchor st')"
    unfolding anchor
  proof (rule latest_step)
    have reqs: "requests m (ct_log st') = requests m (ct_log st)" if "m \<in> {1..ct_attempt st}" for m
    proof -
      have "Executed m req \<notin> set es" for req using es(2) that by (auto simp: list_all_iff exec_event_def)
      then have "requests m es = []" by (rule requests_none)
      then show ?thesis by (simp add: es(1) attempt_events_def)
    qed
    show "latest_checkpoint C W (ct_log st') (ct_attempt st) (ct_anchor st)"
      using old latest_cong [of "ct_attempt st" "ct_log st'" "ct_log st" C W "ct_anchor st"] reqs
      by (auto simp: free_in_def thawed commit_of_def)
    have "requests ?n (ct_log st) = []" using old by (intro requests_none) fastforce
    moreover have "requests ?n (ct_log st') = requests ?n (ct_log st1)" by (simp add: st' end_attempt_def attempt_events_def)
    ultimately show "commit_of C W (ct_log st') ?n = str_or (hr_commit_sha (af_run f)) []"
      using exec_loop_run [OF loop] by (auto simp: commit_of_def)
    show "(\<not> ?rep) = free_in (ct_log st') ?n" using rep by (auto simp: free_in_def thawed)
  qed
  moreover have "m \<le> Suc ?n \<and> thaw_granted C W t (ct_log st') m who" if "Thawed m who \<in> set (ct_log st')" for m who
  proof -
    have "Thawed m who \<in> set (ct_log st)" using that none by (auto simp: es(1) attempt_events_def)
    then have "m \<le> ?n" "thaw_granted C W t (ct_log st) m who" using old by blast+
    then show ?thesis using thaw_granted_mono [of C W t "ct_log st" m who "ct_log st'"] by (auto simp: es(1))
  qed
  ultimately show "frozen_log C W t (ct_log st') (ct_attempt st') (ct_anchor st')"
    using exec unfolding frozen_log_def n thawed by blast
qed

lemma frozen_heads: "code_head C W t st \<Longrightarrow> frozen_head C W t st"
proof (induction rule: code_head.induct)
  case head_init
  show ?case by (simp add: frozen_head_def frozen_log_def thawed_in_def init_code_def latest_checkpoint_def)
next
  case (head_next st st')
  from head_next(2) obtain f st1 where att: "run_attempt C W t st = (f, st1)" and same: "ct_attempt st' = ct_attempt st1" "ct_anchor st' = ct_anchor st1"
    and tail: "(\<exists>x. ct_log st' = ct_log st1 @ [Retained x] \<and> \<not> ct_thawed st' \<and> ct_gate_round st' = ct_gate_round st1) \<or> (\<exists>c. revised C W t st1 st' c)"
    by (rule step_tail)
  note frozen = frozen_attempt(1,2) [OF head_next.IH att]
  from tail show ?case
  proof
    assume "\<exists>x. ct_log st' = ct_log st1 @ [Retained x] \<and> \<not> ct_thawed st' \<and> ct_gate_round st' = ct_gate_round st1"
    then obtain x where x: "ct_log st' = ct_log st1 @ [Retained x]" "\<not> ct_thawed st'" by blast
    have "\<not> thawed_in [Retained x] n" for n by (simp add: thawed_in_def)
    then show ?case unfolding frozen_head_def x(1) same using x(2) frozen frozen_log_quiet [OF frozen(1), of "[Retained x]"]
      by (simp add: thawed_in_append quiet_def)
  next
    assume "\<exists>c. revised C W t st1 st' c"
    then obtain c a where c: "c = task_call C t (Suc (ct_gate_round st1)) (ct_attempt st1) a" "gd_outcome (cw_gate W c) = REVISE"
      "ct_thawed st' = gd_thaw_tests (cw_gate W c)"
      "ct_log st' = (ct_log st1 @ [Asked c (cw_gate W c)]) @ (if gd_thaw_tests (cw_gate W c) then [Thawed (Suc (ct_attempt st1)) (gd_decided_by (cw_gate W c))] else [])"
      by (auto simp: revised_def Let_def)
    have asked: "frozen_log C W t (ct_log st1 @ [Asked c (cw_gate W c)]) (ct_attempt st1) (ct_anchor st1)"
      by (rule frozen_log_quiet [OF frozen(1)]) (simp add: quiet_def)
    have no: "\<not> thawed_in (ct_log st1 @ [Asked c (cw_gate W c)]) (Suc (ct_attempt st1))"
      using frozen(2) by (simp add: thawed_in_append) (simp add: thawed_in_def)
    show ?case
    proof (cases "gd_thaw_tests (cw_gate W c)")
      case False
      then show ?thesis using asked no c(3) unfolding frozen_head_def same c(4) by simp
    next
      case True
      let ?log = "ct_log st1 @ [Asked c (cw_gate W c)]" and ?t = "Thawed (Suc (ct_attempt st1)) (gd_decided_by (cw_gate W c))"
      have log: "ct_log st' = ?log @ [?t]" using c(4) True by simp
      have new: "thawed_in (?log @ [?t]) n = (thawed_in ?log n \<or> n = Suc (ct_attempt st1))" for n
        by (auto simp: thawed_in_def)
      have "thaw_granted C W t (?log @ [?t]) (Suc (ct_attempt st1)) (gd_decided_by (cw_gate W c))"
        unfolding thaw_granted_def Let_def by (rule exI [of _ "Suc (ct_gate_round st1)"], rule exI [of _ a]) (use c True in simp)
      moreover have "thaw_granted C W t (?log @ [?t]) n who" if "Thawed n who \<in> set ?log" for n who
        using asked that thaw_granted_mono [of C W t ?log n who "?log @ [?t]"] unfolding frozen_log_def by auto
      moreover have "n \<le> Suc (ct_attempt st1)" if "Thawed n who \<in> set ?log" for n who using asked that unfolding frozen_log_def by blast
      moreover have "n \<le> ct_attempt st1 \<and> er_repair req = (1 < n \<and> \<not> thawed_in (?log @ [?t]) n)" if "Executed n req \<in> set ?log" for n req
      proof -
        have "n \<le> ct_attempt st1" "er_repair req = (1 < n \<and> \<not> thawed_in ?log n)" using asked that unfolding frozen_log_def by blast+
        then show ?thesis unfolding new by auto
      qed
      moreover have "latest_checkpoint C W (?log @ [?t]) (ct_attempt st1) (ct_anchor st1)"
      proof -
        have "latest_checkpoint C W (?log @ [?t]) (ct_attempt st1) (ct_anchor st1) = latest_checkpoint C W ?log (ct_attempt st1) (ct_anchor st1)"
        proof (rule latest_cong)
          show "free_in (?log @ [?t]) n = free_in ?log n" if "n \<in> {1..ct_attempt st1}" for n
            using that unfolding free_in_def new by auto
        qed (simp add: commit_of_def)
        then show ?thesis using asked unfolding frozen_log_def by blast
      qed
      ultimately have "frozen_log C W t (?log @ [?t]) (ct_attempt st1) (ct_anchor st1)"
        unfolding frozen_log_def by (simp only: set_append Un_iff list.set insert_iff empty_iff code_event.inject code_event.distinct) blast
      then show ?thesis using c(3) True new unfolding frozen_head_def same log by simp
    qed
  qed
qed

text \<open>One attempt: the drift it is judged by.\<close>

lemma attempt_drift:
  assumes "code_head C W t st0" "run_attempt C W t st0 = (f, st1)"
  shows "latest_checkpoint C W (ct_log st0) (ct_attempt st0) (ct_anchor st0)"
    and "af_drift f =
      (if cc_containment_enabled C \<and> \<not> free_in (ct_log st0) (Suc (ct_attempt st0))
       then (case ct_anchor st0 of
               Some a \<Rightarrow> cw_drift W (Suc (ct_attempt st0)) a
             | None \<Rightarrow> clean_drift\<lparr>dr_available := False,
                 dr_unavailable_reason := ''no anchor captured (attempt 1 produced no checkpoint)''\<rparr>)
       else clean_drift)"
    and "drift_found (af_drift f) \<Longrightarrow> \<not> accepted f"
    and "drift_found (af_drift f) \<Longrightarrow> issues_and_budget W C f n b = (issues, b') \<Longrightarrow> b' = int n"
proof -
  note head = frozen_heads [OF assms(1)]
  note att = frozen_attempt [OF head assms(2)]
  show "latest_checkpoint C W (ct_log st0) (ct_attempt st0) (ct_anchor st0)"
    using head unfolding frozen_head_def frozen_log_def by blast
  have thawed: "ct_thawed st0 = thawed_in (ct_log st0) (Suc (ct_attempt st0))" using head unfolding frozen_head_def by blast
  let ?rep = "is_repair_attempt (Suc (ct_attempt st0)) (ct_thawed st0)"
  have n: "ct_attempt st1 = Suc (ct_attempt st0)" by (rule run_attempt_sel(1) [OF assms(2)])
  have "ct_anchor st1 = ct_anchor st0" if "?rep" using att(3) that by (simp add: next_anchor_def)
  then show "af_drift f =
      (if cc_containment_enabled C \<and> \<not> free_in (ct_log st0) (Suc (ct_attempt st0))
       then (case ct_anchor st0 of
               Some a \<Rightarrow> cw_drift W (Suc (ct_attempt st0)) a
             | None \<Rightarrow> clean_drift\<lparr>dr_available := False,
                 dr_unavailable_reason := ''no anchor captured (attempt 1 produced no checkpoint)''\<rparr>)
       else clean_drift)"
    unfolding att(5) measure_drift_def free_in_def thawed [symmetric] by (simp add: n is_repair_attempt_def split: option.split)
  from assms(2) have "af_passed f \<Longrightarrow> \<not> drift_found (af_drift f)" by (rule run_attemptE) blast
  then show "drift_found (af_drift f) \<Longrightarrow> \<not> accepted f" by (auto simp: accepted_def)
  show "drift_found (af_drift f) \<Longrightarrow> issues_and_budget W C f n b = (issues, b') \<Longrightarrow> b' = int n"
    by (auto simp: issues_and_budget_def Let_def split: if_splits)
qed

text \<open>C27: what the code stage does to keep tests frozen during repair. In every run every execution asks the
  harness for the repair fence except in attempt 1 and in thawed attempts; an attempt is thawed only by a task gate
  that answered revise after the attempt before it and asked for the thaw; and the anchor is the checkpoint that the
  last execution of the latest free attempt left, if any did. Before every attempt the anchor is the latest such
  checkpoint so far. When containment is enabled, and only then, a repair attempt is compared with it; an
  attempt with drift is not accepted, and the task goes to its gate.\<close>

theorem tests_stay_frozen:
  assumes "code_step C W t = (r, st)"
  shows "(\<forall>n req. Executed n req \<in> set (ct_log st) \<longrightarrow> er_repair req = (1 < n \<and> \<not> thawed_in (ct_log st) n)) \<and>
    (\<forall>n who. Thawed n who \<in> set (ct_log st) \<longrightarrow> thaw_granted C W t (ct_log st) n who) \<and>
    latest_checkpoint C W (ct_log st) (ct_attempt st) (ct_anchor st) \<and>
    (\<forall>st0 f st1. code_head C W t st0 \<and> run_attempt C W t st0 = (f, st1) \<longrightarrow>
       latest_checkpoint C W (ct_log st0) (ct_attempt st0) (ct_anchor st0) \<and>
       af_drift f =
         (if cc_containment_enabled C \<and> \<not> free_in (ct_log st0) (Suc (ct_attempt st0))
          then (case ct_anchor st0 of
                  Some a \<Rightarrow> cw_drift W (Suc (ct_attempt st0)) a
                | None \<Rightarrow> clean_drift\<lparr>dr_available := False,
                    dr_unavailable_reason := ''no anchor captured (attempt 1 produced no checkpoint)''\<rparr>)
          else clean_drift) \<and>
       (drift_found (af_drift f) \<longrightarrow> \<not> accepted f \<and>
          attempt_step C W t st0 = escalate_task C W t f (st1\<lparr>ct_budget := int (ct_attempt st1)\<rparr>)))"
proof -
  from assms obtain st0 where head: "code_head C W t st0" "attempt_step C W t st0 = Inl (r, st)" by (rule code_step_final)
  from head(2) obtain f st1 where att: "run_attempt C W t st0 = (f, st1)" and same: "ct_anchor st = ct_anchor st1" "ct_attempt st = ct_attempt st1"
    and tail: "(accepted f \<and> cr_status r = RDone \<and> ct_log st = ct_log st1 \<and> ct_gate_round st = ct_gate_round st1) \<or>
     (\<not> accepted f \<and> (\<exists>c a. c = task_call C t (Suc (ct_gate_round st1)) (ct_attempt st1) a \<and>
        cr_status r = (if approved (cw_gate W c) then RDone else RQuarantined) \<and>
        ct_log st = ct_log st1 @ [Asked c (cw_gate W c)] \<and> ct_gate_round st = Suc (ct_gate_round st1)))"
    by (rule step_end)
  note frozen = frozen_attempt(1) [OF frozen_heads [OF head(1)] att]
  obtain es where es: "ct_log st = ct_log st1 @ es" "list_all quiet es" using tail
  proof
    assume "accepted f \<and> cr_status r = RDone \<and> ct_log st = ct_log st1 \<and> ct_gate_round st = ct_gate_round st1"
    then show ?thesis using that [of "[]"] by simp
  next
    assume "\<not> accepted f \<and> (\<exists>c a. c = task_call C t (Suc (ct_gate_round st1)) (ct_attempt st1) a \<and>
        cr_status r = (if approved (cw_gate W c) then RDone else RQuarantined) \<and>
        ct_log st = ct_log st1 @ [Asked c (cw_gate W c)] \<and> ct_gate_round st = Suc (ct_gate_round st1))"
    then obtain c where "ct_log st = ct_log st1 @ [Asked c (cw_gate W c)]" by blast
    then show ?thesis using that [of "[Asked c (cw_gate W c)]"] by (simp add: quiet_def)
  qed
  have log: "frozen_log C W t (ct_log st) (ct_attempt st) (ct_anchor st)" unfolding es(1) same by (rule frozen_log_quiet [OF frozen es(2)])
  have "latest_checkpoint C W (ct_log s0) (ct_attempt s0) (ct_anchor s0) \<and>
       af_drift g =
         (if cc_containment_enabled C \<and> \<not> free_in (ct_log s0) (Suc (ct_attempt s0))
          then (case ct_anchor s0 of
                  Some a \<Rightarrow> cw_drift W (Suc (ct_attempt s0)) a
                | None \<Rightarrow> clean_drift\<lparr>dr_available := False,
                    dr_unavailable_reason := ''no anchor captured (attempt 1 produced no checkpoint)''\<rparr>)
          else clean_drift) \<and>
       (drift_found (af_drift g) \<longrightarrow> \<not> accepted g \<and>
          attempt_step C W t s0 = escalate_task C W t g (s1\<lparr>ct_budget := int (ct_attempt s1)\<rparr>))"
    if "code_head C W t s0" "run_attempt C W t s0 = (g, s1)" for s0 g s1
  proof (intro conjI impI)
    show "attempt_step C W t s0 = escalate_task C W t g (s1\<lparr>ct_budget := int (ct_attempt s1)\<rparr>)" if "drift_found (af_drift g)"
      using \<open>run_attempt C W t s0 = (g, s1)\<close> attempt_drift(3,4) [OF \<open>code_head C W t s0\<close> \<open>run_attempt C W t s0 = (g, s1)\<close> that]
      by (cases "issues_and_budget W C g (ct_attempt s1) (ct_budget s1)") (simp add: attempt_step_def Let_def)
  qed (rule attempt_drift [OF that]; assumption)+
  then show ?thesis using log unfolding frozen_log_def by blast
qed

definition demo_code :: code_cfg where
  "demo_code = \<lparr>cc_settings = \<lparr>gs_gates = Map.empty, gs_default_gate_policy = HARD, gs_gate_timeout_hours = 48\<rparr>,
     cc_max_fix_attempts = 1, cc_max_session_resumes = 3, cc_max_tool_escalations = 3, cc_max_gate_rounds = 2,
     cc_containment_enabled = True, cc_review_enabled = True, cc_adversarial_review_enabled = False, cc_deep_review_enabled = False,
     cc_reviewer_agent = True, cc_adversary_agent = False, cc_deep_review_agent = False, cc_handoff_agent = False, cc_crew = False,
     cc_model = ''m'', cc_branch = ''b'', cc_notes = [], cc_drop_generated = False, cc_session_refs = []\<rparr>"

definition demo_task :: code_task where
  "demo_task = \<lparr>kt_id = ''t1'', kt_title = ''T'', kt_files_hint = []\<rparr>"

definition demo_deferred :: deferred_tool_use where
  "demo_deferred = \<lparr>df_tool_use_id = ''u1'', df_tool = ''Bash'', df_input_digest = ''d'', df_rule_id = ''r'', df_target = None\<rparr>"

text \<open>The first execution asks for a tool; tests pass from the third attempt on.\<close>

definition demo_activity :: "nat \<Rightarrow> nat \<Rightarrow> exec_request \<Rightarrow> harness_run" where
  "demo_activity n k req = (eo_run crew_died)\<lparr>hr_session_id := Some ''s'', hr_commit_sha := Some ''sha'',
     hr_deferred := (if n = 1 \<and> k = 0 then Some demo_deferred else None)\<rparr>"

definition demo_qa :: "nat \<Rightarrow> qa_report" where
  "demo_qa n = \<lparr>qr_tests_passed = (3 \<le> n), qr_failing_tests = (if 3 \<le> n then [] else [''x'']), qr_issues = [], qr_stack_mismatch = False, qr_stopped_early = False\<rparr>"

definition demo_answer :: human where
  "demo_answer c = (mk_decision c (if gl_name c = ''tool_approval'' then APPROVE else REVISE) ByHuman None)\<lparr>gd_thaw_tests := True\<rparr>"

definition demo_world :: code_world where
  "demo_world = \<lparr>cw_activity = demo_activity, cw_crew = (\<lambda>_ _ _. None), cw_gate = demo_answer, cw_drift = (\<lambda>_ _. clean_drift),
     cw_tests = demo_qa, cw_qa = demo_qa, cw_files = (\<lambda>_. []), cw_review = (\<lambda>_. Some \<lparr>rr_approve = True, rr_blocking_findings = []\<rparr>),
     cw_adversary = (\<lambda>_. None), cw_deep = (\<lambda>_. None), cw_handoff = (\<lambda>_. None), cw_generated = (\<lambda>_. False)\<rparr>"

lemma demo_code_run:
  "cr_status (fst (code_step demo_code demo_world demo_task)) = RDone" "cr_attempts (fst (code_step demo_code demo_world demo_task)) = 3"
  "ct_anchor (snd (code_step demo_code demo_world demo_task)) = Some ''sha''"
  by code_simp+

lemma tests_stay_frozen_witness:
  "latest_checkpoint demo_code demo_world (ct_log (snd (code_step demo_code demo_world demo_task)))
     (ct_attempt (snd (code_step demo_code demo_world demo_task))) (Some ''sha'')"
  using tests_stay_frozen [of demo_code demo_world demo_task "fst (code_step demo_code demo_world demo_task)" "snd (code_step demo_code demo_world demo_task)"]
    demo_code_run(3) by simp

section \<open>Evidence\<close>

lemma observed_lens_exact:
  "report = None \<or> reached \<Longrightarrow> classify_lens lens enabled agent_present reached report = Inr (observed_lens lens enabled agent_present reached report)"
  by (auto simp: observed_lens_def classify_lens_def split: option.split)

lemma observed_lens_sound:
  "lo_lens (observed_lens lens enabled agent_present reached report) = lens"
  "facts_match_presence (observed_lens lens enabled agent_present reached report) = None"
  by (auto simp: observed_lens_def classify_lens_def absent_lens_def facts_match_presence_def split: option.split)

lemma primary_admits_report:
  "primary_admits (observed_lens ''reviewer'' (cc_review_enabled C) (cc_reviewer_agent C) True (primary_review C W n)) \<longleftrightarrow>
   (\<forall>rv. primary_review C W n = Some rv \<longrightarrow> rr_approve rv)"
  by (auto simp: observed_lens_def classify_lens_def absent_lens_def primary_admits_def primary_review_def split: option.split)

lemma backstop_admits_report:
  "backstop_admits (observed_lens ''adversary'' (cc_adversarial_review_enabled C) (cc_adversary_agent C) True (adversary_review C W n)) \<longleftrightarrow>
   (\<forall>rv. adversary_review C W n = Some rv \<longrightarrow> rr_approve rv \<or> rr_blocking_findings rv = [])"
  by (auto simp: observed_lens_def classify_lens_def absent_lens_def backstop_admits_def adversary_review_def split: option.split)

lemma run_attempt_facts:
  assumes "run_attempt C W t st = (f, st')"
  shows "af_passed f = (qr_tests_passed (cw_tests W (Suc (ct_attempt st))) \<and> qr_issues (cw_qa W (Suc (ct_attempt st))) = [] \<and> \<not> drift_found (af_drift f))"
    and "af_review_outcome f = observed_lens ''reviewer'' (cc_review_enabled C) (cc_reviewer_agent C) True (primary_review C W (Suc (ct_attempt st)))"
    and "af_adversary_outcome f = observed_lens ''adversary'' (cc_adversarial_review_enabled C) (cc_adversary_agent C)
      (af_passed f \<and> primary_admits (af_review_outcome f)) (af_adversary f)"
    and "af_adversary f = (if af_passed f \<and> primary_admits (af_review_outcome f) then adversary_review C W (Suc (ct_attempt st)) else None)"
  using assms by - (erule run_attemptE, assumption)+

lemma accepted_evidence:
  assumes "run_attempt C W t st = (f, st')" "accepted f"
  shows "qr_tests_passed (cw_tests W (ct_attempt st'))" "qr_issues (cw_qa W (ct_attempt st')) = []" "\<not> drift_found (af_drift f)"
    "\<And>rv. primary_review C W (ct_attempt st') = Some rv \<Longrightarrow> rr_approve rv"
    "\<And>rv. adversary_review C W (ct_attempt st') = Some rv \<Longrightarrow> rr_approve rv \<or> rr_blocking_findings rv = []"
proof -
  let ?n = "Suc (ct_attempt st)"
  have n: "ct_attempt st' = ?n" by (rule run_attempt_sel(1) [OF assms(1)])
  note facts = run_attempt_facts [OF assms(1)]
  have acc: "af_passed f" "primary_admits (af_review_outcome f)" "backstop_admits (af_adversary_outcome f)"
    using assms(2) by (simp_all add: accepted_def)
  show "qr_tests_passed (cw_tests W (ct_attempt st'))" "qr_issues (cw_qa W (ct_attempt st')) = []" "\<not> drift_found (af_drift f)"
    using acc(1) facts(1) n by simp_all
  have "\<forall>rv. primary_review C W ?n = Some rv \<longrightarrow> rr_approve rv"
    using acc(2) unfolding facts(2) primary_admits_report .
  then show "\<And>rv. primary_review C W (ct_attempt st') = Some rv \<Longrightarrow> rr_approve rv" by (simp add: n)
  have adv: "af_adversary f = adversary_review C W ?n" using acc(1,2) facts(4) by simp
  have "\<forall>rv. adversary_review C W ?n = Some rv \<longrightarrow> rr_approve rv \<or> rr_blocking_findings rv = []"
    using acc unfolding facts(3) adv by (simp add: backstop_admits_report)
  then show "\<And>rv. adversary_review C W (ct_attempt st') = Some rv \<Longrightarrow> rr_approve rv \<or> rr_blocking_findings rv = []" by (simp add: n)
qed

text \<open>C25: a task is done only when that was earned. Either the last thing that happened is that the task gate
  approved this very attempt, or the tests of the last attempt passed, the analysis of their output raised
  no issue, no frozen test drifted from the anchor, the reviewer, where there is one, approved, and the
  adversary, where there is one, did not object with a blocking finding.\<close>

theorem done_is_earned:
  assumes "code_step C W t = (r, st)" "cr_status r = RDone" and n: "n = cr_attempts r"
  shows "(\<exists>c a. c = task_call C t (ct_gate_round st) n a \<and> approved (cw_gate W c) \<and> last (ct_log st) = Asked c (cw_gate W c)) \<or>
    (qr_tests_passed (cw_tests W n) \<and> qr_issues (cw_qa W n) = [] \<and>
     (\<forall>a. cc_containment_enabled C \<and> 1 < n \<and> \<not> thawed_in (ct_log st) n \<and> ct_anchor st = Some a \<longrightarrow> \<not> drift_found (cw_drift W n a)) \<and>
     (\<forall>rv. primary_review C W n = Some rv \<longrightarrow> rr_approve rv) \<and>
     (\<forall>rv. adversary_review C W n = Some rv \<longrightarrow> rr_approve rv \<or> rr_blocking_findings rv = []))"
proof -
  from assms(1) obtain st0 where head: "code_head C W t st0" "attempt_step C W t st0 = Inl (r, st)" by (rule code_step_final)
  from head(2) obtain f st1 where att: "run_attempt C W t st0 = (f, st1)" and same: "ct_anchor st = ct_anchor st1" "cr_attempts r = ct_attempt st1"
    and tail: "(accepted f \<and> cr_status r = RDone \<and> ct_log st = ct_log st1 \<and> ct_gate_round st = ct_gate_round st1) \<or>
     (\<not> accepted f \<and> (\<exists>c a. c = task_call C t (Suc (ct_gate_round st1)) (ct_attempt st1) a \<and>
        cr_status r = (if approved (cw_gate W c) then RDone else RQuarantined) \<and>
        ct_log st = ct_log st1 @ [Asked c (cw_gate W c)] \<and> ct_gate_round st = Suc (ct_gate_round st1)))"
    by (rule step_end)
  from tail show ?thesis
  proof
    assume acc: "accepted f \<and> cr_status r = RDone \<and> ct_log st = ct_log st1 \<and> ct_gate_round st = ct_gate_round st1"
    have "\<not> drift_found (cw_drift W n a)"
      if "cc_containment_enabled C" "1 < n" "\<not> thawed_in (ct_log st) n" "ct_anchor st = Some a" for a
    proof -
      have "is_repair_attempt n (ct_thawed st0)"
        using that(2,3) acc frozen_attempt(4) [OF frozen_heads [OF head(1)] att] by (simp add: n same is_repair_attempt_def)
      then have "af_drift f = cw_drift W n a"
        unfolding frozen_attempt(5) [OF frozen_heads [OF head(1)] att] measure_drift_def using that by (simp add: n same)
      then show ?thesis using accepted_evidence(3) [OF att] acc by simp
    qed
    then show ?thesis using accepted_evidence [OF att] acc unfolding n same by blast
  next
    assume "\<not> accepted f \<and> (\<exists>c a. c = task_call C t (Suc (ct_gate_round st1)) (ct_attempt st1) a \<and>
        cr_status r = (if approved (cw_gate W c) then RDone else RQuarantined) \<and>
        ct_log st = ct_log st1 @ [Asked c (cw_gate W c)] \<and> ct_gate_round st = Suc (ct_gate_round st1))"
    then obtain c a where c: "c = task_call C t (Suc (ct_gate_round st1)) (ct_attempt st1) a"
      "cr_status r = (if approved (cw_gate W c) then RDone else RQuarantined)"
      "ct_log st = ct_log st1 @ [Asked c (cw_gate W c)]" "ct_gate_round st = Suc (ct_gate_round st1)" by blast
    have "approved (cw_gate W c)" using c(2) assms(2) by (cases "approved (cw_gate W c)") simp_all
    moreover have "last (ct_log st) = Asked c (cw_gate W c)" by (simp add: c(3))
    moreover have "c = task_call C t (ct_gate_round st) n a" using c(1,4) n same by simp
    ultimately show ?thesis by blast
  qed
qed

lemma demo_code_gate: "\<not> (case last (ct_log (snd (code_step demo_code demo_world demo_task))) of Asked c d \<Rightarrow> True | _ \<Rightarrow> False)"
  by code_simp

lemma done_is_earned_witness: "qr_tests_passed (cw_tests demo_world 3) \<and> qr_issues (cw_qa demo_world 3) = []"
  using done_is_earned [of demo_code demo_world demo_task "fst (code_step demo_code demo_world demo_task)"
      "snd (code_step demo_code demo_world demo_task)" 3] demo_code_run(1,2) demo_code_gate by auto

text \<open>Every result carries an outcome of each gating lens that the merge stage looks up, and each is consistent.\<close>

lemma stage_records_lenses:
  assumes "code_step C W t = (r, st)"
  shows "map lo_lens (cr_lens_outcomes r) = GATING_LENSES \<and> list_all (\<lambda>o1. facts_match_presence o1 = None) (cr_lens_outcomes r) \<and>
    (\<forall>lens \<in> set GATING_LENSES. lens_recorded \<lparr>mt_task_id = cr_task_id r, mt_tests_passed = Some (qr_tests_passed (cr_qa r)),
       mt_lens_outcomes = cr_lens_outcomes r, mt_plan_drift = cr_plan_drift r\<rparr> lens \<noteq> None)"
proof -
  from assms obtain st0 where "attempt_step C W t st0 = Inl (r, st)" by (rule code_step_final)
  then obtain f st1 where att: "run_attempt C W t st0 = (f, st1)" and out: "cr_lens_outcomes r = [af_review_outcome f, af_adversary_outcome f]"
    by (rule step_end)
  show ?thesis
    unfolding out run_attempt_facts(2,3) [OF att] by (simp add: observed_lens_sound GATING_LENSES_def lens_recorded_def dict_of_def update_conv')
qed

section \<open>Grants\<close>

text \<open>A grant that approves: its call was deferred by an execution of the same attempt, put to the tool gate
  and approved there, all of it in the past.\<close>

definition earned_grant :: "code_cfg \<Rightarrow> code_world \<Rightarrow> code_task \<Rightarrow> code_event list \<Rightarrow> nat \<Rightarrow> tool_grant \<Rightarrow> bool" where
  "earned_grant C W t past n g \<longleftrightarrow>
     (\<exists>d rnd k req. Executed n req \<in> set past \<and> hr_deferred (returned C W n k req) = Some d \<and>
        Asked (tool_call C t d rnd) (cw_gate W (tool_call C t d rnd)) \<in> set past \<and> approved (cw_gate W (tool_call C t d rnd)) \<and>
        tg_tool_use_id g = df_tool_use_id d \<and> tg_tool g = df_tool d \<and> tg_input_digest g = df_input_digest d \<and> tg_rule_id g = df_rule_id d)"

definition grants_earned :: "code_cfg \<Rightarrow> code_world \<Rightarrow> code_task \<Rightarrow> code_event list \<Rightarrow> nat \<Rightarrow> tool_grant list \<Rightarrow> bool" where
  "grants_earned C W t past n gs \<longleftrightarrow> length gs \<le> 1 \<and> (\<forall>g \<in> set gs. tg_approved g \<longrightarrow> earned_grant C W t past n g)"

definition granted_log :: "code_cfg \<Rightarrow> code_world \<Rightarrow> code_task \<Rightarrow> code_event list \<Rightarrow> bool" where
  "granted_log C W t log \<longleftrightarrow>
     (\<forall>past n req rest. log = past @ Executed n req # rest \<longrightarrow> grants_earned C W t past n (er_grants req))"

lemma granted_log_snoc:
  "granted_log C W t (log @ [e]) \<longleftrightarrow>
   granted_log C W t log \<and> (\<forall>n req. e = Executed n req \<longrightarrow> grants_earned C W t log n (er_grants req))"
proof (intro iffI conjI allI impI)
  assume all: "granted_log C W t (log @ [e])"
  show "granted_log C W t log" unfolding granted_log_def
  proof (intro allI impI)
    fix past n req rest assume "log = past @ Executed n req # rest"
    then have "log @ [e] = past @ Executed n req # (rest @ [e])" by simp
    then show "grants_earned C W t past n (er_grants req)" using all unfolding granted_log_def by blast
  qed
  fix n req assume "e = Executed n req"
  then have "log @ [e] = log @ Executed n req # []" by simp
  then show "grants_earned C W t log n (er_grants req)" using all unfolding granted_log_def by blast
next
  assume old: "granted_log C W t log \<and> (\<forall>n req. e = Executed n req \<longrightarrow> grants_earned C W t log n (er_grants req))"
  show "granted_log C W t (log @ [e])" unfolding granted_log_def
  proof (intro allI impI)
    fix past n req rest assume eq: "log @ [e] = past @ Executed n req # rest"
    show "grants_earned C W t past n (er_grants req)"
    proof (cases rest rule: rev_cases)
      case Nil
      then have "log = past" "e = Executed n req" using eq by simp_all
      then show ?thesis using old by blast
    next
      case (snoc rest' e')
      then have "log = past @ Executed n req # rest'" using eq by (simp flip: append_Cons append_assoc)
      then show ?thesis using old unfolding granted_log_def by blast
    qed
  qed
qed

lemma granted_log_other:
  "(\<And>n req. Executed n req \<notin> set es) \<Longrightarrow> granted_log C W t (log @ es) \<longleftrightarrow> granted_log C W t log"
proof (induction es rule: rev_induct)
  case (snoc e es)
  have "granted_log C W t (log @ es) = granted_log C W t log" by (rule snoc.IH) (use snoc.prems in simp)
  moreover have "e \<noteq> Executed n req" for n req using snoc.prems [of n req] by auto
  ultimately show ?case using granted_log_snoc [of C W t "log @ es" e] by simp
qed simp

lemma exec_once_granted:
  assumes "exec_once C W k grants st = (r, st')" "granted_log C W t (ct_log st)" "grants_earned C W t (ct_log st) (ct_attempt st) grants"
  shows "granted_log C W t (ct_log st')" "\<exists>req. Executed (ct_attempt st) req \<in> set (ct_log st') \<and> r = returned C W (ct_attempt st) k req"
proof -
  from assms(1) obtain req xs where log: "ct_log st' = ct_log st @ Executed (ct_attempt st) req # map Escalated xs" "er_grants req = grants"
    "r = eo_run (case execute_coding_task C W (ct_attempt st) k req of None \<Rightarrow> crew_died | Some out \<Rightarrow> out)" by (rule exec_once_log)
  have "granted_log C W t ((ct_log st @ [Executed (ct_attempt st) req]) @ map Escalated xs)"
    by (subst granted_log_other) (use assms(2,3) log(2) in \<open>auto simp: granted_log_snoc\<close>)
  then show "granted_log C W t (ct_log st')" by (simp add: log(1))
  show "\<exists>req. Executed (ct_attempt st) req \<in> set (ct_log st') \<and> r = returned C W (ct_attempt st) k req"
    using log(1,3) by (auto simp: returned_def)
qed

lemma exec_loop_granted:
  assumes "exec_loop C W t k asked capped grants st = (r, st')"
  shows "granted_log C W t (ct_log st) \<and> grants_earned C W t (ct_log st) (ct_attempt st) grants \<longrightarrow> granted_log C W t (ct_log st')"
  using assms
proof (induction rule: exec_loop_induct)
  case (stop k asked capped grants st r st1)
  show ?case using exec_once_granted(1) [OF stop(1)] by blast
next
  case (cap k asked grants st r1 st1 d r st')
  show ?case
  proof (intro impI, elim conjE)
    assume "granted_log C W t (ct_log st)" "grants_earned C W t (ct_log st) (ct_attempt st) grants"
    from exec_once_granted(1) [OF cap(1) this] have "granted_log C W t (ct_log (capped_state d r1 st1))"
      by (simp add: capped_state_def granted_log_snoc)
    moreover have "grants_earned C W t past n [mk_grant d False x]" for past n x by (simp add: grants_earned_def mk_grant_def)
    ultimately show "granted_log C W t (ct_log st')" using cap(4) by blast
  qed
next
  case (ask k asked grants st r1 st1 d r st')
  let ?rnd = "Suc (ct_escalation_round st1)"
  let ?c = "tool_call C t d ?rnd"
  show ?case
  proof (intro impI, elim conjE)
    assume prem: "granted_log C W t (ct_log st)" "grants_earned C W t (ct_log st) (ct_attempt st) grants"
    obtain req where req: "Executed (ct_attempt st) req \<in> set (ct_log st1)" "r1 = returned C W (ct_attempt st) k req"
      using exec_once_granted(2) [OF ask(1) prem] by blast
    have log: "ct_log (asked_state C W t d r1 st1) = ct_log st1 @ [Asked ?c (cw_gate W ?c),
        Escalated (mk_escalation d (outcome_of (cw_gate W ?c)) (Some (gd_decided_by (cw_gate W ?c))) ?rnd)]"
      by (simp add: asked_state_def Let_def)
    have "granted_log C W t (ct_log (asked_state C W t d r1 st1))"
      unfolding log by (subst granted_log_other) (use exec_once_granted(1) [OF ask(1) prem] in auto)
    moreover have "earned_grant C W t (ct_log (asked_state C W t d r1 st1)) (ct_attempt st) (asked_grant C W t d st1)"
      if "approved (cw_gate W ?c)"
      unfolding earned_grant_def log
      by (rule exI [of _ d], rule exI [of _ ?rnd], rule exI [of _ k], rule exI [of _ req])
        (use req(1) ask(2) that in \<open>simp add: req(2) [symmetric] asked_grant_def mk_grant_def Let_def\<close>)
    then have "grants_earned C W t (ct_log (asked_state C W t d r1 st1)) (ct_attempt (asked_state C W t d r1 st1)) [asked_grant C W t d st1]"
      using exec_once_sel(1) [OF ask(1)] by (simp add: grants_earned_def) (simp add: asked_grant_def mk_grant_def Let_def)
    ultimately show "granted_log C W t (ct_log st')" using ask(4) by blast
  qed
qed

lemma granted_attempt:
  assumes "run_attempt C W t st = (f, st')" "granted_log C W t (ct_log st)"
  shows "granted_log C W t (ct_log st')"
proof -
  from assms(1) obtain st1 where loop: "exec_loop C W t 0 0 False [] (begin_attempt st) = (af_run f, st1)"
    and st': "st' = log_code (attempt_events C W (Suc (ct_attempt st)) f) ((end_attempt st1 (af_run f))\<lparr>ct_thawed := False\<rparr>)"
    by (rule run_attemptE)
  have "granted_log C W t (ct_log (begin_attempt st))" using assms(2) by (simp add: granted_log_snoc)
  then have "granted_log C W t (ct_log st1)" using exec_loop_granted [OF loop] by (simp add: grants_earned_def)
  then have "granted_log C W t (ct_log st1 @ attempt_events C W (Suc (ct_attempt st)) f)"
    by (subst granted_log_other) (simp_all add: attempt_events_def)
  then show ?thesis by (simp add: st' end_attempt_def)
qed

lemma granted_heads: "code_head C W t st \<Longrightarrow> granted_log C W t (ct_log st)"
proof (induction rule: code_head.induct)
  case head_init
  show ?case by (simp add: granted_log_def init_code_def)
next
  case (head_next st st')
  from head_next(2) obtain f st1 where att: "run_attempt C W t st = (f, st1)"
    and tail: "(\<exists>x. ct_log st' = ct_log st1 @ [Retained x] \<and> \<not> ct_thawed st' \<and> ct_gate_round st' = ct_gate_round st1) \<or> (\<exists>c. revised C W t st1 st' c)"
    by (rule step_tail)
  note granted = granted_attempt [OF att head_next.IH]
  have "\<exists>es. ct_log st' = ct_log st1 @ es \<and> (\<forall>n req. Executed n req \<notin> set es)" using tail by (auto simp: revised_def Let_def)
  then obtain es where "ct_log st' = ct_log st1 @ es" "\<And>n req. Executed n req \<notin> set es" by blast
  then show ?case using granted by (simp add: granted_log_other)
qed

text \<open>C28: no tool call is let through unasked. Whenever the harness is executed with a grant that approves, an
  execution of the same attempt had suspended at that very call, by its id and its digest, the call was put
  to the tool gate of the task, and the gate approved it, all of it before; and no execution gets more than
  one grant.\<close>

theorem grants_are_asked:
  assumes "code_step C W t = (r, st)" "ct_log st = past @ Executed n req # rest"
  shows "length (er_grants req) \<le> 1 \<and> (\<forall>g \<in> set (er_grants req). tg_approved g \<longrightarrow> earned_grant C W t past n g)"
proof -
  from assms(1) obtain st0 where head: "code_head C W t st0" "attempt_step C W t st0 = Inl (r, st)" by (rule code_step_final)
  from head(2) obtain f st1 where att: "run_attempt C W t st0 = (f, st1)"
    and tail: "(accepted f \<and> cr_status r = RDone \<and> ct_log st = ct_log st1 \<and> ct_gate_round st = ct_gate_round st1) \<or>
     (\<not> accepted f \<and> (\<exists>c a. c = task_call C t (Suc (ct_gate_round st1)) (ct_attempt st1) a \<and>
        cr_status r = (if approved (cw_gate W c) then RDone else RQuarantined) \<and>
        ct_log st = ct_log st1 @ [Asked c (cw_gate W c)] \<and> ct_gate_round st = Suc (ct_gate_round st1)))"
    by (rule step_end)
  have "granted_log C W t (ct_log st1)" by (rule granted_attempt [OF att granted_heads [OF head(1)]])
  then have "granted_log C W t (ct_log st)" using tail by (auto simp: granted_log_snoc)
  then show ?thesis using assms(2) unfolding granted_log_def grants_earned_def by blast
qed

definition demo_log :: "code_event list" where
  "demo_log = ct_log (snd (code_step demo_code demo_world demo_task))"

lemma demo_log_grant:
  "(case drop 4 demo_log of Executed n req # _ \<Rightarrow> n = 1 \<and> map tg_approved (er_grants req) = [True] | _ \<Rightarrow> False)"
  unfolding demo_log_def by code_simp

lemma grants_are_asked_witness:
  "\<exists>req rest. demo_log = take 4 demo_log @ Executed 1 req # rest \<and> length (er_grants req) = 1 \<and>
     earned_grant demo_code demo_world demo_task (take 4 demo_log) 1 (hd (er_grants req))"
proof -
  obtain req rest where drop: "drop 4 demo_log = Executed 1 req # rest" and one: "map tg_approved (er_grants req) = [True]"
    using demo_log_grant by (auto split: list.splits code_event.splits)
  have log: "demo_log = take 4 demo_log @ Executed 1 req # rest" using append_take_drop_id [of 4 demo_log] drop by simp
  have "length (er_grants req) \<le> 1 \<and> (\<forall>g \<in> set (er_grants req). tg_approved g \<longrightarrow> earned_grant demo_code demo_world demo_task (take 4 demo_log) 1 g)"
    by (rule grants_are_asked [of demo_code demo_world demo_task "fst (code_step demo_code demo_world demo_task)"
        "snd (code_step demo_code demo_world demo_task)" "take 4 demo_log" 1 req rest])
      (simp, use log in \<open>simp add: demo_log_def [symmetric]\<close>)
  moreover obtain g where "er_grants req = [g]" "tg_approved g" using one by (cases "er_grants req") auto
  ultimately show ?thesis using log by auto
qed

section \<open>Where the source falls short\<close>

text \<open>The tool gates of two tasks share their keys: rounds are counted per task, the decisions of a run are kept
  per gate name and round. A gate whose key was decided for another task returns that decision at once.\<close>

lemma tool_gates_share_keys: "call_key (tool_call C t d n) = call_key (tool_call C' t' d' n)"
  by (simp add: call_key_def tool_call_def)

lemma foreign_decision_granted:
  assumes "gh_decisions h (call_key (tool_call C t d n)) = Some dec"
    and "gate_open now act (tool_call C t' d' n) h = (h', Inr (GWait (e # rest), ex))"
  shows "gate_step (tool_call C t' d' n) ex (h', GWait (e # rest)) (gate_finish (tool_call C t' d' n) dec h', GDone dec)"
proof (rule gs_decided)
  have "gh_decisions h' = gh_decisions h" using assms(2) by (auto simp: gate_open_def Let_def)
  then show "gh_decisions h' (call_key (tool_call C t' d' n)) = Some dec"
    using assms(1) tool_gates_share_keys [of C t d n C t' d'] by simp
qed

text \<open>A crew is handed the sessions of its last round in every attempt, also where the fix loop starts a fresh
  session.\<close>

lemma crew_never_fresh:
  assumes "attempt_step C W t st = Inr st'"
  obtains f st1 where "run_attempt C W t st = (f, st1)" "ct_crew_sessions st' = ct_crew_sessions st1"
  using assms by (rule step_tail)

end
