(* ===== verification/Identity_Match.thy ===== *)
theory Identity_Match
  imports Measurement
begin

text \<open>
  Capability identity, the pure part: \<open>capability/models.py\<close>, the weighted score of
  \<open>capability/fingerprint.py\<close>, the greedy assignment and \<open>resolve\<close> of \<open>capability/matcher.py\<close>, and the
  rows of \<open>capability/rows.py\<close>. Scores are the finite floats of the code: a type with the linear order
  of the comparisons, whose arithmetic and rendering are the fields of \<open>num_ops\<close>.
\<close>

section \<open>Scores\<close>

record 's num_ops =
  nu_lit :: "string \<Rightarrow> 's"
  nu_ratio :: "nat \<Rightarrow> nat \<Rightarrow> 's"
  nu_mul :: "'s \<Rightarrow> 's \<Rightarrow> 's"
  nu_div :: "'s \<Rightarrow> 's \<Rightarrow> 's"
  nu_sub :: "'s \<Rightarrow> 's \<Rightarrow> 's"
  nu_sum :: "'s list \<Rightarrow> 's"
  nu_str :: "'s \<Rightarrow> string"
  nu_fmt3 :: "'s \<Rightarrow> string"

text \<open>The sort key \<open>-score\<close>: the order of the scores, turned around.\<close>

datatype 's neg = Neg (unneg: 's)

instantiation neg :: (linorder) linorder
begin

definition less_eq_neg :: "'a neg \<Rightarrow> 'a neg \<Rightarrow> bool" where
  "x \<le> y \<longleftrightarrow> unneg y \<le> unneg x"

definition less_neg :: "'a neg \<Rightarrow> 'a neg \<Rightarrow> bool" where
  "x < y \<longleftrightarrow> unneg y < unneg x"

instance
  by standard (auto simp: less_eq_neg_def less_neg_def neg.expand)

end

lemma neg_le [simp]: "Neg x \<le> Neg y \<longleftrightarrow> y \<le> x" and neg_less [simp]: "Neg x < Neg y \<longleftrightarrow> y < x"
  by (simp_all add: less_eq_neg_def less_neg_def)

section \<open>Models\<close>

datatype signal_tier = CONTRACT | BEHAVIORAL | STRUCTURAL | LOCATIONAL

definition SIGNAL_TIERS :: "signal_tier list" where
  "SIGNAL_TIERS = [CONTRACT, BEHAVIORAL, STRUCTURAL, LOCATIONAL]"

definition DEFAULT_TIER_WEIGHTS :: "'s num_ops \<Rightarrow> signal_tier \<Rightarrow> 's" where
  "DEFAULT_TIER_WEIGHTS ops t =
     (case t of CONTRACT \<Rightarrow> nu_lit ops ''0.55'' | BEHAVIORAL \<Rightarrow> nu_lit ops ''0.20''
      | STRUCTURAL \<Rightarrow> nu_lit ops ''0.15'' | LOCATIONAL \<Rightarrow> nu_lit ops ''0.10'')"

definition T_MATCH :: "'s num_ops \<Rightarrow> 's" where
  "T_MATCH ops = nu_lit ops ''0.55''"

definition EPSILON :: "'s num_ops \<Rightarrow> 's" where
  "EPSILON ops = nu_lit ops ''0.05''"

record capability_fingerprint =
  fp_tiers :: "(signal_tier, string list) dict"
  fp_collected :: measurement

text \<open>The constructor with its validator \<open>_canonicalize\<close>: every tier, its members sorted and without doubles.\<close>

definition canonicalize :: "capability_fingerprint \<Rightarrow> capability_fingerprint" where
  "canonicalize fp =
     fp\<lparr>fp_tiers := map (\<lambda>t. (t, sorted_set (dict_get_or (fp_tiers fp) t []))) SIGNAL_TIERS\<rparr>"

definition mk_fingerprint :: "(signal_tier, string list) dict \<Rightarrow> measurement \<Rightarrow> capability_fingerprint" where
  "mk_fingerprint tiers collected = canonicalize \<lparr>fp_tiers = tiers, fp_collected = collected\<rparr>"

text \<open>\<open>fp.tiers.get(t, [])\<close>.\<close>

abbreviation tier :: "capability_fingerprint \<Rightarrow> signal_tier \<Rightarrow> string list" where
  "tier fp t \<equiv> dict_get_or (fp_tiers fp) t []"

datatype identity_status = ACTIVE | RETIRED | MERGED

datatype retired_reason = NOT_OBSERVED | ABSORBED

record capability_identity =
  ci_bc_id :: string
  ci_project :: string
  ci_first_seen_run :: string
  ci_status :: identity_status
  ci_retired_reason :: "retired_reason option"
  ci_merged_into :: "string option"
  ci_derived_from :: "string option"
  ci_fingerprint :: capability_fingerprint

datatype identity_error =
    ValueError string
  | KeyError string
  | IdentityConflictError string
  | IdentityStoreError string

definition status_value :: "identity_status \<Rightarrow> string" where
  "status_value s = (case s of ACTIVE \<Rightarrow> ''active'' | RETIRED \<Rightarrow> ''retired'' | MERGED \<Rightarrow> ''merged'')"

text \<open>
  The validator \<open>_status_fields_agree\<close>. It runs when a row is constructed, so also when it is loaded, and
  not on \<open>model_copy\<close>.
\<close>

definition status_fields_agree :: "capability_identity \<Rightarrow> string option" where
  "status_fields_agree r =
     (if ci_status r = RETIRED \<and> ci_retired_reason r = None
      then Some ''status=retired requires retired_reason -- a retirement without a reason cannot be distinguished from a bug''
      else if ci_status r \<noteq> RETIRED \<and> ci_retired_reason r \<noteq> None
      then Some (''retired_reason is set on status='' @ status_value (ci_status r))
      else if ci_status r = MERGED \<and> ci_merged_into r = None then Some ''status=merged requires merged_into''
      else if ci_merged_into r = Some (ci_bc_id r) then Some (ci_bc_id r @ '' cannot be merged into itself'')
      else if ci_derived_from r = Some (ci_bc_id r) then Some (ci_bc_id r @ '' cannot be derived from itself'')
      else None)"

definition mk_identity :: "capability_identity \<Rightarrow> identity_error + capability_identity" where
  "mk_identity r = (case status_fields_agree r of Some e \<Rightarrow> Inl (ValueError e) | None \<Rightarrow> Inr r)"

datatype attach_method = FIRST_DISCOVERY | MATCHED | FORCED_BY_CORRECTION

datatype advisory_kind = POSSIBLE_RENAME | AMBIGUOUS_MATCH | SPLIT_OF | IDENTITY_NOT_ASSESSED

record 's advisory =
  ad_kind :: advisory_kind
  ad_detail :: string
  ad_local_key :: string
  ad_related_bc_id :: "string option"
  ad_score :: "'s option"

record proposed_capability =
  pc_local_key :: string
  pc_fingerprint :: capability_fingerprint

record 's identity_attachment =
  at_local_key :: string
  at_bc_id :: string
  at_method :: attach_method
  at_match_score :: "'s option"
  at_contributions :: "(signal_tier, 's) dict"

record 's resolution_result =
  rr_attachments :: "'s identity_attachment list"
  rr_retired :: "string list"
  rr_merged :: "(string, string) dict"
  rr_advisories :: "'s advisory list"

section \<open>The score of a pair\<close>

definition jaccard :: "'s num_ops \<Rightarrow> string list \<Rightarrow> string list \<Rightarrow> 's" where
  "jaccard ops a b =
     (if a = [] \<and> b = [] then nu_lit ops ''0.0''
      else nu_ratio ops (card (set a \<inter> set b)) (card (set a \<union> set b)))"

definition shared_tiers :: "capability_fingerprint \<Rightarrow> capability_fingerprint \<Rightarrow> signal_tier list" where
  "shared_tiers a b = filter (\<lambda>t. tier a t \<noteq> [] \<and> tier b t \<noteq> []) SIGNAL_TIERS"

definition score ::
    "'s::linorder num_ops \<Rightarrow> capability_fingerprint \<Rightarrow> capability_fingerprint \<Rightarrow> (signal_tier \<Rightarrow> 's) \<Rightarrow>
     ('s \<times> (signal_tier, 's) dict) option" where
  "score ops a b weights =
     (if me_state (fp_collected a) \<noteq> MEASURED \<or> me_state (fp_collected b) \<noteq> MEASURED then None
      else let shared = shared_tiers a b in
        if shared = [] then None
        else if list_all (\<lambda>t. t = LOCATIONAL) shared then None
        else let denominator = nu_sum ops (map weights shared) in
          if denominator \<le> nu_lit ops ''0.0'' then None
          else let contributions = map (\<lambda>t. (t, jaccard ops (tier a t) (tier b t))) shared;
                   total = nu_div ops (nu_sum ops (map (\<lambda>(t, j). nu_mul ops (weights t) j) contributions)) denominator
               in Some (total, contributions))"

section \<open>The assignment\<close>

record 's pair =
  pr_score :: 's
  pr_bc_id :: string
  pr_local_key :: string

definition pair_key :: "'s pair \<Rightarrow> 's neg \<times> string \<times> string" where
  "pair_key p = (Neg (pr_score p), pr_bc_id p, pr_local_key p)"

fun assign_loop :: "'s pair list \<Rightarrow> string set \<Rightarrow> string set \<Rightarrow> (string, string) dict \<Rightarrow> (string, string) dict" where
  "assign_loop [] claimed_ids claimed_locals out = out"
| "assign_loop (p # ps) claimed_ids claimed_locals out =
     (if pr_bc_id p \<in> claimed_ids \<or> pr_local_key p \<in> claimed_locals
      then assign_loop ps claimed_ids claimed_locals out
      else assign_loop ps (insert (pr_bc_id p) claimed_ids) (insert (pr_local_key p) claimed_locals)
             (AList.update (pr_local_key p) (pr_bc_id p) out))"

definition assign :: "'s::linorder pair list \<Rightarrow> (string, string) dict" where
  "assign pairs = assign_loop (sort_key pair_key pairs) {} {} []"

section \<open>Resolution\<close>

text \<open>The check of the handles: the first that was seen before.\<close>

fun first_duplicate :: "string set \<Rightarrow> string list \<Rightarrow> string option" where
  "first_duplicate seen_keys [] = None"
| "first_duplicate seen_keys (k # ks) = (if k \<in> seen_keys then Some k else first_duplicate (insert k seen_keys) ks)"

definition quoted :: "string \<Rightarrow> string" where
  "quoted s = [CHR 0x27] @ s @ [CHR 0x27]"

definition duplicate_text :: "string \<Rightarrow> string" where
  "duplicate_text k = ''duplicate local_key '' @ quoted k @ '' in proposed; local_key is the caller'' @ [CHR 0x27]
     @ ''s per-assessment handle and must be unique across one resolve() call''"

type_synonym 's scored = "(string \<times> string, 's \<times> (signal_tier, 's) dict) dict"

definition score_all ::
    "'s::linorder num_ops \<Rightarrow> (signal_tier \<Rightarrow> 's) \<Rightarrow> proposed_capability list \<Rightarrow> capability_identity list \<Rightarrow> 's scored" where
  "score_all ops weights proposed candidates =
     dict_of (concat (map (\<lambda>p. List.map_filter (\<lambda>c.
       map_option (Pair (pc_local_key p, ci_bc_id c)) (score ops (pc_fingerprint p) (ci_fingerprint c) weights))
       candidates) proposed))"

definition is_measured :: "proposed_capability \<Rightarrow> bool" where
  "is_measured p \<longleftrightarrow> me_state (fp_collected (pc_fingerprint p)) = MEASURED"

definition uncomputable_keys ::
    "'s::linorder num_ops \<Rightarrow> (signal_tier \<Rightarrow> 's) \<Rightarrow> proposed_capability list \<Rightarrow> capability_identity list \<Rightarrow> string list" where
  "uncomputable_keys ops weights proposed candidates =
     map pc_local_key (filter (\<lambda>p.
       \<not> list_ex (\<lambda>c. score ops (pc_fingerprint p) (ci_fingerprint c) weights \<noteq> None) candidates \<and> \<not> is_measured p) proposed)"

definition eligible_pairs :: "'s::linorder \<Rightarrow> 's scored \<Rightarrow> 's pair list" where
  "eligible_pairs t_match scored =
     map (\<lambda>((lk, bc), (total, _)). \<lparr>pr_score = total, pr_bc_id = bc, pr_local_key = lk\<rparr>)
       (filter (\<lambda>(_, (total, _)). t_match \<le> total) scored)"

text \<open>The first pair of \<open>sorted(..., key=lambda m: (-m[1], m[0]))\<close>.\<close>

definition best_of :: "(string \<times> 's::linorder) list \<Rightarrow> (string \<times> 's) option" where
  "best_of ms = (case sort_key (\<lambda>(b, t). (Neg t, b)) ms of [] \<Rightarrow> None | m # _ \<Rightarrow> Some m)"

definition best_near_miss :: "string \<Rightarrow> 's::linorder scored \<Rightarrow> (string \<times> 's) option" where
  "best_near_miss local_key scored =
     best_of (map (\<lambda>((lk, bc), (total, _)). (bc, total)) (filter (\<lambda>((lk, _), _). lk = local_key) scored))"

definition lost_above_threshold :: "string \<Rightarrow> 's::linorder scored \<Rightarrow> string set \<Rightarrow> 's \<Rightarrow> string option" where
  "lost_above_threshold local_key scored claimed_ids t_match =
     map_option fst (best_of (map (\<lambda>((lk, bc), (total, _)). (bc, total))
       (filter (\<lambda>((lk, bc), (total, _)). lk = local_key \<and> t_match \<le> total \<and> bc \<in> claimed_ids) scored)))"

definition absorbed_by :: "string \<Rightarrow> 's::linorder scored \<Rightarrow> (string, string) dict \<Rightarrow> 's \<Rightarrow> string option" where
  "absorbed_by bc_id scored assigned t_match =
     map_option (\<lambda>(lk, _). dict_at assigned lk) (best_of (map (\<lambda>((lk, bc), (total, _)). (lk, total))
       (filter (\<lambda>((lk, bc), (total, _)). bc = bc_id \<and> t_match \<le> total \<and> lk \<in> set (dict_keys assigned)) scored)))"

definition maybe_ambiguous ::
    "'s::linorder num_ops \<Rightarrow> string \<Rightarrow> string \<Rightarrow> 's scored \<Rightarrow> 's pair list \<Rightarrow> 's \<Rightarrow> 's advisory list" where
  "maybe_ambiguous ops local_key bc_id scored eligible epsilon =
     (let winner = fst (dict_at scored (local_key, bc_id));
          runners = rev (sort (map pr_score (filter (\<lambda>p. pr_local_key p = local_key \<and> pr_bc_id p \<noteq> bc_id) eligible)))
      in case runners of
           [] \<Rightarrow> []
         | runner # _ \<Rightarrow>
             (if nu_sub ops winner runner < epsilon
              then [\<lparr>ad_kind = AMBIGUOUS_MATCH,
                     ad_detail = ''runner-up scored '' @ nu_fmt3 ops runner @ '' against winner '' @ nu_fmt3 ops winner
                       @ '', within epsilon='' @ nu_str ops epsilon @ ''; decided deterministically and reversible by correction'',
                     ad_local_key = local_key, ad_related_bc_id = Some bc_id, ad_score = Some winner\<rparr>]
              else []))"

text \<open>\<open>allocate\<close> is a callback with a state of its own.\<close>

fun mint_all :: "('st \<Rightarrow> string \<times> 'st) \<Rightarrow> string list \<Rightarrow> 'st \<Rightarrow> (string, string) dict \<times> 'st" where
  "mint_all allocate [] st = ([], st)"
| "mint_all allocate (lk # lks) st =
     (let (new_id, st1) = allocate st; (rest, st2) = mint_all allocate lks st1 in ((lk, new_id) # rest, st2))"

text \<open>One pass of the attachment loop for a key that was assigned an id, and for one that was not.\<close>

definition matched_attachment :: "'s scored \<Rightarrow> string \<Rightarrow> string \<Rightarrow> 's identity_attachment" where
  "matched_attachment scored lk bc_id =
     (let (total, contributions) = dict_at scored (lk, bc_id)
      in \<lparr>at_local_key = lk, at_bc_id = bc_id, at_method = MATCHED, at_match_score = Some total,
          at_contributions = contributions\<rparr>)"

definition first_attachment :: "string \<Rightarrow> string \<Rightarrow> 's identity_attachment" where
  "first_attachment lk new_id =
     \<lparr>at_local_key = lk, at_bc_id = new_id, at_method = FIRST_DISCOVERY, at_match_score = None, at_contributions = []\<rparr>"

definition discovery_advisories ::
    "'s::linorder num_ops \<Rightarrow> 's \<Rightarrow> 's scored \<Rightarrow> string set \<Rightarrow> string list \<Rightarrow> bool \<Rightarrow> proposed_capability \<Rightarrow> string \<Rightarrow>
     's advisory list" where
  "discovery_advisories ops t_match scored claimed_ids uncomputable any_candidate p new_id =
     (let lk = pc_local_key p in
      if lk \<in> set uncomputable
      then [\<lparr>ad_kind = IDENTITY_NOT_ASSESSED,
             ad_detail = ''fingerprint not collected ('' @ me_reason (fp_collected (pc_fingerprint p))
               @ ''); identity was not assessed and '' @ new_id @ '' was minted'',
             ad_local_key = lk, ad_related_bc_id = None, ad_score = None\<rparr>]
      else case lost_above_threshold lk scored claimed_ids t_match of
        Some lost_to \<Rightarrow>
          [\<lparr>ad_kind = SPLIT_OF,
            ad_detail = lost_to @ '' also matched this capability above threshold but was claimed by a stronger match; ''
              @ new_id @ '' minted as a split of '' @ lost_to,
            ad_local_key = lk, ad_related_bc_id = Some lost_to, ad_score = Some (fst (dict_at scored (lk, lost_to)))\<rparr>]
      | None \<Rightarrow>
          (if any_candidate
           then case best_near_miss lk scored of
                  None \<Rightarrow> []
                | Some (near_id, near_score) \<Rightarrow>
                    [\<lparr>ad_kind = POSSIBLE_RENAME,
                      ad_detail = ''closest stored capability '' @ near_id @ '' scored '' @ nu_fmt3 ops near_score
                        @ '', below t_match='' @ nu_str ops t_match @ ''; '' @ new_id @ '' minted'',
                      ad_local_key = lk, ad_related_bc_id = Some near_id, ad_score = Some near_score\<rparr>]
           else []))"

definition attach_one ::
    "'s::linorder num_ops \<Rightarrow> 's \<Rightarrow> 's \<Rightarrow> 's scored \<Rightarrow> 's pair list \<Rightarrow> (string, string) dict \<Rightarrow> (string, string) dict \<Rightarrow>
     string list \<Rightarrow> bool \<Rightarrow> proposed_capability \<Rightarrow> 's identity_attachment \<times> 's advisory list" where
  "attach_one ops t_match epsilon scored eligible assigned minted uncomputable any_candidate p =
     (let lk = pc_local_key p in
      case dict_get assigned lk of
        Some bc_id \<Rightarrow> (matched_attachment scored lk bc_id, maybe_ambiguous ops lk bc_id scored eligible epsilon)
      | None \<Rightarrow>
          (let new_id = dict_at minted lk
           in (first_attachment lk new_id,
               discovery_advisories ops t_match scored (snd ` set assigned) uncomputable any_candidate p new_id)))"

text \<open>The last loop: what happens to a candidate that no capability claimed.\<close>

definition unclaimed :: "capability_identity list \<Rightarrow> string set \<Rightarrow> capability_identity list" where
  "unclaimed candidates claimed_ids = filter (\<lambda>c. ci_bc_id c \<notin> claimed_ids) candidates"

definition resolve ::
    "'s::linorder num_ops \<Rightarrow> (signal_tier \<Rightarrow> 's) \<Rightarrow> 's \<Rightarrow> 's \<Rightarrow> ('st \<Rightarrow> string \<times> 'st) \<Rightarrow>
     proposed_capability list \<Rightarrow> capability_identity list \<Rightarrow> 'st \<Rightarrow> (identity_error + 's resolution_result) \<times> 'st" where
  "resolve ops weights t_match epsilon allocate proposed registry st =
     (let candidates = filter (\<lambda>r. ci_status r \<noteq> MERGED) registry;
          keys = map pc_local_key proposed
      in case first_duplicate {} keys of
        Some k \<Rightarrow> (Inl (ValueError (duplicate_text k)), st)
      | None \<Rightarrow> let
           scored = score_all ops weights proposed candidates;
           uncomputable = uncomputable_keys ops weights proposed candidates;
           eligible = eligible_pairs t_match scored;
           assigned = assign eligible;
           claimed_ids = snd ` set assigned;
           (minted, st') = mint_all allocate (sort (filter (\<lambda>lk. lk \<notin> set (dict_keys assigned)) keys)) st;
           visit = attach_one ops t_match epsilon scored eligible assigned minted uncomputable (candidates \<noteq> []);
           left = unclaimed candidates claimed_ids;
           fate = (\<lambda>c. absorbed_by (ci_bc_id c) scored assigned t_match)
         in (Inr \<lparr>rr_attachments = map (fst \<circ> visit) proposed,
                  rr_retired = sort (map ci_bc_id (filter (\<lambda>c. fate c = None \<and> ci_status c = ACTIVE) left)),
                  rr_merged = dict_of (List.map_filter (\<lambda>c. map_option (Pair (ci_bc_id c)) (fate c)) left),
                  rr_advisories = concat (map (snd \<circ> visit) proposed)\<rparr>, st'))"

section \<open>The rows an assessment changes\<close>

definition split_source :: "'s advisory list \<Rightarrow> (string, string) dict" where
  "split_source advisories =
     dict_of (List.map_filter (\<lambda>a. case ad_related_bc_id a of
         None \<Rightarrow> None
       | Some b \<Rightarrow> (if ad_kind a = SPLIT_OF \<and> b \<noteq> [] then Some (ad_local_key a, b) else None)) advisories)"

definition attachment_row ::
    "string \<Rightarrow> string \<Rightarrow> (string, string) dict \<Rightarrow> (string, capability_fingerprint) dict \<Rightarrow> (string \<rightharpoonup> capability_identity) \<Rightarrow>
     's identity_attachment \<Rightarrow> identity_error + capability_identity" where
  "attachment_row project run_id source fingerprints stored a =
     (case dict_get fingerprints (at_local_key a) of
        None \<Rightarrow> Inl (KeyError (at_local_key a))
      | Some fingerprint \<Rightarrow>
          (let fresh = mk_identity \<lparr>ci_bc_id = at_bc_id a, ci_project = project, ci_first_seen_run = run_id,
                 ci_status = ACTIVE, ci_retired_reason = None, ci_merged_into = None,
                 ci_derived_from = dict_get source (at_local_key a), ci_fingerprint = fingerprint\<rparr>
           in case stored (at_bc_id a) of
                None \<Rightarrow> fresh
              | Some prior \<Rightarrow>
                  (if at_method a = FIRST_DISCOVERY then fresh
                   else Inr (prior\<lparr>ci_status := ACTIVE, ci_retired_reason := None, ci_fingerprint := fingerprint\<rparr>))))"

fun attachment_rows ::
    "string \<Rightarrow> string \<Rightarrow> (string, string) dict \<Rightarrow> (string, capability_fingerprint) dict \<Rightarrow> (string \<rightharpoonup> capability_identity) \<Rightarrow>
     's identity_attachment list \<Rightarrow> (string, capability_identity) dict \<Rightarrow> identity_error + (string, capability_identity) dict" where
  "attachment_rows project run_id source fingerprints stored [] rows = Inr rows"
| "attachment_rows project run_id source fingerprints stored (a # as) rows =
     (case attachment_row project run_id source fingerprints stored a of
        Inl e \<Rightarrow> Inl e
      | Inr r \<Rightarrow> attachment_rows project run_id source fingerprints stored as (AList.update (at_bc_id a) r rows))"

definition retire_row :: "(string \<rightharpoonup> capability_identity) \<Rightarrow> string \<Rightarrow> (string, capability_identity) dict \<Rightarrow> (string, capability_identity) dict" where
  "retire_row stored bc_id rows =
     (case stored bc_id of
        None \<Rightarrow> rows
      | Some prior \<Rightarrow> AList.update bc_id
          (prior\<lparr>ci_status := RETIRED, ci_retired_reason := Some NOT_OBSERVED, ci_merged_into := None\<rparr>) rows)"

definition merge_row :: "(string \<rightharpoonup> capability_identity) \<Rightarrow> string \<times> string \<Rightarrow> (string, capability_identity) dict \<Rightarrow> (string, capability_identity) dict" where
  "merge_row stored lw rows =
     (case stored (fst lw) of
        None \<Rightarrow> rows
      | Some prior \<Rightarrow> AList.update (fst lw)
          (prior\<lparr>ci_status := MERGED, ci_retired_reason := None, ci_merged_into := Some (snd lw)\<rparr>) rows)"

definition identity_rows ::
    "string \<Rightarrow> string \<Rightarrow> 's resolution_result \<Rightarrow> (string, capability_fingerprint) dict \<Rightarrow> capability_identity list \<Rightarrow>
     identity_error + capability_identity list" where
  "identity_rows project run_id result fingerprints registry =
     (let stored = dict_get (dict_of (map (\<lambda>r. (ci_bc_id r, r)) registry)) in
      case attachment_rows project run_id (split_source (rr_advisories result)) fingerprints stored (rr_attachments result) [] of
        Inl e \<Rightarrow> Inl e
      | Inr rows \<Rightarrow>
          (let rows1 = fold (retire_row stored) (rr_retired result) rows;
               rows2 = fold (merge_row stored) (rr_merged result) rows1
           in Inr (map snd (dict_sorted rows2))))"

end
