(* ===== verification/Identity_Store.thy ===== *)
theory Identity_Store
  imports Identity_Match
begin

text \<open>
  Capability identity, the part that writes: the registry of \<open>capability/store.py\<close> as a record of its
  three tables, with a transaction as one operation; the corrections of \<open>capability/corrections.py\<close>; the
  activity \<open>discover_lock\<close> of \<open>assessment/activities.py\<close>; and the two kinds of client as sessions of a step
  relation in which the reads, the computation and the write of each are separate steps.
\<close>

section \<open>The tables\<close>

record registry_row =
  rg_version :: nat
  rg_next_ordinal :: nat

record identity_event =
  ie_project :: string
  ie_bc_id :: string
  ie_actor :: string
  ie_operation :: string
  ie_detail :: string

record identity_store =
  is_registry :: "string \<rightharpoonup> registry_row"
  is_rows :: "(string \<times> string, capability_identity) dict"
  is_events :: "identity_event list"

definition empty_store :: identity_store where
  "empty_store = \<lparr>is_registry = Map.empty, is_rows = [], is_events = []\<rparr>"

section \<open>Reads\<close>

text \<open>Every row of the project in the order of \<open>bc_id\<close>, each put through the validators of its class.\<close>

fun validate_rows :: "capability_identity list \<Rightarrow> identity_error + capability_identity list" where
  "validate_rows [] = Inr []"
| "validate_rows (r # rs) =
     (case mk_identity r of
        Inl e \<Rightarrow> Inl e
      | Inr r' \<Rightarrow> (case validate_rows rs of Inl e \<Rightarrow> Inl e | Inr rs' \<Rightarrow> Inr (r' # rs')))"

definition project_rows :: "identity_store \<Rightarrow> string \<Rightarrow> capability_identity list" where
  "project_rows st project = map snd (filter (\<lambda>((p, _), _). p = project) (is_rows st))"

definition load :: "identity_store \<Rightarrow> string \<Rightarrow> identity_error + capability_identity list" where
  "load st project =
     validate_rows (map (\<lambda>r. r\<lparr>ci_project := project, ci_fingerprint := canonicalize (ci_fingerprint r)\<rparr>)
       (sort_key ci_bc_id (project_rows st project)))"

definition registry_version :: "identity_store \<Rightarrow> string \<Rightarrow> nat" where
  "registry_version st project = (case is_registry st project of None \<Rightarrow> 0 | Some g \<Rightarrow> rg_version g)"

section \<open>The allocator\<close>

text \<open>\<open>INSERT INTO capability_registry ... ON CONFLICT DO NOTHING\<close>.\<close>

definition ensure_registry :: "string \<Rightarrow> identity_store \<Rightarrow> identity_store" where
  "ensure_registry project st =
     (case is_registry st project of
        None \<Rightarrow> st\<lparr>is_registry := (is_registry st)(project \<mapsto> \<lparr>rg_version = 0, rg_next_ordinal = 1\<rparr>)\<rparr>
      | Some _ \<Rightarrow> st)"

text \<open>\<open>f"BC-{n:03d}"\<close>.\<close>

definition bc_name :: "nat \<Rightarrow> string" where
  "bc_name n = ''BC-'' @ replicate (3 - length (nat_str n)) (CHR ''0'') @ nat_str n"

text \<open>\<open>_allocate\<close>: the counter moves at mint time. The registry row exists, the allocator made it.\<close>

definition allocate :: "string \<Rightarrow> identity_store \<Rightarrow> string \<times> identity_store" where
  "allocate project st =
     (let g = the (is_registry st project)
      in (bc_name (rg_next_ordinal g),
          st\<lparr>is_registry := (is_registry st)(project \<mapsto> g\<lparr>rg_next_ordinal := rg_next_ordinal g + 1\<rparr>)\<rparr>))"

section \<open>The write\<close>

text \<open>\<open>_max_ordinal\<close>: the number after the first dash, where there is one.\<close>

definition bc_ordinal :: "string \<Rightarrow> nat" where
  "bc_ordinal bc_id = (let suffix = snd (snd (partition_at (CHR ''-'') bc_id)) in if isdigit suffix then str_nat suffix else 0)"

definition max_ordinal :: "capability_identity list \<Rightarrow> nat" where
  "max_ordinal rows = foldl (\<lambda>best r. max best (bc_ordinal (ci_bc_id r))) 0 rows"

text \<open>The upsert of one row: a stored row keeps the run that saw it first.\<close>

definition upsert_row :: "string \<Rightarrow> capability_identity \<Rightarrow> identity_store \<Rightarrow> identity_store" where
  "upsert_row project row st =
     (let k = (project, ci_bc_id row);
          r = (case dict_get (is_rows st) k of
                 None \<Rightarrow> row
               | Some old \<Rightarrow> row\<lparr>ci_first_seen_run := ci_first_seen_run old\<rparr>)
      in st\<lparr>is_rows := AList.update k r (is_rows st)\<rparr>)"

definition write_row :: "string \<Rightarrow> string \<Rightarrow> string \<Rightarrow> string option \<Rightarrow> capability_identity \<Rightarrow> identity_store \<Rightarrow> identity_store" where
  "write_row project actor operation detail row st =
     (let st1 = upsert_row project row st;
          d = (case detail of Some d \<Rightarrow> d | None \<Rightarrow> status_value (ci_status row))
      in st1\<lparr>is_events := is_events st1 @
           [\<lparr>ie_project = project, ie_bc_id = ci_bc_id row, ie_actor = actor, ie_operation = operation, ie_detail = d\<rparr>]\<rparr>)"

fun write_rows ::
    "string \<Rightarrow> string \<Rightarrow> string \<Rightarrow> string option \<Rightarrow> capability_identity list \<Rightarrow> identity_store \<Rightarrow> identity_error + identity_store" where
  "write_rows project actor operation detail [] st = Inr st"
| "write_rows project actor operation detail (row # rows) st =
     (if ci_project row \<noteq> project
      then Inl (IdentityStoreError (''row '' @ ci_bc_id row @ '' carries project='' @ quoted (ci_project row)
             @ '' but apply() was called for '' @ quoted project))
      else write_rows project actor operation detail rows (write_row project actor operation detail row st))"

text \<open>\<open>apply\<close>: one transaction, rolled back as a whole when a row is refused.\<close>

definition apply_rows ::
    "identity_store \<Rightarrow> string \<Rightarrow> capability_identity list \<Rightarrow> nat \<Rightarrow> string \<Rightarrow> string \<Rightarrow> string option \<Rightarrow>
     identity_error + nat \<times> identity_store" where
  "apply_rows st project rows expected_version actor operation detail =
     (let current = registry_version st project in
      if current \<noteq> expected_version
      then Inl (IdentityConflictError (''registry_version for '' @ quoted project @ '' is '' @ nat_str current @ '', caller expected ''
             @ nat_str expected_version @ ''; reload and re-match (do not replay computed attachments)''))
      else case write_rows project actor operation detail rows (ensure_registry project st) of
        Inl e \<Rightarrow> Inl e
      | Inr st1 \<Rightarrow>
          (let g = the (is_registry st1 project)
           in Inr (expected_version + 1,
                st1\<lparr>is_registry := (is_registry st1)(project \<mapsto>
                  \<lparr>rg_version = expected_version + 1, rg_next_ordinal = max (rg_next_ordinal g) (max_ordinal rows + 1)\<rparr>)\<rparr>)))"

section \<open>Corrections\<close>

datatype correction_op = MERGE | SPLIT | REATTACH

definition op_value :: "correction_op \<Rightarrow> string" where
  "op_value op = (case op of MERGE \<Rightarrow> ''merge'' | SPLIT \<Rightarrow> ''split'' | REATTACH \<Rightarrow> ''reattach'')"

record identity_correction =
  ic_operation :: correction_op
  ic_approved_by :: string
  ic_reason :: string
  ic_source_bc_id :: string
  ic_target_bc_id :: "string option"
  ic_partition :: "string list"

text \<open>The validator \<open>_audited\<close>: whether a correction with these fields constructs.\<close>

definition audited :: "identity_correction \<Rightarrow> identity_error + identity_correction" where
  "audited c =
     (if strip (ic_approved_by c) = []
      then Inl (ValueError ''approved_by is required -- an unattributed override is not an audited one'')
      else if strip (ic_reason c) = [] then Inl (ValueError ''reason is required'')
      else Inr c)"

text \<open>\<open>_live_head\<close>: the walk along \<open>merged_into\<close>. Every pass adds a row of the registry to \<open>seen\<close>.\<close>

function live_walk :: "(string, capability_identity) dict \<Rightarrow> string \<Rightarrow> string set \<Rightarrow> string \<Rightarrow> string" where
  "live_walk rows bc_id seen cur =
     (if cur \<in> set (dict_keys rows) \<and> cur \<notin> seen
      then (let row = dict_at rows cur in
            if ci_status row = MERGED
            then (case ci_merged_into row of
                    Some nxt \<Rightarrow> (if nxt \<noteq> [] then live_walk rows bc_id (insert cur seen) nxt else cur)
                  | None \<Rightarrow> cur)
            else cur)
      else bc_id)"
  by pat_completeness auto

termination
proof (relation "measure (\<lambda>(rows, bc_id, seen, cur). card (set (dict_keys rows) - seen))", simp)
  fix rows :: "(string, capability_identity) dict" and bc_id seen cur row nxt
  assume a: "cur \<in> set (dict_keys rows) \<and> cur \<notin> seen"
  have "set (dict_keys rows) - insert cur seen \<subset> set (dict_keys rows) - seen" using a by blast
  then have "card (set (dict_keys rows) - insert cur seen) < card (set (dict_keys rows) - seen)"
    by (rule psubset_card_mono [rotated]) simp
  then show "((rows, bc_id, insert cur seen, nxt), rows, bc_id, seen, cur)
      \<in> measure (\<lambda>(rows, bc_id, seen, cur). card (set (dict_keys rows) - seen))" by simp
qed

declare live_walk.simps [simp del]

definition live_head :: "string \<Rightarrow> (string, capability_identity) dict \<Rightarrow> string" where
  "live_head bc_id rows = live_walk rows bc_id {} bc_id"

definition absorb ::
    "capability_identity \<Rightarrow> identity_correction \<Rightarrow> (string, capability_identity) dict \<Rightarrow>
     identity_error + capability_identity list option" where
  "absorb source correction rows =
     (let verb = op_value (ic_operation correction) in
      case ic_target_bc_id correction of
        None \<Rightarrow> Inl (ValueError (''operation='' @ verb @ '' requires target_bc_id''))
      | Some target_id \<Rightarrow> (case dict_get rows target_id of
          None \<Rightarrow> Inl (ValueError (''unknown capability '' @ quoted target_id))
        | Some target \<Rightarrow>
            (if ci_bc_id source = ci_bc_id target
             then Inl (ValueError (''cannot '' @ verb @ '' '' @ quoted (ci_bc_id source) @ '' into itself''))
             else if ci_status target \<noteq> ACTIVE
             then (let head = live_head (ci_bc_id target) rows;
                       suffix = (if head \<noteq> ci_bc_id target
                                 then '' (live head is '' @ quoted head @ ''; re-issue with --into '' @ head @ '')'' else [])
                   in Inl (ValueError (''cannot '' @ verb @ '' into '' @ quoted (ci_bc_id target) @ '': it is ''
                        @ status_value (ci_status target) @ suffix)))
             else if ci_status source = MERGED \<and> ci_merged_into source = Some (ci_bc_id target) then Inr None
             else Inr (Some
               [source\<lparr>ci_status := MERGED, ci_retired_reason := None, ci_merged_into := Some (ci_bc_id target)\<rparr>,
                target\<lparr>ci_fingerprint := ci_fingerprint source\<rparr>]))))"

text \<open>\<open>_split\<close>: the id is minted only after every check.\<close>

definition kept_tiers :: "capability_identity \<Rightarrow> string list \<Rightarrow> (signal_tier, string list) dict" where
  "kept_tiers source moving = map (\<lambda>t. (t, filter (\<lambda>m. m \<notin> set moving) (tier (ci_fingerprint source) t))) SIGNAL_TIERS"

definition taken_tiers :: "capability_identity \<Rightarrow> string list \<Rightarrow> (signal_tier, string list) dict" where
  "taken_tiers source moving = map (\<lambda>t. (t, filter (\<lambda>m. m \<in> set moving) (tier (ci_fingerprint source) t))) SIGNAL_TIERS"

definition unmatched_members :: "capability_identity \<Rightarrow> string list \<Rightarrow> string list" where
  "unmatched_members source moving =
     sorted_set (filter (\<lambda>m. m \<notin> set (concat (map snd (taken_tiers source moving)))) moving)"

definition split_rows ::
    "capability_identity \<Rightarrow> identity_correction \<Rightarrow> ('st \<Rightarrow> string \<times> 'st) \<Rightarrow> 'st \<Rightarrow>
     (identity_error + capability_identity list) \<times> 'st" where
  "split_rows source correction alloc st =
     (let moving = ic_partition correction; collected = fp_collected (ci_fingerprint source);
          unmatched = unmatched_members source moving in
      if moving = [] then (Inl (ValueError ''operation=split requires a non-empty partition''), st)
      else if unmatched \<noteq> []
      then (Inl (ValueError (''partition members not present in '' @ ci_bc_id source @ '': '' @ list_repr unmatched)), st)
      else if list_all (\<lambda>(_, ms). ms = []) (kept_tiers source moving)
      then (Inl (ValueError (''partition '' @ list_repr (sorted_set moving) @ '' moves every member of '' @ ci_bc_id source
              @ ''; splitting it all out would leave an empty husk'')), st)
      else let (new_id, st') = alloc st in
        case mk_identity \<lparr>ci_bc_id = new_id, ci_project = ci_project source, ci_first_seen_run = ci_first_seen_run source,
               ci_status = ACTIVE, ci_retired_reason = None, ci_merged_into = None, ci_derived_from = Some (ci_bc_id source),
               ci_fingerprint = mk_fingerprint (taken_tiers source moving) collected\<rparr> of
          Inl e \<Rightarrow> (Inl e, st')
        | Inr minted \<Rightarrow>
            (Inr [source\<lparr>ci_fingerprint := mk_fingerprint (kept_tiers source moving) collected\<rparr>, minted], st'))"

section \<open>The two clients\<close>

text \<open>The allocator the clients use, with the ids it handed out kept beside the store.\<close>

type_synonym traced = "identity_store \<times> string list"

definition traced_allocate :: "string \<Rightarrow> traced \<Rightarrow> string \<times> traced" where
  "traced_allocate project tr =
     (let (new_id, st') = allocate project (fst tr) in (new_id, (st', snd tr @ [new_id])))"

text \<open>\<open>discover_lock\<close> between its reads and its write.\<close>

definition lock_compute ::
    "'s::linorder num_ops \<Rightarrow> string \<Rightarrow> string \<Rightarrow> proposed_capability list \<Rightarrow> capability_identity list \<Rightarrow> identity_store \<Rightarrow>
     (identity_error + 's resolution_result \<times> capability_identity list) \<times> traced" where
  "lock_compute ops project run_id proposed registry st =
     (let (r, tr) = resolve ops (DEFAULT_TIER_WEIGHTS ops) (T_MATCH ops) (EPSILON ops) (traced_allocate project)
                      proposed registry (ensure_registry project st, [])
      in case r of
           Inl e \<Rightarrow> (Inl e, tr)
         | Inr result \<Rightarrow>
             (case identity_rows project run_id result
                     (dict_of (map (\<lambda>p. (pc_local_key p, pc_fingerprint p)) proposed)) registry of
                Inl e \<Rightarrow> (Inl e, tr)
              | Inr rows \<Rightarrow> (Inr (result, rows), tr)))"

record 's discover_lock_outcome =
  do_attachments :: "'s identity_attachment list"
  do_advisories :: "'s advisory list"
  do_registry_version :: nat

definition discover_lock ::
    "'s::linorder num_ops \<Rightarrow> string \<Rightarrow> string \<Rightarrow> proposed_capability list \<Rightarrow> identity_store \<Rightarrow>
     (identity_error + 's discover_lock_outcome) \<times> identity_store" where
  "discover_lock ops project run_id proposed st =
     (let version = registry_version st project in
      case load st project of
        Inl e \<Rightarrow> (Inl e, st)
      | Inr registry \<Rightarrow>
          (let (r, tr) = lock_compute ops project run_id proposed registry st in
           case r of
             Inl e \<Rightarrow> (Inl e, fst tr)
           | Inr (result, rows) \<Rightarrow>
               (let outcome = (\<lambda>v. \<lparr>do_attachments = rr_attachments result, do_advisories = rr_advisories result,
                                     do_registry_version = v\<rparr>)
                in if rows = [] then (Inr (outcome version), fst tr)
                   else case apply_rows (fst tr) project rows version ''assessment'' ''resolve'' None of
                     Inl e \<Rightarrow> (Inl e, fst tr)
                   | Inr (new_version, st') \<Rightarrow> (Inr (outcome new_version), st'))))"

text \<open>\<open>apply_correction\<close> between its reads and its write: nothing to write when it already holds.\<close>

definition correction_compute ::
    "string \<Rightarrow> identity_correction \<Rightarrow> capability_identity list \<Rightarrow> identity_store \<Rightarrow>
     (identity_error + capability_identity list option) \<times> traced" where
  "correction_compute project correction loaded st =
     (let rows = dict_of (map (\<lambda>r. (ci_bc_id r, r)) loaded) in
      case dict_get rows (ic_source_bc_id correction) of
        None \<Rightarrow> (Inl (ValueError (''unknown capability '' @ quoted (ic_source_bc_id correction) @ '' in project ''
                  @ quoted project)), (st, []))
      | Some source \<Rightarrow>
          (if ic_operation correction = SPLIT
           then (let (r, tr) = split_rows source correction (traced_allocate project) (ensure_registry project st, [])
                 in (map_sum id Some r, tr))
           else (absorb source correction rows, (st, []))))"

definition apply_correction ::
    "string \<Rightarrow> identity_correction \<Rightarrow> identity_store \<Rightarrow> (identity_error + nat) \<times> identity_store" where
  "apply_correction project correction st =
     (let version = registry_version st project in
      case load st project of
        Inl e \<Rightarrow> (Inl e, st)
      | Inr loaded \<Rightarrow>
          (let (r, tr) = correction_compute project correction loaded st in
           case r of
             Inl e \<Rightarrow> (Inl e, fst tr)
           | Inr None \<Rightarrow> (Inr version, fst tr)
           | Inr (Some changed) \<Rightarrow>
               (case apply_rows (fst tr) project changed version (ic_approved_by correction)
                       (op_value (ic_operation correction)) (Some (ic_reason correction)) of
                  Inl e \<Rightarrow> (Inl e, fst tr)
                | Inr (new_version, st') \<Rightarrow> (Inr new_version, st'))))"

section \<open>Sessions\<close>

datatype id_job = Assess string "proposed_capability list" | Correct identity_correction

text \<open>
  The values a job is made of have passed the validators of their classes: fingerprints are canonical,
  a correction is audited.
\<close>

definition job_ok :: "id_job \<Rightarrow> bool" where
  "job_ok job =
     (case job of
        Assess run_id proposed \<Rightarrow> list_all (\<lambda>p. canonicalize (pc_fingerprint p) = pc_fingerprint p) proposed
      | Correct c \<Rightarrow> audited c = Inr c)"

definition job_compute ::
    "'s::linorder num_ops \<Rightarrow> string \<Rightarrow> id_job \<Rightarrow> capability_identity list \<Rightarrow> identity_store \<Rightarrow>
     (identity_error + capability_identity list option) \<times> traced" where
  "job_compute ops project job loaded st =
     (case job of
        Assess run_id proposed \<Rightarrow>
          (let (r, tr) = lock_compute ops project run_id proposed loaded st
           in (map_sum id (\<lambda>(result, rows). if rows = [] then None else Some rows) r, tr))
      | Correct c \<Rightarrow> correction_compute project c loaded st)"

definition job_write ::
    "id_job \<Rightarrow> identity_store \<Rightarrow> string \<Rightarrow> capability_identity list \<Rightarrow> nat \<Rightarrow> identity_error + nat \<times> identity_store" where
  "job_write job st project rows version =
     (case job of
        Assess _ _ \<Rightarrow> apply_rows st project rows version ''assessment'' ''resolve'' None
      | Correct c \<Rightarrow> apply_rows st project rows version (ic_approved_by c) (op_value (ic_operation c)) (Some (ic_reason c)))"

text \<open>
  A session has read the version; then the rows too; then it holds the rows it wants to write, with those it
  computed them from; then it has ended with its error or version.
\<close>

datatype session =
    Reading string id_job nat
  | Loaded string id_job nat "capability_identity list"
  | Ready string id_job nat "capability_identity list" "capability_identity list"
  | Ended "identity_error + nat"

record world =
  wo_store :: identity_store
  wo_sessions :: "session list"

definition empty_world :: world where
  "empty_world = \<lparr>wo_store = empty_store, wo_sessions = []\<rparr>"

definition load_session :: "world \<Rightarrow> nat \<Rightarrow> string \<Rightarrow> id_job \<Rightarrow> nat \<Rightarrow> world" where
  "load_session w i project job version =
     w\<lparr>wo_sessions := (wo_sessions w)[i :=
        (case load (wo_store w) project of Inl e \<Rightarrow> Ended (Inl e) | Inr rows \<Rightarrow> Loaded project job version rows)]\<rparr>"

definition compute_session ::
    "'s::linorder num_ops \<Rightarrow> world \<Rightarrow> nat \<Rightarrow> string \<Rightarrow> id_job \<Rightarrow> nat \<Rightarrow> capability_identity list \<Rightarrow> world \<times> string list" where
  "compute_session ops w i project job version rows =
     (let (r, tr) = job_compute ops project job rows (wo_store w)
      in (w\<lparr>wo_store := fst tr,
            wo_sessions := (wo_sessions w)[i :=
              (case r of
                 Inl e \<Rightarrow> Ended (Inl e)
               | Inr None \<Rightarrow> Ended (Inr version)
               | Inr (Some changed) \<Rightarrow> Ready project job version rows changed)]\<rparr>, snd tr))"

definition write_session ::
    "world \<Rightarrow> nat \<Rightarrow> string \<Rightarrow> id_job \<Rightarrow> nat \<Rightarrow> capability_identity list \<Rightarrow> world" where
  "write_session w i project job version changed =
     (case job_write job (wo_store w) project changed version of
        Inl e \<Rightarrow> w\<lparr>wo_sessions := (wo_sessions w)[i := Ended (Inl e)]\<rparr>
      | Inr (v, st') \<Rightarrow> w\<lparr>wo_store := st', wo_sessions := (wo_sessions w)[i := Ended (Inr v)]\<rparr>)"

text \<open>The label of a step is the list of the ids it hands out, each with its project.\<close>

inductive id_step :: "'s::linorder num_ops \<Rightarrow> world \<Rightarrow> (string \<times> string) list \<Rightarrow> world \<Rightarrow> bool" for ops where
  opens: "job_ok job \<Longrightarrow>
    id_step ops w [] (w\<lparr>wo_sessions := wo_sessions w @ [Reading project job (registry_version (wo_store w) project)]\<rparr>)"
| loads: "i < length (wo_sessions w) \<Longrightarrow> wo_sessions w ! i = Reading project job version \<Longrightarrow>
    id_step ops w [] (load_session w i project job version)"
| computes: "i < length (wo_sessions w) \<Longrightarrow> wo_sessions w ! i = Loaded project job version rows \<Longrightarrow>
    compute_session ops w i project job version rows = (w', ids) \<Longrightarrow>
    id_step ops w (map (Pair project) ids) w'"
| writes: "i < length (wo_sessions w) \<Longrightarrow> wo_sessions w ! i = Ready project job version rows changed \<Longrightarrow>
    id_step ops w [] (write_session w i project job version changed)"

inductive_cases id_stepE: "id_step ops w l w'"

inductive id_reach :: "'s::linorder num_ops \<Rightarrow> world \<Rightarrow> (string \<times> string) list \<Rightarrow> bool" for ops where
  start: "id_reach ops empty_world []"
| step: "id_reach ops w log \<Longrightarrow> id_step ops w l w' \<Longrightarrow> id_reach ops w' (log @ l)"

end
