(* ===== verification/Identity_Example.thy ===== *)
theory Identity_Example
  imports Identity_Store
begin

text \<open>
  A small shop as the running example: scores in percent, two capabilities discovered, one merged into the
  other by a correction, and a second assessment under way.
\<close>

definition ex_num :: "int num_ops" where
  "ex_num = \<lparr>nu_lit = (\<lambda>s. if s = ''0.55'' then 55 else if s = ''0.20'' then 20 else if s = ''0.15'' then 15
      else if s = ''0.10'' then 10 else if s = ''0.05'' then 5 else 0),
    nu_ratio = (\<lambda>a b. (100 * int a) div int b), nu_mul = (\<lambda>x y. x * y), nu_div = (\<lambda>x y. x div y), nu_sub = (\<lambda>x y. x - y),
    nu_sum = sum_list, nu_str = (\<lambda>_. []), nu_fmt3 = (\<lambda>_. [])\<rparr>"

definition ex_fp :: "string list \<Rightarrow> capability_fingerprint" where
  "ex_fp routes = mk_fingerprint [(CONTRACT, routes)] (measured ''1.0'')"

definition ex_cart :: proposed_capability where
  "ex_cart = \<lparr>pc_local_key = ''cart'', pc_fingerprint = ex_fp [''c'']\<rparr>"

definition ex_pay :: proposed_capability where
  "ex_pay = \<lparr>pc_local_key = ''pay'', pc_fingerprint = ex_fp [''p'']\<rparr>"

definition ex_ship :: proposed_capability where
  "ex_ship = \<lparr>pc_local_key = ''ship'', pc_fingerprint = ex_fp [''s'']\<rparr>"

definition ex_first :: id_job where
  "ex_first = Assess ''r1'' [ex_pay, ex_cart]"

definition ex_merge :: id_job where
  "ex_merge = Correct \<lparr>ic_operation = MERGE, ic_approved_by = ''ann'', ic_reason = ''same'', ic_source_bc_id = ''BC-002'',
     ic_target_bc_id = Some ''BC-001'', ic_partition = []\<rparr>"

definition ex_second :: id_job where
  "ex_second = Assess ''r2'' [ex_pay, ex_ship]"

definition open_session :: "world \<Rightarrow> string \<Rightarrow> id_job \<Rightarrow> world" where
  "open_session w project job = w\<lparr>wo_sessions := wo_sessions w @ [Reading project job (registry_version (wo_store w) project)]\<rparr>"

definition loaded_rows :: "session \<Rightarrow> capability_identity list" where
  "loaded_rows s = (case s of Loaded _ _ _ rows \<Rightarrow> rows | Ready _ _ _ rows _ \<Rightarrow> rows | _ \<Rightarrow> [])"

definition changed_rows :: "session \<Rightarrow> capability_identity list" where
  "changed_rows s = (case s of Ready _ _ _ _ changed \<Rightarrow> changed | _ \<Rightarrow> [])"

text \<open>One session from its opening to its write.\<close>

definition ready_world :: "world \<Rightarrow> string \<Rightarrow> id_job \<Rightarrow> world \<times> string list" where
  "ready_world w project job =
     (let w1 = open_session w project job; i = length (wo_sessions w); v = registry_version (wo_store w) project;
          w2 = load_session w1 i project job v
      in compute_session ex_num w2 i project job v (loaded_rows (wo_sessions w2 ! i)))"

definition full_session :: "world \<Rightarrow> string \<Rightarrow> id_job \<Rightarrow> world" where
  "full_session w project job =
     (let w3 = fst (ready_world w project job); i = length (wo_sessions w)
      in write_session w3 i project job (registry_version (wo_store w) project) (changed_rows (wo_sessions w3 ! i)))"

definition ex_w1 :: world where "ex_w1 = full_session empty_world ''shop'' ex_first"
definition ex_w2 :: world where "ex_w2 = full_session ex_w1 ''shop'' ex_merge"
definition ex_w3 :: world where "ex_w3 = fst (ready_world ex_w2 ''shop'' ex_second)"

lemma ex_ready1: "snd (ready_world empty_world ''shop'' ex_first) = [''BC-001'', ''BC-002'']"
  by code_simp

lemma ex_rows1: "map ci_bc_id (project_rows (wo_store ex_w1) ''shop'') = [''BC-001'', ''BC-002'']"
  by code_simp

lemma ex_ready3: "snd (ready_world ex_w2 ''shop'' ex_second) = [''BC-003'']"
  by code_simp

text \<open>The second assessment as one resolution, with a counter for the allocator, and the pairs of a small assignment.\<close>

definition ex_registry :: "capability_identity list" where
  "ex_registry = project_rows (wo_store ex_w1) ''shop''"

definition ex_resolve :: "proposed_capability list \<Rightarrow> capability_identity list \<Rightarrow> (identity_error + int resolution_result) \<times> nat" where
  "ex_resolve proposed registry = resolve ex_num (DEFAULT_TIER_WEIGHTS ex_num) (T_MATCH ex_num) (EPSILON ex_num)
     (\<lambda>n. (bc_name n, Suc n)) proposed registry 3"

definition ex_result :: "int resolution_result" where
  "ex_result = (case fst (ex_resolve [ex_pay, ex_ship] ex_registry) of Inr r \<Rightarrow> r | Inl _ \<Rightarrow>
     \<lparr>rr_attachments = [], rr_retired = [], rr_merged = [], rr_advisories = []\<rparr>)"

lemma ex_resolve_result:
  "resolve ex_num (DEFAULT_TIER_WEIGHTS ex_num) (T_MATCH ex_num) (EPSILON ex_num) (\<lambda>n. (bc_name n, Suc n))
     [ex_pay, ex_ship] ex_registry 3 = (Inr ex_result, 4)"
proof -
  have "(case fst (ex_resolve [ex_pay, ex_ship] ex_registry) of Inr _ \<Rightarrow> True | Inl _ \<Rightarrow> False)"
    "snd (ex_resolve [ex_pay, ex_ship] ex_registry) = 4" by code_simp+
  then have "ex_resolve [ex_pay, ex_ship] ex_registry = (Inr ex_result, 4)"
    by (cases "ex_resolve [ex_pay, ex_ship] ex_registry") (auto simp: ex_result_def split: sum.splits)
  then show ?thesis by (simp add: ex_resolve_def)
qed

lemma ex_registry_distinct: "distinct (map ci_bc_id ex_registry)"
  by code_simp

definition ex_pairs :: "int pair list" where
  "ex_pairs = [\<lparr>pr_score = 70, pr_bc_id = ''BC-001'', pr_local_key = ''pay''\<rparr>,
     \<lparr>pr_score = 90, pr_bc_id = ''BC-001'', pr_local_key = ''cart''\<rparr>,
     \<lparr>pr_score = 60, pr_bc_id = ''BC-002'', pr_local_key = ''pay''\<rparr>]"

end
