(* ===== verification/Identity_Assign.thy ===== *)
theory Identity_Assign
  imports Identity_Example
begin

text \<open>
  The greedy assignment and the resolution of \<open>capability/matcher.py\<close>: the assignment is the one stable
  matching of the scored pairs; every capability gets one id; and what the resolution reports about the
  ids nobody claimed is what the scores say.
\<close>

section \<open>The pairs a greedy pass takes\<close>

fun chosen :: "'s pair list \<Rightarrow> string set \<Rightarrow> string set \<Rightarrow> 's pair list" where
  "chosen [] ids keys = []"
| "chosen (p # ps) ids keys =
     (if pr_bc_id p \<in> ids \<or> pr_local_key p \<in> keys then chosen ps ids keys
      else p # chosen ps (insert (pr_bc_id p) ids) (insert (pr_local_key p) keys))"

abbreviation link :: "'s pair \<Rightarrow> string \<times> string" where
  "link p \<equiv> (pr_local_key p, pr_bc_id p)"

definition shares :: "'s pair \<Rightarrow> 's pair \<Rightarrow> bool" where
  "shares p q \<longleftrightarrow> pr_bc_id p = pr_bc_id q \<or> pr_local_key p = pr_local_key q"

lemma chosen_subset: "set (chosen ps ids keys) \<subseteq> set ps"
  by (induction ps arbitrary: ids keys) (auto dest: subsetD)

lemma chosen_fresh: "p \<in> set (chosen ps ids keys) \<Longrightarrow> pr_bc_id p \<notin> ids \<and> pr_local_key p \<notin> keys"
proof (induction ps arbitrary: ids keys)
  case (Cons q ps)
  then show ?case by (fastforce split: if_splits)
qed simp

lemma chosen_distinct:
  "distinct (map pr_bc_id (chosen ps ids keys)) \<and> distinct (map pr_local_key (chosen ps ids keys))"
proof (induction ps arbitrary: ids keys)
  case (Cons q ps)
  show ?case using Cons [of ids keys] Cons [of "insert (pr_bc_id q) ids" "insert (pr_local_key q) keys"]
    by (auto dest: chosen_fresh)
qed simp

lemma chosen_blocks:
  assumes "sorted (map pair_key ps)" "p \<in> set ps" "p \<notin> set (chosen ps ids keys)"
  shows "pr_bc_id p \<in> ids \<or> pr_local_key p \<in> keys
    \<or> (\<exists>q \<in> set (chosen ps ids keys). pair_key q \<le> pair_key p \<and> shares q p)"
  using assms
proof (induction ps arbitrary: ids keys)
  case (Cons q ps)
  show ?case
  proof (cases "pr_bc_id q \<in> ids \<or> pr_local_key q \<in> keys")
    case True
    with Cons show ?thesis by auto
  next
    case False
    with Cons.prems have p: "p \<in> set ps" and np: "p \<notin> set (chosen ps (insert (pr_bc_id q) ids) (insert (pr_local_key q) keys))"
      and le: "pair_key q \<le> pair_key p" by auto
    from Cons.IH [OF _ p np] Cons.prems
    have "pr_bc_id p \<in> insert (pr_bc_id q) ids \<or> pr_local_key p \<in> insert (pr_local_key q) keys
      \<or> (\<exists>q' \<in> set (chosen ps (insert (pr_bc_id q) ids) (insert (pr_local_key q) keys)). pair_key q' \<le> pair_key p \<and> shares q' p)"
      by simp
    with False le show ?thesis by (auto simp: shares_def)
  qed
qed simp

lemma assign_loop_chosen:
  assumes "set (dict_keys out) \<subseteq> keys"
  shows "assign_loop ps ids keys out = out @ map link (chosen ps ids keys)"
  using assms
proof (induction ps arbitrary: ids keys out)
  case (Cons p ps)
  show ?case
  proof (cases "pr_bc_id p \<in> ids \<or> pr_local_key p \<in> keys")
    case False
    then have "pr_local_key p \<notin> set (dict_keys out)" using Cons.prems by (meson subsetD)
    then have up: "AList.update (pr_local_key p) (pr_bc_id p) out = out @ [link p]" by (rule alist_update_new)
    have "set (dict_keys (out @ [link p])) \<subseteq> insert (pr_local_key p) keys" using Cons.prems by auto
    from Cons.IH [OF this] False show ?thesis by (simp add: up)
  qed (simp add: Cons.IH [OF Cons.prems])
qed simp

definition taken :: "'s::linorder pair list \<Rightarrow> 's pair list" where
  "taken pairs = chosen (sort_key pair_key pairs) {} {}"

lemma assign_taken: "assign pairs = map link (taken pairs)"
  by (simp add: assign_def taken_def assign_loop_chosen)

lemma taken_subset: "set (taken pairs) \<subseteq> set pairs"
  using chosen_subset [of "sort_key pair_key pairs" "{}" "{}"] by (simp add: taken_def)

lemma taken_distinct: "distinct (map pr_bc_id (taken pairs))" "distinct (map pr_local_key (taken pairs))"
  using chosen_distinct [of "sort_key pair_key pairs" "{}" "{}"] by (simp_all add: taken_def)

lemma taken_blocks:
  assumes "p \<in> set pairs" "p \<notin> set (taken pairs)"
  obtains q where "q \<in> set (taken pairs)" "pair_key q \<le> pair_key p" "shares q p"
  using chosen_blocks [of "sort_key pair_key pairs" p "{}" "{}"] assms by (auto simp: taken_def)

lemma shares_taken:
  assumes "p \<in> set (taken pairs)" "q \<in> set (taken pairs)" "shares p q"
  shows "p = q"
  using taken_distinct [of pairs] assms unfolding shares_def
  by (metis (mono_tags) distinct_map inj_on_def)

section \<open>Stable matchings\<close>

text \<open>
  A stable matching of the pairs: no two of its pairs share an id or a capability, and every pair it leaves
  out is beaten, in the order of score, id and handle, by one of its own pairs that shares one of the two.
\<close>

definition stable_matching :: "'s::linorder pair list \<Rightarrow> 's pair set \<Rightarrow> bool" where
  "stable_matching pairs S \<longleftrightarrow>
     S \<subseteq> set pairs \<and> (\<forall>p \<in> S. \<forall>q \<in> S. shares p q \<longrightarrow> p = q)
     \<and> (\<forall>p \<in> set pairs - S. \<exists>q \<in> S. pair_key q \<le> pair_key p \<and> shares q p)"

lemma taken_stable: "stable_matching pairs (set (taken pairs))"
  unfolding stable_matching_def
  by (meson DiffD1 DiffD2 shares_taken taken_blocks taken_subset)

lemma pair_key_inj:
  assumes "distinct (map link pairs)"
  shows "inj_on pair_key (set pairs)"
  using assms by (auto simp: distinct_map inj_on_def pair_key_def)

lemma stable_agree:
  assumes d: "distinct (map link pairs)" and S: "stable_matching pairs S" and T: "stable_matching pairs T"
    and p: "p \<in> set pairs"
  shows "p \<in> S \<longleftrightarrow> p \<in> T"
  using p
proof (induction "card {q \<in> set pairs. pair_key q < pair_key p}" arbitrary: p rule: less_induct)
  case less
  have half: "p \<in> B" if A: "stable_matching pairs A" and B: "stable_matching pairs B" and pA: "p \<in> A"
    and IH: "\<And>q. q \<in> set pairs \<Longrightarrow> pair_key q < pair_key p \<Longrightarrow> q \<in> B \<Longrightarrow> q \<in> A" for A B
  proof (rule ccontr)
    assume "p \<notin> B"
    with B less.prems obtain q where q: "q \<in> B" "pair_key q \<le> pair_key p" "shares q p"
      unfolding stable_matching_def by blast
    from q(1) B have qp: "q \<in> set pairs" unfolding stable_matching_def by blast
    have "q \<noteq> p" using q(1) \<open>p \<notin> B\<close> by blast
    then have "pair_key q \<noteq> pair_key p" using pair_key_inj [OF d] qp less.prems by (meson inj_onD)
    with q(2) have "q \<in> A" using IH [OF qp _ q(1)] by simp
    with A pA q(3) \<open>q \<noteq> p\<close> show False unfolding stable_matching_def by blast
  qed
  have IH: "q \<in> S \<longleftrightarrow> q \<in> T" if "q \<in> set pairs" "pair_key q < pair_key p" for q
  proof (rule less.hyps [OF _ that(1)])
    have "{q' \<in> set pairs. pair_key q' < pair_key q} \<subset> {q' \<in> set pairs. pair_key q' < pair_key p}"
      using that by (fastforce intro: less_trans)
    then show "card {q' \<in> set pairs. pair_key q' < pair_key q} < card {q' \<in> set pairs. pair_key q' < pair_key p}"
      by (intro psubset_card_mono) auto
  qed
  show ?case using half [OF S T] half [OF T S] IH by blast
qed

lemma stable_unique:
  assumes "distinct (map link pairs)" "stable_matching pairs S" "stable_matching pairs T"
  shows "S = T"
proof -
  have "S \<subseteq> set pairs" "T \<subseteq> set pairs" using assms(2,3) unfolding stable_matching_def by blast+
  with stable_agree [OF assms] show ?thesis by blast
qed

lemma assign_permutation:
  assumes d: "distinct (map link pairs)" and m: "mset pairs = mset pairs'"
  shows "assign pairs = assign pairs'"
proof -
  have inj: "inj_on pair_key (set (sort_key pair_key pairs))"
    using pair_key_inj [OF d] by simp
  have "sort_key pair_key pairs = sort_key pair_key pairs'"
  proof (rule map_sorted_distinct_set_unique)
    show "inj_on pair_key (set (sort_key pair_key pairs) \<union> set (sort_key pair_key pairs'))"
      using inj m by (metis mset_eq_setD set_sort sup.idem)
    show "sorted (map pair_key (sort_key pair_key pairs))" "sorted (map pair_key (sort_key pair_key pairs'))"
      by simp_all
    have "distinct pairs" using d by (simp add: distinct_map)
    then have "distinct (map pair_key pairs)" using pair_key_inj [OF d] by (simp add: distinct_map)
    then show "distinct (map pair_key (sort_key pair_key pairs))"
      by (metis distinct_map mset_eq_imp_distinct_iff mset_sort pair_key_inj [OF d] set_sort)
    then show "distinct (map pair_key (sort_key pair_key pairs'))"
      by (metis distinct_map inj m mset_eq_imp_distinct_iff mset_eq_setD mset_sort set_sort)
    show "set (sort_key pair_key pairs) = set (sort_key pair_key pairs')"
      using m by (metis mset_eq_setD set_sort)
  qed
  then show ?thesis by (simp add: assign_def)
qed

text \<open>
  C32: the assignment is exactly the stable matching of the pairs: a set of pairs is stable, in the sense
  that no two of its pairs share an id or a capability and every other pair is beaten by one of them,
  precisely when it is what the assignment took. So it does not depend on the order of the input, and a
  pair that beats every rival for its id and for its capability is taken whatever else is in the set.
\<close>

theorem assign_is_stable_matching:
  fixes pairs :: "'s::linorder pair list"
  assumes d: "distinct (map link pairs)"
  shows "(\<forall>S. stable_matching pairs S \<longleftrightarrow> S \<subseteq> set pairs \<and> link ` S = set (assign pairs))
    \<and> (\<forall>pairs'. mset pairs' = mset pairs \<longrightarrow> assign pairs' = assign pairs)
    \<and> (\<forall>p \<in> set pairs. (\<forall>q \<in> set pairs. q \<noteq> p \<and> shares q p \<longrightarrow> pr_score q < pr_score p) \<longrightarrow>
          dict_get (assign pairs) (pr_local_key p) = Some (pr_bc_id p))"
proof -
  have inj: "inj_on link (set pairs)" using d by (simp add: distinct_map)
  have links: "link ` set (taken pairs) = set (assign pairs)" by (simp add: assign_taken)
  have stable: "stable_matching pairs S \<longleftrightarrow> S \<subseteq> set pairs \<and> link ` S = set (assign pairs)" for S
  proof
    assume S: "stable_matching pairs S"
    then have "S = set (taken pairs)" by (rule stable_unique [OF d _ taken_stable])
    then show "S \<subseteq> set pairs \<and> link ` S = set (assign pairs)"
      using taken_subset [of pairs] links by simp
  next
    assume S: "S \<subseteq> set pairs \<and> link ` S = set (assign pairs)"
    then have "S = set (taken pairs)"
      using inj_on_image_eq_iff [OF inj _ taken_subset, of S] links by simp
    then show "stable_matching pairs S" using taken_stable by simp
  qed
  have best: "dict_get (assign pairs) (pr_local_key p) = Some (pr_bc_id p)"
    if p: "p \<in> set pairs" and best: "\<forall>q \<in> set pairs. q \<noteq> p \<and> shares q p \<longrightarrow> pr_score q < pr_score p" for p
  proof -
    have "p \<in> set (taken pairs)"
    proof (rule ccontr)
      assume n: "p \<notin> set (taken pairs)"
      with p obtain q where q: "q \<in> set (taken pairs)" "pair_key q \<le> pair_key p" "shares q p" by (rule taken_blocks)
      have "q \<noteq> p" "q \<in> set pairs" using q(1) n taken_subset by blast+
      with best q(3) have "pr_score q < pr_score p" by blast
      with q(2) show False by (auto simp: pair_key_def less_eq_prod_def)
    qed
    then have "link p \<in> set (assign pairs)" using links by blast
    moreover have "distinct (dict_keys (assign pairs))" using taken_distinct(2) [of pairs] by (simp add: assign_taken comp_def)
    ultimately show ?thesis by simp
  qed
  have perm: "assign pairs' = assign pairs" if "mset pairs' = mset pairs" for pairs'
    using assign_permutation [OF d that [symmetric]] by simp
  show ?thesis
    by (intro conjI allI ballI impI) (rule stable, erule perm, erule (1) best)
qed

theorem assign_is_stable_matching_witness:
  "assign (rev ex_pairs) = assign ex_pairs \<and> dict_get (assign ex_pairs) ''cart'' = Some ''BC-001''
   \<and> link ` set (taken ex_pairs) = set (assign ex_pairs)"
proof -
  have "distinct (map link ex_pairs)" by code_simp
  note th = assign_is_stable_matching [OF this]
  have best: "\<forall>q \<in> set ex_pairs. q \<noteq> ex_pairs ! 1 \<and> shares q (ex_pairs ! 1) \<longrightarrow> pr_score q < pr_score (ex_pairs ! 1)"
    by code_simp
  have "ex_pairs ! 1 \<in> set ex_pairs" by code_simp
  from th [THEN conjunct2, THEN conjunct2, THEN bspec, OF this, THEN mp, OF best]
  have "dict_get (assign ex_pairs) (pr_local_key (ex_pairs ! 1)) = Some (pr_bc_id (ex_pairs ! 1))" .
  moreover have "pr_local_key (ex_pairs ! 1) = ''cart''" "pr_bc_id (ex_pairs ! 1) = ''BC-001''" by code_simp+
  moreover have "assign (rev ex_pairs) = assign ex_pairs"
    using th [THEN conjunct2, THEN conjunct1, THEN spec, of "rev ex_pairs"] by simp
  moreover have "link ` set (taken ex_pairs) = set (assign ex_pairs)" using th [THEN conjunct1, THEN spec, of "set (taken ex_pairs)"] taken_stable by blast
  ultimately show ?thesis by simp
qed

section \<open>The scores of a resolution\<close>

definition candidates_of :: "capability_identity list \<Rightarrow> capability_identity list" where
  "candidates_of registry = filter (\<lambda>r. ci_status r \<noteq> MERGED) registry"

text \<open>A capability and a row that match at or above the threshold.\<close>

definition strong ::
    "'s::linorder num_ops \<Rightarrow> (signal_tier \<Rightarrow> 's) \<Rightarrow> 's \<Rightarrow> proposed_capability \<Rightarrow> capability_identity \<Rightarrow> bool" where
  "strong ops weights t_match p c \<longleftrightarrow>
     (case score ops (pc_fingerprint p) (ci_fingerprint c) weights of None \<Rightarrow> False | Some (s, _) \<Rightarrow> t_match \<le> s)"

definition assigned_of ::
    "'s::linorder num_ops \<Rightarrow> (signal_tier \<Rightarrow> 's) \<Rightarrow> 's \<Rightarrow> proposed_capability list \<Rightarrow> capability_identity list \<Rightarrow> (string, string) dict" where
  "assigned_of ops weights t_match proposed registry =
     assign (eligible_pairs t_match (score_all ops weights proposed (candidates_of registry)))"

lemma strong_iff:
  "strong ops weights t p c \<longleftrightarrow> (\<exists>s cs. score ops (pc_fingerprint p) (ci_fingerprint c) weights = Some (s, cs) \<and> t \<le> s)"
  by (auto simp: strong_def split: option.splits prod.splits)

text \<open>What the callers of \<open>resolve\<close> guarantee: handles and stored ids are unique.\<close>

definition unique_input :: "proposed_capability list \<Rightarrow> capability_identity list \<Rightarrow> bool" where
  "unique_input proposed registry \<longleftrightarrow> distinct (map pc_local_key proposed) \<and> distinct (map ci_bc_id registry)"

lemma first_duplicate_None: "first_duplicate seen ks = None \<longleftrightarrow> distinct ks \<and> set ks \<inter> seen = {}"
  by (induction ks arbitrary: seen) auto

lemma first_duplicate_empty: "first_duplicate {} ks = None \<longleftrightarrow> distinct ks"
  by (simp add: first_duplicate_None)

lemma set_map_filter: "set (List.map_filter f xs) = {y. \<exists>x \<in> set xs. f x = Some y}"
  by (induction xs) (auto simp: List.map_filter_simps split: option.splits)

lemma score_all_keys:
  assumes k: "distinct (map pc_local_key proposed)" and b: "distinct (map ci_bc_id candidates)"
  shows "distinct (dict_keys (concat (map (\<lambda>p. List.map_filter (\<lambda>c.
       map_option (Pair (pc_local_key p, ci_bc_id c)) (score ops (pc_fingerprint p) (ci_fingerprint c) weights))
       candidates) proposed)))"
  using k
proof (induction proposed)
  case (Cons p ps)
  let ?row = "\<lambda>p. List.map_filter (\<lambda>c.
       map_option (Pair (pc_local_key p, ci_bc_id c)) (score ops (pc_fingerprint p) (ci_fingerprint c) weights)) candidates"
  have row: "distinct (dict_keys (?row p))"
    using b by (induction candidates) (auto simp: List.map_filter_simps set_map_filter split: option.splits)
  have keys: "fst ` fst ` set (?row q) \<subseteq> {pc_local_key q}" for q by (auto simp: set_map_filter)
  have fresh: "pc_local_key q \<noteq> pc_local_key p" if "q \<in> set ps" for q
    using Cons.prems imageI [OF that, of pc_local_key] by auto
  have disj: "dict_keys (?row p) = ks \<Longrightarrow> set ks \<inter> set (dict_keys (concat (map ?row ps))) = {}" for ks
    using keys fresh by (fastforce simp: set_map_filter)
  have tail: "distinct (dict_keys (concat (map ?row ps)))" using Cons by simp
  have app: "dict_keys (concat (map ?row (p # ps))) = dict_keys (?row p) @ dict_keys (concat (map ?row ps))" by simp
  show ?case unfolding app distinct_append using row tail disj [OF refl] by blast
qed simp

text \<open>The table of scores, by key.\<close>

lemma score_all_get:
  assumes "distinct (map pc_local_key proposed)" "distinct (map ci_bc_id candidates)"
  shows "dict_get (score_all ops weights proposed candidates) (lk, bc) = Some v \<longleftrightarrow>
    (\<exists>p \<in> set proposed. \<exists>c \<in> set candidates. pc_local_key p = lk \<and> ci_bc_id c = bc
       \<and> score ops (pc_fingerprint p) (ci_fingerprint c) weights = Some v)"
proof -
  note d = score_all_keys [OF assms, of ops weights]
  show ?thesis
    unfolding score_all_def dict_of_distinct [OF d] map_of_eq_Some_iff [OF d]
    by (cases v) (auto 0 5 simp: set_map_filter)
qed

lemma score_all_distinct: "distinct (dict_keys (score_all ops weights proposed candidates))"
  by (simp add: score_all_def dict_of_facts)

lemma eligible_links: "map link (eligible_pairs t scored) = dict_keys (filter (\<lambda>(_, (total, _)). t \<le> total) scored)"
  by (induction scored) (auto simp: eligible_pairs_def)

lemma eligible_distinct:
  assumes "distinct (dict_keys scored)"
  shows "distinct (map link (eligible_pairs t scored))"
  unfolding eligible_links using assms by (induction scored) auto

lemma eligible_set:
  "p \<in> set (eligible_pairs t scored) \<longleftrightarrow> (\<exists>cs. (link p, (pr_score p, cs)) \<in> set scored \<and> t \<le> pr_score p)"
proof
  assume "p \<in> set (eligible_pairs t scored)"
  then show "\<exists>cs. (link p, (pr_score p, cs)) \<in> set scored \<and> t \<le> pr_score p"
    by (auto simp: eligible_pairs_def)
next
  assume "\<exists>cs. (link p, (pr_score p, cs)) \<in> set scored \<and> t \<le> pr_score p"
  then obtain cs where "(link p, (pr_score p, cs)) \<in> set scored" "t \<le> pr_score p" by blast
  then show "p \<in> set (eligible_pairs t scored)"
    by (force simp: eligible_pairs_def image_iff)
qed

section \<open>Whom the assignment serves\<close>

lemma strong_eligible:
  assumes u: "unique_input proposed registry"
  shows "(\<exists>q \<in> set (eligible_pairs t (score_all ops weights proposed (candidates_of registry))). link q = (lk, bc)) \<longleftrightarrow>
    (\<exists>p \<in> set proposed. \<exists>c \<in> set registry. pc_local_key p = lk \<and> ci_bc_id c = bc \<and> ci_status c \<noteq> MERGED
       \<and> strong ops weights t p c)" (is "?L \<longleftrightarrow> ?R")
proof -
  have d: "distinct (map pc_local_key proposed)" "distinct (map ci_bc_id (candidates_of registry))"
    using u by (simp_all add: unique_input_def candidates_of_def distinct_map_filter)
  have mem: "(k, v) \<in> set (score_all ops weights proposed (candidates_of registry)) \<longleftrightarrow>
      dict_get (score_all ops weights proposed (candidates_of registry)) k = Some v" for k v
    by (simp add: map_of_eq_Some_iff [OF score_all_distinct])
  have "?L \<longleftrightarrow> (\<exists>s cs. dict_get (score_all ops weights proposed (candidates_of registry)) (lk, bc) = Some (s, cs) \<and> t \<le> s)"
  proof
    assume ?L
    then show "\<exists>s cs. dict_get (score_all ops weights proposed (candidates_of registry)) (lk, bc) = Some (s, cs) \<and> t \<le> s"
      by (auto simp: eligible_set mem)
  next
    assume "\<exists>s cs. dict_get (score_all ops weights proposed (candidates_of registry)) (lk, bc) = Some (s, cs) \<and> t \<le> s"
    then obtain s cs where "((lk, bc), (s, cs)) \<in> set (score_all ops weights proposed (candidates_of registry))" "t \<le> s"
      by (auto simp: mem)
    then have "\<lparr>pr_score = s, pr_bc_id = bc, pr_local_key = lk\<rparr>
        \<in> set (eligible_pairs t (score_all ops weights proposed (candidates_of registry)))"
      by (auto simp: eligible_set)
    then show ?L by (rule bexI [rotated]) simp
  qed
  also have "\<dots> \<longleftrightarrow> ?R"
    unfolding score_all_get [OF d] strong_iff by (auto simp: candidates_of_def)
  finally show ?thesis .
qed

lemma assigned_facts:
  shows "distinct (dict_keys (assigned_of ops weights t proposed registry))"
    and "distinct (map snd (assigned_of ops weights t proposed registry))"
  by (simp_all add: assigned_of_def assign_taken comp_def taken_distinct)

lemma assigned_strong:
  assumes u: "unique_input proposed registry"
    and a: "dict_get (assigned_of ops weights t proposed registry) lk = Some bc"
  shows "\<exists>p \<in> set proposed. \<exists>c \<in> set registry. pc_local_key p = lk \<and> ci_bc_id c = bc \<and> ci_status c \<noteq> MERGED
    \<and> strong ops weights t p c"
proof -
  from a have "(lk, bc) \<in> set (assigned_of ops weights t proposed registry)" by (rule map_of_SomeD)
  then obtain q where "q \<in> set (taken (eligible_pairs t (score_all ops weights proposed (candidates_of registry))))" "link q = (lk, bc)"
    by (auto simp: assigned_of_def assign_taken)
  with taken_subset have "\<exists>q \<in> set (eligible_pairs t (score_all ops weights proposed (candidates_of registry))). link q = (lk, bc)"
    by blast
  then show ?thesis unfolding strong_eligible [OF u] .
qed

text \<open>A strong pair is never left with both sides free.\<close>

lemma strong_served:
  assumes u: "unique_input proposed registry" and p: "p \<in> set proposed" and c: "c \<in> set registry"
    and s: "ci_status c \<noteq> MERGED" "strong ops weights t p c"
  shows "pc_local_key p \<in> set (dict_keys (assigned_of ops weights t proposed registry))
    \<or> ci_bc_id c \<in> set (map snd (assigned_of ops weights t proposed registry))"
proof -
  let ?E = "eligible_pairs t (score_all ops weights proposed (candidates_of registry))"
  from p c s obtain q where q: "q \<in> set ?E" "link q = (pc_local_key p, ci_bc_id c)"
    using strong_eligible [OF u, of t ops weights "pc_local_key p" "ci_bc_id c"] by blast
  obtain r where r: "r \<in> set (taken ?E)" "shares r q"
  proof (cases "q \<in> set (taken ?E)")
    case True
    then show ?thesis by (rule that) (simp add: shares_def)
  next
    case False
    from taken_blocks [OF q(1) this] that show ?thesis by blast
  qed
  have "link r \<in> set (assigned_of ops weights t proposed registry)"
    using r(1) by (simp add: assigned_of_def assign_taken)
  from imageI [OF this, of fst] imageI [OF this, of snd]
  have "pr_local_key r \<in> set (dict_keys (assigned_of ops weights t proposed registry))"
    "pr_bc_id r \<in> set (map snd (assigned_of ops weights t proposed registry))" by simp_all
  with r(2) q(2) show ?thesis unfolding shares_def by (metis prod.inject)
qed

end
