(* ===== verification/Identity_Resolve.thy ===== *)
theory Identity_Resolve
  imports Identity_Assign
begin

text \<open>
  What \<open>resolve\<close> of \<open>capability/matcher.py\<close> returns: one id per capability, independent of the order of
  its input, and a report of the other ids that says what the scores say.
\<close>

section \<open>The parts of a result\<close>

abbreviation table ::
    "'s::linorder num_ops \<Rightarrow> (signal_tier \<Rightarrow> 's) \<Rightarrow> proposed_capability list \<Rightarrow> capability_identity list \<Rightarrow> 's scored" where
  "table ops weights proposed registry \<equiv> score_all ops weights proposed (candidates_of registry)"

definition to_mint ::
    "'s::linorder num_ops \<Rightarrow> (signal_tier \<Rightarrow> 's) \<Rightarrow> 's \<Rightarrow> proposed_capability list \<Rightarrow> capability_identity list \<Rightarrow> string list" where
  "to_mint ops weights t proposed registry =
     sort (filter (\<lambda>lk. lk \<notin> set (dict_keys (assigned_of ops weights t proposed registry))) (map pc_local_key proposed))"

definition visit_of ::
    "'s::linorder num_ops \<Rightarrow> (signal_tier \<Rightarrow> 's) \<Rightarrow> 's \<Rightarrow> 's \<Rightarrow> proposed_capability list \<Rightarrow> capability_identity list \<Rightarrow>
     (string, string) dict \<Rightarrow> proposed_capability \<Rightarrow> 's identity_attachment \<times> 's advisory list" where
  "visit_of ops weights t epsilon proposed registry minted =
     attach_one ops t epsilon (table ops weights proposed registry) (eligible_pairs t (table ops weights proposed registry))
       (assigned_of ops weights t proposed registry) minted (uncomputable_keys ops weights proposed (candidates_of registry))
       (candidates_of registry \<noteq> [])"

definition left_over ::
    "'s::linorder num_ops \<Rightarrow> (signal_tier \<Rightarrow> 's) \<Rightarrow> 's \<Rightarrow> proposed_capability list \<Rightarrow> capability_identity list \<Rightarrow> capability_identity list" where
  "left_over ops weights t proposed registry =
     unclaimed (candidates_of registry) (snd ` set (assigned_of ops weights t proposed registry))"

definition fate ::
    "'s::linorder num_ops \<Rightarrow> (signal_tier \<Rightarrow> 's) \<Rightarrow> 's \<Rightarrow> proposed_capability list \<Rightarrow> capability_identity list \<Rightarrow>
     capability_identity \<Rightarrow> string option" where
  "fate ops weights t proposed registry c =
     absorbed_by (ci_bc_id c) (table ops weights proposed registry) (assigned_of ops weights t proposed registry) t"

lemma resolve_result:
  assumes "distinct (map pc_local_key proposed)"
    and m: "mint_all alloc (to_mint ops weights t proposed registry) st = (minted, st')"
  shows "resolve ops weights t epsilon alloc proposed registry st =
    (Inr \<lparr>rr_attachments = map (fst \<circ> visit_of ops weights t epsilon proposed registry minted) proposed,
          rr_retired = sort (map ci_bc_id (filter (\<lambda>c. fate ops weights t proposed registry c = None \<and> ci_status c = ACTIVE)
              (left_over ops weights t proposed registry))),
          rr_merged = dict_of (List.map_filter (\<lambda>c. map_option (Pair (ci_bc_id c)) (fate ops weights t proposed registry c))
              (left_over ops weights t proposed registry)),
          rr_advisories = concat (map (snd \<circ> visit_of ops weights t epsilon proposed registry minted) proposed)\<rparr>, st')"
proof -
  have f: "first_duplicate {} (map pc_local_key proposed) = None"
    using assms(1) by (simp add: first_duplicate_empty)
  show ?thesis
    unfolding resolve_def Let_def f option.case candidates_of_def [symmetric] assigned_of_def [symmetric]
      to_mint_def [symmetric] m prod.case fate_def [symmetric] left_over_def [symmetric] visit_of_def [symmetric]
    by (rule refl)
qed

section \<open>The best of a list\<close>

lemma best_of_None: "best_of ms = None \<longleftrightarrow> ms = []"
  unfolding best_of_def by (cases "sort_key (\<lambda>(b, t). (Neg t, b)) ms") (auto dest: arg_cong [where f = length])

lemma best_of_Some:
  assumes "best_of ms = Some m"
  shows "m \<in> set ms" and "m' \<in> set ms \<Longrightarrow> snd m' < snd m \<or> snd m' = snd m \<and> fst m \<le> fst m'"
proof -
  from assms obtain xs where xs: "sort_key (\<lambda>(b, t). (Neg t, b)) ms = m # xs"
    by (auto simp: best_of_def split: list.splits)
  then have set: "set ms = insert m (set xs)" by (metis list.simps(15) set_sort)
  then show "m \<in> set ms" by simp
  have "sorted (map (\<lambda>(b, t). (Neg t, b)) (m # xs))" unfolding xs [symmetric] by (rule sorted_sort_key)
  then show "m' \<in> set ms \<Longrightarrow> snd m' < snd m \<or> snd m' = snd m \<and> fst m \<le> fst m'"
    unfolding set by (cases m; cases m') (auto simp: less_eq_prod_def dest!: bspec)
qed

section \<open>The reports\<close>

lemma table_get:
  assumes u: "unique_input proposed registry"
  shows "dict_get (table ops weights proposed registry) (lk, bc) = Some v \<longleftrightarrow>
    (\<exists>p \<in> set proposed. \<exists>c \<in> set registry. pc_local_key p = lk \<and> ci_bc_id c = bc \<and> ci_status c \<noteq> MERGED
       \<and> score ops (pc_fingerprint p) (ci_fingerprint c) weights = Some v)"
proof -
  have d: "distinct (map pc_local_key proposed)" "distinct (map ci_bc_id (candidates_of registry))"
    using u by (simp_all add: unique_input_def candidates_of_def distinct_map_filter)
  show ?thesis unfolding score_all_get [OF d] by (auto simp: candidates_of_def)
qed

lemma table_mem:
  assumes u: "unique_input proposed registry"
  shows "((lk, bc), v) \<in> set (table ops weights proposed registry) \<longleftrightarrow>
    (\<exists>p \<in> set proposed. \<exists>c \<in> set registry. pc_local_key p = lk \<and> ci_bc_id c = bc \<and> ci_status c \<noteq> MERGED
       \<and> score ops (pc_fingerprint p) (ci_fingerprint c) weights = Some v)"
  unfolding table_get [OF u, symmetric] by (simp add: map_of_eq_Some_iff [OF score_all_distinct])

lemma unique_bc:
  assumes u: "unique_input proposed registry"
  shows "c \<in> set registry \<Longrightarrow> c' \<in> set registry \<Longrightarrow> ci_bc_id c = ci_bc_id c' \<Longrightarrow> c = c'"
    and "p \<in> set proposed \<Longrightarrow> p' \<in> set proposed \<Longrightarrow> pc_local_key p = pc_local_key p' \<Longrightarrow> p = p'"
  using u by (simp_all add: unique_input_def distinct_map inj_on_def)

lemma fate_None:
  assumes u: "unique_input proposed registry" and c: "c \<in> set (left_over ops weights t proposed registry)"
  shows "fate ops weights t proposed registry c = None \<longleftrightarrow> (\<forall>p \<in> set proposed. \<not> strong ops weights t p c)"
proof -
  let ?A = "assigned_of ops weights t proposed registry"
  from c have cr: "c \<in> set registry" "ci_status c \<noteq> MERGED" "ci_bc_id c \<notin> set (map snd ?A)"
    by (auto simp: left_over_def unclaimed_def candidates_of_def)
  have "fate ops weights t proposed registry c = None \<longleftrightarrow>
      (\<nexists>lk s cs. ((lk, ci_bc_id c), (s, cs)) \<in> set (table ops weights proposed registry) \<and> t \<le> s \<and> lk \<in> set (dict_keys ?A))"
    unfolding fate_def absorbed_by_def option.map_disc_iff best_of_None map_is_Nil_conv filter_empty_conv by fast
  also have "\<dots> \<longleftrightarrow> (\<nexists>p. p \<in> set proposed \<and> strong ops weights t p c \<and> pc_local_key p \<in> set (dict_keys ?A))"
    unfolding table_mem [OF u] strong_iff using cr unique_bc(1) [OF u] by metis
  also have "\<dots> \<longleftrightarrow> (\<forall>p \<in> set proposed. \<not> strong ops weights t p c)"
    using strong_served [OF u _ cr(1,2)] cr(3) by blast
  finally show ?thesis .
qed

lemma fate_Some:
  assumes u: "unique_input proposed registry" and c: "c \<in> set (left_over ops weights t proposed registry)"
    and f: "fate ops weights t proposed registry c = Some w"
  shows "\<exists>p \<in> set proposed. strong ops weights t p c \<and> dict_get (assigned_of ops weights t proposed registry) (pc_local_key p) = Some w"
proof -
  let ?A = "assigned_of ops weights t proposed registry"
  from f obtain lk s where b: "best_of (map (\<lambda>((lk, bc), (total, _)). (lk, total))
       (filter (\<lambda>((lk, bc), (total, _)). bc = ci_bc_id c \<and> t \<le> total \<and> lk \<in> set (dict_keys ?A)) (table ops weights proposed registry)))
       = Some (lk, s)" and w: "w = dict_at ?A lk"
    by (auto simp: fate_def absorbed_by_def)
  from best_of_Some(1) [OF b] obtain cs where m: "((lk, ci_bc_id c), (s, cs)) \<in> set (table ops weights proposed registry)"
    and s: "t \<le> s" and lk: "lk \<in> set (dict_keys ?A)"
    by auto
  from m table_mem [OF u] obtain p c' where p: "p \<in> set proposed" "c' \<in> set registry" "pc_local_key p = lk" "ci_bc_id c' = ci_bc_id c"
    "score ops (pc_fingerprint p) (ci_fingerprint c') weights = Some (s, cs)" by metis
  have "c \<in> set registry" using c by (auto simp: left_over_def unclaimed_def candidates_of_def)
  with p(2,4) unique_bc(1) [OF u] have "c' = c" by blast
  with p(5) s have "strong ops weights t p c" by (auto simp: strong_iff)
  moreover from lk w have "dict_get ?A lk = Some w"
    by (metis dict_at_def map_of_eq_None_iff option.exhaust_sel set_map)
  ultimately show ?thesis using p(1,3) by blast
qed












section \<open>Attachments\<close>

text \<open>The result attaches the capability to a stored id, because they matched.\<close>

definition claims :: "'s resolution_result \<Rightarrow> string \<Rightarrow> string \<Rightarrow> bool" where
  "claims result lk bc \<longleftrightarrow> list_ex (\<lambda>a. at_local_key a = lk \<and> at_bc_id a = bc \<and> at_method a = MATCHED) (rr_attachments result)"



lemma mint_all_keys: "mint_all alloc lks st = (minted, st') \<Longrightarrow> dict_keys minted = lks"
  by (induction lks arbitrary: st minted st') (auto simp: split_beta Let_def prod_eq_iff)

lemma attach_one_fst:
  "fst (visit_of ops weights t epsilon proposed registry minted p) =
    (case dict_get (assigned_of ops weights t proposed registry) (pc_local_key p) of
       Some bc \<Rightarrow> matched_attachment (table ops weights proposed registry) (pc_local_key p) bc
     | None \<Rightarrow> first_attachment (pc_local_key p) (dict_at minted (pc_local_key p)))"
  by (simp add: visit_of_def attach_one_def Let_def split: option.split)


lemma matched_attachment_simps [simp]:
  "at_local_key (matched_attachment scored lk bc) = lk" "at_bc_id (matched_attachment scored lk bc) = bc"
  "at_method (matched_attachment scored lk bc) = MATCHED"
  by (simp_all add: matched_attachment_def split_beta Let_def)

lemma first_attachment_simps [simp]:
  "at_local_key (first_attachment lk bc) = lk" "at_bc_id (first_attachment lk bc) = bc"
  "at_method (first_attachment lk bc) = FIRST_DISCOVERY"
  by (simp_all add: first_attachment_def)

lemma visit_key: "at_local_key (fst (visit_of ops weights t epsilon proposed registry minted p)) = pc_local_key p"
  by (simp add: attach_one_fst split: option.split)

text \<open>The shape of every result that is not an error.\<close>

lemma resolve_shape:
  assumes r: "resolve ops weights t epsilon alloc proposed registry st = (Inr result, st')"
  obtains minted where "distinct (map pc_local_key proposed)"
    "mint_all alloc (to_mint ops weights t proposed registry) st = (minted, st')"
    "rr_attachments result = map (fst \<circ> visit_of ops weights t epsilon proposed registry minted) proposed"
    "rr_retired result = sort (map ci_bc_id (filter (\<lambda>c. fate ops weights t proposed registry c = None \<and> ci_status c = ACTIVE)
              (left_over ops weights t proposed registry)))"
    "rr_merged result = dict_of (List.map_filter (\<lambda>c. map_option (Pair (ci_bc_id c)) (fate ops weights t proposed registry c))
              (left_over ops weights t proposed registry))"
    "rr_advisories result = concat (map (snd \<circ> visit_of ops weights t epsilon proposed registry minted) proposed)"
proof -
  have d: "distinct (map pc_local_key proposed)"
  proof (rule ccontr)
    assume "\<not> distinct (map pc_local_key proposed)"
    then obtain k where "first_duplicate {} (map pc_local_key proposed) = Some k"
      using first_duplicate_empty [of "map pc_local_key proposed"] by blast
    with r show False by (simp add: resolve_def Let_def)
  qed
  obtain minted st2 where m: "mint_all alloc (to_mint ops weights t proposed registry) st = (minted, st2)" by fastforce
  note q = resolve_result [OF d m, of epsilon, unfolded r prod.inject sum.inject]
  from q have "result = \<lparr>rr_attachments = map (fst \<circ> visit_of ops weights t epsilon proposed registry minted) proposed,
          rr_retired = sort (map ci_bc_id (filter (\<lambda>c. fate ops weights t proposed registry c = None \<and> ci_status c = ACTIVE)
              (left_over ops weights t proposed registry))),
          rr_merged = dict_of (List.map_filter (\<lambda>c. map_option (Pair (ci_bc_id c)) (fate ops weights t proposed registry c))
              (left_over ops weights t proposed registry)),
          rr_advisories = concat (map (snd \<circ> visit_of ops weights t epsilon proposed registry minted) proposed)\<rparr>" ..
  then show thesis using that [OF d m [folded q [THEN conjunct2]]] by simp
qed

lemma claims_assigned:
  assumes a: "rr_attachments result = map (fst \<circ> visit_of ops weights t epsilon proposed registry minted) proposed"
    and u: "unique_input proposed registry"
  shows "claims result lk bc \<longleftrightarrow> dict_get (assigned_of ops weights t proposed registry) lk = Some bc"
proof
  assume "claims result lk bc"
  then show "dict_get (assigned_of ops weights t proposed registry) lk = Some bc"
    by (auto simp: claims_def a list_ex_iff attach_one_fst split: option.splits)
next
  assume g: "dict_get (assigned_of ops weights t proposed registry) lk = Some bc"
  from assigned_strong [OF u g] obtain p where "p \<in> set proposed" "pc_local_key p = lk" by blast
  with g show "claims result lk bc"
    by (auto simp: claims_def a list_ex_iff attach_one_fst intro!: bexI [of _ p])
qed

lemma claimed_ids:
  assumes "distinct (dict_keys A)"
  shows "bc \<in> snd ` set A \<longleftrightarrow> (\<exists>lk. dict_get A lk = Some bc)"
  using assms by (force simp: map_of_eq_Some_iff)

lemma left_over_mem:
  "c \<in> set (left_over ops weights t proposed registry) \<longleftrightarrow> c \<in> set registry \<and> ci_status c \<noteq> MERGED
     \<and> (\<forall>lk. dict_get (assigned_of ops weights t proposed registry) lk \<noteq> Some (ci_bc_id c))"
  unfolding left_over_def unclaimed_def candidates_of_def claimed_ids [OF assigned_facts(1)] by auto

lemma map_filter_keys:
  "distinct (map f xs) \<Longrightarrow> distinct (dict_keys (List.map_filter (\<lambda>c. map_option (Pair (f c)) (g c)) xs))"
proof (induction xs)
  case (Cons x xs)
  have "fst ` set (List.map_filter (\<lambda>c. map_option (Pair (f c)) (g c)) xs) \<subseteq> f ` set xs"
    by (auto simp: set_map_filter)
  with Cons show ?case by (auto simp: List.map_filter_simps split: option.split)
qed (simp add: List.map_filter_simps)

lemma merged_get:
  assumes u: "unique_input proposed registry"
    and m: "rr_merged result = dict_of (List.map_filter (\<lambda>c. map_option (Pair (ci_bc_id c)) (fate ops weights t proposed registry c))
              (left_over ops weights t proposed registry))"
  shows "dict_get (rr_merged result) l = Some w \<longleftrightarrow>
    (\<exists>c \<in> set (left_over ops weights t proposed registry). ci_bc_id c = l \<and> fate ops weights t proposed registry c = Some w)"
proof -
  have "distinct (map ci_bc_id (left_over ops weights t proposed registry))"
    using u by (simp add: unique_input_def left_over_def unclaimed_def candidates_of_def distinct_map_filter)
  note d = map_filter_keys [OF this]
  show ?thesis
    unfolding m dict_of_distinct [OF d] map_of_eq_Some_iff [OF d] by (auto simp: set_map_filter)
qed

section \<open>The advice\<close>








section \<open>What is reported\<close>





section \<open>One id each, in any order\<close>

lemma unique_permute:
  assumes "unique_input proposed registry" "mset proposed' = mset proposed" "mset registry' = mset registry"
  shows "unique_input proposed' registry'"
  using assms unfolding unique_input_def by (metis mset_eq_imp_distinct_iff mset_map)

lemma table_permute:
  assumes u: "unique_input proposed registry"
    and m: "mset proposed' = mset proposed" "mset registry' = mset registry"
  shows "mset (table ops weights proposed' registry') = mset (table ops weights proposed registry)"
    and "dict_get (table ops weights proposed' registry') = dict_get (table ops weights proposed registry)"
proof -
  note u' = unique_permute [OF u m]
  have sets: "set proposed' = set proposed" "set registry' = set registry" using m by (metis mset_eq_setD)+
  have get: "dict_get (table ops weights proposed' registry') (lk, bc) = Some v \<longleftrightarrow>
      dict_get (table ops weights proposed registry) (lk, bc) = Some v" for lk bc v
    unfolding table_get [OF u] table_get [OF u'] sets ..
  then have mem: "((lk, bc), v) \<in> set (table ops weights proposed' registry') \<longleftrightarrow> ((lk, bc), v) \<in> set (table ops weights proposed registry)"
    for lk bc v by (simp add: map_of_eq_Some_iff [OF score_all_distinct])
  have "set (table ops weights proposed' registry') = set (table ops weights proposed registry)"
    using mem by (intro set_eqI) (metis prod.exhaust_sel)
  moreover have "distinct (table ops weights p r)" for p r
    using score_all_distinct [of ops weights p "candidates_of r"] by (simp add: distinct_map)
  ultimately show "mset (table ops weights proposed' registry') = mset (table ops weights proposed registry)"
    by (simp add: set_eq_iff_mset_eq_distinct)
  show "dict_get (table ops weights proposed' registry') = dict_get (table ops weights proposed registry)"
  proof (rule ext)
    fix k show "dict_get (table ops weights proposed' registry') k = dict_get (table ops weights proposed registry) k"
      using get by (cases k) (metis not_None_eq)
  qed
qed

lemma assigned_permute:
  assumes u: "unique_input proposed registry"
    and m: "mset proposed' = mset proposed" "mset registry' = mset registry"
  shows "assigned_of ops weights t proposed' registry' = assigned_of ops weights t proposed registry"
  unfolding assigned_of_def
proof (rule assign_permutation [symmetric])
  show "distinct (map link (eligible_pairs t (table ops weights proposed registry)))"
    by (rule eligible_distinct [OF score_all_distinct])
  show "mset (eligible_pairs t (table ops weights proposed registry)) = mset (eligible_pairs t (table ops weights proposed' registry'))"
    unfolding eligible_pairs_def mset_map mset_filter table_permute(1) [OF u m] by (rule refl)
qed

lemma to_mint_permute:
  assumes u: "unique_input proposed registry"
    and m: "mset proposed' = mset proposed" "mset registry' = mset registry"
  shows "to_mint ops weights t proposed' registry' = to_mint ops weights t proposed registry"
  unfolding to_mint_def assigned_permute [OF u m]
  by (rule sort_eq_of_mset) (simp add: m(1))

lemma matched_permute:
  assumes u: "unique_input proposed registry"
    and m: "mset proposed' = mset proposed" "mset registry' = mset registry"
  shows "fst \<circ> visit_of ops weights t epsilon proposed' registry' minted = fst \<circ> visit_of ops weights t epsilon proposed registry minted"
proof -
  have "matched_attachment (table ops weights proposed' registry') = matched_attachment (table ops weights proposed registry)"
    by (intro ext) (simp add: matched_attachment_def dict_at_def table_permute(2) [OF u m])
  then show ?thesis by (intro ext) (simp add: attach_one_fst assigned_permute [OF u m] split: option.split)
qed

lemma retired_mem:
  assumes u: "unique_input proposed registry"
    and ret: "rr_retired result = sort (map ci_bc_id (filter (\<lambda>c. fate ops weights t proposed registry c = None \<and> ci_status c = ACTIVE)
              (left_over ops weights t proposed registry)))"
  shows "b \<in> set (rr_retired result) \<longleftrightarrow>
      (\<exists>c \<in> set registry. ci_bc_id c = b \<and> ci_status c = ACTIVE \<and> (\<forall>p \<in> set proposed. \<not> strong ops weights t p c))"
    and "sorted (rr_retired result) \<and> distinct (rr_retired result)"
proof -
  have left: "c \<in> set (left_over ops weights t proposed registry)"
    if "c \<in> set registry" "ci_status c = ACTIVE" "\<forall>p \<in> set proposed. \<not> strong ops weights t p c" for c
    unfolding left_over_mem using that assigned_strong [OF u] unique_bc(1) [OF u]
    by (metis identity_status.distinct(3))
  show "b \<in> set (rr_retired result) \<longleftrightarrow>
      (\<exists>c \<in> set registry. ci_bc_id c = b \<and> ci_status c = ACTIVE \<and> (\<forall>p \<in> set proposed. \<not> strong ops weights t p c))"
  proof
    assume "b \<in> set (rr_retired result)"
    then obtain c where c: "c \<in> set (left_over ops weights t proposed registry)" "fate ops weights t proposed registry c = None"
      "ci_status c = ACTIVE" "ci_bc_id c = b" by (auto simp: ret)
    with fate_None [OF u c(1)] left_over_mem show "\<exists>c \<in> set registry. ci_bc_id c = b \<and> ci_status c = ACTIVE
        \<and> (\<forall>p \<in> set proposed. \<not> strong ops weights t p c)" by blast
  next
    assume "\<exists>c \<in> set registry. ci_bc_id c = b \<and> ci_status c = ACTIVE \<and> (\<forall>p \<in> set proposed. \<not> strong ops weights t p c)"
    then obtain c where c: "c \<in> set registry" "ci_bc_id c = b" "ci_status c = ACTIVE" "\<forall>p \<in> set proposed. \<not> strong ops weights t p c"
      by blast
    note l = left [OF c(1,3,4)]
    from fate_None [OF u l] c(4) have "fate ops weights t proposed registry c = None" by blast
    with l c(2,3) show "b \<in> set (rr_retired result)" by (auto simp: ret)
  qed
  have "distinct (map ci_bc_id (left_over ops weights t proposed registry))"
    using u by (simp add: unique_input_def left_over_def unclaimed_def candidates_of_def distinct_map_filter)
  then show "sorted (rr_retired result) \<and> distinct (rr_retired result)"
    by (simp add: ret distinct_map_filter)
qed

text \<open>The two shapes of an attachment.\<close>

lemma attachment_shape:
  assumes mint: "mint_all alloc (to_mint ops weights t proposed registry) st = (minted, st')"
    and at: "rr_attachments result = map (fst \<circ> visit_of ops weights t epsilon proposed registry minted) proposed"
    and a: "a \<in> set (rr_attachments result)"
  shows "at_local_key a \<in> set (map pc_local_key proposed)
    \<and> ((\<exists>bc. dict_get (assigned_of ops weights t proposed registry) (at_local_key a) = Some bc
          \<and> a = matched_attachment (table ops weights proposed registry) (at_local_key a) bc)
       \<or> (dict_get minted (at_local_key a) = Some (at_bc_id a) \<and> a = first_attachment (at_local_key a) (at_bc_id a)))"
proof -
  let ?A = "assigned_of ops weights t proposed registry"
  from a obtain p where p: "p \<in> set proposed" "a = fst (visit_of ops weights t epsilon proposed registry minted p)"
    by (auto simp: at)
  then have k: "at_local_key a = pc_local_key p" by (simp add: visit_key)
  show ?thesis
  proof (cases "dict_get ?A (pc_local_key p)")
    case None
    then have "pc_local_key p \<in> set (dict_keys minted)"
      using p(1) unfolding mint_all_keys [OF mint] by (simp add: to_mint_def map_of_eq_None_iff)
    then have "dict_get minted (pc_local_key p) = Some (dict_at minted (pc_local_key p))"
      by (metis dict_at_def map_of_eq_None_iff option.exhaust_sel set_map)
    with None p k show ?thesis by (simp add: attach_one_fst)
  next
    case (Some bc)
    with p k show ?thesis by (simp add: attach_one_fst)
  qed
qed

text \<open>Retired and absorbed ids are ids nobody claimed; an absorbing id was claimed.\<close>

lemma unclaimed_reports:
  assumes uu: "unique_input proposed registry"
    and at: "rr_attachments result = map (fst \<circ> visit_of ops weights t epsilon proposed registry minted) proposed"
    and ret: "rr_retired result = sort (map ci_bc_id (filter (\<lambda>c. fate ops weights t proposed registry c = None \<and> ci_status c = ACTIVE)
              (left_over ops weights t proposed registry)))"
    and mer: "rr_merged result = dict_of (List.map_filter (\<lambda>c. map_option (Pair (ci_bc_id c)) (fate ops weights t proposed registry c))
              (left_over ops weights t proposed registry))"
  shows "b \<in> set (rr_retired result) \<Longrightarrow> \<not> claims result lk b"
    and "dict_get (rr_merged result) l = Some w \<Longrightarrow> \<not> claims result lk l \<and> (\<exists>lk'. claims result lk' w)"
proof -
  note cl = claims_assigned [OF at uu]
  show "b \<in> set (rr_retired result) \<Longrightarrow> \<not> claims result lk b"
    unfolding cl by (auto simp: ret left_over_mem)
  assume "dict_get (rr_merged result) l = Some w"
  then obtain c where c: "c \<in> set (left_over ops weights t proposed registry)" "ci_bc_id c = l"
      "fate ops weights t proposed registry c = Some w" using merged_get [OF uu mer] by blast
  from fate_Some [OF uu c(1,3)] c(1,2) show "\<not> claims result lk l \<and> (\<exists>lk'. claims result lk' w)"
    unfolding cl left_over_mem by blast
qed

text \<open>
  C34: a resolution attaches every proposed capability once, in the order of the proposal. A matched
  capability carries a stored id that is not merged, with the score and the evidence of that pair, which is
  at the threshold; no two share one. The others carry the ids the allocator returned, called once per
  capability in the order of the handles. Neither the order of the proposal nor that of the registry
  changes an attachment, the retired ids or the state of the allocator.
\<close>

theorem resolve_attaches_once:
  fixes ops :: "'s::linorder num_ops"
  assumes u: "distinct (map ci_bc_id registry)"
    and r: "resolve ops weights t epsilon alloc proposed registry st = (Inr result, st')"
  shows "map at_local_key (rr_attachments result) = map pc_local_key proposed
    \<and> (\<forall>a \<in> set (rr_attachments result). at_method a = MATCHED \<longrightarrow>
        (\<exists>p \<in> set proposed. \<exists>c \<in> set registry. \<exists>s. pc_local_key p = at_local_key a \<and> ci_bc_id c = at_bc_id a \<and> ci_status c \<noteq> MERGED
           \<and> score ops (pc_fingerprint p) (ci_fingerprint c) weights = Some (s, at_contributions a) \<and> at_match_score a = Some s \<and> t \<le> s))
    \<and> (\<forall>a \<in> set (rr_attachments result). \<forall>b \<in> set (rr_attachments result).
        at_method a = MATCHED \<and> at_method b = MATCHED \<and> at_bc_id a = at_bc_id b \<longrightarrow> at_local_key a = at_local_key b)
    \<and> (\<exists>minted. mint_all alloc (to_mint ops weights t proposed registry) st = (minted, st')
        \<and> (\<forall>a \<in> set (rr_attachments result). at_method a \<noteq> MATCHED \<longrightarrow>
              at_method a = FIRST_DISCOVERY \<and> dict_get minted (at_local_key a) = Some (at_bc_id a)))
    \<and> (\<forall>proposed' registry'. mset proposed' = mset proposed \<longrightarrow> mset registry' = mset registry \<longrightarrow>
        (\<exists>result'. resolve ops weights t epsilon alloc proposed' registry' st = (Inr result', st')
           \<and> mset (rr_attachments result') = mset (rr_attachments result) \<and> rr_retired result' = rr_retired result))"
proof -
  from r obtain minted where d: "distinct (map pc_local_key proposed)"
    and mint: "mint_all alloc (to_mint ops weights t proposed registry) st = (minted, st')"
    and at: "rr_attachments result = map (fst \<circ> visit_of ops weights t epsilon proposed registry minted) proposed"
    and ret: "rr_retired result = sort (map ci_bc_id (filter (\<lambda>c. fate ops weights t proposed registry c = None \<and> ci_status c = ACTIVE)
              (left_over ops weights t proposed registry)))"
    by (rule resolve_shape)
  have uu: "unique_input proposed registry" using u d by (simp add: unique_input_def)
  let ?A = "assigned_of ops weights t proposed registry"
  have keys: "map at_local_key (rr_attachments result) = map pc_local_key proposed"
    by (simp add: at comp_def visit_key)
  note shape = attachment_shape [OF mint at, THEN conjunct2]
  have matched: "\<exists>p \<in> set proposed. \<exists>c \<in> set registry. \<exists>s. pc_local_key p = at_local_key a \<and> ci_bc_id c = at_bc_id a \<and> ci_status c \<noteq> MERGED
           \<and> score ops (pc_fingerprint p) (ci_fingerprint c) weights = Some (s, at_contributions a) \<and> at_match_score a = Some s \<and> t \<le> s"
    if "a \<in> set (rr_attachments result)" "at_method a = MATCHED" for a
  proof -
    from shape [OF that(1)] that(2) obtain bc where bc: "dict_get ?A (at_local_key a) = Some bc"
      "a = matched_attachment (table ops weights proposed registry) (at_local_key a) bc"
      by (metis attach_method.distinct(1) first_attachment_simps(3))
    then have id: "at_bc_id a = bc" by (metis matched_attachment_simps(2))
    from assigned_strong [OF uu bc(1)] obtain p c s cs where pc: "p \<in> set proposed" "c \<in> set registry" "pc_local_key p = at_local_key a"
      "ci_bc_id c = bc" "ci_status c \<noteq> MERGED" "score ops (pc_fingerprint p) (ci_fingerprint c) weights = Some (s, cs)" "t \<le> s"
      by (auto simp: strong_iff)
    then have "dict_get (table ops weights proposed registry) (at_local_key a, bc) = Some (s, cs)"
      unfolding table_get [OF uu] by blast
    then have "at_match_score a = Some s" "at_contributions a = cs"
      by (subst bc(2), simp add: matched_attachment_def dict_at_def)+
    with pc id show ?thesis by (intro bexI [OF _ pc(1)] bexI [OF _ pc(2)] exI [of _ s]) simp
  qed
  have once: "at_local_key a = at_local_key b"
    if "a \<in> set (rr_attachments result)" "b \<in> set (rr_attachments result)" "at_method a = MATCHED \<and> at_method b = MATCHED \<and> at_bc_id a = at_bc_id b" for a b
  proof -
    have "dict_get ?A (at_local_key x) = Some (at_bc_id x)" if "x \<in> set (rr_attachments result)" "at_method x = MATCHED" for x
      using shape [OF that(1)] that(2)
      by (metis attach_method.distinct(1) first_attachment_simps(3) matched_attachment_simps(2))
    with that have "(at_local_key a, at_bc_id a) \<in> set ?A" "(at_local_key b, at_bc_id a) \<in> set ?A"
      by (metis map_of_SomeD)+
    moreover have "inj_on snd (set ?A)" using assigned_facts(2) [of ops weights t proposed registry] by (simp add: distinct_map)
    ultimately have "(at_local_key a, at_bc_id a) = (at_local_key b, at_bc_id a)" by (intro inj_onD [of snd "set ?A"]) simp_all
    then show ?thesis by simp
  qed
  have first: "at_method a = FIRST_DISCOVERY \<and> dict_get minted (at_local_key a) = Some (at_bc_id a)"
    if "a \<in> set (rr_attachments result)" "at_method a \<noteq> MATCHED" for a
  proof -
    from shape [OF that(1)] that(2) show ?thesis
      by (metis first_attachment_simps(3) matched_attachment_simps(3))
  qed
  have order: "\<exists>result'. resolve ops weights t epsilon alloc proposed' registry' st = (Inr result', st')
           \<and> mset (rr_attachments result') = mset (rr_attachments result) \<and> rr_retired result' = rr_retired result"
    if m: "mset proposed' = mset proposed" "mset registry' = mset registry" for proposed' registry'
  proof -
    have d': "distinct (map pc_local_key proposed')" using d m(1) by (metis mset_eq_imp_distinct_iff mset_map)
    obtain result' where r': "resolve ops weights t epsilon alloc proposed' registry' st = (Inr result', st')"
      by (rule that) (rule resolve_result [OF d' mint [folded to_mint_permute [OF uu m]]])
    from r' obtain minted' where mint': "mint_all alloc (to_mint ops weights t proposed' registry') st = (minted', st')"
      and at': "rr_attachments result' = map (fst \<circ> visit_of ops weights t epsilon proposed' registry' minted') proposed'"
      and ret': "rr_retired result' = sort (map ci_bc_id (filter (\<lambda>c. fate ops weights t proposed' registry' c = None \<and> ci_status c = ACTIVE)
              (left_over ops weights t proposed' registry')))"
      by (rule resolve_shape)
    note uu' = unique_permute [OF uu m]
    have mm: "minted' = minted" using mint mint' unfolding to_mint_permute [OF uu m] by simp
    have sets: "set proposed' = set proposed" "set registry' = set registry" using m by (metis mset_eq_setD)+
    have "mset (rr_attachments result') = mset (rr_attachments result)"
      unfolding at at' mm matched_permute [OF uu m] using m(1) by simp
    moreover have "rr_retired result' = rr_retired result"
      using retired_mem(2) [OF uu ret] retired_mem(2) [OF uu' ret']
      by (intro sorted_distinct_set_unique) (simp_all add: set_eq_iff retired_mem(1) [OF uu ret] retired_mem(1) [OF uu' ret'] sets)
    ultimately show ?thesis using r' by blast
  qed
  show ?thesis
    by (intro conjI ballI impI allI exI [of _ minted]) (rule keys, erule (1) matched, erule (2) once, rule mint, use first in blast, use first in blast, erule (1) order)
qed

theorem resolve_attaches_once_witness:
  "map at_local_key (rr_attachments ex_result) = [''pay'', ''ship'']
   \<and> (\<exists>result'. ex_resolve [ex_ship, ex_pay] (rev ex_registry) = (Inr result', 4) \<and> rr_retired result' = rr_retired ex_result)"
proof
  note th = resolve_attaches_once [OF ex_registry_distinct ex_resolve_result]
  from th [THEN conjunct1] show "map at_local_key (rr_attachments ex_result) = [''pay'', ''ship'']"
    by (simp add: ex_pay_def ex_ship_def)
  from th [THEN conjunct2, THEN conjunct2, THEN conjunct2, THEN conjunct2, rule_format, of "[ex_ship, ex_pay]" "rev ex_registry"]
  show "\<exists>result'. ex_resolve [ex_ship, ex_pay] (rev ex_registry) = (Inr result', 4) \<and> rr_retired result' = rr_retired ex_result"
    unfolding ex_resolve_def by (auto simp: add_mset_commute)
qed

end
