(* ===== verification/Identity_Safety.thy ===== *)
theory Identity_Safety
  imports Identity_Store Identity_Resolve
begin

text \<open>
  The capability registry under any interleaving of assessments and corrections: an id is never handed out
  twice, a write rests on the rows its session read, and what is stored always loads, with every merged
  row leading to a live one.
\<close>

section \<open>Names\<close>

lemma str_nat_zeros: "str_nat (replicate k (CHR ''0'') @ s) = str_nat s"
  by (induction k) (simp_all add: str_nat_def)

lemma bc_ordinal_name [simp]: "bc_ordinal (bc_name n) = n"
proof -
  have p: "partition_at (CHR ''-'') (bc_name n) = (''BC'', ''-'', replicate (3 - length (nat_str n)) (CHR ''0'') @ nat_str n)"
    by (simp add: partition_at_def bc_name_def)
  have "isdigit (replicate (3 - length (nat_str n)) (CHR ''0'') @ nat_str n)"
    using isdigit_nat_str [of n] by (auto simp: isdigit_def list_all_iff is_digit_def)
  then show ?thesis by (simp add: bc_ordinal_def p str_nat_zeros)
qed

lemma bc_name_inject [simp]: "bc_name m = bc_name n \<longleftrightarrow> m = n"
  by (metis bc_ordinal_name)

lemma bc_name_not_Nil [simp]: "bc_name n \<noteq> []"
  by (simp add: bc_name_def)

section \<open>Reads of the store\<close>

definition row_at :: "identity_store \<Rightarrow> string \<Rightarrow> string \<Rightarrow> capability_identity option" where
  "row_at st p b = dict_get (is_rows st) (p, b)"

definition next_of :: "identity_store \<Rightarrow> string \<Rightarrow> nat" where
  "next_of st p = (case is_registry st p of None \<Rightarrow> 1 | Some g \<Rightarrow> rg_next_ordinal g)"

lemma ensure_registry_facts [simp]:
  "is_rows (ensure_registry p st) = is_rows st" "next_of (ensure_registry p st) q = next_of st q"
  "registry_version (ensure_registry p st) q = registry_version st q" "row_at (ensure_registry p st) q b = row_at st q b"
  "\<exists>g. is_registry (ensure_registry p st) p = Some g"
  by (auto simp: ensure_registry_def next_of_def registry_version_def row_at_def split: option.split)

section \<open>Minting\<close>

text \<open>What a sequence of mints for a project does to the store.\<close>

definition mints :: "string \<Rightarrow> identity_store \<Rightarrow> identity_store \<Rightarrow> string list \<Rightarrow> bool" where
  "mints p st st' ids \<longleftrightarrow>
     ids = map bc_name [next_of st p ..< next_of st p + length ids]
     \<and> (\<forall>q. next_of st' q = (if q = p then next_of st p + length ids else next_of st q))
     \<and> (\<forall>q. registry_version st' q = registry_version st q) \<and> is_rows st' = is_rows st"

lemma mints_refl: "mints p st st []"
  by (simp add: mints_def)

lemma mints_ensure: "mints p (ensure_registry p st) st' ids \<Longrightarrow> mints p st st' ids"
  by (simp add: mints_def)

lemma allocate_mints:
  assumes "is_registry st p = Some g"
  shows "fst (allocate p st) = bc_name (next_of st p)" "mints p st (snd (allocate p st)) [bc_name (next_of st p)]"
    "\<exists>g'. is_registry (snd (allocate p st)) p = Some g'"
  using assms by (simp_all add: allocate_def next_of_def mints_def registry_version_def Let_def upt_rec)

lemma mints_trans:
  assumes "mints p st st1 [bc_name (next_of st p)]" "mints p st1 st2 ids"
  shows "mints p st st2 (bc_name (next_of st p) # ids)"
proof -
  have n: "next_of st1 p = Suc (next_of st p)" using assms(1) by (simp add: mints_def)
  have "ids = map bc_name [Suc (next_of st p) ..< Suc (next_of st p) + length ids]"
    using assms(2) n by (simp add: mints_def)
  then have "bc_name (next_of st p) # ids = map bc_name [next_of st p ..< next_of st p + length (bc_name (next_of st p) # ids)]"
    by (subst upt_rec) simp
  with assms n show ?thesis by (simp add: mints_def)
qed

lemma mint_all_traced:
  assumes "is_registry st p = Some g"
  shows "\<exists>st' ids. mint_all (traced_allocate p) lks (st, log) = (zip lks ids, (st', log @ ids))
     \<and> length ids = length lks \<and> mints p st st' ids"
  using assms
proof (induction lks arbitrary: st log g)
  case Nil
  then show ?case by (simp add: mints_refl)
next
  case (Cons lk lks)
  obtain i st1 where a: "allocate p st = (i, st1)" by fastforce
  then have ta: "traced_allocate p (st, log) = (i, (st1, log @ [i]))" by (simp add: traced_allocate_def)
  note al = allocate_mints [OF Cons.prems, unfolded a fst_conv snd_conv]
  from al(3) obtain g' where "is_registry st1 p = Some g'" by blast
  from Cons.IH [OF this, of "log @ [i]"] obtain st' ids where
    "mint_all (traced_allocate p) lks (st1, log @ [i]) = (zip lks ids, (st', (log @ [i]) @ ids))"
    "length ids = length lks" "mints p st1 st' ids" by blast
  moreover from this have "mints p st st' (i # ids)" using mints_trans al(1,2) by metis
  ultimately show ?case
    by (intro exI [of _ st'] exI [of _ "i # ids"]) (simp add: ta)
qed

section \<open>What a computation leaves behind\<close>

lemma resolve_mints:
  assumes "is_registry st p = Some g"
  shows "\<exists>r st' ids. resolve ops w t e (traced_allocate p) proposed registry (st, []) = (r, (st', ids)) \<and> mints p st st' ids"
proof (cases "distinct (map pc_local_key proposed)")
  case True
  from mint_all_traced [OF assms, of "to_mint ops w t proposed registry" "[]"] obtain st' ids where
    m: "mint_all (traced_allocate p) (to_mint ops w t proposed registry) (st, []) = (zip (to_mint ops w t proposed registry) ids, (st', ids))"
    "mints p st st' ids" by auto
  show ?thesis unfolding resolve_result [OF True m(1)] using m(2) by blast
next
  case False
  then obtain k where "first_duplicate {} (map pc_local_key proposed) = Some k"
    using first_duplicate_empty [of "map pc_local_key proposed"] by blast
  then show ?thesis using mints_refl by (simp add: resolve_def Let_def)
qed

lemma lock_mints:
  assumes "lock_compute ops p run proposed registry st = (r, (st', ids))"
  shows "mints p st st' ids"
proof -
  obtain g where "is_registry (ensure_registry p st) p = Some g" using ensure_registry_facts(5) by blast
  from resolve_mints [OF this] obtain r2 st2 ids2 where
    "resolve ops (DEFAULT_TIER_WEIGHTS ops) (T_MATCH ops) (EPSILON ops) (traced_allocate p) proposed registry
       (ensure_registry p st, []) = (r2, (st2, ids2))" "mints p (ensure_registry p st) st2 ids2" by blast
  then show ?thesis using assms mints_ensure
    by (auto simp: lock_compute_def split: sum.splits)
qed

lemma split_mints:
  assumes g: "is_registry st p = Some g" and s: "split_rows source c (traced_allocate p) (st, []) = (r, (st', ids))"
  shows "mints p st st' ids"
proof -
  obtain i st1 where a: "allocate p st = (i, st1)" by fastforce
  note al = allocate_mints [OF g, unfolded a fst_conv snd_conv]
  have "(st', ids) = (st, []) \<or> (st', ids) = (st1, [i])"
    using s by (auto simp: split_rows_def Let_def traced_allocate_def a split: if_splits sum.splits)
  then show ?thesis using mints_refl al(1,2) by auto
qed

lemma correction_mints:
  assumes "correction_compute p c loaded st = (r, (st', ids))"
  shows "mints p st st' ids"
proof -
  obtain g where g: "is_registry (ensure_registry p st) p = Some g" using ensure_registry_facts(5) by blast
  show ?thesis
  proof (cases "dict_get (dict_of (map (\<lambda>r. (ci_bc_id r, r)) loaded)) (ic_source_bc_id c)")
    case None
    with assms show ?thesis using mints_refl by (simp add: correction_compute_def)
  next
    case (Some source)
    show ?thesis
    proof (cases "ic_operation c = SPLIT")
      case True
      obtain r2 st2 ids2 where s: "split_rows source c (traced_allocate p) (ensure_registry p st, []) = (r2, (st2, ids2))"
        by (metis prod.exhaust)
      with assms Some True have "st' = st2" "ids = ids2" by (simp_all add: correction_compute_def)
      with split_mints [OF g s] mints_ensure show ?thesis by blast
    next
      case False
      with assms Some show ?thesis using mints_refl by (simp add: correction_compute_def)
    qed
  qed
qed

lemma job_mints:
  assumes "job_compute ops p job loaded st = (r, (st', ids))"
  shows "mints p st st' ids"
proof (cases job)
  case (Assess run proposed)
  obtain r2 st2 ids2 where l: "lock_compute ops p run proposed loaded st = (r2, (st2, ids2))" by (metis prod.exhaust)
  with assms Assess have "st' = st2" "ids = ids2" by (simp_all add: job_compute_def)
  with lock_mints [OF l] show ?thesis by simp
next
  case (Correct c)
  with assms correction_mints show ?thesis by (simp add: job_compute_def)
qed

section \<open>What a write does\<close>

definition kept :: "capability_identity option \<Rightarrow> capability_identity \<Rightarrow> capability_identity" where
  "kept old r = (case old of None \<Rightarrow> r | Some o' \<Rightarrow> r\<lparr>ci_first_seen_run := ci_first_seen_run o'\<rparr>)"

definition store_keys :: "identity_store \<Rightarrow> bool" where
  "store_keys st \<longleftrightarrow> distinct (dict_keys (is_rows st))"

lemma write_row_facts:
  "is_registry (write_row p a o' d r st) = is_registry st"
  "row_at (write_row p a o' d r st) q b = (if q = p \<and> b = ci_bc_id r then Some (kept (row_at st p b) r) else row_at st q b)"
  "store_keys st \<Longrightarrow> store_keys (write_row p a o' d r st)"
  by (auto simp: write_row_def upsert_row_def Let_def row_at_def kept_def store_keys_def update_conv' distinct_update split: option.split)

lemma write_rows_facts:
  assumes "write_rows p a o' d rows st = Inr st'"
  shows "is_registry st' = is_registry st \<and> (store_keys st \<longrightarrow> store_keys st') \<and> (\<forall>r \<in> set rows. ci_project r = p)
    \<and> (distinct (map ci_bc_id rows) \<longrightarrow> (\<forall>q b. row_at st' q b =
        (if q = p then (case find (\<lambda>r. ci_bc_id r = b) rows of Some r \<Rightarrow> Some (kept (row_at st p b) r) | None \<Rightarrow> row_at st p b)
         else row_at st q b)))"
  using assms
proof (induction rows arbitrary: st)
  case Nil
  then show ?case by simp
next
  case (Cons r rows)
  from Cons.prems have p: "ci_project r = p" and w: "write_rows p a o' d rows (write_row p a o' d r st) = Inr st'"
    by (simp_all split: if_splits)
  note IH = Cons.IH [OF w]
  have "row_at st' q b = (if q = p then (case find (\<lambda>r. ci_bc_id r = b) (r # rows) of Some r \<Rightarrow> Some (kept (row_at st p b) r) | None \<Rightarrow> row_at st p b)
         else row_at st q b)" if d: "distinct (map ci_bc_id (r # rows))" for q b
  proof -
    have n: "find (\<lambda>r'. ci_bc_id r' = ci_bc_id r) rows = None" using d by (auto simp: find_None_iff image_iff)
    have "row_at st' q b = (if q = p then (case find (\<lambda>r. ci_bc_id r = b) rows of Some r' \<Rightarrow> Some (kept (row_at (write_row p a o' d r st) p b) r')
        | None \<Rightarrow> row_at (write_row p a o' d r st) p b) else row_at (write_row p a o' d r st) q b)"
      using IH d by simp
    then show ?thesis using n by (auto simp: write_row_facts(2) split: option.split)
  qed
  with IH p show ?case by (auto simp: write_row_facts(1) write_row_facts(3))
qed

lemma write_rows_ok:
  "\<forall>r \<in> set rows. ci_project r = p \<Longrightarrow> \<exists>st'. write_rows p a o' d rows st = Inr st'"
  by (induction rows arbitrary: st) auto

text \<open>A write that succeeds.\<close>

lemma apply_facts:
  assumes a: "apply_rows st p rows v actor o' d = Inr (v', st')" and u: "distinct (map ci_bc_id rows)"
  shows "registry_version st p = v" "v' = Suc v" "registry_version st' q = (if q = p then Suc v else registry_version st q)"
    "next_of st p \<le> next_of st' p" "q \<noteq> p \<Longrightarrow> next_of st' q = next_of st q"
    "store_keys st \<Longrightarrow> store_keys st'"
    "row_at st' q b = (if q = p then (case find (\<lambda>r. ci_bc_id r = b) rows of Some r \<Rightarrow> Some (kept (row_at st p b) r) | None \<Rightarrow> row_at st p b)
         else row_at st q b)"
proof -
  from a show v: "registry_version st p = v" by (auto simp: apply_rows_def Let_def split: if_splits)
  from a v obtain st1 where w: "write_rows p actor o' d rows (ensure_registry p st) = Inr st1"
    and st': "v' = v + 1" "st' = st1\<lparr>is_registry := (is_registry st1)(p \<mapsto>
        \<lparr>rg_version = v + 1, rg_next_ordinal = max (rg_next_ordinal (the (is_registry st1 p))) (max_ordinal rows + 1)\<rparr>)\<rparr>"
    by (auto simp: apply_rows_def Let_def split: if_splits sum.splits)
  note f = write_rows_facts [OF w]
  obtain g where g: "is_registry (ensure_registry p st) p = Some g" using ensure_registry_facts(5) by blast
  have reg: "is_registry st1 = is_registry (ensure_registry p st)" using f by blast
  have ng: "next_of st p = rg_next_ordinal g" using ensure_registry_facts(2) [of p st p] g by (simp add: next_of_def)
  show "v' = Suc v" using st' by simp
  show "registry_version st' q = (if q = p then Suc v else registry_version st q)"
    using ensure_registry_facts(3) [of p st q] by (simp add: st' reg registry_version_def)
  have "next_of st' p = max (rg_next_ordinal g) (max_ordinal rows + 1)" by (simp add: st' reg g next_of_def)
  with ng show "next_of st p \<le> next_of st' p" by simp
  show "q \<noteq> p \<Longrightarrow> next_of st' q = next_of st q"
    using ensure_registry_facts(2) [of p st q] by (simp add: st' reg next_of_def)
  show "store_keys st \<Longrightarrow> store_keys st'" using f by (simp add: st' store_keys_def)
  have "row_at st' q b = row_at st1 q b" by (simp add: st' row_at_def)
  then show "row_at st' q b = (if q = p then (case find (\<lambda>r. ci_bc_id r = b) rows of Some r \<Rightarrow> Some (kept (row_at st p b) r) | None \<Rightarrow> row_at st p b)
         else row_at st q b)" using f u by (simp split: option.split)
qed

text \<open>A write of rows of the project is refused only over the version.\<close>

lemma apply_error:
  assumes "apply_rows st p rows v actor o' d = Inl e" "\<forall>r \<in> set rows. ci_project r = p"
  shows "registry_version st p \<noteq> v \<and> (\<exists>m. e = IdentityConflictError m)"
proof (cases "registry_version st p = v")
  case True
  from write_rows_ok [OF assms(2), of actor o' d "ensure_registry p st"] obtain st1 where
    "write_rows p actor o' d rows (ensure_registry p st) = Inr st1" by blast
  with True assms(1) show ?thesis by (simp add: apply_rows_def Let_def)
next
  case False
  with assms(1) show ?thesis by (auto simp: apply_rows_def Let_def)
qed

section \<open>Rows\<close>

text \<open>What is true of every row of a project: it constructs, it is canonical, its id was minted below the counter.\<close>

definition row_ok :: "string \<Rightarrow> nat \<Rightarrow> capability_identity \<Rightarrow> bool" where
  "row_ok p n r \<longleftrightarrow> ci_project r = p \<and> status_fields_agree r = None
     \<and> canonicalize (ci_fingerprint r) = ci_fingerprint r \<and> (\<exists>m < n. ci_bc_id r = bc_name m)"

lemma status_agree_iff:
  "status_fields_agree r = None \<longleftrightarrow> (ci_status r = RETIRED \<longleftrightarrow> ci_retired_reason r \<noteq> None)
     \<and> (ci_status r = MERGED \<longrightarrow> ci_merged_into r \<noteq> None)
     \<and> ci_merged_into r \<noteq> Some (ci_bc_id r) \<and> ci_derived_from r \<noteq> Some (ci_bc_id r)"
  by (auto simp: status_fields_agree_def)

lemma row_ok_mono: "row_ok p m r \<Longrightarrow> m \<le> n \<Longrightarrow> row_ok p n r"
  by (auto simp: row_ok_def intro: less_le_trans)

lemma row_ok_kept [simp]: "row_ok p n (kept old r) = row_ok p n r" "ci_bc_id (kept old r) = ci_bc_id r"
  "ci_status (kept old r) = ci_status r" "ci_merged_into (kept old r) = ci_merged_into r"
  by (auto simp: kept_def row_ok_def status_fields_agree_def split: option.split)

text \<open>The walk along \<open>merged_into\<close>, by length: it ends at a row that is not merged.\<close>

inductive leads :: "(string \<Rightarrow> capability_identity option) \<Rightarrow> string \<Rightarrow> nat \<Rightarrow> string \<Rightarrow> bool" for R where
  here: "R b = Some r \<Longrightarrow> ci_status r \<noteq> MERGED \<Longrightarrow> leads R b 0 b"
| there: "R b = Some r \<Longrightarrow> ci_status r = MERGED \<Longrightarrow> ci_merged_into r = Some b' \<Longrightarrow> leads R b' n h \<Longrightarrow> leads R b (Suc n) h"

inductive_cases leadsE: "leads R b n h"

definition all_lead :: "(string \<Rightarrow> capability_identity option) \<Rightarrow> bool" where
  "all_lead R \<longleftrightarrow> (\<forall>b r. R b = Some r \<longrightarrow> (\<exists>n h. leads R b n h))"

lemma leads_unique: "leads R b n h \<Longrightarrow> leads R b m h' \<Longrightarrow> m = n \<and> h' = h"
proof (induction arbitrary: m rule: leads.induct)
  case (here b r)
  from here(3) here(1,2) show ?case by (cases rule: leads.cases) simp_all
next
  case (there b r b' n h)
  from there(6) there(1-3) obtain m' where "m = Suc m'" "leads R b' m' h'" by (cases rule: leads.cases) simp_all
  with there.IH show ?case by simp
qed

lemma leads_end: "leads R b n h \<Longrightarrow> \<exists>r. R h = Some r \<and> ci_status r \<noteq> MERGED"
  by (induction rule: leads.induct) blast+

lemma leads_end_self: "leads R b n h \<Longrightarrow> R b = Some r \<Longrightarrow> ci_status r \<noteq> MERGED \<Longrightarrow> h = b"
  by (erule leadsE) simp_all

text \<open>The walk of the code finds the end.\<close>

lemma live_walk_leads:
  assumes l: "leads (dict_get rows) b n h" and seen: "\<forall>x \<in> seen. \<exists>m > n. \<exists>h'. leads (dict_get rows) x m h'"
    and names: "\<forall>b r. dict_get rows b = Some r \<longrightarrow> b \<noteq> []"
  shows "live_walk rows bc_id seen b = h"
  using l seen
proof (induction arbitrary: seen rule: leads.induct)
  case (here b r)
  have "b \<in> set (dict_keys rows)" using here(1) by (metis map_of_eq_None_iff option.distinct(1) set_map)
  moreover have "b \<notin> seen" using here(3) leads.here [of "dict_get rows", OF here(1,2)] leads_unique by blast
  ultimately show ?case using here(1,2) by (simp add: live_walk.simps [of rows bc_id seen b] dict_at_def)
next
  case (there b r b' n h)
  note this_leads = leads.there [of "dict_get rows", OF there(1-4)]
  have b: "b \<in> set (dict_keys rows)" using there(1) by (metis map_of_eq_None_iff option.distinct(1) set_map)
  have ns: "b \<notin> seen" using there(6) this_leads leads_unique by blast
  have "b' \<noteq> []"
    using there(4) names by (cases rule: leads.cases) blast+
  with b ns there(1-3) have "live_walk rows bc_id seen b = live_walk rows bc_id (insert b seen) b'"
    by (simp add: live_walk.simps [of rows bc_id seen b] dict_at_def)
  moreover have "\<forall>x \<in> insert b seen. \<exists>m > n. \<exists>h'. leads (dict_get rows) x m h'"
    using there(6) this_leads by (metis Suc_lessD insertE lessI)
  ultimately show ?case using there.IH by simp
qed

section \<open>A batch of changed rows\<close>

text \<open>
  What the two clients compute from the rows they loaded: every row is sound, ids are distinct, and a row
  that becomes merged points at a loaded row that is live in the batch.
\<close>

definition batch_ok :: "string \<Rightarrow> nat \<Rightarrow> capability_identity list \<Rightarrow> capability_identity list \<Rightarrow> bool" where
  "batch_ok p n loaded changed \<longleftrightarrow>
     distinct (map ci_bc_id changed) \<and> (\<forall>r \<in> set changed. row_ok p n r)
     \<and> (\<forall>r \<in> set changed. ci_status r = MERGED \<longrightarrow>
          (\<exists>old \<in> set loaded. ci_bc_id old = ci_bc_id r \<and> ci_status old = MERGED \<and> ci_merged_into old = ci_merged_into r)
          \<or> (\<exists>c \<in> set changed. ci_merged_into r = Some (ci_bc_id c) \<and> ci_status c \<noteq> MERGED))"

lemma batch_ok_mono: "batch_ok p m loaded changed \<Longrightarrow> m \<le> n \<Longrightarrow> batch_ok p n loaded changed"
  unfolding batch_ok_def using row_ok_mono by blast

lemma find_in: "find P xs = Some x \<Longrightarrow> x \<in> set xs \<and> P x"
  by (auto simp: find_Some_iff)

text \<open>Writing a batch over the rows it was computed from keeps every walk finite.\<close>

lemma batch_leads:
  assumes ok: "batch_ok p n loaded changed" and old: "\<And>b r. R b = Some r \<Longrightarrow> r \<in> set loaded \<and> ci_bc_id r = b"
    and loaded: "\<And>r. r \<in> set loaded \<Longrightarrow> R (ci_bc_id r) = Some r"
    and R: "all_lead R"
    and N: "\<And>b. N b = (case find (\<lambda>r. ci_bc_id r = b) changed of Some r \<Rightarrow> Some (kept (R b) r) | None \<Rightarrow> R b)"
  shows "all_lead N"
proof -
  have d: "distinct (map ci_bc_id changed)" using ok by (simp add: batch_ok_def)
  have hit: "N (ci_bc_id r) = Some (kept (R (ci_bc_id r)) r)" if "r \<in> set changed" for r
    using find_unique [OF d that refl] by (simp add: N)
  have live: "leads N (ci_bc_id c) 0 (ci_bc_id c)" if "c \<in> set changed" "ci_status c \<noteq> MERGED" for c
    using leads.here [of N "ci_bc_id c", OF hit [OF that(1)]] that(2) by simp
  have fresh: "\<exists>m h. leads N (ci_bc_id r) m h"
    if r: "r \<in> set changed" and nold: "\<not> (\<exists>old \<in> set loaded. ci_bc_id old = ci_bc_id r \<and> ci_status old = MERGED \<and> ci_merged_into old = ci_merged_into r)" for r
  proof (cases "ci_status r = MERGED")
    case True
    with ok r nold obtain c where c: "c \<in> set changed" "ci_merged_into r = Some (ci_bc_id c)" "ci_status c \<noteq> MERGED"
      unfolding batch_ok_def by blast
    show ?thesis using leads.there [OF hit [OF r] _ _ live [OF c(1,3)]] True c(2) by auto
  next
    case False
    with live [OF r] show ?thesis by blast
  qed
  have step: "\<exists>m h. leads N b m h" if "leads R b k h" for b k h
    using that
  proof (induction rule: leads.induct)
    case (here b r)
    show ?case
    proof (cases "find (\<lambda>r. ci_bc_id r = b) changed")
      case None
      with here show ?thesis by (intro exI [of _ 0] exI [of _ b] leads.here [of _ _ r]) (simp_all add: N)
    next
      case (Some r')
      from find_in [OF this] have r': "r' \<in> set changed" "ci_bc_id r' = b" by simp_all
      have "\<not> (\<exists>old \<in> set loaded. ci_bc_id old = ci_bc_id r' \<and> ci_status old = MERGED \<and> ci_merged_into old = ci_merged_into r')"
        using here loaded r'(2) by fastforce
      with fresh [OF r'(1)] r'(2) show ?thesis by simp
    qed
  next
    case (there b r b' k h)
    from there.IH obtain m h' where m: "leads N b' m h'" by blast
    show ?case
    proof (cases "find (\<lambda>r. ci_bc_id r = b) changed")
      case None
      then have "N b = Some r" using there(1) by (simp add: N)
      from leads.there [of N, OF this there(2,3) m] show ?thesis by blast
    next
      case (Some r')
      from find_in [OF this] have r': "r' \<in> set changed" "ci_bc_id r' = b" by simp_all
      show ?thesis
      proof (cases "\<exists>old \<in> set loaded. ci_bc_id old = ci_bc_id r' \<and> ci_status old = MERGED \<and> ci_merged_into old = ci_merged_into r'")
        case True
        then have into: "ci_merged_into r' = Some b'" using there(1,3) loaded r'(2) by (metis option.inject)
        show ?thesis
        proof (cases "ci_status r' = MERGED")
          case True
          then show ?thesis using leads.there [OF hit [OF r'(1)] _ _ m] into r'(2) by auto
        next
          case False
          with live [OF r'(1)] r'(2) show ?thesis by blast
        qed
      next
        case False
        with fresh [OF r'(1)] r'(2) show ?thesis by simp
      qed
    qed
  qed
  show ?thesis
    unfolding all_lead_def
  proof (intro allI impI)
    fix b r assume nb: "N b = Some r"
    show "\<exists>n h. leads N b n h"
    proof (cases "R b")
      case (Some r0)
      with R step show ?thesis unfolding all_lead_def by blast
    next
      case None
      with nb obtain r' where "find (\<lambda>r. ci_bc_id r = b) changed = Some r'" by (auto simp: N split: option.splits)
      from find_in [OF this] have r': "r' \<in> set changed" "ci_bc_id r' = b" by simp_all
      have "\<not> (\<exists>old \<in> set loaded. ci_bc_id old = ci_bc_id r' \<and> ci_status old = MERGED \<and> ci_merged_into old = ci_merged_into r')"
        using None loaded r'(2) by fastforce
      with fresh [OF r'(1)] r'(2) show ?thesis by simp
    qed
  qed
qed

end
