(* ===== verification/Identity_Batches.thy ===== *)
theory Identity_Batches
  imports Identity_Safety
begin

text \<open>
  What \<open>identity_rows\<close> and the corrections compute from sound rows is a sound batch of changes.
\<close>

definition rows_wf :: "string \<Rightarrow> nat \<Rightarrow> capability_identity list \<Rightarrow> bool" where
  "rows_wf p n loaded \<longleftrightarrow> distinct (map ci_bc_id loaded) \<and> (\<forall>r \<in> set loaded. row_ok p n r)"

lemma rows_wf_mono: "rows_wf p m loaded \<Longrightarrow> m \<le> n \<Longrightarrow> rows_wf p n loaded"
  unfolding rows_wf_def using row_ok_mono by blast

lemma by_id_mem:
  assumes "dict_get (dict_of (map (\<lambda>r. (ci_bc_id r, r)) loaded)) b = Some r"
  shows "r \<in> set loaded \<and> ci_bc_id r = b"
proof -
  from assms have "(b, r) \<in> set (dict_of (map (\<lambda>r. (ci_bc_id r, r)) loaded))" by (rule map_of_SomeD)
  with dict_of_facts(3) [of "map (\<lambda>r. (ci_bc_id r, r)) loaded"] have "(b, r) \<in> set (map (\<lambda>r. (ci_bc_id r, r)) loaded)" by blast
  then show ?thesis by auto
qed

lemma by_id_get:
  assumes "distinct (map ci_bc_id loaded)"
  shows "dict_get (dict_of (map (\<lambda>r. (ci_bc_id r, r)) loaded)) b = Some r \<longleftrightarrow> r \<in> set loaded \<and> ci_bc_id r = b"
proof
  assume r: "r \<in> set loaded \<and> ci_bc_id r = b"
  have d: "distinct (dict_keys (map (\<lambda>r. (ci_bc_id r, r)) loaded))" using assms by (simp add: comp_def)
  have "(b, r) \<in> set (map (\<lambda>r. (ci_bc_id r, r)) loaded)" using r by auto
  then show "dict_get (dict_of (map (\<lambda>r. (ci_bc_id r, r)) loaded)) b = Some r"
    unfolding dict_of_distinct [OF d] by (rule map_of_is_SomeI [OF d])
qed (rule by_id_mem)

lemma tiers_get: "dict_get_or (map (\<lambda>t. (t, f t)) SIGNAL_TIERS) t [] = f t" for f :: "signal_tier \<Rightarrow> string list"
  by (cases t) (simp_all add: SIGNAL_TIERS_def dict_get_or_def)

lemma canonicalize_idem [simp]: "canonicalize (canonicalize fp) = canonicalize fp"
proof -
  have s: "sorted_set (sorted_set xs) = sorted_set xs" for xs :: "string list"
    by (rule sorted_distinct_set_unique) simp_all
  show ?thesis by (simp add: canonicalize_def tiers_get s)
qed

section \<open>Corrections\<close>

lemma absorb_batch:
  assumes w: "rows_wf p n loaded" and s: "source \<in> set loaded"
    and a: "absorb source c (dict_of (map (\<lambda>r. (ci_bc_id r, r)) loaded)) = Inr (Some changed)"
  shows "batch_ok p n loaded changed"
proof -
  from a obtain tid target where t: "dict_get (dict_of (map (\<lambda>r. (ci_bc_id r, r)) loaded)) tid = Some target"
    and ne: "ci_bc_id source \<noteq> ci_bc_id target" and act: "ci_status target = ACTIVE"
    and ch: "changed = [source\<lparr>ci_status := MERGED, ci_retired_reason := None, ci_merged_into := Some (ci_bc_id target)\<rparr>,
                target\<lparr>ci_fingerprint := ci_fingerprint source\<rparr>]"
    by (auto simp: absorb_def Let_def split: option.splits if_splits)
  from by_id_mem [OF t] have tm: "target \<in> set loaded" by simp
  from w s tm have so: "row_ok p n source" and ta: "row_ok p n target" by (simp_all add: rows_wf_def)
  have "row_ok p n (source\<lparr>ci_status := MERGED, ci_retired_reason := None, ci_merged_into := Some (ci_bc_id target)\<rparr>)"
    using so ne by (simp add: row_ok_def status_agree_iff)
  moreover have "row_ok p n (target\<lparr>ci_fingerprint := ci_fingerprint source\<rparr>)"
    using ta so by (simp add: row_ok_def status_agree_iff)
  ultimately show ?thesis using ne act by (simp add: batch_ok_def ch)
qed

lemma split_batch:
  assumes w: "rows_wf p (next_of st p) loaded" and s: "source \<in> set loaded"
    and g: "is_registry st p = Some g"
    and a: "split_rows source c (traced_allocate p) (st, []) = (Inr changed, (st', ids))"
  shows "batch_ok p (next_of st' p) loaded changed"
proof -
  obtain i st1 where al: "allocate p st = (i, st1)" by fastforce
  note mi = allocate_mints [OF g, unfolded al fst_conv snd_conv]
  let ?new = "\<lparr>ci_bc_id = i, ci_project = ci_project source, ci_first_seen_run = ci_first_seen_run source,
               ci_status = ACTIVE, ci_retired_reason = None, ci_merged_into = None, ci_derived_from = Some (ci_bc_id source),
               ci_fingerprint = mk_fingerprint (taken_tiers source (ic_partition c)) (fp_collected (ci_fingerprint source))\<rparr>"
  let ?rest = "source\<lparr>ci_fingerprint := mk_fingerprint (kept_tiers source (ic_partition c)) (fp_collected (ci_fingerprint source))\<rparr>"
  from a have ok: "mk_identity ?new = Inr ?new" and ch: "changed = [?rest, ?new]" and st': "st' = st1"
    by (auto simp: split_rows_def Let_def traced_allocate_def al mk_identity_def split: if_splits sum.splits option.splits)
  have n: "next_of st' p = Suc (next_of st p)" using mi(2) st' by (simp add: mints_def)
  from w s have so: "row_ok p (next_of st p) source" by (simp add: rows_wf_def)
  then have "row_ok p (next_of st' p) ?rest"
    using row_ok_mono [OF so, of "next_of st' p"] n by (simp add: row_ok_def status_agree_iff mk_fingerprint_def)
  moreover have "row_ok p (next_of st' p) ?new"
    using ok so mi(1) n by (auto simp: row_ok_def mk_identity_def mk_fingerprint_def split: option.splits)
  moreover have "i \<noteq> ci_bc_id source"
    using ok by (auto simp: mk_identity_def status_agree_iff split: option.splits)
  ultimately show ?thesis using s by (auto simp: batch_ok_def ch)
qed

lemma correction_batch:
  assumes w: "rows_wf p (next_of st p) loaded"
    and a: "correction_compute p c loaded st = (Inr (Some changed), (st', ids))"
  shows "batch_ok p (next_of st' p) loaded changed"
proof -
  from a obtain source where s: "dict_get (dict_of (map (\<lambda>r. (ci_bc_id r, r)) loaded)) (ic_source_bc_id c) = Some source"
    by (auto simp: correction_compute_def Let_def split: option.splits)
  from by_id_mem [OF s] have sm: "source \<in> set loaded" by simp
  show ?thesis
  proof (cases "ic_operation c = SPLIT")
    case True
    obtain r tr where sp: "split_rows source c (traced_allocate p) (ensure_registry p st, []) = (r, tr)" by (metis prod.exhaust)
    with a s True obtain ch where "r = Inr ch" "ch = changed" "tr = (st', ids)"
      by (cases r) (simp_all add: correction_compute_def)
    with sp have sp': "split_rows source c (traced_allocate p) (ensure_registry p st, []) = (Inr changed, (st', ids))" by simp
    obtain g where g: "is_registry (ensure_registry p st) p = Some g" using ensure_registry_facts(5) by blast
    show ?thesis using split_batch [OF _ sm g sp'] w by simp
  next
    case False
    with a s have "absorb source c (dict_of (map (\<lambda>r. (ci_bc_id r, r)) loaded)) = Inr (Some changed)" "st' = st"
      by (simp_all add: correction_compute_def)
    with absorb_batch [OF w sm] show ?thesis by simp
  qed
qed

section \<open>Assessments\<close>

lemma attachment_rows_mem:
  assumes "attachment_rows p run src fps stored as rows = Inr rows'" "distinct (dict_keys rows)"
  shows "distinct (dict_keys rows') \<and> set (dict_keys rows') = set (dict_keys rows) \<union> at_bc_id ` set as
    \<and> (\<forall>b r. dict_get rows' b = Some r \<longrightarrow> dict_get rows b = Some r
          \<or> (\<exists>a \<in> set as. at_bc_id a = b \<and> attachment_row p run src fps stored a = Inr r))"
  using assms
proof (induction as arbitrary: rows)
  case (Cons a as)
  then obtain r where r: "attachment_row p run src fps stored a = Inr r"
    and rest: "attachment_rows p run src fps stored as (AList.update (at_bc_id a) r rows) = Inr rows'"
    by (auto split: sum.splits)
  note IH = Cons.IH [OF rest distinct_update [OF Cons.prems(2)]]
  have keys: "set (dict_keys rows') = set (dict_keys rows) \<union> at_bc_id ` set (a # as)"
    unfolding IH [THEN conjunct2, THEN conjunct1] keys_update list.set image_insert by blast
  have "dict_get rows b = Some r' \<or> (\<exists>a' \<in> set (a # as). at_bc_id a' = b \<and> attachment_row p run src fps stored a' = Inr r')"
    if "dict_get rows' b = Some r'" for b r'
    using IH [THEN conjunct2, THEN conjunct2] that r by (auto simp: update_conv' split: if_splits)
  with IH keys show ?case by blast
qed simp

lemma retire_fold:
  "distinct (dict_keys rows) \<Longrightarrow> distinct (dict_keys (fold (retire_row stored) bs rows))"
  "dict_get (fold (retire_row stored) bs rows) b =
    (case stored b of
       Some prior \<Rightarrow> (if b \<in> set bs
          then Some (prior\<lparr>ci_status := RETIRED, ci_retired_reason := Some NOT_OBSERVED, ci_merged_into := None\<rparr>) else dict_get rows b)
     | None \<Rightarrow> dict_get rows b)"
proof -
  show "distinct (dict_keys rows) \<Longrightarrow> distinct (dict_keys (fold (retire_row stored) bs rows))"
    by (induction bs arbitrary: rows) (simp_all add: retire_row_def distinct_update split: option.split)
  show "dict_get (fold (retire_row stored) bs rows) b =
    (case stored b of
       Some prior \<Rightarrow> (if b \<in> set bs
          then Some (prior\<lparr>ci_status := RETIRED, ci_retired_reason := Some NOT_OBSERVED, ci_merged_into := None\<rparr>) else dict_get rows b)
     | None \<Rightarrow> dict_get rows b)"
    by (induction bs arbitrary: rows) (auto simp: retire_row_def update_conv' split: option.split)
qed

lemma merge_fold:
  "distinct (dict_keys rows) \<Longrightarrow> distinct (dict_keys (fold (merge_row stored) lws rows))"
  "distinct (dict_keys lws) \<Longrightarrow> dict_get (fold (merge_row stored) lws rows) b =
    (case stored b of
       Some prior \<Rightarrow> (case dict_get lws b of
          Some w \<Rightarrow> Some (prior\<lparr>ci_status := MERGED, ci_retired_reason := None, ci_merged_into := Some w\<rparr>)
        | None \<Rightarrow> dict_get rows b)
     | None \<Rightarrow> dict_get rows b)"
proof -
  show "distinct (dict_keys rows) \<Longrightarrow> distinct (dict_keys (fold (merge_row stored) lws rows))"
    by (induction lws arbitrary: rows) (simp_all add: merge_row_def distinct_update split: option.split)
  show "distinct (dict_keys lws) \<Longrightarrow> dict_get (fold (merge_row stored) lws rows) b =
    (case stored b of
       Some prior \<Rightarrow> (case dict_get lws b of
          Some w \<Rightarrow> Some (prior\<lparr>ci_status := MERGED, ci_retired_reason := None, ci_merged_into := Some w\<rparr>)
        | None \<Rightarrow> dict_get rows b)
     | None \<Rightarrow> dict_get rows b)"
  proof (induction lws arbitrary: rows)
    case (Cons lw lws)
    obtain l w where lw: "lw = (l, w)" by (cases lw)
    with Cons.prems have n: "dict_get lws l = None" by (simp add: map_of_eq_None_iff)
    show ?case using Cons.IH [of "merge_row stored lw rows"] Cons.prems n
      by (auto simp: lw merge_row_def update_conv' split: option.split)
  qed (simp split: option.split)
qed

text \<open>The row of an attachment: active, with what was observed.\<close>

lemma attachment_row_facts:
  assumes r: "attachment_row p run src fps stored a = Inr r"
    and stored: "\<And>b r. stored b = Some r \<Longrightarrow> ci_bc_id r = b \<and> row_ok p n r"
    and fps: "\<And>k fp. dict_get fps k = Some fp \<Longrightarrow> canonicalize fp = fp"
    and id: "\<exists>m < n. at_bc_id a = bc_name m"
  shows "ci_bc_id r = at_bc_id a \<and> ci_status r = ACTIVE \<and> row_ok p n r"
proof -
  from r obtain fp where fp: "dict_get fps (at_local_key a) = Some fp" by (auto simp: attachment_row_def split: option.splits)
  let ?new = "\<lparr>ci_bc_id = at_bc_id a, ci_project = p, ci_first_seen_run = run, ci_status = ACTIVE, ci_retired_reason = None,
      ci_merged_into = None, ci_derived_from = dict_get src (at_local_key a), ci_fingerprint = fp\<rparr>"
  have new: "mk_identity ?new = Inr r' \<Longrightarrow> ci_bc_id r' = at_bc_id a \<and> ci_status r' = ACTIVE \<and> row_ok p n r'" for r'
    using id fps [OF fp] by (auto simp: mk_identity_def row_ok_def split: option.splits)
  show ?thesis
  proof (cases "stored (at_bc_id a)")
    case None
    with r fp new show ?thesis by (simp add: attachment_row_def)
  next
    case (Some prior)
    show ?thesis
    proof (cases "at_method a = FIRST_DISCOVERY")
      case True
      with r fp Some new show ?thesis by (simp add: attachment_row_def)
    next
      case False
      with r fp Some have "r = prior\<lparr>ci_status := ACTIVE, ci_retired_reason := None, ci_fingerprint := fp\<rparr>"
        by (simp add: attachment_row_def)
      with stored [OF Some] fps [OF fp] show ?thesis by (auto simp: row_ok_def status_agree_iff)
    qed
  qed
qed

lemma identity_rows_batch:
  assumes w: "rows_wf p n loaded"
    and i: "identity_rows p run result fps loaded = Inr changed"
    and fps: "\<And>k fp. dict_get fps k = Some fp \<Longrightarrow> canonicalize fp = fp"
    and ids: "\<And>a. a \<in> set (rr_attachments result) \<Longrightarrow> \<exists>m < n. at_bc_id a = bc_name m"
    and md: "distinct (dict_keys (rr_merged result))"
    and ret: "\<And>b lk. b \<in> set (rr_retired result) \<Longrightarrow> \<not> claims result lk b"
    and mer: "\<And>l w'. dict_get (rr_merged result) l = Some w' \<Longrightarrow> (\<forall>lk. \<not> claims result lk l) \<and> (\<exists>lk'. claims result lk' w')"
  shows "batch_ok p n loaded changed"
proof -
  let ?stored = "dict_get (dict_of (map (\<lambda>r. (ci_bc_id r, r)) loaded))"
  let ?src = "split_source (rr_advisories result)"
  from i obtain rows0 where rows0: "attachment_rows p run ?src fps ?stored (rr_attachments result) [] = Inr rows0"
    by (auto simp: identity_rows_def Let_def split: sum.splits)
  define rows1 where "rows1 = fold (retire_row ?stored) (rr_retired result) rows0"
  define rows2 where "rows2 = fold (merge_row ?stored) (rr_merged result) rows1"
  have ch: "changed = map snd (dict_sorted rows2)"
    using i rows0 by (simp add: identity_rows_def Let_def rows1_def rows2_def)
  have "distinct (dict_keys ([] :: (string, capability_identity) dict))" by simp
  note am = attachment_rows_mem [OF rows0 this]
  have d0: "distinct (dict_keys rows0)" using am by blast
  have d2: "distinct (dict_keys rows2)"
    unfolding rows2_def rows1_def by (rule merge_fold(1), rule retire_fold(1), rule d0)
  have st: "ci_bc_id r = b \<and> row_ok p n r" if "?stored b = Some r" for b r
    using by_id_mem [OF that] w by (auto simp: rows_wf_def)
  have r0: "ci_bc_id r = b \<and> ci_status r = ACTIVE \<and> row_ok p n r" if "dict_get rows0 b = Some r" for b r
  proof -
    from am [THEN conjunct2, THEN conjunct2, rule_format, OF that]
    have "\<exists>a \<in> set (rr_attachments result). at_bc_id a = b \<and> attachment_row p run ?src fps ?stored a = Inr r"
      by (simp only: map_of.simps option.distinct simp_thms)
    then obtain a where a: "a \<in> set (rr_attachments result)" "at_bc_id a = b" "attachment_row p run ?src fps ?stored a = Inr r"
      by blast
    with attachment_row_facts [OF a(3) st fps ids [OF a(1)]] show ?thesis by simp
  qed
  have r1: "dict_get rows1 b = (case ?stored b of
       Some prior \<Rightarrow> (if b \<in> set (rr_retired result)
          then Some (prior\<lparr>ci_status := RETIRED, ci_retired_reason := Some NOT_OBSERVED, ci_merged_into := None\<rparr>) else dict_get rows0 b)
     | None \<Rightarrow> dict_get rows0 b)" for b
    unfolding rows1_def by (rule retire_fold(2))
  have r2: "dict_get rows2 b = (case ?stored b of
       Some prior \<Rightarrow> (case dict_get (rr_merged result) b of
          Some w \<Rightarrow> Some (prior\<lparr>ci_status := MERGED, ci_retired_reason := None, ci_merged_into := Some w\<rparr>)
        | None \<Rightarrow> dict_get rows1 b)
     | None \<Rightarrow> dict_get rows1 b)" for b
    unfolding rows2_def by (rule merge_fold(2) [OF md])
  have claimed: "\<exists>r. dict_get rows2 w' = Some r \<and> ci_bc_id r = w' \<and> ci_status r = ACTIVE" if "claims result lk w'" for lk w'
  proof -
    have "w' \<in> at_bc_id ` set (rr_attachments result)" using that by (auto simp: claims_def list_ex_iff)
    with am have "w' \<in> set (dict_keys rows0)" by simp
    then obtain r where r: "dict_get rows0 w' = Some r" by (metis map_of_eq_None_iff not_None_eq set_map)
    have "w' \<notin> set (rr_retired result)" using ret that by blast
    moreover have "dict_get (rr_merged result) w' = None" using mer that by (metis not_None_eq)
    ultimately have "dict_get rows2 w' = Some r" unfolding r2 r1 using r by (simp split: option.split)
    with r0 [OF r] show ?thesis by blast
  qed
  have val: "ci_bc_id r = b \<and> row_ok p n r \<and> (ci_status r = MERGED \<longrightarrow>
      (\<exists>c. dict_get rows2 (ci_bc_id c) = Some c \<and> ci_merged_into r = Some (ci_bc_id c) \<and> ci_status c \<noteq> MERGED))"
    if v: "dict_get rows2 b = Some r" for b r
  proof (cases "\<exists>w'. ?stored b \<noteq> None \<and> dict_get (rr_merged result) b = Some w'")
    case True
    then obtain prior w' where pw: "?stored b = Some prior" "dict_get (rr_merged result) b = Some w'" by blast
    with v have r: "r = prior\<lparr>ci_status := MERGED, ci_retired_reason := None, ci_merged_into := Some w'\<rparr>" unfolding r2 by simp
    from mer [OF pw(2)] obtain lk where lk: "claims result lk w'" and nb: "\<forall>lk. \<not> claims result lk b" by blast
    from claimed [OF lk] obtain c where c: "dict_get rows2 w' = Some c" "ci_bc_id c = w'" "ci_status c = ACTIVE" by blast
    have "w' \<noteq> b" using lk nb by blast
    with st [OF pw(1)] have "ci_bc_id r = b \<and> row_ok p n r" by (auto simp: r row_ok_def status_agree_iff)
    with c r show ?thesis by (intro conjI impI exI [of _ c]) simp_all
  next
    case False
    with v have v1: "dict_get rows1 b = Some r" unfolding r2 by (auto split: option.splits)
    show ?thesis
    proof (cases "\<exists>prior. ?stored b = Some prior \<and> b \<in> set (rr_retired result)")
      case True
      then obtain prior where pr: "?stored b = Some prior" "b \<in> set (rr_retired result)" by blast
      with v1 have "r = prior\<lparr>ci_status := RETIRED, ci_retired_reason := Some NOT_OBSERVED, ci_merged_into := None\<rparr>" unfolding r1 by simp
      with st [OF pr(1)] show ?thesis by (auto simp: row_ok_def status_agree_iff)
    next
      case False
      with v1 have "dict_get rows0 b = Some r" unfolding r1 by (auto split: option.splits if_splits)
      from r0 [OF this] show ?thesis by simp
    qed
  qed
  have mem: "r \<in> set changed \<longleftrightarrow> (\<exists>b. dict_get rows2 b = Some r)" for r
    unfolding ch using map_of_eq_Some_iff [OF d2] by (force simp: image_iff)
  have keys: "map ci_bc_id changed = dict_keys (dict_sorted rows2)"
    unfolding ch map_map comp_def using val map_of_eq_Some_iff [OF d2] by (intro map_cong) (auto simp: prod_eq_iff)
  have "distinct (map ci_bc_id changed)" unfolding keys using d2 by simp
  moreover have "row_ok p n r \<and> (ci_status r = MERGED \<longrightarrow>
      (\<exists>c \<in> set changed. ci_merged_into r = Some (ci_bc_id c) \<and> ci_status c \<noteq> MERGED))" if r: "r \<in> set changed" for r
  proof -
    from r mem obtain b where b: "dict_get rows2 b = Some r" by blast
    from val [OF b] mem show ?thesis by blast
  qed
  ultimately show ?thesis unfolding batch_ok_def by blast
qed

lemma lock_batch:
  assumes w: "rows_wf p (next_of st p) loaded"
    and a: "lock_compute ops p run proposed loaded st = (Inr (result, changed), (st', ids))"
    and canon: "list_all (\<lambda>p. canonicalize (pc_fingerprint p) = pc_fingerprint p) proposed"
  shows "batch_ok p (next_of st' p) loaded changed"
proof -
  from a have r: "resolve ops (DEFAULT_TIER_WEIGHTS ops) (T_MATCH ops) (EPSILON ops) (traced_allocate p) proposed loaded
      (ensure_registry p st, []) = (Inr result, (st', ids))"
    and i: "identity_rows p run result (dict_of (map (\<lambda>p. (pc_local_key p, pc_fingerprint p)) proposed)) loaded = Inr changed"
    by (auto simp: lock_compute_def split: prod.splits sum.splits)
  have n: "next_of st p \<le> next_of st' p" using lock_mints [OF a] by (simp add: mints_def)
  from r obtain minted where d: "distinct (map pc_local_key proposed)"
    and mint: "mint_all (traced_allocate p) (to_mint ops (DEFAULT_TIER_WEIGHTS ops) (T_MATCH ops) proposed loaded) (ensure_registry p st, []) = (minted, (st', ids))"
    and at: "rr_attachments result = map (fst \<circ> visit_of ops (DEFAULT_TIER_WEIGHTS ops) (T_MATCH ops) (EPSILON ops) proposed loaded minted) proposed"
    and ret: "rr_retired result = sort (map ci_bc_id (filter (\<lambda>c. fate ops (DEFAULT_TIER_WEIGHTS ops) (T_MATCH ops) proposed loaded c = None \<and> ci_status c = ACTIVE)
              (left_over ops (DEFAULT_TIER_WEIGHTS ops) (T_MATCH ops) proposed loaded)))"
    and mer: "rr_merged result = dict_of (List.map_filter (\<lambda>c. map_option (Pair (ci_bc_id c)) (fate ops (DEFAULT_TIER_WEIGHTS ops) (T_MATCH ops) proposed loaded c))
              (left_over ops (DEFAULT_TIER_WEIGHTS ops) (T_MATCH ops) proposed loaded))"
    by (rule resolve_shape)
  have uu: "unique_input proposed loaded" using w d by (simp add: unique_input_def rows_wf_def)
  obtain g where g: "is_registry (ensure_registry p st) p = Some g" using ensure_registry_facts(5) by blast
  from mint_all_traced [OF g, of "to_mint ops (DEFAULT_TIER_WEIGHTS ops) (T_MATCH ops) proposed loaded" "[]"] mint
  have mz: "minted = zip (to_mint ops (DEFAULT_TIER_WEIGHTS ops) (T_MATCH ops) proposed loaded) ids" by auto
  have idm: "\<exists>m < next_of st' p. b = bc_name m" if "b \<in> set ids" for b
  proof -
    from lock_mints [OF a] have m: "ids = map bc_name [next_of st p ..< next_of st p + length ids]"
      "next_of st' p = next_of st p + length ids" by (simp_all add: mints_def)
    from that have "b \<in> set (map bc_name [next_of st p ..< next_of st p + length ids])" using m(1) by simp
    then show ?thesis using m(2) by auto
  qed
  have named: "\<exists>m < next_of st' p. at_bc_id x = bc_name m" if x: "x \<in> set (rr_attachments result)" for x
    using attachment_shape [OF mint at x, THEN conjunct2]
  proof
    assume "\<exists>bc. dict_get (assigned_of ops (DEFAULT_TIER_WEIGHTS ops) (T_MATCH ops) proposed loaded) (at_local_key x) = Some bc
          \<and> x = matched_attachment (table ops (DEFAULT_TIER_WEIGHTS ops) proposed loaded) (at_local_key x) bc"
    then obtain bc where bc: "dict_get (assigned_of ops (DEFAULT_TIER_WEIGHTS ops) (T_MATCH ops) proposed loaded) (at_local_key x) = Some bc"
      "at_bc_id x = bc" by (metis matched_attachment_simps(2))
    from assigned_strong [OF uu bc(1)] obtain c where "c \<in> set loaded" "ci_bc_id c = bc" by blast
    with w bc(2) have "row_ok p (next_of st p) c" "ci_bc_id c = at_bc_id x" by (simp_all add: rows_wf_def)
    from row_ok_mono [OF this(1) n] this(2) show ?thesis by (simp add: row_ok_def)
  next
    assume "dict_get minted (at_local_key x) = Some (at_bc_id x) \<and> x = first_attachment (at_local_key x) (at_bc_id x)"
    then have "(at_local_key x, at_bc_id x) \<in> set minted" using map_of_SomeD by fast
    then have "at_bc_id x \<in> set ids" unfolding mz by (rule set_zip_rightD)
    then show ?thesis by (rule idm)
  qed
  have fps: "canonicalize fp = fp" if "dict_get (dict_of (map (\<lambda>p. (pc_local_key p, pc_fingerprint p)) proposed)) k = Some fp" for k fp
  proof -
    from that have "(k, fp) \<in> set (dict_of (map (\<lambda>p. (pc_local_key p, pc_fingerprint p)) proposed))" by (rule map_of_SomeD)
    with dict_of_facts(3) have "(k, fp) \<in> set (map (\<lambda>p. (pc_local_key p, pc_fingerprint p)) proposed)" by blast
    with canon show ?thesis by (auto simp: list_all_iff)
  qed
  note un = unclaimed_reports [OF uu at ret mer]
  show ?thesis
  proof (rule identity_rows_batch [OF rows_wf_mono [OF w n] i fps named])
    show "distinct (dict_keys (rr_merged result))" by (simp add: mer dict_of_facts)
  qed (use un in blast)+
qed

lemma job_batch:
  assumes w: "rows_wf p (next_of st p) loaded" and ok: "job_ok job"
    and c: "job_compute ops p job loaded st = (Inr (Some changed), (st', ids))"
  shows "batch_ok p (next_of st' p) loaded changed"
proof (cases job)
  case (Assess run proposed)
  obtain r tr where l: "lock_compute ops p run proposed loaded st = (r, tr)" by (metis prod.exhaust)
  with c Assess obtain result where "r = Inr (result, changed)" "tr = (st', ids)"
    by (cases r) (auto simp: job_compute_def split: if_splits)
  with l lock_batch [OF w] ok Assess show ?thesis by (simp add: job_ok_def)
next
  case (Correct cr)
  with c correction_batch [OF w] show ?thesis by (simp add: job_compute_def)
qed

end
