(* ===== verification/Identity_Properties.thy ===== *)
theory Identity_Properties
  imports Identity_Batches Identity_Example
begin

text \<open>
  The properties of the capability registry, for every state reached by assessments and corrections whose
  reads, computations and writes interleave in any way.
\<close>

section \<open>A sound store loads\<close>

definition store_ok :: "identity_store \<Rightarrow> bool" where
  "store_ok st \<longleftrightarrow> store_keys st
     \<and> (\<forall>p b r. row_at st p b = Some r \<longrightarrow> ci_bc_id r = b \<and> row_ok p (next_of st p) r)
     \<and> (\<forall>p. all_lead (row_at st p))"

lemma store_ok_row: "store_ok st \<Longrightarrow> row_at st p b = Some r \<Longrightarrow> ci_bc_id r = b \<and> row_ok p (next_of st p) r"
  by (simp add: store_ok_def)

lemma validate_rows_ok: "\<forall>r \<in> set rs. status_fields_agree r = None \<Longrightarrow> validate_rows rs = Inr rs"
  by (induction rs) (simp_all add: mk_identity_def)

lemma project_rows_mem:
  assumes "store_keys st"
  shows "r \<in> set (project_rows st p) \<longleftrightarrow> (\<exists>b. row_at st p b = Some r)"
  using assms by (force simp: project_rows_def row_at_def store_keys_def image_iff)

lemma project_rows_distinct:
  assumes "store_ok st"
  shows "distinct (map ci_bc_id (project_rows st p))"
proof -
  have d: "distinct (dict_keys (is_rows st))" using assms by (simp add: store_ok_def store_keys_def)
  have id: "ci_bc_id r = b" if "((q, b), r) \<in> set (is_rows st)" for q b r
    using store_ok_row [OF assms, of q b r] that d by (simp add: row_at_def)
  have "map ci_bc_id (project_rows st p) = map snd (filter (\<lambda>(q, _). q = p) (dict_keys (is_rows st)))"
  proof -
    have "map ci_bc_id (map snd (filter (\<lambda>((q, _), _). q = p) xs)) = map snd (filter (\<lambda>(q, _). q = p) (map fst xs))"
      if "\<forall>q b r. ((q, b), r) \<in> set xs \<longrightarrow> ci_bc_id r = b" for xs
      using that by (induction xs) auto
    from this [of "is_rows st"] id show ?thesis unfolding project_rows_def by blast
  qed
  moreover have "inj_on snd {(q, b). q = p}" by (auto simp: inj_on_def)
  ultimately show ?thesis using d by (simp add: distinct_map) (auto simp: inj_on_def)
qed

lemma load_ok:
  assumes "store_ok st"
  obtains rows where "load st p = Inr rows" "rows_wf p (next_of st p) rows" "sorted (map ci_bc_id rows)"
    "\<And>b r. row_at st p b = Some r \<longleftrightarrow> r \<in> set rows \<and> ci_bc_id r = b"
proof -
  let ?rows = "sort_key ci_bc_id (project_rows st p)"
  have k: "store_keys st" using assms by (simp add: store_ok_def)
  have mem: "row_at st p b = Some r \<longleftrightarrow> r \<in> set ?rows \<and> ci_bc_id r = b" for b r
    using project_rows_mem [OF k, of r p] store_ok_row [OF assms] by auto
  have ok: "row_ok p (next_of st p) r" if "r \<in> set ?rows" for r
    using mem [of "ci_bc_id r" r] that store_ok_row [OF assms] by blast
  have "map (\<lambda>r. r\<lparr>ci_project := p, ci_fingerprint := canonicalize (ci_fingerprint r)\<rparr>) ?rows = ?rows"
    using ok by (intro map_idI) (auto simp: row_ok_def)
  then have "load st p = Inr ?rows" using ok validate_rows_ok by (simp add: load_def row_ok_def)
  moreover have "rows_wf p (next_of st p) ?rows"
    using project_rows_distinct [OF assms, of p] ok by (simp add: rows_wf_def distinct_map)
  ultimately show thesis using that mem by (metis sorted_sort_key)
qed

lemma load_cong:
  assumes "store_ok st" "store_ok st'" "row_at st' p = row_at st p"
  shows "load st' p = load st p"
proof -
  obtain rows where r: "load st p = Inr rows" "rows_wf p (next_of st p) rows" "sorted (map ci_bc_id rows)"
    "\<And>b r. row_at st p b = Some r \<longleftrightarrow> r \<in> set rows \<and> ci_bc_id r = b" by (rule load_ok [OF assms(1)]) blast
  obtain rows' where r': "load st' p = Inr rows'" "rows_wf p (next_of st' p) rows'" "sorted (map ci_bc_id rows')"
    "\<And>b r. row_at st' p b = Some r \<longleftrightarrow> r \<in> set rows' \<and> ci_bc_id r = b" by (rule load_ok [OF assms(2)]) blast
  have "set rows' = set rows" using r(4) r'(4) assms(3) by (intro set_eqI) metis
  moreover have d: "distinct (map ci_bc_id rows)" "distinct (map ci_bc_id rows')" using r(2) r'(2) by (simp_all add: rows_wf_def)
  ultimately have "rows' = rows"
    by (intro map_sorted_distinct_set_unique [of ci_bc_id]) (use r(3) r'(3) d in \<open>simp_all add: distinct_map\<close>)
  with r(1) r'(1) show ?thesis by simp
qed

lemma load_find:
  assumes st: "store_ok st" and l: "load st p = Inr rows"
  shows "find (\<lambda>r. ci_bc_id r = b) rows = row_at st p b"
proof -
  obtain rows' where r: "load st p = Inr rows'" "rows_wf p (next_of st p) rows'"
    "\<And>b r. row_at st p b = Some r \<longleftrightarrow> r \<in> set rows' \<and> ci_bc_id r = b" by (rule load_ok [OF st]) blast
  with l have e: "rows' = rows" by simp
  show ?thesis
  proof (cases "row_at st p b")
    case None
    then have "\<forall>r \<in> set rows. ci_bc_id r \<noteq> b" using r(3) [of b] e by (metis option.distinct(1))
    with None show ?thesis by (simp add: find_None_iff)
  next
    case (Some r0)
    with r e have "r0 \<in> set rows" "ci_bc_id r0 = b" "distinct (map ci_bc_id rows)" by (simp_all add: rows_wf_def)
    from find_unique [of ci_bc_id, OF this(3,1,2)] Some show ?thesis by simp
  qed
qed

section \<open>What keeps a store sound\<close>

lemma mints_row_at [simp]: "mints p st st' ids \<Longrightarrow> row_at st' q b = row_at st q b"
  by (simp add: mints_def row_at_def)

lemma mints_next: "mints p st st' ids \<Longrightarrow> next_of st q \<le> next_of st' q"
  by (simp add: mints_def)

lemma mints_store_ok:
  assumes m: "mints p st st' ids" and ok: "store_ok st"
  shows "store_ok st'"
proof -
  have "row_at st' = row_at st" by (intro ext) (rule mints_row_at [OF m])
  moreover have "store_keys st' = store_keys st" using m by (simp add: mints_def store_keys_def)
  ultimately show ?thesis using ok row_ok_mono [OF _ mints_next [OF m]] by (auto simp: store_ok_def)
qed

lemma job_write_apply:
  obtains actor op d where "job_write job st p changed v = apply_rows st p changed v actor op d"
  by (cases job) (auto simp: job_write_def)

lemma write_store_ok:
  assumes ok: "store_ok st" and a: "apply_rows st p changed v actor op d = Inr (v', st')"
    and l: "load st p = Inr rows" and b: "batch_ok p (next_of st p) rows changed"
  shows "store_ok st'"
proof -
  have dc: "distinct (map ci_bc_id changed)" using b by (simp add: batch_ok_def)
  note f = apply_facts [OF a dc]
  obtain rows' where r: "load st p = Inr rows'" "\<And>b r. row_at st p b = Some r \<longleftrightarrow> r \<in> set rows' \<and> ci_bc_id r = b"
    by (rule load_ok [OF ok]) blast
  with l have mem: "row_at st p b = Some r \<longleftrightarrow> r \<in> set rows \<and> ci_bc_id r = b" for b r by simp
  have nx: "next_of st q \<le> next_of st' q" for q using f(4,5) by (cases "q = p") simp_all
  have row: "ci_bc_id r = b' \<and> row_ok q (next_of st' q) r" if "row_at st' q b' = Some r" for q b' r
  proof (cases "q = p \<and> find (\<lambda>r. ci_bc_id r = b') changed \<noteq> None")
    case True
    then obtain r0 where r0: "find (\<lambda>r. ci_bc_id r = b') changed = Some r0" by blast
    with that True f(7) have "r = kept (row_at st p b') r0" by simp
    with find_in [OF r0] b True row_ok_mono [OF _ nx] show ?thesis by (auto simp: batch_ok_def)
  next
    case False
    with that f(7) [of q b'] have "row_at st q b' = Some r" by (auto split: if_splits)
    with store_ok_row [OF ok] row_ok_mono [OF _ nx] show ?thesis by blast
  qed
  have lead: "all_lead (row_at st' q)" for q
  proof (cases "q = p")
    case True
    have "all_lead (row_at st' p)"
    proof (rule batch_leads [OF b, of "row_at st p"])
      show "all_lead (row_at st p)" using ok by (simp add: store_ok_def)
    qed (use mem f(7) in auto)
    with True show ?thesis by simp
  next
    case False
    then have "row_at st' q = row_at st q" by (intro ext) (simp add: f(7))
    with ok show ?thesis by (simp add: store_ok_def)
  qed
  show ?thesis using ok f(6) row lead by (simp add: store_ok_def)
qed

section \<open>The invariant of a reachable world\<close>

text \<open>How a store may move under a session that is under way.\<close>

definition evolves :: "identity_store \<Rightarrow> identity_store \<Rightarrow> bool" where
  "evolves st st' \<longleftrightarrow> store_ok st' \<and> (\<forall>p. registry_version st p \<le> registry_version st' p \<and> next_of st p \<le> next_of st' p
     \<and> (registry_version st' p = registry_version st p \<longrightarrow> row_at st' p = row_at st p))"

definition session_ok :: "identity_store \<Rightarrow> session \<Rightarrow> bool" where
  "session_ok st s =
     (case s of
        Reading p job v \<Rightarrow> job_ok job \<and> v \<le> registry_version st p
      | Loaded p job v rows \<Rightarrow> job_ok job \<and> v \<le> registry_version st p \<and> rows_wf p (next_of st p) rows
          \<and> (v = registry_version st p \<longrightarrow> load st p = Inr rows)
      | Ready p job v rows changed \<Rightarrow> v \<le> registry_version st p \<and> batch_ok p (next_of st p) rows changed
          \<and> (v = registry_version st p \<longrightarrow> load st p = Inr rows)
      | Ended r \<Rightarrow> True)"

lemma session_ok_evolves:
  assumes s: "session_ok st s" and e: "evolves st st'" and ok: "store_ok st"
  shows "session_ok st' s"
proof -
  have ok': "store_ok st'" using e by (simp add: evolves_def)
  have ev: "registry_version st p \<le> registry_version st' p" "next_of st p \<le> next_of st' p"
    "registry_version st' p = registry_version st p \<Longrightarrow> load st' p = load st p" for p
    using e load_cong [OF ok ok'] by (simp_all add: evolves_def)
  have same: "v = registry_version st' p \<Longrightarrow> v \<le> registry_version st p \<Longrightarrow> v = registry_version st p \<and> load st' p = load st p" for v p
    using ev(1,3) [of p] by simp
  show ?thesis
  proof (cases s)
    case (Reading p job v)
    with s ev(1) [of p] show ?thesis by (auto simp: session_ok_def)
  next
    case (Loaded p job v rows)
    with s ev(1,2) [of p] same [of v p] rows_wf_mono [of p "next_of st p" rows "next_of st' p"]
    show ?thesis by (auto simp: session_ok_def)
  next
    case (Ready p job v rows changed)
    with s ev(1,2) [of p] same [of v p] batch_ok_mono [of p "next_of st p" rows changed "next_of st' p"]
    show ?thesis by (auto simp: session_ok_def)
  qed (simp add: session_ok_def)
qed

definition log_ok :: "identity_store \<Rightarrow> (string \<times> string) list \<Rightarrow> bool" where
  "log_ok st log \<longleftrightarrow> distinct log \<and> (\<forall>(p, b) \<in> set log. \<exists>m < next_of st p. b = bc_name m)"

definition world_ok :: "world \<Rightarrow> (string \<times> string) list \<Rightarrow> bool" where
  "world_ok w log \<longleftrightarrow> store_ok (wo_store w) \<and> log_ok (wo_store w) log \<and> (\<forall>s \<in> set (wo_sessions w). session_ok (wo_store w) s)"

lemma sessions_update:
  assumes "world_ok w log" "evolves (wo_store w) st'" "session_ok st' s"
  shows "\<forall>s' \<in> set ((wo_sessions w)[i := s]). session_ok st' s'"
proof
  fix s' assume "s' \<in> set ((wo_sessions w)[i := s])"
  then have "s' = s \<or> s' \<in> set (wo_sessions w)" using set_update_subset_insert by fastforce
  then show "session_ok st' s'"
    using assms session_ok_evolves by (auto simp: world_ok_def)
qed

lemma evolves_refl: "store_ok st \<Longrightarrow> evolves st st"
  by (simp add: evolves_def)

lemma mints_evolves: "mints p st st' ids \<Longrightarrow> store_ok st \<Longrightarrow> evolves st st'"
proof -
  assume m: "mints p st st' ids" and ok: "store_ok st"
  have "row_at st' q = row_at st q" for q by (intro ext) (rule mints_row_at [OF m])
  with mints_store_ok [OF m ok] m show "evolves st st'" by (auto simp: evolves_def mints_def)
qed

lemma log_ok_mono: "log_ok st log \<Longrightarrow> (\<And>p. next_of st p \<le> next_of st' p) \<Longrightarrow> log_ok st' log"
  unfolding log_ok_def by (fastforce intro: less_le_trans)

text \<open>Fresh ids are new to the log and to the tables.\<close>

lemma mints_fresh:
  assumes m: "mints p st st' ids" and ok: "store_ok st" and lo: "log_ok st log"
  shows "log_ok st' (log @ map (Pair p) ids)"
    and "b \<in> set ids \<Longrightarrow> (p, b) \<notin> set log \<and> row_at st p b = None"
proof -
  have ids: "ids = map bc_name [next_of st p ..< next_of st p + length ids]" and nx: "next_of st' p = next_of st p + length ids"
    using m by (simp_all add: mints_def)
  have below: "\<exists>n \<ge> next_of st p. n < next_of st' p \<and> b = bc_name n" if "b \<in> set ids" for b
  proof -
    from that have "b \<in> set (map bc_name [next_of st p ..< next_of st p + length ids])" using ids by simp
    then show ?thesis using nx by auto
  qed
  have nl: "(p, b) \<notin> set log" if "b \<in> set ids" for b
  proof
    assume "(p, b) \<in> set log"
    with lo obtain n where "n < next_of st p" "b = bc_name n" unfolding log_ok_def by blast
    with below [OF that] show False by auto
  qed
  have nr: "row_at st p b = None" if b: "b \<in> set ids" for b
  proof (rule ccontr)
    assume "row_at st p b \<noteq> None"
    then obtain r where "row_at st p b = Some r" by blast
    from store_ok_row [OF ok this] obtain n where "n < next_of st p" "b = bc_name n" by (auto simp: row_ok_def)
    with below [OF b] show False by auto
  qed
  show "b \<in> set ids \<Longrightarrow> (p, b) \<notin> set log \<and> row_at st p b = None" using nl nr by blast
  have "distinct ids" by (subst ids) (simp add: distinct_map inj_on_def)
  then have d: "distinct (map (Pair p) ids)" by (simp add: distinct_map inj_on_def)
  have "log_ok st' log" using log_ok_mono [OF lo mints_next [OF m]] .
  with d nl below show "log_ok st' (log @ map (Pair p) ids)" unfolding log_ok_def by auto
qed

lemma compute_ok:
  assumes w: "world_ok w log" and s: "session_ok (wo_store w) (Loaded p job v rows)"
    and c: "compute_session ops w i p job v rows = (w', ids)"
  shows "world_ok w' (log @ map (Pair p) ids)" "b \<in> set ids \<Longrightarrow> (p, b) \<notin> set log \<and> row_at (wo_store w) p b = None"
proof -
  have ok: "store_ok (wo_store w)" and lo: "log_ok (wo_store w) log" using w by (simp_all add: world_ok_def)
  obtain r st' ids' where j: "job_compute ops p job rows (wo_store w) = (r, (st', ids'))" by (metis prod.exhaust)
  note m = job_mints [OF j]
  let ?s = "case r of Inl e \<Rightarrow> Ended (Inl e) | Inr None \<Rightarrow> Ended (Inr v) | Inr (Some changed) \<Rightarrow> Ready p job v rows changed"
  from c j have w': "w' = w\<lparr>wo_store := st', wo_sessions := (wo_sessions w)[i := ?s]\<rparr>" and ids: "ids = ids'"
    by (auto simp: compute_session_def)
  have e: "evolves (wo_store w) st'" by (rule mints_evolves [OF m ok])
  have "session_ok st' (Loaded p job v rows)" by (rule session_ok_evolves [OF s e ok])
  then have so: "session_ok st' ?s"
    using s job_batch [of p "wo_store w" rows job ops _ st' ids'] j
    by (auto simp: session_ok_def split: sum.split option.split)
  show "world_ok w' (log @ map (Pair p) ids)"
    using sessions_update [OF w e so, of i] e mints_fresh(1) [OF m ok lo] by (simp add: world_ok_def w' ids evolves_def)
  show "b \<in> set ids \<Longrightarrow> (p, b) \<notin> set log \<and> row_at (wo_store w) p b = None"
    using mints_fresh(2) [OF m ok lo] ids by simp
qed

lemma write_evolves:
  assumes ok: "store_ok st" and s: "session_ok st (Ready p job v rows changed)" and j: "job_write job st p changed v = Inr (v', st')"
  shows "evolves st st'" and "load st p = Inr rows" and "v = registry_version st p"
proof -
  obtain actor op d where "job_write job st p changed v = apply_rows st p changed v actor op d" by (rule job_write_apply)
  with j have a: "apply_rows st p changed v actor op d = Inr (v', st')" by simp
  have b: "batch_ok p (next_of st p) rows changed" using s by (simp add: session_ok_def)
  then have dc: "distinct (map ci_bc_id changed)" by (simp add: batch_ok_def)
  note f = apply_facts [OF a dc]
  show v: "v = registry_version st p" using f(1) by simp
  with s show l: "load st p = Inr rows" by (simp add: session_ok_def)
  have ok': "store_ok st'" by (rule write_store_ok [OF ok a l b])
  have "next_of st q \<le> next_of st' q" for q using f(4,5) by (cases "q = p") simp_all
  moreover have "row_at st' q = row_at st q" if "q \<noteq> p" for q using that by (intro ext) (simp add: f(7))
  ultimately show "evolves st st'" using ok' f(3) v by (auto simp: evolves_def)
qed

lemma step_ok:
  assumes w: "world_ok w log" and s: "id_step ops w l w'"
  shows "world_ok w' (log @ l) \<and> (\<forall>(p, b) \<in> set l. (p, b) \<notin> set log \<and> row_at (wo_store w) p b = None)"
  using s
proof (cases rule: id_step.cases)
  case (opens job project)
  then show ?thesis using w by (auto simp: world_ok_def session_ok_def)
next
  case (loads i project job version)
  have ok: "store_ok (wo_store w)" using w by (simp add: world_ok_def)
  obtain rows where l: "load (wo_store w) project = Inr rows" "rows_wf project (next_of (wo_store w) project) rows"
    by (rule load_ok [OF ok]) blast
  have "session_ok (wo_store w) (Reading project job version)"
    using w loads nth_mem unfolding world_ok_def by metis
  with l have so: "session_ok (wo_store w) (Loaded project job version rows)" by (simp add: session_ok_def)
  from sessions_update [OF w evolves_refl [OF ok] so, of i] w loads l show ?thesis
    by (simp add: load_session_def world_ok_def)
next
  case (computes i project job version rows ids)
  then have "session_ok (wo_store w) (Loaded project job version rows)"
    using w nth_mem unfolding world_ok_def by metis
  from compute_ok [OF w this computes(4)] computes(1) show ?thesis by auto
next
  case (writes i project job version rows changed)
  have ok: "store_ok (wo_store w)" using w by (simp add: world_ok_def)
  have so: "session_ok (wo_store w) (Ready project job version rows changed)"
    using w writes nth_mem unfolding world_ok_def by metis
  show ?thesis
  proof (cases "job_write job (wo_store w) project changed version")
    case (Inl e)
    have "session_ok (wo_store w) (Ended (Inl e))" by (simp add: session_ok_def)
    from sessions_update [OF w evolves_refl [OF ok] this, of i] w writes Inl show ?thesis
      by (simp add: write_session_def world_ok_def)
  next
    case (Inr r)
    obtain v' st' where r: "r = (v', st')" by (cases r)
    with Inr have j: "job_write job (wo_store w) project changed version = Inr (v', st')" by simp
    note e = write_evolves(1) [OF ok so j]
    have "session_ok st' (Ended (Inr v'))" by (simp add: session_ok_def)
    from sessions_update [OF w e this, of i] e log_ok_mono [of "wo_store w" log st'] w writes j show ?thesis
      by (auto simp: write_session_def world_ok_def evolves_def)
  qed
qed

lemma reach_ok: "id_reach ops w log \<Longrightarrow> world_ok w log"
proof (induction rule: id_reach.induct)
  case start
  have n: "row_at empty_store p b = None" for p b by (simp add: row_at_def empty_store_def)
  then show ?case by (simp add: world_ok_def empty_world_def store_ok_def log_ok_def all_lead_def store_keys_def empty_store_def row_at_def)
next
  case (step w log l w')
  from step_ok [OF step.IH step.hyps(2)] show ?case ..
qed

section \<open>The example\<close>

text \<open>A session of the example up to its computation, and up to its write.\<close>

lemma ready_steps:
  assumes r: "id_reach ex_num w log" and j: "job_ok job"
  shows "\<exists>w2. id_reach ex_num w2 log \<and> wo_store w2 = wo_store w
    \<and> id_step ex_num w2 (map (Pair p) (snd (ready_world w p job))) (fst (ready_world w p job))"
proof -
  let ?i = "length (wo_sessions w)" and ?v = "registry_version (wo_store w) p"
  let ?w1 = "open_session w p job" and ?w2 = "load_session (open_session w p job) (length (wo_sessions w)) p job (registry_version (wo_store w) p)"
  have r1: "id_reach ex_num ?w1 log"
    using id_reach.step [OF r id_step.opens [OF j, of ex_num w p]] by (simp add: open_session_def)
  have s1: "?i < length (wo_sessions ?w1)" "wo_sessions ?w1 ! ?i = Reading p job ?v" by (simp_all add: open_session_def)
  have r2: "id_reach ex_num ?w2 log" using id_reach.step [OF r1 id_step.loads [OF s1]] by simp
  have ok: "store_ok (wo_store w)" using reach_ok [OF r] by (simp add: world_ok_def)
  obtain rows where l: "load (wo_store w) p = Inr rows" by (rule load_ok [OF ok]) blast
  then have s2: "?i < length (wo_sessions ?w2)" "wo_sessions ?w2 ! ?i = Loaded p job ?v (loaded_rows (wo_sessions ?w2 ! ?i))"
    by (simp_all add: load_session_def open_session_def loaded_rows_def)
  obtain w3 ids where c: "compute_session ex_num ?w2 ?i p job ?v (loaded_rows (wo_sessions ?w2 ! ?i)) = (w3, ids)" by fastforce
  have "ready_world w p job = (w3, ids)" using c by (simp add: ready_world_def Let_def)
  moreover have "wo_store ?w2 = wo_store w" by (simp add: load_session_def open_session_def)
  ultimately show ?thesis using r2 id_step.computes [OF s2 c] by (intro exI [of _ ?w2]) simp
qed

lemma ready_reach:
  assumes "id_reach ex_num w log" "job_ok job"
  shows "id_reach ex_num (fst (ready_world w p job)) (log @ map (Pair p) (snd (ready_world w p job)))"
  using ready_steps [OF assms, of p] id_reach.step by blast

lemma ready_session:
  assumes "changed_rows (wo_sessions (fst (ready_world w p job)) ! length (wo_sessions w)) \<noteq> []"
  shows "length (wo_sessions w) < length (wo_sessions (fst (ready_world w p job)))
    \<and> wo_sessions (fst (ready_world w p job)) ! length (wo_sessions w) =
       Ready p job (registry_version (wo_store w) p) (loaded_rows (wo_sessions (fst (ready_world w p job)) ! length (wo_sessions w)))
         (changed_rows (wo_sessions (fst (ready_world w p job)) ! length (wo_sessions w)))"
  using assms
  by (auto simp: ready_world_def Let_def compute_session_def load_session_def open_session_def changed_rows_def loaded_rows_def
      split: prod.splits sum.splits option.splits)

lemma full_reach:
  assumes "id_reach ex_num w log" "job_ok job"
    and c: "changed_rows (wo_sessions (fst (ready_world w p job)) ! length (wo_sessions w)) \<noteq> []"
  shows "id_reach ex_num (full_session w p job) (log @ map (Pair p) (snd (ready_world w p job)))"
  using id_reach.step [OF ready_reach [OF assms(1,2)] id_step.writes, OF ready_session [OF c, THEN conjunct1] ready_session [OF c, THEN conjunct2]]
  by (simp add: full_session_def Let_def)

lemma ex_jobs: "job_ok ex_first" "job_ok ex_merge" "job_ok ex_second"
  by code_simp+

lemma ex_reach1: "id_reach ex_num ex_w1 [(''shop'', ''BC-001''), (''shop'', ''BC-002'')]"
proof -
  have "changed_rows (wo_sessions (fst (ready_world empty_world ''shop'' ex_first)) ! length (wo_sessions empty_world)) \<noteq> []" by code_simp
  from full_reach [OF id_reach.start ex_jobs(1) this] show ?thesis by (simp add: ex_ready1 ex_w1_def)
qed

lemma ex_ready2: "snd (ready_world ex_w1 ''shop'' ex_merge) = []"
  by code_simp

lemma ex_reach2: "id_reach ex_num ex_w2 [(''shop'', ''BC-001''), (''shop'', ''BC-002'')]"
proof -
  have "changed_rows (wo_sessions (fst (ready_world ex_w1 ''shop'' ex_merge)) ! length (wo_sessions ex_w1)) \<noteq> []" by code_simp
  from full_reach [OF ex_reach1 ex_jobs(2) this] show ?thesis by (simp add: ex_ready2 ex_w2_def)
qed

lemma ex_reach3: "id_reach ex_num ex_w3 [(''shop'', ''BC-001''), (''shop'', ''BC-002''), (''shop'', ''BC-003'')]"
  using ready_reach [OF ex_reach2 ex_jobs(3), of "''shop''"] by (simp add: ex_ready3 ex_w3_def)

section \<open>Properties of the registry\<close>

text \<open>
  C29: an id is handed out once. In every reachable state the ids handed out so far are pairwise distinct for
  their project, and whatever step comes next, the ids it hands out were never handed out before and belong
  to no stored row, persisted or not, retired or merged.
\<close>

theorem minted_never_reused:
  fixes ops :: "'s::linorder num_ops"
  assumes r: "id_reach ops w log"
  shows "distinct log \<and> (\<forall>l w'. id_step ops w l w' \<longrightarrow>
    (\<forall>(p, b) \<in> set l. (p, b) \<notin> set log \<and> (p, b) \<notin> set (dict_keys (is_rows (wo_store w)))))"
proof -
  note w = reach_ok [OF r]
  have "(p, b) \<notin> set (dict_keys (is_rows (wo_store w)))" if "row_at (wo_store w) p b = None" for p b
    using that by (simp add: row_at_def map_of_eq_None_iff)
  then have "\<forall>(p, b) \<in> set l. (p, b) \<notin> set log \<and> (p, b) \<notin> set (dict_keys (is_rows (wo_store w)))"
    if "id_step ops w l w'" for l w'
    using step_ok [OF w that] by (auto simp del: set_map)
  moreover have "distinct log" using w by (simp add: world_ok_def log_ok_def)
  ultimately show ?thesis by blast
qed

theorem minted_never_reused_witness:
  "(''shop'', ''BC-003'') \<notin> set [(''shop'', ''BC-001''), (''shop'', ''BC-002'')]
   \<and> (''shop'', ''BC-003'') \<notin> set (dict_keys (is_rows (wo_store ex_w2)))"
proof -
  from ready_steps [OF ex_reach2 ex_jobs(3), of "''shop''"] obtain w2 where
    w2: "id_reach ex_num w2 [(''shop'', ''BC-001''), (''shop'', ''BC-002'')]" "wo_store w2 = wo_store ex_w2"
    and s: "id_step ex_num w2 [(''shop'', ''BC-003'')] (fst (ready_world ex_w2 ''shop'' ex_second))"
    by (auto simp: ex_ready3)
  from minted_never_reused [OF w2(1), THEN conjunct2, rule_format, OF s, of "(''shop'', ''BC-003'')"] w2(2)
  show ?thesis by simp
qed

text \<open>
  C30: a write rests on the rows its session read. When a session writes, either the registry moved since it
  read the version, the write is refused as a conflict and changes nothing; or the project still holds
  exactly the rows the session loaded, the version goes up by one, every computed row is stored, with the
  run that saw it first unchanged, and no other row of any project is touched.
\<close>

theorem write_rests_on_read:
  fixes ops :: "'s::linorder num_ops"
  assumes r: "id_reach ops w log" and i: "i < length (wo_sessions w)" "wo_sessions w ! i = Ready p job v loaded changed"
  shows "case job_write job (wo_store w) p changed v of
      Inl e \<Rightarrow> v < registry_version (wo_store w) p \<and> (\<exists>m. e = IdentityConflictError m)
    | Inr (v', st') \<Rightarrow> load (wo_store w) p = Inr loaded \<and> registry_version (wo_store w) p = v \<and> v' = v + 1
        \<and> (\<exists>rows. load st' p = Inr rows \<and> (\<forall>b. find (\<lambda>r. ci_bc_id r = b) rows =
             (case find (\<lambda>r. ci_bc_id r = b) changed of
                Some r \<Rightarrow> Some (kept (find (\<lambda>r. ci_bc_id r = b) loaded) r)
              | None \<Rightarrow> find (\<lambda>r. ci_bc_id r = b) loaded)))
        \<and> (\<forall>q. q \<noteq> p \<longrightarrow> load st' q = load (wo_store w) q \<and> registry_version st' q = registry_version (wo_store w) q)"
proof -
  let ?st = "wo_store w"
  note w = reach_ok [OF r]
  have ok: "store_ok ?st" using w by (simp add: world_ok_def)
  have so: "session_ok ?st (Ready p job v loaded changed)" using w i nth_mem unfolding world_ok_def by metis
  then have b: "batch_ok p (next_of ?st p) loaded changed" and vle: "v \<le> registry_version ?st p"
    by (simp_all add: session_ok_def)
  have dc: "distinct (map ci_bc_id changed)" and pr: "\<forall>r \<in> set changed. ci_project r = p"
    using b by (simp_all add: batch_ok_def row_ok_def)
  obtain actor op d where jw: "job_write job ?st p changed v = apply_rows ?st p changed v actor op d" by (rule job_write_apply)
  show ?thesis
  proof (cases "apply_rows ?st p changed v actor op d")
    case (Inl e)
    with apply_error [OF Inl pr] vle show ?thesis by (auto simp: jw)
  next
    case (Inr res)
    obtain v' st' where res: "res = (v', st')" by (cases res)
    note a = Inr [unfolded res] and f = apply_facts [OF Inr [unfolded res] dc]
    note ev = write_evolves [OF ok so, unfolded jw, OF a]
    have ok': "store_ok st'" using ev(1) by (simp add: evolves_def)
    obtain rows where rows: "load st' p = Inr rows" by (rule load_ok [OF ok']) blast
    have find: "find (\<lambda>r. ci_bc_id r = b) rows = (case find (\<lambda>r. ci_bc_id r = b) changed of
                Some r \<Rightarrow> Some (kept (find (\<lambda>r. ci_bc_id r = b) loaded) r)
              | None \<Rightarrow> find (\<lambda>r. ci_bc_id r = b) loaded)" for b
      unfolding load_find [OF ok' rows] load_find [OF ok ev(2)] by (simp add: f(7))
    have other: "load st' q = load ?st q \<and> registry_version st' q = registry_version ?st q" if "q \<noteq> p" for q
    proof -
      have "row_at st' q = row_at ?st q" using that by (intro ext) (simp add: f(7))
      from load_cong [OF ok ok' this] that f(3) show ?thesis by simp
    qed
    have "v' = v + 1" using f(2) by simp
    with ev(2) f(1) rows find other show ?thesis
      by (simp only: jw a sum.case prod.case simp_thms ex_simps) blast
  qed
qed

theorem write_rests_on_read_witness:
  "case job_write ex_second (wo_store ex_w3) ''shop'' (changed_rows (wo_sessions ex_w3 ! 2)) 2 of
     Inl e \<Rightarrow> False
   | Inr (v', st') \<Rightarrow> load (wo_store ex_w3) ''shop'' = Inr (loaded_rows (wo_sessions ex_w3 ! 2)) \<and> v' = 3"
proof -
  have l: "length (wo_sessions ex_w2) = 2" by code_simp
  have "changed_rows (wo_sessions (fst (ready_world ex_w2 ''shop'' ex_second)) ! length (wo_sessions ex_w2)) \<noteq> []" by code_simp
  from ready_session [OF this] have s: "2 < length (wo_sessions ex_w3)"
    "wo_sessions ex_w3 ! 2 = Ready ''shop'' ex_second (registry_version (wo_store ex_w2) ''shop'')
       (loaded_rows (wo_sessions ex_w3 ! 2)) (changed_rows (wo_sessions ex_w3 ! 2))"
    unfolding ex_w3_def l by blast+
  have v: "registry_version (wo_store ex_w2) ''shop'' = 2" "registry_version (wo_store ex_w3) ''shop'' = 2" by code_simp+
  note th = write_rests_on_read [OF ex_reach3 s(1) s(2) [unfolded v(1)]]
  show ?thesis
  proof (cases "job_write ex_second (wo_store ex_w3) ''shop'' (changed_rows (wo_sessions ex_w3 ! 2)) 2")
    case (Inl e)
    with th v(2) show ?thesis by simp
  next
    case (Inr r)
    with th show ?thesis by (cases r) simp
  qed
qed

text \<open>
  C31: the registry always loads. In every reachable state the rows of every project pass the validators of
  their class, their ids are distinct, and the walk along \<open>merged_into\<close> from any row ends at a stored row
  that is not merged, which is the row itself unless it is merged.
\<close>

theorem registry_always_loads:
  fixes ops :: "'s::linorder num_ops"
  assumes r: "id_reach ops w log"
  shows "\<exists>rows. load (wo_store w) p = Inr rows \<and> distinct (map ci_bc_id rows)
    \<and> (\<forall>r \<in> set rows. \<exists>c \<in> set rows. ci_bc_id c = live_head (ci_bc_id r) (dict_of (map (\<lambda>r. (ci_bc_id r, r)) rows))
         \<and> ci_status c \<noteq> MERGED \<and> (ci_status r \<noteq> MERGED \<longrightarrow> c = r))"
proof -
  let ?st = "wo_store w"
  have ok: "store_ok ?st" using reach_ok [OF r] by (simp add: world_ok_def)
  obtain rows where l: "load ?st p = Inr rows" "rows_wf p (next_of ?st p) rows"
    "\<And>b r. row_at ?st p b = Some r \<longleftrightarrow> r \<in> set rows \<and> ci_bc_id r = b" by (rule load_ok [OF ok]) blast
  have d: "distinct (map ci_bc_id rows)" using l(2) by (simp add: rows_wf_def)
  let ?D = "dict_of (map (\<lambda>r. (ci_bc_id r, r)) rows)"
  have D: "dict_get ?D = row_at ?st p"
  proof (rule ext)
    fix b
    have "dict_get ?D b = Some r \<longleftrightarrow> row_at ?st p b = Some r" for r
      unfolding by_id_get [OF d] l(3) ..
    then show "dict_get ?D b = row_at ?st p b" by (cases "row_at ?st p b") (metis not_None_eq)+
  qed
  have names: "\<forall>b r. dict_get ?D b = Some r \<longrightarrow> b \<noteq> []"
    unfolding D using store_ok_row [OF ok] by (fastforce simp: row_ok_def)
  have "\<exists>c \<in> set rows. ci_bc_id c = live_head (ci_bc_id r) ?D \<and> ci_status c \<noteq> MERGED \<and> (ci_status r \<noteq> MERGED \<longrightarrow> c = r)"
    if r: "r \<in> set rows" for r
  proof -
    have row: "dict_get ?D (ci_bc_id r) = Some r" using by_id_get [OF d] r by blast
    from ok obtain n h where le: "leads (dict_get ?D) (ci_bc_id r) n h"
      unfolding store_ok_def all_lead_def D using row [unfolded D] by blast
    have head: "live_head (ci_bc_id r) ?D = h" unfolding live_head_def by (rule live_walk_leads [OF le _ names]) simp
    from leads_end [OF le] obtain c where c: "dict_get ?D h = Some c" "ci_status c \<noteq> MERGED" by blast
    have cm: "c \<in> set rows" "ci_bc_id c = h" using by_id_mem [OF c(1)] by simp_all
    have "c = r" if "ci_status r \<noteq> MERGED" using leads_end_self [OF le row that] c(1) row by simp
    with c(2) cm(2) head show ?thesis by (intro bexI [OF _ cm(1)]) simp
  qed
  with l(1) d show ?thesis by blast
qed

theorem registry_always_loads_witness:
  "(\<exists>rows. load (wo_store ex_w2) ''shop'' = Inr rows \<and> distinct (map ci_bc_id rows))
   \<and> live_head ''BC-002'' (dict_of (map (\<lambda>r. (ci_bc_id r, r)) (project_rows (wo_store ex_w2) ''shop''))) = ''BC-001''"
proof
  show "\<exists>rows. load (wo_store ex_w2) ''shop'' = Inr rows \<and> distinct (map ci_bc_id rows)"
    using registry_always_loads [OF ex_reach2, of "''shop''"] by blast
  show "live_head ''BC-002'' (dict_of (map (\<lambda>r. (ci_bc_id r, r)) (project_rows (wo_store ex_w2) ''shop''))) = ''BC-001''"
    by code_simp
qed

end
