(* ===== verification/Identity_Corrections.thy ===== *)
theory Identity_Corrections
  imports Identity_Properties
begin

text \<open>
  Issuing a correction again: a merge or a reattachment that already holds is a no-op, a split is refused.
  And the walk from a merged row to its live head can take more than one step.
\<close>

section \<open>The registry row a write leaves\<close>

lemma apply_ensured:
  assumes "apply_rows st p rows v actor op d = Inr (v', st')"
  shows "ensure_registry p st' = st'"
  using assms by (auto simp: apply_rows_def Let_def ensure_registry_def split: if_splits sum.splits)

lemma row_lookup:
  assumes ok: "store_ok st" and l: "load st p = Inr rows"
  shows "dict_get (dict_of (map (\<lambda>r. (ci_bc_id r, r)) rows)) = row_at st p"
proof (rule ext)
  fix b
  obtain rows' where r: "load st p = Inr rows'" "rows_wf p (next_of st p) rows'"
    "\<And>b r. row_at st p b = Some r \<longleftrightarrow> r \<in> set rows' \<and> ci_bc_id r = b" by (rule load_ok [OF ok]) blast
  with l have e: "rows' = rows" by simp
  have d: "distinct (map ci_bc_id rows)" using r(2) e by (simp add: rows_wf_def)
  have "dict_get (dict_of (map (\<lambda>r. (ci_bc_id r, r)) rows)) b = Some r \<longleftrightarrow> row_at st p b = Some r" for r
    unfolding by_id_get [OF d] r(3) e ..
  then show "dict_get (dict_of (map (\<lambda>r. (ci_bc_id r, r)) rows)) b = row_at st p b" by (cases "row_at st p b") (metis not_None_eq)+
qed

section \<open>Reissue\<close>

text \<open>A correction that wrote, taken apart.\<close>

lemma correction_wrote:
  assumes ok: "store_ok st" and a: "apply_correction p c st = (Inr v, st')"
  obtains (noop) "st' = st" "ic_operation c \<noteq> SPLIT"
  | (wrote) loaded changed st1 ids where "load st p = Inr loaded"
      "correction_compute p c loaded st = (Inr (Some changed), (st1, ids))"
      "apply_rows st1 p changed (registry_version st p) (ic_approved_by c) (op_value (ic_operation c)) (Some (ic_reason c)) = Inr (v, st')"
      "store_ok st1" "store_ok st'" "load st1 p = Inr loaded" "v = registry_version st' p"
      "batch_ok p (next_of st1 p) loaded changed"
proof -
  obtain loaded where l: "load st p = Inr loaded" "rows_wf p (next_of st p) loaded" by (rule load_ok [OF ok]) blast
  obtain r st1 ids where cc: "correction_compute p c loaded st = (r, (st1, ids))" by (metis prod.exhaust)
  note m = correction_mints [OF cc]
  have ok1: "store_ok st1" by (rule mints_store_ok [OF m ok])
  have "row_at st1 p = row_at st p" by (intro ext) (rule mints_row_at [OF m])
  from load_cong [OF ok ok1 this] l(1) have l1: "load st1 p = Inr loaded" by simp
  show thesis
  proof (cases r)
    case (Inl e)
    with a l cc show thesis by (simp add: apply_correction_def)
  next
    case (Inr o')
    show thesis
    proof (cases o')
      case None
      with cc Inr have n: "correction_compute p c loaded st = (Inr None, (st1, ids))" by simp
      have "map_sum id Some x \<noteq> Inr None" for x :: "identity_error + capability_identity list" by (cases x) simp_all
      with n have "st1 = st" "ic_operation c \<noteq> SPLIT"
        by (auto simp: correction_compute_def Let_def split: option.splits if_splits prod.splits)
      with a l n show thesis by (intro noop) (simp_all add: apply_correction_def)
    next
      case (Some changed)
      with Inr cc have cs: "correction_compute p c loaded st = (Inr (Some changed), (st1, ids))" by simp
      with a l have w: "apply_rows st1 p changed (registry_version st p) (ic_approved_by c) (op_value (ic_operation c)) (Some (ic_reason c)) = Inr (v, st')"
        by (auto simp: apply_correction_def split: sum.splits)
      have b: "batch_ok p (next_of st1 p) loaded changed" by (rule correction_batch [OF l(2) cs])
      then have dc: "distinct (map ci_bc_id changed)" by (simp add: batch_ok_def)
      note f = apply_facts [OF w dc]
      have "store_ok st'" by (rule write_store_ok [OF ok1 w l1 b])
      with l(1) cs w ok1 l1 b f(2,3) show thesis by (intro wrote) simp_all
    qed
  qed
qed

lemma absorb_wrote:
  assumes "absorb source c rows = Inr (Some changed)"
  obtains tid target where "ic_target_bc_id c = Some tid" "dict_get rows tid = Some target" "ci_bc_id source \<noteq> ci_bc_id target"
    "ci_status target = ACTIVE"
    "changed = [source\<lparr>ci_status := MERGED, ci_retired_reason := None, ci_merged_into := Some (ci_bc_id target)\<rparr>,
                target\<lparr>ci_fingerprint := ci_fingerprint source\<rparr>]"
  using assms by (auto simp: absorb_def Let_def split: option.splits if_splits)

lemma unmatched_after_split:
  assumes "moving \<noteq> []"
  shows "unmatched_members (r\<lparr>ci_fingerprint := mk_fingerprint (kept_tiers source moving) col\<rparr>) moving \<noteq> []"
proof -
  have "tier (mk_fingerprint (kept_tiers source moving) col) t = sorted_set (filter (\<lambda>m. m \<notin> set moving) (tier (ci_fingerprint source) t))" for t
    by (simp add: mk_fingerprint_def canonicalize_def tiers_get kept_tiers_def)
  then have "set (concat (map snd (taken_tiers (r\<lparr>ci_fingerprint := mk_fingerprint (kept_tiers source moving) col\<rparr>) moving))) = {}"
    by (auto simp: taken_tiers_def)
  then have "set (unmatched_members (r\<lparr>ci_fingerprint := mk_fingerprint (kept_tiers source moving) col\<rparr>) moving) = set moving"
    unfolding unmatched_members_def by simp
  with assms show ?thesis by auto
qed

lemma split_wrote:
  assumes "split_rows source c alloc st = (Inr changed, st')"
  obtains new where "ic_partition c \<noteq> []"
    "changed = [source\<lparr>ci_fingerprint := mk_fingerprint (kept_tiers source (ic_partition c)) (fp_collected (ci_fingerprint source))\<rparr>, new]"
  using assms by (auto simp: split_rows_def Let_def split: if_splits prod.splits sum.splits)

text \<open>
  Issuing a correction again. After a merge or a reattachment that was accepted, the same correction
  is a no-op that returns the current version. After a split that was accepted, the same split is refused
  with a \<open>ValueError\<close>, because its members are no longer there, and changes nothing.
\<close>

lemma correction_reissue:
  fixes ops :: "'s::linorder num_ops"
  assumes r: "id_reach ops w log" and a: "apply_correction p c (wo_store w) = (Inr v, st')"
  shows "(ic_operation c \<noteq> SPLIT \<longrightarrow> apply_correction p c st' = (Inr v, st'))
    \<and> (ic_operation c = SPLIT \<longrightarrow> (\<exists>m. apply_correction p c st' = (Inl (ValueError m), st')))"
proof -
  have ok: "store_ok (wo_store w)" using reach_ok [OF r] by (simp add: world_ok_def)
  show ?thesis
  proof (cases rule: correction_wrote [OF ok a, case_names noop wrote])
    case noop
    with a show ?thesis by simp
  next
    case (wrote loaded changed st1 ids)
    have dc: "distinct (map ci_bc_id changed)" using wrote(8) by (simp add: batch_ok_def)
    note row = apply_facts(7) [OF wrote(3) dc, of p] and D1 = row_lookup [OF wrote(4,6)]
    obtain rows' where l': "load st' p = Inr rows'" by (rule load_ok [OF wrote(5)]) blast
    note D' = row_lookup [OF wrote(5) l']
    from wrote(2) obtain source where s: "row_at st1 p (ic_source_bc_id c) = Some source"
      by (auto simp: correction_compute_def D1 split: option.splits)
    have sid: "ci_bc_id source = ic_source_bc_id c" using store_ok_row [OF wrote(4) s] by simp
    show ?thesis
    proof (cases "ic_operation c = SPLIT")
      case False
      with wrote(2) s have "absorb source c (dict_of (map (\<lambda>r. (ci_bc_id r, r)) loaded)) = Inr (Some changed)"
        by (simp add: correction_compute_def D1)
      then obtain tid target where t: "ic_target_bc_id c = Some tid" "row_at st1 p tid = Some target"
        "ci_bc_id source \<noteq> ci_bc_id target" "ci_status target = ACTIVE"
        and ch: "changed = [source\<lparr>ci_status := MERGED, ci_retired_reason := None, ci_merged_into := Some (ci_bc_id target)\<rparr>,
                target\<lparr>ci_fingerprint := ci_fingerprint source\<rparr>]"
        by (rule absorb_wrote) (simp add: D1)
      have tid: "ci_bc_id target = tid" using store_ok_row [OF wrote(4) t(2)] by simp
      have s': "row_at st' p (ic_source_bc_id c) =
          Some (source\<lparr>ci_status := MERGED, ci_retired_reason := None, ci_merged_into := Some (ci_bc_id target)\<rparr>)"
        using s sid by (simp add: row ch kept_def)
      have t': "row_at st' p tid = Some (target\<lparr>ci_fingerprint := ci_fingerprint source\<rparr>)"
        using t(2,3) tid by (simp add: row ch kept_def)
      have "correction_compute p c rows' st' = (Inr None, (st', []))"
        using False s' t' t(1,3,4) by (simp add: correction_compute_def D' absorb_def)
      with l' wrote(7) False show ?thesis by (simp add: apply_correction_def)
    next
      case True
      obtain x tr where "split_rows source c (traced_allocate p) (ensure_registry p (wo_store w), []) = (x, tr)" by (metis prod.exhaust)
      with wrote(2) s True have "split_rows source c (traced_allocate p) (ensure_registry p (wo_store w), []) = (Inr changed, (st1, ids))"
        by (cases x) (simp_all add: correction_compute_def D1)
      then obtain new where ne: "ic_partition c \<noteq> []" and
        ch: "changed = [source\<lparr>ci_fingerprint := mk_fingerprint (kept_tiers source (ic_partition c)) (fp_collected (ci_fingerprint source))\<rparr>, new]"
        by (rule split_wrote)
      have s': "row_at st' p (ic_source_bc_id c) = Some (source\<lparr>ci_fingerprint :=
          mk_fingerprint (kept_tiers source (ic_partition c)) (fp_collected (ci_fingerprint source))\<rparr>)"
        using s sid by (simp add: row ch kept_def)
      have "\<exists>m. correction_compute p c rows' st' = (Inl (ValueError m), (st', []))"
        using True s' ne unmatched_after_split [OF ne] apply_ensured [OF wrote(3)]
        by (simp add: correction_compute_def D' split_rows_def Let_def)
      with l' True show ?thesis by (auto simp: apply_correction_def)
    qed
  qed
qed

definition ex_correct :: "correction_op \<Rightarrow> string \<Rightarrow> string option \<Rightarrow> string list \<Rightarrow> identity_correction" where
  "ex_correct op source target members = \<lparr>ic_operation = op, ic_approved_by = ''ann'', ic_reason = ''same'',
     ic_source_bc_id = source, ic_target_bc_id = target, ic_partition = members\<rparr>"

section \<open>Two steps to the live head\<close>

definition ex_three :: identity_store where
  "ex_three = snd (discover_lock ex_num ''shop'' ''r1'' [ex_cart, ex_pay, ex_ship] empty_store)"

definition ex_chain :: identity_store where
  "ex_chain = snd (apply_correction ''shop'' (ex_correct MERGE ''BC-002'' (Some ''BC-003'') [])
     (snd (apply_correction ''shop'' (ex_correct MERGE ''BC-001'' (Some ''BC-002'') []) ex_three)))"

text \<open>
  Two accepted merges leave a merged row that points at another merged row: the walk to the live head takes
  two steps, not one.
\<close>

theorem chain_of_two:
  "map (\<lambda>r. (ci_bc_id r, ci_status r, ci_merged_into r)) (project_rows ex_chain ''shop'') =
     [(''BC-001'', MERGED, Some ''BC-002''), (''BC-002'', MERGED, Some ''BC-003''), (''BC-003'', ACTIVE, None)]
   \<and> live_head ''BC-001'' (dict_of (map (\<lambda>r. (ci_bc_id r, r)) (project_rows ex_chain ''shop''))) = ''BC-003''"
  by code_simp

end
