(* ===== verification/Graph_Store.thy ===== *)
theory Graph_Store
  imports Graph_Model
begin

text \<open>
  Graph text and the content-addressed graph store: \<open>graph/io.py\<close> and the graph part of
  \<open>graph/store.py\<close>. The YAML library, pydantic's construction of a graph from parsed data and SHA-256
  are parameters, a record passed to every operation. The store directory is a map from relative
  paths to file contents, where a file that is not UTF-8 text is a case of its own: reading one
  raises \<open>UnicodeDecodeError\<close>, which none of the handlers catches. Whether \<open>os.replace\<close> succeeds on a
  path is a parameter too, since the code handles its failure.
\<close>

section \<open>Graph text\<close>

record codec =
  cd_yaml_load :: "string \<Rightarrow> string + json"
  cd_yaml_dump :: "json \<Rightarrow> string"
  cd_model_validate :: "json \<Rightarrow> string + pipeline_graph"
  cd_sha256 :: "string \<Rightarrow> string"

datatype graph_schema_error =
    Not_Yaml string
  | Not_A_Mapping
  | Unsupported_Version "json option"
  | Shape_Failure string

definition graph_document :: "pipeline_graph \<Rightarrow> json" where
  "graph_document g = JObj [
     (''schema_version'', JInt 1),
     (''nodes'', JList (map node_json (pg_nodes g))),
     (''edges'', JList (map edge_json (pg_edges g)))]"

definition to_yaml :: "codec \<Rightarrow> pipeline_graph \<Rightarrow> string" where
  "to_yaml cd g = cd_yaml_dump cd (graph_document g)"

definition from_yaml :: "codec \<Rightarrow> string \<Rightarrow> graph_schema_error + pipeline_graph" where
  "from_yaml cd body =
     (case cd_yaml_load cd body of
        Inl e \<Rightarrow> Inl (Not_Yaml e)
      | Inr (JObj kvs) \<Rightarrow>
          if dict_get kvs ''schema_version'' \<noteq> Some (JInt 1)
          then Inl (Unsupported_Version (dict_get kvs ''schema_version''))
          else (case cd_model_validate cd (JObj kvs) of Inl e \<Rightarrow> Inl (Shape_Failure e) | Inr g \<Rightarrow> Inr g)
      | Inr _ \<Rightarrow> Inl Not_A_Mapping)"

abbreviation sha_of :: "codec \<Rightarrow> pipeline_graph \<Rightarrow> string" where
  "sha_of cd g \<equiv> content_sha (cd_sha256 cd) g"

abbreviation doc_of :: "codec \<Rightarrow> pipeline_graph \<Rightarrow> string" where
  "doc_of cd g \<equiv> document_sha (cd_sha256 cd) g"

section \<open>The store\<close>

datatype content = Text string | Not_Utf8

type_synonym files = "string \<rightharpoonup> content"

datatype store_error =
    Not_A_Graph_Sha string
  | Schema_Error graph_schema_error
  | Store_Corrupt string
  | Replace_Failed string
  | Unicode_Decode_Error string
  | Type_Error

text \<open>\<open>path.read_text(encoding="utf-8")\<close>, with an \<open>OSError\<close> (no such file) as \<open>None\<close>.\<close>

definition read_text :: "files \<Rightarrow> string \<Rightarrow> store_error + string option" where
  "read_text fs path =
     (case fs path of
        None \<Rightarrow> Inr None
      | Some Not_Utf8 \<Rightarrow> Inl (Unicode_Decode_Error path)
      | Some (Text body) \<Rightarrow> Inr (Some body))"

text \<open>\<open>_SHA = [0-9a-f]{64}\<close>, matched in full.\<close>

definition hex_char :: "char \<Rightarrow> bool" where
  "hex_char c \<longleftrightarrow> is_digit c \<or> (97 \<le> (of_char c :: nat) \<and> (of_char c :: nat) \<le> 102)"

definition sha_shape :: "string \<Rightarrow> bool" where
  "sha_shape s \<longleftrightarrow> length s = 64 \<and> list_all hex_char s"

text \<open>The path of the identity file checks the shape of the hash.\<close>

definition identity_file :: "string \<Rightarrow> string" where
  "identity_file sha = sha @ ''.yaml''"

definition path_of :: "string \<Rightarrow> store_error + string" where
  "path_of sha = (if sha_shape sha then Inr (identity_file sha) else Inl (Not_A_Graph_Sha sha))"

definition layout_path :: "string \<Rightarrow> string \<Rightarrow> string" where
  "layout_path sha doc = sha @ ''/layouts/'' @ doc @ ''.yaml''"

definition latest_path :: "string \<Rightarrow> string" where
  "latest_path sha = sha @ ''/latest''"

definition verifies :: "codec \<Rightarrow> files \<Rightarrow> string \<Rightarrow> string \<Rightarrow> store_error + bool" where
  "verifies cd fs path sha =
     (case read_text fs path of
        Inl e \<Rightarrow> Inl e
      | Inr None \<Rightarrow> Inr False
      | Inr (Some body) \<Rightarrow>
          (case from_yaml cd body of Inl _ \<Rightarrow> Inr False | Inr g \<Rightarrow> Inr (sha_of cd g = sha)))"

text \<open>
  \<open>_atomic_replace\<close> retries and then gives up with a log line, never an exception: the file is
  then as it was.
\<close>

definition atomic_replace :: "(string \<Rightarrow> bool) \<Rightarrow> string \<Rightarrow> string \<Rightarrow> files \<Rightarrow> files" where
  "atomic_replace replaces path data fs = (if replaces path then fs(path \<mapsto> Text data) else fs)"

definition read_layout :: "codec \<Rightarrow> files \<Rightarrow> string \<Rightarrow> string \<Rightarrow> store_error + pipeline_graph option" where
  "read_layout cd fs doc sha =
     (case read_text fs (layout_path sha doc) of
        Inl e \<Rightarrow> Inl e
      | Inr None \<Rightarrow> Inr None
      | Inr (Some body) \<Rightarrow>
          (case from_yaml cd body of
             Inl _ \<Rightarrow> Inr None
           | Inr g \<Rightarrow> if doc_of cd g \<noteq> doc \<or> sha_of cd g \<noteq> sha then Inr None else Inr (Some g)))"

definition put_layout ::
    "codec \<Rightarrow> (string \<Rightarrow> bool) \<Rightarrow> pipeline_graph \<Rightarrow> string \<Rightarrow> string \<Rightarrow> files \<Rightarrow> store_error + files" where
  "put_layout cd replaces g sha body fs =
     (case read_layout cd fs (doc_of cd g) sha of
        Inl e \<Rightarrow> Inl e
      | Inr (Some _) \<Rightarrow> Inr fs
      | Inr None \<Rightarrow> Inr (atomic_replace replaces (layout_path sha (doc_of cd g)) body fs))"

text \<open>
  \<open>put\<close>. After a failed replacement the code reads the target once more, in case a concurrent
  writer has stored the same graph; here nobody else writes in between.
\<close>

definition put_identity ::
    "codec \<Rightarrow> (string \<Rightarrow> bool) \<Rightarrow> string \<Rightarrow> string \<Rightarrow> files \<Rightarrow> (store_error + string) \<times> files" where
  "put_identity cd replaces sha body fs =
     (case path_of sha of
        Inl e \<Rightarrow> (Inl e, fs)
      | Inr target \<Rightarrow>
          (case verifies cd fs target sha of
             Inl e \<Rightarrow> (Inl e, fs)
           | Inr True \<Rightarrow> (Inr sha, fs)
           | Inr False \<Rightarrow>
               if replaces target then (Inr sha, fs(target \<mapsto> Text body)) else (Inl (Replace_Failed target), fs)))"

definition put :: "codec \<Rightarrow> (string \<Rightarrow> bool) \<Rightarrow> pipeline_graph \<Rightarrow> files \<Rightarrow> (store_error + string) \<times> files" where
  "put cd replaces g fs =
     (let sha = sha_of cd g; body = to_yaml cd g in
      case from_yaml cd body of
        Inl e \<Rightarrow> (Inl (Schema_Error e), fs)
      | Inr g' \<Rightarrow>
          if sha_of cd g' \<noteq> sha then (Inl (Store_Corrupt sha), fs)
          else (case put_layout cd replaces g sha body fs of
                  Inl e \<Rightarrow> (Inl e, fs)
                | Inr fs1 \<Rightarrow> put_identity cd replaces sha body fs1))"

definition save :: "codec \<Rightarrow> (string \<Rightarrow> bool) \<Rightarrow> pipeline_graph \<Rightarrow> files \<Rightarrow> (store_error + string \<times> string) \<times> files" where
  "save cd replaces g fs =
     (case put cd replaces g fs of
        (Inl e, fs1) \<Rightarrow> (Inl e, fs1)
      | (Inr sha, fs1) \<Rightarrow>
          (Inr (sha, doc_of cd g), atomic_replace replaces (latest_path sha) (doc_of cd g @ [CHR 0x0A]) fs1))"

text \<open>\<open>str.strip\<close>, on the characters of the model.\<close>

definition is_space :: "char \<Rightarrow> bool" where
  "is_space c \<longleftrightarrow> (of_char c :: nat) \<in> {9, 10, 11, 12, 13, 28, 29, 30, 31, 32}"

definition strip :: "string \<Rightarrow> string" where
  "strip s = rev (dropWhile is_space (rev (dropWhile is_space s)))"

definition latest_layout :: "codec \<Rightarrow> files \<Rightarrow> string \<Rightarrow> store_error + pipeline_graph option" where
  "latest_layout cd fs sha =
     (case read_text fs (latest_path sha) of
        Inl e \<Rightarrow> Inl e
      | Inr None \<Rightarrow> Inr None
      | Inr (Some body) \<Rightarrow> if \<not> sha_shape (strip body) then Inr None else read_layout cd fs (strip body) sha)"

definition get_identity :: "codec \<Rightarrow> string \<Rightarrow> string \<Rightarrow> files \<Rightarrow> store_error + pipeline_graph option" where
  "get_identity cd path sha fs =
     (case read_text fs path of
        Inl e \<Rightarrow> Inl e
      | Inr None \<Rightarrow> Inr None
      | Inr (Some body) \<Rightarrow>
          (case from_yaml cd body of
             Inl _ \<Rightarrow> Inl (Store_Corrupt path)
           | Inr g \<Rightarrow> if sha_of cd g \<noteq> sha then Inl (Store_Corrupt path) else Inr (Some g)))"

definition get :: "codec \<Rightarrow> string \<Rightarrow> string option \<Rightarrow> files \<Rightarrow> store_error + pipeline_graph option" where
  "get cd sha layout fs =
     (case path_of sha of
        Inl e \<Rightarrow> Inl e
      | Inr identity \<Rightarrow>
          (case layout of
             Some l \<Rightarrow> if \<not> sha_shape l then Inr None else read_layout cd fs l sha
           | None \<Rightarrow>
               (case latest_layout cd fs sha of
                  Inl e \<Rightarrow> Inl e
                | Inr (Some g) \<Rightarrow> Inr (Some g)
                | Inr None \<Rightarrow> get_identity cd identity sha fs)))"

section \<open>Lemmas\<close>

lemma read_layout_ok: "read_layout cd fs doc sha = Inr (Some g) \<Longrightarrow> doc_of cd g = doc \<and> sha_of cd g = sha"
  by (auto simp: read_layout_def split: option.splits sum.splits if_splits)

lemma latest_layout_ok: "latest_layout cd fs sha = Inr (Some g) \<Longrightarrow> sha_of cd g = sha"
  by (auto simp: latest_layout_def split: option.splits sum.splits if_splits dest: read_layout_ok)

lemma get_identity_ok: "get_identity cd path sha fs = Inr (Some g) \<Longrightarrow> sha_of cd g = sha"
  by (auto simp: get_identity_def split: option.splits sum.splits if_splits)

lemma paths_of_one [simp]:
  "identity_file sha \<noteq> layout_path sha d" "layout_path sha d \<noteq> identity_file sha"
  "latest_path sha \<noteq> layout_path sha d" "layout_path sha d \<noteq> latest_path sha"
  "latest_path sha \<noteq> identity_file sha" "identity_file sha \<noteq> latest_path sha"
  by (simp_all add: identity_file_def layout_path_def latest_path_def)

lemma read_layout_same:
  "fs' (layout_path sha doc) = fs (layout_path sha doc) \<Longrightarrow> read_layout cd fs' doc sha = read_layout cd fs doc sha"
  by (simp add: read_layout_def read_text_def)

lemma get_same:
  assumes "fs' (identity_file sha) = fs (identity_file sha)" "fs' (latest_path sha) = fs (latest_path sha)"
    and "\<And>doc. fs' (layout_path sha doc) = fs (layout_path sha doc)"
  shows "get cd sha layout fs' = get cd sha layout fs"
proof -
  have lay: "read_layout cd fs' doc sha = read_layout cd fs doc sha" for doc
    using assms(3) by (rule read_layout_same)
  have latest: "latest_layout cd fs' sha = latest_layout cd fs sha"
    unfolding latest_layout_def lay read_text_def assms(2) by (rule refl)
  have ident: "get_identity cd (identity_file sha) sha fs' = get_identity cd (identity_file sha) sha fs"
    unfolding get_identity_def read_text_def assms(1) by (rule refl)
  show ?thesis unfolding get_def path_of_def lay latest by (auto simp: ident split: option.split sum.split)
qed

text \<open>What a put that succeeded has done.\<close>

lemma put_cases:
  assumes "put cd replaces g fs = (Inr sha, fs')"
  obtains g' fs1 where "sha = sha_of cd g" "sha_shape sha"
    "from_yaml cd (to_yaml cd g) = Inr g'" "sha_of cd g' = sha"
    "put_layout cd replaces g sha (to_yaml cd g) fs = Inr fs1"
    "fs' = fs1 \<and> verifies cd fs1 (identity_file sha) sha = Inr True \<or>
     fs' = fs1(identity_file sha \<mapsto> Text (to_yaml cd g))"
proof -
  obtain g' where g': "from_yaml cd (to_yaml cd g) = Inr g'" "sha_of cd g' = sha_of cd g"
    using assms by (auto simp: put_def Let_def split: sum.splits if_splits)
  obtain fs1 where lay: "put_layout cd replaces g (sha_of cd g) (to_yaml cd g) fs = Inr fs1"
    and pi: "put_identity cd replaces (sha_of cd g) (to_yaml cd g) fs1 = (Inr sha, fs')"
    using assms g' by (auto simp: put_def Let_def split: sum.splits)
  from pi have "sha = sha_of cd g" "sha_shape sha"
    "fs' = fs1 \<and> verifies cd fs1 (identity_file sha) sha = Inr True \<or> fs' = fs1(identity_file sha \<mapsto> Text (to_yaml cd g))"
    by (auto simp: put_identity_def path_of_def split: sum.splits if_splits bool.splits)
  with g' lay show thesis by (intro that [of g' fs1]) simp_all
qed

lemma save_cases:
  assumes "save cd replaces g fs = (Inr (sha, doc), fs')"
  obtains fs2 where "put cd replaces g fs = (Inr sha, fs2)" "doc = doc_of cd g"
    "fs' = atomic_replace replaces (latest_path sha) (doc_of cd g @ [CHR 0x0A]) fs2"
proof -
  obtain r fs2 where p: "put cd replaces g fs = (r, fs2)" by (cases "put cd replaces g fs")
  then obtain sha' where "r = Inr sha'" using assms by (cases r) (simp_all add: save_def)
  with p assms have "put cd replaces g fs = (Inr sha, fs2)" "doc = doc_of cd g"
    "fs' = atomic_replace replaces (latest_path sha) (doc_of cd g @ [CHR 0x0A]) fs2"
    by (auto simp: save_def)
  then show thesis by (rule that)
qed

lemma put_layout_frame:
  assumes "put_layout cd replaces g sha body fs = Inr fs1" "path \<noteq> layout_path sha (doc_of cd g)"
  shows "fs1 path = fs path"
  using assms by (auto simp: put_layout_def atomic_replace_def split: sum.splits option.splits if_splits)

lemma space_not_hex: "is_space c \<Longrightarrow> \<not> hex_char c"
  by (auto simp: is_space_def hex_char_def is_digit_def)

lemma strip_line: "sha_shape s \<Longrightarrow> strip (s @ [CHR 0x0A]) = s"
proof -
  assume s: "sha_shape s"
  then have ns: "\<forall>c \<in> set s. \<not> is_space c" using space_not_hex by (auto simp: sha_shape_def list_all_iff)
  have ne: "s \<noteq> []" using s by (auto simp: sha_shape_def)
  have "dropWhile is_space (s @ [CHR 0x0A]) = s @ [CHR 0x0A]" using ns ne by (cases s) auto
  moreover have "dropWhile is_space (rev s) = rev s"
    using ns ne by (metis dropWhile_eq_self_iff hd_in_set rev_is_Nil_conv set_rev)
  moreover have "is_space (CHR 0x0A)" by (simp add: is_space_def)
  ultimately show ?thesis by (simp add: strip_def)
qed

lemma paths_apart:
  assumes "length sha = length sha'" "sha \<noteq> sha'"
  shows "identity_file sha \<noteq> identity_file sha'" "identity_file sha \<noteq> layout_path sha' d" "identity_file sha \<noteq> latest_path sha'"
    "layout_path sha d \<noteq> layout_path sha' d'" "layout_path sha d \<noteq> latest_path sha'" "layout_path sha d \<noteq> identity_file sha'"
    "latest_path sha \<noteq> layout_path sha' d" "latest_path sha \<noteq> identity_file sha'"
  using assms by (simp_all add: identity_file_def layout_path_def latest_path_def)

lemma saved_layout:
  assumes "put_layout cd replaces g sha (to_yaml cd g) fs = Inr fs1" "replaces (layout_path sha doc)"
    and "from_yaml cd (to_yaml cd g) = Inr g" "sha = sha_of cd g" "doc = doc_of cd g"
    and "\<And>g'. read_layout cd fs doc sha = Inr (Some g') \<Longrightarrow> g' = g"
  shows "read_layout cd fs1 doc sha = Inr (Some g)"
proof -
  obtain l where l: "read_layout cd fs doc sha = Inr l"
    using assms(1,5) by (auto simp: put_layout_def split: sum.splits)
  show ?thesis
  proof (cases l)
    case None
    then have "fs1 (layout_path sha doc) = Some (Text (to_yaml cd g))"
      using l assms(1,2,5) by (auto simp: put_layout_def atomic_replace_def)
    with assms(3-5) show ?thesis by (simp add: read_layout_def read_text_def)
  next
    case (Some g')
    with l assms(1,5,6) show ?thesis by (simp add: put_layout_def)
  qed
qed

lemma put_frame:
  assumes "put cd replaces g fs = (Inr sha, fs')" "path \<noteq> identity_file sha" "path \<noteq> layout_path sha (doc_of cd g)"
  shows "fs' path = fs path"
proof -
  from assms(1) obtain g' fs1 where "put_layout cd replaces g sha (to_yaml cd g) fs = Inr fs1"
    and "fs' = fs1 \<and> verifies cd fs1 (identity_file sha) sha = Inr True \<or>
      fs' = fs1(identity_file sha \<mapsto> Text (to_yaml cd g))"
    by (rule put_cases)
  with assms(2) put_layout_frame [OF _ assms(3)] show ?thesis by auto
qed

lemma put_saves_layout:
  assumes "put cd (\<lambda>path. True) g fs = (Inr sha, fs')" "from_yaml cd (to_yaml cd g) = Inr g"
    and "\<And>g'. read_layout cd fs (doc_of cd g) sha = Inr (Some g') \<Longrightarrow> g' = g"
  shows "read_layout cd fs' (doc_of cd g) sha = Inr (Some g)"
proof -
  from assms(1) obtain g' fs1 where sha: "sha = sha_of cd g"
    and lay: "put_layout cd (\<lambda>path. True) g sha (to_yaml cd g) fs = Inr fs1"
    and fs2: "fs' = fs1 \<and> verifies cd fs1 (identity_file sha) sha = Inr True \<or>
      fs' = fs1(identity_file sha \<mapsto> Text (to_yaml cd g))"
    by (rule put_cases)
  have "read_layout cd fs1 (doc_of cd g) sha = Inr (Some g)"
    by (rule saved_layout [OF lay TrueI assms(2) sha refl assms(3)])
  moreover have "fs' (layout_path sha (doc_of cd g)) = fs1 (layout_path sha (doc_of cd g))"
    using fs2 by auto
  ultimately show ?thesis using read_layout_same by metis
qed

section \<open>Properties\<close>

text \<open>Saving a graph is a round trip. When the file replacements succeed, the graph's text parses
  back to the graph and the layout file of that document hash, if there already is one, holds the
  same graph, a get after a save returns the saved graph itself, cosmetics included, and so does a
  get that names the returned layout.\<close>

lemma save_get_roundtrip:
  assumes "save cd replaces g fs = (Inr (sha, doc), fs')" "replaces = (\<lambda>path. True)"
    and "from_yaml cd (to_yaml cd g) = Inr g" "sha_shape (doc_of cd g)"
    and "\<And>g'. read_layout cd fs doc sha = Inr (Some g') \<Longrightarrow> g' = g"
  shows "get cd sha None fs' = Inr (Some g) \<and> get cd sha (Some doc) fs' = Inr (Some g)"
proof -
  obtain fs2 where p: "put cd replaces g fs = (Inr sha, fs2)"
    and fs': "fs' = fs2(latest_path sha \<mapsto> Text (doc_of cd g @ [CHR 0x0A]))" and doc: "doc = doc_of cd g"
    using assms(1) by (rule save_cases) (simp add: assms(2) atomic_replace_def)
  have sha: "sha_shape sha" using p by (rule put_cases)
  have "read_layout cd fs2 doc sha = Inr (Some g)"
    unfolding doc by (rule put_saves_layout [OF p [unfolded assms(2)] assms(3)]) (use assms(5) doc in blast)
  then have lay': "read_layout cd fs' doc sha = Inr (Some g)"
    using read_layout_same [of fs' sha doc fs2] by (simp add: fs')
  have "latest_layout cd fs' sha = read_layout cd fs' doc sha"
    using assms(4) by (simp add: latest_layout_def read_text_def fs' strip_line doc)
  with lay' sha assms(4) show ?thesis by (simp add: get_def path_of_def doc)
qed

text \<open>A codec for the witnesses: every text is the text of the empty graph, every digest is zero.\<close>

definition empty_graph :: pipeline_graph where
  "empty_graph = \<lparr>pg_nodes = [], pg_edges = []\<rparr>"

definition zero_sha :: string where
  "zero_sha = replicate 64 (CHR ''0'')"

definition toy_codec :: codec where
  "toy_codec = \<lparr>cd_yaml_load = \<lambda>body. Inr (graph_document empty_graph), cd_yaml_dump = \<lambda>data. ''schema_version: 1'',
     cd_model_validate = \<lambda>data. Inr empty_graph, cd_sha256 = \<lambda>body. zero_sha\<rparr>"

lemma toy_shas [simp]: "sha_of toy_codec g = zero_sha" "doc_of toy_codec g = zero_sha" "sha_shape zero_sha"
  by (simp_all add: toy_codec_def content_sha_def document_sha_def sha_shape_def zero_sha_def list_all_iff hex_char_def is_digit_def)

lemma toy_parse [simp]: "from_yaml toy_codec body = Inr empty_graph"
  by (simp add: toy_codec_def from_yaml_def graph_document_def)

definition toy_files :: files where
  "toy_files = [layout_path zero_sha zero_sha \<mapsto> Text (to_yaml toy_codec empty_graph),
     identity_file zero_sha \<mapsto> Text (to_yaml toy_codec empty_graph)]"

lemma toy_put: "put toy_codec (\<lambda>path. True) empty_graph Map.empty = (Inr zero_sha, toy_files)"
  by (simp add: put_def Let_def put_layout_def read_layout_def read_text_def put_identity_def path_of_def verifies_def
      atomic_replace_def toy_files_def)

text \<open>The store never serves the wrong graph. Whatever the files hold, a get that returns a graph
  returns one whose content hash is the hash that was asked for, and whose document hash is the
  layout that was asked for.\<close>

lemma get_integrity:
  assumes "get cd sha layout fs = Inr (Some g)"
  shows "sha_of cd g = sha \<and> sha_shape sha \<and> (case layout of None \<Rightarrow> True | Some l \<Rightarrow> doc_of cd g = l)"
  using assms
  by (auto simp: get_def path_of_def split: if_splits option.splits sum.splits
      dest: read_layout_ok latest_layout_ok get_identity_ok)

text \<open>A put that succeeded is durable and local. A get of the returned hash then yields a graph
  with that content hash, whichever layout writes failed and whatever the store held before, as
  long as the latest hint and the layout it names are text; and a get of any other hash answers
  exactly as before.\<close>

lemma put_get:
  assumes "put cd replaces g fs = (Inr sha, fs')" "latest_layout cd fs' sha \<in> range Inr"
  shows "(\<exists>g'. get cd sha None fs' = Inr (Some g') \<and> sha_of cd g' = sha_of cd g) \<and>
    (\<forall>sha' layout. sha' \<noteq> sha \<longrightarrow> get cd sha' layout fs' = get cd sha' layout fs)"
proof -
  from assms(1) obtain g' fs1 where sha: "sha = sha_of cd g" "sha_shape sha"
    and g': "from_yaml cd (to_yaml cd g) = Inr g'" "sha_of cd g' = sha"
    and lay: "put_layout cd replaces g sha (to_yaml cd g) fs = Inr fs1"
    and fs': "fs' = fs1 \<and> verifies cd fs1 (identity_file sha) sha = Inr True \<or>
     fs' = fs1(identity_file sha \<mapsto> Text (to_yaml cd g))"
    by (rule put_cases)
  have "\<exists>g''. get_identity cd (identity_file sha) sha fs' = Inr (Some g'') \<and> sha_of cd g'' = sha"
    using fs' g' by (auto simp: verifies_def get_identity_def read_text_def [of "fs1(_ := _)"] split: sum.splits option.splits)
  moreover obtain l where "latest_layout cd fs' sha = Inr l" using assms(2) by blast
  ultimately have one: "\<exists>g'. get cd sha None fs' = Inr (Some g') \<and> sha_of cd g' = sha_of cd g"
    using latest_layout_ok [of cd fs' sha] sha by (cases l) (auto simp: get_def path_of_def)
  have "get cd sha' layout fs' = get cd sha' layout fs" if "sha' \<noteq> sha" for sha' layout
  proof (cases "sha_shape sha'")
    case True
    then have len: "length sha' = length sha" using sha(2) by (simp add: sha_shape_def)
    note ap = paths_apart [OF len that]
    with put_frame [OF assms(1)] ap show ?thesis by (intro get_same) auto
  qed (simp add: get_def path_of_def)
  with one show ?thesis by blast
qed

text \<open>
  The module comment says that a truncated or corrupt file is replaced rather than kept. A file cut
  inside a multi-byte character is not: reading it raises \<open>UnicodeDecodeError\<close>, which \<open>_verifies\<close>
  does not catch, so no put of that graph ever succeeds again.
\<close>

lemma torn_file_blocks_put:
  assumes "fs (identity_file (sha_of cd g)) = Some Not_Utf8"
  shows "put cd replaces g fs \<noteq> (Inr sha, fs')"
proof
  assume "put cd replaces g fs = (Inr sha, fs')"
  then obtain fs1 where lay: "put_layout cd replaces g (sha_of cd g) (to_yaml cd g) fs = Inr fs1"
    and pi: "put_identity cd replaces (sha_of cd g) (to_yaml cd g) fs1 = (Inr sha, fs')"
    by (auto simp: put_def Let_def split: sum.splits if_splits)
  have "fs1 (identity_file (sha_of cd g)) = Some Not_Utf8"
    using put_layout_frame [OF lay] assms by simp
  with pi show False
    by (auto simp: put_identity_def path_of_def verifies_def read_text_def split: sum.splits if_splits)
qed

end
