(* ===== verification/Graph_Records.thy ===== *)
theory Graph_Records
  imports Graph_Store Node_Types
begin

text \<open>
  The records beside a stored graph (\<open>graph/store.py\<close>): the registry snapshot under its own hash,
  the per-run pointer, and the client start of a graph run (\<open>graph/start.py\<close>), which writes all
  three before the workflow starts. \<open>json.loads\<close>, pydantic's validation of a node type and of a
  role, and \<open>datetime.fromisoformat\<close> are parameters; a datetime is carried as its ISO text.
\<close>

section \<open>Parsing and printing\<close>

record records_codec =
  rk_loads :: "string \<Rightarrow> string + json"
  rk_validate_spec :: "json \<Rightarrow> string + node_type_spec"
  rk_validate_role :: "json \<Rightarrow> string + role_config"
  rk_fromisoformat :: "string \<Rightarrow> string option"
  rk_repr :: "json \<Rightarrow> string"

text \<open>What \<open>json.loads\<close> gives back for a printed document: the printer has sorted the keys.\<close>

fun sort_json :: "json \<Rightarrow> json" where
  "sort_json (JList xs) = JList (map sort_json xs)"
| "sort_json (JObj kvs) = JObj (sort_key fst (map (\<lambda>(k, v). (k, sort_json v)) kvs))"
| "sort_json j = j"

definition json_opt :: "('a \<Rightarrow> json) \<Rightarrow> 'a option \<Rightarrow> json" where
  "json_opt f v = (case v of None \<Rightarrow> JNull | Some x \<Rightarrow> f x)"

text \<open>\<open>str(x)\<close>; the \<open>repr\<close> of a container is a parameter.\<close>

definition py_str :: "records_codec \<Rightarrow> json \<Rightarrow> string" where
  "py_str rk j =
     (case j of
        JNull \<Rightarrow> ''None''
      | JBool b \<Rightarrow> if b then ''True'' else ''False''
      | JInt i \<Rightarrow> int_str i
      | JFloat f \<Rightarrow> f
      | JStr s \<Rightarrow> s
      | _ \<Rightarrow> rk_repr rk j)"

section \<open>Registry snapshots\<close>

fun direction_value :: "direction \<Rightarrow> string" where
  "direction_value In = ''in''" | "direction_value Out = ''out''"

fun multiplicity_value :: "multiplicity \<Rightarrow> string" where
  "multiplicity_value One = ''one''" | "multiplicity_value Many = ''many''"

fun terminal_value :: "terminal \<Rightarrow> string" where
  "terminal_value TRejected = ''rejected''" | "terminal_value TFailed = ''failed''"

fun node_kind_value :: "node_kind \<Rightarrow> string" where
  "node_kind_value Stage = ''stage''" | "node_kind_value Gate = ''gate''"

fun budget_value :: "budget_mode \<Rightarrow> string" where
  "budget_value BNone = ''none''" | "budget_value Continuing = ''continuing''" | "budget_value Exiting = ''exiting''"

text \<open>\<open>model_dump(mode="json")\<close> of a port and of a node type: every field, defaults included.\<close>

definition port_dump :: "node_port \<Rightarrow> json" where
  "port_dump p = JObj [
     (''name'', JStr (np_name p)), (''direction'', JStr (direction_value (np_direction p))),
     (''payload'', json_opt JStr (np_payload p)), (''required'', JBool (np_required p)),
     (''multiplicity'', JStr (multiplicity_value (np_multiplicity p))),
     (''terminal'', json_opt (JStr \<circ> terminal_value) (np_terminal p))]"

definition spec_dump :: "node_type_spec \<Rightarrow> json" where
  "spec_dump s = JObj [
     (''type'', JStr (nt_type s)), (''kind'', JStr (node_kind_value (nt_kind s))),
     (''role'', json_opt JStr (nt_role s)), (''canonical_stage'', json_opt JStr (nt_canonical_stage s)),
     (''ports'', JList (map port_dump (nt_ports s))), (''budget_after'', JStr (budget_value (nt_budget_after s)))]"

definition snapshot_document :: "registry \<Rightarrow> json" where
  "snapshot_document registry = JObj [
     (''schema'', JInt 1),
     (''node_types'', JList (map (\<lambda>key. spec_dump (dict_at registry key)) (sort (dict_keys registry))))]"

definition snapshot_registry :: "registry \<Rightarrow> string" where
  "snapshot_registry registry = dumps (snapshot_document registry)"

definition registry_sha :: "codec \<Rightarrow> registry \<Rightarrow> string" where
  "registry_sha cd registry = cd_sha256 cd (snapshot_registry registry)"

fun load_specs :: "records_codec \<Rightarrow> json list \<Rightarrow> registry \<Rightarrow> registry option" where
  "load_specs rk [] specs = Some specs"
| "load_specs rk (entry # entries) specs =
     (case rk_validate_spec rk entry of
        Inl _ \<Rightarrow> None
      | Inr spec \<Rightarrow>
          if nt_type spec \<in> set (dict_keys specs) then None
          else load_specs rk entries (specs @ [(nt_type spec, spec)]))"

text \<open>\<open>isinstance(schema, bool)\<close> is excluded before the comparison with 1, so the schema is the integer.\<close>

definition load_registry :: "records_codec \<Rightarrow> string \<Rightarrow> registry option" where
  "load_registry rk document =
     (case rk_loads rk document of
        Inr (JObj doc) \<Rightarrow>
          if set (dict_keys doc) \<noteq> {''schema'', ''node_types''} then None
          else if dict_get doc ''schema'' \<noteq> Some (JInt 1) then None
          else (case dict_get doc ''node_types'' of
                  Some (JList entries) \<Rightarrow> load_specs rk entries []
                | _ \<Rightarrow> None)
      | _ \<Rightarrow> None)"

definition registry_path :: "string \<Rightarrow> string" where
  "registry_path sha = ''registry/'' @ sha @ ''.json''"

definition put_registry :: "codec \<Rightarrow> (string \<Rightarrow> bool) \<Rightarrow> registry \<Rightarrow> files \<Rightarrow> (store_error + string) \<times> files" where
  "put_registry cd replaces registry fs =
     (let sha = registry_sha cd registry; path = registry_path sha in
      case read_text fs path of
        Inl e \<Rightarrow> (Inl e, fs)
      | Inr held \<Rightarrow>
          if (case held of None \<Rightarrow> False | Some body \<Rightarrow> cd_sha256 cd body = sha) then (Inr sha, fs)
          else (Inr sha, atomic_replace replaces path (snapshot_registry registry) fs))"

definition get_registry :: "codec \<Rightarrow> records_codec \<Rightarrow> string \<Rightarrow> files \<Rightarrow> store_error + registry option" where
  "get_registry cd rk sha fs =
     (if \<not> sha_shape sha then Inr None
      else case read_text fs (registry_path sha) of
             Inl e \<Rightarrow> Inl e
           | Inr None \<Rightarrow> Inr None
           | Inr (Some body) \<Rightarrow> if cd_sha256 cd body \<noteq> sha then Inr None else Inr (load_registry rk body))"

section \<open>Run pointers\<close>

definition run_id_char :: "char \<Rightarrow> bool" where
  "run_id_char c \<longleftrightarrow> is_digit c \<or> lower c \<or> (65 \<le> (of_char c :: nat) \<and> (of_char c :: nat) \<le> 90) \<or>
     c \<in> {CHR ''.'', CHR ''_'', CHR ''-''}"

definition safe_run_id :: "string \<Rightarrow> bool" where
  "safe_run_id run_id \<longleftrightarrow>
     list_all run_id_char run_id \<and> 1 \<le> length run_id \<and> length run_id \<le> 200 \<and>
     run_id \<noteq> ''.'' \<and> run_id \<noteq> ''..'' \<and> (case run_id of c # _ \<Rightarrow> c \<noteq> CHR ''.'' | [] \<Rightarrow> True)"

record run_graph_pointer =
  rp_run_id :: string
  rp_graph_sha :: string
  rp_layout_sha :: string
  rp_registry_sha :: "string option"
  rp_roles :: "(string, role_config) dict"
  rp_started_at :: string

definition role_dump :: "role_config \<Rightarrow> json" where
  "role_dump r = JObj [
     (''kind'', JStr (role_kind_value (rc_kind r))),
     (''harness'', json_opt (JStr \<circ> harness_value) (rc_harness r)),
     (''model'', json_opt JStr (rc_model r)),
     (''layout'', json_opt JStr (rc_layout r)),
     (''lead_harness'', json_opt (JStr \<circ> harness_value) (rc_lead_harness r)),
     (''provider'', json_opt (JStr \<circ> provider_value) (rc_provider r)),
     (''tool_files'', json_strs (rc_tool_files r)),
     (''instructions'', json_opt JStr (rc_instructions r)),
     (''context_budget_tokens'', JInt (rc_context_budget_tokens r)),
     (''extra_args'', json_strs (rc_extra_args r)),
     (''activity_timeout_hours'', json_opt JInt (rc_activity_timeout_hours r)),
     (''activity_heartbeat_minutes'', json_opt JInt (rc_activity_heartbeat_minutes r))]"

definition pointer_document :: "run_graph_pointer \<Rightarrow> json" where
  "pointer_document p = JObj [
     (''schema'', JInt 1),
     (''run_id'', JStr (rp_run_id p)),
     (''graph_sha'', JStr (rp_graph_sha p)),
     (''layout_sha'', JStr (rp_layout_sha p)),
     (''registry_sha'', json_opt JStr (rp_registry_sha p)),
     (''roles'', JObj (map (\<lambda>(name, role). (name, role_dump role)) (rp_roles p))),
     (''started_at'', JStr (rp_started_at p))]"

definition to_json :: "run_graph_pointer \<Rightarrow> string" where
  "to_json p = dumps (pointer_document p)"

text \<open>\<open>_SHA.fullmatch(x)\<close> on a parsed value: anything but a string is a \<open>TypeError\<close>.\<close>

definition sha_match :: "json \<Rightarrow> store_error + bool" where
  "sha_match j = (case j of JStr s \<Rightarrow> Inr (sha_shape s) | _ \<Rightarrow> Inl Type_Error)"

fun load_roles :: "records_codec \<Rightarrow> (string \<times> json) list \<Rightarrow> (string, role_config) dict option" where
  "load_roles rk [] = Some []"
| "load_roles rk ((name, value) # items) =
     (case rk_validate_role rk value of
        Inl _ \<Rightarrow> None
      | Inr role \<Rightarrow> map_option (Cons (name, role)) (load_roles rk items))"

definition POINTER_KEYS :: "string set" where
  "POINTER_KEYS = {''schema'', ''run_id'', ''graph_sha'', ''layout_sha'', ''registry_sha'', ''roles'', ''started_at''}"

definition str_of :: "json \<Rightarrow> string" where
  "str_of j = (case j of JStr s \<Rightarrow> s | _ \<Rightarrow> '''')"

text \<open>The last steps of \<open>from_json\<close>, once both hashes have matched.\<close>

definition from_json_rest ::
    "records_codec \<Rightarrow> (string, json) dict \<Rightarrow> string option \<Rightarrow> run_graph_pointer option" where
  "from_json_rest rk doc reg =
     (case dict_at doc ''roles'' of
        JObj roles_in \<Rightarrow>
          (case load_roles rk roles_in of
             None \<Rightarrow> None
           | Some roles \<Rightarrow>
               (case rk_fromisoformat rk (py_str rk (dict_at doc ''started_at'')) of
                  None \<Rightarrow> None
                | Some started \<Rightarrow>
                    Some \<lparr>rp_run_id = py_str rk (dict_at doc ''run_id''),
                      rp_graph_sha = str_of (dict_at doc ''graph_sha''), rp_layout_sha = str_of (dict_at doc ''layout_sha''),
                      rp_registry_sha = reg, rp_roles = roles, rp_started_at = started\<rparr>))
      | _ \<Rightarrow> None)"

definition from_json :: "records_codec \<Rightarrow> string \<Rightarrow> store_error + run_graph_pointer option" where
  "from_json rk document =
     (case rk_loads rk document of
        Inr (JObj doc) \<Rightarrow>
          if set (dict_keys doc) \<noteq> POINTER_KEYS then Inr None
          else if dict_at doc ''schema'' \<noteq> JInt 1 then Inr None
          else (case sha_match (dict_at doc ''graph_sha'') of
              Inl e \<Rightarrow> Inl e
            | Inr False \<Rightarrow> Inr None
            | Inr True \<Rightarrow>
                (case sha_match (dict_at doc ''layout_sha'') of
                   Inl e \<Rightarrow> Inl e
                 | Inr False \<Rightarrow> Inr None
                 | Inr True \<Rightarrow>
                     (case dict_at doc ''registry_sha'' of
                        JNull \<Rightarrow> Inr (from_json_rest rk doc None)
                      | reg \<Rightarrow>
                          (case sha_match reg of
                             Inl e \<Rightarrow> Inl e
                           | Inr False \<Rightarrow> Inr None
                           | Inr True \<Rightarrow> Inr (from_json_rest rk doc (Some (str_of reg)))))))
      | _ \<Rightarrow> Inr None)"

definition pointer_path :: "string \<Rightarrow> string" where
  "pointer_path run_id = ''runs/'' @ run_id @ ''.json''"

definition put_pointer :: "(string \<Rightarrow> bool) \<Rightarrow> run_graph_pointer \<Rightarrow> files \<Rightarrow> files" where
  "put_pointer replaces p fs =
     (if \<not> safe_run_id (rp_run_id p) then fs
      else atomic_replace replaces (pointer_path (rp_run_id p)) (to_json p) fs)"

definition get_pointer :: "records_codec \<Rightarrow> string \<Rightarrow> files \<Rightarrow> store_error + run_graph_pointer option" where
  "get_pointer rk run_id fs =
     (if \<not> safe_run_id run_id then Inr None
      else case read_text fs (pointer_path run_id) of
             Inl e \<Rightarrow> Inl e
           | Inr None \<Rightarrow> Inr None
           | Inr (Some body) \<Rightarrow> from_json rk body)"

section \<open>Starting a run\<close>

text \<open>
  \<open>start_graph_run\<close>: every write is guarded, so a failed one leaves what it had written and the
  next one is tried; the registry hash is recorded as missing when its write raised. Afterwards the
  client starts the workflow with the unchanged input.
\<close>

definition start_graph_run ::
    "codec \<Rightarrow> (string \<Rightarrow> bool) \<Rightarrow> registry \<Rightarrow> pipeline_graph \<Rightarrow> (string, role_config) dict \<Rightarrow> string \<Rightarrow> string \<Rightarrow> files \<Rightarrow> files" where
  "start_graph_run cd replaces registry g roles run_id now fs =
     (let fs1 = snd (put cd replaces g fs);
          (r, fs2) = put_registry cd replaces registry fs1;
          registry_sha = (case r of Inl _ \<Rightarrow> None | Inr sha \<Rightarrow> Some sha)
      in put_pointer replaces
           \<lparr>rp_run_id = run_id, rp_graph_sha = sha_of cd g, rp_layout_sha = doc_of cd g,
            rp_registry_sha = registry_sha, rp_roles = roles, rp_started_at = now\<rparr> fs2)"

section \<open>Lemmas\<close>

lemma map_fst_fields [simp]: "map fst (map (\<lambda>(k, v). (k, f v)) kvs) = map fst kvs"
  by (simp add: split_beta comp_def)

lemma map_of_sorted_fields:
  assumes "distinct (map fst kvs)"
  shows "map_of (sort_key fst (map (\<lambda>(k, v). (k, sort_json v)) kvs)) k = map_option sort_json (map_of kvs k)"
proof -
  have "map_of (sort_key fst (map (\<lambda>(k, v). (k, sort_json v)) kvs)) k = map_of (map (\<lambda>(k, v). (k, sort_json v)) kvs) k"
    using dict_get_dict_sorted [of "map (\<lambda>(k, v). (k, sort_json v)) kvs" k] assms
    by (simp only: dict_sorted_def map_fst_fields)
  then show ?thesis by (simp add: map_of_map)
qed

lemma keys_sorted_fields: "set (map fst (sort_key fst (map (\<lambda>(k, v). (k, f v)) kvs))) = set (map fst kvs)"
  by (auto simp: image_image split_beta)

lemma sort_key_map_snd: "sort_key fst (map (\<lambda>(k, v). (k, f v)) kvs) = map (\<lambda>(k, v). (k, f v)) (sort_key fst kvs)"
proof -
  have ins: "insort_key fst (k, f v) (map (\<lambda>(k, v). (k, f v)) xs) = map (\<lambda>(k, v). (k, f v)) (insort_key fst (k, v) xs)" for k v xs
    by (induction xs) auto
  show ?thesis by (induction kvs) (auto simp: ins)
qed

lemma load_roles_ok:
  assumes "\<And>name role. (name, role) \<in> set items \<Longrightarrow> rk_validate_role rk (f role) = Inr role"
  shows "load_roles rk (map (\<lambda>(name, role). (name, f role)) items) = Some items"
  using assms
proof (induction items)
  case (Cons x items)
  obtain name role where x: "x = (name, role)" by (cases x)
  have "rk_validate_role rk (f role) = Inr role" using Cons.prems [of name role] by (simp add: x)
  moreover have "load_roles rk (map (\<lambda>(name, role). (name, f role)) items) = Some items"
    by (rule Cons.IH, rule Cons.prems, erule list.set_intros(2))
  ultimately show ?case by (simp add: x)
qed simp

lemma load_specs_ok:
  assumes "\<And>k s. (k, s) \<in> set items \<Longrightarrow> rk_validate_spec rk (f s) = Inr s \<and> nt_type s = k"
    and "distinct (map fst (acc @ items))"
  shows "load_specs rk (map (\<lambda>(k, s). f s) items) acc = Some (acc @ items)"
  using assms
proof (induction items arbitrary: acc)
  case (Cons x items)
  obtain k s where x: "x = (k, s)" by (cases x)
  have "rk_validate_spec rk (f s) = Inr s" "nt_type s = k" using Cons.prems(1) [of k s] by (simp_all add: x)
  moreover have "k \<notin> set (map fst acc)" using Cons.prems(2) by (auto simp: x)
  moreover have "load_specs rk (map (\<lambda>(k, s). f s) items) (acc @ [(k, s)]) = Some ((acc @ [(k, s)]) @ items)"
  proof (rule Cons.IH)
    show "rk_validate_spec rk (f s') = Inr s' \<and> nt_type s' = k'" if "(k', s') \<in> set items" for k' s'
      by (rule Cons.prems(1)) (simp add: that)
    show "distinct (map fst ((acc @ [(k, s)]) @ items))"
      using Cons.prems(2) by (simp add: x)
  qed
  ultimately show ?case by (simp add: x)
qed simp

lemma sorted_specs:
  assumes "distinct (dict_keys registry)"
  shows "map (\<lambda>key. f (dict_at registry key)) (sort (dict_keys registry)) = map (\<lambda>(k, s). f s) (dict_sorted registry)"
proof -
  have keys: "sort (dict_keys registry) = map fst (dict_sorted registry)"
    by (rule properties_for_sort) (simp_all add: dict_sorted_def)
  have at: "dict_at registry (fst x) = snd x" if "x \<in> set (dict_sorted registry)" for x
    using map_of_is_SomeI [OF assms, of "fst x" "snd x"] that by (simp add: dict_at_def)
  show ?thesis unfolding keys map_map comp_def split_beta
    by (rule map_cong [OF refl]) (simp only: at)
qed

lemma registry_text:
  assumes "distinct (dict_keys registry)" "rk_loads rk (snapshot_registry registry) = Inr (sort_json (snapshot_document registry))"
    and "\<And>k s. (k, s) \<in> set registry \<Longrightarrow> rk_validate_spec rk (sort_json (spec_dump s)) = Inr s \<and> nt_type s = k"
  shows "load_registry rk (snapshot_registry registry) = Some (dict_sorted registry)"
proof -
  define entries where "entries = map sort_json (map (\<lambda>key. spec_dump (dict_at registry key)) (sort (dict_keys registry)))"
  have "entries = map (\<lambda>(k, s). sort_json (spec_dump s)) (dict_sorted registry)"
    using sorted_specs [OF assms(1), of "\<lambda>s. sort_json (spec_dump s)"] by (simp add: entries_def comp_def)
  moreover have "load_specs rk (map (\<lambda>(k, s). sort_json (spec_dump s)) (dict_sorted registry)) [] = Some ([] @ dict_sorted registry)"
    by (rule load_specs_ok) (use assms(1,3) in simp_all)
  ultimately have specs: "load_specs rk entries [] = Some (dict_sorted registry)" by simp
  let ?kvs = "[(''schema'', JInt 1), (''node_types'', JList (map (\<lambda>key. spec_dump (dict_at registry key)) (sort (dict_keys registry))))]"
  let ?doc = "sort_key fst (map (\<lambda>(k, v). (k, sort_json v)) ?kvs)"
  have kvs: "rk_loads rk (snapshot_registry registry) = Inr (JObj ?doc)"
    by (simp add: assms(2) snapshot_document_def)
  have "map_of ?doc k = map_option sort_json (map_of ?kvs k)" for k
    by (rule map_of_sorted_fields) simp
  then have "map_of ?doc ''schema'' = Some (JInt 1)" "map_of ?doc ''node_types'' = Some (JList entries)"
    by (simp_all add: entries_def)
  moreover have "set (map fst ?doc) = {''schema'', ''node_types''}"
    unfolding keys_sorted_fields by simp
  ultimately show ?thesis
    using specs unfolding load_registry_def kvs by (simp only: sum.case json.case if_False option.case simp_thms)
qed

lemma pointer_text:
  assumes "distinct (dict_keys (rp_roles p))" "sha_shape (rp_graph_sha p)" "sha_shape (rp_layout_sha p)"
    and "\<And>sha. rp_registry_sha p = Some sha \<Longrightarrow> sha_shape sha"
    and "rk_loads rk (to_json p) = Inr (sort_json (pointer_document p))"
    and "\<And>name role. (name, role) \<in> set (rp_roles p) \<Longrightarrow> rk_validate_role rk (sort_json (role_dump role)) = Inr role"
    and "rk_fromisoformat rk (rp_started_at p) = Some (rp_started_at p)"
  shows "from_json rk (to_json p) = Inr (Some (p\<lparr>rp_roles := dict_sorted (rp_roles p)\<rparr>))"
proof -
  let ?roles = "map (\<lambda>(name, role). (name, role_dump role)) (rp_roles p)"
  let ?kvs = "[(''schema'', JInt 1), (''run_id'', JStr (rp_run_id p)), (''graph_sha'', JStr (rp_graph_sha p)),
     (''layout_sha'', JStr (rp_layout_sha p)), (''registry_sha'', json_opt JStr (rp_registry_sha p)),
     (''roles'', JObj ?roles), (''started_at'', JStr (rp_started_at p))]"
  define doc where "doc = sort_key fst (map (\<lambda>(k, v). (k, sort_json v)) ?kvs)"
  have loads: "rk_loads rk (to_json p) = Inr (JObj doc)"
    by (simp add: assms(5) pointer_document_def doc_def)
  have "map_of doc k = map_option sort_json (map_of ?kvs k)" for k
    unfolding doc_def by (rule map_of_sorted_fields) simp
  then have fields: "dict_at doc ''schema'' = JInt 1" "dict_at doc ''run_id'' = JStr (rp_run_id p)"
    "dict_at doc ''graph_sha'' = JStr (rp_graph_sha p)" "dict_at doc ''layout_sha'' = JStr (rp_layout_sha p)"
    "dict_at doc ''registry_sha'' = json_opt JStr (rp_registry_sha p)"
    "dict_at doc ''roles'' = sort_json (JObj ?roles)" "dict_at doc ''started_at'' = JStr (rp_started_at p)"
    by (simp_all add: dict_at_def json_opt_def split: option.split)
  have keys: "set (map fst doc) = POINTER_KEYS"
    unfolding doc_def keys_sorted_fields POINTER_KEYS_def by simp
  have "sort_json (JObj ?roles) = JObj (map (\<lambda>(name, role). (name, sort_json (role_dump role))) (dict_sorted (rp_roles p)))"
  proof -
    have "map (\<lambda>(k, v). (k, sort_json v)) ?roles = map (\<lambda>(k, v). (k, sort_json (role_dump v))) (rp_roles p)" by auto
    then show ?thesis by (simp only: sort_json.simps sort_key_map_snd [of "\<lambda>role. sort_json (role_dump role)"] dict_sorted_def)
  qed
  moreover have "load_roles rk (map (\<lambda>(name, role). (name, sort_json (role_dump role))) (dict_sorted (rp_roles p))) = Some (dict_sorted (rp_roles p))"
    by (rule load_roles_ok) (use assms(6) in simp)
  ultimately have rest: "from_json_rest rk doc reg = Some (p\<lparr>rp_roles := dict_sorted (rp_roles p), rp_registry_sha := reg\<rparr>)" for reg
    using assms(7) by (simp add: from_json_rest_def fields py_str_def str_of_def)
  show ?thesis
    using assms(2-4) unfolding from_json_def loads
    by (cases "rp_registry_sha p") (simp_all add: keys fields sha_match_def json_opt_def rest str_of_def del: set_map)
qed

lemma registry_path_frame:
  "put_registry cd replaces registry fs = (r, fs') \<Longrightarrow> path \<noteq> registry_path (registry_sha cd registry) \<Longrightarrow> fs' path = fs path"
  by (auto simp: put_registry_def Let_def atomic_replace_def split: sum.splits if_splits)

lemma record_paths_apart [simp]:
  "sha_shape sha \<Longrightarrow> layout_path sha doc \<noteq> registry_path s" "sha_shape sha \<Longrightarrow> layout_path sha doc \<noteq> pointer_path i"
  "registry_path s \<noteq> pointer_path i" "sha_shape sha \<Longrightarrow> identity_file sha \<noteq> registry_path s"
  by (auto simp: layout_path_def registry_path_def pointer_path_def identity_file_def sha_shape_def hex_char_def is_digit_def
      Cons_eq_append_conv append_eq_Cons_conv)

text \<open>
  What the code relies on of its libraries for one graph, registry and pointer: printed text
  parses back, digests have the shape of a digest.
\<close>

definition faithful :: "codec \<Rightarrow> records_codec \<Rightarrow> pipeline_graph \<Rightarrow> registry \<Rightarrow> run_graph_pointer \<Rightarrow> bool" where
  "faithful cd rk g registry p \<longleftrightarrow>
     (\<forall>body. sha_shape (cd_sha256 cd body)) \<and> from_yaml cd (to_yaml cd g) = Inr g \<and>
     rk_loads rk (snapshot_registry registry) = Inr (sort_json (snapshot_document registry)) \<and>
     rk_loads rk (to_json p) = Inr (sort_json (pointer_document p)) \<and>
     rk_fromisoformat rk (rp_started_at p) = Some (rp_started_at p) \<and>
     (\<forall>(k, s) \<in> set registry. rk_validate_spec rk (sort_json (spec_dump s)) = Inr s) \<and>
     (\<forall>(n, r) \<in> set (rp_roles p). rk_validate_role rk (sort_json (role_dump r)) = Inr r)"

text \<open>No file of the store is torn, and none collides with what the start is about to write.\<close>

definition store_clean :: "codec \<Rightarrow> pipeline_graph \<Rightarrow> registry \<Rightarrow> files \<Rightarrow> bool" where
  "store_clean cd g registry fs \<longleftrightarrow>
     (\<forall>path. fs path \<noteq> Some Not_Utf8) \<and>
     (\<forall>g'. read_layout cd fs (doc_of cd g) (sha_of cd g) = Inr (Some g') \<longrightarrow> g' = g) \<and>
     (\<forall>body. fs (registry_path (registry_sha cd registry)) = Some (Text body) \<and>
        cd_sha256 cd body = registry_sha cd registry \<longrightarrow> body = snapshot_registry registry)"

lemma readable: "\<forall>path. fs path \<noteq> Some Not_Utf8 \<Longrightarrow> \<exists>body. read_text fs path = Inr body"
  by (auto simp: read_text_def split: option.splits content.splits)

lemma readable_layout: "\<forall>path. fs path \<noteq> Some Not_Utf8 \<Longrightarrow> \<exists>l. read_layout cd fs doc sha = Inr l"
  using readable [of fs "layout_path sha doc"] by (auto simp: read_layout_def split: option.splits sum.splits)

lemma readable_verifies: "\<forall>path. fs path \<noteq> Some Not_Utf8 \<Longrightarrow> \<exists>b. verifies cd fs path sha = Inr b"
  using readable [of fs path] by (auto simp: verifies_def split: option.splits sum.splits)

lemma clean_put:
  assumes "\<forall>path. fs path \<noteq> Some Not_Utf8" "sha_shape (sha_of cd g)" "from_yaml cd (to_yaml cd g) = Inr g"
  obtains fs' where "put cd (\<lambda>path. True) g fs = (Inr (sha_of cd g), fs')"
proof -
  obtain l where l: "read_layout cd fs (doc_of cd g) (sha_of cd g) = Inr l" using readable_layout [OF assms(1)] by blast
  obtain fs1 where fs1: "put_layout cd (\<lambda>path. True) g (sha_of cd g) (to_yaml cd g) fs = Inr fs1" "\<forall>path. fs1 path \<noteq> Some Not_Utf8"
    using l assms(1) by (cases l) (auto simp: put_layout_def atomic_replace_def)
  obtain b where "verifies cd fs1 (identity_file (sha_of cd g)) (sha_of cd g) = Inr b" using readable_verifies [OF fs1(2)] by blast
  then obtain fs' where "put_identity cd (\<lambda>path. True) (sha_of cd g) (to_yaml cd g) fs1 = (Inr (sha_of cd g), fs')"
    using assms(2) by (cases b) (simp_all add: put_identity_def path_of_def)
  with fs1(1) assms(3) show thesis by (intro that) (simp add: put_def)
qed

lemma clean_registry:
  assumes "put_registry cd (\<lambda>path. True) registry fs = (r, fs')" "fs (registry_path (registry_sha cd registry)) \<noteq> Some Not_Utf8"
    and "\<And>body. fs (registry_path (registry_sha cd registry)) = Some (Text body) \<Longrightarrow>
        cd_sha256 cd body = registry_sha cd registry \<Longrightarrow> body = snapshot_registry registry"
  shows "r = Inr (registry_sha cd registry) \<and>
    fs' (registry_path (registry_sha cd registry)) = Some (Text (snapshot_registry registry))"
  using assms by (auto simp: put_registry_def Let_def atomic_replace_def read_text_def split: option.splits content.splits if_splits)

section \<open>Property\<close>

text \<open>C40: a started run can be traced back. When the file replacements succeed, no file of the store is
  torn and the libraries parse what they print, then after \<open>start_graph_run\<close> the run's pointer
  reads back as written (its roles in key order), the layout it names reads back as the graph the
  run was started with, cosmetics included, and the snapshot it names reads back as the node-type
  registry in key order.\<close>

theorem start_pins_run:
  assumes "p = \<lparr>rp_run_id = run_id, rp_graph_sha = sha_of cd g, rp_layout_sha = doc_of cd g,
      rp_registry_sha = Some (registry_sha cd registry), rp_roles = roles, rp_started_at = now\<rparr>"
    and "faithful cd rk g registry p" "store_clean cd g registry fs" "safe_run_id run_id"
    and "distinct (dict_keys roles)" "distinct (dict_keys registry)" "\<forall>(k, s) \<in> set registry. nt_type s = k"
    and "fs' = start_graph_run cd (\<lambda>path. True) registry g roles run_id now fs"
  shows "get_pointer rk run_id fs' = Inr (Some (p\<lparr>rp_roles := dict_sorted roles\<rparr>)) \<and>
    get cd (rp_graph_sha p) (Some (rp_layout_sha p)) fs' = Inr (Some g) \<and>
    get_registry cd rk (registry_sha cd registry) fs' = Inr (Some (dict_sorted registry))"
proof -
  have f: "sha_shape (cd_sha256 cd body)" "from_yaml cd (to_yaml cd g) = Inr g" for body
    using assms(2) by (simp_all add: faithful_def)
  have sh: "sha_shape (sha_of cd g)" "sha_shape (doc_of cd g)" "sha_shape (registry_sha cd registry)"
    using f(1) by (simp_all add: content_sha_def document_sha_def registry_sha_def)
  have c: "\<forall>path. fs path \<noteq> Some Not_Utf8" "\<And>g'. read_layout cd fs (doc_of cd g) (sha_of cd g) = Inr (Some g') \<Longrightarrow> g' = g"
    "\<And>body. fs (registry_path (registry_sha cd registry)) = Some (Text body) \<Longrightarrow>
        cd_sha256 cd body = registry_sha cd registry \<Longrightarrow> body = snapshot_registry registry"
    using assms(3) by (simp_all add: store_clean_def)
  obtain fs1 where put: "put cd (\<lambda>path. True) g fs = (Inr (sha_of cd g), fs1)" by (rule clean_put [OF c(1) sh(1) f(2)])
  obtain r fs2 where reg: "put_registry cd (\<lambda>path. True) registry fs1 = (r, fs2)" by fastforce
  have held: "fs1 (registry_path (registry_sha cd registry)) = fs (registry_path (registry_sha cd registry))"
    using put_frame [OF put] record_paths_apart(1,4) [OF sh(1), symmetric] by blast
  have r: "r = Inr (registry_sha cd registry)" "fs2 (registry_path (registry_sha cd registry)) = Some (Text (snapshot_registry registry))"
    using clean_registry [OF reg] c(1,3) unfolding held by blast+
  have fs': "fs' = fs2(pointer_path run_id \<mapsto> Text (to_json p))"
    using assms(1,4) by (simp add: assms(8) start_graph_run_def put reg r put_pointer_def atomic_replace_def)
  have "from_json rk (to_json p) = Inr (Some (p\<lparr>rp_roles := dict_sorted (rp_roles p)\<rparr>))"
    by (rule pointer_text) (use assms(1,2,5) sh in \<open>auto simp: faithful_def\<close>)
  then have "get_pointer rk run_id fs' = Inr (Some (p\<lparr>rp_roles := dict_sorted roles\<rparr>))"
    using assms(4) by (simp add: get_pointer_def read_text_def fs' assms(1))
  moreover have "read_layout cd fs1 (doc_of cd g) (sha_of cd g) = Inr (Some g)"
    by (rule put_saves_layout [OF put f(2) c(2)])
  then have "read_layout cd fs' (doc_of cd g) (sha_of cd g) = Inr (Some g)"
    using read_layout_same [of fs' "sha_of cd g" "doc_of cd g" fs1] registry_path_frame [OF reg] sh(1) by (simp add: fs')
  then have "get cd (sha_of cd g) (Some (doc_of cd g)) fs' = Inr (Some g)"
    using sh by (simp add: get_def path_of_def)
  moreover have "load_registry rk (snapshot_registry registry) = Some (dict_sorted registry)"
    by (rule registry_text [OF assms(6)]) (use assms(2,7) in \<open>auto simp: faithful_def\<close>)
  then have "get_registry cd rk (registry_sha cd registry) fs' = Inr (Some (dict_sorted registry))"
    using sh(3) r(2) by (simp add: get_registry_def read_text_def fs' registry_sha_def)
  ultimately show ?thesis by (simp add: assms(1))
qed

text \<open>
  \<open>RunGraphPointer\<close> says that a pointer is never fatal to read. A pointer whose graph hash is not a
  string is: the regular expression raises \<open>TypeError\<close>.
\<close>

lemma pointer_type_error:
  assumes "rk_loads rk body = Inr (JObj doc)" "set (dict_keys doc) = POINTER_KEYS" "dict_at doc ''schema'' = JInt 1"
    and "dict_at doc ''graph_sha'' = JInt n"
  shows "from_json rk body = Inl Type_Error"
  using assms by (simp add: from_json_def sha_match_def)

definition toy_pointer :: run_graph_pointer where
  "toy_pointer = \<lparr>rp_run_id = ''run-1'', rp_graph_sha = zero_sha, rp_layout_sha = zero_sha,
     rp_registry_sha = Some zero_sha, rp_roles = [(''code'', default_role_config)], rp_started_at = ''2026-01-01T00:00:00+00:00''\<rparr>"

definition toy_spec :: node_type_spec where
  "toy_spec = gate_spec ''gate.plan'' ''Plan'' ''plan'' BNone"

definition toy_records :: records_codec where
  "toy_records = \<lparr>rk_loads = \<lambda>body. Inr (sort_json (if body = to_json toy_pointer then pointer_document toy_pointer
       else snapshot_document [(''gate.plan'', toy_spec)])),
     rk_validate_spec = \<lambda>data. Inr toy_spec, rk_validate_role = \<lambda>data. Inr default_role_config,
     rk_fromisoformat = Some, rk_repr = \<lambda>data. []\<rparr>"

lemma dict_sorted_single: "dict_sorted [x] = [x]"
  by (simp add: dict_sorted_def)

lemma set_str_join: "xs \<in> set xss \<Longrightarrow> set xs \<subseteq> set (str_join s xss)"
  by (induction s xss rule: str_join.induct) auto

lemma dumps_field: "(k, v) \<in> set kvs \<Longrightarrow> set (dumps v) \<subseteq> set (dumps (JObj kvs))"
proof -
  assume kv: "(k, v) \<in> set kvs"
  let ?fields = "sort_key fst (map (\<lambda>(k, v). (k, json_string k @ '':'' @ dumps v)) kvs)"
  have "(k, json_string k @ '':'' @ dumps v) \<in> set ?fields" using kv by force
  then have "json_string k @ '':'' @ dumps v \<in> set (map snd ?fields)" by force
  from set_str_join [OF this, of "'',''"] show ?thesis by auto
qed

lemma start_pins_run_witness:
  "\<exists>fs'. get_pointer toy_records ''run-1'' fs' = Inr (Some toy_pointer) \<and>
    get toy_codec zero_sha (Some zero_sha) fs' = Inr (Some empty_graph) \<and>
    get_registry toy_codec toy_records zero_sha fs' = Inr (Some [(''gate.plan'', toy_spec)])"
proof -
  have reg: "registry_sha toy_codec r = zero_sha" for r by (simp add: registry_sha_def toy_codec_def)
  have "CHR ''0'' \<in> set (to_json toy_pointer)"
    unfolding to_json_def pointer_document_def
    by (rule subsetD [OF dumps_field [of "''graph_sha''" "JStr zero_sha"]]) (simp_all add: toy_pointer_def json_string_def zero_sha_def json_escape_def)
  moreover have "CHR ''0'' \<notin> set (snapshot_registry [(''gate.plan'', toy_spec)])" by code_simp
  ultimately have ne: "snapshot_registry [(''gate.plan'', toy_spec)] \<noteq> to_json toy_pointer" by metis
  have shape: "\<forall>body. sha_shape (cd_sha256 toy_codec body)" by (simp add: toy_codec_def)
  have p: "toy_pointer = \<lparr>rp_run_id = ''run-1'', rp_graph_sha = sha_of toy_codec empty_graph, rp_layout_sha = doc_of toy_codec empty_graph,
     rp_registry_sha = Some (registry_sha toy_codec [(''gate.plan'', toy_spec)]), rp_roles = [(''code'', default_role_config)],
     rp_started_at = ''2026-01-01T00:00:00+00:00''\<rparr>"
    by (simp add: toy_pointer_def reg)
  have "rk_loads toy_records (to_json toy_pointer) = Inr (sort_json (pointer_document toy_pointer))"
    "rk_loads toy_records (snapshot_registry [(''gate.plan'', toy_spec)]) = Inr (sort_json (snapshot_document [(''gate.plan'', toy_spec)]))"
    unfolding toy_records_def records_codec.simps if_not_P [OF ne] if_P [OF refl] by (rule refl)+
  moreover have "rk_validate_spec toy_records data = Inr toy_spec" "rk_validate_role toy_records data = Inr default_role_config"
    "rk_fromisoformat toy_records now = Some now" "rp_roles toy_pointer = [(''code'', default_role_config)]" for data now
    by (simp_all add: toy_records_def toy_pointer_def)
  ultimately have fa: "faithful toy_codec toy_records empty_graph [(''gate.plan'', toy_spec)] toy_pointer"
    unfolding faithful_def by (simp only: shape toy_parse) simp
  have cl: "store_clean toy_codec empty_graph [(''gate.plan'', toy_spec)] Map.empty"
    by (simp add: store_clean_def read_layout_def read_text_def)
  have safe: "safe_run_id ''run-1''" by code_simp
  have ty: "\<forall>(k, s) \<in> set [(''gate.plan'', toy_spec)]. nt_type s = k" by (simp add: toy_spec_def gate_spec_def)
  have "distinct (dict_keys [(''code'', default_role_config)])" "distinct (dict_keys [(''gate.plan'', toy_spec)])" by simp_all
  note keys = this
  define fs' where "fs' = start_graph_run toy_codec (\<lambda>path. True) [(''gate.plan'', toy_spec)] empty_graph
    [(''code'', default_role_config)] ''run-1'' ''2026-01-01T00:00:00+00:00'' Map.empty"
  note started = start_pins_run [OF p fa cl safe keys ty fs'_def]
  have fields: "toy_pointer\<lparr>rp_roles := [(''code'', default_role_config)]\<rparr> = toy_pointer" "rp_graph_sha toy_pointer = zero_sha"
    "rp_layout_sha toy_pointer = zero_sha" by (simp_all add: toy_pointer_def)
  from started show ?thesis unfolding reg fields dict_sorted_single by (rule exI [of _ fs'])
qed

end
