(* ===== verification/Spec2Isabelle.thy ===== *)
theory Spec2Isabelle
  imports Engine_Properties Validate_Properties Dispatch_Properties Gate_Host Schedule_Board Merge_Properties Role_Properties Code_Properties Identity_Corrections Graph_Records
begin

text \<open>
  A verification development for the pipeline engine of Kroker (\<open>src/src/sdlc\<close>, Python).

  Kroker runs a software pipeline that is data: a graph of typed nodes and edges. A client picks or
  edits a graph, the validator accepts it, a Temporal workflow dispatches it through a pure router,
  node handlers do the work of the stages, human gates decide between them, and the task board and
  the graph store keep what happened.

  Parts and theories. Paths are relative to \<open>src/src/sdlc\<close>.

  \<^item> \<open>Kroker_Prelude\<close>: Python dictionaries as association lists, string operations, sorting, and the
    lemmas on them. \<open>Core_Models\<close>: the envelopes of \<open>core/models.py\<close>.
  \<^item> \<open>Graph_Model\<close> (\<open>graph/model.py\<close>): ports, nodes, edges, graphs, canonical JSON, hashes.
    \<open>Node_Types\<close> (\<open>graph/node_types.py\<close>, \<open>graph/payloads.py\<close>): the catalogue and its self-check.
  \<^item> \<open>Graph_Topology\<close>, \<open>Topology_Correct\<close>, \<open>Tarjan_Correct\<close> (\<open>graph/topology.py\<close>): edge ids, forward
    reachability and the iterative component search, with their correctness.
  \<^item> \<open>Graph_Router\<close> (\<open>graph/router.py\<close>): the reducer. \<open>Router_Invariants\<close>, \<open>Router_Steps\<close> and
    \<open>Router_Reach\<close> carry its invariant through every helper; \<open>Engine_Properties\<close> states what a run of
    a validated graph guarantees. \<open>Router_Effects\<close> is the part of its contract that the dispatcher
    needs.
  \<^item> \<open>Agent_Registry\<close> (\<open>agents/loader.py\<close>, \<open>agents/model_ids.py\<close>): the role and model checks.
  \<^item> \<open>Graph_Validate\<close> (\<open>graph/validate.py\<close>): every check as a list of problems. \<open>Validate_Sound\<close> shows
    that an accepted graph satisfies the router's contract, \<open>Validate_Properties\<close> says what acceptance
    means for the graph. \<open>Review_Loop\<close> is a concrete accepted graph with a loop, run to exhaustion;
    it is the example of most witnesses.
  \<^item> \<open>Graph_Catalog\<close> (\<open>workflows/graph_catalog.py\<close>, \<open>workflows/graphs\<close>): the shipped graphs, executability
    and the input of a run. \<open>Graph_Dispatch\<close> and \<open>Dispatch_Properties\<close>
    (\<open>workflows/graph_dispatch.py\<close>): the dispatch loop over the router.
  \<^item> \<open>Run_View\<close> (\<open>graph/run_view.py\<close>): what a surface is shown.
  \<^item> \<open>Notify_Schedule\<close> (\<open>notify/schedule.py\<close>), \<open>Quality_Gate\<close> (\<open>gate.py\<close>), \<open>Gate_Host\<close>
    (\<open>workflows/gates.py\<close>, \<open>pending.py\<close>): when a gate notifies, the merge verdict, the durable gate.
  \<^item> \<open>Board_Store\<close> and \<open>Board_Properties\<close> (\<open>board\<close>, \<open>artifacts/store.py\<close>): the task board.
  \<^item> \<open>Task_Plan\<close> (\<open>stages/plan/validation.py\<close>): the task graph of a plan and its validation.
    \<open>Task_Schedule\<close>, \<open>Schedule_Properties\<close> and \<open>Schedule_Board\<close> (\<open>workflows/build.py\<close>,
    \<open>workflows/board_host.py\<close>): the execution of a plan in waves and what the board shows of it.
  \<^item> \<open>Calibration\<close> and \<open>Calibration_Properties\<close> (\<open>calibration\<close>, the statistic of
    \<open>benchmarks/calibration.py\<close>): the ledger of past automatic approvals and the rule it guards.
    \<open>Gate_Review\<close> and \<open>Review_Properties\<close> (\<open>workflows/role_host.py\<close>,
    \<open>workflows/graph_nodes/gate.py\<close>): the review of a proposal, as the loop of the workflow and as the gate of
    a graph. \<open>Merge_Stage\<close> and \<open>Merge_Properties\<close> (\<open>stages/merge/step.py\<close>,
    \<open>stages/review/lenses.py\<close>, \<open>measurement.py\<close>): the checks and the decision of the merge stage.
    \<open>Role_Host\<close> and \<open>Role_Properties\<close> (\<open>workflows/role_host.py\<close>, \<open>workflows/report_host.py\<close>,
    \<open>workflows/question_host.py\<close>, \<open>observability/usage.py\<close>, \<open>memoization/cache.py\<close>,
    \<open>agents/roles.py\<close>): usage accounting, the run budget, the stage cache and questionnaires.
  \<^item> \<open>Code_Stage\<close> and \<open>Code_Properties\<close> (\<open>stages/code/step.py\<close>, \<open>stages/code/freeze.py\<close>, the issue list of
    \<open>stages/qa/step.py\<close>): the fix loop of one task, from the harness call to the result the scheduler gets.
  \<^item> Capability identity (\<open>capability\<close>, \<open>discover_lock\<close> of \<open>assessment/activities.py\<close>). \<open>Identity_Match\<close>:
    fingerprints, the score of a pair, the greedy assignment, \<open>resolve\<close> and the rows it changes.
    \<open>Identity_Store\<close>: the tables, the allocator, the versioned write, corrections, and both clients as
    interleaved sessions. \<open>Identity_Assign\<close> and \<open>Identity_Resolve\<close> show what a resolution is,
    \<open>Identity_Safety\<close> and \<open>Identity_Batches\<close> carry the invariant through mints, writes and batches,
    \<open>Identity_Properties\<close> states it for every reachable registry, \<open>Identity_Corrections\<close> is about issuing a
    correction again, and \<open>Identity_Example\<close> is the example of their witnesses. \<open>Measurement\<close>
    (\<open>measurement.py\<close>) is shared with the merge stage.
  \<^item> \<open>Graph_Store\<close> and \<open>Graph_Records\<close> (\<open>graph/io.py\<close>, \<open>graph/store.py\<close>, \<open>graph/start.py\<close>): graph text, the
    content-addressed store, registry snapshots, run pointers and the client start.

  State and operations. A frozen model or dataclass is a record with the field names of the source
  behind a short prefix, an enumeration or tagged union a datatype. A method that mutates its object
  takes the record and returns it updated. An exception is the left summand of the result, so every
  raise and early return is a branch. Loops over lists are recursion on the list; the worklist loops
  (\<open>forward_reach\<close>, the component search, the settling of dead nodes) are total functions with a
  measure. The depth-first search of plan validation has the number of tasks as fuel, which is proved never
  to run out (\<open>validate_task_graph_exact\<close>). What runs concurrently in Temporal is an explicit sequence of
  steps: the events of \<open>advance\<close> in any order (\<open>reachable\<close>), the iterations of the dispatch loop with
  handler completions arriving in any order (\<open>dispatch_reach\<close>), the signals, deadlines and deliveries
  around an open gate (\<open>gate_step\<close>), the reads, computations and writes of capability sessions (\<open>id_step\<close>), the transactions of the board (\<open>board_step\<close>), the starts, ends and
  merges of tasks (\<open>sched_act\<close>).

  Interfaces. \<open>topology_laws\<close> is what the router expects of a topology: the router's lemmas are
  proved in it, \<open>legal_graph\<close> is a sublocale of it, which is the soundness of the validator, and
  \<open>Review_Loop\<close> interprets it on the model's own validator and catalogue.

  What the lemmas show. Engine: loop bounds, no lost or doubled activation, termination, liveness,
  the one cause of an escalation, absorbing outcomes, idempotent redelivery. Validator: soundness of
  its structure, port and ADR-6 checks, and a report that is exact. Dispatcher: only handler faults
  leave the loop, it never stalls, inputs always resolve. Gates: a decision is never replaced, a
  waiting gate always decides, HOLD never times out, the merge gate fails closed. Board: the event
  log replays to the state, lineage, idempotent publication, agents never move the truth. Store:
  round trips of graphs, snapshots and pointers, integrity of every read, locality of writes. Plans:
  validation is exact, the scheduler never deadlocks, respects dependencies and overlaps, merges
  once, ends, and the board follows it. Reviews: bounded rounds under fresh keys, one meaning of a
  review in the workflow and in the graph, automatic approval only where the ledger earned it. Merge:
  fails closed, rests on measured evidence, asks under a soft policy. Hosts: spending stops at the
  budget, accounts replay from the trace, the cache serves the same work only, a questionnaire
  returns first answers. Code stage: the fix loop ends within its budgets (a measure of gate rounds and
  attempts, and one of tool escalations inside an attempt), done is earned, tests stay frozen, grants
  are asked. Capability identity: the assignment is the one stable matching, reports say what the scores
  say, an id is never handed out twice, a write rests on what was read, and the registry always loads.

  Parameters. SHA-256, the YAML library, pydantic's validation of parsed data, \<open>json.loads\<close>, ISO
  parsing of a datetime, the acceptance of a model name by the model library, the outcome of
  \<open>os.replace\<close>, and the behaviour of node handlers. A property that relies on one of them says so in a
  hypothesis, and its witness instantiates it. SQLite is the record of its tables with a transaction
  as one step. Datetimes of the schedule are integers of microseconds with Python's range limits;
  floats are their text, and their arithmetic is the parameter \<open>float_ops\<close>; the scores of capability
  pairs are any linear order with the arithmetic \<open>num_ops\<close>.

  Not modelled. Temporal itself and the workflow classes that only sequence activities; the node
  handlers and the stages other than plan validation, code and merge, which prompt agents and run tools;
  the wording of prompts; the
  other hosts of a workflow (tasks, memory, benchmarks, runs); the retries of an activity and the
  integration head of a wave, of which the scheduler sees the result only; HTTP, command-line and dashboard surfaces; file
  discovery of the agent registry and of store roots; concurrent writers of one graph store;
  assessment beyond capability identity, triage, benchmarks, evaluation and the reporting ledgers.

  What modelling showed. A torn store file blocks its graph (\<open>torn_file_blocks_put\<close>), a malformed run
  pointer raises (\<open>pointer_type_error\<close>), a decision that lands during the expiry notification is
  ignored (\<open>late_decision_lost\<close>), a large reminder overflows the schedule (\<open>schedule_overflow\<close>), an
  agent can reopen a task the workflow completed (\<open>agent_reopens_done\<close>), and content published as
  rejected cannot become current in the same run (\<open>rejected_content_stays_rejected\<close>). A task that
  raises leaves its wave siblings in progress on the board (\<open>crash_leaves_sibling\<close>), an override under
  a merge policy that is off is recorded as a human's (\<open>off_override_recorded_as_human\<close>), a gate the
  configuration does not name is never approved automatically even under a soft default
  (\<open>unnamed_gate_never_auto\<close>), and questions left at the deadline raise and stay pending
  (\<open>deadline_leaves_questions\<close>). The tool gates of two tasks of a run share their keys, so the answer to one
  call decides an unrelated one (\<open>foreign_decision_granted\<close>), and a crew is never given a fresh session
  (\<open>crew_never_fresh\<close>). An accepted split is refused when it is issued again (\<open>correction_reissue\<close>), and a
  merged capability can be two steps from its live head (\<open>chain_of_two\<close>).
\<close>

end
